(* ===== verification/Prelude.thy ===== *)
theory Prelude
  imports Main "HOL-Library.Word"
begin

text \<open>
  Shared vocabulary of the development: the machine integers of the i386 C dialect, the
  faults a kernel routine can end in, the result type that carries them, and the generic
  lemmas on results, byte lists and words that the component theories share.

  A C routine that dereferences a null pointer, indexes past an object, calls
  \<^verbatim>\<open>panic\<close> (which loops forever) or loops forever by itself does not return a value, so its
  model returns \<open>Inl\<close> of the corresponding fault.
\<close>

unbundle bit_operations_syntax

subsection \<open>Machine types\<close>

type_synonym u8 = "8 word"
type_synonym u16 = "16 word"
type_synonym u32 = "32 word"

text \<open>Bounds and widenings of these words as numbers.\<close>

lemma unat_less_8: "unat (a :: u8) < 256"
  using unsigned_less[of a] by simp

lemma unat_less_16: "unat (a :: u16) < 65536"
  using unsigned_less[of a] by simp

lemma unat_less_32: "unat (a :: u32) < 4294967296"
  using unsigned_less[of a] by simp

lemma unat_widen:
  "unat (ucast (a :: u8) :: u16) = unat a"
  "unat (ucast (a :: u8) :: u32) = unat a"
  "unat (ucast (b :: u16) :: u32) = unat b"
  using unat_less_8[of a] unat_less_16[of b]
  by (simp_all add: unsigned_ucast_eq take_bit_nat_eq_self_iff)

lemma unat_narrow_16: "unat (ucast (c :: u32) :: u16) = unat c mod 65536"
  by (simp add: unsigned_ucast_eq take_bit_eq_mod)

lemma unat_narrow_8:
  "unat (ucast (c :: u32) :: u8) = unat c mod 256"
  "unat (ucast (b :: u16) :: u8) = unat b mod 256"
  by (simp_all add: unsigned_ucast_eq take_bit_eq_mod)

lemma ucast_of_nat_16: "(ucast (of_nat x :: u32) :: u16) = of_nat x"
  by (rule word_unat_eq_iff[THEN iffD2]) (simp add: unat_narrow_16 unat_of_nat mod_mod_cancel)

lemma unat_not_16: "unat (NOT (b :: u16)) = 65535 - unat b"
proof -
  have "NOT b = - 1 - b" by (simp add: not_eq_complement)
  moreover have "unat (- 1 - b) = unat (- 1 :: u16) - unat b"
    by (rule unat_sub) (simp add: word_order.extremum)
  ultimately show ?thesis by (simp add: unsigned_minus_1_eq_mask mask_eq_exp_minus_1)
qed

subsection \<open>Faults and results\<close>

datatype fault =
    NullDeref     \<comment> \<open>a read or a call through a null pointer\<close>
  | OutOfBounds   \<comment> \<open>an access outside the object the pointer points into\<close>
  | Uninit        \<comment> \<open>the value of a local the code never assigned is used\<close>
  | Panic         \<comment> \<open>\<^verbatim>\<open>panic()\<close>, which prints and loops forever\<close>
  | Hang          \<comment> \<open>a loop of the code that never ends\<close>
  | Dangling      \<comment> \<open>an access through a pointer to an object whose lifetime has ended\<close>
  | DivError      \<comment> \<open>a division by zero (the \<^verbatim>\<open>#DE\<close> exception)\<close>

type_synonym 'a res = "fault + 'a"

definition rbind :: "'a res \<Rightarrow> ('a \<Rightarrow> 'b res) \<Rightarrow> 'b res" where
  "rbind m f = (case m of Inl e \<Rightarrow> Inl e | Inr x \<Rightarrow> f x)"

definition rmap :: "('a \<Rightarrow> 'b) \<Rightarrow> 'a res \<Rightarrow> 'b res" where
  "rmap f m = (case m of Inl e \<Rightarrow> Inl e | Inr x \<Rightarrow> Inr (f x))"

text \<open>A loop modelled by a \<open>partial_function (option)\<close>: \<open>None\<close> is non-termination.\<close>

definition terminates :: "'a option \<Rightarrow> 'a res" where
  "terminates m = (case m of None \<Rightarrow> Inl Hang | Some x \<Rightarrow> Inr x)"

named_theorems res_simps \<open>evaluation of results\<close>
named_theorems byte_simps \<open>evaluation of byte encodings\<close>

lemma rbind_simps [simp, res_simps]:
  "rbind (Inl e) f = Inl e"
  "rbind (Inr x) f = f x"
  by (simp_all add: rbind_def)

lemma rmap_simps [simp, res_simps]:
  "rmap f (Inl e) = Inl e"
  "rmap f (Inr x) = Inr (f x)"
  by (simp_all add: rmap_def)

lemma terminates_simps [simp, res_simps]:
  "terminates None = Inl Hang"
  "terminates (Some x) = Inr x"
  by (simp_all add: terminates_def)

lemma rbind_Inr_conv: "rbind m f = Inr y \<longleftrightarrow> (\<exists>x. m = Inr x \<and> f x = Inr y)"
  by (cases m) auto

lemma rmap_Inr_conv: "rmap f m = Inr y \<longleftrightarrow> (\<exists>x. m = Inr x \<and> y = f x)"
  by (cases m) auto

lemma rbindE: "rbind m f = Inr y \<Longrightarrow> (\<And>x. m = Inr x \<Longrightarrow> f x = Inr y \<Longrightarrow> P) \<Longrightarrow> P"
  by (cases m) auto

lemma rmapE: "rmap f m = Inr y \<Longrightarrow> (\<And>x. m = Inr x \<Longrightarrow> y = f x \<Longrightarrow> P) \<Longrightarrow> P"
  by (cases m) auto

lemma rbind_cong: "(\<And>x. m = Inr x \<Longrightarrow> f x = g x) \<Longrightarrow> rbind m f = rbind m g"
  by (cases m) auto

text \<open>Recursive calls behind a result that is needed for the measure.\<close>

lemma rbind_fundef_cong [fundef_cong]:
  "m = m' \<Longrightarrow> (\<And>x. m' = Inr x \<Longrightarrow> f x = g x) \<Longrightarrow> rbind m f = rbind m' g"
  by (auto intro: rbind_cong)

lemma rbind_assoc: "rbind (rbind m f) g = rbind m (\<lambda>x. rbind (f x) g)"
  by (cases m) auto

lemma terminates_Inr_conv: "terminates m = Inr x \<longleftrightarrow> m = Some x"
  by (cases m) auto

text \<open>Running an operation once for each of a list of inputs.\<close>

fun run_steps :: "('i \<Rightarrow> 's \<Rightarrow> 's res) \<Rightarrow> 'i list \<Rightarrow> 's \<Rightarrow> 's res" where
  "run_steps step [] s = Inr s"
| "run_steps step (i # is) s = rbind (step i s) (run_steps step is)"

lemma run_steps_append: "run_steps step (xs @ ys) s = rbind (run_steps step xs s) (run_steps step ys)"
  by (induction xs arbitrary: s) (auto simp: rbind_def split: sum.splits)

lemma run_steps_concat: "run_steps (\<lambda>i. run_steps step (f i)) is s = run_steps step (concat (map f is)) s"
proof (induction "is" arbitrary: s)
  case (Cons i "is")
  then show ?case by (simp add: run_steps_append) (simp add: rbind_def split: sum.splits)
qed simp

text \<open>Array access with the bounds check that C leaves to the programmer.\<close>

definition arr_get :: "'a list \<Rightarrow> nat \<Rightarrow> 'a res" where
  "arr_get xs i = (if i < length xs then Inr (xs ! i) else Inl OutOfBounds)"

definition arr_set :: "'a list \<Rightarrow> nat \<Rightarrow> 'a \<Rightarrow> 'a list res" where
  "arr_set xs i x = (if i < length xs then Inr (xs[i := x]) else Inl OutOfBounds)"

lemma arr_get_in [simp]: "i < length xs \<Longrightarrow> arr_get xs i = Inr (xs ! i)"
  by (simp add: arr_get_def)

lemma arr_set_in [simp]: "i < length xs \<Longrightarrow> arr_set xs i x = Inr (xs[i := x])"
  by (simp add: arr_set_def)

lemma arr_get_Inr_conv: "arr_get xs i = Inr x \<longleftrightarrow> i < length xs \<and> x = xs ! i"
  by (auto simp: arr_get_def)

subsection \<open>Little-endian stores and loads\<close>

text \<open>
  The i386 stores the low byte first. \<open>le16\<close> and \<open>le32\<close> are the bytes that a store of a
  16- or 32-bit value writes, \<open>of_le16\<close> and \<open>of_le32\<close> what a load reads back.
\<close>

definition le16 :: "u16 \<Rightarrow> u8 list" where
  "le16 w = [ucast w, ucast (drop_bit 8 w)]"

definition le32 :: "u32 \<Rightarrow> u8 list" where
  "le32 w = [ucast w, ucast (drop_bit 8 w), ucast (drop_bit 16 w), ucast (drop_bit 24 w)]"

definition of_le16 :: "u8 \<Rightarrow> u8 \<Rightarrow> u16" where
  "of_le16 a b = ucast a OR push_bit 8 (ucast b)"

definition of_le32 :: "u8 \<Rightarrow> u8 \<Rightarrow> u8 \<Rightarrow> u8 \<Rightarrow> u32" where
  "of_le32 a b c d =
     ucast a OR push_bit 8 (ucast b) OR push_bit 16 (ucast c) OR push_bit 24 (ucast d)"

lemma length_le [simp]: "length (le16 w) = 2" "length (le32 x) = 4"
  by (simp_all add: le16_def le32_def)

lemma of_le16_le16 [simp]: "of_le16 (ucast w) (ucast (drop_bit 8 w)) = w"
  by (rule bit_word_eqI)
     (auto simp: of_le16_def bit_or_iff bit_push_bit_iff bit_ucast_iff bit_drop_bit_eq)

lemma of_le32_le32 [simp]:
  "of_le32 (ucast w) (ucast (drop_bit 8 w)) (ucast (drop_bit 16 w)) (ucast (drop_bit 24 w)) = w"
proof (rule bit_word_eqI)
  fix n
  assume "n < LENGTH(32)"
  then consider "n < 8" | "8 \<le> n" "n < 16" | "16 \<le> n" "n < 24" | "24 \<le> n" "n < 32"
    by fastforce
  then show "bit (of_le32 (ucast w) (ucast (drop_bit 8 w)) (ucast (drop_bit 16 w))
               (ucast (drop_bit 24 w))) n \<longleftrightarrow> bit w n"
    by cases (auto simp: of_le32_def bit_or_iff bit_push_bit_iff bit_ucast_iff bit_drop_bit_eq)
qed

lemma of_le16_parts [simp]:
  "ucast (of_le16 a b) = a" "ucast (drop_bit 8 (of_le16 a b)) = b"
  by (rule bit_word_eqI;
      auto simp: of_le16_def bit_or_iff bit_push_bit_iff bit_ucast_iff bit_drop_bit_eq
           dest: bit_imp_le_length)+

lemma le16_inject [simp]: "le16 v = le16 w \<longleftrightarrow> v = w"
proof
  assume "le16 v = le16 w"
  then have "of_le16 (ucast v) (ucast (drop_bit 8 v)) = of_le16 (ucast w) (ucast (drop_bit 8 w))"
    by (simp only: le16_def list.inject)
  then show "v = w" by simp
qed simp

lemma le32_inject [simp]: "le32 v = le32 w \<longleftrightarrow> v = w"
proof
  assume "le32 v = le32 w"
  then have "of_le32 (ucast v) (ucast (drop_bit 8 v)) (ucast (drop_bit 16 v)) (ucast (drop_bit 24 v))
    = of_le32 (ucast w) (ucast (drop_bit 8 w)) (ucast (drop_bit 16 w)) (ucast (drop_bit 24 w))"
    by (simp only: le32_def list.inject)
  then show "v = w" by simp
qed simp

text \<open>Loads at a byte offset of a buffer.\<close>

definition get16 :: "u8 list \<Rightarrow> nat \<Rightarrow> u16" where
  "get16 b i = of_le16 (b ! i) (b ! (i + 1))"

definition get32 :: "u8 list \<Rightarrow> nat \<Rightarrow> u32" where
  "get32 b i = of_le32 (b ! i) (b ! (i + 1)) (b ! (i + 2)) (b ! (i + 3))"

text \<open>The same loads with the bounds of the object checked.\<close>

definition ld8 :: "u8 list \<Rightarrow> nat \<Rightarrow> u8 res" where
  "ld8 b i = (if i < length b then Inr (b ! i) else Inl OutOfBounds)"

definition ld16 :: "u8 list \<Rightarrow> nat \<Rightarrow> u16 res" where
  "ld16 b i = (if i + 2 \<le> length b then Inr (get16 b i) else Inl OutOfBounds)"

definition ld32 :: "u8 list \<Rightarrow> nat \<Rightarrow> u32 res" where
  "ld32 b i = (if i + 4 \<le> length b then Inr (get32 b i) else Inl OutOfBounds)"

definition ld_bytes :: "u8 list \<Rightarrow> nat \<Rightarrow> nat \<Rightarrow> u8 list res" where
  "ld_bytes b i n = (if i + n \<le> length b then Inr (take n (drop i b)) else Inl OutOfBounds)"

lemma ld_in [simp]:
  "i < length b \<Longrightarrow> ld8 b i = Inr (b ! i)"
  "i + 2 \<le> length b \<Longrightarrow> ld16 b i = Inr (get16 b i)"
  "i + 4 \<le> length b \<Longrightarrow> ld32 b i = Inr (get32 b i)"
  "i + n \<le> length b \<Longrightarrow> ld_bytes b i n = Inr (take n (drop i b))"
  by (simp_all add: ld8_def ld16_def ld32_def ld_bytes_def)

lemma get16_append_le16 [simp]: "length xs = i \<Longrightarrow> get16 (xs @ le16 w @ ys) i = w"
  by (simp add: get16_def le16_def nth_append)

lemma get32_append_le32 [simp]: "length xs = i \<Longrightarrow> get32 (xs @ le32 w @ ys) i = w"
  by (simp add: get32_def le32_def nth_append)

end
