(* ===== verification/CString.thy ===== *)
theory CString
  imports Prelude
begin

text \<open>
  lib/string.c and the inline routines of include/string.h. A \<^verbatim>\<open>const char *\<close> is the list of
  the bytes from the pointer to the end of the object it points into, so \<^verbatim>\<open>++p\<close> is the tail
  and a read from \<open>[]\<close> is a read past the object. A returned pointer into the argument is
  its offset; \<^verbatim>\<open>NULL\<close> is \<open>None\<close>.
\<close>

unbundle bit_operations_syntax

subsection \<open>Searching and measuring\<close>

fun strchr :: "u8 list \<Rightarrow> u8 \<Rightarrow> nat option res" where
  "strchr [] c = Inl OutOfBounds"
| "strchr (x # xs) c =
     (if x = c then Inr (Some 0)
      else if x = 0 then Inr None
      else rmap (map_option Suc) (strchr xs c))"

fun strlen :: "u8 list \<Rightarrow> nat res" where
  "strlen [] = Inl OutOfBounds"
| "strlen (x # xs) = (if x = 0 then Inr 0 else rmap Suc (strlen xs))"

text \<open>The inner loop of \<^verbatim>\<open>strcspn\<close>: does \<^verbatim>\<open>*p\<close> occur in \<^verbatim>\<open>str2\<close>?\<close>

fun strcspn_hit :: "u8 \<Rightarrow> u8 list \<Rightarrow> bool res" where
  "strcspn_hit c [] = Inl OutOfBounds"
| "strcspn_hit c (r # rs) =
     (if r = 0 then Inr False else if c = r then Inr True else strcspn_hit c rs)"

fun strcspn_loop :: "u8 list \<Rightarrow> u8 list \<Rightarrow> u32 \<Rightarrow> u32 res" where
  "strcspn_loop [] s2 count = Inl OutOfBounds"
| "strcspn_loop (p # ps) s2 count =
     (if p = 0 then Inr count
      else rbind (strcspn_hit p s2)
             (\<lambda>hit. if hit then Inr count else strcspn_loop ps s2 (count + 1)))"

definition strcspn :: "u8 list \<Rightarrow> u8 list \<Rightarrow> u32 res" where
  "strcspn s1 s2 = strcspn_loop s1 s2 0"

subsection \<open>Comparing\<close>

text \<open>\<^verbatim>\<open>char\<close> is signed on this target, and the \<^verbatim>\<open>int\<close> difference is returned as \<^verbatim>\<open>size_t\<close>.\<close>

definition char_diff :: "u8 \<Rightarrow> u8 \<Rightarrow> u32" where
  "char_diff a b = scast a - scast b"

fun strcmp_loop :: "u8 list \<Rightarrow> u8 list \<Rightarrow> u32 res" where
  "strcmp_loop (x # xs) (y # ys) =
     (if x \<noteq> 0 \<and> y \<noteq> 0 \<and> x = y then strcmp_loop xs ys else Inr (char_diff x y))"
| "strcmp_loop _ _ = Inl OutOfBounds"

text \<open>The pointers themselves matter in the null test only.\<close>

definition strcmp :: "u32 \<Rightarrow> u8 list \<Rightarrow> u32 \<Rightarrow> u8 list \<Rightarrow> u32 res" where
  "strcmp p1 s1 p2 s2 =
     (if p1 = 0 \<or> p2 = 0 then Inr (p1 - p2) else strcmp_loop s1 s2)"

fun memcmp :: "u8 list \<Rightarrow> u8 list \<Rightarrow> nat \<Rightarrow> int res" where
  "memcmp s1 s2 0 = Inr 0"
| "memcmp (x # xs) (y # ys) (Suc n) =
     (if uint x - uint y \<noteq> 0 then Inr (uint x - uint y) else memcmp xs ys n)"
| "memcmp _ _ (Suc n) = Inl OutOfBounds"

subsection \<open>Copying\<close>

text \<open>The destination object after the call; the source keeps its place at its terminator.\<close>

fun strncpy :: "u8 list \<Rightarrow> u8 list \<Rightarrow> nat \<Rightarrow> u8 list res" where
  "strncpy dst src 0 = Inr dst"
| "strncpy (d # ds) (s # ss) (Suc n) =
     rmap ((#) s) (strncpy ds (if s \<noteq> 0 then ss else s # ss) n)"
| "strncpy _ _ (Suc n) = Inl OutOfBounds"

fun memcpy :: "u8 list \<Rightarrow> u8 list \<Rightarrow> nat \<Rightarrow> u8 list res" where
  "memcpy dst src 0 = Inr dst"
| "memcpy (d # ds) (s # ss) (Suc n) = rmap ((#) s) (memcpy ds ss n)"
| "memcpy _ _ (Suc n) = Inl OutOfBounds"

fun memset :: "u8 list \<Rightarrow> u8 \<Rightarrow> nat \<Rightarrow> u8 list res" where
  "memset dst c 0 = Inr dst"
| "memset (d # ds) c (Suc n) = rmap ((#) c) (memset ds c n)"
| "memset [] c (Suc n) = Inl OutOfBounds"

fun strcpy :: "u8 list \<Rightarrow> u8 list \<Rightarrow> u8 list res" where
  "strcpy (d # ds) (s # ss) = (if s = 0 then Inr (s # ds) else rmap ((#) s) (strcpy ds ss))"
| "strcpy _ _ = Inl OutOfBounds"

subsection \<open>The string a buffer holds\<close>

definition cstr :: "u8 list \<Rightarrow> u8 list" where
  "cstr b = takeWhile (\<lambda>c. c \<noteq> 0) b"

lemma cstr_simps [simp]:
  "cstr [] = []"
  "cstr (x # xs) = (if x = 0 then [] else x # cstr xs)"
  by (simp_all add: cstr_def)

lemma zero_notin_cstr [simp]: "0 \<notin> set (cstr b)"
  by (auto simp: cstr_def dest: set_takeWhileD)

lemma cstr_append_zero [simp]: "0 \<notin> set s \<Longrightarrow> cstr (s @ 0 # r) = s"
  by (induction s) auto

lemma cstr_no_zero: "0 \<notin> set s \<Longrightarrow> cstr s = s"
  by (induction s) auto

lemma strlen_cstr: "0 \<in> set b \<Longrightarrow> strlen b = Inr (length (cstr b))"
  by (induction b rule: strlen.induct) auto

lemma strchr_found:
  "0 \<in> set b \<Longrightarrow> c \<noteq> 0 \<Longrightarrow>
   strchr b c = Inr (if c \<in> set (cstr b)
                     then Some (length (takeWhile (\<lambda>x. x \<noteq> c) b)) else None)"
  by (induction b) auto

lemma char_diff_0_iff [simp]: "char_diff a b = 0 \<longleftrightarrow> a = b"
proof
  assume "char_diff a b = 0"
  then have "(scast a :: u32) = scast b" by (simp add: char_diff_def)
  then have "sint (scast a :: u32) = sint (scast b :: u32)" by simp
  then have "sint a = sint b" by (simp add: sint_up_scast is_up)
  then show "a = b" by (simp only: signed_word_eqI)
qed (simp add: char_diff_def)

lemma strcmp_loop_returns:
  "0 \<in> set a \<Longrightarrow> 0 \<in> set b \<Longrightarrow> \<exists>r. strcmp_loop a b = Inr r \<and> (r = 0 \<longleftrightarrow> cstr a = cstr b)"
  by (induction a b rule: strcmp_loop.induct) auto

lemma strncpy_eq:
  "n \<le> length dst \<Longrightarrow> 0 \<in> set src \<Longrightarrow>
   strncpy dst src n =
     Inr (take n (cstr src) @ replicate (n - length (cstr src)) 0 @ drop n dst)"
proof (induction dst src n rule: strncpy.induct)
  case (2 d ds s ss n)
  then show ?case by (cases "s = 0") (auto simp: replicate_append_same)
qed auto

lemma memcpy_eq:
  "n \<le> length dst \<Longrightarrow> n \<le> length src \<Longrightarrow> memcpy dst src n = Inr (take n src @ drop n dst)"
  by (induction dst src n rule: memcpy.induct) auto

lemma memset_eq:
  "n \<le> length dst \<Longrightarrow> memset dst c n = Inr (replicate n c @ drop n dst)"
  by (induction dst c n rule: memset.induct) auto

lemma strcpy_eq:
  "0 \<in> set src \<Longrightarrow> length (cstr src) < length dst \<Longrightarrow>
   strcpy dst src = Inr (cstr src @ 0 # drop (Suc (length (cstr src))) dst)"
  by (induction dst src rule: strcpy.induct) auto

lemma strcspn_hit_eq: "0 \<in> set s \<Longrightarrow> strcspn_hit c s = Inr (c \<in> set (cstr s))"
  by (induction s) auto

lemma strcspn_loop_eq:
  "0 \<in> set s1 \<Longrightarrow> 0 \<in> set s2 \<Longrightarrow>
   strcspn_loop s1 s2 k =
     Inr (k + of_nat (length (takeWhile (\<lambda>c. c \<notin> set (cstr s2)) (cstr s1))))"
  by (induction s1 arbitrary: k) (auto simp: strcspn_hit_eq)

subsection \<open>Properties\<close>

text \<open>
  \<^verbatim>\<open>strcmp\<close> on two non-null terminated strings returns, and returns 0 exactly when the two
  strings are equal, whatever bytes follow their terminators.
\<close>

theorem strcmp_zero_iff_equal:
  assumes "p1 \<noteq> 0" and "p2 \<noteq> 0" and "0 \<in> set a" and "0 \<in> set b"
  shows "\<exists>r. strcmp p1 a p2 b = Inr r \<and> (r = 0 \<longleftrightarrow> cstr a = cstr b)"
  using strcmp_loop_returns[OF assms(3,4)] assms(1,2) by (simp add: strcmp_def)

theorem strcmp_zero_iff_equal_witness:
  "strcmp 4 [97, 98, 0, 7] 8 [97, 98, 0] = Inr 0 \<and> cstr [97, 98, 0, 7] = cstr [97, 98, 0 :: u8]"
  using strcmp_zero_iff_equal[of 4 8 "[97, 98, 0, 7]" "[97, 98, 0]"] by auto

text \<open>
  \<^verbatim>\<open>strncpy\<close> writes exactly n bytes of the destination: the source string cut at n and
  zero bytes up to n, and leaves the rest of the destination alone. In particular it does not
  terminate the copy when the string has n or more characters.
\<close>

theorem strncpy_copies_and_pads:
  assumes "n \<le> length dst" and "0 \<in> set src"
  shows "strncpy dst src n =
     Inr (take n (cstr src) @ replicate (n - length (cstr src)) 0 @ drop n dst)"
  using assms by (rule strncpy_eq)

theorem strncpy_copies_and_pads_witness:
  "strncpy [1, 1, 1, 1] [97, 0, 98] 3 = Inr [97, 0, 0, 1 :: u8]"
  using strncpy_copies_and_pads[of 3 "[1, 1, 1, 1]" "[97, 0, 98]"] by (simp add: numeral_eq_Suc)

end
