(* ===== verification/Memmove.thy ===== *)
theory Memmove
  imports Prelude
begin

text \<open>
  \<^verbatim>\<open>memmove\<close> of include/string.h, which is two instructions in each branch: the direction flag is set,
  and \<^verbatim>\<open>rep movsb\<close> copies \<^verbatim>\<open>ecx\<close> bytes from \<^verbatim>\<open>esi\<close> to \<^verbatim>\<open>edi\<close>, going up or down by the flag. Memory is a
  function from addresses to bytes; addresses and the length are natural numbers, so the length is not
  negative and no region wraps around the address space. The lemmas show that the branch on the order of the two pointers
  makes the copy right for any overlap, and that one branch returns with the flag set.
\<close>

subsection \<open>Operations\<close>

text \<open>The string instruction: the flag, and the registers \<^verbatim>\<open>ecx\<close>, \<^verbatim>\<open>esi\<close>, \<^verbatim>\<open>edi\<close>.\<close>

fun rep_movsb :: "bool \<Rightarrow> nat \<Rightarrow> nat \<Rightarrow> nat \<Rightarrow> (nat \<Rightarrow> u8) \<Rightarrow> nat \<Rightarrow> u8" where
  "rep_movsb df 0 esi edi m = m"
| "rep_movsb df (Suc ecx) esi edi m =
     rep_movsb df ecx (if df then esi - 1 else esi + 1) (if df then edi - 1 else edi + 1) (m(edi := m esi))"

text \<open>The memory, the returned pointer, and the direction flag afterwards.\<close>

definition memmove :: "nat \<Rightarrow> nat \<Rightarrow> nat \<Rightarrow> (nat \<Rightarrow> u8) \<Rightarrow> (nat \<Rightarrow> u8) \<times> nat \<times> bool" where
  "memmove dest src n m =
     (if dest < src then (rep_movsb False n src dest m, dest, False)
      else (rep_movsb True n (src + n - 1) (dest + n - 1) m, dest, True))"

subsection \<open>The copy\<close>

lemma movsb_up:
  "dest \<le> src \<Longrightarrow> rep_movsb False n src dest m a = (if dest \<le> a \<and> a < dest + n then m (src + (a - dest)) else m a)"
proof (induction n arbitrary: dest src m)
  case (Suc n)
  define m1 where "m1 = m(dest := m src)"
  have m1: "m1 x = (if x = dest then m src else m x)" for x by (simp add: m1_def)
  have "rep_movsb False (Suc n) src dest m a = rep_movsb False n (src + 1) (dest + 1) m1 a" by (simp add: m1_def)
  also have "\<dots> = (if dest + 1 \<le> a \<and> a < dest + 1 + n then m1 (src + 1 + (a - (dest + 1))) else m1 a)"
    using Suc.prems by (intro Suc.IH) simp
  moreover have "Suc (src + a - Suc dest) = src + a - dest" if "Suc dest \<le> a" using that by simp
  ultimately show ?case using Suc.prems by (auto simp: m1 not_le less_Suc_eq)
qed auto

lemma movsb_down:
  "src \<le> dest \<Longrightarrow> rep_movsb True n (src + n - 1) (dest + n - 1) m a =
    (if dest \<le> a \<and> a < dest + n then m (src + (a - dest)) else m a)"
proof (induction n arbitrary: m)
  case (Suc n)
  define m1 where "m1 = m(dest + n := m (src + n))"
  have m1: "m1 x = (if x = dest + n then m (src + n) else m x)" for x by (simp add: m1_def)
  have "rep_movsb True (Suc n) (src + Suc n - 1) (dest + Suc n - 1) m a = rep_movsb True n (src + n - 1) (dest + n - 1) m1 a"
    by (simp add: m1_def)
  also have "\<dots> = (if dest \<le> a \<and> a < dest + n then m1 (src + (a - dest)) else m1 a)" by (rule Suc.IH[OF Suc.prems])
  finally show ?case using Suc.prems by (auto simp: m1)
qed auto

subsection \<open>Properties\<close>

text \<open>
  C20. \<^verbatim>\<open>memmove\<close> gives the destination the bytes that the source had before, wherever the two regions lie and
  however they overlap, and changes no other byte. It returns with the direction flag set, so that string
  instructions go downwards, exactly when the destination is not below the source.
\<close>

theorem memmove_moves:
  "memmove dest src n m = (m', p, df) \<Longrightarrow>
    map m' [dest..<dest + n] = map m [src..<src + n] \<and> (\<forall>a. a < dest \<or> dest + n \<le> a \<longrightarrow> m' a = m a) \<and>
    p = dest \<and> (df \<longleftrightarrow> src \<le> dest)"
proof -
  assume a: "memmove dest src n m = (m', p, df)"
  have m': "m' b = (if dest \<le> b \<and> b < dest + n then m (src + (b - dest)) else m b)" for b
    using a movsb_up[of dest src n m b] movsb_down[of src dest n m b]
    by (cases "dest < src") (auto simp: memmove_def)
  have "map m' [dest..<dest + n] = map m [src..<src + n]" by (rule nth_equalityI) (simp_all add: m')
  then show ?thesis using a m' by (auto simp: memmove_def split: if_splits)
qed

theorem memmove_moves_witness:
  "\<exists>m' p. memmove 11 10 3 (\<lambda>a. of_nat a) = (m', p, True) \<and> map m' [11..<14] = [10, 11, 12] \<and> m' 10 = 10"
proof -
  obtain m' p df where m: "memmove 11 10 3 (\<lambda>a. of_nat a) = (m', p, df)" by (metis prod_cases3)
  from memmove_moves[OF m] have "map m' [11..<14] = [10, 11, 12]" "m' 10 = 10" "df" by (simp_all add: upt_rec)
  then show ?thesis using m by auto
qed

end
