(* ===== verification/NetOrder.thy ===== *)
theory NetOrder
  imports Prelude
begin

text \<open>
  include/net/net.h: conversion between host order (little endian) and network order. The
  routines shift unconditionally; the endianness test exists but is not consulted.
\<close>

unbundle bit_operations_syntax

definition htons :: "u16 \<Rightarrow> u16" where
  "htons h = push_bit 8 h OR drop_bit 8 h"

definition ntohs :: "u16 \<Rightarrow> u16" where
  "ntohs n = push_bit 8 n OR drop_bit 8 n"

definition htonl :: "u32 \<Rightarrow> u32" where
  "htonl h0 = (let h = (push_bit 8 h0 AND 0xFF00FF00) OR (drop_bit 8 h0 AND 0xFF00FF)
               in push_bit 16 h OR drop_bit 16 h)"

definition ntohl :: "u32 \<Rightarrow> u32" where
  "ntohl n0 = (let n = (push_bit 8 n0 AND 0xFF00FF00) OR (drop_bit 8 n0 AND 0xFF00FF)
               in push_bit 16 n OR drop_bit 16 n)"

text \<open>The union of an \<^verbatim>\<open>unsigned int\<close> and its four bytes: \<^verbatim>\<open>s[0]\<close> is the first byte stored.\<close>

definition check_cpu_endian :: bool where
  "check_cpu_endian = (0x12 = le32 0x12345678 ! 0)"

lemma check_cpu_endian_little: "\<not> check_cpu_endian"
  by (simp add: check_cpu_endian_def le32_def)

lemma ntoh_eq: "ntohs = htons" "ntohl = htonl"
  by (auto simp: fun_eq_iff ntohs_def htons_def ntohl_def htonl_def)

lemma le16_htons: "le16 (htons w) = rev (le16 w)"
  by (simp add: le16_def htons_def; intro conjI; rule bit_word_eqI)
     (auto simp: bit_or_iff bit_push_bit_iff bit_ucast_iff bit_drop_bit_eq
           dest: bit_imp_le_length)

lemma htons_htons [simp]: "htons (htons w) = w"
  by (rule bit_word_eqI)
     (auto simp: htons_def bit_or_iff bit_push_bit_iff bit_drop_bit_eq dest: bit_imp_le_length)

text \<open>The masks of the 32-bit conversion as runs of ones, so that bits can be read off.\<close>

lemma swap_masks:
  "(0xFF00FF00 :: u32) = push_bit 8 (mask 8) OR push_bit 24 (mask 8)"
  "(0xFF00FF :: u32) = mask 8 OR push_bit 16 (mask 8)"
  by (simp_all add: mask_eq_exp_minus_1)

lemma bit_htonl:
  "bit (htonl w) n \<longleftrightarrow>
     n < 8 \<and> bit w (n + 24) \<or> 8 \<le> n \<and> n < 16 \<and> bit w (n + 8) \<or>
     16 \<le> n \<and> n < 24 \<and> bit w (n - 8) \<or> 24 \<le> n \<and> n < 32 \<and> bit w (n - 24)"
proof (cases "n < 32")
  case True
  then consider "n < 8" | "8 \<le> n" "n < 16" | "16 \<le> n" "n < 24" | "24 \<le> n" "n < 32"
    by fastforce
  then show ?thesis
    by cases (auto simp: htonl_def Let_def swap_masks bit_or_iff bit_and_iff bit_push_bit_iff
                bit_drop_bit_eq bit_mask_iff add.commute dest: bit_imp_le_length)
qed (auto dest: bit_imp_le_length)

lemma htonl_htonl [simp]: "htonl (htonl w) = w"
proof (rule bit_word_eqI)
  fix n
  assume "n < LENGTH(32)"
  then consider "n < 8" | "8 \<le> n" "n < 16" | "16 \<le> n" "n < 24" | "24 \<le> n" "n < 32"
    by fastforce
  then show "bit (htonl (htonl w)) n \<longleftrightarrow> bit w n"
    by cases (auto simp: bit_htonl)
qed

lemma le32_htonl: "le32 (htonl w) = rev (le32 w)"
  by (simp add: le32_def; intro conjI; rule bit_word_eqI)
     (auto simp: bit_htonl bit_ucast_iff bit_drop_bit_eq add.commute)

subsection \<open>Property\<close>

text \<open>
  The conversions are what the protocols need: storing a converted value writes its bytes
  most significant first (the reverse of the machine's order), for 16 and 32 bits, and
  converting back returns the value.
\<close>

theorem network_order_is_big_endian:
  "le16 (htons v) = rev (le16 v) \<and> le32 (htonl w) = rev (le32 w)
   \<and> ntohs (htons v) = v \<and> ntohl (htonl w) = w"
  by (simp add: le16_htons le32_htonl ntoh_eq)

end
