(* ===== verification/Checksum.thy ===== *)
theory Checksum
  imports NetOrder
begin

text \<open>
  The Internet checksum of net/ip.c, \<^verbatim>\<open>ip_hdr_checksum\<close>: the code's 32-bit accumulator and
  its double folding, and its meaning as a sum modulo 65535.
\<close>

unbundle bit_operations_syntax

subsection \<open>The routine\<close>

text \<open>
  The buffer is the list of bytes from the pointer on. The loop takes 16-bit words while more
  than one byte of \<^verbatim>\<open>size\<close> is left; a last odd byte is added as it is.
\<close>

fun cksum_loop :: "u8 list \<Rightarrow> int \<Rightarrow> u32 \<Rightarrow> u32 res" where
  "cksum_loop (a # b # bs) sz acc =
     (if sz > 1 then cksum_loop bs (sz - 2) (acc + ucast (htons (of_le16 a b)))
      else if sz \<noteq> 0 then Inr (acc + ucast a) else Inr acc)"
| "cksum_loop [a] sz acc =
     (if sz > 1 then Inl OutOfBounds
      else if sz \<noteq> 0 then Inr (acc + ucast a) else Inr acc)"
| "cksum_loop [] sz acc =
     (if sz \<noteq> 0 then Inl OutOfBounds else Inr acc)"

definition cksum_fold :: "u32 \<Rightarrow> u16" where
  "cksum_fold c0 =
     (let c1 = drop_bit 16 c0 + (c0 AND 0xffff);
          c2 = c1 + drop_bit 16 c1
      in ucast (NOT c2))"

definition ip_hdr_checksum :: "u8 list \<Rightarrow> int \<Rightarrow> u16 res" where
  "ip_hdr_checksum buffer sz = rmap cksum_fold (cksum_loop buffer sz 0)"

subsection \<open>The sum it computes\<close>

text \<open>The sum of the big-endian 16-bit words, an odd last byte counted with weight one.\<close>

fun wsum :: "u8 list \<Rightarrow> nat" where
  "wsum (a # b # bs) = 256 * unat a + unat b + wsum bs"
| "wsum [a] = unat a"
| "wsum [] = 0"

lemma wsum_bound: "wsum bs \<le> 65535 * ((length bs + 1) div 2)"
proof (induction bs rule: wsum.induct)
  case (1 a b bs)
  then show ?case using unat_less_8[of a] unat_less_8[of b] by simp
next
  case (2 a)
  then show ?case using unat_less_8[of a] by simp
qed simp

lemma wsum_append_even:
  "even (length xs) \<Longrightarrow> wsum (xs @ ys) = wsum xs + wsum ys"
  by (induction xs rule: wsum.induct) auto

lemma wsum_replicate_0 [simp]: "wsum (replicate n 0) = 0"
proof (induction n rule: less_induct)
  case (less n)
  show ?case
  proof (cases "n < 2")
    case True
    then have "n = 0 \<or> n = 1" by auto
    then show ?thesis by auto
  next
    case False
    then obtain m where "n = Suc (Suc m)" by (metis add_2_eq_Suc le_add_diff_inverse not_less)
    then show ?thesis using less.IH[of m] by simp
  qed
qed

lemma unat_be16: "unat (htons (of_le16 a b)) = 256 * unat a + unat b"
proof -
  have "htons (of_le16 a b) = push_bit 8 (ucast a) + ucast b"
  proof -
    have "htons (of_le16 a b) = push_bit 8 (ucast a) OR ucast b"
      by (rule bit_word_eqI)
         (auto simp: htons_def of_le16_def bit_or_iff bit_push_bit_iff bit_ucast_iff
            bit_drop_bit_eq dest: bit_imp_le_length)
    also have "\<dots> = push_bit 8 (ucast a) + ucast b"
      by (subst disjunctive_add)
         (auto simp: bit_push_bit_iff bit_ucast_iff dest: bit_imp_le_length)
    finally show ?thesis .
  qed
  then show ?thesis
    using unat_less_8[of a] unat_less_8[of b]
    by (simp add: push_bit_eq_mult unat_word_ariths unat_widen)
qed

lemma cksum_loop_eq:
  "cksum_loop bs (int (length bs)) acc = Inr (acc + of_nat (wsum bs))"
proof (induction bs arbitrary: acc rule: wsum.induct)
  case (1 a b bs)
  have "(ucast (htons (of_le16 a b)) :: u32) = of_nat (256 * unat a + unat b)"
    by (metis unat_be16 of_nat_unat)
  then show ?case
    using 1[of "acc + ucast (htons (of_le16 a b))"] by (simp add: algebra_simps)
qed auto

lemma cksum_loop_prefix:
  "n \<le> length bs \<Longrightarrow> cksum_loop bs (int n) acc = cksum_loop (take n bs) (int n) acc"
proof (induction bs arbitrary: n acc rule: wsum.induct)
  case (1 a b bs)
  consider "n = 0" | "n = 1" | m where "n = Suc (Suc m)"
    by (metis One_nat_def nat.exhaust)
  then show ?case using 1 by cases auto
next
  case (2 a)
  then have "n = 0 \<or> n = 1" by auto
  then show ?case by auto
qed simp

subsection \<open>Folding\<close>

text \<open>
  The end-around carry on numbers: the value the code complements. It is the representative
  of the sum modulo 65535 that is 0 only for the sum 0.
\<close>

definition fold16 :: "nat \<Rightarrow> nat" where
  "fold16 s = (let c1 = s div 65536 + s mod 65536 in (c1 + c1 div 65536) mod 65536)"

lemma fold16_less: "fold16 s < 65536"
  by (simp add: fold16_def Let_def)

lemma fold16_cong: "s < 4294967296 \<Longrightarrow> fold16 s mod 65535 = s mod 65535"
  and fold16_0_iff: "s < 4294967296 \<Longrightarrow> fold16 s = 0 \<longleftrightarrow> s = 0"
proof -
  assume s: "s < 4294967296"
  define h l where "h = s div 65536" and "l = s mod 65536"
  have sl: "s = 65536 * h + l" and b: "h < 65536" "l < 65536"
    using s by (auto simp: h_def l_def)
  have m: "s mod 65535 = (h + l) mod 65535"
  proof -
    have "s mod 65535 = (h + l + 65535 * h) mod 65535" using sl by (simp add: algebra_simps)
    then show ?thesis by (simp only: mod_mult_self2)
  qed
  have f: "fold16 s = (if h + l < 65536 then h + l else h + l - 65535)"
  proof (cases "h + l < 65536")
    case False
    with b have "(h + l) div 65536 = 1" by auto
    moreover have "h + l + 1 = 65536 + (h + l - 65535)" "h + l - 65535 < 65536"
      using b False by auto
    then have "(h + l + 1) mod 65536 = h + l - 65535" by (metis mod_add_self1 mod_less)
    moreover note False
    ultimately show ?thesis by (simp add: fold16_def Let_def h_def[symmetric] l_def[symmetric])
  qed (simp add: fold16_def Let_def h_def[symmetric] l_def[symmetric])
  show "fold16 s mod 65535 = s mod 65535"
    using m f by (auto simp: mod_if)
  show "fold16 s = 0 \<longleftrightarrow> s = 0"
    using f sl by auto
qed

lemma unat_cksum_fold: "unat (cksum_fold c) = 65535 - fold16 (unat c)"
proof -
  define c1 where "c1 = drop_bit 16 c + (c AND 0xffff)"
  define c2 where "c2 = c1 + drop_bit 16 c1"
  have b: "unat c div 65536 < 65536" using unat_less_32[of c] by simp
  have m: "c AND 0xffff = take_bit 16 c"
    by (simp add: take_bit_eq_mask mask_eq_exp_minus_1)
  have u1: "unat c1 = unat c div 65536 + unat c mod 65536"
    using b by (simp add: c1_def m unat_word_ariths unat_drop_bit_eq unsigned_take_bit_eq
        drop_bit_eq_div take_bit_eq_mod)
  then have "unat c1 < 131072" using b by simp
  then have u2: "unat c2 = unat c1 + unat c1 div 65536"
    by (simp add: c2_def unat_word_ariths unat_drop_bit_eq drop_bit_eq_div)
  have "(ucast (NOT c2) :: u16) = NOT (ucast c2)"
    by (rule bit_word_eqI) (auto simp: bit_ucast_iff bit_not_iff dest: bit_imp_le_length)
  then have "unat (cksum_fold c) = 65535 - unat c2 mod 65536"
    by (simp add: cksum_fold_def Let_def c1_def[symmetric] c2_def[symmetric]
        unat_not_16 unat_narrow_16)
  then show ?thesis using u1 u2 by (simp add: fold16_def Let_def)
qed

lemma ip_hdr_checksum_eq:
  "length b \<le> 131072 \<Longrightarrow>
   ip_hdr_checksum b (int (length b)) = Inr (cksum_fold (of_nat (wsum b)))
   \<and> unat (of_nat (wsum b) :: u32) = wsum b \<and> wsum b < 4294967296 - 65535"
proof -
  assume "length b \<le> 131072"
  then have "65535 * ((length b + 1) div 2) \<le> 65535 * 65536" by (intro mult_le_mono2) simp
  then have "wsum b < 4294967296 - 65535" using wsum_bound[of b] by linarith
  then show ?thesis by (simp add: ip_hdr_checksum_def cksum_loop_eq unat_of_nat)
qed

lemma checksum_accepts:
  assumes "length b \<le> 131072"
  shows "\<exists>c. ip_hdr_checksum b (int (length b)) = Inr c
           \<and> (c = 0 \<longleftrightarrow> 0 < wsum b \<and> wsum b mod 65535 = 0)"
proof -
  define v where "v = fold16 (wsum b)"
  have e: "ip_hdr_checksum b (int (length b)) = Inr (cksum_fold (of_nat (wsum b)))"
    and u: "unat (of_nat (wsum b) :: u32) = wsum b" and w: "wsum b < 4294967296"
    using ip_hdr_checksum_eq[OF assms] by auto
  have v: "v < 65536" "v mod 65535 = wsum b mod 65535" "v = 0 \<longleftrightarrow> wsum b = 0"
    using fold16_less fold16_cong[OF w] fold16_0_iff[OF w] by (auto simp: v_def)
  have "cksum_fold (of_nat (wsum b)) = 0 \<longleftrightarrow> 65535 - v = 0"
    by (metis unat_cksum_fold u v_def unat_0_iff)
  also have "\<dots> \<longleftrightarrow> 0 < v \<and> v mod 65535 = 0"
    using v(1) by (auto simp: mod_if)
  finally show ?thesis using e v by auto
qed

lemma be16_bytes: "wsum (le16 (htons c)) = unat c"
proof -
  have "wsum (le16 (htons c)) = unat (htons (of_le16 (ucast (htons c)) (ucast (drop_bit 8 (htons c)))))"
    by (simp add: le16_def unat_be16 del: of_le16_le16)
  then show ?thesis by simp
qed

lemma checksum_fill:
  assumes "even (length xs)" and "length xs + length ys \<le> 131070"
    and "ip_hdr_checksum (xs @ le16 0 @ ys) (int (length (xs @ le16 0 @ ys))) = Inr c"
  shows "ip_hdr_checksum (xs @ le16 (htons c) @ ys)
           (int (length (xs @ le16 (htons c) @ ys))) = Inr 0"
proof -
  define b0 b1 where "b0 = xs @ le16 0 @ ys" and "b1 = xs @ le16 (htons c) @ ys"
  have l: "length b0 \<le> 131072" "length b1 \<le> 131072"
    using assms(2) by (simp_all add: b0_def b1_def)
  define s where "s = wsum b0"
  have s: "s = wsum xs + wsum ys"
    using assms(1) by (simp add: s_def b0_def wsum_append_even le16_def)
  have w: "s < 4294967296" and c: "c = cksum_fold (of_nat s)"
    and u: "unat (of_nat s :: u32) = s"
    using ip_hdr_checksum_eq[OF l(1)] assms(3) by (auto simp: s_def b0_def)
  have uc: "unat c = 65535 - fold16 s" using u c by (metis unat_cksum_fold)
  have "wsum b1 = s + (65535 - fold16 s)"
    using assms(1) s uc by (simp add: b1_def wsum_append_even be16_bytes)
  moreover have "fold16 s \<le> 65535" "fold16 s mod 65535 = s mod 65535" "fold16 s = 0 \<longleftrightarrow> s = 0"
    using fold16_less[of s] fold16_cong[OF w] fold16_0_iff[OF w] by auto
  moreover have "(s + (65535 - f)) mod 65535 = 0"
    if "f \<le> 65535" "f mod 65535 = s mod 65535" for f
    using that by (metis add.commute le_add_diff_inverse2 mod_add_right_eq mod_self)
  ultimately have "0 < wsum b1 \<and> wsum b1 mod 65535 = 0" by auto
  then show ?thesis using checksum_accepts[OF l(2)] by (auto simp: b1_def)
qed

subsection \<open>Property\<close>

text \<open>
  What the receiver's test accepts: for a buffer of at most 128 KB the routine returns, and
  it returns 0 exactly when the sum of the buffer's words is a positive multiple of 65535 (the
  one's complement sum is minus zero).
\<close>

theorem checksum_accepts_iff:
  assumes "length b \<le> 131072"
  shows "\<exists>c. ip_hdr_checksum b (int (length b)) = Inr c
           \<and> (c = 0 \<longleftrightarrow> 0 < wsum b \<and> wsum b mod 65535 = 0)"
  using assms by (rule checksum_accepts)

theorem checksum_accepts_iff_witness:
  "ip_hdr_checksum [0x45, 0, 0xBA, 0xFF] 4 = Inr 0"
  using checksum_accepts_iff[of "[0x45, 0, 0xBA, 0xFF]"] by auto


text \<open>
  C28. Sender and receiver agree: filling an evenly placed, zeroed checksum field with the
  (byte-swapped) result of the routine makes the routine return 0 on the whole buffer, of
  whatever length up to 128 KB, odd lengths included.
\<close>

theorem checksum_fill_verifies:
  assumes "even (length xs)" and "length xs + length ys \<le> 131070"
    and "ip_hdr_checksum (xs @ le16 0 @ ys) (int (length (xs @ le16 0 @ ys))) = Inr c"
  shows "ip_hdr_checksum (xs @ le16 (htons c) @ ys)
           (int (length (xs @ le16 (htons c) @ ys))) = Inr 0"
  using assms by (rule checksum_fill)

lemma cksum_example:
  "ip_hdr_checksum ([8, 0] @ le16 0 @ [1, 2, 3]) (int (length ([8, 0] @ le16 0 @ [1, 2, 3 :: u8])))
     = Inr 0xF6FA"
  by (simp add: ip_hdr_checksum_def le16_def of_le16_def htons_def cksum_fold_def Let_def)

theorem checksum_fill_verifies_witness:
  "ip_hdr_checksum ([8, 0] @ le16 (htons 0xF6FA) @ [1, 2, 3])
     (int (length ([8, 0] @ le16 (htons 0xF6FA) @ [1, 2, 3 :: u8]))) = Inr 0"
  by (rule checksum_fill_verifies[OF _ _ cksum_example]) simp_all

end
