(* ===== verification/InetAton.thy ===== *)
theory InetAton
  imports Prelude
begin

text \<open>
  Parsing of dotted addresses: \<^verbatim>\<open>inet_aton\<close> of net/ip.c with the character tests of
  include/ctype.h as that header defines them. The text is the list of bytes from the pointer
  to the end of its object; the digits and parts are C \<^verbatim>\<open>unsigned int\<close>s.
\<close>

unbundle bit_operations_syntax

subsection \<open>Character tests\<close>

text \<open>Plain \<^verbatim>\<open>char\<close> is signed, so the comparisons are on the signed value.\<close>

definition isdigit :: "u8 \<Rightarrow> bool" where
  "isdigit c \<longleftrightarrow> sint c \<ge> 48 \<and> sint c \<le> 57"

definition isspace :: "u8 \<Rightarrow> bool" where
  "isspace c \<longleftrightarrow> sint c = 32"

definition isascii :: "u8 \<Rightarrow> bool" where
  "isascii c \<longleftrightarrow> (scast c :: u32) AND NOT 0x7F = 0"

definition isxdigit :: "u8 \<Rightarrow> bool" where
  "isxdigit c \<longleftrightarrow> isdigit c \<or> (sint c \<ge> 97 \<and> sint c \<le> 70) \<or> (sint c \<ge> 65 \<and> sint c \<le> 70)"

definition islower :: "u8 \<Rightarrow> bool" where
  "islower c \<longleftrightarrow> isascii c \<and> (sint c \<ge> 97 \<and> sint c \<le> 70)"

subsection \<open>The parser\<close>

text \<open>
  The prefix that selects the base: \<^verbatim>\<open>0x\<close> and \<^verbatim>\<open>0X\<close> are hexadecimal, another leading zero is
  octal. \<open>Inr (rest, base)\<close>.
\<close>

fun aton_base :: "u8 list \<Rightarrow> (u8 list \<times> u32) res" where
  "aton_base [] = Inl OutOfBounds"
| "aton_base (c # cs) =
     (if c = 48 then
        (case cs of
           [] \<Rightarrow> Inl OutOfBounds
         | d # ds \<Rightarrow> if d = 120 \<or> d = 88 then Inr (ds, 16) else Inr (cs, 8))
      else Inr (c # cs, 10))"

text \<open>The digit loop.\<close>

fun aton_digits :: "u8 list \<Rightarrow> u32 \<Rightarrow> u32 \<Rightarrow> (u8 list \<times> u32) res" where
  "aton_digits [] val base = Inl OutOfBounds"
| "aton_digits (c # cs) val base =
     (if c = 0 then Inr (c # cs, val)
      else if isascii c \<and> isdigit c then aton_digits cs (val * base + (scast c - 48)) base
      else if base = 16 \<and> isascii c \<and> isxdigit c then
        aton_digits cs (push_bit 4 val + (scast c + 10 - (if islower c then 97 else 65))) base
      else Inr (c # cs, val))"

lemma aton_base_length: "aton_base cp = Inr (cp', b) \<Longrightarrow> length cp' \<le> length cp"
  by (cases cp) (auto split: if_splits list.splits)

lemma aton_digits_length: "aton_digits cp v b = Inr (cp', w) \<Longrightarrow> length cp' \<le> length cp"
  by (induction cp v b rule: aton_digits.induct) (auto split: if_splits)

text \<open>
  The outer loop over the parts. \<open>None\<close> is the early \<^verbatim>\<open>return (0)\<close>; otherwise the rest of
  the text, the parts stored so far and the last value.
\<close>

function aton_parts :: "u8 list \<Rightarrow> u32 list \<Rightarrow> (u8 list \<times> u32 list \<times> u32) option res" where
  "aton_parts cp parts =
     (case aton_base cp of
        Inl e \<Rightarrow> Inl e
      | Inr (cp1, base) \<Rightarrow>
          (case aton_digits cp1 0 base of
             Inl e \<Rightarrow> Inl e
           | Inr ([], val) \<Rightarrow> Inl OutOfBounds
           | Inr (c # cs, val) \<Rightarrow>
               if c = 46 then
                 (if length parts \<ge> 3 \<or> val > 0xff then Inr None
                  else aton_parts cs (parts @ [val]))
               else Inr (Some (c # cs, parts, val))))"
  by pat_completeness auto
termination
proof (relation "measure (length \<circ> fst)", goal_cases)
  case (2 cp parts x2 cp1 base y2 cs' val c cs)
  then show ?case
    using aton_base_length[of cp cp1 base] aton_digits_length[of cp1 0 base "c # cs" val] by auto
qed auto

declare aton_parts.simps [simp del]

text \<open>The final switch on the number of parts; \<open>None\<close> is \<^verbatim>\<open>return (0)\<close>.\<close>

definition aton_join :: "u32 list \<Rightarrow> u32 \<Rightarrow> u32 option" where
  "aton_join parts val =
     (let n = length parts + 1 in
      if n = 2 then
        (if val > 0xffffff then None else Some (val OR push_bit 24 (parts ! 0)))
      else if n = 3 then
        (if val > 0xffff then None
         else Some (val OR (push_bit 24 (parts ! 0) OR push_bit 16 (parts ! 1))))
      else if n = 4 then
        (if val > 0xff then None
         else Some (val OR (push_bit 24 (parts ! 0) OR push_bit 16 (parts ! 1)
                            OR push_bit 8 (parts ! 2))))
      else Some val)"

definition inet_aton :: "u8 list \<Rightarrow> u32 res" where
  "inet_aton cp =
     rbind (aton_parts cp [])
       (\<lambda>r. case r of
          None \<Rightarrow> Inr 0
        | Some (rest, parts, val) \<Rightarrow>
            rbind (ld8 rest 0)
              (\<lambda>c. if c \<noteq> 0 \<and> (\<not> isascii c \<or> \<not> isspace c) then Inr 0
                   else case aton_join parts val of None \<Rightarrow> Inr 0 | Some v \<Rightarrow> Inr v))"

subsection \<open>Decimal octets\<close>

definition digit_char :: "nat \<Rightarrow> u8" where
  "digit_char d = of_nat (48 + d)"

definition octet_str :: "nat \<Rightarrow> u8 list" where
  "octet_str n =
     (if n < 10 then [digit_char n]
      else if n < 100 then [digit_char (n div 10), digit_char (n mod 10)]
      else [digit_char (n div 100), digit_char (n div 10 mod 10), digit_char (n mod 10)])"

definition dotted_quad :: "nat \<Rightarrow> nat \<Rightarrow> nat \<Rightarrow> nat \<Rightarrow> u8 list" where
  "dotted_quad a b c d =
     octet_str a @ 46 # octet_str b @ 46 # octet_str c @ 46 # octet_str d"

lemma less_10_cases:
  fixes d :: nat
  assumes "d < 10"
  obtains "d = 0" | "d = 1" | "d = 2" | "d = 3" | "d = 4" | "d = 5" | "d = 6" | "d = 7" | "d = 8" | "d = 9"
  using assms by force

lemma digit_char_props:
  assumes "d < 10"
  shows "isascii (digit_char d)" "isdigit (digit_char d)" "digit_char d \<noteq> 0"
    and "digit_char d = 48 \<longleftrightarrow> d = 0" "(scast (digit_char d) - 48 :: u32) = of_nat d"
    and "digit_char d \<noteq> 120" "digit_char d \<noteq> 88"
  using assms by (cases rule: less_10_cases; simp add: digit_char_def isascii_def isdigit_def)+

lemma aton_digits_digit [simp]:
  "d < 10 \<Longrightarrow> aton_digits (digit_char d # cs) v b = aton_digits cs (v * b + of_nat d) b"
  by (simp add: digit_char_props)

text \<open>A decimal octet followed by a byte that is not a digit.\<close>

definition stops :: "u8 \<Rightarrow> bool" where
  "stops c \<longleftrightarrow> c \<noteq> 120 \<and> c \<noteq> 88 \<and> \<not> isxdigit c"

lemma stops_dot_nul [simp]: "stops 46" "stops 0"
  by (simp_all add: stops_def isxdigit_def isdigit_def)

lemma aton_octet:
  assumes "n < 256" and "stops c"
  shows "\<exists>cp base. aton_base (octet_str n @ c # cs) = Inr (cp, base)
           \<and> aton_digits cp 0 base = Inr (c # cs, of_nat n)"
proof -
  have st: "aton_digits (c # cs) v b = Inr (c # cs, v)" for v b
  proof -
    have "\<not> isdigit c" "\<not> isxdigit c"
      using assms(2) by (auto simp: stops_def isxdigit_def)
    then show ?thesis by simp
  qed
  consider "n = 0" | "0 < n" "n < 10" | "10 \<le> n" "n < 100" | "100 \<le> n" by linarith
  then show ?thesis
  proof cases
    case 1
    then show ?thesis
      using assms(2) st by (simp add: octet_str_def digit_char_props digit_char_def stops_def
          isascii_def isdigit_def)
  next
    case 2
    then show ?thesis using st by (simp add: octet_str_def digit_char_props)
  next
    case 3
    then have "of_nat (n div 10) * 10 + of_nat (n mod 10) = (of_nat n :: u32)"
      by (metis of_nat_add of_nat_mult of_nat_numeral div_mult_mod_eq)
    then show ?thesis using 3 st by (simp add: octet_str_def digit_char_props div_eq_0_iff)
  next
    case 4
    have "n div 100 = n div 10 div 10" by (simp add: div_mult2_eq[symmetric])
    then have n: "(n div 100 * 10 + n div 10 mod 10) * 10 + n mod 10 = n"
      by (simp only: div_mult_mod_eq)
    have "(of_nat (n div 100) * 10 + of_nat (n div 10 mod 10)) * 10 + of_nat (n mod 10)
            = (of_nat ((n div 100 * 10 + n div 10 mod 10) * 10 + n mod 10) :: u32)"
      by (simp only: of_nat_add of_nat_mult of_nat_numeral)
    also have "\<dots> = of_nat n" by (simp only: n)
    finally show ?thesis using 4 assms(1) st
      by (simp add: octet_str_def digit_char_props div_eq_0_iff)
  qed
qed

lemma aton_parts_octet:
  assumes "n < 256" and "length parts < 3"
  shows "aton_parts (octet_str n @ 46 # cs) parts = aton_parts cs (parts @ [of_nat n])"
  using aton_octet[OF assms(1) stops_dot_nul(1), of cs] assms(1,2)
  by (auto simp: aton_parts.simps[of "octet_str n @ 46 # cs"] word_less_nat_alt unat_of_nat)

lemma aton_parts_last:
  assumes "n < 256"
  shows "aton_parts (octet_str n @ 0 # cs) parts = Inr (Some (0 # cs, parts, of_nat n))"
  using aton_octet[OF assms stops_dot_nul(2), of cs]
  by (auto simp: aton_parts.simps[of "octet_str n @ 0 # cs"])

subsection \<open>Properties\<close>

text \<open>
  C38. Every dotted quad of decimal octets is parsed to the address whose four bytes, most
  significant first, are the octets.
\<close>

theorem inet_aton_dotted_quad:
  assumes "a < 256" and "b < 256" and "c < 256" and "d < 256"
  shows "inet_aton (dotted_quad a b c d @ 0 # rest) =
     Inr (of_nat d OR (push_bit 24 (of_nat a) OR push_bit 16 (of_nat b) OR push_bit 8 (of_nat c)))"
  using assms
  by (simp add: inet_aton_def dotted_quad_def aton_parts_octet aton_parts_last aton_join_def
      word_less_nat_alt unat_of_nat)

theorem inet_aton_dotted_quad_witness:
  "inet_aton (dotted_quad 10 0 2 12 @ [0]) = Inr 0x0A00020C"
  using inet_aton_dotted_quad[of 10 0 2 12 "[]"] by simp

text \<open>
  Lower-case hexadecimal digits are rejected: the test \<^verbatim>\<open>isxdigit\<close> of include/ctype.h
  compares with \<open>'F'\<close> where it means \<open>'f'\<close>, so an address \<open>0x\<close> followed by a
  letter a to f is read as 0 whatever follows.
\<close>

theorem inet_aton_lower_hex_is_zero:
  assumes "97 \<le> c" and "c \<le> 102"
  shows "inet_aton (48 # 120 # c # rest) = Inr 0"
proof -
  have "c \<in> {97, 98, 99, 100, 101, 102}"
  proof -
    have "unat c \<in> {97, 98, 99, 100, 101, 102}"
      using assms by (auto simp: word_le_nat_alt)
    then show ?thesis by (auto simp: word_unat_eq_iff)
  qed
  then have "isascii c" "\<not> isdigit c" "\<not> isxdigit c" "c \<noteq> 0" "c \<noteq> 46" "\<not> isspace c"
    by (auto simp: isascii_def isdigit_def isxdigit_def isspace_def)
  then show ?thesis
    by (simp add: inet_aton_def aton_parts.simps[of "48 # 120 # c # rest"])
qed

theorem inet_aton_lower_hex_is_zero_witness:
  "inet_aton [48, 120, 97, 0] = Inr 0 \<and> inet_aton [48, 120, 65, 0] = Inr 10"
  using inet_aton_lower_hex_is_zero[of 97 "[0]"]
  by (simp add: inet_aton_def aton_parts.simps isascii_def isdigit_def isxdigit_def islower_def
      aton_join_def)

end
