(* ===== verification/Number.thy ===== *)
theory Number
  imports CString InetAton
begin

text \<open>
  Numbers as text, in both directions: \<^verbatim>\<open>skip_atoi\<close>, \<^verbatim>\<open>number\<close>, \<^verbatim>\<open>i2a\<close>, \<^verbatim>\<open>_getbase\<close>,
  \<^verbatim>\<open>_atob\<close> and \<^verbatim>\<open>atob\<close> of lib/stdio.c, and \<^verbatim>\<open>itoa\<close> of lib/stdlib.c. A routine that stores
  characters through \<^verbatim>\<open>*str++\<close> is modelled by the list of the characters it stores. A field
  width or precision is the integer value of the C \<^verbatim>\<open>int\<close>.
\<close>

unbundle bit_operations_syntax

subsection \<open>Flags and digits\<close>

definition ZEROPAD :: u32 where "ZEROPAD = 1"
definition SIGN :: u32 where "SIGN = 2"
definition PLUS :: u32 where "PLUS = 4"
definition SPACE :: u32 where "SPACE = 8"
definition LEFT_flag :: u32 where "LEFT_flag = 16"
definition SPECIAL :: u32 where "SPECIAL = 32"
definition SMALL :: u32 where "SMALL = 64"

definition has :: "u32 \<Rightarrow> u32 \<Rightarrow> bool" where
  "has t f \<longleftrightarrow> t AND f \<noteq> 0"

text \<open>The two strings of \<^verbatim>\<open>number\<close>: the ten digits and the letters.\<close>

definition digit_string :: "bool \<Rightarrow> u8 list" where
  "digit_string small = map of_nat ([48..<58] @ (if small then [97..<123] else [65..<91]))"

fun skip_atoi_loop :: "u8 list \<Rightarrow> u32 \<Rightarrow> (u32 \<times> u8 list) res" where
  "skip_atoi_loop [] i = Inl OutOfBounds"
| "skip_atoi_loop (c # cs) i =
     (if isdigit c then skip_atoi_loop cs (i * 10 + scast c - 48) else Inr (i, c # cs))"

definition skip_atoi :: "u8 list \<Rightarrow> (u32 \<times> u8 list) res" where
  "skip_atoi s = skip_atoi_loop s 0"

subsection \<open>Printing a number\<close>

text \<open>\<^verbatim>\<open>divl\<close> with a zero high half: an unsigned division, whatever the C type of \<^verbatim>\<open>num\<close>.\<close>

definition do_div :: "u32 \<Rightarrow> u32 \<Rightarrow> (u32 \<times> u32) res" where
  "do_div n base = (if base = 0 then Inl DivError else Inr (n div base, n mod base))"

text \<open>\<^verbatim>\<open>while (num!=0) tmp[i++]=digits[do_div(num,base)];\<close> with \<^verbatim>\<open>tmp[36]\<close>.\<close>

function num_digits :: "u8 list \<Rightarrow> u32 \<Rightarrow> u32 \<Rightarrow> u8 list \<Rightarrow> u8 list res" where
  "num_digits digits base num tmp =
     (if num = 0 then Inr tmp
      else rbind (do_div num base) (\<lambda>(q, r).
             if length tmp < 36 then
               rbind (arr_get digits (unat r)) (\<lambda>d. num_digits digits base q (tmp @ [d]))
             else Inl OutOfBounds))"
  by pat_completeness auto
termination
  by (relation "measure (\<lambda>(digits, base, num, tmp). 36 - length tmp)") auto

declare num_digits.simps [simp del]

text \<open>\<^verbatim>\<open>while (size-- > 0) *str++ = c;\<close>: what is stored, and \<^verbatim>\<open>size\<close> after the loop.\<close>

function pad_while :: "u8 \<Rightarrow> int \<Rightarrow> u8 list \<times> int" where
  "pad_while c sz = (if sz > 0 then apfst ((#) c) (pad_while c (sz - 1)) else ([], sz - 1))"
  by pat_completeness auto
termination
  by (relation "measure (\<lambda>(c, sz). nat sz)") auto

declare pad_while.simps [simp del]

text \<open>\<^verbatim>\<open>while (i < precision--) *str++ = '0';\<close>\<close>

function zero_while :: "int \<Rightarrow> int \<Rightarrow> u8 list" where
  "zero_while i precision = (if i < precision then 48 # zero_while i (precision - 1) else [])"
  by pat_completeness auto
termination
  by (relation "measure (\<lambda>(i, precision). nat (precision - i))") auto

declare zero_while.simps [simp del]

text \<open>The sign character, 0 for none, and the prefix of \<^verbatim>\<open>SPECIAL\<close>.\<close>

definition sign_char :: "u32 \<Rightarrow> u32 \<Rightarrow> u8" where
  "sign_char num t =
     (if has t SIGN \<and> sint num < 0 then 45 else if has t PLUS then 43 else if has t SPACE then 32 else 0)"

definition special_prefix :: "int \<Rightarrow> u32 \<Rightarrow> u8 list \<Rightarrow> u8 list" where
  "special_prefix base t digits =
     (if has t SPECIAL then (if base = 8 then [48] else if base = 16 then [48, digits ! 33] else []) else [])"

text \<open>
  The stores from the first \<^verbatim>\<open>size -= precision\<close> on: \<open>sz\<close> is \<^verbatim>\<open>size\<close> there, \<open>front\<close> the sign and
  the prefix, \<open>back\<close> the zeros of the precision and the digits.
\<close>

definition number_layout :: "u32 \<Rightarrow> int \<Rightarrow> u8 list \<Rightarrow> u8 list \<Rightarrow> u8 list" where
  "number_layout t sz front back =
     (let c = (if has t ZEROPAD then 48 else 32);
          (spaces, sz3) = (if \<not> has t (ZEROPAD + LEFT_flag) then pad_while 32 sz else ([], sz));
          (fill, sz4) = (if \<not> has t LEFT_flag then pad_while c sz3 else ([], sz3));
          (trail, sz5) = pad_while 32 sz4
      in spaces @ front @ fill @ back @ trail)"

definition number :: "u32 \<Rightarrow> int \<Rightarrow> int \<Rightarrow> int \<Rightarrow> u32 \<Rightarrow> u8 list option res" where
  "number num base sz precision t0 =
     (let digits = digit_string (has t0 SMALL);
          t = (if has t0 LEFT_flag then t0 AND NOT ZEROPAD else t0)
      in if base < 2 \<or> base > 36 then Inr None
      else
        let sign = sign_char num t;
            num1 = (if has t SIGN \<and> sint num < 0 then - num else num);
            sz1 = (if sign \<noteq> 0 then sz - 1 else sz);
            sz2 = (if has t SPECIAL then (if base = 16 then sz1 - 2 else if base = 8 then sz1 - 1 else sz1)
                   else sz1)
        in rbind (if num1 = 0 then Inr [48] else num_digits digits (of_int base) num1 []) (\<lambda>tmp.
             let i = int (length tmp);
                 prec = (if i > precision then i else precision);
                 front = (if sign \<noteq> 0 then [sign] else []) @ special_prefix base t digits;
                 back = zero_while i prec @ rev tmp
             in Inr (Some (number_layout t (sz2 - prec) front back))))"

text \<open>
  \<^verbatim>\<open>i2a\<close>, with C's division. A base of 1 or -1 recurses without end as soon as the value is
  not 0.
\<close>

function i2a :: "int \<Rightarrow> int \<Rightarrow> u8 list res" where
  "i2a val base =
     (if base = 0 then Inl DivError
      else if \<bar>base\<bar> = 1 \<and> val \<noteq> 0 then Inl Hang
      else
        let q = sgn val * sgn base * (\<bar>val\<bar> div \<bar>base\<bar>);
            m = val - q * base;
            c = (if m < 10 then of_int (m + 48) else of_int (m - 10 + 65))
        in rmap (\<lambda>out. out @ [c]) (if q \<noteq> 0 then i2a q base else Inr []))"
  by pat_completeness auto
termination
proof (relation "measure (\<lambda>(val, base). nat \<bar>val\<bar>)", goal_cases)
  case (2 val base q m c)
  then have b: "\<bar>base\<bar> \<ge> 2" and v: "val \<noteq> 0" by auto
  from b have "\<bar>q\<bar> = \<bar>val\<bar> div \<bar>base\<bar>"
    using 2 v by (auto simp: abs_mult pos_imp_zdiv_nonneg_iff)
  also from b v have "\<dots> < \<bar>val\<bar>" by (intro int_div_less_self) auto
  finally show ?case by simp
qed simp

declare i2a.simps [simp del]

text \<open>The nibbles of \<^verbatim>\<open>itoa\<close>, from bit \<open>i\<close> down; \<open>flag\<close> is set by the first that is not 0.\<close>

fun itoa_loop :: "u32 \<Rightarrow> bool \<Rightarrow> nat \<Rightarrow> u8 list" where
  "itoa_loop num flag i =
     (let ch = ucast (drop_bit i num AND 0xF) :: u8;
          show_it = (flag \<or> ch > 0);
          ch1 = ch + 48;
          ch2 = (if ch1 > 57 then ch1 + 7 else ch1);
          rest = (if i < 4 then [] else itoa_loop num show_it (i - 4))
      in if show_it then ch2 # rest else rest)"

declare itoa_loop.simps [simp del]

definition itoa :: "u32 \<Rightarrow> u8 list" where
  "itoa num = [48, 120] @ (if num = 0 then [48] else itoa_loop num False 28) @ [0]"

subsection \<open>Reading a number\<close>

text \<open>\<^verbatim>\<open>_getbase\<close>: the characters to skip, and the base.\<close>

fun getbase :: "u8 list \<Rightarrow> (nat \<times> int) res" where
  "getbase [] = Inl OutOfBounds"
| "getbase (c # cs) =
     (if c = 48 then
        (case cs of
           [] \<Rightarrow> Inl OutOfBounds
         | d # _ \<Rightarrow>
             if d = 120 then Inr (2, 16)
             else if d = 116 \<or> d = 110 then Inr (2, 10)
             else if d = 111 then Inr (2, 8)
             else Inr (0, 10))
      else Inr (0, 10))"

definition atob_digit :: "u8 \<Rightarrow> int option" where
  "atob_digit c =
     (let v = sint c in
      if v \<ge> 48 \<and> v \<le> 57 then Some (v - 48)
      else if v \<ge> 97 \<and> v \<le> 102 then Some (v - 97 + 10)
      else if v \<ge> 65 \<and> v \<le> 70 then Some (v - 65 + 10)
      else None)"

fun atob_loop :: "u8 list \<Rightarrow> int \<Rightarrow> u32 \<Rightarrow> u32 option res" where
  "atob_loop [] base val = Inl OutOfBounds"
| "atob_loop (c # cs) base val =
     (if c = 0 then Inr (Some val)
      else case atob_digit c of
             None \<Rightarrow> Inr None
           | Some d \<Rightarrow> if d \<ge> base then Inr None
                        else atob_loop cs base (val * of_int base + of_int d))"

text \<open>The prefix that forces base 16: the rest of the text, and the base.\<close>

definition atob_prefix :: "u8 list \<Rightarrow> int \<Rightarrow> (u8 list \<times> int) res" where
  "atob_prefix p base =
     rbind (ld8 p 0) (\<lambda>a. if a = 48 then
       rbind (ld8 p 1) (\<lambda>b. if b = 120 \<or> b = 88 then Inr (drop 2 p, 16) else Inr (p, base))
     else Inr (p, base))"

text \<open>
  \<^verbatim>\<open>_atob\<close>: \<open>None\<close> is a return of 0. A base-16 text with one dot is two numbers, the first of
  at most 19 characters.
\<close>

lemma strchr_Some_nth: "strchr p c = Inr (Some k) \<Longrightarrow> k < length p \<and> p ! k = c"
proof (induction p arbitrary: k)
  case (Cons x xs)
  show ?case
  proof (cases "x = c")
    case False
    with Cons.prems obtain j where "strchr xs c = Inr (Some j)" and "k = Suc j"
      by (auto simp: rmap_Inr_conv split: if_splits) (metis map_option_eq_Some)
    with Cons.IH[of j] show ?thesis by simp
  qed (use Cons.prems in simp)
qed simp

lemma count_dot_split:
  assumes "strchr p c = Inr (Some k)" and "c \<noteq> 0"
  shows "count_list (take k p @ [0]) c < count_list p c"
    and "count_list (drop (Suc k) p) c < count_list p c"
proof -
  from strchr_Some_nth[OF assms(1)] have k: "k < length p" and c: "p ! k = c" by simp_all
  have "p = take k p @ c # drop (Suc k) p"
    using id_take_nth_drop[OF k] unfolding c .
  then have "count_list p c = count_list (take k p @ c # drop (Suc k) p) c" by simp
  then have "count_list p c = count_list (take k p) c + Suc (count_list (drop (Suc k) p) c)"
    by (simp only: count_list_append count_list.simps if_True) simp
  then show "count_list (take k p @ [0]) c < count_list p c"
    and "count_list (drop (Suc k) p) c < count_list p c"
    using assms(2) by simp_all
qed

lemma atob_prefix_drop: "atob_prefix p base = Inr (p1, b1) \<Longrightarrow> p1 = p \<or> p1 = drop 2 p"
  by (auto simp: atob_prefix_def rbind_Inr_conv split: if_splits)

lemma count_list_drop: "count_list (drop n xs) x \<le> count_list xs x"
  by (metis append_take_drop_id count_list_append le_add2)

function atob_ulong :: "u8 list \<Rightarrow> int \<Rightarrow> u32 option res" where
  "atob_ulong p base =
     rbind (atob_prefix p base) (\<lambda>(p1, base1).
       rbind (if base1 = 16 then strchr p1 46 else Inr None) (\<lambda>dot.
         case dot of
           None \<Rightarrow> atob_loop p1 base1 0
         | Some k \<Rightarrow>
             if k > 19 then Inr None
             else rbind (atob_ulong (take k p1 @ [0]) 16) (\<lambda>r1.
               case r1 of None \<Rightarrow> Inr None
               | Some v1 \<Rightarrow>
                   rbind (strchr (drop (Suc k) p1) 46) (\<lambda>dot2.
                     if dot2 \<noteq> None then Inr None
                     else rmap (map_option (\<lambda>v2. push_bit 16 v1 + v2))
                            (atob_ulong (drop (Suc k) p1) 16)))))"
  by pat_completeness auto
termination
proof (relation "measure (\<lambda>(p, base). count_list p 46)", goal_cases)
  case (2 p base x p1 base1 dot k)
  then have "count_list (take k p1 @ [0]) 46 < count_list p1 46"
    by (intro count_dot_split(1)) (auto split: if_splits)
  moreover have "count_list p1 46 \<le> count_list p 46"
    using 2 atob_prefix_drop[of p base p1 base1] count_list_drop[of 2 p 46] by auto
  ultimately show ?case by simp
next
  case (3 p base x p1 base1 dot k)
  then have "count_list (drop (Suc k) p1) 46 < count_list p1 46"
    by (intro count_dot_split(2)) (auto split: if_splits)
  moreover have "count_list p1 46 \<le> count_list p 46"
    using 3 atob_prefix_drop[of p base p1 base1] count_list_drop[of 2 p 46] by auto
  ultimately show ?case by simp
qed simp

declare atob_ulong.simps [simp del]

definition atob :: "u8 list \<Rightarrow> int \<Rightarrow> u32 option res" where
  "atob p base =
     rbind (if base = 0 then getbase p else Inr (0, base)) (\<lambda>(k, b). atob_ulong (drop k p) b)"

subsection \<open>The digits of a number\<close>

text \<open>The digits in base \<open>b\<close>, the last one first, and the value of digits, the first one first.\<close>

function lsd :: "nat \<Rightarrow> nat \<Rightarrow> nat list" where
  "lsd b n = (if n = 0 \<or> b < 2 then [] else n mod b # lsd b (n div b))"
  by pat_completeness auto
termination
  by (relation "measure snd") auto

declare lsd.simps [simp del]

definition digits_value :: "nat \<Rightarrow> nat list \<Rightarrow> nat" where
  "digits_value b ds = foldl (\<lambda>v d. v * b + d) 0 ds"

lemma digits_value_append [simp]:
  "digits_value b (ds @ [d]) = digits_value b ds * b + d"
  by (simp add: digits_value_def)

lemma digits_value_lsd: "2 \<le> b \<Longrightarrow> digits_value b (rev (lsd b n)) = n"
proof (induction b n rule: lsd.induct)
  case (1 b n)
  show ?case
  proof (cases "n = 0")
    case True
    then show ?thesis by (simp add: lsd.simps digits_value_def)
  next
    case False
    with 1 show ?thesis by (subst lsd.simps) simp
  qed
qed

lemma lsd_less: "d \<in> set (lsd b n) \<Longrightarrow> d < b"
proof (induction b n rule: lsd.induct)
  case (1 b n)
  have "d \<in> set (if n = 0 \<or> b < 2 then [] else n mod b # lsd b (n div b))"
    using 1(2) lsd.simps[of b n] by simp
  then show ?case using 1(1) by (auto split: if_splits)
qed

lemma length_lsd: "n < 2 ^ k \<Longrightarrow> length (lsd b n) \<le> k"
proof (induction k arbitrary: n)
  case 0
  then show ?case by (simp add: lsd.simps)
next
  case (Suc k)
  show ?case
  proof (cases "n = 0 \<or> b < 2")
    case False
    have "n div b \<le> n div 2" by (rule div_le_mono2) (use False in auto)
    also have "\<dots> < 2 ^ k" using Suc.prems by simp
    finally show ?thesis using Suc.IH False by (subst lsd.simps) auto
  qed (simp add: lsd.simps)
qed

lemma length_digit_string [simp]: "length (digit_string s) = 36"
  by (simp add: digit_string_def)

lemma unat_div_mod_base:
  assumes "b < 2 ^ 32"
  shows "unat (n div of_nat b :: u32) = unat n div b" and "unat (n mod of_nat b :: u32) = unat n mod b"
proof -
  have "unat (of_nat b :: u32) = b" using assms by (simp add: unat_of_nat)
  then show "unat (n div of_nat b :: u32) = unat n div b" and "unat (n mod of_nat b :: u32) = unat n mod b"
    by (simp_all add: unat_div unat_mod)
qed

lemma num_digits_eq:
  assumes "2 \<le> b" and "b \<le> 36" and "length tmp + length (lsd b (unat n)) \<le> 36"
  shows "num_digits (digit_string s) (of_nat b) n tmp =
           Inr (tmp @ map (\<lambda>d. digit_string s ! d) (lsd b (unat n)))"
  using assms
proof (induction "unat n" arbitrary: n tmp rule: less_induct)
  case less
  show ?case
  proof (cases "n = 0")
    case True
    then show ?thesis by (simp add: num_digits.simps lsd.simps)
  next
    case False
    let ?q = "n div of_nat b :: u32"
    have b: "b < 2 ^ 32" and nz: "(of_nat b :: u32) \<noteq> 0"
      using less.prems(1,2) by (simp_all add: word_of_nat_eq_0_iff nat_dvd_not_less)
    have q: "unat ?q = unat n div b" and r: "unat (n mod of_nat b) = unat n mod b"
      using unat_div_mod_base[OF b] by auto
    have n0: "unat n \<noteq> 0" using False by (simp add: unat_eq_0)
    then have step: "lsd b (unat n) = unat n mod b # lsd b (unat ?q)"
      using less.prems(1) by (subst lsd.simps) (simp add: q)
    have "unat ?q < unat n" using n0 less.prems(1) by (simp add: q)
    from less.hyps[OF this less.prems(1,2), of "tmp @ [digit_string s ! (unat n mod b)]"]
    have "num_digits (digit_string s) (of_nat b) ?q (tmp @ [digit_string s ! (unat n mod b)]) =
      Inr ((tmp @ [digit_string s ! (unat n mod b)]) @ map (\<lambda>d. digit_string s ! d) (lsd b (unat ?q)))"
      using less.prems(3) by (simp add: step)
    moreover have "unat n mod b < 36"
      using less.prems(1,2) by (meson le_less_trans less_le_trans mod_less_divisor not_numeral_le_zero not_le less_le)
    ultimately show ?thesis
      using False nz less.prems(3) by (subst num_digits.simps) (simp add: do_div_def r step)
  qed
qed

subsection \<open>The layout of a number\<close>

lemma pad_while_eq: "pad_while c sz = (replicate (nat sz) c, min sz 0 - 1)"
proof (induction c sz rule: pad_while.induct)
  case (1 c sz)
  show ?case
  proof (cases "sz > 0")
    case True
    then have "nat sz = Suc (nat (sz - 1))" by simp
    then show ?thesis using True 1 by (subst pad_while.simps) simp
  qed (subst pad_while.simps; simp)
qed

lemma zero_while_eq: "zero_while i p = replicate (nat (p - i)) 48"
proof (induction i p rule: zero_while.induct)
  case (1 i p)
  show ?case
  proof (cases "i < p")
    case True
    then have "nat (p - i) = Suc (nat (p - 1 - i))" by simp
    then show ?thesis using True 1 by (subst zero_while.simps) simp
  qed (subst zero_while.simps; simp)
qed

lemma has_bit:
  "has t ZEROPAD \<longleftrightarrow> bit t 0" "has t SIGN \<longleftrightarrow> bit t 1" "has t PLUS \<longleftrightarrow> bit t 2"
  "has t SPACE \<longleftrightarrow> bit t 3" "has t LEFT_flag \<longleftrightarrow> bit t 4" "has t SPECIAL \<longleftrightarrow> bit t 5"
  "has t SMALL \<longleftrightarrow> bit t 6"
  using and_exp_eq_0_iff_not_bit[of t 0] and_exp_eq_0_iff_not_bit[of t 1]
    and_exp_eq_0_iff_not_bit[of t 2] and_exp_eq_0_iff_not_bit[of t 3]
    and_exp_eq_0_iff_not_bit[of t 4] and_exp_eq_0_iff_not_bit[of t 5]
    and_exp_eq_0_iff_not_bit[of t 6]
  by (simp_all add: has_def ZEROPAD_def SIGN_def PLUS_def SPACE_def LEFT_flag_def SPECIAL_def SMALL_def)

lemma has_pad_or_left: "has t (ZEROPAD + LEFT_flag) \<longleftrightarrow> has t ZEROPAD \<or> has t LEFT_flag"
proof -
  have "ZEROPAD + LEFT_flag = ZEROPAD OR LEFT_flag" by (simp add: ZEROPAD_def LEFT_flag_def)
  then show ?thesis by (simp add: has_def bit.conj_disj_distrib or_eq_0_iff)
qed

lemma has_without_zeropad:
  "has (t AND NOT ZEROPAD) SIGN = has t SIGN" "has (t AND NOT ZEROPAD) PLUS = has t PLUS"
  "has (t AND NOT ZEROPAD) SPACE = has t SPACE" "has (t AND NOT ZEROPAD) LEFT_flag = has t LEFT_flag"
  "has (t AND NOT ZEROPAD) SPECIAL = has t SPECIAL" "\<not> has (t AND NOT ZEROPAD) ZEROPAD"
  by (simp_all add: has_bit ZEROPAD_def bit_and_iff bit_not_iff bit_1_iff)
    (simp add: has_def ZEROPAD_def and.assoc)

text \<open>What the routine is to print, without its counters.\<close>

definition digit_text :: "bool \<Rightarrow> nat \<Rightarrow> nat \<Rightarrow> u8 list" where
  "digit_text small b n = (if n = 0 then [48] else map (\<lambda>d. digit_string small ! d) (rev (lsd b n)))"

definition number_text :: "u32 \<Rightarrow> int \<Rightarrow> int \<Rightarrow> int \<Rightarrow> u32 \<Rightarrow> u8 list" where
  "number_text num base sz precision t =
     (let neg = (has t SIGN \<and> sint num < 0);
          sign = (if neg then [45] else if has t PLUS then [43] else if has t SPACE then [32] else []);
          prefix = (if has t SPECIAL \<and> base = 16 then [48, if has t SMALL then 120 else 88]
                    else if has t SPECIAL \<and> base = 8 then [48] else []);
          ds = digit_text (has t SMALL) (nat base) (if neg then nat (- sint num) else unat num);
          zs = replicate (nat (precision - int (length ds))) 48;
          pad = nat (sz - int (length (sign @ prefix @ zs @ ds)))
      in if has t LEFT_flag then sign @ prefix @ zs @ ds @ replicate pad 32
         else if has t ZEROPAD then sign @ prefix @ replicate pad 48 @ zs @ ds
         else replicate pad 32 @ sign @ prefix @ zs @ ds)"

lemma number_layout_eq:
  "number_layout t sz front back =
     (if has t LEFT_flag then front @ back @ replicate (nat sz) 32
      else if has t ZEROPAD then front @ replicate (nat sz) 48 @ back
      else replicate (nat sz) 32 @ front @ back)"
  by (simp add: number_layout_def has_pad_or_left pad_while_eq)

lemma number_text_eq:
  "number_text num base sz precision t =
     (let front = (if sign_char num t \<noteq> 0 then [sign_char num t] else []) @
                    special_prefix base t (digit_string (has t SMALL));
          ds = digit_text (has t SMALL) (nat base)
                 (if has t SIGN \<and> sint num < 0 then nat (- sint num) else unat num);
          zs = replicate (nat (precision - int (length ds))) 48;
          pad = nat (sz - int (length (front @ zs @ ds)))
      in if has t LEFT_flag then front @ (zs @ ds) @ replicate pad 32
         else if has t ZEROPAD then front @ replicate pad 48 @ zs @ ds
         else replicate pad 32 @ front @ zs @ ds)"
proof -
  have "(if sign_char num t \<noteq> 0 then [sign_char num t] else []) =
      (if has t SIGN \<and> sint num < 0 then [45] else if has t PLUS then [43] else if has t SPACE then [32] else [])"
    by (simp add: sign_char_def)
  moreover have "special_prefix base t (digit_string (has t SMALL)) =
      (if has t SPECIAL \<and> base = 16 then [48, if has t SMALL then 120 else 88]
       else if has t SPECIAL \<and> base = 8 then [48] else [])"
    by (simp add: special_prefix_def digit_string_def)
  ultimately show ?thesis
    by (simp only: number_text_def Let_def append_assoc)
qed

lemma unat_negated: "sint n < 0 \<Longrightarrow> unat (- n :: u32) = nat (- sint n)"
proof -
  assume neg: "sint n < 0"
  have "- n = word_of_int (- sint n)" by simp
  moreover have "take_bit 32 (- sint n) = - sint n"
    by (rule take_bit_int_eq_self) (use neg sint_ge[of n] in simp_all)
  ultimately show ?thesis
    by (simp only: unsigned_of_int) simp
qed

lemma number_eq:
  assumes "2 \<le> base" and "base \<le> 36"
  shows "number num base sz precision t = Inr (Some (number_text num base sz precision t))"
proof -
  define neg where "neg \<longleftrightarrow> has t SIGN \<and> sint num < 0"
  define num1 where "num1 = (if neg then - num else num)"
  have val: "unat num1 = (if neg then nat (- sint num) else unat num)"
    by (simp add: num1_def neg_def unat_negated)
  have b: "of_int base = (of_nat (nat base) :: u32)" using assms by simp
  have "length (lsd (nat base) (unat num1)) \<le> 32"
    by (rule length_lsd) (use unat_less_32 in simp)
  then have "num_digits (digit_string s) (of_int base) num1 [] =
      Inr (map (\<lambda>d. digit_string s ! d) (lsd (nat base) (unat num1)))" for s
    using assms unfolding b by (subst num_digits_eq) auto
  then have digs: "(if num1 = 0 then Inr [48] else num_digits (digit_string s) (of_int base) num1 []) =
      Inr (rev (digit_text s (nat base) (if neg then nat (- sint num) else unat num)))" for s
    unfolding val[symmetric] by (simp add: digit_text_def unat_eq_0 rev_map[symmetric])
  define t1 where "t1 = (if has t LEFT_flag then t AND NOT ZEROPAD else t)"
  have t1: "has t1 SIGN = has t SIGN" "sign_char num t1 = sign_char num t" "has t1 SPECIAL = has t SPECIAL"
    "special_prefix base t1 d = special_prefix base t d" for d
    by (simp_all add: t1_def sign_char_def special_prefix_def has_without_zeropad)
  define ds where "ds = digit_text (has t SMALL) (nat base) (if neg then nat (- sint num) else unat num)"
  have p: "int (length ds) + int (nat (precision - int (length ds))) = max (int (length ds)) precision"
    by simp
  define front where "front = (if sign_char num t \<noteq> 0 then [sign_char num t] else []) @
    special_prefix base t (digit_string (has t SMALL))"
  define sz2 where "sz2 = sz - int (length front)"
  have sz2: "(if has t SPECIAL
       then if base = 16 then (if sign_char num t \<noteq> 0 then sz - 1 else sz) - 2
            else if base = 8 then (if sign_char num t \<noteq> 0 then sz - 1 else sz) - 1
            else if sign_char num t \<noteq> 0 then sz - 1 else sz
       else if sign_char num t \<noteq> 0 then sz - 1 else sz) = sz2"
    by (simp add: sz2_def front_def special_prefix_def)
  have "number num base sz precision t =
      Inr (Some (number_layout t1 (sz2 - max (int (length ds)) precision) front
        (replicate (nat (precision - int (length ds))) 48 @ ds)))"
    using assms unfolding number_def Let_def t1_def[symmetric] t1 neg_def[symmetric] num1_def[symmetric] digs
      ds_def[symmetric] sz2 front_def[symmetric]
    by (simp add: zero_while_eq max_def)
  also have "\<dots> = Inr (Some (number_text num base sz precision t))"
    unfolding number_layout_eq t1_def number_text_eq
    by (simp add: has_without_zeropad neg_def[symmetric] ds_def[symmetric] front_def[symmetric] Let_def
        p[symmetric] sz2_def algebra_simps)
  finally show ?thesis .
qed

subsection \<open>Reading digits\<close>

lemma digit_string_nth: "d < 16 \<Longrightarrow> digit_string s ! d = (if d < 10 then of_nat (48 + d) else if s then of_nat (87 + d) else of_nat (55 + d))"
  by (simp add: digit_string_def nth_append del: upt_rec_numeral)

lemma all_less_16: "(\<forall>d < 16. P d) \<longleftrightarrow> list_all P [0, 1, 2, 3, 4, 5, 6, 7, 8, 9, 10, 11, 12, 13, 14, 15 :: nat]"
proof -
  have l: "[0, 1, 2, 3, 4, 5, 6, 7, 8, 9, 10, 11, 12, 13, 14, 15 :: nat] = [0..<16]" by (simp add: upt_conv_Cons)
  show ?thesis unfolding l by (auto simp: list_all_iff simp del: upt_rec_numeral)
qed

lemma digit_string_atob:
  assumes "d < 16"
  shows "atob_digit (digit_string s ! d) = Some (int d)"
    and "digit_string s ! d \<notin> {0, 46, 88, 120}"
proof -
  have "\<forall>d < 16. atob_digit (digit_string s ! d) = Some (int d) \<and> digit_string s ! d \<notin> {0, 46, 88, 120}"
    unfolding all_less_16 by (cases s) (simp_all add: digit_string_nth atob_digit_def)
  then show "atob_digit (digit_string s ! d) = Some (int d)"
    and "digit_string s ! d \<notin> {0, 46, 88, 120}" using assms by blast+
qed

lemma atob_loop_digits:
  assumes "\<forall>d \<in> set ds. d < b \<and> d < 16"
  shows "atob_loop (map (\<lambda>d. digit_string s ! d) ds @ 0 # r) (int b) v =
           Inr (Some (foldl (\<lambda>v d. v * of_nat b + of_nat d) v ds))"
  using assms
proof (induction ds arbitrary: v)
  case (Cons d ds)
  then show ?case using digit_string_atob[of d s] by simp
qed simp

lemma of_nat_digits_value:
  "foldl (\<lambda>v d. v * of_nat b + of_nat d) (of_nat v) ds = (of_nat (foldl (\<lambda>v d. v * b + d) v ds) :: u32)"
proof (induction ds arbitrary: v)
  case (Cons d ds)
  show ?case using Cons[of "v * b + d"] by simp
qed simp

text \<open>A text of digits has neither the prefix of base 16 nor a dot.\<close>

lemma atob_prefix_plain:
  "x # y # zs = p \<Longrightarrow> y \<notin> {88, 120} \<Longrightarrow> atob_prefix p base = Inr (p, base)"
  by (auto simp: atob_prefix_def ld8_def)

lemma strchr_absent: "0 \<in> set p \<Longrightarrow> c \<notin> set p \<Longrightarrow> strchr p c = Inr None"
  by (induction p) auto

lemma strchr_absent_before: "c \<notin> set s \<Longrightarrow> c \<noteq> 0 \<Longrightarrow> 0 \<notin> set s \<Longrightarrow> strchr (s @ 0 # r) c = Inr None"
  by (induction s) auto

lemma atob_ulong_digits:
  assumes "ds \<noteq> []" and "\<forall>d \<in> set ds. d < b \<and> d < 16"
  shows "atob_ulong (map (\<lambda>d. digit_string s ! d) ds @ 0 # r) (int b) =
           Inr (Some (of_nat (digits_value b ds)))"
proof -
  let ?p = "map (\<lambda>d. digit_string s ! d) ds @ 0 # r"
  obtain d ds' where ds: "ds = d # ds'" using assms(1) by (cases ds) auto
  have no: "x \<notin> {0, 46, 88, 120}" if "x \<in> set (map (\<lambda>d. digit_string s ! d) ds)" for x
    using that assms(2) digit_string_atob(2) by auto
  obtain y zs where y: "?p = digit_string s ! d # y # zs" and "y \<notin> {88, 120}"
  proof (cases ds')
    case Nil
    then show ?thesis using that[of 0 r] by (simp add: ds)
  next
    case (Cons e es)
    then show ?thesis
      using that[of "digit_string s ! e" "map (\<lambda>d. digit_string s ! d) es @ 0 # r"] no by (simp add: ds)
  qed
  then have "atob_prefix ?p (int b) = Inr (?p, int b)"
    using atob_prefix_plain[of "digit_string s ! d" y zs ?p "int b"] by metis
  moreover have "strchr ?p 46 = Inr None"
    by (rule strchr_absent_before) (use no in \<open>blast | simp\<close>)+
  moreover have "atob_loop ?p (int b) 0 = Inr (Some (of_nat (digits_value b ds)))"
    using atob_loop_digits[OF assms(2), of s r 0] of_nat_digits_value[of b 0 ds]
    by (simp add: digits_value_def)
  ultimately show ?thesis by (subst atob_ulong.simps) simp
qed

lemma digit_text_digits:
  assumes "2 \<le> b"
  obtains ds where "ds \<noteq> []" and "\<forall>d \<in> set ds. d < b" and "digits_value b ds = n"
    and "\<And>s. digit_text s b n = map (\<lambda>d. digit_string s ! d) ds"
proof (cases "n = 0")
  case True
  then show ?thesis
    using assms by (intro that[of "[0]"]) (simp_all add: digit_text_def digits_value_def digit_string_def)
next
  case False
  then have "lsd b n \<noteq> []" using assms by (subst lsd.simps) simp
  then show ?thesis
    using False lsd_less[of _ b n] digits_value_lsd[OF assms, of n]
    by (intro that[of "rev (lsd b n)"]) (simp_all add: digit_text_def)
qed

lemma atob_digit_text:
  assumes "2 \<le> b" and "b \<le> 16"
  shows "atob_ulong (digit_text s b n @ 0 # r) (int b) = Inr (Some (of_nat n))"
proof -
  obtain ds where ds: "ds \<noteq> []" "\<forall>d \<in> set ds. d < b" "digits_value b ds = n"
    "\<And>s. digit_text s b n = map (\<lambda>d. digit_string s ! d) ds"
    using digit_text_digits[OF assms(1)] by blast
  then show ?thesis
    using atob_ulong_digits[OF ds(1), of b s r] assms(2) by fastforce
qed

subsection \<open>The hexadecimal text of itoa\<close>

lemma nibble_char:
  assumes "k < 16"
  shows "(if (of_nat k + 48 :: u8) > 57 then of_nat k + 48 + 7 else of_nat k + 48) = digit_string False ! k"
proof -
  have "\<forall>k < 16. (if (of_nat k + 48 :: u8) > 57 then of_nat k + 48 + 7 else of_nat k + 48) = digit_string False ! k"
    unfolding all_less_16 by (simp add: digit_string_nth)
  then show ?thesis using assms by blast
qed

lemma nibble:
  fixes num :: u32
  shows "(ucast (drop_bit i num AND 0xF) :: u8) = of_nat (unat num div 2 ^ i mod 16)"
proof -
  have "drop_bit i num AND 0xF = take_bit 4 (drop_bit i num)"
    by (simp add: take_bit_eq_mask mask_eq_exp_minus_1)
  then have "unat (drop_bit i num AND 0xF) = take_bit 4 (unat (drop_bit i num))"
    by (simp only: unsigned_take_bit_eq)
  also have "\<dots> = unat num div 2 ^ i mod 16"
    by (simp only: unat_drop_bit_eq take_bit_eq_mod) (simp add: drop_bit_eq_div)
  finally have "unat (drop_bit i num AND 0xF) = unat num div 2 ^ i mod 16" .
  then show ?thesis
    by (simp add: word_unat_eq_iff unat_narrow_8 unat_of_nat)
qed

lemma nibble_pos: "d < 16 \<Longrightarrow> (of_nat d :: u8) > 0 \<longleftrightarrow> d > 0"
  by (cases "d = 0") (auto simp: word_gt_0 word_of_nat_eq_0_iff dest: dvd_imp_le)

lemma digits_value_Cons: "digits_value b (d # ds) = d * b ^ length ds + digits_value b ds"
proof (induction ds rule: rev_induct)
  case Nil
  then show ?case by (simp add: digits_value_def)
next
  case (snoc x xs)
  have "digits_value b (d # xs @ [x]) = digits_value b (d # xs) * b + x"
    using digits_value_append[of b "d # xs" x] by simp
  then show ?case using snoc by (simp add: algebra_simps)
qed

lemma itoa_loop_digits:
  "\<exists>ds. itoa_loop num flag (4 * j) = map (\<lambda>d. digit_string False ! d) ds \<and> (\<forall>d \<in> set ds. d < 16) \<and>
     (flag \<longrightarrow> length ds = Suc j) \<and> digits_value 16 ds = unat num mod 16 ^ Suc j"
proof (induction j arbitrary: flag)
  case 0
  define d where "d = unat num mod 16"
  have "d < 16" by (simp add: d_def)
  have z: "(of_nat d :: u8) > 0 \<longleftrightarrow> d > 0" by (rule nibble_pos) fact
  have c: "(if (of_nat d + 48 :: u8) > 57 then of_nat d + 48 + 7 else of_nat d + 48) = digit_string False ! d"
    by (rule nibble_char) fact
  have n: "(ucast (drop_bit 0 num AND 0xF) :: u8) = of_nat d"
    using nibble[of 0 num] unfolding d_def by (simp only: power_0 div_by_1)
  have "itoa_loop num flag 0 = (if flag \<or> d > 0 then [digit_string False ! d] else [])"
    by (subst itoa_loop.simps) (simp only: Let_def n c z, simp)
  then show ?case
    using \<open>d < 16\<close> by (intro exI[of _ "if flag \<or> d > 0 then [d] else []"]) (auto simp: digits_value_def d_def)
next
  case (Suc j)
  define d where "d = unat num div 16 ^ Suc j mod 16"
  have "d < 16" by (simp add: d_def)
  have z: "(of_nat d :: u8) > 0 \<longleftrightarrow> d > 0" by (rule nibble_pos) fact
  have c: "(if (of_nat d + 48 :: u8) > 57 then of_nat d + 48 + 7 else of_nat d + 48) = digit_string False ! d"
    by (rule nibble_char) fact
  have p: "(2 :: nat) ^ (4 * Suc j) = 16 ^ Suc j" by (simp only: power_mult) simp
  have n: "(ucast (drop_bit (4 * Suc j) num AND 0xF) :: u8) = of_nat d"
    using nibble[of "4 * Suc j" num] unfolding p d_def .
  have step: "itoa_loop num flag (4 * Suc j) =
      (if flag \<or> d > 0 then digit_string False ! d # itoa_loop num True (4 * j) else itoa_loop num False (4 * j))"
    by (subst itoa_loop.simps) (simp only: Let_def n c z, simp)
  have m: "unat num mod 16 ^ Suc (Suc j) = d * 16 ^ Suc j + unat num mod 16 ^ Suc j"
    using mod_mult2_eq[of "unat num" "16 ^ Suc j" 16] by (simp add: d_def mult.commute)
  show ?case
  proof (cases "flag \<or> d > 0")
    case True
    obtain ds where "itoa_loop num True (4 * j) = map (\<lambda>d. digit_string False ! d) ds" "\<forall>d \<in> set ds. d < 16"
      "length ds = Suc j" "digits_value 16 ds = unat num mod 16 ^ Suc j"
      using Suc.IH[of True] by auto
    then show ?thesis
      using True step m \<open>d < 16\<close> by (intro exI[of _ "d # ds"]) (simp add: digits_value_Cons)
  next
    case False
    then show ?thesis using Suc.IH[of False] step m by (simp del: power_Suc)
  qed
qed

lemma atob_ulong_hex:
  assumes "\<forall>d \<in> set ds. d < 16"
  shows "atob_ulong (48 # 120 # map (\<lambda>d. digit_string s ! d) ds @ 0 # r) base =
           Inr (Some (of_nat (digits_value 16 ds)))"
proof -
  let ?q = "map (\<lambda>d. digit_string s ! d) ds @ 0 # r"
  have "x \<notin> {0, 46, 88, 120}" if "x \<in> set (map (\<lambda>d. digit_string s ! d) ds)" for x
    using that assms digit_string_atob(2) by auto
  then have "strchr ?q 46 = Inr None"
    by (intro strchr_absent_before) (blast | simp)+
  moreover have "atob_loop ?q 16 0 = Inr (Some (of_nat (digits_value 16 ds)))"
    using atob_loop_digits[of ds 16 s r 0] of_nat_digits_value[of 16 0 ds] assms
    by (simp add: digits_value_def)
  ultimately show ?thesis
    by (subst atob_ulong.simps) (simp add: atob_prefix_def ld8_def)
qed

subsection \<open>Properties\<close>

text \<open>
  C29. \<^verbatim>\<open>number\<close> with a base from 2 to 36 stores exactly the text that the flags ask for: the
  digits of the number (of its absolute value after a minus sign when it is signed and
  negative, the smallest \<^verbatim>\<open>int\<close> included), at least as many as the precision, after the sign
  and the prefix, filled up to the field width with blanks on the right, zeros after the
  prefix, or blanks on the left. It never leaves \<^verbatim>\<open>tmp[36]\<close> or the digit string.
\<close>

theorem number_prints_text:
  assumes "2 \<le> base" and "base \<le> 36"
  shows "number num base sz precision t = Inr (Some (number_text num base sz precision t))"
  using assms by (rule number_eq)

theorem number_prints_text_witness:
  "number 0xFFFFFFD6 10 6 (- 1) (SIGN OR ZEROPAD) = Inr (Some [45, 48, 48, 48, 52, 50])"
proof -
  have lsd42: "lsd 10 42 = [2, 4]" by (simp add: lsd.simps)
  have zeros: "replicate 3 (48 :: u8) = [48, 48, 48]" by (simp add: numeral_3_eq_3)
  have "number_text 0xFFFFFFD6 10 6 (- 1) (SIGN OR ZEROPAD) = [45, 48, 48, 48, 52, 50]"
    by (simp add: number_text_def Let_def has_def SIGN_def ZEROPAD_def LEFT_flag_def SPECIAL_def SMALL_def
        PLUS_def SPACE_def digit_text_def lsd42 digit_string_nth zeros)
  then show ?thesis using number_prints_text[of 10 "0xFFFFFFD6" 6 "- 1" "SIGN OR ZEROPAD"] by simp
qed

text \<open>
  What \<^verbatim>\<open>number\<close> prints for an unsigned number in a base up to 16, in lower or upper case
  and without a field width, \<^verbatim>\<open>atob\<close> reads back as the same number in the same base, for every
  32-bit value.
\<close>

theorem number_atob_roundtrip:
  assumes "2 \<le> base" and "base \<le> 16" and "t = 0 \<or> t = SMALL"
  shows "\<exists>text. number num base (- 1) (- 1) t = Inr (Some text) \<and>
           atob (text @ 0 # rest) base = Inr (Some num)"
proof -
  have flags: "\<not> has t SIGN" "\<not> has t PLUS" "\<not> has t SPACE" "\<not> has t SPECIAL" "\<not> has t LEFT_flag" "\<not> has t ZEROPAD"
    using assms(3) by (auto simp: has_def SIGN_def PLUS_def SPACE_def SPECIAL_def LEFT_flag_def ZEROPAD_def SMALL_def)
  have "number_text num base (- 1) (- 1) t = digit_text (has t SMALL) (nat base) (unat num)"
    by (simp add: number_text_def flags Let_def)
  moreover have "number num base (- 1) (- 1) t = Inr (Some (number_text num base (- 1) (- 1) t))"
    by (rule number_eq) (use assms in simp_all)
  moreover have "atob_ulong (digit_text (has t SMALL) (nat base) (unat num) @ 0 # rest) (int (nat base)) =
      Inr (Some (of_nat (unat num)))"
    by (rule atob_digit_text) (use assms in simp_all)
  ultimately show ?thesis using assms by (simp add: atob_def)
qed

theorem number_atob_roundtrip_witness:
  "\<exists>text. number 0xBEEF 16 (- 1) (- 1) SMALL = Inr (Some text) \<and> atob (text @ 0 # []) 16 = Inr (Some 0xBEEF)"
  using number_atob_roundtrip[of 16 SMALL "0xBEEF" "[]"] by simp

text \<open>
  The text that \<^verbatim>\<open>itoa\<close> of lib/stdlib.c writes for a number, terminator included, is read
  back as that number by \<^verbatim>\<open>atob\<close> of lib/stdio.c, whatever non-zero base the reader is given:
  the prefix decides.
\<close>

theorem itoa_atob_roundtrip:
  assumes "base \<noteq> 0"
  shows "atob (itoa num @ rest) base = Inr (Some num)"
proof -
  obtain ds where ds: "itoa_loop num False (4 * 7) = map (\<lambda>d. digit_string False ! d) ds"
    "\<forall>d \<in> set ds. d < 16" "digits_value 16 ds = unat num mod 16 ^ Suc 7"
    using itoa_loop_digits[of num False 7] by blast
  have "unat num mod 16 ^ Suc 7 = unat num" using unat_less_32[of num] by simp
  then show ?thesis
    using assms atob_ulong_hex[OF ds(2), of False rest base] atob_ulong_hex[of "[0]" False rest base] ds
    by (auto simp: atob_def itoa_def digits_value_def digit_string_def)
qed

theorem itoa_atob_roundtrip_witness:
  "atob (itoa 0xDEAD @ [7]) 10 = Inr (Some 0xDEAD)"
  using itoa_atob_roundtrip[of 10 "0xDEAD" "[7]"] by simp

end
