(* ===== verification/Tty.thy ===== *)
theory Tty
  imports Prelude
begin

text \<open>
  kernel/tty.c and include/system/tty.h: the terminals and their consoles, each a slice of the
  32 KiB of colour text memory, of which a window of 25 lines of 80 cells is shown.

  Video memory is a function from byte offsets (from \<^verbatim>\<open>V_MEM_BASE\<close>) to bytes, and a store
  outside its \<^verbatim>\<open>V_MEM_SIZE\<close> bytes is a fault. Writes to the display controller are logged as
  pairs of a value and a port, oldest first. Disabling interrupts around them is not modelled.
\<close>

subsection \<open>State\<close>

definition DEFAULT_CHAR_COLOR :: u8 where "DEFAULT_CHAR_COLOR = 7"
definition TTY_NUM :: nat where "TTY_NUM = 3"
definition TTY_IN_BYTES :: nat where "TTY_IN_BYTES = 256"
definition CRTC_ADDR_REG :: u16 where "CRTC_ADDR_REG = 0x3D4"
definition CRTC_DATA_REG :: u16 where "CRTC_DATA_REG = 0x3D5"
definition START_ADDR_H :: u8 where "START_ADDR_H = 12"
definition START_ADDR_L :: u8 where "START_ADDR_L = 13"
definition CURSOR_H :: u8 where "CURSOR_H = 14"
definition CURSOR_L :: u8 where "CURSOR_L = 15"
definition V_MEM_SIZE :: nat where "V_MEM_SIZE = 0x8000"
definition SCREEN_SIZE :: u32 where "SCREEN_SIZE = 80 * 25"
definition SCREEN_WIDTH :: u32 where "SCREEN_WIDTH = 80"

record console =
  current_start_addr :: u32
  original_addr :: u32
  v_mem_limit :: u32
  cursor :: u32

text \<open>
  \<^verbatim>\<open>inbuf_head\<close> and \<^verbatim>\<open>inbuf_tail\<close> point into an input buffer: the terminal's own one, at an
  index, or that of the local variable of \<^verbatim>\<open>tty_create\<close>, which is gone when it returns.
\<close>

datatype inbuf_ptr = NullPtr | Own nat | OfLocal nat

record tty =
  tty_id :: u8
  in_buff :: "u32 list"
  inbuf_head :: inbuf_ptr
  inbuf_tail :: inbuf_ptr
  inbuf_count :: u32
  console :: console

record tty_state =
  tty_table :: "tty list"
  vmem :: "nat \<Rightarrow> u8"
  ports :: "(u8 \<times> u16) list"

definition outb :: "u8 \<Rightarrow> u16 \<Rightarrow> tty_state \<Rightarrow> tty_state" where
  "outb v p st = st\<lparr>ports := ports st @ [(v, p)]\<rparr>"

definition poke :: "nat \<Rightarrow> u8 \<Rightarrow> tty_state \<Rightarrow> tty_state res" where
  "poke a v st = (if a < V_MEM_SIZE then Inr (st\<lparr>vmem := (vmem st)(a := v)\<rparr>) else Inl OutOfBounds)"

definition put_tty :: "nat \<Rightarrow> (tty \<Rightarrow> tty) \<Rightarrow> tty_state \<Rightarrow> tty_state" where
  "put_tty i f st = st\<lparr>tty_table := (tty_table st)[i := f (tty_table st ! i)]\<rparr>"

definition put_console :: "nat \<Rightarrow> (console \<Rightarrow> console) \<Rightarrow> tty_state \<Rightarrow> tty_state" where
  "put_console i f st = put_tty i (\<lambda>t. t\<lparr>console := f (console t)\<rparr>) st"

definition con :: "nat \<Rightarrow> tty_state \<Rightarrow> console" where
  "con i st = console (tty_table st ! i)"

subsection \<open>Creation\<close>

text \<open>The content of the buffer of the local variable is whatever the stack holds.\<close>

definition tty_create :: "u32 list \<Rightarrow> u8 \<Rightarrow> tty" where
  "tty_create junk i =
     (let v_mem_size = 0x8000 div 2 :: u32; con_v_mem_size = v_mem_size div 3; orig = ucast i * con_v_mem_size in
      \<lparr>tty_id = i, in_buff = junk, inbuf_head = OfLocal 0, inbuf_tail = OfLocal 0, inbuf_count = 0,
       console = \<lparr>current_start_addr = orig, original_addr = orig, v_mem_limit = con_v_mem_size,
                  cursor = orig\<rparr>\<rparr>)"

definition init_tty :: "u32 list \<Rightarrow> tty_state \<Rightarrow> tty_state" where
  "init_tty junk st = st\<lparr>tty_table := map (\<lambda>i. tty_create junk (of_nat i)) [0..<TTY_NUM]\<rparr>"

subsection \<open>The display controller\<close>

definition console_set_cursor :: "u32 \<Rightarrow> tty_state \<Rightarrow> tty_state" where
  "console_set_cursor position st =
     outb (ucast position) CRTC_DATA_REG (outb CURSOR_L CRTC_ADDR_REG
       (outb (ucast (drop_bit 8 position)) CRTC_DATA_REG (outb CURSOR_H CRTC_ADDR_REG st)))"

definition set_console_start_addr :: "u32 \<Rightarrow> tty_state \<Rightarrow> tty_state" where
  "set_console_start_addr addr st =
     outb (ucast addr) CRTC_DATA_REG (outb START_ADDR_L CRTC_ADDR_REG
       (outb (ucast (drop_bit 8 addr)) CRTC_DATA_REG (outb START_ADDR_H CRTC_ADDR_REG st)))"

definition flush_console :: "nat \<Rightarrow> tty_state \<Rightarrow> tty_state" where
  "flush_console i st =
     set_console_start_addr (current_start_addr (con i st)) (console_set_cursor (cursor (con i st)) st)"

subsection \<open>Scrolling and writing\<close>

datatype direction = SCR_UP | SCR_DN

definition scrolled :: "direction \<Rightarrow> console \<Rightarrow> console" where
  "scrolled d c =
     (case d of
        SCR_UP \<Rightarrow> if current_start_addr c > original_addr c
                   then c\<lparr>current_start_addr := current_start_addr c - SCREEN_WIDTH\<rparr> else c
      | SCR_DN \<Rightarrow> if current_start_addr c + SCREEN_SIZE < original_addr c + v_mem_limit c
                   then c\<lparr>current_start_addr := current_start_addr c + SCREEN_WIDTH\<rparr> else c)"

definition scroll_screen :: "nat \<Rightarrow> direction \<Rightarrow> tty_state \<Rightarrow> tty_state" where
  "scroll_screen i d st =
     (let st1 = put_console i (scrolled d) st in
      console_set_cursor (cursor (con i st1)) (set_console_start_addr (current_start_addr (con i st1)) st1))"

text \<open>\<^verbatim>\<open>while (console->cursor >= console->current_start_addr + SCREEN_SIZE) scroll_screen(console, SCR_DN);\<close>\<close>

partial_function (option) scroll_loop :: "nat \<Rightarrow> tty_state \<Rightarrow> tty_state option" where
  "scroll_loop i st =
     (if cursor (con i st) \<ge> current_start_addr (con i st) + SCREEN_SIZE
      then scroll_loop i (scroll_screen i SCR_DN st) else Some st)"

text \<open>What a character does to the cursor and the cells, before the window follows the cursor.\<close>

definition console_put :: "nat \<Rightarrow> u8 \<Rightarrow> tty_state \<Rightarrow> tty_state res" where
  "console_put i ch st =
     (let c = con i st; p = unat (cursor c * 2) in
      if ch = 10 then
        Inr (if cursor c < original_addr c + v_mem_limit c - SCREEN_WIDTH
             then put_console i (\<lambda>c. c\<lparr>cursor := original_addr c +
                    SCREEN_WIDTH * ((cursor c - original_addr c) div SCREEN_WIDTH + 1)\<rparr>) st
             else st)
      else if ch = 8 then
        (if cursor c > original_addr c
         then rbind (poke (p - 2) 32 (put_console i (\<lambda>c. c\<lparr>cursor := cursor c - 1\<rparr>) st)) (poke (p - 1) DEFAULT_CHAR_COLOR)
         else Inr st)
      else
        (if cursor c < original_addr c + v_mem_limit c - 1
         then rbind (poke p ch st) (\<lambda>st1. rbind (poke (p + 1) DEFAULT_CHAR_COLOR st1) (\<lambda>st2.
                Inr (put_console i (\<lambda>c. c\<lparr>cursor := cursor c + 1\<rparr>) st2)))
         else Inr st))"

definition console_out_char :: "nat \<Rightarrow> u8 \<Rightarrow> tty_state \<Rightarrow> tty_state res" where
  "console_out_char i ch st =
     rbind (console_put i ch st) (\<lambda>st1. rmap (flush_console i) (terminates (scroll_loop i st1)))"

fun out_chars :: "nat \<Rightarrow> u8 list \<Rightarrow> nat \<Rightarrow> tty_state \<Rightarrow> tty_state res" where
  "out_chars i buf 0 st = Inr st"
| "out_chars i [] (Suc n) st = Inl OutOfBounds"
| "out_chars i (ch # buf) (Suc n) st = rbind (console_out_char i ch st) (out_chars i buf n)"

text \<open>The index of the terminal is not checked; \<^verbatim>\<open>len\<close> counts down to 0.\<close>

definition tty_write :: "nat \<Rightarrow> u8 list \<Rightarrow> u32 \<Rightarrow> tty_state \<Rightarrow> (u32 \<times> tty_state) res" where
  "tty_write mi_dev buf l st =
     (if mi_dev < length (tty_table st) then rmap (\<lambda>st'. (l, st')) (out_chars mi_dev buf (unat l) st)
      else Inl OutOfBounds)"

text \<open>
  The upper bound of the loop is half of the size of the console, not the end of the console.
\<close>

fun clear_cells :: "nat list \<Rightarrow> tty_state \<Rightarrow> tty_state res" where
  "clear_cells [] st = Inr st"
| "clear_cells (i # is) st =
     rbind (poke (i * 2) 0 st) (\<lambda>st1. rbind (poke (i * 2 + 1) DEFAULT_CHAR_COLOR st1) (clear_cells is))"

definition clear_screen :: "nat \<Rightarrow> tty_state \<Rightarrow> tty_state res" where
  "clear_screen i st =
     (let c = con i st in
      rmap (\<lambda>st1. let st2 = put_console i (\<lambda>c. c\<lparr>current_start_addr := original_addr c, cursor := original_addr c\<rparr>) st1
                  in console_set_cursor (cursor (con i st2)) (set_console_start_addr (current_start_addr (con i st2)) st2))
        (clear_cells [unat (original_addr c)..<unat (v_mem_limit c div 2)] st))"

subsection \<open>A console as numbers\<close>

lemma unat_plus_32: "unat a + unat b < 4294967296 \<Longrightarrow> unat (a + b :: u32) = unat a + unat b"
  by (simp add: unat_word_ariths)

lemma unat_minus_32: "unat b \<le> unat a \<Longrightarrow> unat (a - b :: u32) = unat a - unat b"
  by (simp add: unat_sub word_le_nat_alt)

lemma unat_times_32: "unat a * unat b < 4294967296 \<Longrightarrow> unat (a * b :: u32) = unat a * unat b"
  by (simp add: unat_word_ariths)

lemma unat_screen [simp]: "unat SCREEN_SIZE = 2000" "unat SCREEN_WIDTH = 80"
  by (simp_all add: SCREEN_SIZE_def SCREEN_WIDTH_def)

text \<open>
  The console \<open>k\<close> of the three has the cells from \<open>k * 5461\<close> on; the window starts and the
  cursor stands in one of them.
\<close>

definition cells :: "nat \<Rightarrow> nat set" where
  "cells k = {k * 5461 ..< (k + 1) * 5461}"

definition console_ok :: "nat \<Rightarrow> console \<Rightarrow> bool" where
  "console_ok k c \<longleftrightarrow> k < 3 \<and> unat (original_addr c) = k * 5461 \<and> unat (v_mem_limit c) = 5461
     \<and> unat (current_start_addr c) \<in> cells k \<and> unat (cursor c) \<in> cells k"

text \<open>Only cells of one console differ between two states of the video memory.\<close>

definition inside :: "nat \<Rightarrow> (nat \<Rightarrow> u8) \<Rightarrow> (nat \<Rightarrow> u8) \<Rightarrow> bool" where
  "inside k m m' \<longleftrightarrow> (\<forall>a. a div 2 \<notin> cells k \<longrightarrow> m' a = m a)"

lemma inside_refl [simp]: "inside k m m"
  by (simp add: inside_def)

lemma inside_trans: "inside k a b \<Longrightarrow> inside k b c \<Longrightarrow> inside k a c"
  by (simp add: inside_def)

lemma con_put [simp]:
  "i < length (tty_table st) \<Longrightarrow> con i (put_console i f st) = f (con i st)"
  "vmem (put_console i f st) = vmem st" "ports (put_console i f st) = ports st"
  "length (tty_table (put_console i f st)) = length (tty_table st)"
  "j \<noteq> i \<Longrightarrow> tty_table (put_console i f st) ! j = tty_table st ! j"
  by (simp_all add: con_def put_console_def put_tty_def)

lemma port_state [simp]:
  "tty_table (console_set_cursor p st) = tty_table st" "vmem (console_set_cursor p st) = vmem st"
  "tty_table (set_console_start_addr p st) = tty_table st" "vmem (set_console_start_addr p st) = vmem st"
  "tty_table (flush_console i st) = tty_table st" "vmem (flush_console i st) = vmem st"
  by (simp_all add: console_set_cursor_def set_console_start_addr_def flush_console_def outb_def)

lemma con_ports [simp]:
  "con i (console_set_cursor p st) = con i st" "con i (set_console_start_addr p st) = con i st"
  "con i (flush_console i st) = con i st"
  by (simp_all add: con_def)

lemma scroll_screen_state [simp]:
  "i < length (tty_table st) \<Longrightarrow> con i (scroll_screen i d st) = scrolled d (con i st)"
  "vmem (scroll_screen i d st) = vmem st"
  "length (tty_table (scroll_screen i d st)) = length (tty_table st)"
  "j \<noteq> i \<Longrightarrow> tty_table (scroll_screen i d st) ! j = tty_table st ! j"
  by (simp_all add: scroll_screen_def Let_def)

lemma con_other: "j \<noteq> i \<Longrightarrow> tty_table st' ! j = tty_table st ! j \<Longrightarrow> con j st' = con j st"
  by (simp add: con_def)

subsection \<open>The window follows the cursor\<close>

lemma window_test:
  assumes "console_ok k c"
  shows "cursor c \<ge> current_start_addr c + SCREEN_SIZE \<longleftrightarrow> unat (cursor c) \<ge> unat (current_start_addr c) + 2000"
  using assms by (simp add: console_ok_def cells_def word_le_nat_alt unat_plus_32)

lemma scrolled_down:
  assumes "console_ok k c" and "unat (cursor c) \<ge> unat (current_start_addr c) + 2000"
  shows "console_ok k (scrolled SCR_DN c) \<and> cursor (scrolled SCR_DN c) = cursor c \<and>
     unat (current_start_addr (scrolled SCR_DN c)) = unat (current_start_addr c) + 80"
proof -
  have "unat (current_start_addr c + SCREEN_SIZE) = unat (current_start_addr c) + 2000"
    "unat (original_addr c + v_mem_limit c) = k * 5461 + 5461"
    "unat (current_start_addr c + SCREEN_WIDTH) = unat (current_start_addr c) + 80"
    using assms(1) by (simp_all add: console_ok_def cells_def unat_plus_32)
  then show ?thesis using assms by (simp add: scrolled_def word_less_nat_alt console_ok_def cells_def)
qed

text \<open>What the loop leaves alone.\<close>

definition same_but_window :: "nat \<Rightarrow> tty_state \<Rightarrow> tty_state \<Rightarrow> bool" where
  "same_but_window i st st' \<longleftrightarrow> vmem st' = vmem st \<and> length (tty_table st') = length (tty_table st)
     \<and> cursor (con i st') = cursor (con i st) \<and> (\<forall>j. j \<noteq> i \<longrightarrow> tty_table st' ! j = tty_table st ! j)"

lemma scroll_loop_ends:
  assumes "i < length (tty_table st)" and "console_ok k (con i st)"
  shows "\<exists>st'. scroll_loop i st = Some st' \<and> console_ok k (con i st') \<and> same_but_window i st st'
     \<and> unat (cursor (con i st')) < unat (current_start_addr (con i st')) + 2000"
  using assms
proof (induction "unat (cursor (con i st)) - unat (current_start_addr (con i st))" arbitrary: st rule: less_induct)
  case less
  show ?case
  proof (cases "unat (cursor (con i st)) \<ge> unat (current_start_addr (con i st)) + 2000")
    case False
    then show ?thesis using less.prems window_test[OF less.prems(2)]
      by (subst scroll_loop.simps) (auto simp: same_but_window_def)
  next
    case True
    let ?st = "scroll_screen i SCR_DN st"
    note d = scrolled_down[OF less.prems(2) True]
    have "\<exists>st'. scroll_loop i ?st = Some st' \<and> console_ok k (con i st') \<and> same_but_window i ?st st'
       \<and> unat (cursor (con i st')) < unat (current_start_addr (con i st')) + 2000"
      by (rule less.hyps) (use d less.prems True in auto)
    moreover have "scroll_loop i st = scroll_loop i ?st"
      using True window_test[OF less.prems(2)] by (subst scroll_loop.simps) simp
    ultimately show ?thesis using d less.prems(1) by (auto simp: same_but_window_def)
  qed
qed

subsection \<open>One character\<close>

lemma poke_in: "a < V_MEM_SIZE \<Longrightarrow> poke a v st = Inr (st\<lparr>vmem := (vmem st)(a := v)\<rparr>)"
  by (simp add: poke_def)

lemma con_vmem [simp]: "con i (st\<lparr>vmem := m\<rparr>) = con i st" "tty_table (st\<lparr>vmem := m\<rparr>) = tty_table st"
  by (simp_all add: con_def)

lemma console_ok_cursor:
  "console_ok k c \<Longrightarrow> unat p \<in> cells k \<Longrightarrow> console_ok k (c\<lparr>cursor := p\<rparr>)"
  by (simp add: console_ok_def)

lemma newline_cell:
  assumes "o' \<le> c" and "c < o' + 5461 - 80"
  shows "o' \<le> o' + 80 * ((c - o') div 80 + 1) \<and> o' + 80 * ((c - o') div 80 + 1) < o' + (5461 :: nat)"
proof -
  have "80 * ((c - o') div 80) \<le> c - o'" by simp
  then show ?thesis using assms by simp
qed

lemma console_put_ok:
  assumes "i < length (tty_table st)" and "console_ok k (con i st)"
  shows "\<exists>st'. console_put i ch st = Inr st' \<and> console_ok k (con i st') \<and> inside k (vmem st) (vmem st')
     \<and> length (tty_table st') = length (tty_table st) \<and> (\<forall>j. j \<noteq> i \<longrightarrow> tty_table st' ! j = tty_table st ! j)"
proof -
  define c where "c = con i st"
  have c: "k < 3" "unat (original_addr c) = k * 5461" "unat (v_mem_limit c) = 5461"
    "k * 5461 \<le> unat (cursor c)" "unat (cursor c) < k * 5461 + 5461"
    using assms(2) by (simp_all add: console_ok_def cells_def c_def)
  have p: "unat (cursor c * 2) = 2 * unat (cursor c)" using c by (simp add: unat_times_32)
  have lim: "unat (original_addr c + v_mem_limit c - SCREEN_WIDTH) = k * 5461 + 5461 - 80"
    "unat (original_addr c + v_mem_limit c - 1) = k * 5461 + 5461 - 1"
    using c by (simp_all add: unat_minus_32 unat_plus_32)
  consider "ch = 10" | "ch = 8" | "ch \<noteq> 10" "ch \<noteq> 8" by blast
  then show ?thesis
  proof cases
    case 1
    let ?q = "original_addr c + SCREEN_WIDTH * ((cursor c - original_addr c) div SCREEN_WIDTH + 1)"
    let ?n = "(unat (cursor c) - k * 5461) div 80"
    have n: "?n \<le> 68" using c by simp
    have "unat ((cursor c - original_addr c) div SCREEN_WIDTH) = ?n"
      using c by (simp add: unat_div_distrib unat_minus_32)
    then have "unat ((cursor c - original_addr c) div SCREEN_WIDTH + 1) = ?n + 1"
      using n by (simp add: unat_plus_32)
    then have "unat (SCREEN_WIDTH * ((cursor c - original_addr c) div SCREEN_WIDTH + 1)) = 80 * (?n + 1)"
      using n by (simp add: unat_times_32)
    then have q: "unat ?q = k * 5461 + 80 * (?n + 1)" using n c by (simp add: unat_plus_32)
    show ?thesis
    proof (cases "cursor c < original_addr c + v_mem_limit c - SCREEN_WIDTH")
      case True
      then have "unat (cursor c) < k * 5461 + 5461 - 80" using lim by (simp add: word_less_nat_alt)
      then have "unat ?q \<in> cells k"
        using newline_cell[OF c(4)] by (simp add: q cells_def)
      then show ?thesis
        using 1 True assms console_ok_cursor[OF assms(2)] by (simp add: console_put_def Let_def c_def)
    next
      case False
      then show ?thesis using 1 assms by (simp add: console_put_def Let_def c_def)
    qed
  next
    case 2
    show ?thesis
    proof (cases "cursor c > original_addr c")
      case True
      then have gt: "k * 5461 < unat (cursor c)" using c(2) by (simp add: word_less_nat_alt)
      then have "unat (cursor c - 1) = unat (cursor c) - 1" by (simp add: unat_minus_32)
      then have "unat (cursor c - 1) \<in> cells k" using c gt unfolding cells_def by auto
      moreover have "2 * unat (cursor c) - 2 < V_MEM_SIZE" "2 * unat (cursor c) - 1 < V_MEM_SIZE"
        "(2 * unat (cursor c) - 2) div 2 \<in> cells k" "(2 * unat (cursor c) - 1) div 2 \<in> cells k"
        using c gt by (auto simp: V_MEM_SIZE_def cells_def)
      ultimately show ?thesis
        using 2 True assms console_ok_cursor[OF assms(2)] p
        by (auto simp: console_put_def Let_def c_def poke_in inside_def)
    next
      case False
      then show ?thesis using 2 assms by (simp add: console_put_def Let_def c_def)
    qed
  next
    case 3
    show ?thesis
    proof (cases "cursor c < original_addr c + v_mem_limit c - 1")
      case True
      then have lt: "unat (cursor c) < k * 5461 + 5461 - 1" using lim by (simp add: word_less_nat_alt)
      then have "unat (cursor c + 1) \<in> cells k" using c by (simp add: unat_plus_32 cells_def)
      moreover have "2 * unat (cursor c) < V_MEM_SIZE" "2 * unat (cursor c) + 1 < V_MEM_SIZE"
        "(2 * unat (cursor c)) div 2 \<in> cells k" "(2 * unat (cursor c) + 1) div 2 \<in> cells k"
        using c lt by (auto simp: V_MEM_SIZE_def cells_def)
      ultimately show ?thesis
        using 3 True assms console_ok_cursor[OF assms(2)] p
        by (auto simp: console_put_def Let_def c_def poke_in inside_def)
    next
      case False
      then show ?thesis using 3 assms by (simp add: console_put_def Let_def c_def)
    qed
  qed
qed

text \<open>What a write to a terminal may change, and what it guarantees.\<close>

definition write_ok :: "nat \<Rightarrow> tty_state \<Rightarrow> tty_state \<Rightarrow> bool" where
  "write_ok i st st' \<longleftrightarrow> console_ok i (con i st') \<and> inside i (vmem st) (vmem st')
     \<and> length (tty_table st') = length (tty_table st) \<and> (\<forall>j. j \<noteq> i \<longrightarrow> tty_table st' ! j = tty_table st ! j)"

definition cursor_shown :: "console \<Rightarrow> bool" where
  "cursor_shown c \<longleftrightarrow> unat (cursor c) < unat (current_start_addr c) + 25 * 80"

lemma console_out_char_ok:
  assumes "i < length (tty_table st)" and "console_ok i (con i st)"
  shows "\<exists>st'. console_out_char i ch st = Inr st' \<and> write_ok i st st' \<and> cursor_shown (con i st')"
proof -
  obtain st1 where s1: "console_put i ch st = Inr st1" "console_ok i (con i st1)" "inside i (vmem st) (vmem st1)"
    "length (tty_table st1) = length (tty_table st)" "\<forall>j. j \<noteq> i \<longrightarrow> tty_table st1 ! j = tty_table st ! j"
    using console_put_ok[OF assms] by blast
  obtain st2 where s2: "scroll_loop i st1 = Some st2" "console_ok i (con i st2)" "same_but_window i st1 st2"
    "unat (cursor (con i st2)) < unat (current_start_addr (con i st2)) + 2000"
    using scroll_loop_ends[of i st1 i] s1 assms(1) by auto
  then show ?thesis
    using s1 by (auto simp: console_out_char_def write_ok_def cursor_shown_def same_but_window_def)
qed

lemma write_ok_refl: "console_ok i (con i st) \<Longrightarrow> write_ok i st st"
  by (simp add: write_ok_def)

lemma write_ok_trans: "write_ok i a b \<Longrightarrow> write_ok i b c \<Longrightarrow> write_ok i a c"
  by (auto simp: write_ok_def intro: inside_trans)

lemma out_chars_ok:
  "i < length (tty_table st) \<Longrightarrow> console_ok i (con i st) \<Longrightarrow> n \<le> length buf \<Longrightarrow>
   \<exists>st'. out_chars i buf n st = Inr st' \<and> write_ok i st st' \<and> (n > 0 \<longrightarrow> cursor_shown (con i st'))"
proof (induction i buf n st rule: out_chars.induct)
  case (3 i ch buf n st)
  obtain st1 where s1: "console_out_char i ch st = Inr st1" "write_ok i st st1" "cursor_shown (con i st1)"
    using console_out_char_ok[OF 3(2,3)] by blast
  have "\<exists>st2. out_chars i buf n st1 = Inr st2 \<and> write_ok i st1 st2 \<and> (n > 0 \<longrightarrow> cursor_shown (con i st2))"
    by (rule 3(1)[OF s1(1)]) (use 3 s1(2) in \<open>auto simp: write_ok_def\<close>)
  then obtain st2 where "out_chars i buf n st1 = Inr st2" "write_ok i st1 st2" "n > 0 \<longrightarrow> cursor_shown (con i st2)"
    by blast
  then show ?case using s1 by (cases n) (auto intro: write_ok_trans)
qed (simp_all add: write_ok_refl)

text \<open>A write changes nothing of a terminal but its console.\<close>

definition only_console :: "nat \<Rightarrow> tty_state \<Rightarrow> tty_state \<Rightarrow> bool" where
  "only_console i st st' \<longleftrightarrow> (\<exists>c. tty_table st' = (tty_table st)[i := (tty_table st ! i)\<lparr>console := c\<rparr>])"

lemma only_console_refl: "tty_table st' = tty_table st \<Longrightarrow> only_console i st st'"
  unfolding only_console_def
  by (rule exI[of _ "console (tty_table st ! i)"]) (simp add: list_update_same_conv)

lemma only_console_trans: "only_console i a b \<Longrightarrow> only_console i b c \<Longrightarrow> only_console i a c"
  by (cases "i < length (tty_table a)") (auto simp: only_console_def list_update_beyond)

lemma only_console_put: "only_console i st (put_console i f st)"
  by (auto simp: only_console_def put_console_def put_tty_def)

lemma only_console_put_trans: "tty_table st' = tty_table (put_console i f st) \<Longrightarrow> only_console i st st'"
  by (rule only_console_trans[OF only_console_put]) (rule only_console_refl)

lemma only_console_set:
  "tty_table st' = (tty_table st)[i := (tty_table st ! i)\<lparr>console := c\<rparr>] \<Longrightarrow> only_console i st st'"
  by (auto simp: only_console_def)

lemma only_console_poke: "poke a v st = Inr st' \<Longrightarrow> tty_table st' = tty_table st"
  by (auto simp: poke_def split: if_splits)

lemma console_put_only: "console_put i ch st = Inr st' \<Longrightarrow> only_console i st st'"
  unfolding console_put_def Let_def
  by (auto split: if_split_asm simp: rbind_Inr_conv put_console_def put_tty_def dest!: only_console_poke
      intro: only_console_refl only_console_set)

lemma scroll_screen_only: "only_console i st (scroll_screen i d st)"
  by (rule only_console_put_trans) (simp add: scroll_screen_def Let_def)

lemma scroll_loop_only: "scroll_loop i st = Some st' \<Longrightarrow> only_console i st st'"
proof (induction rule: scroll_loop.raw_induct[rotated, consumes 1])
  case (1 loop i st st')
  then show ?case
    by (auto split: if_split_asm intro: only_console_refl only_console_trans[OF scroll_screen_only])
qed

lemma console_out_char_only: "console_out_char i ch st = Inr st' \<Longrightarrow> only_console i st st'"
  by (auto simp: console_out_char_def rbind_Inr_conv rmap_Inr_conv terminates_Inr_conv
      intro: only_console_trans[OF console_put_only only_console_trans[OF scroll_loop_only only_console_refl]])

lemma out_chars_only: "out_chars i buf n st = Inr st' \<Longrightarrow> only_console i st st'"
  by (induction i buf n st rule: out_chars.induct)
     (auto simp: rbind_Inr_conv intro: only_console_refl only_console_trans[OF console_out_char_only])

lemma tty_write_only: "tty_write i buf l st = Inr (r, st') \<Longrightarrow> only_console i st st'"
  by (auto simp: tty_write_def rmap_Inr_conv split: if_splits intro: out_chars_only)

lemma tty_write_returns:
  "i < length (tty_table st) \<Longrightarrow> console_ok i (con i st) \<Longrightarrow> unat l \<le> length buf \<Longrightarrow>
   \<exists>st'. tty_write i buf l st = Inr (l, st') \<and> console_ok i (con i st')"
  using out_chars_ok[of i st "unat l" buf] by (auto simp: tty_write_def write_ok_def)

subsection \<open>Properties\<close>

text \<open>
  C35. Writing to one of the three terminals always returns, whatever the bytes: every loop
  that scrolls the window ends, and no store leaves the video memory. Only cells of that
  terminal's console change, the other terminals stay as they are, the window and the cursor
  stay in the console, and after at least one byte the cursor is not below the window.
\<close>

theorem tty_write_stays_in_console:
  assumes "i < length (tty_table st)" and "console_ok i (con i st)" and "unat l \<le> length buf"
  shows "\<exists>st'. tty_write i buf l st = Inr (l, st') \<and> console_ok i (con i st')
     \<and> (\<forall>a. a div 2 \<notin> {i * 5461 ..< (i + 1) * 5461} \<longrightarrow> vmem st' a = vmem st a)
     \<and> (\<forall>j. j \<noteq> i \<longrightarrow> tty_table st' ! j = tty_table st ! j)
     \<and> (l \<noteq> 0 \<longrightarrow> unat (cursor (con i st')) < unat (current_start_addr (con i st')) + 25 * 80)"
proof -
  obtain st' where o: "out_chars i buf (unat l) st = Inr st'" "write_ok i st st'"
    "unat l > 0 \<longrightarrow> cursor_shown (con i st')"
    using out_chars_ok[OF assms(1,2,3)] by (elim exE conjE)
  have "tty_write i buf l st = Inr (l, st')" using assms(1) o(1) by (simp add: tty_write_def)
  moreover have "l \<noteq> 0 \<longrightarrow> unat (cursor (con i st')) < unat (current_start_addr (con i st')) + 25 * 80"
  proof
    assume "l \<noteq> 0"
    then have "unat l > 0" using unat_gt_0[of l] by (rule iffD2[rotated])
    then have "cursor_shown (con i st')" using o(3) by (rule mp[rotated])
    then show "unat (cursor (con i st')) < unat (current_start_addr (con i st')) + 25 * 80"
      unfolding cursor_shown_def .
  qed
  moreover have "console_ok i (con i st')" "inside i (vmem st) (vmem st')"
    "\<forall>j. j \<noteq> i \<longrightarrow> tty_table st' ! j = tty_table st ! j"
    using o(2) by (simp_all add: write_ok_def)
  ultimately show ?thesis
    by (intro exI[of _ st'] conjI) (simp_all only: inside_def cells_def)
qed

definition three_ttys :: tty_state where
  "three_ttys = init_tty (replicate 256 0) \<lparr>tty_table = [], vmem = (\<lambda>_. 0), ports = []\<rparr>"

lemma three_ttys_ok: "i < 3 \<Longrightarrow> console_ok i (con i three_ttys) \<and> length (tty_table three_ttys) = 3"
proof -
  have d: "(0x8000 div 2 div 3 :: u32) = 5461" by simp
  assume "i < 3"
  then have "i = 0 \<or> i = 1 \<or> i = 2" by linarith
  then show ?thesis
    by (auto simp: three_ttys_def init_tty_def TTY_NUM_def upt_rec con_def tty_create_def console_ok_def cells_def Let_def)
qed

theorem tty_write_stays_in_console_witness:
  "\<exists>st'. tty_write 1 [72, 105, 10] 3 three_ttys = Inr (3, st') \<and> vmem st' 0 = 0 \<and> vmem st' 21844 = 0
     \<and> con 0 st' = con 0 three_ttys"
proof -
  obtain st' where w: "tty_write 1 [72, 105, 10] 3 three_ttys = Inr (3, st')"
    "\<forall>a. a div 2 \<notin> {1 * 5461 ..< (1 + 1) * 5461} \<longrightarrow> vmem st' a = vmem three_ttys a"
    "\<forall>j. j \<noteq> 1 \<longrightarrow> tty_table st' ! j = tty_table three_ttys ! j"
    using tty_write_stays_in_console[of 1 three_ttys 3 "[72, 105, 10]"] three_ttys_ok[of 1] by auto
  have "vmem three_ttys = (\<lambda>_. 0)" by (simp add: three_ttys_def init_tty_def)
  then have "vmem st' 0 = 0" "vmem st' 21844 = 0" "con 0 st' = con 0 three_ttys"
    using w(2)[THEN spec, of 0] w(2)[THEN spec, of 21844] w(3)[THEN spec, of 0] by (simp_all add: con_def)
  then show ?thesis using w(1) by blast
qed

end
