(* ===== verification/Printf.thy ===== *)
theory Printf
  imports Number Tty
begin

text \<open>
  Formatted output of lib/stdio.c: \<^verbatim>\<open>vsprintf\<close>, \<^verbatim>\<open>sprintf\<close>, \<^verbatim>\<open>printk\<close> and \<^verbatim>\<open>panic\<close>. The variable
  arguments are the list of the 32-bit words on the stack behind the format, of which \<^verbatim>\<open>va_arg\<close>
  takes the first; \<open>mem a\<close> is the object that a string argument \<open>a\<close> points into, from there to
  its end. \<^verbatim>\<open>vsprintf\<close> stores through \<^verbatim>\<open>str\<close> without a bound, so its model collects the stored
  characters and checks them against the buffer at the end.
\<close>

unbundle bit_operations_syntax

subsection \<open>The parts of a directive\<close>

record fspec =
  sp_flags :: u32
  sp_width :: int
  sp_precision :: int

definition va_arg :: "u32 list \<Rightarrow> (u32 \<times> u32 list) res" where
  "va_arg args = (case args of [] \<Rightarrow> Inl OutOfBounds | a # as \<Rightarrow> Inr (a, as))"

fun fmt_flags :: "u8 list \<Rightarrow> u32 \<Rightarrow> (u32 \<times> u8 list) res" where
  "fmt_flags [] flags = Inl OutOfBounds"
| "fmt_flags (c # cs) flags =
     (if c = 45 then fmt_flags cs (flags OR LEFT_flag)
      else if c = 43 then fmt_flags cs (flags OR PLUS)
      else if c = 32 then fmt_flags cs (flags OR SPACE)
      else if c = 35 then fmt_flags cs (flags OR SPECIAL)
      else if c = 48 then fmt_flags cs (flags OR ZEROPAD)
      else Inr (flags, c # cs))"

text \<open>
  The field width: the flags, the width, and what is left of the format and the arguments. A
  star takes its argument and is not skipped.
\<close>

definition fmt_width :: "u8 list \<Rightarrow> u32 \<Rightarrow> u32 list \<Rightarrow> (u32 \<times> int \<times> u8 list \<times> u32 list) res" where
  "fmt_width fmt flags args =
     rbind (ld8 fmt 0) (\<lambda>c.
       if isdigit c then rmap (\<lambda>(w, fmt'). (flags, sint w, fmt', args)) (skip_atoi fmt)
       else if c = 42 then
         rmap (\<lambda>(a, args'). if sint a < 0 then (flags OR LEFT_flag, sint (- a), fmt, args')
                            else (flags, sint a, fmt, args')) (va_arg args)
       else Inr (flags, - 1, fmt, args))"

definition fmt_precision :: "u8 list \<Rightarrow> u32 list \<Rightarrow> (int \<times> u8 list \<times> u32 list) res" where
  "fmt_precision fmt args =
     rbind (ld8 fmt 0) (\<lambda>c.
       if c = 46 then
         let fmt1 = drop 1 fmt in
         rbind (ld8 fmt1 0) (\<lambda>d.
           rmap (\<lambda>(p, fmt', args'). (if p < 0 then 0 else p, fmt', args'))
             (if isdigit d then rmap (\<lambda>(w, fmt'). (sint w, fmt', args)) (skip_atoi fmt1)
              else if d = 42 then rmap (\<lambda>(a, args'). (sint a, fmt1, args')) (va_arg args)
              else Inr (- 1, fmt1, args)))
       else Inr (- 1, fmt, args))"

text \<open>The qualifier is skipped and not used.\<close>

definition fmt_qualifier :: "u8 list \<Rightarrow> u8 list res" where
  "fmt_qualifier fmt =
     rmap (\<lambda>c. if c = 104 \<or> c = 108 \<or> c = 76 then drop 1 fmt else fmt) (ld8 fmt 0)"

definition parse_spec :: "u8 list \<Rightarrow> u32 list \<Rightarrow> (fspec \<times> u8 list \<times> u32 list) res" where
  "parse_spec fmt args =
     rbind (fmt_flags fmt 0) (\<lambda>(flags0, fmt1).
     rbind (fmt_width fmt1 flags0 args) (\<lambda>(flags, width, fmt2, args1).
     rbind (fmt_precision fmt2 args1) (\<lambda>(precision, fmt3, args2).
     rbind (fmt_qualifier fmt3) (\<lambda>fmt4.
       Inr (\<lparr>sp_flags = flags, sp_width = width, sp_precision = precision\<rparr>, fmt4, args2)))))"

subsection \<open>The conversions\<close>

text \<open>\<^verbatim>\<open>while (--field_width > 0) *str++ = ' ';\<close> and \<^verbatim>\<open>while (len < field_width--) *str++ = ' ';\<close>\<close>

function dec_while :: "int \<Rightarrow> u8 list \<times> int" where
  "dec_while w = (if w - 1 > 0 then apfst ((#) 32) (dec_while (w - 1)) else ([], w - 1))"
  by pat_completeness auto
termination
  by (relation "measure nat") auto

function less_while :: "int \<Rightarrow> int \<Rightarrow> u8 list \<times> int" where
  "less_while l w = (if l < w then apfst ((#) 32) (less_while l (w - 1)) else ([], w - 1))"
  by pat_completeness auto
termination
  by (relation "measure (\<lambda>(l, w). nat (w - l))") auto

declare dec_while.simps [simp del] less_while.simps [simp del]

definition conv_char :: "fspec \<Rightarrow> u32 \<Rightarrow> u8 list" where
  "conv_char sp a =
     (let (before, w) = (if \<not> has (sp_flags sp) LEFT_flag then dec_while (sp_width sp) else ([], sp_width sp));
          (after, _) = dec_while w
      in before @ [ucast a] @ after)"

definition conv_string :: "fspec \<Rightarrow> u8 list \<Rightarrow> u8 list res" where
  "conv_string sp s =
     rmap (\<lambda>n.
       let l = (if sp_precision sp < 0 then int n else if int n > sp_precision sp then sp_precision sp else int n);
           (before, w) = (if \<not> has (sp_flags sp) LEFT_flag then less_while l (sp_width sp) else ([], sp_width sp));
           (after, _) = less_while l w
       in before @ take (nat l) s @ after) (strlen s)"

text \<open>A null result of \<^verbatim>\<open>number\<close> becomes \<^verbatim>\<open>str\<close>, through which the next character is stored.\<close>

definition conv_number :: "fspec \<Rightarrow> u32 \<Rightarrow> int \<Rightarrow> u32 \<Rightarrow> u8 list res" where
  "conv_number sp a base flags =
     rbind (number a base (sp_width sp) (sp_precision sp) flags)
       (\<lambda>r. case r of None \<Rightarrow> Inl NullDeref | Some out \<Rightarrow> Inr out)"

text \<open>
  The \<^verbatim>\<open>switch\<close> on the conversion character \<open>d\<close>, with \<open>pos\<close> characters stored so far: the
  characters it stores, the arguments left, and the stores of \<^verbatim>\<open>%n\<close>.
\<close>

definition convert :: "(u32 \<Rightarrow> u8 list) \<Rightarrow> u8 \<Rightarrow> fspec \<Rightarrow> nat \<Rightarrow> u32 list \<Rightarrow>
                       (u8 list \<times> u32 list \<times> (u32 \<times> u32) list) res" where
  "convert mem d sp pos args =
     (let arg = (\<lambda>f. rbind (va_arg args) (\<lambda>(a, args'). rmap (\<lambda>out. (out, args', [])) (f a)));
          flags = sp_flags sp
      in if d = 99 then arg (\<lambda>a. Inr (conv_char sp a))
         else if d = 115 then arg (\<lambda>a. conv_string sp (mem a))
         else if d = 111 then arg (\<lambda>a. conv_number sp a 8 flags)
         else if d = 112 then
           arg (\<lambda>a. if sp_width sp = - 1 then conv_number (sp\<lparr>sp_width := 8\<rparr>) a 16 (flags OR ZEROPAD)
                    else conv_number sp a 16 flags)
         else if d = 120 then arg (\<lambda>a. conv_number sp a 16 (flags OR SMALL))
         else if d = 88 then arg (\<lambda>a. conv_number sp a 16 flags)
         else if d = 100 \<or> d = 105 then arg (\<lambda>a. conv_number sp a 10 (flags OR SIGN))
         else if d = 117 then arg (\<lambda>a. conv_number sp a 10 flags)
         else if d = 110 then
           rmap (\<lambda>(a, args'). ([], args', [(a, of_nat pos)])) (va_arg args)
         else Inr ((if d \<noteq> 37 then [37] else []) @ (if d \<noteq> 0 then [d] else []), args, []))"

subsection \<open>The loop over the format\<close>

lemma ld8_Cons [simp]: "ld8 (c # cs) 0 = Inr c"
  by (simp add: ld8_def)

lemma fmt_flags_length: "fmt_flags fmt flags = Inr (fl, fmt') \<Longrightarrow> length fmt' \<le> length fmt"
  by (induction fmt flags rule: fmt_flags.induct) (auto split: if_splits)

lemma skip_atoi_loop_length: "skip_atoi_loop s i = Inr (w, s') \<Longrightarrow> length s' \<le> length s"
  by (induction s i rule: skip_atoi_loop.induct) (auto split: if_splits)

lemma skip_atoi_length: "skip_atoi s = Inr (w, s') \<Longrightarrow> length s' \<le> length s"
  by (simp add: skip_atoi_def skip_atoi_loop_length)

lemma fmt_width_length: "fmt_width fmt flags args = Inr (fl, w, fmt', args') \<Longrightarrow> length fmt' \<le> length fmt"
  by (auto simp: fmt_width_def rbind_Inr_conv rmap_Inr_conv dest: skip_atoi_length split: if_splits)

lemma fmt_precision_length: "fmt_precision fmt args = Inr (p, fmt', args') \<Longrightarrow> length fmt' \<le> length fmt"
  unfolding fmt_precision_def Let_def
  by (elim rbindE; simp split: if_split_asm; elim rbindE rmapE; simp split: if_split_asm prod.splits)
     (auto elim!: rmapE dest!: skip_atoi_length)

lemma fmt_qualifier_length: "fmt_qualifier fmt = Inr fmt' \<Longrightarrow> length fmt' \<le> length fmt"
  by (auto simp: fmt_qualifier_def rmap_Inr_conv)

lemma parse_spec_length: "parse_spec fmt args = Inr (sp, fmt', args') \<Longrightarrow> length fmt' \<le> length fmt"
proof -
  assume "parse_spec fmt args = Inr (sp, fmt', args')"
  then obtain fl0 f1 fl w f2 a1 p f3 where
    "fmt_flags fmt 0 = Inr (fl0, f1)" "fmt_width f1 fl0 args = Inr (fl, w, f2, a1)"
    "fmt_precision f2 a1 = Inr (p, f3, args')" "fmt_qualifier f3 = Inr fmt'"
    unfolding parse_spec_def by (elim rbindE; clarsimp)+
  then show ?thesis
    using fmt_flags_length fmt_width_length fmt_precision_length fmt_qualifier_length
    by (meson le_trans)
qed

function vsprintf_loop :: "(u32 \<Rightarrow> u8 list) \<Rightarrow> u8 list \<Rightarrow> u32 list \<Rightarrow> u8 list \<Rightarrow> (u32 \<times> u32) list \<Rightarrow>
                           (u8 list \<times> (u32 \<times> u32) list) res" where
  "vsprintf_loop mem [] args out st = Inl OutOfBounds"
| "vsprintf_loop mem (c # cs) args out st =
     (if c = 0 then Inr (out, st)
      else if c \<noteq> 37 then vsprintf_loop mem cs args (out @ [c]) st
      else rbind (parse_spec cs args) (\<lambda>(sp, fmt, args1).
        rbind (ld8 fmt 0) (\<lambda>d.
        rbind (convert mem d sp (length out) args1) (\<lambda>(text, args2, st').
          vsprintf_loop mem (if d = 0 then fmt else drop 1 fmt) args2 (out @ text) (st @ st')))))"
  by pat_completeness auto
termination
proof (relation "measure (\<lambda>(mem, fmt, args, out, st). length fmt)", goal_cases)
  case (3 mem c cs args out st x sp y fmt args1 d)
  then show ?case using parse_spec_length[of cs args sp fmt args1] by auto
qed auto

text \<open>
  \<^verbatim>\<open>vsprintf\<close> on a buffer, from \<^verbatim>\<open>buf\<close> to the end of its object: the new buffer, the length, and
  the stores of \<^verbatim>\<open>%n\<close>.
\<close>

definition vsprintf :: "(u32 \<Rightarrow> u8 list) \<Rightarrow> u8 list \<Rightarrow> u8 list \<Rightarrow> u32 list \<Rightarrow>
                        (u8 list \<times> nat \<times> (u32 \<times> u32) list) res" where
  "vsprintf mem buf fmt args =
     rbind (vsprintf_loop mem fmt args [] []) (\<lambda>(out, st).
       if length out < length buf
       then Inr (out @ 0 # drop (Suc (length out)) buf, length out, st) else Inl OutOfBounds)"

definition sprintf :: "(u32 \<Rightarrow> u8 list) \<Rightarrow> u8 list \<Rightarrow> u8 list \<Rightarrow> u32 list \<Rightarrow>
                       (u8 list \<times> nat \<times> (u32 \<times> u32) list) res" where
  "sprintf mem buf format args = vsprintf mem buf format args"

text \<open>\<^verbatim>\<open>printk\<close>: the local buffer holds anything, the text goes to terminal 0.\<close>

definition PRINTK_LEN :: nat where "PRINTK_LEN = 1024"

definition printk :: "(u32 \<Rightarrow> u8 list) \<Rightarrow> u8 list \<Rightarrow> u8 list \<Rightarrow> u32 list \<Rightarrow> tty_state \<Rightarrow>
                      (u32 \<times> (u32 \<times> u32) list \<times> tty_state) res" where
  "printk mem junk format args tt =
     rbind (vsprintf mem (take PRINTK_LEN junk) format args) (\<lambda>(buf, i, st).
       rmap (\<lambda>(_, tt'). (of_nat i, st, tt')) (tty_write 0 buf (of_nat i) tt))"

text \<open>\<^verbatim>\<open>panic\<close> prints and never returns; \<open>panic_screen\<close> is what it leaves on the terminals.\<close>

definition panic_format :: "u8 list" where
  "panic_format = map (of_char :: char \<Rightarrow> u8) ''Kernel panic: %s'' @ [10, 0]"

definition panic_screen :: "(u32 \<Rightarrow> u8 list) \<Rightarrow> u8 list \<Rightarrow> u32 \<Rightarrow> tty_state \<Rightarrow> tty_state res" where
  "panic_screen mem junk info tt = rmap (\<lambda>(_, _, tt'). tt') (printk mem junk panic_format [info] tt)"

definition panic :: "(u32 \<Rightarrow> u8 list) \<Rightarrow> u8 list \<Rightarrow> u32 \<Rightarrow> tty_state \<Rightarrow> unit res" where
  "panic mem junk info tt = rbind (panic_screen mem junk info tt) (\<lambda>_. Inl Panic)"

subsection \<open>Every format is processed\<close>

text \<open>The parsers of a directive move over characters that are not the terminator.\<close>

definition skips :: "u8 list \<Rightarrow> u8 list \<Rightarrow> bool" where
  "skips f f' \<longleftrightarrow> (\<exists>pre. f = pre @ f' \<and> 0 \<notin> set pre)"

lemma skips_refl [simp]: "skips f f"
  by (auto simp: skips_def)

lemma skips_trans: "skips f g \<Longrightarrow> skips g h \<Longrightarrow> skips f h"
  unfolding skips_def by (metis Un_iff append_assoc set_append)

lemma skips_Cons: "c \<noteq> 0 \<Longrightarrow> skips cs f \<Longrightarrow> skips (c # cs) f"
  unfolding skips_def by (metis append_Cons set_ConsD)

lemma skips_zero: "skips f f' \<Longrightarrow> 0 \<in> set f \<Longrightarrow> 0 \<in> set f'"
  by (auto simp: skips_def)

lemma skips_count: "skips f f' \<Longrightarrow> count_list (cstr f') c \<le> count_list (cstr f) c"
proof -
  have "cstr (pre @ f') = pre @ cstr f'" if "0 \<notin> set pre" for pre
    using that by (induction pre) auto
  then show "skips f f' \<Longrightarrow> count_list (cstr f') c \<le> count_list (cstr f) c"
    by (auto simp: skips_def)
qed

lemma zero_in_nonempty: "0 \<in> set f \<Longrightarrow> \<exists>c cs. f = c # cs"
  by (cases f) auto

lemma fmt_flags_total: "0 \<in> set f \<Longrightarrow> \<exists>fl' f'. fmt_flags f fl = Inr (fl', f') \<and> skips f f'"
proof (induction f arbitrary: fl)
  case (Cons c cs)
  show ?case
  proof (cases "c \<in> {45, 43, 32, 35, 48}")
    case True
    then have "0 \<in> set cs" "c \<noteq> 0" using Cons.prems by auto
    moreover have "\<exists>g. fmt_flags (c # cs) fl = fmt_flags cs g" using True by auto
    ultimately show ?thesis using Cons.IH skips_Cons by metis
  qed auto
qed simp

lemma isdigit_nonzero: "isdigit c \<Longrightarrow> c \<noteq> 0"
  by (auto simp: isdigit_def)

lemma skip_atoi_total: "0 \<in> set f \<Longrightarrow> \<exists>w f'. skip_atoi f = Inr (w, f') \<and> skips f f'"
proof -
  have "0 \<in> set f \<Longrightarrow> \<exists>w f'. skip_atoi_loop f i = Inr (w, f') \<and> skips f f'" for i
  proof (induction f arbitrary: i)
    case (Cons c cs)
    show ?case
    proof (cases "isdigit c")
      case True
      then have "0 \<in> set cs" "c \<noteq> 0" using Cons.prems isdigit_nonzero by auto
      then show ?thesis using Cons.IH skips_Cons True by (metis skip_atoi_loop.simps(2))
    qed auto
  qed simp
  then show "0 \<in> set f \<Longrightarrow> \<exists>w f'. skip_atoi f = Inr (w, f') \<and> skips f f'"
    by (simp add: skip_atoi_def)
qed

text \<open>An argument taken for a star leaves the star as the conversion character.\<close>

lemma fmt_width_total:
  assumes "0 \<in> set f" and "args \<noteq> []"
  shows "\<exists>fl' w f' args'. fmt_width f fl args = Inr (fl', w, f', args') \<and> skips f f' \<and>
           (args' = args \<or> args' = tl args \<and> (\<exists>cs. f' = 42 # cs))"
proof -
  obtain c cs where f: "f = c # cs" using zero_in_nonempty[OF assms(1)] by blast
  obtain a as where args: "args = a # as" using assms(2) by (cases args) auto
  consider "isdigit c" | "\<not> isdigit c" "c = 42" | "\<not> isdigit c" "c \<noteq> 42" by blast
  then show ?thesis
  proof cases
    case 1
    then show ?thesis using skip_atoi_total[OF assms(1)] by (auto simp: fmt_width_def f ld8_def)
  qed (auto simp: fmt_width_def f args ld8_def va_arg_def)
qed

lemma fmt_precision_total:
  assumes "0 \<in> set f" and "args \<noteq> []"
  shows "\<exists>p f' args'. fmt_precision f args = Inr (p, f', args') \<and> skips f f' \<and>
           (args' = args \<or> args' = tl args \<and> (\<exists>cs. f' = 42 # cs))"
proof -
  obtain c cs where f: "f = c # cs" using zero_in_nonempty[OF assms(1)] by blast
  obtain a as where args: "args = a # as" using assms(2) by (cases args) auto
  show ?thesis
  proof (cases "c = 46")
    case True
    then have z: "0 \<in> set cs" using assms(1) f by auto
    then obtain d ds where cs: "cs = d # ds" using zero_in_nonempty by blast
    consider "isdigit d" | "\<not> isdigit d" "d = 42" | "\<not> isdigit d" "d \<noteq> 42" by blast
    then show ?thesis
    proof cases
      case 1
      obtain w f' where "skip_atoi cs = Inr (w, f')" "skips cs f'" using skip_atoi_total[OF z] by blast
      moreover from this(2) have "skips f f'" using True f skips_Cons by auto
      ultimately show ?thesis using 1 True by (auto simp: fmt_precision_def f cs ld8_def)
    next
      case 2
      have "skips f cs" using True f skips_Cons by auto
      then show ?thesis using 2 True by (auto simp: fmt_precision_def f cs args ld8_def va_arg_def)
    next
      case 3
      have "skips f cs" using True f skips_Cons by auto
      then show ?thesis using 3 True by (auto simp: fmt_precision_def f cs args ld8_def va_arg_def)
    qed
  qed (auto simp: fmt_precision_def f ld8_def)
qed

lemma fmt_qualifier_total:
  assumes "0 \<in> set f"
  shows "\<exists>f'. fmt_qualifier f = Inr f' \<and> skips f f' \<and> (\<forall>cs. f = 42 # cs \<longrightarrow> f' = f)"
proof -
  obtain c cs where f: "f = c # cs" using zero_in_nonempty[OF assms] by blast
  have "skips f cs" if "c \<noteq> 0" using f that skips_Cons by auto
  then show ?thesis by (auto simp: fmt_qualifier_def f ld8_def)
qed

lemma fmt_precision_star: "fmt_precision (42 # cs) args = Inr (- 1, 42 # cs, args)"
  by (simp add: fmt_precision_def ld8_def)

lemma parse_spec_total:
  assumes z: "0 \<in> set f" and a: "args \<noteq> []"
  shows "\<exists>sp f' args'. parse_spec f args = Inr (sp, f', args') \<and> skips f f' \<and>
           (args' = args \<or> args' = tl args \<and> (\<exists>cs. f' = 42 # cs))"
proof -
  obtain fl1 f1 where 1: "fmt_flags f 0 = Inr (fl1, f1)" "skips f f1" using fmt_flags_total[OF z] by blast
  have z1: "0 \<in> set f1" using 1(2) z skips_zero by blast
  obtain fl2 w f2 a2 where 2: "fmt_width f1 fl1 args = Inr (fl2, w, f2, a2)" "skips f1 f2"
    and a2: "a2 = args \<or> a2 = tl args \<and> (\<exists>cs. f2 = 42 # cs)"
    using fmt_width_total[OF z1 a] by blast
  have z2: "0 \<in> set f2" using 2(2) z1 skips_zero by blast
  obtain p f3 a3 where 3: "fmt_precision f2 a2 = Inr (p, f3, a3)" "skips f2 f3"
    and a3: "a3 = args \<or> a3 = tl args \<and> (\<exists>cs. f3 = 42 # cs)"
  proof (cases "a2 = args")
    case True
    then show ?thesis using fmt_precision_total[OF z2 a] that by blast
  next
    case False
    then show ?thesis using a2 fmt_precision_star that[of "- 1" f2 a2] by auto
  qed
  have z3: "0 \<in> set f3" using 3(2) z2 skips_zero by blast
  obtain f4 where 4: "fmt_qualifier f3 = Inr f4" "skips f3 f4" "\<forall>cs. f3 = 42 # cs \<longrightarrow> f4 = f3"
    using fmt_qualifier_total[OF z3] by blast
  have "skips f f4" using 1(2) 2(2) 3(2) 4(2) skips_trans by blast
  then show ?thesis using 1(1) 2(1) 3(1) 4(1,3) a3 by (auto simp: parse_spec_def)
qed

lemma conv_number_total:
  "base \<in> {8, 10, 16} \<Longrightarrow> \<exists>out. conv_number sp a base fl = Inr out"
  by (auto simp: conv_number_def number_eq)

lemma conv_string_total: "0 \<in> set s \<Longrightarrow> \<exists>out. conv_string sp s = Inr out"
  by (auto simp: conv_string_def strlen_cstr)

lemma convert_total:
  assumes "args \<noteq> []" and "\<forall>a \<in> set args. 0 \<in> set (mem a)"
  shows "\<exists>text args' st. convert mem d sp pos args = Inr (text, args', st) \<and> (args' = args \<or> args' = tl args)"
proof -
  obtain a as where args: "args = a # as" using assms(1) by (cases args) auto
  then have "0 \<in> set (mem a)" using assms(2) by simp
  then obtain s where s: "conv_string sp (mem a) = Inr s" using conv_string_total by blast
  have n: "\<exists>out. conv_number sp' a base fl = Inr out" if "base \<in> {8, 10, 16}" for sp' base fl
    using conv_number_total[OF that] .
  show ?thesis
    using s n[of 8 sp "sp_flags sp"] n[of 16 "sp\<lparr>sp_width := 8\<rparr>" "sp_flags sp OR ZEROPAD"]
      n[of 16 sp "sp_flags sp"] n[of 16 sp "sp_flags sp OR SMALL"] n[of 10 sp "sp_flags sp OR SIGN"]
      n[of 10 sp "sp_flags sp"]
    by (auto simp: convert_def args va_arg_def Let_def)
qed

lemma convert_star: "convert mem 42 sp pos args = Inr ([37, 42], args, [])"
  by (simp add: convert_def)

lemma vsprintf_loop_total:
  assumes "0 \<in> set fmt" and "count_list (cstr fmt) 37 \<le> length args" and "\<forall>a \<in> set args. 0 \<in> set (mem a)"
  shows "\<exists>text st'. vsprintf_loop mem fmt args out st = Inr (text, st')"
  using assms
proof (induction "length fmt" arbitrary: fmt args out st rule: less_induct)
  case less
  obtain c cs where fmt: "fmt = c # cs" using zero_in_nonempty[OF less.prems(1)] by blast
  consider "c = 0" | "c \<noteq> 0" "c \<noteq> 37" | "c = 37" by blast
  then show ?case
  proof cases
    case 2
    then have "0 \<in> set cs" "count_list (cstr cs) 37 \<le> length args" using less.prems fmt by auto
    with less.hyps[of cs args "out @ [c]" st] show ?thesis using less.prems(3) fmt 2 by simp
  next
    case 3
    then have z: "0 \<in> set cs" and n: "Suc (count_list (cstr cs) 37) \<le> length args" using less.prems fmt by auto
    then have a: "args \<noteq> []" by auto
    obtain sp f args1 where p: "parse_spec cs args = Inr (sp, f, args1)" "skips cs f"
      and args1: "args1 = args \<or> args1 = tl args \<and> (\<exists>cs. f = 42 # cs)"
      using parse_spec_total[OF z a] by blast
    have zf: "0 \<in> set f" using skips_zero[OF p(2) z] .
    then obtain d ds where f: "f = d # ds" using zero_in_nonempty by blast
    obtain tx args2 st2 where c: "convert mem d sp (length out) args1 = Inr (tx, args2, st2)"
      and args2: "args2 = args \<or> args2 = tl args"
    proof (cases "args1 = args")
      case True
      then show ?thesis using convert_total[OF a less.prems(3), of d sp "length out"] that by blast
    next
      case False
      then show ?thesis using args1 f convert_star[of mem sp "length out" args1] that[of "[37, 42]" args1 "[]"] by auto
    qed
    define rest where "rest = (if d = 0 then f else drop 1 f)"
    have "skips f rest" by (auto simp: rest_def f intro: skips_Cons)
    then have "0 \<in> set rest" "count_list (cstr rest) 37 \<le> count_list (cstr cs) 37"
      using zf skips_zero skips_count skips_trans[OF p(2)] by blast+
    moreover have "length rest < length fmt"
      using parse_spec_length[OF p(1)] fmt by (auto simp: rest_def)
    moreover have "length args \<le> Suc (length args2)" "set args2 \<subseteq> set args"
      using args2 by (auto dest: in_set_takeD in_set_dropD simp: drop_Suc[symmetric] tl_drop intro: list.set_sel(2)[OF a])
    moreover have "\<forall>a \<in> set args2. 0 \<in> set (mem a)"
      using \<open>set args2 \<subseteq> set args\<close> less.prems(3) by blast
    ultimately have "\<exists>text' st'. vsprintf_loop mem rest args2 (out @ tx) (st @ st2) = Inr (text', st')"
      using less.hyps[of rest args2 "out @ tx" "st @ st2"] n by simp
    then show ?thesis using 3 fmt p(1) c f by (cases "d = 0") (simp_all add: rest_def)
  qed (simp add: fmt)
qed

subsection \<open>What a format without flags prints\<close>

text \<open>The directives of a format, how they are written, and the text of each.\<close>

datatype item = Lit u8 | Percent | Chr u32 | Str u32 | Dec u32 | Uns u32 | HexL u32 | HexU u32 | Oct u32

fun item_fmt :: "item \<Rightarrow> u8 list" where
  "item_fmt (Lit c) = [c]"
| "item_fmt Percent = [37, 37]"
| "item_fmt (Chr a) = [37, 99]"
| "item_fmt (Str a) = [37, 115]"
| "item_fmt (Dec a) = [37, 100]"
| "item_fmt (Uns a) = [37, 117]"
| "item_fmt (HexL a) = [37, 120]"
| "item_fmt (HexU a) = [37, 88]"
| "item_fmt (Oct a) = [37, 111]"

fun item_args :: "item \<Rightarrow> u32 list" where
  "item_args (Lit c) = []"
| "item_args Percent = []"
| "item_args (Chr a) = [a]"
| "item_args (Str a) = [a]"
| "item_args (Dec a) = [a]"
| "item_args (Uns a) = [a]"
| "item_args (HexL a) = [a]"
| "item_args (HexU a) = [a]"
| "item_args (Oct a) = [a]"

fun item_text :: "(u32 \<Rightarrow> u8 list) \<Rightarrow> item \<Rightarrow> u8 list" where
  "item_text mem (Lit c) = [c]"
| "item_text mem Percent = [37]"
| "item_text mem (Chr a) = [ucast a]"
| "item_text mem (Str a) = cstr (mem a)"
| "item_text mem (Dec a) =
     (if sint a < 0 then 45 # digit_text False 10 (nat (- sint a)) else digit_text False 10 (unat a))"
| "item_text mem (Uns a) = digit_text False 10 (unat a)"
| "item_text mem (HexL a) = digit_text True 16 (unat a)"
| "item_text mem (HexU a) = digit_text False 16 (unat a)"
| "item_text mem (Oct a) = digit_text False 8 (unat a)"

fun item_ok :: "(u32 \<Rightarrow> u8 list) \<Rightarrow> item \<Rightarrow> bool" where
  "item_ok mem (Lit c) \<longleftrightarrow> c \<noteq> 0 \<and> c \<noteq> 37"
| "item_ok mem (Str a) \<longleftrightarrow> 0 \<in> set (mem a)"
| "item_ok mem _ \<longleftrightarrow> True"

abbreviation plain_spec :: fspec where
  "plain_spec \<equiv> \<lparr>sp_flags = 0, sp_width = - 1, sp_precision = - 1\<rparr>"

lemma parse_spec_plain:
  assumes "d \<in> {37, 99, 115, 100, 117, 120, 88, 111}"
  shows "parse_spec (d # f) args = Inr (plain_spec, d # f, args)"
proof -
  have d: "\<not> isdigit d" "d \<notin> {45, 43, 32, 35, 48, 42, 46, 104, 108, 76}"
    using assms by (auto simp: isdigit_def)
  then show ?thesis
    by (simp add: parse_spec_def fmt_width_def fmt_precision_def fmt_qualifier_def)
qed

lemma number_text_plain:
  assumes "t \<in> {0, SIGN, SMALL}"
  shows "number_text a b (- 1) (- 1) t =
    (if t = SIGN \<and> sint a < 0 then 45 # digit_text False (nat b) (nat (- sint a))
     else digit_text (t = SMALL) (nat b) (unat a))"
proof -
  have f: "\<not> has t PLUS" "\<not> has t SPACE" "\<not> has t SPECIAL" "\<not> has t LEFT_flag" "\<not> has t ZEROPAD"
    "has t SIGN \<longleftrightarrow> t = SIGN" "has t SMALL \<longleftrightarrow> t = SMALL"
    using assms by (auto simp: has_def SIGN_def PLUS_def SPACE_def SPECIAL_def LEFT_flag_def ZEROPAD_def SMALL_def)
  have "SIGN \<noteq> SMALL" by (simp add: SIGN_def SMALL_def)
  then show ?thesis by (auto simp: number_text_def f Let_def)
qed

lemma conv_number_plain:
  assumes "b \<in> {8, 10, 16}" and "t \<in> {0, SIGN, SMALL}"
  shows "conv_number plain_spec a b t = Inr
    (if t = SIGN \<and> sint a < 0 then 45 # digit_text False (nat b) (nat (- sint a))
     else digit_text (t = SMALL) (nat b) (unat a))"
  using assms(1) number_text_plain[OF assms(2), of a b] by (auto simp: conv_number_def number_eq)

lemma conv_string_plain: "0 \<in> set s \<Longrightarrow> conv_string plain_spec s = Inr (cstr s)"
proof -
  assume "0 \<in> set s"
  moreover have "take (length (cstr s)) s = cstr s"
    by (metis cstr_def takeWhile_eq_take)
  moreover have "less_while (int n) (- 1) = ([], - 2)" "less_while (int n) (- 2) = ([], - 3)" for n
    by (subst less_while.simps; simp)+
  ultimately show ?thesis by (simp add: conv_string_def strlen_cstr has_def)
qed

lemma conv_char_plain: "conv_char plain_spec a = [ucast a]"
proof -
  have "dec_while (- 1) = ([], - 2)" "dec_while (- 2) = ([], - 3)"
    by (subst dec_while.simps; simp)+
  then show ?thesis by (simp add: conv_char_def has_def)
qed

lemma flag_consts: "SIGN \<noteq> 0" "SMALL \<noteq> 0" "SIGN \<noteq> SMALL" "SMALL \<noteq> SIGN"
  by (simp_all add: SIGN_def SMALL_def)

lemma vsprintf_loop_item:
  assumes "item_ok mem it"
  shows "vsprintf_loop mem (item_fmt it @ f) (item_args it @ args) out st =
           vsprintf_loop mem f args (out @ item_text mem it) st"
  using assms
  by (cases it)
     (simp_all add: parse_spec_plain ld8_def convert_def va_arg_def conv_number_plain conv_string_plain
        conv_char_plain flag_consts)

lemma vsprintf_loop_items:
  assumes "\<forall>it \<in> set items. item_ok mem it"
  shows "vsprintf_loop mem (concat (map item_fmt items) @ f) (concat (map item_args items) @ args) out st =
           vsprintf_loop mem f args (out @ concat (map (item_text mem) items)) st"
  using assms
proof (induction items arbitrary: out)
  case (Cons it items)
  then show ?case
    using vsprintf_loop_item[of mem it "concat (map item_fmt items) @ f" "concat (map item_args items) @ args" out st]
    by simp
qed simp

subsection \<open>Properties\<close>

text \<open>
  C22. A format made of ordinary characters and the directives %%, %c, %s, %d, %u, %x, %X and
  %o prints the texts of these one after the other, each directive taking its own argument,
  and terminates the buffer behind them. The buffer is written past its end exactly when it is
  not longer than the text.
\<close>

theorem vsprintf_renders_items:
  assumes "\<forall>it \<in> set items. item_ok mem it"
  shows "vsprintf mem buf (concat (map item_fmt items) @ 0 # rest) (concat (map item_args items) @ args) =
    (let out = concat (map (item_text mem) items)
     in if length out < length buf then Inr (out @ 0 # drop (Suc (length out)) buf, length out, [])
        else Inl OutOfBounds)"
  using vsprintf_loop_items[OF assms, of "0 # rest" args "[]" "[]"] by (simp add: vsprintf_def Let_def)

theorem vsprintf_renders_items_witness:
  "vsprintf (\<lambda>a. if a = 4096 then [107, 49, 0] else []) (replicate 9 1) [37, 115, 61, 37, 100, 0] [4096, 0xFFFFFFF9] =
     Inr ([107, 49, 61, 45, 55, 0, 1, 1, 1], 5, [])"
proof -
  have lsd7: "lsd 10 7 = [7]" by (simp add: lsd.simps)
  have ones: "replicate 9 (1 :: u8) = [1, 1, 1, 1, 1, 1, 1, 1, 1]" by (simp add: eval_nat_numeral)
  show ?thesis
    using vsprintf_renders_items[of "[Str 4096, Lit 61, Dec 0xFFFFFFF9]"
        "\<lambda>a. if a = 4096 then [107, 49, 0] else []" "replicate 9 1" "[]" "[]"]
    unfolding ones by (simp add: Let_def digit_text_def lsd7 digit_string_nth)
qed

text \<open>
  C31. \<^verbatim>\<open>vsprintf\<close> returns from every terminated format, whatever its flags, widths, precisions
  and conversion characters are, as long as there is an argument for each percent sign and
  every argument may be used as a terminated string: it then reads neither past the format nor
  past the arguments.
\<close>

theorem vsprintf_returns:
  assumes "0 \<in> set fmt" and "count_list (cstr fmt) 37 \<le> length args"
    and "\<forall>a \<in> set args. 0 \<in> set (mem a)"
  shows "\<exists>text st. vsprintf_loop mem fmt args [] [] = Inr (text, st) \<and>
           vsprintf mem buf fmt args =
             (if length text < length buf
              then Inr (text @ 0 # drop (Suc (length text)) buf, length text, st) else Inl OutOfBounds)"
  using vsprintf_loop_total[OF assms, of "[]" "[]"] by (auto simp: vsprintf_def)

theorem vsprintf_returns_witness:
  "\<exists>text st. vsprintf_loop (\<lambda>a. [0]) [37, 45, 56, 46, 42, 81, 37, 37, 0] [3, 4, 5] [] [] = Inr (text, st)"
  using vsprintf_returns[of "[37, 45, 56, 46, 42, 81, 37, 37, 0]" "[3, 4, 5]" "\<lambda>a. [0]" "[]"] by auto

text \<open>
  \<^verbatim>\<open>printk\<close> formats into a local buffer of 1024 bytes without a bound: a text of 1024 or
  more characters is written past the buffer, before anything reaches the terminal.
\<close>

theorem printk_overflows:
  assumes "vsprintf_loop mem fmt args [] [] = Inr (text, st)" and "PRINTK_LEN \<le> length text"
  shows "printk mem junk fmt args tt = Inl OutOfBounds"
  using assms by (simp add: printk_def vsprintf_def)

theorem printk_overflows_witness:
  "printk (\<lambda>a. replicate 1024 65 @ [0]) (replicate 1024 0) [37, 115, 0] [4096] three_ttys = Inl OutOfBounds"
proof (rule printk_overflows)
  have "cstr (replicate n (65 :: u8) @ [0]) = replicate n 65" for n by (induction n) auto
  then show "vsprintf_loop (\<lambda>a. replicate 1024 65 @ [0]) [37, 115, 0] [4096] [] [] = Inr (replicate 1024 65, [])"
    using vsprintf_loop_items[of "[Str 4096]" "\<lambda>a. replicate 1024 65 @ [0]" "[0]" "[]" "[]" "[]"]
    by simp
  show "PRINTK_LEN \<le> length (replicate 1024 (65 :: u8))"
    by (simp only: PRINTK_LEN_def length_replicate)
qed

text \<open>
  A star for the field width takes an argument and is not skipped: the directive prints
  itself, and the conversion it was meant for gets no argument.
\<close>

theorem star_width_prints_itself:
  "vsprintf_loop mem [37, 42, 100, 0] (w # args) [] [] = Inr ([37, 42, 100], [])"
  by (simp add: parse_spec_def fmt_width_def fmt_precision_def fmt_qualifier_def ld8_def isdigit_def va_arg_def
      convert_def)

end
