(* ===== verification/PrintText.thy ===== *)
theory PrintText
  imports Printf
begin

text \<open>
  What calls of \<^verbatim>\<open>printk\<close> leave on the first terminal: a call whose text fits its local buffer writes
  that text, and texts written one after the other are one text. Used by the listing of a directory
  and the report of an exception.
\<close>

unbundle bit_operations_syntax

abbreviation ascii :: "string \<Rightarrow> u8 list" where "ascii s \<equiv> map (of_char :: char \<Rightarrow> u8) s"

subsection \<open>Printing in parts\<close>

definition print_text :: "u8 list \<Rightarrow> tty_state \<Rightarrow> tty_state res" where
  "print_text text tt = (if tty_table tt = [] then Inl OutOfBounds else out_chars 0 text (length text) tt)"

lemma out_chars_append:
  "out_chars i (xs @ ys) (length xs + n) st = rbind (out_chars i xs (length xs) st) (out_chars i ys n)"
proof (induction xs arbitrary: st)
  case (Cons x xs)
  then show ?case by (simp add: rbind_assoc) (rule rbind_cong, simp)
qed simp

lemma out_chars_prefix: "out_chars i (xs @ ys) (length xs) st = out_chars i xs (length xs) st"
  using out_chars_append[of i xs ys 0 st] by (simp add: rbind_def split: sum.splits)

lemma out_chars_tables: "out_chars i buf n st = Inr st' \<Longrightarrow> tty_table st' = [] \<longleftrightarrow> tty_table st = []"
  by (drule out_chars_only) (metis only_console_def list_update_nonempty)

lemma print_text_append: "print_text (xs @ ys) tt = rbind (print_text xs tt) (print_text ys)"
proof -
  have "rbind (out_chars 0 xs (length xs) tt) (out_chars 0 ys (length ys)) =
      rbind (out_chars 0 xs (length xs) tt) (print_text ys)" if "tty_table tt \<noteq> []"
    using that by (intro rbind_cong) (auto simp: print_text_def dest: out_chars_tables)
  then show ?thesis by (auto simp: print_text_def out_chars_append)
qed

lemma print_text_parts: "tty_table tt \<noteq> [] \<Longrightarrow> run_steps print_text xs tt = print_text (concat xs) tt"
proof (induction xs arbitrary: tt)
  case (Cons x xs)
  have "rbind (print_text x tt) (run_steps print_text xs) = rbind (print_text x tt) (print_text (concat xs))"
  proof (rule rbind_cong)
    fix tt1 assume "print_text x tt = Inr tt1"
    then have "tty_table tt1 \<noteq> []" using Cons.prems by (auto simp: print_text_def dest: out_chars_tables)
    then show "run_steps print_text xs tt1 = print_text (concat xs) tt1" by (rule Cons.IH)
  qed
  then show ?case by (simp add: print_text_append)
qed (simp add: print_text_def)

text \<open>\<^verbatim>\<open>printk\<close> of a format of characters and directives whose text fits the local buffer.\<close>

lemma printk_items:
  assumes "fmt = concat (map item_fmt items) @ [0]" and "args = concat (map item_args items)"
    and "\<forall>it \<in> set items. item_ok mem it"
    and "text = concat (map (item_text mem) items)" and "length text < PRINTK_LEN" and "PRINTK_LEN \<le> length junk"
  shows "printk mem junk fmt args tt = rmap (\<lambda>tt'. (of_nat (length text), [], tt')) (print_text text tt)"
proof -
  have "vsprintf mem (take PRINTK_LEN junk) fmt args =
      Inr (text @ 0 # drop (Suc (length text)) (take PRINTK_LEN junk), length text, [])"
    using vsprintf_loop_items[OF assms(3), of "[0]" "[]" "[]" "[]"] assms by (simp add: vsprintf_def)
  moreover have "unat (of_nat (length text) :: u32) = length text"
    using assms(5) by (simp add: unat_of_nat PRINTK_LEN_def)
  ultimately show ?thesis
    by (auto simp: printk_def print_text_def tty_write_def out_chars_prefix rmap_def split: sum.splits)
qed

lemma print_text_returns:
  "tty_table tt \<noteq> [] \<Longrightarrow> console_ok 0 (con 0 tt) \<Longrightarrow> \<exists>tt'. print_text xs tt = Inr tt' \<and> console_ok 0 (con 0 tt')"
  using out_chars_ok[of 0 tt "length xs" xs] by (auto simp: print_text_def write_ok_def)

end
