(* ===== verification/Scanf.thy ===== *)
theory Scanf
  imports Printf
begin

text \<open>
  Formatted input of lib/stdio.c: \<^verbatim>\<open>vsscanf\<close> and \<^verbatim>\<open>sscanf\<close>. The arguments are the addresses on
  the stack; what is stored through them is returned as a list of stores.
\<close>

unbundle bit_operations_syntax

datatype scan_store = StoreBytes u32 "u8 list" | StoreWord u32 u32

definition STR_DEFAULT_LEN :: nat where "STR_DEFAULT_LEN = 1024"

text \<open>\<^verbatim>\<open>while (isspace (*s)) s++;\<close>\<close>

fun skip_spaces :: "u8 list \<Rightarrow> u8 list res" where
  "skip_spaces [] = Inl OutOfBounds"
| "skip_spaces (c # cs) = (if isspace c then skip_spaces cs else Inr (c # cs))"

text \<open>\<^verbatim>\<open>for (tc = s; isdigit (*s); s++);\<close>: the digits and the rest.\<close>

fun span_digits :: "u8 list \<Rightarrow> (u8 list \<times> u8 list) res" where
  "span_digits [] = Inl OutOfBounds"
| "span_digits (c # cs) =
     (if isdigit c then rmap (\<lambda>(ds, r). (c # ds, r)) (span_digits cs) else Inr ([], c # cs))"

lemma span_digits_length: "span_digits s = Inr (ds, r) \<Longrightarrow> length r = length s - length ds \<and> length ds \<le> length s"
  by (induction s arbitrary: ds) (auto elim!: rmapE split: if_splits)

text \<open>
  The characters of a directive before the conversion character, with the local string of the
  conversions: what is left of the format, \<^verbatim>\<open>noassign\<close> and \<^verbatim>\<open>width\<close>.
\<close>

definition conversions :: "u8 list" where
  "conversions = map (of_char :: char \<Rightarrow> u8) ''dibouxcsefg%'' @ [0]"

function scan_dir :: "u8 list \<Rightarrow> bool \<Rightarrow> u32 \<Rightarrow> (u8 list \<times> bool \<times> u32) res" where
  "scan_dir [] na w = Inl OutOfBounds"
| "scan_dir (c # cs) na w =
     (if c = 0 then Inr (c # cs, na, w)
      else rbind (strchr conversions c) (\<lambda>k.
        if k \<noteq> None then Inr (c # cs, na, w)
        else if c = 42 then scan_dir cs True w
        else if c = 108 \<or> c = 76 then scan_dir cs na w
        else if sint c \<ge> 49 \<and> sint c \<le> 57 then
          rbind (span_digits cs) (\<lambda>(ds, r).
            if length (c # ds) < STR_DEFAULT_LEN then
              rbind (atob (c # ds @ [0]) 10) (\<lambda>v. scan_dir r na (case v of None \<Rightarrow> w | Some x \<Rightarrow> x))
            else Inl OutOfBounds)
        else scan_dir cs na w))"
  by pat_completeness auto
termination
  by (relation "measure (\<lambda>(s, na, w). length s)") (auto dest: span_digits_length)

lemma scan_dir_length: "scan_dir s na w = Inr (s', na', w') \<Longrightarrow> length s' \<le> length s"
proof (induction s na w rule: scan_dir.induct)
  case (2 c cs na w)
  show ?case
  proof (cases "c = 0")
    case False
    with 2(5) obtain k where k: "strchr conversions c = Inr k" by (auto elim: rbindE)
    note IH = 2(1-4)[OF False k]
    consider "k \<noteq> None" | "k = None" "c \<in> {42, 108, 76}"
      | "k = None" "c \<notin> {42, 108, 76}" "sint c \<ge> 49 \<and> sint c \<le> 57"
      | "k = None" "c \<notin> {42, 108, 76}" "\<not> (sint c \<ge> 49 \<and> sint c \<le> 57)"
      by blast
    then show ?thesis
    proof cases
      case 3
      then obtain ds r v where r: "span_digits cs = Inr (ds, r)" and l: "length (c # ds) < STR_DEFAULT_LEN"
        and v: "atob (c # ds @ [0]) 10 = Inr v"
        and "scan_dir r na (case v of None \<Rightarrow> w | Some x \<Rightarrow> x) = Inr (s', na', w')"
        using 2(5) False k by (auto elim!: rbindE split: if_splits)
      then show ?thesis using IH(3)[of "(ds, r)" ds r v] 3 span_digits_length[OF r] by auto
    qed (use 2(5) False k IH(1,2,4) in \<open>auto split: if_splits\<close>)
  qed (use 2(5) in simp)
qed simp

text \<open>
  One conversion with the character \<open>d\<close>, behind which the format goes on with \<open>s\<close>: the input
  left, the arguments left, \<^verbatim>\<open>base\<close> and the stores. \<^verbatim>\<open>base\<close> is set by some of the conversions
  and keeps its value between directives; before the first of these it is not initialised.
  When the character that ends a number does not occur, \<^verbatim>\<open>strchr\<close> is null, and \<^verbatim>\<open>width\<close>, minus
  the address of the input, makes \<^verbatim>\<open>strncpy\<close> leave \<^verbatim>\<open>tmp\<close>.
\<close>

definition copy_width :: "u8 list \<Rightarrow> u32 \<Rightarrow> u8 list res" where
  "copy_width buf w = strncpy (replicate (unat w) 0) buf (unat w)"

definition scan_text :: "bool \<Rightarrow> u32 \<Rightarrow> u8 list \<Rightarrow> u32 list \<Rightarrow> (u8 list \<times> u32 list \<times> scan_store list) res" where
  "scan_text na w buf args =
     (if na then Inr (drop (unat w) buf, args, [])
      else rbind (va_arg args) (\<lambda>(t, args').
        rmap (\<lambda>bs. (drop (unat w) buf, args', [StoreBytes t (bs @ [0])])) (copy_width buf w)))"

definition scan_base :: "u8 \<Rightarrow> int option \<Rightarrow> int option" where
  "scan_base d base =
     (if d = 100 \<or> d = 117 then Some 10 else if d = 120 then Some 16
      else if d = 111 then Some 8 else if d = 98 then Some 2 else base)"

definition scan_width :: "u32 \<Rightarrow> u8 list \<Rightarrow> u8 list \<Rightarrow> u32 res" where
  "scan_width w buf s =
     (if w \<noteq> 0 then Inr w
      else rbind (ld8 s 0) (\<lambda>e.
        if isspace e \<or> e = 0 then strcspn buf [32, 0]
        else rbind (strchr buf e) (\<lambda>k. case k of None \<Rightarrow> Inl OutOfBounds | Some i \<Rightarrow> Inr (of_nat i))))"

definition scan_number :: "bool \<Rightarrow> u32 \<Rightarrow> int option \<Rightarrow> u8 list \<Rightarrow> u32 list \<Rightarrow>
                           (u8 list \<times> u32 list \<times> scan_store list) res" where
  "scan_number na w base buf args =
     (if unat w < STR_DEFAULT_LEN then
        rbind (copy_width buf w) (\<lambda>tmp.
          if na then Inr (drop (unat w) buf, args, [])
          else rbind (va_arg args) (\<lambda>(vp, args').
            case base of
              None \<Rightarrow> Inl Uninit
            | Some b \<Rightarrow> rmap (\<lambda>v. (drop (unat w) buf, args', case v of None \<Rightarrow> [] | Some x \<Rightarrow> [StoreWord vp x]))
                          (atob (tmp @ [0]) b)))
      else Inl OutOfBounds)"

definition scan_conv :: "u8 \<Rightarrow> u8 list \<Rightarrow> bool \<Rightarrow> u32 \<Rightarrow> int option \<Rightarrow> u8 list \<Rightarrow> u32 list \<Rightarrow>
                         (u8 list \<times> u32 list \<times> int option \<times> scan_store list) res" where
  "scan_conv d s na w base buf args =
     (if d = 115 then
        rbind (skip_spaces buf) (\<lambda>buf1.
        rbind (if w = 0 then strcspn buf1 [32, 0] else Inr w) (\<lambda>w1.
          rmap (\<lambda>(b, a, st). (b, a, base, st)) (scan_text na w1 buf1 args)))
      else if d = 99 then
        rmap (\<lambda>(b, a, st). (b, a, base, st)) (scan_text na (if w = 0 then 1 else w) buf args)
      else rbind (strchr (map (of_char :: char \<Rightarrow> u8) ''dobxu'' @ [0]) d) (\<lambda>k.
        if k \<noteq> None then
          rbind (skip_spaces buf) (\<lambda>buf1.
          let base1 = scan_base d base in
          rbind (scan_width w buf1 s) (\<lambda>w1.
            rmap (\<lambda>(b, a, st). (b, a, base1, st)) (scan_number na w1 base1 buf1 args)))
        else Inr (buf, args, base, [])))"

lemma skip_spaces_length: "skip_spaces s = Inr s' \<Longrightarrow> length s' \<le> length s"
  by (induction s) (auto split: if_splits)

text \<open>The main loop: the count and the stores so far.\<close>

function vsscanf_loop :: "u8 list \<Rightarrow> u8 list \<Rightarrow> u32 list \<Rightarrow> int option \<Rightarrow> u32 \<Rightarrow> scan_store list \<Rightarrow>
                          (u32 \<times> scan_store list) res" where
  "vsscanf_loop s buf args base count st =
     rbind (ld8 s 0) (\<lambda>c. if c = 0 then Inr (count, st) else
     rbind (ld8 buf 0) (\<lambda>b. if b = 0 then Inr (count, st) else
     rbind (skip_spaces s) (\<lambda>s1.
     rbind (ld8 s1 0) (\<lambda>c1.
       if c1 = 37 then
         rbind (scan_dir (drop 1 s1) False 0) (\<lambda>(s2, na, w).
         rbind (ld8 s2 0) (\<lambda>d.
         rbind (scan_conv d (drop 1 s2) na w base buf args) (\<lambda>(buf', args', base', st').
           vsscanf_loop (drop 1 s2) buf' args' base' (if na then count else count + 1) (st @ st'))))
       else
         rbind (skip_spaces buf) (\<lambda>buf1.
         rbind (ld8 buf1 0) (\<lambda>b1.
           if c1 \<noteq> b1 then Inr (count, st)
           else vsscanf_loop (drop 1 s1) (drop 1 buf1) args base count st))))))"
  by pat_completeness auto
termination
proof (relation "measure (\<lambda>(s, buf, args, base, count, st). length s)", goal_cases)
  case (2 s buf args base count st c b s1 c1 x s2 y na w d)
  then have "length s2 \<le> length (drop 1 s1)" using scan_dir_length by fastforce
  moreover have "length s1 \<le> length s" "s \<noteq> []" using 2 skip_spaces_length by (auto simp: ld8_def)
  ultimately show ?case by (cases s) auto
next
  case (3 s buf args base count st c b s1)
  then have "length s1 \<le> length s" "s \<noteq> []" using skip_spaces_length by (auto simp: ld8_def)
  then show ?case by (cases s) auto
qed simp

declare vsscanf_loop.simps [simp del]

definition vsscanf :: "u8 list \<Rightarrow> u8 list \<Rightarrow> u32 list \<Rightarrow> (u32 \<times> scan_store list) res" where
  "vsscanf buf s args = vsscanf_loop s buf args None 0 []"

definition sscanf :: "u8 list \<Rightarrow> u8 list \<Rightarrow> u32 list \<Rightarrow> (u32 \<times> scan_store list) res" where
  "sscanf buf format args = vsscanf buf format args"

subsection \<open>Reading back decimal numbers\<close>

lemma ld8_append_Cons [simp]: "ld8 (xs @ c # cs) 0 = Inr (hd (xs @ [c]))"
  by (cases xs) (simp_all add: ld8_def)

lemma digit_text_props:
  assumes "2 \<le> b" and "b \<le> 16" and "n < 2 ^ 32"
  shows "digit_text s b n \<noteq> []" and "\<forall>c \<in> set (digit_text s b n). c \<notin> {0, 32}"
    and "length (digit_text s b n) \<le> 32"
proof -
  have nb: "digit_string s ! d \<notin> {0, 32}" if "d < 16" for d
  proof -
    have "\<forall>d < 16. digit_string s ! d \<notin> {0, 32}"
      unfolding all_less_16 by (cases s) (simp_all add: digit_string_nth)
    then show ?thesis using that by blast
  qed
  have "d < 16" if "d \<in> set (lsd b n)" for d using lsd_less[OF that] assms(2) by simp
  then show "\<forall>c \<in> set (digit_text s b n). c \<notin> {0, 32}"
    using nb by (auto simp: digit_text_def)
  show "digit_text s b n \<noteq> []" using assms(1) by (auto simp: digit_text_def lsd.simps)
  show "length (digit_text s b n) \<le> 32" using length_lsd[OF assms(3)] by (auto simp: digit_text_def)
qed

lemma skip_spaces_text: "t \<noteq> [] \<Longrightarrow> \<forall>c \<in> set t. c \<noteq> 32 \<Longrightarrow> skip_spaces (t @ r) = Inr (t @ r)"
proof -
  assume "t \<noteq> []" and n: "\<forall>c \<in> set t. c \<noteq> 32"
  then obtain c cs where t: "t = c # cs" by (cases t) auto
  have "\<not> isspace c"
  proof
    assume "isspace c"
    then have "sint c = sint (32 :: u8)" by (simp add: isspace_def)
    then have "c = 32" by (simp only: signed_word_eqI)
    then show False using n t by simp
  qed
  then show ?thesis by (simp add: t)
qed

lemma isspace_blank [simp]: "isspace 32" "\<not> isspace 37" "\<not> isspace 0"
  by (simp_all add: isspace_def)

lemma cstr_append: "0 \<notin> set t \<Longrightarrow> cstr (t @ r) = t @ cstr r"
  by (induction t) auto

lemma scan_number_text:
  assumes "n < 2 ^ 32" and "e \<in> {0, 32}" and "0 \<in> set (e # r)"
  defines "t \<equiv> digit_text False 10 n"
  shows "strcspn (t @ e # r) [32, 0] = Inr (of_nat (length t))"
    and "scan_number False (of_nat (length t)) (Some 10) (t @ e # r) (a # args) =
           Inr (e # r, args, [StoreWord a (of_nat n)])"
proof -
  note d = digit_text_props[of 10 n False, folded t_def]
  have t: "\<forall>c \<in> set t. c \<noteq> 0 \<and> c \<noteq> 32" and l: "length t \<le> 32" using d assms(1) by auto
  have c: "cstr (t @ e # r) = t @ cstr (e # r)" by (rule cstr_append) (use t in blast)
  have "takeWhile (\<lambda>c. c \<noteq> 32) (t @ cstr (e # r)) = t"
    using t assms(2) by (subst takeWhile_append2) auto
  then show "strcspn (t @ e # r) [32, 0] = Inr (of_nat (length t))"
    using assms(3) c strcspn_loop_eq[of "t @ e # r" "[32, 0]" 0] by (auto simp: strcspn_def)
  have u: "unat (of_nat (length t) :: u32) = length t" using l by (simp add: unat_of_nat)
  have "copy_width (t @ e # r) (of_nat (length t)) = Inr t"
    using assms(3) c strncpy_eq[of "length t" "replicate (length t) 0" "t @ e # r"]
    by (auto simp: copy_width_def u)
  moreover have "atob (t @ [0]) 10 = Inr (Some (of_nat n))"
    using atob_digit_text[of 10 False n "[]"] by (simp add: atob_def t_def)
  ultimately show "scan_number False (of_nat (length t)) (Some 10) (t @ e # r) (a # args) =
      Inr (e # r, args, [StoreWord a (of_nat n)])"
    using l by (simp add: scan_number_def u STR_DEFAULT_LEN_def va_arg_def)
qed

text \<open>One %u, with an optional blank before it on both sides, and a blank or the end behind it.\<close>

lemma vsscanf_loop_unsigned:
  assumes "n < 2 ^ 32" and "e \<in> {0, 32}" and "f \<in> {0, 32}" and "0 \<in> set (e # r)" and "p = [] \<or> p = [32]"
  shows "vsscanf_loop (p @ 37 # 117 # f # fs) (p @ digit_text False 10 n @ e # r) (a # args) base count st =
           vsscanf_loop (f # fs) (e # r) args (Some 10) (count + 1) (st @ [StoreWord a (of_nat n)])"
proof -
  let ?t = "digit_text False 10 n"
  note d = digit_text_props[of 10 n False]
  have t: "?t \<noteq> []" "\<forall>c \<in> set ?t. c \<noteq> 0 \<and> c \<noteq> 32" using d assms(1) by auto
  obtain c cs where tc: "?t = c # cs" using t(1) by (cases ?t) auto
  have "c \<noteq> 0" using t(2) tc by simp
  have skip: "skip_spaces (p @ ?t @ e # r) = Inr (?t @ e # r)"
    using skip_spaces_text[OF t(1), of "e # r"] t(2) assms(5) by auto
  have dir: "scan_dir (117 # f # fs) False 0 = Inr (117 # f # fs, False, 0)"
    by (simp add: conversions_def)
  have w: "scan_width 0 (?t @ e # r) (f # fs) = Inr (of_nat (length ?t))"
    using scan_number_text(1)[OF assms(1,2,4)] assms(3) by (auto simp: scan_width_def)
  have conv: "scan_conv 117 (f # fs) False 0 base (p @ ?t @ e # r) (a # args) =
      Inr (e # r, args, Some 10, [StoreWord a (of_nat n)])"
    using skip w scan_number_text(2)[OF assms(1,2,4), of a args]
    by (simp add: scan_conv_def scan_base_def Let_def)
  have s: "skip_spaces (p @ 37 # 117 # f # fs) = Inr (37 # 117 # f # fs)" using assms(5) by auto
  have h: "ld8 (p @ 37 # 117 # f # fs) 0 = Inr (hd (p @ [37]))" "hd (p @ [37]) \<noteq> (0 :: u8)"
    "ld8 (p @ ?t @ e # r) 0 = Inr (hd (p @ [c]))" "hd (p @ [c]) \<noteq> 0"
    using assms(5) tc \<open>c \<noteq> 0\<close> by auto
  show ?thesis
    by (subst vsscanf_loop.simps) (simp add: h(1,3), simp add: h(2,4) s dir conv del: scan_dir.simps)
qed

text \<open>Texts separated by one blank.\<close>

fun join :: "u8 list list \<Rightarrow> u8 list" where
  "join [] = []"
| "join [x] = x"
| "join (x # y # xs) = x @ 32 # join (y # xs)"

lemma vsscanf_loop_list:
  assumes "length args = length ns" and "\<forall>n \<in> set ns. n < 2 ^ 32" and "ns \<noteq> []"
  shows "\<exists>base'. vsscanf_loop (join (map (\<lambda>n. [37, 117]) ns) @ [0]) (join (map (digit_text False 10) ns) @ [0])
           args base count st = Inr (count + of_nat (length ns), st @ map2 StoreWord args (map of_nat ns))"
proof -
  have "vsscanf_loop (p @ join (map (\<lambda>n. [37, 117]) ns) @ [0]) (p @ join (map (digit_text False 10) ns) @ [0])
      args base count st = Inr (count + of_nat (length ns), st @ map2 StoreWord args (map of_nat ns))"
    if "p = [] \<or> p = [32]" for p
    using assms that
  proof (induction ns arbitrary: args base count st p rule: induct_list012)
    case (2 n)
    then obtain a where "args = [a]" by (cases args) auto
    then show ?case
      using vsscanf_loop_unsigned[of n 0 0 "[]" p "[]" a "[]" base count st] 2 by (simp add: vsscanf_loop.simps)
  next
    case (3 n m ns)
    then obtain a as where args: "args = a # as" "length as = length (m # ns)" by (cases args) auto
    let ?f = "join (map (\<lambda>n. [37, 117]) (m # ns)) @ [0]" and ?b = "join (map (digit_text False 10) (m # ns)) @ [0]"
    have "vsscanf_loop (p @ 37 # 117 # 32 # ?f) (p @ digit_text False 10 n @ 32 # ?b) (a # as) base count st =
        vsscanf_loop (32 # ?f) (32 # ?b) as (Some 10) (count + 1) (st @ [StoreWord a (of_nat n)])"
      by (rule vsscanf_loop_unsigned) (use 3 in auto)
    also have "\<dots> = Inr (count + 1 + of_nat (length (m # ns)),
        (st @ [StoreWord a (of_nat n)]) @ map2 StoreWord as (map of_nat (m # ns)))"
      using 3(2)[OF args(2), of "[32]" "Some 10" "count + 1" "st @ [StoreWord a (of_nat n)]"] 3(4) by simp
    finally show ?case using args by simp
  qed simp
  from this[of "[]"] show ?thesis by simp
qed

subsection \<open>Properties\<close>

text \<open>
  C30. What \<^verbatim>\<open>vsprintf\<close> prints for a list of unsigned numbers with %u and single blanks between
  them, \<^verbatim>\<open>sscanf\<close> reads back with the same format: it returns how many they are and stores
  each number through its own argument.
\<close>

theorem sscanf_reads_printf:
  assumes "ns \<noteq> []" and "length args = length ns"
  defines "fmt \<equiv> join (map (\<lambda>n. [37, 117]) ns) @ [0]"
  shows "\<exists>text. vsprintf_loop mem fmt ns [] [] = Inr (text, []) \<and>
           sscanf (text @ [0]) fmt args = Inr (of_nat (length ns), map2 StoreWord args ns)"
proof -
  have render: "vsprintf_loop mem (join (map (\<lambda>n. [37, 117]) ns) @ [0]) ns out [] =
      Inr (out @ join (map (\<lambda>n. digit_text False 10 (unat n)) ns), [])" for out
    using assms(1)
  proof (induction ns arbitrary: out rule: induct_list012)
    case (2 n)
    then show ?case using vsprintf_loop_item[of mem "Uns n" "[0]" "[]" out "[]"] by simp
  next
    case (3 n m ns)
    let ?f = "join (map (\<lambda>n. [37, 117]) (m # ns)) @ [0]"
    have "vsprintf_loop mem (37 # 117 # 32 # ?f) (n # m # ns) out [] =
        vsprintf_loop mem (32 # ?f) (m # ns) (out @ digit_text False 10 (unat n)) []"
      using vsprintf_loop_item[of mem "Uns n" "32 # ?f" "m # ns" out "[]"] by simp
    also have "\<dots> = vsprintf_loop mem ?f (m # ns) ((out @ digit_text False 10 (unat n)) @ [32]) []"
      by simp
    finally show ?case using 3(2)[of "(out @ digit_text False 10 (unat n)) @ [32]"] by simp
  qed simp
  have "\<forall>n \<in> set (map unat ns). n < 2 ^ 32" using unat_less_32 by auto
  then have "sscanf (join (map (digit_text False 10) (map unat ns)) @ [0]) fmt args =
      Inr (of_nat (length ns), map2 StoreWord args (map of_nat (map unat ns)))"
    using vsscanf_loop_list[of args "map unat ns" None 0 "[]"] assms(1,2)
    by (auto simp: sscanf_def vsscanf_def fmt_def comp_def)
  then show ?thesis using render[of "[]"] by (simp add: fmt_def comp_def)
qed

theorem sscanf_reads_printf_witness:
  "\<exists>text. vsprintf_loop (\<lambda>a. []) [37, 117, 32, 37, 117, 0] [7, 0xFFFFFFFF] [] [] = Inr (text, []) \<and>
     sscanf (text @ [0]) [37, 117, 32, 37, 117, 0] [16, 32] = Inr (2, [StoreWord 16 7, StoreWord 32 0xFFFFFFFF])"
  using sscanf_reads_printf[of "[7, 0xFFFFFFFF]" "[16, 32]" "\<lambda>a. []"] by simp

text \<open>
  A blank at the end of the format makes \<^verbatim>\<open>sscanf\<close> read past both strings when the input
  ends in a blank as well: the two terminators are equal, so they are matched and skipped.
\<close>

theorem sscanf_passes_terminators:
  "sscanf (digit_text False 10 (unat (n :: u32)) @ [32, 0]) [37, 117, 32, 0] [a] = Inl OutOfBounds"
proof -
  have "vsscanf_loop ([] @ 37 # 117 # 32 # [0]) ([] @ digit_text False 10 (unat n) @ 32 # [0]) (a # []) None 0 [] =
      vsscanf_loop (32 # [0]) (32 # [0]) [] (Some 10) (0 + 1) ([] @ [StoreWord a (of_nat (unat n))])"
    by (rule vsscanf_loop_unsigned) (use unat_less_32[of n] in auto)
  also have "\<dots> = Inl OutOfBounds"
    by (subst vsscanf_loop.simps, simp, subst vsscanf_loop.simps) (simp add: ld8_def)
  finally show ?thesis by (simp add: sscanf_def vsscanf_def)
qed

text \<open>A conversion that stores nothing is counted, and %% reads nothing and is counted.\<close>

lemma sscanf_counts_failures:
  "sscanf [122, 122, 0] [37, 100, 0] [a] = Inr (1, [])"
  "sscanf [122, 122, 0] [37, 37, 0] [] = Inr (1, [])"
proof -
  have "strcspn [122, 122, 0] [32, 0] = Inr 2" by (simp add: strcspn_def)
  moreover have "copy_width [122, 122, 0] 2 = Inr [122, 122]" by (simp add: copy_width_def strncpy_eq)
  moreover have "atob [122, 122, 0] 10 = Inr None"
    by (simp add: atob_def atob_ulong.simps atob_prefix_def atob_digit_def)
  ultimately show "sscanf [122, 122, 0] [37, 100, 0] [a] = Inr (1, [])"
    by (simp add: sscanf_def vsscanf_def vsscanf_loop.simps conversions_def scan_conv_def scan_base_def
        scan_width_def scan_number_def STR_DEFAULT_LEN_def va_arg_def isspace_def)
  show "sscanf [122, 122, 0] [37, 37, 0] [] = Inr (1, [])"
    by (simp add: sscanf_def vsscanf_def vsscanf_loop.simps conversions_def scan_conv_def)
qed

end
