(* ===== verification/Desc.thy ===== *)
theory Desc
  imports Prelude
begin

text \<open>
  Segment descriptors and gates: arch/i386/desc.c with include/arch/i386/desc.h and gdt.h, and
  the table that \<^verbatim>\<open>reset_gdt\<close> of arch/i386/init.c fills.
\<close>

unbundle bit_operations_syntax

definition DA_32 :: u16 where "DA_32 = 0x4000"
definition DA_LIMIT_4K :: u16 where "DA_LIMIT_4K = 0x8000"
definition DA_DPL0 :: u16 where "DA_DPL0 = 0x00"
definition DA_DPL3 :: u16 where "DA_DPL3 = 0x60"
definition DA_DRW :: u16 where "DA_DRW = 0x92"
definition DA_CR :: u16 where "DA_CR = 0x9A"
definition DA_386TSS :: u16 where "DA_386TSS = 0x89"
definition DA_386IGate :: u8 where "DA_386IGate = 0x8E"
definition PRIVILEGE_KRNL :: u8 where "PRIVILEGE_KRNL = 0"
definition PRIVILEGE_USER :: u8 where "PRIVILEGE_USER = 3"

record descriptor =
  limit_low :: u16
  base_low :: u16
  base_mid :: u8
  attr1 :: u8
  limit_high_attr2 :: u8
  base_high :: u8

record gate =
  offset_low :: u16
  selector :: u16
  dcount :: u8
  g_attr :: u8
  offset_high :: u16

definition create_descriptor :: "u32 \<Rightarrow> u32 \<Rightarrow> u16 \<Rightarrow> descriptor" where
  "create_descriptor base limit attr =
     \<lparr>limit_low = ucast (limit AND 0x0FFFF),
      base_low = ucast (base AND 0x0FFFF),
      base_mid = ucast (drop_bit 16 base AND 0x0FF),
      attr1 = ucast (attr AND 0xFF),
      limit_high_attr2 = ucast (drop_bit 16 limit AND 0x0F) OR ucast (drop_bit 8 attr AND 0xF0),
      base_high = ucast (drop_bit 24 base AND 0x0FF)\<rparr>"

text \<open>The selector is built from the 32-bit index and cut to 16 bits.\<close>

definition insert_descriptor :: "descriptor list \<Rightarrow> u32 \<Rightarrow> descriptor \<Rightarrow> u16 \<Rightarrow> (descriptor list \<times> u16) res" where
  "insert_descriptor gdt index desc attr =
     rmap (\<lambda>gdt'. (gdt', ucast (index * 0x8) OR attr)) (arr_set gdt (unat index) desc)"

definition create_gate :: "u16 \<Rightarrow> u32 \<Rightarrow> u8 \<Rightarrow> u16 \<Rightarrow> gate" where
  "create_gate sel limit dc attr =
     \<lparr>offset_low = ucast (limit AND 0xFFFF), selector = sel, dcount = dc, g_attr = ucast attr,
      offset_high = ucast (drop_bit 16 limit AND 0xFFFF)\<rparr>"

definition gate_to_descriptor :: "gate \<Rightarrow> descriptor" where
  "gate_to_descriptor g =
     \<lparr>limit_low = offset_low g, base_low = selector g, base_mid = dcount g, attr1 = g_attr g,
      limit_high_attr2 = ucast (offset_high g AND 0xFF),
      base_high = ucast (drop_bit 8 (offset_high g) AND 0x0FF)\<rparr>"

text \<open>
  The seven descriptors of \<^verbatim>\<open>reset_gdt\<close>; \<open>tss\<close> is the address of the task state segment, whose
  structure has 108 bytes with its padding.
\<close>

definition GDT_SIZE :: nat where "GDT_SIZE = 128"
definition TSS_SIZE :: u32 where "TSS_SIZE = 108"

definition reset_gdt :: "u32 \<Rightarrow> descriptor list \<Rightarrow> descriptor list res" where
  "reset_gdt tss gdt =
     rbind (insert_descriptor gdt 0 (create_descriptor 0 0 0) (ucast PRIVILEGE_KRNL)) (\<lambda>(gdt, _).
     rbind (insert_descriptor gdt 1
       (create_descriptor 0 0xfffff (DA_CR OR DA_32 OR DA_LIMIT_4K OR DA_DPL0)) (ucast PRIVILEGE_KRNL)) (\<lambda>(gdt, _).
     rbind (insert_descriptor gdt 2
       (create_descriptor 0 0xfffff (DA_DRW OR DA_32 OR DA_LIMIT_4K OR DA_DPL0)) (ucast PRIVILEGE_KRNL)) (\<lambda>(gdt, _).
     rbind (insert_descriptor gdt 3
       (create_descriptor 0xB8000 0xBFFFF (DA_DRW OR DA_32 OR DA_DPL3)) (ucast PRIVILEGE_USER)) (\<lambda>(gdt, _).
     rbind (insert_descriptor gdt 4
       (create_descriptor 0 0xfffff (DA_CR OR DA_32 OR DA_LIMIT_4K OR DA_DPL3)) (ucast PRIVILEGE_USER)) (\<lambda>(gdt, _).
     rbind (insert_descriptor gdt 5
       (create_descriptor 0 0xfffff (DA_DRW OR DA_32 OR DA_LIMIT_4K OR DA_DPL3)) (ucast PRIVILEGE_USER)) (\<lambda>(gdt, _).
     rmap fst (insert_descriptor gdt 6
       (create_descriptor tss (TSS_SIZE - 1) DA_386TSS) (ucast PRIVILEGE_KRNL))))))))"

subsection \<open>What the processor reads from a descriptor and a gate\<close>

definition desc_base :: "descriptor \<Rightarrow> u32" where
  "desc_base d = ucast (base_low d) OR push_bit 16 (ucast (base_mid d)) OR push_bit 24 (ucast (base_high d))"

definition desc_limit :: "descriptor \<Rightarrow> u32" where
  "desc_limit d = ucast (limit_low d) OR push_bit 16 (ucast (limit_high_attr2 d AND 0x0F))"

definition desc_attr :: "descriptor \<Rightarrow> u16" where
  "desc_attr d = ucast (attr1 d) OR push_bit 8 (ucast (limit_high_attr2 d AND 0xF0))"

definition desc_dpl :: "descriptor \<Rightarrow> u16" where
  "desc_dpl d = drop_bit 5 (desc_attr d AND 0x60)"

definition gate_offset :: "gate \<Rightarrow> u32" where
  "gate_offset g = ucast (offset_low g) OR push_bit 16 (ucast (offset_high g))"

definition gate_dpl :: "gate \<Rightarrow> u8" where
  "gate_dpl g = drop_bit 5 (g_attr g AND 0x60)"

definition gate_present :: "gate \<Rightarrow> bool" where
  "gate_present g \<longleftrightarrow> bit (g_attr g) 7"

lemma and_masks:
  fixes w :: "'a::len word"
  shows "w AND 0xFF = take_bit 8 w" "w AND 0xFFFF = take_bit 16 w" "w AND 0x0F = take_bit 4 w"
    "w AND 0xFFFFF = take_bit 20 w"
  by (simp_all add: take_bit_eq_mask mask_eq_exp_minus_1)

lemma bit_0xF0 [simp]: "bit (0xF0 :: int) n \<longleftrightarrow> 4 \<le> n \<and> n < 8"
proof -
  have "(0xF0 :: int) = push_bit 4 (mask 4)" by (simp add: push_bit_eq_mult mask_eq_exp_minus_1)
  show ?thesis unfolding \<open>0xF0 = push_bit 4 (mask 4)\<close> by (auto simp: bit_push_bit_iff bit_mask_iff)
qed

lemmas bit_split_simps = bit_or_iff bit_and_iff bit_push_bit_iff bit_drop_bit_eq bit_take_bit_iff bit_ucast_iff
  bit_mask_iff

lemma desc_base_create: "desc_base (create_descriptor base limit attr) = base"
proof (rule bit_word_eqI)
  fix n
  assume "n < LENGTH(32)"
  then consider "n < 16" | "16 \<le> n" "n < 24" | "24 \<le> n" "n < 32" by fastforce
  then show "bit (desc_base (create_descriptor base limit attr)) n \<longleftrightarrow> bit base n"
    by cases (auto simp: desc_base_def create_descriptor_def and_masks bit_split_simps)
qed

lemma desc_limit_create: "desc_limit (create_descriptor base limit attr) = limit AND 0xFFFFF"
proof (rule bit_word_eqI)
  fix n
  assume "n < LENGTH(32)"
  then consider "n < 16" | "16 \<le> n" "n < 20" | "20 \<le> n" "n < 32" by fastforce
  then show "bit (desc_limit (create_descriptor base limit attr)) n \<longleftrightarrow> bit (limit AND 0xFFFFF) n"
    by cases (auto simp: desc_limit_def create_descriptor_def and_masks bit_split_simps)
qed

lemma bit_0xF0FF [simp]: "bit (0xF0FF :: int) n \<longleftrightarrow> n < 8 \<or> (12 \<le> n \<and> n < 16)"
proof -
  have "(0xF0FF :: int) = mask 8 OR push_bit 12 (mask 4)"
    by (simp add: push_bit_eq_mult mask_eq_exp_minus_1)
  show ?thesis unfolding \<open>0xF0FF = mask 8 OR push_bit 12 (mask 4)\<close> by (auto simp: bit_split_simps)
qed

lemma desc_attr_create: "desc_attr (create_descriptor base limit attr) = attr AND 0xF0FF"
proof (rule bit_word_eqI)
  fix n
  assume "n < LENGTH(16)"
  then consider "n < 8" | "8 \<le> n" "n < 12" | "12 \<le> n" "n < 16" by fastforce
  then show "bit (desc_attr (create_descriptor base limit attr)) n \<longleftrightarrow> bit (attr AND 0xF0FF) n"
    by cases (auto simp: desc_attr_def create_descriptor_def and_masks bit_split_simps bit_0xF0FF)
qed

lemma gate_offset_create: "gate_offset (create_gate sel limit dc attr) = limit"
proof (rule bit_word_eqI)
  fix n
  assume "n < LENGTH(32)"
  then consider "n < 16" | "16 \<le> n" "n < 32" by fastforce
  then show "bit (gate_offset (create_gate sel limit dc attr)) n \<longleftrightarrow> bit limit n"
    by cases (auto simp: gate_offset_def create_gate_def and_masks bit_split_simps)
qed

lemma gate_to_descriptor_gate:
  "gate_offset g = ucast (limit_low (gate_to_descriptor g)) OR
     push_bit 16 (ucast (limit_high_attr2 (gate_to_descriptor g)) OR push_bit 8 (ucast (base_high (gate_to_descriptor g))))"
proof (rule bit_word_eqI)
  fix n
  assume "n < LENGTH(32)"
  then consider "n < 16" | "16 \<le> n" "n < 24" | "24 \<le> n" "n < 32" by fastforce
  then show "bit (gate_offset g) n \<longleftrightarrow> bit (ucast (limit_low (gate_to_descriptor g)) OR
     push_bit 16 (ucast (limit_high_attr2 (gate_to_descriptor g)) OR
       push_bit 8 (ucast (base_high (gate_to_descriptor g)))) :: u32) n"
    by cases (auto simp: gate_offset_def gate_to_descriptor_def and_masks bit_split_simps)
qed

subsection \<open>Properties\<close>

text \<open>
  The fields of a descriptor hold what it was created from: the processor finds the whole
  32-bit base, the low 20 bits of the limit and the attribute bits outside bits 8 to 11, which
  belong to the limit. Of a gate it finds the whole offset.
\<close>

theorem descriptor_fields_decode:
  "desc_base (create_descriptor base limit attr) = base \<and>
   desc_limit (create_descriptor base limit attr) = limit AND 0xFFFFF \<and>
   desc_attr (create_descriptor base limit attr) = attr AND 0xF0FF \<and>
   gate_offset (create_gate sel off dc gattr) = off"
  by (intro conjI desc_base_create desc_limit_create desc_attr_create gate_offset_create)

definition described :: "u32 \<Rightarrow> u32 \<Rightarrow> u16 \<Rightarrow> descriptor \<Rightarrow> bool" where
  "described b l a d \<longleftrightarrow> desc_base d = b \<and> desc_limit d = l \<and> desc_attr d = a"

text \<open>
  After \<^verbatim>\<open>reset_gdt\<close> each selector of gdt.h selects the segment of its name: flat 4 GB code
  and data segments for the kernel (privilege 0) and for the user (privilege 3), the text
  screen from 0xB8000, and the task state segment; the rest of the table is as before. The
  limit of the screen segment is its end address, 0xBFFFF, and not its size, so the segment
  reaches to 0x177FFF.
\<close>

theorem reset_gdt_segments:
  assumes "length gdt = GDT_SIZE"
  shows "\<exists>gdt'. reset_gdt tss gdt = Inr gdt' \<and> length gdt' = GDT_SIZE \<and>
     described 0 0 0 (gdt' ! 0) \<and>
     described 0 0xFFFFF 0xC09A (gdt' ! (0x8 div 8)) \<and>
     described 0 0xFFFFF 0xC092 (gdt' ! (0x10 div 8)) \<and>
     described 0xB8000 0xBFFFF 0x40F2 (gdt' ! (0x18 div 8)) \<and>
     described 0 0xFFFFF 0xC0FA (gdt' ! (0x20 div 8)) \<and>
     described 0 0xFFFFF 0xC0F2 (gdt' ! (0x28 div 8)) \<and>
     described tss 107 0x89 (gdt' ! (0x30 div 8)) \<and>
     (\<forall>i \<ge> 7. gdt' ! i = gdt ! i)"
proof -
  have len: "length gdt = 128" using assms by (simp add: GDT_SIZE_def)
  show ?thesis
    using len
    by (simp add: reset_gdt_def insert_descriptor_def described_def desc_base_create desc_limit_create desc_attr_create
        DA_CR_def DA_DRW_def DA_32_def DA_LIMIT_4K_def DA_DPL0_def DA_DPL3_def DA_386TSS_def TSS_SIZE_def GDT_SIZE_def)
qed

theorem reset_gdt_segments_witness:
  "\<exists>gdt'. reset_gdt 0xC0150000 (replicate GDT_SIZE (create_descriptor 0 0 0)) = Inr gdt' \<and>
     described 0xC0150000 107 0x89 (gdt' ! 6)"
  using reset_gdt_segments[of "replicate GDT_SIZE (create_descriptor 0 0 0)" "0xC0150000"] by auto

end
