(* ===== verification/Pages.thy ===== *)
theory Pages
  imports Prelude
begin

text \<open>
  mm/page.c: the table of physical pages, \<^verbatim>\<open>mem_map\<close> with \<^verbatim>\<open>mem_map_count\<close> entries, from which
  the kernel takes and to which it returns page frames. Physical addresses are numbers; page
  \<open>i\<close> is at \<open>4096 * i\<close>.
\<close>

unbundle bit_operations_syntax

record page =
  pg_count :: u32
  pg_flags :: u32

definition MP_USE :: u32 where "MP_USE = 1"
definition MP_COW :: u32 where "MP_COW = 2"

definition PAGE_SIZE :: nat where "PAGE_SIZE = 1024 * 4"

text \<open>\<^verbatim>\<open>__va\<close>: where the kernel sees a physical address.\<close>

definition va :: "nat \<Rightarrow> nat" where "va p = p + 0xC0000000"

definition in_use :: "page \<Rightarrow> bool" where
  "in_use p \<longleftrightarrow> pg_flags p AND MP_USE \<noteq> 0"

text \<open>The loop over the table: the index of the first page that is not in use.\<close>

fun first_free :: "page list \<Rightarrow> nat \<Rightarrow> nat option" where
  "first_free [] i = None"
| "first_free (p # ps) i = (if \<not> in_use p then Some i else first_free ps (Suc i))"

text \<open>
  \<^verbatim>\<open>get_free_page\<close>: the new table and the physical address. The caller's memory is cleared
  there by \<^verbatim>\<open>memset\<close>; that effect is modelled with the memory in the theories that have one.
\<close>

definition get_free_page :: "page list \<Rightarrow> (page list \<times> nat) res" where
  "get_free_page ps =
     (case first_free ps 0 of
        None \<Rightarrow> Inl Panic
      | Some i \<Rightarrow> Inr (ps[i := (ps ! i)\<lparr>pg_flags := pg_flags (ps ! i) OR MP_USE, pg_count := 1\<rparr>],
                      PAGE_SIZE * i))"

definition free_page :: "page list \<Rightarrow> nat \<Rightarrow> page list res" where
  "free_page ps addr =
     rmap (\<lambda>p. ps[addr div PAGE_SIZE := p\<lparr>pg_flags := NOT MP_USE, pg_count := pg_count p - 1\<rparr>])
       (arr_get ps (addr div PAGE_SIZE))"

subsection \<open>Lemmas\<close>

lemma first_free_Some:
  "first_free ps i = Some k \<Longrightarrow>
   i \<le> k \<and> k - i < length ps \<and> \<not> in_use (ps ! (k - i)) \<and> (\<forall>j < k - i. in_use (ps ! j))"
proof (induction ps arbitrary: i)
  case (Cons p ps)
  show ?case
  proof (cases "in_use p")
    case True
    then have "first_free ps (Suc i) = Some k" using Cons.prems by simp
    from Cons.IH[OF this] have h: "Suc i \<le> k" "k - Suc i < length ps" "\<not> in_use (ps ! (k - Suc i))"
      "\<forall>j < k - Suc i. in_use (ps ! j)" by auto
    then have "k - i = Suc (k - Suc i)" by simp
    then show ?thesis using h True by (auto simp: nth_Cons' less_Suc_eq_0_disj split: if_splits)
  next
    case False
    then show ?thesis using Cons.prems by simp
  qed
qed simp

lemma first_free_None: "first_free ps i = None \<longleftrightarrow> (\<forall>p \<in> set ps. in_use p)"
  by (induction ps arbitrary: i) auto

lemma in_use_simps [simp]:
  "in_use (p\<lparr>pg_flags := f OR MP_USE, pg_count := c\<rparr>)"
  "\<not> in_use (p\<lparr>pg_flags := NOT MP_USE, pg_count := c\<rparr>)"
proof -
  have "(f OR MP_USE) AND MP_USE = MP_USE"
    by (rule bit_word_eqI) (auto simp: bit_and_iff bit_or_iff)
  moreover have "NOT MP_USE AND MP_USE = (0 :: u32)" by simp
  ultimately show "in_use (p\<lparr>pg_flags := f OR MP_USE, pg_count := c\<rparr>)"
    "\<not> in_use (p\<lparr>pg_flags := NOT MP_USE, pg_count := c\<rparr>)"
    by (simp_all add: in_use_def MP_USE_def)
qed

lemma get_free_page_Inr:
  assumes "get_free_page ps = Inr (ps', a)"
  shows "\<exists>i < length ps. a = PAGE_SIZE * i \<and> \<not> in_use (ps ! i) \<and> in_use (ps' ! i)
     \<and> pg_count (ps' ! i) = 1 \<and> length ps' = length ps \<and> (\<forall>j. j \<noteq> i \<longrightarrow> ps' ! j = ps ! j)"
  using assms first_free_Some[of ps 0]
  by (auto simp: get_free_page_def nth_list_update split: option.splits)

lemma get_free_page_Inl: "get_free_page ps = Inl e \<longleftrightarrow> e = Panic \<and> (\<forall>p \<in> set ps. in_use p)"
  using first_free_None[of ps 0] by (auto simp: get_free_page_def split: option.splits)

lemma free_page_at:
  assumes "i < length ps"
  shows "\<exists>ps'. free_page ps (PAGE_SIZE * i) = Inr ps' \<and> length ps' = length ps
     \<and> \<not> in_use (ps' ! i) \<and> pg_count (ps' ! i) = pg_count (ps ! i) - 1 \<and> (\<forall>j. j \<noteq> i \<longrightarrow> ps' ! j = ps ! j)"
  using assms by (auto simp: free_page_def PAGE_SIZE_def)

subsection \<open>Properties\<close>

text \<open>
  \<^verbatim>\<open>get_free_page\<close> returns the lowest page that is not in use, now in use with count 1 and
  every other entry unchanged, and panics exactly when all pages are in use; \<^verbatim>\<open>free_page\<close>
  of that page makes it the free page again with count 0, other entries untouched.
\<close>

theorem page_alloc_then_free:
  assumes "\<not> in_use p" and "p \<in> set ps"
  shows "\<exists>ps' ps'' i. get_free_page ps = Inr (ps', PAGE_SIZE * i) \<and> i < length ps
     \<and> \<not> in_use (ps ! i) \<and> (\<forall>j < i. in_use (ps ! j)) \<and> in_use (ps' ! i) \<and> pg_count (ps' ! i) = 1
     \<and> (\<forall>j. j \<noteq> i \<longrightarrow> ps' ! j = ps ! j)
     \<and> free_page ps' (PAGE_SIZE * i) = Inr ps'' \<and> \<not> in_use (ps'' ! i) \<and> pg_count (ps'' ! i) = 0
     \<and> (\<forall>j. j \<noteq> i \<longrightarrow> ps'' ! j = ps ! j)"
proof -
  obtain i where i: "first_free ps 0 = Some i"
    using assms first_free_None[of ps 0] by fastforce
  then obtain ps' where g: "get_free_page ps = Inr (ps', PAGE_SIZE * i)" by (simp add: get_free_page_def)
  from first_free_Some[OF i] have f: "i < length ps" "\<not> in_use (ps ! i)" "\<forall>j < i. in_use (ps ! j)" by auto
  have l: "in_use (ps' ! i)" "pg_count (ps' ! i) = 1" "length ps' = length ps" "\<forall>j. j \<noteq> i \<longrightarrow> ps' ! j = ps ! j"
    using get_free_page_Inr[OF g] by (auto simp: PAGE_SIZE_def)
  obtain ps'' where "free_page ps' (PAGE_SIZE * i) = Inr ps''" "\<not> in_use (ps'' ! i)"
    "pg_count (ps'' ! i) = 0" "\<forall>j. j \<noteq> i \<longrightarrow> ps'' ! j = ps' ! j"
    using free_page_at[of i ps'] f(1) l by auto
  then show ?thesis using g f l by auto
qed

theorem page_alloc_then_free_witness:
  "\<exists>ps' ps'' i. get_free_page [\<lparr>pg_count = 1, pg_flags = 1\<rparr>, \<lparr>pg_count = 0, pg_flags = 0\<rparr>] = Inr (ps', PAGE_SIZE * i)
     \<and> free_page ps' (PAGE_SIZE * i) = Inr ps'' \<and> \<not> in_use (ps'' ! i)"
  using page_alloc_then_free[of "\<lparr>pg_count = 0, pg_flags = 0\<rparr>"
      "[\<lparr>pg_count = 1, pg_flags = 1\<rparr>, \<lparr>pg_count = 0, pg_flags = 0\<rparr>]"]
  by (fastforce simp: in_use_def)

text \<open>
  \<^verbatim>\<open>free_page\<close> stores \<^verbatim>\<open>~MP_USE\<close> instead of clearing that bit, so a freed page is marked
  copy-on-write, whatever its flags were.
\<close>

theorem free_page_marks_copy_on_write:
  assumes "free_page ps (PAGE_SIZE * i) = Inr ps'"
  shows "pg_flags (ps' ! i) AND MP_COW = MP_COW \<and> \<not> in_use (ps' ! i)"
  using assms
  by (auto simp: free_page_def rmap_Inr_conv arr_get_Inr_conv PAGE_SIZE_def MP_COW_def MP_USE_def in_use_def)

theorem free_page_marks_copy_on_write_witness:
  "\<exists>ps'. free_page [\<lparr>pg_count = 1, pg_flags = 1\<rparr>] (PAGE_SIZE * 0) = Inr ps'
     \<and> pg_flags (ps' ! 0) AND MP_COW = MP_COW"
proof -
  obtain ps' where e: "free_page [\<lparr>pg_count = 1, pg_flags = 1\<rparr>] (PAGE_SIZE * 0) = Inr ps'"
    by (simp add: free_page_def)
  then show ?thesis using free_page_marks_copy_on_write[OF e] by blast
qed

end
