(* ===== verification/Idt.thy ===== *)
theory Idt
  imports Desc Pages Printf
begin

text \<open>
  Interrupts: the interrupt descriptor table and the exception handlers of arch/i386/idt.c, the
  interrupt controller and the table of handlers of arch/i386/8259A.c, the clock of
  arch/i386/timer.c, \<^verbatim>\<open>__register_interrupt\<close> of kernel/interrupt.c, and what the stubs \<^verbatim>\<open>hwint00\<close>
  to \<^verbatim>\<open>hwint15\<close> of kernel/kernel.asm do with the table. The writes to ports are a log of
  (value, port), the last one last; \<open>rd log p\<close> is what the hardware answers to a read of port
  \<open>p\<close> after these writes. The address of a handler is \<open>addr\<close>, which the linker chooses.
\<close>

unbundle bit_operations_syntax

subsection \<open>The descriptor table\<close>

datatype handler =
    Devide_error | Single_step_exception | Nmi | Breakpoint_exception | Overflow | Bounds_check
  | Inval_opcode | Copr_not_available | Double_fault | Copr_seg_overrun | Inval_tss
  | Segment_not_present | Stack_exception | General_protection | Page_fault | Copr_error
  | Ac_error | Mc_error | Xf_error | Sys_call | Hwint nat | Address u32

definition init_idt_desc :: "gate list \<Rightarrow> u8 \<Rightarrow> u8 \<Rightarrow> u32 \<Rightarrow> u8 \<Rightarrow> gate list res" where
  "init_idt_desc idt vector desc_type base privilege =
     arr_set idt (unat vector)
       \<lparr>offset_low = ucast (base AND 0xFFFF), selector = 0x8, dcount = 0,
        g_attr = desc_type OR push_bit 5 privilege, offset_high = ucast (drop_bit 16 base AND 0xFFFF)\<rparr>"

text \<open>A sequence of calls of \<^verbatim>\<open>init_idt_desc\<close> for interrupt gates.\<close>

fun install :: "(handler \<Rightarrow> u32) \<Rightarrow> (u8 \<times> handler \<times> u8) list \<Rightarrow> gate list \<Rightarrow> gate list res" where
  "install addr [] idt = Inr idt"
| "install addr ((v, h, p) # tbl) idt =
     rbind (init_idt_desc idt v DA_386IGate (addr h) p) (install addr tbl)"

definition idt_vectors :: "(u8 \<times> handler \<times> u8) list" where
  "idt_vectors =
     [(0x0, Devide_error, PRIVILEGE_KRNL),
      (0x1, Single_step_exception, PRIVILEGE_KRNL),
      (0x2, Nmi, PRIVILEGE_KRNL),
      (0x3, Breakpoint_exception, PRIVILEGE_USER),
      (0x4, Overflow, PRIVILEGE_USER),
      (0x5, Bounds_check, PRIVILEGE_KRNL),
      (0x6, Inval_opcode, PRIVILEGE_KRNL),
      (0x7, Copr_not_available, PRIVILEGE_KRNL),
      (0x8, Double_fault, PRIVILEGE_KRNL),
      (0x9, Copr_seg_overrun, PRIVILEGE_KRNL),
      (0xA, Inval_tss, PRIVILEGE_KRNL),
      (0xB, Segment_not_present, PRIVILEGE_KRNL),
      (0xC, Stack_exception, PRIVILEGE_KRNL),
      (0xD, General_protection, PRIVILEGE_KRNL),
      (0xE, Page_fault, PRIVILEGE_KRNL),
      (0x10, Copr_error, PRIVILEGE_KRNL),
      (0x11, Ac_error, PRIVILEGE_KRNL),
      (0x12, Mc_error, PRIVILEGE_KRNL),
      (0x13, Xf_error, PRIVILEGE_KRNL),
      (0x80, Sys_call, PRIVILEGE_USER)]"

text \<open>
  \<^verbatim>\<open>init_idt\<close> takes four pages, of which the first holds the table: room for 512 gates, all
  zero. The result: the page table, the address and the limit for \<^verbatim>\<open>lidt\<close>, and the gates.
\<close>

definition zero_gate :: gate where
  "zero_gate = \<lparr>offset_low = 0, selector = 0, dcount = 0, g_attr = 0, offset_high = 0\<rparr>"

definition init_idt :: "(handler \<Rightarrow> u32) \<Rightarrow> page list \<Rightarrow> (page list \<times> nat \<times> u16 \<times> gate list) res" where
  "init_idt addr ps =
     rbind (get_free_page ps) (\<lambda>(ps1, p1).
     rbind (get_free_page ps1) (\<lambda>(ps2, _).
     rbind (get_free_page ps2) (\<lambda>(ps3, _).
     rbind (get_free_page ps3) (\<lambda>(ps4, _).
       rmap (\<lambda>idt. (ps4, va p1, 256 * 8 - 1, idt))
         (install addr idt_vectors (replicate (PAGE_SIZE div 8) zero_gate))))))"

record intr =
  i_vector :: u8
  i_handler :: u32
  i_dev_id :: u32

definition mk_interrupt :: "u8 \<Rightarrow> u32 \<Rightarrow> u32 \<Rightarrow> intr" where
  "mk_interrupt vector h dev_id = \<lparr>i_vector = vector, i_handler = h, i_dev_id = dev_id\<rparr>"

text \<open>The object that is made is not kept: only the gate is left of a registration.\<close>

definition register_interrupt :: "gate list \<Rightarrow> u8 \<Rightarrow> u32 \<Rightarrow> u32 \<Rightarrow> gate list res" where
  "register_interrupt idt vector h dev_id =
     (let i = mk_interrupt vector h dev_id
      in init_idt_desc idt (i_vector i) DA_386IGate (i_handler i) PRIVILEGE_KRNL)"

subsection \<open>The exception handlers\<close>

text \<open>
  What a handler passes to \<^verbatim>\<open>exception_handler\<close> as vector and error code, for the error code
  \<open>code\<close> of the processor. \<^verbatim>\<open>page_fault\<close> and \<^verbatim>\<open>sys_call\<close> are not in C.
\<close>

fun exception_call :: "handler \<Rightarrow> u32 \<Rightarrow> (nat \<times> u32) option" where
  "exception_call Devide_error code = Some (0x0, 0xFFFFFFFF)"
| "exception_call Single_step_exception code = Some (0x1, 0xFFFFFFFF)"
| "exception_call Nmi code = Some (0x2, 0xFFFFFFFF)"
| "exception_call Breakpoint_exception code = Some (0x3, 0xFFFFFFFF)"
| "exception_call Overflow code = Some (0x4, 0xFFFFFFFF)"
| "exception_call Bounds_check code = Some (0x5, 0xFFFFFFFF)"
| "exception_call Inval_opcode code = Some (0x6, 0xFFFFFFFF)"
| "exception_call Copr_not_available code = Some (0x7, 0xFFFFFFFF)"
| "exception_call Double_fault code = Some (0x8, code)"
| "exception_call Copr_seg_overrun code = Some (0x9, 0xFFFFFFFF)"
| "exception_call Inval_tss code = Some (0xA, code)"
| "exception_call Segment_not_present code = Some (0xB, code)"
| "exception_call Stack_exception code = Some (0xC, code)"
| "exception_call General_protection code = Some (0xD, code)"
| "exception_call Copr_error code = Some (0x10, 0xFFFFFFFF)"
| "exception_call Ac_error code = Some (0x11, code)"
| "exception_call Mc_error code = Some (0x12, 0xFFFFFFFF)"
| "exception_call Xf_error code = Some (0x13, 0xFFFFFFFF)"
| "exception_call _ code = None"

definition err_msg :: "string list" where
  "err_msg =
     [''#DE Divide Error'', ''#DB RESERVED'', ''--  NMI Interrupt'', ''#BP Breakpoint'',
      ''#OF Overflow'', ''#BR BOUND Range Exceeded'', ''#UD Invalid Opcode (Undefined Opcode)'',
      ''#NM Device Not Available (No Math Coprocessor)'', ''#DF Double Fault'',
      ''    Coprocessor Segment Overrun (reserved)'', ''#TS Invalid TSS'',
      ''#NP Segment Not Present'', ''#SS Stack-Segment Fault'', ''#GP General Protection'',
      ''#PF Page Fault'', ''--  (Intel reserved. Do not use.)'',
      ''#MF x87 FPU Floating-Point Error (Math Fault)'', ''#AC Alignment Check'',
      ''#MC Machine Check'', ''#XF SIMD Floating-Point Exception'']"

definition c_string :: "string \<Rightarrow> u8 list" where
  "c_string s = map (of_char :: char \<Rightarrow> u8) s @ [0]"

text \<open>
  The lines that \<^verbatim>\<open>exception_handler\<close> prints: each is a format and its arguments. \<open>msg i\<close> is the
  address of the i-th message.
\<close>

definition exception_lines :: "(nat \<Rightarrow> u32) \<Rightarrow> u32 \<Rightarrow> nat \<Rightarrow> u32 \<Rightarrow> u32 \<Rightarrow> u32 \<Rightarrow> u32 \<Rightarrow> (u8 list \<times> u32 list) list res" where
  "exception_lines msg cr2 vec_no err_code eip cs eflags =
     rmap (\<lambda>_.
       (if vec_no = 0xE then [(c_string ''error_page: 0x%x  '', [cr2])] else []) @
       [(c_string (''Exception! --> %s'' @ [CHR 0x0A]), [msg vec_no]),
        (c_string (''EFLAGS:0x%x CS:0x%x EIP:0x%x'' @ [CHR 0x0A]), [eflags, cs, eip])] @
       (if err_code \<noteq> 0xFFFFFFFF then [(c_string (''Error code:%x'' @ [CHR 0x0A]), [err_code])] else []))
       (arr_get err_msg vec_no)"

fun print_lines :: "(u32 \<Rightarrow> u8 list) \<Rightarrow> u8 list \<Rightarrow> (u8 list \<times> u32 list) list \<Rightarrow> tty_state \<Rightarrow> tty_state res" where
  "print_lines mem junk [] tt = Inr tt"
| "print_lines mem junk ((fmt, args) # ls) tt =
     rbind (printk mem junk fmt args tt) (\<lambda>(_, _, tt'). print_lines mem junk ls tt')"

text \<open>The screen it leaves before it loops for ever.\<close>

definition exception_screen :: "(u32 \<Rightarrow> u8 list) \<Rightarrow> u8 list \<Rightarrow> (nat \<Rightarrow> u32) \<Rightarrow> u32 \<Rightarrow> nat \<Rightarrow> u32 \<Rightarrow> u32 \<Rightarrow> u32 \<Rightarrow> u32 \<Rightarrow>
                               tty_state \<Rightarrow> tty_state res" where
  "exception_screen mem junk msg cr2 vec_no err_code eip cs eflags tt =
     rbind (exception_lines msg cr2 vec_no err_code eip cs eflags) (\<lambda>ls. print_lines mem junk ls tt)"

definition exception_handler :: "(u32 \<Rightarrow> u8 list) \<Rightarrow> u8 list \<Rightarrow> (nat \<Rightarrow> u32) \<Rightarrow> u32 \<Rightarrow> nat \<Rightarrow> u32 \<Rightarrow> u32 \<Rightarrow> u32 \<Rightarrow> u32 \<Rightarrow>
                                tty_state \<Rightarrow> unit res" where
  "exception_handler mem junk msg cr2 vec_no err_code eip cs eflags tt =
     rbind (exception_screen mem junk msg cr2 vec_no err_code eip cs eflags tt) (\<lambda>_. Inl Hang)"

subsection \<open>The interrupt controller\<close>

definition INT_M_CTL :: u16 where "INT_M_CTL = 0x20"
definition INT_M_CTLMASK :: u16 where "INT_M_CTLMASK = 0x21"
definition INT_S_CTL :: u16 where "INT_S_CTL = 0xA0"
definition INT_S_CTLMASK :: u16 where "INT_S_CTLMASK = 0xA1"
definition INT_VECTOR_IRQ0 :: u8 where "INT_VECTOR_IRQ0 = 0x20"
definition INT_VECTOR_IRQ8 :: u8 where "INT_VECTOR_IRQ8 = 0x28"
definition CLOCK_IRQ :: nat where "CLOCK_IRQ = 0"
definition CASCADE_IRQ :: nat where "CASCADE_IRQ = 2"
definition IRQ_NUMBER :: nat where "IRQ_NUMBER = 16"

type_synonym port_log = "(u8 \<times> u16) list"

text \<open>The shift is done in \<^verbatim>\<open>int\<close>, the result is cut to the byte that \<^verbatim>\<open>outb\<close> takes.\<close>

definition enable_8259A_irq :: "(port_log \<Rightarrow> u16 \<Rightarrow> u8) \<Rightarrow> nat \<Rightarrow> port_log \<Rightarrow> port_log" where
  "enable_8259A_irq rd irq lg =
     (if irq \<le> 8
      then lg @ [(ucast (ucast (rd lg INT_M_CTLMASK) AND NOT (push_bit irq 1 :: u32)), INT_M_CTLMASK)]
      else lg @ [(ucast (ucast (rd lg INT_S_CTLMASK) AND NOT (push_bit (irq - 8) 1 :: u32)), INT_S_CTLMASK)])"

definition disable_8259A_irq :: "(port_log \<Rightarrow> u16 \<Rightarrow> u8) \<Rightarrow> nat \<Rightarrow> port_log \<Rightarrow> port_log" where
  "disable_8259A_irq rd irq lg =
     (if irq \<le> 8
      then lg @ [(ucast (ucast (rd lg INT_M_CTLMASK) OR (push_bit irq 1 :: u32)), INT_M_CTLMASK)]
      else lg @ [(ucast (ucast (rd lg INT_S_CTLMASK) OR (push_bit (irq - 8) 1 :: u32)), INT_S_CTLMASK)])"

definition init_8259A_commands :: port_log where
  "init_8259A_commands =
     [(0x11, INT_M_CTL), (0x11, INT_S_CTL),
      (INT_VECTOR_IRQ0, INT_M_CTLMASK), (INT_VECTOR_IRQ8, INT_S_CTLMASK),
      (0x4, INT_M_CTLMASK), (0x2, INT_S_CTLMASK),
      (0x3, INT_M_CTLMASK), (0x3, INT_S_CTLMASK),
      (0xFF, INT_M_CTLMASK), (0xFF, INT_S_CTLMASK)]"

definition hwint_vectors :: "(u8 \<times> handler \<times> u8) list" where
  "hwint_vectors =
     [(0x20, Hwint 0, PRIVILEGE_KRNL), (0x21, Hwint 1, PRIVILEGE_KRNL), (0x22, Hwint 2, PRIVILEGE_KRNL),
      (0x23, Hwint 3, PRIVILEGE_KRNL), (0x24, Hwint 4, PRIVILEGE_KRNL), (0x25, Hwint 5, PRIVILEGE_KRNL),
      (0x26, Hwint 6, PRIVILEGE_KRNL), (0x27, Hwint 7, PRIVILEGE_KRNL), (0x28, Hwint 8, PRIVILEGE_KRNL),
      (0x29, Hwint 9, PRIVILEGE_KRNL), (0x2A, Hwint 10, PRIVILEGE_KRNL), (0x2B, Hwint 11, PRIVILEGE_KRNL),
      (0x2C, Hwint 12, PRIVILEGE_KRNL), (0x2D, Hwint 13, PRIVILEGE_KRNL), (0x2E, Hwint 14, PRIVILEGE_KRNL),
      (0x2F, Hwint 15, PRIVILEGE_KRNL)]"

definition init_8259A :: "(port_log \<Rightarrow> u16 \<Rightarrow> u8) \<Rightarrow> (handler \<Rightarrow> u32) \<Rightarrow> port_log \<Rightarrow> gate list \<Rightarrow>
                          (port_log \<times> gate list) res" where
  "init_8259A rd addr lg idt =
     rmap (\<lambda>idt'. (enable_8259A_irq rd CASCADE_IRQ (lg @ init_8259A_commands), idt'))
       (install addr hwint_vectors idt)"

text \<open>\<^verbatim>\<open>irq_table\<close>; the address 0 stands for a null \<^verbatim>\<open>dev_id\<close>.\<close>

record irq_entry =
  ie_irq :: u8
  ie_handler :: u32
  ie_dev_id :: u32

definition irq_table0 :: "u32 \<Rightarrow> irq_entry list" where
  "irq_table0 spurious_irq = map (\<lambda>i. \<lparr>ie_irq = of_nat i, ie_handler = spurious_irq, ie_dev_id = 0\<rparr>) [0..<IRQ_NUMBER]"

definition register_irq :: "irq_entry list \<Rightarrow> u8 \<Rightarrow> u32 \<Rightarrow> u32 \<Rightarrow> irq_entry list res" where
  "register_irq tbl irq h dev_id =
     rbind (arr_get tbl (unat irq)) (\<lambda>e. arr_set tbl (unat irq) (e\<lparr>ie_handler := h, ie_dev_id := dev_id\<rparr>))"

definition spurious_irq :: "(u32 \<Rightarrow> u8 list) \<Rightarrow> u8 list \<Rightarrow> u32 \<Rightarrow> tty_state \<Rightarrow> tty_state res" where
  "spurious_irq mem junk irq tt =
     rmap (\<lambda>(_, _, tt'). tt') (printk mem junk (c_string (''spurious_ %d'' @ [CHR 0x0A])) [irq] tt)"

text \<open>
  The stub of line \<open>n\<close>: it masks the line, calls the handler of the table with the line and the
  device, and unmasks the line. \<open>run h n dev\<close> is the effect of the handler on the ports.
\<close>

definition hwint_stub :: "(port_log \<Rightarrow> u16 \<Rightarrow> u8) \<Rightarrow> (u32 \<Rightarrow> nat \<Rightarrow> u32 \<Rightarrow> port_log \<Rightarrow> port_log) \<Rightarrow>
                          irq_entry list \<Rightarrow> nat \<Rightarrow> port_log \<Rightarrow> port_log res" where
  "hwint_stub rd run tbl n lg =
     (let p = (if n < 8 then INT_M_CTLMASK else INT_S_CTLMASK);
          m = push_bit (if n < 8 then n else n - 8) 1 :: u8;
          lg1 = lg @ [(rd lg p OR m, p)]
      in rmap (\<lambda>e. let lg2 = run (ie_handler e) n (ie_dev_id e) lg1
                   in lg2 @ [(rd lg2 p AND NOT m, p)])
           (arr_get tbl n))"

subsection \<open>The clock\<close>

definition HZ :: u32 where "HZ = 1000"
definition TIMER_FREQ :: u32 where "TIMER_FREQ = 1193182"

definition timer_init :: "(port_log \<Rightarrow> u16 \<Rightarrow> u8) \<Rightarrow> u32 \<Rightarrow> irq_entry list \<Rightarrow> port_log \<Rightarrow>
                          (irq_entry list \<times> port_log) res" where
  "timer_init rd timer_interrupt_handle tbl lg =
     (let lg1 = lg @ [(0x34, 0x43), (ucast (TIMER_FREQ div HZ), 0x40), (ucast (drop_bit 8 (TIMER_FREQ div HZ)), 0x40)]
      in rmap (\<lambda>tbl'. (tbl', enable_8259A_irq rd CLOCK_IRQ lg1))
           (register_irq tbl (of_nat CLOCK_IRQ) timer_interrupt_handle 0))"

subsection \<open>The gates of a table of vectors\<close>

definition mk_gate :: "u32 \<Rightarrow> u8 \<Rightarrow> gate" where
  "mk_gate base p =
     \<lparr>offset_low = ucast (base AND 0xFFFF), selector = 0x8, dcount = 0,
      g_attr = DA_386IGate OR push_bit 5 p, offset_high = ucast (drop_bit 16 base AND 0xFFFF)\<rparr>"

lemma mk_gate_fields:
  "gate_offset (mk_gate base p) = base"
  "p = PRIVILEGE_KRNL \<or> p = PRIVILEGE_USER \<Longrightarrow> gate_dpl (mk_gate base p) = p"
  "p = PRIVILEGE_KRNL \<or> p = PRIVILEGE_USER \<Longrightarrow> gate_present (mk_gate base p)"
proof -
  have "gate_offset (mk_gate base p) = gate_offset (create_gate 0x8 base 0 0)"
    by (simp add: gate_offset_def mk_gate_def create_gate_def)
  then show "gate_offset (mk_gate base p) = base" by (simp only: gate_offset_create)
qed (auto simp: gate_dpl_def gate_present_def mk_gate_def DA_386IGate_def PRIVILEGE_KRNL_def PRIVILEGE_USER_def)

lemma install_spec:
  assumes "distinct (map fst tbl)" and "256 \<le> length idt"
  shows "\<exists>idt'. install addr tbl idt = Inr idt' \<and> length idt' = length idt \<and>
           (\<forall>(v, h, p) \<in> set tbl. idt' ! unat v = mk_gate (addr h) p) \<and>
           (\<forall>i. i \<notin> (\<lambda>e. unat (fst e)) ` set tbl \<longrightarrow> idt' ! i = idt ! i)"
  using assms
proof (induction tbl arbitrary: idt)
  case (Cons e tbl)
  obtain v h p where e: "e = (v, h, p)" by (cases e) auto
  let ?idt = "idt[unat v := mk_gate (addr h) p]"
  have v: "unat v < length idt" using Cons.prems(2) unat_less_8[of v] by simp
  obtain idt' where I: "install addr tbl ?idt = Inr idt'" "length idt' = length idt"
    "\<forall>(v, h, p) \<in> set tbl. idt' ! unat v = mk_gate (addr h) p"
    "\<forall>i. i \<notin> (\<lambda>e. unat (fst e)) ` set tbl \<longrightarrow> idt' ! i = ?idt ! i"
    using Cons.IH[of ?idt] Cons.prems by auto
  have "unat v \<notin> (\<lambda>e. unat (fst e)) ` set tbl"
    using Cons.prems(1) by (auto simp: e image_iff word_unat_eq_iff[symmetric])
  then have "idt' ! unat v = mk_gate (addr h) p" using I(4) v by simp
  then have "install addr (e # tbl) idt = Inr idt' \<and> length idt' = length idt \<and>
      (\<forall>(v, h, p) \<in> set (e # tbl). idt' ! unat v = mk_gate (addr h) p) \<and>
      (\<forall>i. i \<notin> (\<lambda>e. unat (fst e)) ` set (e # tbl) \<longrightarrow> idt' ! i = idt ! i)"
    using I v by (auto simp: e init_idt_desc_def mk_gate_def)
  then show ?case by blast
qed simp

lemma install_append: "install addr (xs @ ys) idt = rbind (install addr xs idt) (install addr ys)"
proof (induction xs arbitrary: idt)
  case (Cons e xs)
  then have "install addr (xs @ ys) = (\<lambda>idt. rbind (install addr xs idt) (install addr ys))"
    by (intro ext)
  then show ?case by (cases e) (simp add: rbind_assoc)
qed simp

lemma vectors_distinct: "distinct (map fst (idt_vectors @ hwint_vectors))"
  by (simp add: idt_vectors_def hwint_vectors_def)

lemma vectors_privilege:
  "\<forall>(v, h, p) \<in> set (idt_vectors @ hwint_vectors).
     p = (if unat v \<in> {3, 4, 0x80} then PRIVILEGE_USER else PRIVILEGE_KRNL)"
  by (simp add: idt_vectors_def hwint_vectors_def)

lemma vectors_set:
  "(\<lambda>e. unat (fst e)) ` set (idt_vectors @ hwint_vectors) = {0..<15} \<union> {16..<20} \<union> {0x80} \<union> {0x20..<0x30}"
proof -
  have "map (\<lambda>e. unat (fst e)) idt_vectors = [0..<15] @ [16..<20] @ [0x80]"
    "map (\<lambda>e. unat (fst e)) hwint_vectors = [0x20..<0x30]"
    by (simp_all add: idt_vectors_def hwint_vectors_def upt_conv_Cons numeral_2_eq_2[symmetric])
  then have "map (\<lambda>e. unat (fst e)) (idt_vectors @ hwint_vectors) = [0..<15] @ [16..<20] @ [0x80] @ [0x20..<0x30]"
    by (simp only: map_append append_assoc)
  then have "set (map (\<lambda>e. unat (fst e)) (idt_vectors @ hwint_vectors)) = set ([0..<15] @ [16..<20] @ [0x80] @ [0x20..<0x30])"
    by (simp only:)
  then show ?thesis by (simp only: set_map set_append set_upt list.simps(15) empty_set Un_assoc)
qed

lemma init_gates:
  assumes "install addr idt_vectors (replicate (PAGE_SIZE div 8) zero_gate) = Inr idt"
  shows "\<exists>idt'. install addr hwint_vectors idt = Inr idt' \<and>
           (\<forall>(v, h, p) \<in> set (idt_vectors @ hwint_vectors). idt' ! unat v = mk_gate (addr h) p) \<and>
           (\<forall>i < 256. i \<notin> (\<lambda>e. unat (fst e)) ` set (idt_vectors @ hwint_vectors) \<longrightarrow> idt' ! i = zero_gate)"
proof -
  let ?z = "replicate (PAGE_SIZE div 8) zero_gate"
  have l: "256 \<le> length ?z" by (simp add: PAGE_SIZE_def)
  obtain idt' where I: "install addr (idt_vectors @ hwint_vectors) ?z = Inr idt'"
    "\<forall>(v, h, p) \<in> set (idt_vectors @ hwint_vectors). idt' ! unat v = mk_gate (addr h) p"
    "\<forall>i. i \<notin> (\<lambda>e. unat (fst e)) ` set (idt_vectors @ hwint_vectors) \<longrightarrow> idt' ! i = ?z ! i"
    using install_spec[OF vectors_distinct l] by blast
  have "install addr hwint_vectors idt = Inr idt'"
    using I(1) assms unfolding install_append by simp
  moreover have "\<forall>i < 256. ?z ! i = zero_gate" by (simp add: PAGE_SIZE_def)
  ultimately show ?thesis using I(2,3) by metis
qed

lemma init_idt_Inr:
  "init_idt addr ps = Inr (ps', b, l, idt) \<Longrightarrow>
   install addr idt_vectors (replicate (PAGE_SIZE div 8) zero_gate) = Inr idt"
  unfolding init_idt_def by (elim rbindE; clarsimp)+ (elim rmapE, simp)

lemma zero_gate_absent [simp]: "\<not> gate_present zero_gate"
  by (simp add: gate_present_def zero_gate_def)

subsection \<open>The lines of the controller\<close>

text \<open>
  Whether a line is masked: bit \<open>n\<close> of the mask of the master, bit \<open>n - 8\<close> of that of the slave.
\<close>

definition line_masked :: "(port_log \<Rightarrow> u16 \<Rightarrow> u8) \<Rightarrow> port_log \<Rightarrow> nat \<Rightarrow> bool" where
  "line_masked rd lg n =
     (if n < 8 then bit (rd lg INT_M_CTLMASK) n else bit (rd lg INT_S_CTLMASK) (n - 8))"

text \<open>What the controller documents of its masks: a read gives the last byte written.\<close>

definition mask_registers :: "(port_log \<Rightarrow> u16 \<Rightarrow> u8) \<Rightarrow> bool" where
  "mask_registers rd \<longleftrightarrow>
     (\<forall>lg v p q. p \<in> {INT_M_CTLMASK, INT_S_CTLMASK} \<longrightarrow> rd (lg @ [(v, q)]) p = (if q = p then v else rd lg p))"

lemma ports_distinct [simp]: "INT_M_CTLMASK \<noteq> INT_S_CTLMASK" "INT_S_CTLMASK \<noteq> INT_M_CTLMASK"
  by (simp_all add: INT_M_CTLMASK_def INT_S_CTLMASK_def)

lemma mask_write:
  assumes "mask_registers rd"
  shows "rd (lg @ [(v, q)]) INT_M_CTLMASK = (if q = INT_M_CTLMASK then v else rd lg INT_M_CTLMASK)"
    and "rd (lg @ [(v, q)]) INT_S_CTLMASK = (if q = INT_S_CTLMASK then v else rd lg INT_S_CTLMASK)"
  using assms unfolding mask_registers_def by blast+



lemma bit_imr:
  assumes "n < 8"
  shows "bit (ucast (ucast (m :: u8) AND NOT (push_bit k 1 :: u32)) :: u8) n \<longleftrightarrow> bit m n \<and> n \<noteq> k"
    and "bit (ucast (ucast (m :: u8) OR (push_bit k 1 :: u32)) :: u8) n \<longleftrightarrow> bit m n \<or> n = k"
  using assms by (auto simp: bit_ucast_iff bit_and_iff bit_or_iff bit_not_iff bit_exp_iff)

lemmas bit_imr_simps = bit_imr[unfolded push_bit_of_1] bit_imr[of _ _ 8, simplified]

text \<open>The last value written, 0 before any: one reading that is as documented.\<close>

definition last_written :: "port_log \<Rightarrow> u16 \<Rightarrow> u8" where
  "last_written lg p = foldl (\<lambda>m (v, q). if q = p then v else m) 0 lg"

lemma last_written_registers: "mask_registers last_written"
  by (simp add: mask_registers_def last_written_def)

subsection \<open>Properties\<close>

text \<open>
  C32. After \<^verbatim>\<open>init_idt\<close> and \<^verbatim>\<open>init_8259A\<close> the gate of each vector of the two tables leads to the
  handler of the table; the present gates are exactly the vectors 0 to 14, 16 to 19, 0x20 to
  0x2F and 0x80; and a user program may raise exactly the vectors 3, 4 and 0x80 itself.
\<close>

theorem idt_gates:
  assumes "init_idt addr ps = Inr (ps', b, l, idt)"
  shows "\<exists>lg' idt'. init_8259A rd addr lg idt = Inr (lg', idt') \<and>
     (\<forall>(v, h, p) \<in> set (idt_vectors @ hwint_vectors). gate_offset (idt' ! unat v) = addr h) \<and>
     {v. v < 256 \<and> gate_present (idt' ! v)} = {0..<15} \<union> {16..<20} \<union> {0x80} \<union> {0x20..<0x30} \<and>
     {v. v < 256 \<and> gate_present (idt' ! v) \<and> gate_dpl (idt' ! v) = PRIVILEGE_USER} = {3, 4, 0x80}"
proof -
  obtain idt' where I: "install addr hwint_vectors idt = Inr idt'"
    "\<forall>(v, h, p) \<in> set (idt_vectors @ hwint_vectors). idt' ! unat v = mk_gate (addr h) p"
    "\<forall>i < 256. i \<notin> (\<lambda>e. unat (fst e)) ` set (idt_vectors @ hwint_vectors) \<longrightarrow> idt' ! i = zero_gate"
    using init_gates[OF init_idt_Inr[OF assms]] by blast
  let ?V = "(\<lambda>e. unat (fst e)) ` set (idt_vectors @ hwint_vectors)"
  have gate: "idt' ! i = mk_gate a p \<Longrightarrow> p = PRIVILEGE_KRNL \<or> p = PRIVILEGE_USER \<Longrightarrow>
      gate_present (idt' ! i) \<and> gate_dpl (idt' ! i) = p" for i a p
    using mk_gate_fields by simp
  have at: "gate_present (idt' ! i) \<and> (gate_dpl (idt' ! i) = PRIVILEGE_USER \<longleftrightarrow> i \<in> {3, 4, 0x80})"
    if V: "i \<in> ?V" for i
  proof -
    obtain e where "e \<in> set (idt_vectors @ hwint_vectors)" "i = unat (fst e)" using V by blast
    then obtain v h p where e: "(v, h, p) \<in> set (idt_vectors @ hwint_vectors)" "i = unat v"
      by (metis prod.exhaust_sel)
    then have "p = (if i \<in> {3, 4, 0x80} then PRIVILEGE_USER else PRIVILEGE_KRNL)"
      "idt' ! i = mk_gate (addr h) p"
      using vectors_privilege I(2) by blast+
    moreover have "PRIVILEGE_USER \<noteq> PRIVILEGE_KRNL" by (simp add: PRIVILEGE_USER_def PRIVILEGE_KRNL_def)
    ultimately show ?thesis using gate[of i "addr h" p] by (auto split: if_splits)
  qed
  have small: "i < 256" if "i \<in> ?V" for i using that unat_less_8 by auto
  have present: "{v. v < 256 \<and> gate_present (idt' ! v)} = ?V"
  proof (intro set_eqI iffI)
    fix i
    assume i: "i \<in> {v. v < 256 \<and> gate_present (idt' ! v)}"
    show "i \<in> ?V"
    proof (rule ccontr)
      assume "i \<notin> ?V"
      from I(3)[rule_format, OF _ this] i have "idt' ! i = zero_gate" by simp
      with i show False by simp
    qed
  next
    fix i
    assume "i \<in> ?V"
    then show "i \<in> {v. v < 256 \<and> gate_present (idt' ! v)}" using at small by blast
  qed
  have "{v. v < 256 \<and> gate_present (idt' ! v) \<and> gate_dpl (idt' ! v) = PRIVILEGE_USER} = {3, 4, 0x80}"
  proof (intro set_eqI iffI)
    fix i
    assume i: "i \<in> {v. v < 256 \<and> gate_present (idt' ! v) \<and> gate_dpl (idt' ! v) = PRIVILEGE_USER}"
    then have "i \<in> ?V" unfolding present[symmetric] by simp
    from at[OF this] i show "i \<in> {3, 4, 0x80}" by simp
  next
    fix i
    assume i: "i \<in> {3, 4, 0x80 :: nat}"
    then have "i \<in> ?V" unfolding vectors_set by auto
    with at[OF this] small[OF this] i
    show "i \<in> {v. v < 256 \<and> gate_present (idt' ! v) \<and> gate_dpl (idt' ! v) = PRIVILEGE_USER}" by simp
  qed
  moreover have "\<forall>(v, h, p) \<in> set (idt_vectors @ hwint_vectors). gate_offset (idt' ! unat v) = addr h"
  proof (clarify)
    fix v h p
    assume "(v, h, p) \<in> set (idt_vectors @ hwint_vectors)"
    with I(2) have "idt' ! unat v = mk_gate (addr h) p" by blast
    then show "gate_offset (idt' ! unat v) = addr h" by (simp only: mk_gate_fields(1))
  qed
  ultimately show ?thesis
    using present I(1) unfolding vectors_set by (auto simp: init_8259A_def)
qed

abbreviation free_pg :: page where
  "free_pg \<equiv> \<lparr>pg_count = 0, pg_flags = 0\<rparr>"

lemma init_idt_four_pages:
  "\<exists>ps' b l idt. init_idt addr [free_pg, free_pg, free_pg, free_pg] = Inr (ps', b, l, idt)"
proof -
  have d: "distinct (map fst idt_vectors)" and l: "256 \<le> length (replicate (PAGE_SIZE div 8) zero_gate)"
    using vectors_distinct by (auto simp: PAGE_SIZE_def)
  obtain idt where "install addr idt_vectors (replicate (PAGE_SIZE div 8) zero_gate) = Inr idt"
    using install_spec[OF d l] by blast
  then show ?thesis
    by (simp add: init_idt_def get_free_page_def in_use_def MP_USE_def)
qed

theorem idt_gates_witness:
  "\<exists>idt lg' idt'. init_8259A last_written (\<lambda>h. 0x1000) [] idt = Inr (lg', idt') \<and>
     gate_offset (idt' ! 14) = 0x1000 \<and> \<not> gate_present (idt' ! 15)"
proof -
  obtain ps' b l idt where I: "init_idt (\<lambda>h. 0x1000) [free_pg, free_pg, free_pg, free_pg] = Inr (ps', b, l, idt)"
    using init_idt_four_pages by blast
  obtain lg' idt' where r: "init_8259A last_written (\<lambda>h. 0x1000) [] idt = Inr (lg', idt')"
    and g: "\<forall>(v, h, p) \<in> set (idt_vectors @ hwint_vectors). gate_offset (idt' ! unat v) = 0x1000"
    and s: "{v. v < 256 \<and> gate_present (idt' ! v)} = {0..<15} \<union> {16..<20} \<union> {0x80} \<union> {0x20..<0x30}"
    using idt_gates[OF I, of last_written "[]"] by blast
  have "(0xE, Page_fault, PRIVILEGE_KRNL) \<in> set (idt_vectors @ hwint_vectors)" by (simp add: idt_vectors_def)
  with g have "gate_offset (idt' ! unat (0xE :: u8)) = 0x1000" by blast
  moreover have "15 \<notin> {v. v < 256 \<and> gate_present (idt' ! v)}" unfolding s by simp
  ultimately show ?thesis using r by auto
qed

text \<open>
  Enabling a line of the interrupt controller unmasks this line and no other, and disabling
  masks it and no other, for every line but 8: for line 8 both change nothing, since the test
  \<^verbatim>\<open>irq <= 8\<close> sends it to the master, in whose mask it has no bit.
\<close>

theorem irq_masking:
  assumes "mask_registers rd" and "n < 16" and "irq < 16"
  shows "line_masked rd (enable_8259A_irq rd irq lg) n \<longleftrightarrow> line_masked rd lg n \<and> (n \<noteq> irq \<or> irq = 8)"
    and "line_masked rd (disable_8259A_irq rd irq lg) n \<longleftrightarrow> line_masked rd lg n \<or> (n = irq \<and> irq \<noteq> 8)"
  using assms(2,3)
  by (cases "irq = 8";
      auto simp: line_masked_def enable_8259A_irq_def disable_8259A_irq_def mask_write[OF assms(1)] bit_imr_simps)+

theorem irq_masking_witness:
  "line_masked last_written (disable_8259A_irq last_written 3 []) 3"
  "\<not> line_masked last_written (disable_8259A_irq last_written 8 []) 8"
  using irq_masking(2)[of last_written 3 3 "[]"] irq_masking(2)[of last_written 8 8 "[]"] last_written_registers
  by (simp_all add: line_masked_def last_written_def)

text \<open>
  A handler that is registered for a line is what the stub of the line calls, with the line
  and the registered device; the line is masked while it runs and unmasked afterwards, and the
  stub changes no other line. A line from 16 on is written past \<^verbatim>\<open>irq_table\<close>.
\<close>

theorem registered_handler_runs:
  assumes "mask_registers rd" and "length tbl = IRQ_NUMBER"
  shows "case register_irq tbl irq h dev of
           Inl e \<Rightarrow> e = OutOfBounds \<and> 16 \<le> unat irq
         | Inr tbl' \<Rightarrow> unat irq < 16 \<and>
             (\<exists>lg1 lg'. hwint_stub rd run tbl' (unat irq) lg = Inr lg' \<and>
                line_masked rd lg1 (unat irq) \<and> \<not> line_masked rd lg' (unat irq) \<and>
                (\<forall>n < 16. n \<noteq> unat irq \<longrightarrow> line_masked rd lg1 n = line_masked rd lg n \<and>
                   line_masked rd lg' n = line_masked rd (run h (unat irq) dev lg1) n))"
proof (cases "unat irq < 16")
  case False
  then show ?thesis using assms(2) by (simp add: register_irq_def arr_get_def IRQ_NUMBER_def)
next
  case True
  define n where "n = unat irq"
  define p where "p = (if n < 8 then INT_M_CTLMASK else INT_S_CTLMASK)"
  define m where "m = (push_bit (if n < 8 then n else n - 8) 1 :: u8)"
  define lg1 where "lg1 = lg @ [(rd lg p OR m, p)]"
  define lg2 where "lg2 = run h n dev lg1"
  define lg' where "lg' = lg2 @ [(rd lg2 p AND NOT m, p)]"
  obtain tbl' where t: "register_irq tbl irq h dev = Inr tbl'" and "n < length tbl'"
    "ie_handler (tbl' ! n) = h" "ie_dev_id (tbl' ! n) = dev"
    using True assms(2) by (simp add: register_irq_def IRQ_NUMBER_def n_def)
  then have "hwint_stub rd run tbl' n lg = Inr lg'"
    unfolding hwint_stub_def Let_def p_def[symmetric] m_def[symmetric] lg1_def[symmetric]
    by (simp add: lg2_def lg'_def)
  moreover have "line_masked rd lg1 n" "\<not> line_masked rd lg' n"
    "\<forall>k < 16. k \<noteq> n \<longrightarrow> line_masked rd lg1 k = line_masked rd lg k \<and> line_masked rd lg' k = line_masked rd lg2 k"
    using True unfolding lg1_def lg'_def n_def[symmetric]
    by (auto simp: line_masked_def p_def m_def mask_write[OF assms(1)] bit_and_iff bit_or_iff bit_not_iff bit_exp_iff)
  ultimately show ?thesis using t True unfolding n_def lg2_def by auto
qed

theorem registered_handler_runs_witness:
  "\<exists>tbl' lg'. register_irq (irq_table0 5) 12 7 9 = Inr tbl' \<and>
     hwint_stub last_written (\<lambda>h n d lg. lg) tbl' 12 [] = Inr lg' \<and> \<not> line_masked last_written lg' 12"
proof -
  have "length (irq_table0 5) = IRQ_NUMBER" by (simp add: irq_table0_def)
  from registered_handler_runs[OF last_written_registers this,
      where irq = 12 and h = 7 and dev = 9 and run = "\<lambda>h n d lg. lg" and lg = "[]"]
  show ?thesis by (auto split: sum.splits)
qed

end
