(* ===== verification/Exceptions.thy ===== *)
theory Exceptions
  imports Idt PrintText
begin

text \<open>
  The report of an exception, across the gates and the handlers of arch/i386/idt.c, the formatted
  output of lib/stdio.c and the first terminal: what each handler leaves on the screen before it
  loops for ever.
\<close>

unbundle bit_operations_syntax

subsection \<open>The text of a report\<close>

text \<open>The exceptions for which the processor pushes an error code, of those with a handler in C.\<close>

definition pushes_error_code :: "u8 \<Rightarrow> bool" where
  "pushes_error_code v \<longleftrightarrow> v \<in> {0x8, 0xA, 0xB, 0xC, 0xD, 0x11}"

abbreviation hex_text :: "u32 \<Rightarrow> u8 list" where
  "hex_text a \<equiv> digit_text True 16 (unat a)"

definition registers_text :: "u32 \<Rightarrow> u32 \<Rightarrow> u32 \<Rightarrow> u8 list" where
  "registers_text eip cs eflags =
     ascii ''EFLAGS:0x'' @ hex_text eflags @ ascii '' CS:0x'' @ hex_text cs @ ascii '' EIP:0x'' @ hex_text eip @ [10]"

definition message_text :: "string \<Rightarrow> u8 list" where
  "message_text m = ascii ''Exception! --> '' @ ascii m @ [10]"

definition code_text :: "u32 \<Rightarrow> u8 list" where
  "code_text c = ascii ''Error code:'' @ hex_text c @ [10]"

definition report_text :: "string \<Rightarrow> u32 \<Rightarrow> u32 \<Rightarrow> u32 \<Rightarrow> u32 option \<Rightarrow> u8 list" where
  "report_text m eip cs eflags err =
     message_text m @ registers_text eip cs eflags @ (case err of None \<Rightarrow> [] | Some c \<Rightarrow> code_text c)"

lemma length_hex: "length (hex_text a) \<le> 32"
proof -
  have "length (lsd 16 (unat a)) \<le> 32" using unat_less_32[of a] by (intro length_lsd) simp_all
  then show ?thesis by (simp add: digit_text_def)
qed

lemma err_msg_texts:
  assumes "n < length err_msg"
  shows "cstr (c_string (err_msg ! n)) = ascii (err_msg ! n)" and "length (err_msg ! n) \<le> 46"
proof -
  have "list_all (\<lambda>m. cstr (c_string m) = ascii m \<and> length m \<le> 46) err_msg"
    by (simp add: err_msg_def c_string_def cstr_def)
  then show "cstr (c_string (err_msg ! n)) = ascii (err_msg ! n)" "length (err_msg ! n) \<le> 46"
    using assms by (simp_all add: list_all_length)
qed

subsection \<open>The lines\<close>

lemma message_line:
  assumes "n < length err_msg" and "mem a = c_string (err_msg ! n)" and "PRINTK_LEN \<le> length junk"
  shows "printk mem junk (c_string (''Exception! --> %s'' @ [CHR 0x0A])) [a] tt =
    rmap (\<lambda>tt'. (of_nat (length (message_text (err_msg ! n))), [], tt'))
      (print_text (message_text (err_msg ! n)) tt)"
proof (rule printk_items)
  let ?items = "map Lit (ascii ''Exception! --> '') @ [Str a, Lit 10]"
  show "c_string (''Exception! --> %s'' @ [CHR 0x0A]) = concat (map item_fmt ?items) @ [0]" by (simp add: c_string_def)
  show "[a] = concat (map item_args ?items)" by simp
  show "\<forall>it \<in> set ?items. item_ok mem it" using assms(2) by (simp add: c_string_def)
  show "message_text (err_msg ! n) = concat (map (item_text mem) ?items)"
    using err_msg_texts(1)[OF assms(1)] assms(2) by (simp add: message_text_def)
  show "length (message_text (err_msg ! n)) < PRINTK_LEN"
    using err_msg_texts(2)[OF assms(1)] by (simp add: message_text_def PRINTK_LEN_def)
qed (rule assms(3))

lemma registers_line:
  assumes "PRINTK_LEN \<le> length junk"
  shows "printk mem junk (c_string (''EFLAGS:0x%x CS:0x%x EIP:0x%x'' @ [CHR 0x0A])) [eflags, cs, eip] tt =
    rmap (\<lambda>tt'. (of_nat (length (registers_text eip cs eflags)), [], tt')) (print_text (registers_text eip cs eflags) tt)"
proof (rule printk_items)
  let ?items = "map Lit (ascii ''EFLAGS:0x'') @ HexL eflags # map Lit (ascii '' CS:0x'') @ HexL cs #
    map Lit (ascii '' EIP:0x'') @ [HexL eip, Lit 10]"
  show "c_string (''EFLAGS:0x%x CS:0x%x EIP:0x%x'' @ [CHR 0x0A]) = concat (map item_fmt ?items) @ [0]" by (simp add: c_string_def)
  show "[eflags, cs, eip] = concat (map item_args ?items)" by simp
  show "\<forall>it \<in> set ?items. item_ok mem it" by simp
  show "registers_text eip cs eflags = concat (map (item_text mem) ?items)" by (simp add: registers_text_def)
  show "length (registers_text eip cs eflags) < PRINTK_LEN"
    using length_hex[of eflags] length_hex[of cs] length_hex[of eip] by (simp add: registers_text_def PRINTK_LEN_def)
qed (rule assms(1))

lemma code_line:
  assumes "PRINTK_LEN \<le> length junk"
  shows "printk mem junk (c_string (''Error code:%x'' @ [CHR 0x0A])) [c] tt =
    rmap (\<lambda>tt'. (of_nat (length (code_text c)), [], tt'))
      (print_text (code_text c) tt)"
proof (rule printk_items)
  let ?items = "map Lit (ascii ''Error code:'') @ [HexL c, Lit 10]"
  show "c_string (''Error code:%x'' @ [CHR 0x0A]) = concat (map item_fmt ?items) @ [0]" by (simp add: c_string_def)
  show "[c] = concat (map item_args ?items)" by simp
  show "\<forall>it \<in> set ?items. item_ok mem it" by simp
  show "code_text c = concat (map (item_text mem) ?items)" by (simp add: code_text_def)
  show "length (code_text c) < PRINTK_LEN"
    using length_hex[of c] by (simp add: code_text_def PRINTK_LEN_def)
qed (rule assms)

text \<open>A line of which \<^verbatim>\<open>printk\<close> is known, in front of others.\<close>

lemma print_lines_step:
  assumes "\<And>tt. printk mem junk fmt args tt = rmap (\<lambda>tt'. (n, st, tt')) (print_text t tt)"
  shows "print_lines mem junk ((fmt, args) # ls) = (\<lambda>tt. rbind (print_text t tt) (print_lines mem junk ls))"
proof
  fix tt
  show "print_lines mem junk ((fmt, args) # ls) tt = rbind (print_text t tt) (print_lines mem junk ls)"
    using assms by (cases "print_text t tt") simp_all
qed

lemma exception_screen_text:
  assumes "n < length err_msg" and "n \<noteq> 0xE" and "mem (msg n) = c_string (err_msg ! n)" and "PRINTK_LEN \<le> length junk"
  shows "exception_screen mem junk msg cr2 n err eip cs eflags tt =
    print_text (report_text (err_msg ! n) eip cs eflags (if err = 0xFFFFFFFF then None else Some err)) tt"
proof -
  note ls [unfolded append.simps] = print_lines_step[OF message_line[where mem = mem, OF assms(1,3,4)]]
    print_lines_step[OF registers_line[OF assms(4), where mem = mem]]
    print_lines_step[OF code_line[OF assms(4), where mem = mem]]
  have r: "rbind x Inr = x" for x :: "tty_state res" by (cases x) simp_all
  have nil: "print_lines mem junk [] = Inr" by (rule ext) simp
  have t: "report_text m eip cs eflags None = message_text m @ registers_text eip cs eflags"
    "report_text m eip cs eflags (Some c) = message_text m @ registers_text eip cs eflags @ code_text c" for m c
    by (simp_all add: report_text_def)
  have app: "print_text (xs @ ys) = (\<lambda>tt. rbind (print_text xs tt) (print_text ys))" for xs ys
    by (rule ext) (rule print_text_append)
  show ?thesis
    using assms(1,2)
    by (simp add: exception_screen_def exception_lines_def arr_get_def ls nil r t app
        del: print_lines.simps)
qed

subsection \<open>Property\<close>

text \<open>
  C39. Every exception that the interrupt table sends to a handler in C is reported: the handler that stands in the
  table at its vector prints the message of this vector, the flags, the code segment and the address of the frame,
  and then the error code exactly where the processor pushes one (the code 0xFFFFFFFF, which no exception has, would
  not be printed). Printing ends, and the handler then loops for ever.
\<close>

theorem exceptions_are_reported:
  assumes "(v, h, d) \<in> set idt_vectors" and "h \<notin> {Page_fault, Sys_call}"
    and "\<forall>n < length err_msg. mem (msg n) = c_string (err_msg ! n)" and "PRINTK_LEN \<le> length junk"
    and "tty_table tt \<noteq> []" and "console_ok 0 (con 0 tt)"
  shows "\<exists>err tt'. exception_call h code = Some (unat v, err) \<and>
    exception_screen mem junk msg cr2 (unat v) err eip cs eflags tt =
      print_text (report_text (err_msg ! unat v) eip cs eflags
        (if pushes_error_code v \<and> code \<noteq> 0xFFFFFFFF then Some code else None)) tt \<and>
    exception_screen mem junk msg cr2 (unat v) err eip cs eflags tt = Inr tt' \<and>
    exception_handler mem junk msg cr2 (unat v) err eip cs eflags tt = Inl Hang"
proof -
  define err where "err = (if pushes_error_code v then code else 0xFFFFFFFF)"
  have c: "exception_call h code = Some (unat v, err) \<and> unat v < 20 \<and> unat v \<noteq> 0xE"
    using assms(1,2) unfolding idt_vectors_def err_def pushes_error_code_def by auto
  have l: "length err_msg = 20" by (simp add: err_msg_def)
  have "exception_screen mem junk msg cr2 (unat v) err eip cs eflags tt =
      print_text (report_text (err_msg ! unat v) eip cs eflags (if err = 0xFFFFFFFF then None else Some err)) tt"
    using c assms(3,4) l by (intro exception_screen_text) simp_all
  moreover have "(if err = 0xFFFFFFFF then None else Some err) = (if pushes_error_code v \<and> code \<noteq> 0xFFFFFFFF then Some code else None)"
    by (simp add: err_def)
  moreover obtain tt' where "print_text (report_text (err_msg ! unat v) eip cs eflags
      (if pushes_error_code v \<and> code \<noteq> 0xFFFFFFFF then Some code else None)) tt = Inr tt'"
    using print_text_returns[OF assms(5,6)] by blast
  ultimately show ?thesis using c by (intro exI[of _ err] exI[of _ tt']) (simp add: exception_handler_def)
qed

text \<open>A general protection fault, with the selector 0x18 as its error code.\<close>

theorem exceptions_are_reported_witness:
  "\<exists>err tt'. exception_call General_protection 0x18 = Some (13, err) \<and>
    exception_screen (\<lambda>a. c_string (err_msg ! unat a)) (replicate 1024 0) of_nat 0 13 err 0xC0101234 0x8 0x202 three_ttys =
      print_text (report_text ''#GP General Protection'' 0xC0101234 0x8 0x202 (Some 0x18)) three_ttys \<and>
    exception_screen (\<lambda>a. c_string (err_msg ! unat a)) (replicate 1024 0) of_nat 0 13 err 0xC0101234 0x8 0x202 three_ttys = Inr tt'"
proof -
  have g: "(0xD, General_protection, PRIVILEGE_KRNL) \<in> set idt_vectors" by (simp add: idt_vectors_def)
  have m: "\<forall>n < length err_msg. (\<lambda>a. c_string (err_msg ! unat a)) (of_nat n :: u32) = c_string (err_msg ! n)"
    by (auto simp: err_msg_def unat_of_nat)
  have j: "PRINTK_LEN \<le> length (replicate 1024 0 :: u8 list)" by (simp add: PRINTK_LEN_def)
  have t: "tty_table three_ttys \<noteq> []" "console_ok 0 (con 0 three_ttys)" using three_ttys_ok[of 0] by auto
  have e: "err_msg ! 13 = ''#GP General Protection''" by (simp add: err_msg_def)
  obtain err tt' where w: "exception_call General_protection 0x18 = Some (unat (0xD :: u8), err)"
    "exception_screen (\<lambda>a. c_string (err_msg ! unat a)) (replicate 1024 0) of_nat 0 (unat (0xD :: u8)) err 0xC0101234 0x8 0x202 three_ttys =
      print_text (report_text (err_msg ! unat (0xD :: u8)) 0xC0101234 0x8 0x202
        (if pushes_error_code 0xD \<and> (0x18 :: u32) \<noteq> 0xFFFFFFFF then Some 0x18 else None)) three_ttys"
    "exception_screen (\<lambda>a. c_string (err_msg ! unat a)) (replicate 1024 0) of_nat 0 (unat (0xD :: u8)) err 0xC0101234 0x8 0x202 three_ttys = Inr tt'"
    using exceptions_are_reported[OF g _ m j t] by blast
  then show ?thesis by (intro exI[of _ err] exI[of _ tt']) (simp add: pushes_error_code_def e)
qed

end
