(* ===== verification/ArpTable.thy ===== *)
theory ArpTable
  imports Prelude
begin

text \<open>
  The address table of net/arp.c: an array of buckets, each an entry stored inline and a
  chain of further entries. Chain nodes are reached from their bucket only, so a bucket is
  its inline entry and the list of its chain nodes. Pointers handed out by \<^verbatim>\<open>hash_get\<close> are
  read at once by the callers and are modelled by the bytes they point to.
\<close>

unbundle bit_operations_syntax

subsection \<open>Data\<close>

record hash_entry =
  e_ip :: u32
  e_mac :: "u8 list"

type_synonym bucket = "hash_entry \<times> hash_entry list"

text \<open>\<^verbatim>\<open>map->list\<close> is null (\<open>None\<close>) after \<^verbatim>\<open>hash_clear\<close>.\<close>

record hash_map =
  hm_size :: int
  hm_list_size :: int
  hm_list :: "bucket list option"

definition zero_entry :: hash_entry where
  "zero_entry = \<lparr>e_ip = 0, e_mac = replicate 6 0\<rparr>"

definition arp_init :: hash_map where
  "arp_init = \<lparr>hm_size = 0, hm_list_size = 10, hm_list = Some (replicate 10 (zero_entry, []))\<rparr>"

subsection \<open>Operations\<close>

text \<open>\<^verbatim>\<open>ip % map->list_size\<close>: the signed divisor is converted to unsigned.\<close>

definition hash_code :: "hash_map \<Rightarrow> u32 \<Rightarrow> u32 res" where
  "hash_code m ip =
     (if (of_int (hm_list_size m) :: u32) = 0 then Inl DivError
      else Inr (ip mod of_int (hm_list_size m)))"

text \<open>The body of \<^verbatim>\<open>hash_put\<close> on the selected bucket: the new bucket and the growth of \<^verbatim>\<open>size\<close>.\<close>

definition bucket_put :: "bucket \<Rightarrow> u32 \<Rightarrow> u8 list \<Rightarrow> bucket \<times> int" where
  "bucket_put b ip mac =
     (case b of (h0, chain) \<Rightarrow>
        if e_ip h0 = 0 then ((h0\<lparr>e_ip := ip, e_mac := mac\<rparr>, chain), 1)
        else if list_ex (\<lambda>e. e_ip e = ip) (h0 # chain) then ((h0\<lparr>e_mac := mac\<rparr>, chain), 0)
        else ((h0, \<lparr>e_ip = ip, e_mac = mac\<rparr> # chain), 1))"

definition hash_put :: "hash_map \<Rightarrow> u32 \<Rightarrow> u8 list \<Rightarrow> hash_map res" where
  "hash_put m ip mac =
     rbind (hash_code m ip) (\<lambda>index.
       case hm_list m of
         None \<Rightarrow> Inl NullDeref
       | Some bs \<Rightarrow>
           rbind (arr_get bs (unat index)) (\<lambda>b.
             case bucket_put b ip mac of (b', grow) \<Rightarrow>
               Inr (m\<lparr>hm_size := hm_size m + grow, hm_list := Some (bs[unat index := b'])\<rparr>)))"

text \<open>
  The walk of \<^verbatim>\<open>hash_get\<close> stops at a free or a matching entry; it does not test the next
  pointer for null.
\<close>

fun bucket_get :: "hash_entry list \<Rightarrow> u32 \<Rightarrow> u8 list option res" where
  "bucket_get [] ip = Inl NullDeref"
| "bucket_get (e # es) ip =
     (if e_ip e \<noteq> 0 \<and> ip \<noteq> e_ip e then bucket_get es ip
      else if e_ip e = 0 then Inr None
      else Inr (Some (e_mac e)))"

definition hash_get :: "hash_map \<Rightarrow> u32 \<Rightarrow> u8 list option res" where
  "hash_get m ip =
     rbind (hash_code m ip) (\<lambda>index.
       case hm_list m of
         None \<Rightarrow> Inl NullDeref
       | Some bs \<Rightarrow>
           rbind (arr_get bs (unat index)) (\<lambda>b.
             case b of (h0, chain) \<Rightarrow> bucket_get (h0 # chain) ip))"

fun chain_unlink :: "hash_entry list \<Rightarrow> u32 \<Rightarrow> hash_entry list \<times> int" where
  "chain_unlink [] ip = ([], 0)"
| "chain_unlink (e # es) ip =
     (if e_ip e = ip then (es, -1)
      else case chain_unlink es ip of (es', d) \<Rightarrow> (e # es', d))"

definition bucket_remove :: "bucket \<Rightarrow> u32 \<Rightarrow> bucket \<times> int" where
  "bucket_remove b ip =
     (case b of (h0, chain) \<Rightarrow>
        if e_ip h0 = 0 then ((h0, chain), 0)
        else if e_ip h0 = ip then
          (case chain of
             temp # rest \<Rightarrow> ((h0\<lparr>e_ip := e_ip temp, e_mac := e_mac temp\<rparr>, rest), -1)
           | [] \<Rightarrow> ((h0\<lparr>e_ip := 0, e_mac := replicate 6 0\<rparr>, []), -1))
        else case chain_unlink chain ip of (chain', d) \<Rightarrow> ((h0, chain'), d))"

definition hash_remove :: "hash_map \<Rightarrow> u32 \<Rightarrow> hash_map res" where
  "hash_remove m ip =
     rbind (hash_code m ip) (\<lambda>index.
       case hm_list m of
         None \<Rightarrow> Inl NullDeref
       | Some bs \<Rightarrow>
           rbind (arr_get bs (unat index)) (\<lambda>b.
             case bucket_remove b ip of (b', grow) \<Rightarrow>
               Inr (m\<lparr>hm_size := hm_size m + grow, hm_list := Some (bs[unat index := b'])\<rparr>)))"

text \<open>
  \<^verbatim>\<open>hash_clear(arp_map)\<close>, the only table there is: the ten inline entries are zeroed and then
  the table drops its pointer to them.
\<close>

definition hash_clear :: "hash_map \<Rightarrow> hash_map res" where
  "hash_clear m =
     (case hm_list m of
        None \<Rightarrow> Inl NullDeref
      | Some bs \<Rightarrow> Inr (m\<lparr>hm_list := None, hm_size := 0\<rparr>))"

subsection \<open>What a table means\<close>

definition entries :: "bucket \<Rightarrow> hash_entry list" where
  "entries b = (case b of (h0, chain) \<Rightarrow> if e_ip h0 = 0 then [] else h0 # chain)"

definition find_entry :: "hash_entry list \<Rightarrow> u32 \<Rightarrow> u8 list option" where
  "find_entry es ip = map_option e_mac (find (\<lambda>e. e_ip e = ip) es)"

definition slot :: "bucket list \<Rightarrow> u32 \<Rightarrow> nat" where
  "slot bs ip = unat ip mod length bs"

definition hm_look :: "hash_map \<Rightarrow> u32 \<Rightarrow> u8 list option" where
  "hm_look m ip = (case hm_list m of None \<Rightarrow> None | Some bs \<Rightarrow> find_entry (entries (bs ! slot bs ip)) ip)"

definition bucket_ok :: "nat \<Rightarrow> nat \<Rightarrow> bucket \<Rightarrow> bool" where
  "bucket_ok n i b \<longleftrightarrow>
     (e_ip (fst b) = 0 \<longrightarrow> snd b = []) \<and>
     (\<forall>e \<in> set (entries b). e_ip e \<noteq> 0 \<and> unat (e_ip e) mod n = i \<and> length (e_mac e) = 6) \<and>
     distinct (map e_ip (entries b))"

definition hm_inv :: "hash_map \<Rightarrow> bool" where
  "hm_inv m \<longleftrightarrow>
     (\<exists>bs. hm_list m = Some bs \<and> hm_list_size m = int (length bs) \<and> 0 < length bs
        \<and> length bs < 2147483648
        \<and> (\<forall>i < length bs. bucket_ok (length bs) i (bs ! i))
        \<and> hm_size m = (\<Sum>b\<leftarrow>bs. int (length (entries b))))"

lemma hm_invE:
  assumes "hm_inv m"
  obtains bs where "hm_list m = Some bs" "hm_list_size m = int (length bs)" "0 < length bs"
    "length bs < 2147483648" "\<And>i. i < length bs \<Longrightarrow> bucket_ok (length bs) i (bs ! i)"
    "hm_size m = (\<Sum>b\<leftarrow>bs. int (length (entries b)))"
  using assms by (auto simp: hm_inv_def)

lemma slot_less: "0 < length bs \<Longrightarrow> slot bs ip < length bs"
  by (simp add: slot_def)

lemma hash_code_slot:
  assumes "hm_list_size m = int (length bs)" "0 < length bs" "length bs < 2147483648"
  shows "\<exists>w. hash_code m ip = Inr w \<and> unat w = slot bs ip"
proof -
  have u: "unat (of_nat (length bs) :: u32) = length bs"
    using assms by (simp add: unat_of_nat)
  then have "(of_nat (length bs) :: u32) \<noteq> 0" using assms(2) by (metis unat_0 less_irrefl)
  then show ?thesis using assms(1) u by (simp add: hash_code_def slot_def unat_mod)
qed

lemma sum_list_update:
  fixes f :: "'a \<Rightarrow> int"
  assumes "i < length xs"
  shows "(\<Sum>x\<leftarrow>xs[i := y]. f x) = (\<Sum>x\<leftarrow>xs. f x) + f y - f (xs ! i)"
  using assms
proof (induction xs arbitrary: i)
  case (Cons a xs)
  then show ?case by (cases i) auto
qed simp

text \<open>Replacing the bucket of \<open>ip\<close> by one that answers for \<open>ip\<close> alone differently.\<close>

lemma replace_bucket:
  assumes inv: "hm_inv m" and l: "hm_list m = Some bs"
    and ok: "bucket_ok (length bs) (slot bs ip) b'"
    and grow: "int (length (entries b')) = int (length (entries (bs ! slot bs ip))) + d"
    and ans: "\<And>k. find_entry (entries b') k =
                   (if k = ip then v else find_entry (entries (bs ! slot bs ip)) k)"
  shows "hm_inv (m\<lparr>hm_size := hm_size m + d, hm_list := Some (bs[slot bs ip := b'])\<rparr>)
     \<and> hm_look (m\<lparr>hm_size := hm_size m + d, hm_list := Some (bs[slot bs ip := b'])\<rparr>)
        = (hm_look m)(ip := v)"
proof
  obtain "hm_list_size m = int (length bs)" "0 < length bs" "length bs < 2147483648"
    "hm_size m = (\<Sum>b\<leftarrow>bs. int (length (entries b)))"
    and oks: "\<And>i. i < length bs \<Longrightarrow> bucket_ok (length bs) i (bs ! i)"
    using inv l by (auto elim!: hm_invE)
  then show "hm_inv (m\<lparr>hm_size := hm_size m + d, hm_list := Some (bs[slot bs ip := b'])\<rparr>)"
    using ok grow
    by (auto simp: hm_inv_def nth_list_update slot_less sum_list_update)
  show "hm_look (m\<lparr>hm_size := hm_size m + d, hm_list := Some (bs[slot bs ip := b'])\<rparr>)
        = (hm_look m)(ip := v)"
  proof
    fix k
    show "hm_look (m\<lparr>hm_size := hm_size m + d, hm_list := Some (bs[slot bs ip := b'])\<rparr>) k
        = ((hm_look m)(ip := v)) k"
      using l ans \<open>0 < length bs\<close>
      by (auto simp: hm_look_def slot_def nth_list_update)
  qed
qed


subsection \<open>One bucket\<close>

lemma find_entry_simps [simp]:
  "find_entry [] k = None"
  "find_entry (e # es) k = (if e_ip e = k then Some (e_mac e) else find_entry es k)"
  by (simp_all add: find_entry_def)

lemma find_entry_None_iff: "find_entry es k = None \<longleftrightarrow> k \<notin> e_ip ` set es"
  by (induction es) auto

lemma entries_simps [simp]:
  "entries (h0, ch) = (if e_ip h0 = 0 then [] else h0 # ch)"
  by (simp add: entries_def)

definition entry_ok :: "nat \<Rightarrow> nat \<Rightarrow> hash_entry \<Rightarrow> bool" where
  "entry_ok n i e \<longleftrightarrow> e_ip e \<noteq> 0 \<and> unat (e_ip e) mod n = i \<and> length (e_mac e) = 6"

lemma bucket_ok_pair:
  "bucket_ok n i (h0, ch) \<longleftrightarrow>
     (if e_ip h0 = 0 then ch = []
      else entry_ok n i h0 \<and> (\<forall>e \<in> set ch. entry_ok n i e)
        \<and> e_ip h0 \<notin> e_ip ` set ch \<and> distinct (map e_ip ch))"
  by (auto simp: bucket_ok_def entry_ok_def)

lemma bucket_put_fresh:
  assumes ok: "bucket_ok n i b" and ip: "ip \<noteq> 0" "unat ip mod n = i" "length mac = 6"
    and fresh: "find_entry (entries b) ip = None"
    and b': "bucket_put b ip mac = (b', d)"
  shows "bucket_ok n i b' \<and> d = 1 \<and> length (entries b') = Suc (length (entries b))
     \<and> find_entry (entries b') k = (if k = ip then Some mac else find_entry (entries b) k)"
proof (cases b)
  case (Pair h0 ch)
  show ?thesis
  proof (cases "e_ip h0 = 0")
    case True
    then have "b' = (\<lparr>e_ip = ip, e_mac = mac\<rparr>, [])" "d = 1" "ch = []"
      using ok b' Pair by (auto simp: bucket_put_def bucket_ok_pair)
    then show ?thesis using True ip Pair by (simp add: bucket_ok_pair entry_ok_def)
  next
    case False
    then have no: "ip \<notin> e_ip ` set (h0 # ch)" using fresh Pair by (simp add: find_entry_None_iff split: if_splits)
    then have "\<not> list_ex (\<lambda>e. e_ip e = ip) (h0 # ch)" by (auto simp: list_ex_iff)
    then have "b' = (h0, \<lparr>e_ip = ip, e_mac = mac\<rparr> # ch)" "d = 1"
      using False b' Pair by (simp_all add: bucket_put_def)
    then show ?thesis using False no ip ok Pair by (auto simp: bucket_ok_pair entry_ok_def)
  qed
qed

lemma bucket_put_head:
  assumes ok: "bucket_ok n i (h0, ch)" and ip: "ip \<noteq> 0" "length mac = 6" "e_ip h0 = ip"
    and b': "bucket_put (h0, ch) ip mac = (b', d)"
  shows "bucket_ok n i b' \<and> d = 0 \<and> length (entries b') = length (entries (h0, ch))
     \<and> find_entry (entries b') k = (if k = ip then Some mac else find_entry (entries (h0, ch)) k)"
proof -
  have "b' = (h0\<lparr>e_mac := mac\<rparr>, ch)" "d = 0" using ip b' by (auto simp: bucket_put_def)
  then show ?thesis using ip ok by (auto simp: bucket_ok_pair entry_ok_def)
qed

text \<open>An address found in the chain: the new hardware address goes to the head entry.\<close>

lemma bucket_put_chain:
  assumes "e_ip h0 \<noteq> 0" "e_ip h0 \<noteq> ip" "ip \<in> e_ip ` set ch"
  shows "bucket_put (h0, ch) ip mac = ((h0\<lparr>e_mac := mac\<rparr>, ch), 0)"
  using assms by (auto simp: bucket_put_def list_ex_iff)

lemma bucket_get_entries:
  "\<forall>e \<in> set es. e_ip e \<noteq> 0 \<Longrightarrow>
   bucket_get es ip = (case find_entry es ip of None \<Rightarrow> Inl NullDeref | Some mac \<Rightarrow> Inr (Some mac))"
  by (induction es) auto

lemma chain_unlink_absent: "ip \<notin> e_ip ` set es \<Longrightarrow> chain_unlink es ip = (es, 0)"
  by (induction es) auto

lemma filter_key_absent: "ip \<notin> e_ip ` set es \<Longrightarrow> filter (\<lambda>e. e_ip e \<noteq> ip) es = es"
  by (induction es) auto

lemma chain_unlink_eq:
  "distinct (map e_ip es) \<Longrightarrow>
   chain_unlink es ip =
     (filter (\<lambda>e. e_ip e \<noteq> ip) es, if ip \<in> e_ip ` set es then -1 else 0)"
proof (induction es)
  case (Cons e es)
  then show ?case by (cases "e_ip e = ip") (auto simp: filter_key_absent)
qed simp

lemma find_entry_filter:
  "find_entry (filter (\<lambda>e. e_ip e \<noteq> ip) es) k = (if k = ip then None else find_entry es k)"
  by (induction es) auto

lemma length_filter_key:
  "distinct (map e_ip es) \<Longrightarrow>
   int (length (filter (\<lambda>e. e_ip e \<noteq> ip) es)) =
     int (length es) + (if ip \<in> e_ip ` set es then -1 else 0)"
proof (induction es)
  case (Cons e es)
  show ?case
  proof (cases "e_ip e = ip")
    case True
    then have "ip \<notin> e_ip ` set es" using Cons.prems by auto
    then show ?thesis using True by (simp add: filter_key_absent)
  next
    case False
    then show ?thesis using Cons by simp
  qed
qed simp

lemma distinct_map_filter_key:
  "distinct (map e_ip es) \<Longrightarrow> distinct (map e_ip (filter P es))"
  by (induction es) auto

lemma bucket_remove_ok:
  assumes ok: "bucket_ok n i b" and b': "bucket_remove b ip = (b', d)"
  shows "bucket_ok n i b' \<and> int (length (entries b')) = int (length (entries b)) + d
     \<and> find_entry (entries b') k = (if k = ip then None else find_entry (entries b) k)"
proof (cases b)
  case (Pair h0 ch)
  consider "e_ip h0 = 0" | "e_ip h0 \<noteq> 0" "e_ip h0 = ip" "ch = []"
    | t r where "e_ip h0 \<noteq> 0" "e_ip h0 = ip" "ch = t # r"
    | "e_ip h0 \<noteq> 0" "e_ip h0 \<noteq> ip" by (cases ch) auto
  then show ?thesis
  proof cases
    case 2
    then have "b' = (h0\<lparr>e_ip := 0, e_mac := replicate 6 0\<rparr>, [])" "d = -1"
      using b' Pair by (simp_all add: bucket_remove_def)
    then show ?thesis using 2 Pair by (simp add: bucket_ok_pair)
  next
    case (3 t r)
    have "h0\<lparr>e_ip := e_ip t, e_mac := e_mac t\<rparr> = t"
      by (cases h0, cases t) simp
    with 3 have e: "b' = (t, r)" "d = -1" and t0: "e_ip t \<noteq> 0"
      using b' ok Pair by (auto simp: bucket_remove_def bucket_ok_pair entry_ok_def)
    have "find_entry (entries b) ip \<noteq> None" "find_entry (t # r) ip = None"
      using 3 ok Pair by (auto simp: bucket_ok_pair find_entry_None_iff)
    then show ?thesis using 3 e t0 ok Pair by (auto simp: bucket_ok_pair)
  next
    case 4
    then have di: "distinct (map e_ip ch)" using ok Pair by (simp add: bucket_ok_pair)
    have e: "b' = (h0, filter (\<lambda>e. e_ip e \<noteq> ip) ch)" "d = (if ip \<in> e_ip ` set ch then -1 else 0)"
      using 4 b' Pair by (simp_all add: bucket_remove_def chain_unlink_eq[OF di])
    have "bucket_ok n i b'"
      using 4 e(1) ok Pair di by (auto simp: bucket_ok_pair distinct_map_filter_key)
    moreover have "int (length (entries b')) = int (length (entries b)) + d"
      using 4 e Pair length_filter_key[OF di, of ip] by simp
    moreover have "find_entry (entries b') k = (if k = ip then None else find_entry (entries b) k)"
      using 4 e(1) Pair by (simp add: find_entry_filter)
    ultimately show ?thesis by blast
  qed (use ok b' Pair in \<open>auto simp: bucket_remove_def\<close>)
qed

subsection \<open>The table operations\<close>

lemma hm_invE_slot:
  assumes "hm_inv m"
  obtains bs w where "hm_list m = Some bs" "hash_code m ip = Inr w" "unat w = slot bs ip"
    "slot bs ip < length bs" "bucket_ok (length bs) (slot bs ip) (bs ! slot bs ip)"
    "hm_look m ip = find_entry (entries (bs ! slot bs ip)) ip"
proof -
  obtain bs where bs: "hm_list m = Some bs" "hm_list_size m = int (length bs)" "0 < length bs"
    "length bs < 2147483648" and oks: "\<And>i. i < length bs \<Longrightarrow> bucket_ok (length bs) i (bs ! i)"
    using assms by (auto elim: hm_invE)
  obtain w where "hash_code m ip = Inr w" "unat w = slot bs ip"
    using hash_code_slot bs by blast
  then show ?thesis using bs oks by (intro that) (simp_all add: slot_less hm_look_def)
qed

lemma hash_put_fresh:
  assumes inv: "hm_inv m" and ip: "ip \<noteq> 0" "length mac = 6" and no: "hm_look m ip = None"
  shows "\<exists>m'. hash_put m ip mac = Inr m' \<and> hm_inv m' \<and> hm_look m' = (hm_look m)(ip \<mapsto> mac)
     \<and> hm_size m' = hm_size m + 1"
proof -
  obtain bs w where bs: "hm_list m = Some bs" "hash_code m ip = Inr w" "unat w = slot bs ip"
    "slot bs ip < length bs" and ok: "bucket_ok (length bs) (slot bs ip) (bs ! slot bs ip)"
    and lk: "hm_look m ip = find_entry (entries (bs ! slot bs ip)) ip"
    using inv by (rule hm_invE_slot)
  obtain b' d where b': "bucket_put (bs ! slot bs ip) ip mac = (b', d)" by fastforce
  have p: "bucket_ok (length bs) (slot bs ip) b' \<and> d = 1
      \<and> length (entries b') = Suc (length (entries (bs ! slot bs ip)))
      \<and> find_entry (entries b') k = (if k = ip then Some mac else find_entry (entries (bs ! slot bs ip)) k)" for k
    by (rule bucket_put_fresh[OF ok ip(1) _ ip(2) _ b']) (use no lk in \<open>simp_all add: slot_def\<close>)
  have "hash_put m ip mac = Inr (m\<lparr>hm_size := hm_size m + d, hm_list := Some (bs[slot bs ip := b'])\<rparr>)"
    by (simp add: hash_put_def bs b')
  then show ?thesis using replace_bucket[OF inv bs(1), of ip b' d "Some mac"] p by simp
qed

lemma hash_get_look:
  assumes inv: "hm_inv m" and lk: "hm_look m ip = Some mac"
  shows "hash_get m ip = Inr (Some mac)"
proof -
  obtain bs w where bs: "hm_list m = Some bs" "hash_code m ip = Inr w" "unat w = slot bs ip"
    "slot bs ip < length bs" and ok: "bucket_ok (length bs) (slot bs ip) (bs ! slot bs ip)"
    and lk': "hm_look m ip = find_entry (entries (bs ! slot bs ip)) ip"
    using inv by (rule hm_invE_slot)
  obtain h0 ch where b: "bs ! slot bs ip = (h0, ch)" by fastforce
  have h: "e_ip h0 \<noteq> 0" "find_entry (h0 # ch) ip = Some mac"
    using lk lk' b by (simp_all split: if_splits)
  then have "\<forall>e \<in> set (h0 # ch). e_ip e \<noteq> 0"
    using ok b by (auto simp: bucket_ok_pair entry_ok_def)
  then have "bucket_get (h0 # ch) ip = Inr (Some mac)"
    using h(2) bucket_get_entries[of "h0 # ch" ip] by simp
  then show ?thesis by (simp add: hash_get_def bs b)
qed

text \<open>A miss ends well in an empty bucket only: the walk has no test for the end of the chain.\<close>

lemma hash_get_absent:
  assumes inv: "hm_inv m" and bs': "hm_list m = Some bs" and no: "hm_look m ip = None"
  shows "hash_get m ip =
    (if entries (bs ! slot bs ip) = [] then Inr None else Inl NullDeref)"
proof -
  obtain w where bs: "hash_code m ip = Inr w" "unat w = slot bs ip"
    "slot bs ip < length bs" and ok: "bucket_ok (length bs) (slot bs ip) (bs ! slot bs ip)"
    and lk: "hm_look m ip = find_entry (entries (bs ! slot bs ip)) ip"
    using inv by (rule hm_invE_slot[where ip = ip]) (simp add: bs')
  obtain h0 ch where b: "bs ! slot bs ip = (h0, ch)" by fastforce
  have "bucket_get (h0 # ch) ip = (if e_ip h0 = 0 then Inr None else Inl NullDeref)"
  proof (cases "e_ip h0 = 0")
    case False
    then have "\<forall>e \<in> set (h0 # ch). e_ip e \<noteq> 0" "find_entry (h0 # ch) ip = None"
      using ok b no lk by (auto simp: bucket_ok_pair entry_ok_def)
    then show ?thesis using False bucket_get_entries[of "h0 # ch" ip] by simp
  qed simp
  then show ?thesis by (simp add: hash_get_def bs bs' b)
qed

lemma hash_remove_ok:
  assumes inv: "hm_inv m"
  shows "\<exists>m'. hash_remove m ip = Inr m' \<and> hm_inv m' \<and> hm_look m' = (hm_look m)(ip := None)"
proof -
  obtain bs w where bs: "hm_list m = Some bs" "hash_code m ip = Inr w" "unat w = slot bs ip"
    "slot bs ip < length bs" and ok: "bucket_ok (length bs) (slot bs ip) (bs ! slot bs ip)"
    using inv by (rule hm_invE_slot)
  obtain b' d where b': "bucket_remove (bs ! slot bs ip) ip = (b', d)" by fastforce
  have "hash_remove m ip = Inr (m\<lparr>hm_size := hm_size m + d, hm_list := Some (bs[slot bs ip := b'])\<rparr>)"
    by (simp add: hash_remove_def bs b')
  then show ?thesis
    using replace_bucket[OF inv bs(1), of ip b' d None] bucket_remove_ok[OF ok b'] by simp
qed

lemma hm_inv_init: "hm_inv arp_init"
  unfolding hm_inv_def
  by (rule exI[of _ "replicate 10 (zero_entry, [])"])
     (simp add: arp_init_def bucket_ok_def zero_entry_def sum_list_replicate)

lemma hm_look_init [simp]: "hm_look arp_init = Map.empty"
  by (rule ext) (simp add: hm_look_def arp_init_def slot_def zero_entry_def)

subsection \<open>The contract of an address table\<close>

text \<open>Learning a list of pairs in order, stopping at the first fault.\<close>

fun put_all :: "('t \<Rightarrow> 'k \<Rightarrow> 'v \<Rightarrow> 't res) \<Rightarrow> 't \<Rightarrow> ('k \<times> 'v) list \<Rightarrow> 't res" where
  "put_all put t [] = Inr t"
| "put_all put t ((k, v) # kvs) = rbind (put t k v) (\<lambda>t'. put_all put t' kvs)"

locale address_table =
  fixes inv :: "'t \<Rightarrow> bool" and look :: "'t \<Rightarrow> 'k \<Rightarrow> 'v option" and admit :: "'k \<Rightarrow> 'v \<Rightarrow> bool"
    and put :: "'t \<Rightarrow> 'k \<Rightarrow> 'v \<Rightarrow> 't res" and get :: "'t \<Rightarrow> 'k \<Rightarrow> 'v option res"
    and del :: "'t \<Rightarrow> 'k \<Rightarrow> 't res"
  assumes put_new: "\<lbrakk>inv t; admit k v; look t k = None\<rbrakk> \<Longrightarrow>
      \<exists>t'. put t k v = Inr t' \<and> inv t' \<and> look t' = (look t)(k \<mapsto> v)"
    and get_hit: "\<lbrakk>inv t; look t k = Some v\<rbrakk> \<Longrightarrow> get t k = Inr (Some v)"
    and del_ok: "inv t \<Longrightarrow> \<exists>t'. del t k = Inr t' \<and> inv t' \<and> look t' = (look t)(k := None)"
begin

lemma put_all_new:
  "\<lbrakk>inv t; distinct (map fst kvs); \<forall>(k, v) \<in> set kvs. admit k v \<and> look t k = None\<rbrakk> \<Longrightarrow>
   \<exists>t'. put_all put t kvs = Inr t' \<and> inv t' \<and> look t' = look t ++ map_of kvs"
proof (induction kvs arbitrary: t)
  case (Cons kv kvs)
  obtain k v where kv: "kv = (k, v)" by fastforce
  obtain t1 where t1: "put t k v = Inr t1" "inv t1" "look t1 = (look t)(k \<mapsto> v)"
    using put_new[of t k v] Cons.prems kv by auto
  have k: "k \<notin> fst ` set kvs" using Cons.prems(2) kv by simp
  have "\<forall>(k', v') \<in> set kvs. admit k' v' \<and> look t1 k' = None"
    using Cons.prems(3) k t1(3) by (force simp: kv)
  then obtain t' where t': "put_all put t1 kvs = Inr t'" "inv t'" "look t' = look t1 ++ map_of kvs"
    using Cons.IH[of t1] Cons.prems(2) t1(2) kv by auto
  have "map_of kvs k = None" using k by (simp add: map_of_eq_None_iff)
  then have "look t' = look t ++ map_of (kv # kvs)"
    unfolding t'(3) t1(3) kv by (auto simp: map_add_def fun_eq_iff split: option.splits)
  moreover have "put_all put t (kv # kvs) = Inr t'" using t' t1(1) kv by simp
  ultimately show ?case using t'(2) by blast
qed auto

lemma learned_found:
  assumes "inv t" "distinct (map fst kvs)" "\<forall>(k, v) \<in> set kvs. admit k v \<and> look t k = None"
  shows "\<exists>t'. put_all put t kvs = Inr t' \<and> inv t' \<and> (\<forall>(k, v) \<in> set kvs. get t' k = Inr (Some v))"
proof -
  obtain t' where t': "put_all put t kvs = Inr t'" "inv t'" "look t' = look t ++ map_of kvs"
    using put_all_new[OF assms] by blast
  have g: "get t' k = Inr (Some v)" if "(k, v) \<in> set kvs" for k v
  proof (rule get_hit[OF t'(2)])
    show "look t' k = Some v"
      using that assms(2) by (simp add: t'(3) map_add_Some_iff)
  qed
  show ?thesis by (rule exI[of _ t']) (use t' g in \<open>simp add: split_beta\<close>)
qed

text \<open>The way to change a mapping that always works: remove the key, then put it.\<close>

lemma replace_found:
  assumes "inv t" "admit k v"
  shows "\<exists>t' t''. del t k = Inr t' \<and> put t' k v = Inr t'' \<and> inv t'' \<and> look t'' = (look t)(k \<mapsto> v)
     \<and> get t'' k = Inr (Some v)"
proof -
  obtain t' where t': "del t k = Inr t'" "inv t'" "look t' = (look t)(k := None)"
    using del_ok[OF assms(1)] by blast
  then obtain t'' where t'': "put t' k v = Inr t''" "inv t''" "look t'' = (look t')(k \<mapsto> v)"
    using put_new[of t' k v] assms(2) by auto
  then show ?thesis using t' get_hit[of t'' k v] by auto
qed

end

definition admit_pair :: "u32 \<Rightarrow> u8 list \<Rightarrow> bool" where
  "admit_pair ip mac \<longleftrightarrow> ip \<noteq> 0 \<and> length mac = 6"

interpretation arp: address_table hm_inv hm_look admit_pair hash_put hash_get hash_remove
proof unfold_locales
  show "\<exists>t'. hash_put t k v = Inr t' \<and> hm_inv t' \<and> hm_look t' = (hm_look t)(k \<mapsto> v)"
    if "hm_inv t" "admit_pair k v" "hm_look t k = None" for t k v
    using that hash_put_fresh[of t k v] by (auto simp: admit_pair_def)
qed (auto intro: hash_get_look hash_remove_ok)

subsection \<open>Properties\<close>

text \<open>
  C26. Starting from the table that \<^verbatim>\<open>arp_init\<close> builds, any number of pairs with distinct
  non-zero addresses can be learned with \<^verbatim>\<open>hash_put\<close>, in any order and whatever buckets they
  collide in, and afterwards \<^verbatim>\<open>hash_get\<close> finds for each address exactly its hardware address.
\<close>

theorem arp_learned_addresses_found:
  assumes "distinct (map fst kvs)" and "\<forall>(ip, mac) \<in> set kvs. ip \<noteq> 0 \<and> length mac = 6"
  shows "\<exists>m. put_all hash_put arp_init kvs = Inr m
     \<and> (\<forall>(ip, mac) \<in> set kvs. hash_get m ip = Inr (Some mac))"
  using arp.learned_found[OF hm_inv_init assms(1)] assms(2) by (auto simp: admit_pair_def)

theorem arp_learned_addresses_found_witness:
  "\<exists>m. put_all hash_put arp_init [(10, [1,1,1,1,1,1]), (20, [2,2,2,2,2,2])] = Inr m
     \<and> hash_get m 10 = Inr (Some [1,1,1,1,1,1]) \<and> hash_get m 20 = Inr (Some [2,2,2,2,2,2])"
  using arp_learned_addresses_found[of "[(10, [1,1,1,1,1,1]), (20, [2,2,2,2,2,2])]"] by simp

text \<open>
  \<^verbatim>\<open>hash_remove\<close> refines the deletion of a key from a map: on a well-formed table it
  returns a well-formed table in which the removed address is unknown and every other
  address is what it was, also when it unlinks the inline head or a chain node.
\<close>

theorem hash_remove_refines_deletion:
  assumes "hm_inv m"
  shows "\<exists>m'. hash_remove m ip = Inr m' \<and> hm_inv m' \<and> hm_look m' = (hm_look m)(ip := None)"
  using assms by (rule hash_remove_ok)

theorem hash_remove_refines_deletion_witness:
  "\<exists>m'. hash_remove arp_init 10 = Inr m' \<and> hm_inv m' \<and> hm_look m' = Map.empty(10 := None)"
  using hash_remove_refines_deletion[OF hm_inv_init, of 10] by simp

text \<open>
  Learning an address that is already in the chain of its bucket (not in the inline
  head) does not update it: its old hardware address stays, and the new one is written over
  the hardware address of the head, which belongs to another address.
\<close>

theorem hash_put_overwrites_head_of_chain:
  assumes "hm_inv m" and "hm_list m = Some bs" and "bs ! slot bs ip = (h0, ch)"
    and "ip \<in> e_ip ` set ch" and "length mac = 6"
  shows "\<exists>m'. hash_put m ip mac = Inr m' \<and> hm_look m' ip = hm_look m ip
     \<and> e_ip h0 \<noteq> ip \<and> hm_look m' (e_ip h0) = Some mac"
proof -
  obtain w where w: "hash_code m ip = Inr w" "unat w = slot bs ip" "slot bs ip < length bs"
    and ok: "bucket_ok (length bs) (slot bs ip) (h0, ch)"
    using assms(1) by (rule hm_invE_slot[where ip = ip]) (use assms(2,3) in auto)
  have h: "e_ip h0 \<noteq> 0" "e_ip h0 \<noteq> ip" "slot bs (e_ip h0) = slot bs ip"
    using ok assms(4) by (auto simp: bucket_ok_pair entry_ok_def slot_def split: if_splits)
  then have "hash_put m ip mac
     = Inr (m\<lparr>hm_size := hm_size m + 0, hm_list := Some (bs[slot bs ip := (h0\<lparr>e_mac := mac\<rparr>, ch)])\<rparr>)"
    using bucket_put_chain[OF h(1,2) assms(4)] w assms(2,3) by (simp add: hash_put_def)
  then show ?thesis using h w assms(2,3) by (simp add: hm_look_def slot_def)
qed

definition two_in_bucket :: hash_map where
  "two_in_bucket = \<lparr>hm_size = 2, hm_list_size = 1, hm_list =
     Some [(\<lparr>e_ip = 20, e_mac = [2,2,2,2,2,2]\<rparr>, [\<lparr>e_ip = 10, e_mac = [1,1,1,1,1,1]\<rparr>])]\<rparr>"

theorem hash_put_overwrites_head_of_chain_witness:
  "\<exists>m'. hash_put two_in_bucket 10 [9,9,9,9,9,9] = Inr m' \<and> hm_look m' 10 = Some [1,1,1,1,1,1]
     \<and> hm_look m' 20 = Some [9,9,9,9,9,9]"
  using hash_put_overwrites_head_of_chain[of two_in_bucket
      "[(\<lparr>e_ip = 20, e_mac = [2,2,2,2,2,2]\<rparr>, [\<lparr>e_ip = 10, e_mac = [1,1,1,1,1,1]\<rparr>])]" 10
      "\<lparr>e_ip = 20, e_mac = [2,2,2,2,2,2]\<rparr>" "[\<lparr>e_ip = 10, e_mac = [1,1,1,1,1,1]\<rparr>]" "[9,9,9,9,9,9]"]
  by (simp add: two_in_bucket_def hm_inv_def bucket_ok_def hm_look_def slot_def)

text \<open>
  Looking up an unknown address: \<^verbatim>\<open>hash_get\<close> returns null when the bucket is empty, and
  otherwise follows the null pointer at the end of the chain.
\<close>

theorem hash_get_unknown_address:
  assumes "hm_inv m" and "hm_list m = Some bs" and "hm_look m ip = None"
  shows "hash_get m ip = (if entries (bs ! slot bs ip) = [] then Inr None else Inl NullDeref)"
  using assms by (rule hash_get_absent)

theorem hash_get_unknown_address_witness:
  "hash_get arp_init 7 = Inr None"
proof -
  have "hm_list arp_init = Some (replicate 10 (zero_entry, []))" by (simp add: arp_init_def)
  from hash_get_unknown_address[OF hm_inv_init this, of 7]
  show ?thesis by (simp add: slot_def zero_entry_def)
qed

end
