(* ===== verification/NetDevice.thy ===== *)
theory NetDevice
  imports NetOrder
begin

text \<open>
  include/net/netdevice.h and include/net/ether.h: a network device, the operations its
  driver supplies, and the Ethernet header. The driver's private data is the type
  parameter \<open>'c\<close> (\<^verbatim>\<open>void *custom_data\<close>); a null function pointer is \<open>None\<close>.

  Kernel memory is modelled per object: \<open>kzalloc n\<close> is a fresh object of n zero bytes and
  \<^verbatim>\<open>kfree\<close> of an object that is not used again has no effect. The allocator itself is the
  subject of another theory; its panic on requests above one page is kept here.
\<close>

unbundle bit_operations_syntax

subsection \<open>Memory objects\<close>

definition kzalloc :: "u32 \<Rightarrow> u8 list res" where
  "kzalloc n = (if n > 4096 then Inl Panic else Inr (replicate (unat n) 0))"

text \<open>A store of bytes at an offset of an object.\<close>

definition put_bytes :: "u8 list \<Rightarrow> nat \<Rightarrow> u8 list \<Rightarrow> u8 list res" where
  "put_bytes b i xs =
     (if i + length xs \<le> length b then Inr (take i b @ xs @ drop (i + length xs) b)
      else Inl OutOfBounds)"

lemma put_bytes_in [simp]:
  "i + length xs \<le> length b \<Longrightarrow> put_bytes b i xs = Inr (take i b @ xs @ drop (i + length xs) b)"
  by (simp add: put_bytes_def)

lemma kzalloc_small [simp]: "n \<le> 4096 \<Longrightarrow> kzalloc n = Inr (replicate (unat n) 0)"
  by (simp add: kzalloc_def)

text \<open>\<^verbatim>\<open>memcpy(dst + i, p, n)\<close> for a pointer \<open>p\<close> that may be null.\<close>

definition copy_from :: "u8 list option \<Rightarrow> nat \<Rightarrow> u8 list res" where
  "copy_from p n = (case p of None \<Rightarrow> Inl NullDeref | Some b \<Rightarrow> ld_bytes b 0 n)"

lemma copy_from_simps [simp]:
  "copy_from None n = Inl NullDeref"
  "n \<le> length b \<Longrightarrow> copy_from (Some b) n = Inr (take n b)"
  by (simp_all add: copy_from_def)

subsection \<open>Devices and their drivers\<close>

record 'c net_device =
  dev_addr :: "u8 list"
  dev_ip :: u32
  dev_mask :: u32
  dev_irq :: u32
  io_base :: u32
  rx_dropped :: u32
  tx_dropped :: u32
  custom_data :: 'c

text \<open>
  \<^verbatim>\<open>header_ops_create(eth, dev, type, daddr, saddr)\<close> gives its return value and the object
  \<^verbatim>\<open>eth\<close> points to; \<^verbatim>\<open>send(dev, packet, size)\<close> and \<^verbatim>\<open>init(dev)\<close> give the device and the value.
\<close>

record 'c dev_ops =
  op_header :: "(u8 list \<Rightarrow> 'c net_device \<Rightarrow> u16 \<Rightarrow> u8 list option \<Rightarrow> u8 list option
                 \<Rightarrow> (int \<times> u8 list) res) option"
  op_send :: "('c net_device \<Rightarrow> u8 list \<Rightarrow> int \<Rightarrow> ('c net_device \<times> int) res) option"
  op_init :: "('c net_device \<Rightarrow> ('c net_device \<times> int) res) option"

definition register_netdev :: "'c dev_ops \<Rightarrow> 'c net_device \<Rightarrow> ('c net_device \<times> int) res" where
  "register_netdev ops dev =
     (case op_init ops of Some f \<Rightarrow> f dev | None \<Rightarrow> Inr (dev, 0))"

definition dev_hard_header ::
    "'c dev_ops \<Rightarrow> u8 list \<Rightarrow> 'c net_device \<Rightarrow> u16 \<Rightarrow> u8 list option \<Rightarrow> u8 list option
     \<Rightarrow> (int \<times> u8 list) res" where
  "dev_hard_header ops eth dev ty daddr saddr =
     (case op_header ops of None \<Rightarrow> Inr (0, eth) | Some f \<Rightarrow> f eth dev ty daddr saddr)"

definition dev_send :: "'c dev_ops \<Rightarrow> 'c net_device \<Rightarrow> u8 list \<Rightarrow> int \<Rightarrow> ('c net_device \<times> int) res" where
  "dev_send ops dev packet sz =
     (case op_send ops of None \<Rightarrow> Inl NullDeref | Some f \<Rightarrow> f dev packet sz)"

definition broadcast :: "u8 list" where
  "broadcast = replicate 6 0xFF"

subsection \<open>The Ethernet header\<close>

text \<open>\<^verbatim>\<open>struct ethhdr\<close>: destination, source, type in network order.\<close>

definition eth_bytes :: "u8 list \<Rightarrow> u8 list \<Rightarrow> u16 \<Rightarrow> u8 list" where
  "eth_bytes dst src ty = dst @ src @ le16 (htons ty)"

lemma length_eth_bytes [simp]: "length (eth_bytes d s t) = length d + length s + 2"
  by (simp add: eth_bytes_def)

text \<open>What the protocols above rely on: the driver writes a whole Ethernet header.\<close>

locale ether_link =
  fixes ops :: "'c dev_ops"
  assumes hard_header: "\<lbrakk>14 \<le> length eth; length d = 6; length s = 6\<rbrakk> \<Longrightarrow>
      dev_hard_header ops eth dev ty (Some d) (Some s) = Inr (0, eth_bytes d s ty @ drop 14 eth)"
    and send_keeps_address: "dev_send ops dev packet sz = Inr (dev', r) \<Longrightarrow>
      dev_addr dev' = dev_addr dev \<and> dev_ip dev' = dev_ip dev"
    and send_refuses_long: "1544 < sz \<Longrightarrow> sz < 2147483648 \<Longrightarrow> dev_send ops dev packet sz = Inr (dev', r) \<Longrightarrow> r = -1"

end
