(* ===== verification/Skb.thy ===== *)
theory Skb
  imports NetDevice
begin

text \<open>
  net/skbuffer.c: packet buffers and the queue of received packets, a doubly linked list
  through the buffers with a head and a tail pointer. Buffers live in a store from
  addresses to \<^verbatim>\<open>struct sk_buffer\<close>; the null pointer is \<open>None\<close>. An allocation takes the next
  unused address. There is one device, so \<^verbatim>\<open>skb->dev\<close> is not kept.
\<close>

subsection \<open>State\<close>

record sk_buffer =
  skb_data :: "u8 list option"
  skb_len :: u32
  skb_prev :: "nat option"
  skb_next :: "nat option"

record skb_state =
  skbs :: "nat \<Rightarrow> sk_buffer option"
  skb_fresh :: nat
  recv_head :: "nat option"
  recv_tail :: "nat option"

definition skb_empty :: skb_state where
  "skb_empty = \<lparr>skbs = (\<lambda>_. None), skb_fresh = 0, recv_head = None, recv_tail = None\<rparr>"

definition skb_at :: "skb_state \<Rightarrow> nat \<Rightarrow> sk_buffer res" where
  "skb_at q p = (case skbs q p of None \<Rightarrow> Inl OutOfBounds | Some b \<Rightarrow> Inr b)"

definition skb_store :: "skb_state \<Rightarrow> nat \<Rightarrow> (sk_buffer \<Rightarrow> sk_buffer) \<Rightarrow> skb_state res" where
  "skb_store q p f = rmap (\<lambda>b. q\<lparr>skbs := (skbs q)(p \<mapsto> f b)\<rparr>) (skb_at q p)"

subsection \<open>Operations\<close>

definition skb_create :: "skb_state \<Rightarrow> skb_state \<times> nat" where
  "skb_create q =
     (q\<lparr>skbs := (skbs q)(skb_fresh q \<mapsto>
           \<lparr>skb_data = None, skb_len = 0, skb_prev = None, skb_next = None\<rparr>),
        skb_fresh := Suc (skb_fresh q)\<rparr>, skb_fresh q)"

definition skb_free :: "skb_state \<Rightarrow> nat \<Rightarrow> (skb_state \<times> int) res" where
  "skb_free q p = rmap (\<lambda>b. (q\<lparr>skbs := (skbs q)(p := None)\<rparr>, 0)) (skb_at q p)"

definition skb_recv_push :: "skb_state \<Rightarrow> nat \<Rightarrow> (skb_state \<times> int) res" where
  "skb_recv_push q p =
     (case recv_tail q of
        Some t \<Rightarrow>
          rbind (skb_store q t (\<lambda>b. b\<lparr>skb_next := Some p\<rparr>)) (\<lambda>q1.
          rbind (skb_store q1 p (\<lambda>b. b\<lparr>skb_prev := Some t\<rparr>)) (\<lambda>q2.
            Inr (q2\<lparr>recv_tail := Some p\<rparr>, 0)))
      | None \<Rightarrow> Inr (q\<lparr>recv_head := Some p, recv_tail := Some p\<rparr>, 0))"

definition skb_recv_shift :: "skb_state \<Rightarrow> (skb_state \<times> nat option) res" where
  "skb_recv_shift q =
     (case recv_head q of
        None \<Rightarrow> Inr (q\<lparr>recv_tail := None\<rparr>, None)
      | Some p \<Rightarrow>
          rbind (skb_at q p) (\<lambda>b.
          rbind (case skb_next b of
                   Some n \<Rightarrow> skb_store q n (\<lambda>c. c\<lparr>skb_prev := None\<rparr>)
                 | None \<Rightarrow> Inr q) (\<lambda>q1.
          rbind (skb_at q1 p) (\<lambda>b1. let q2 = q1\<lparr>recv_head := skb_next b1\<rparr> in
          rbind (skb_store q2 p (\<lambda>c. c\<lparr>skb_prev := None, skb_next := None\<rparr>)) (\<lambda>q3.
            Inr (if recv_head q3 = None then q3\<lparr>recv_tail := None\<rparr> else q3, Some p))))))"

text \<open>What the driver does with a received frame: a new buffer with a copy of it, queued.\<close>

definition skb_enqueue :: "skb_state \<Rightarrow> u8 list \<Rightarrow> u32 \<Rightarrow> skb_state res" where
  "skb_enqueue q frame len =
     (case skb_create q of (q1, p) \<Rightarrow>
        rbind (skb_store q1 p (\<lambda>b. b\<lparr>skb_len := len\<rparr>)) (\<lambda>q2.
        rbind (kzalloc len) (\<lambda>buf.
        rbind (ld_bytes frame 0 (unat len)) (\<lambda>bytes.
        rbind (put_bytes buf 0 bytes) (\<lambda>dat.
        rbind (skb_store q2 p (\<lambda>b. b\<lparr>skb_data := Some dat\<rparr>)) (\<lambda>q3.
          rmap fst (skb_recv_push q3 p)))))))"

subsection \<open>The list a queue represents\<close>

text \<open>From the first node: the addresses in order, each linked back to the one before it.\<close>

fun skb_list :: "(nat \<Rightarrow> sk_buffer option) \<Rightarrow> nat option \<Rightarrow> nat option \<Rightarrow> nat list \<Rightarrow> bool" where
  "skb_list s prev p [] = (p = None)"
| "skb_list s prev p (x # xs) =
     (p = Some x \<and> (\<exists>b. s x = Some b \<and> skb_prev b = prev \<and> skb_list s (Some x) (skb_next b) xs))"

definition queue_ok :: "skb_state \<Rightarrow> nat list \<Rightarrow> bool" where
  "queue_ok q ps \<longleftrightarrow>
     skb_list (skbs q) None (recv_head q) ps \<and> distinct ps
     \<and> recv_tail q = (if ps = [] then None else Some (last ps))
     \<and> (\<forall>p. skbs q p \<noteq> None \<longrightarrow> p < skb_fresh q)"

definition skb_payload :: "skb_state \<Rightarrow> nat \<Rightarrow> u8 list option \<times> u32" where
  "skb_payload q p = (case skbs q p of Some b \<Rightarrow> (skb_data b, skb_len b) | None \<Rightarrow> (None, 0))"

definition queue_repr :: "skb_state \<Rightarrow> (u8 list option \<times> u32) list \<Rightarrow> bool" where
  "queue_repr q xs \<longleftrightarrow> (\<exists>ps. queue_ok q ps \<and> xs = map (skb_payload q) ps)"

lemma skb_list_cong:
  "(\<And>x. x \<in> set xs \<Longrightarrow> s x = t x) \<Longrightarrow> skb_list s prev p xs = skb_list t prev p xs"
proof (induction xs arbitrary: prev p)
  case (Cons x xs)
  then have "s x = t x" by simp
  moreover have "skb_list s pr q xs = skb_list t pr q xs" for pr q
    using Cons by simp
  ultimately show ?case by simp
qed simp


lemma skb_list_snoc:
  "\<lbrakk>skb_list s prev p xs; xs \<noteq> []; distinct xs;
    \<And>x. x \<in> set xs \<Longrightarrow> x \<noteq> last xs \<Longrightarrow> s' x = s x;
    s (last xs) = Some c; s' (last xs) = Some (c\<lparr>skb_next := Some y\<rparr>);
    s' y = Some b; skb_prev b = Some (last xs); skb_next b = None\<rbrakk>
   \<Longrightarrow> skb_list s' prev p (xs @ [y])"
proof (induction xs arbitrary: prev p)
  case (Cons x xs)
  show ?case
  proof (cases "xs = []")
    case True
    then show ?thesis using Cons.prems by auto
  next
    case False
    then have "last xs \<in> set xs" by simp
    then have "x \<noteq> last xs" using Cons.prems(3) by auto
    then have "s' x = s x" using Cons.prems(4)[of x] False by simp
    moreover obtain b where "s x = Some b" "skb_prev b = prev" "p = Some x"
      "skb_list s (Some x) (skb_next b) xs"
      using Cons.prems(1) by auto
    moreover from this have "skb_list s' (Some x) (skb_next b) (xs @ [y])"
      using Cons.prems(3,4,5,6,7,8,9) False by (intro Cons.IH) auto
    ultimately show ?thesis by simp
  qed
qed simp

lemma skb_list_unlink_first:
  assumes "skb_list s prev p (x # xs)" "distinct (x # xs)"
    and "\<And>y. y \<in> set xs \<Longrightarrow> Some y \<noteq> (case xs of [] \<Rightarrow> None | z # _ \<Rightarrow> Some z) \<Longrightarrow> s' y = s y"
    and "\<And>z zs. xs = z # zs \<Longrightarrow> s' z = map_option (skb_prev_update (\<lambda>_. None)) (s z)"
    and "s x = Some b"
  shows "skb_list s' None (skb_next b) xs"
proof (cases xs)
  case (Cons z zs)
  then obtain c where c: "s z = Some c" "skb_next b = Some z" "skb_list s (Some z) (skb_next c) zs"
    using assms(1,5) by auto
  have "skb_list s' (Some z) (skb_next c) zs = skb_list s (Some z) (skb_next c) zs"
    using assms(2,3) Cons by (intro skb_list_cong) auto
  then show ?thesis using c assms(4)[of z zs] Cons by simp
qed (use assms in auto)

lemma queue_head: "queue_ok q ps \<Longrightarrow> recv_head q = (case ps of [] \<Rightarrow> None | p # _ \<Rightarrow> Some p)"
  by (cases ps) (auto simp: queue_ok_def)

lemma queue_member: "queue_ok q ps \<Longrightarrow> p \<in> set ps \<Longrightarrow> \<exists>b. skbs q p = Some b"
proof -
  have "skb_list s pr h ps \<Longrightarrow> p \<in> set ps \<Longrightarrow> \<exists>b. s p = Some b" for s pr h
    by (induction ps arbitrary: pr h) auto
  then show "queue_ok q ps \<Longrightarrow> p \<in> set ps \<Longrightarrow> ?thesis" by (auto simp: queue_ok_def)
qed

lemma push_ok:
  assumes q: "queue_ok q ps" and p: "p \<notin> set ps" "skbs q p = Some b"
    "skb_prev b = None" "skb_next b = None"
  shows "\<exists>q'. skb_recv_push q p = Inr (q', 0) \<and> queue_ok q' (ps @ [p])
     \<and> (\<forall>x. skb_payload q' x = skb_payload q x) \<and> skb_fresh q' = skb_fresh q"
proof (cases "ps = []")
  case True
  then have "recv_tail q = None" using q by (simp add: queue_ok_def)
  then have "skb_recv_push q p = Inr (q\<lparr>recv_head := Some p, recv_tail := Some p\<rparr>, 0)"
    by (simp add: skb_recv_push_def)
  then show ?thesis using True q p by (simp add: queue_ok_def skb_payload_def)
next
  case False
  then have tl: "recv_tail q = Some (last ps)" using q by (simp add: queue_ok_def)
  obtain c where c: "skbs q (last ps) = Some c" using queue_member[OF q, of "last ps"] False by auto
  have ne: "p \<noteq> last ps" using p(1) False by auto
  let ?s = "(skbs q)(last ps \<mapsto> c\<lparr>skb_next := Some p\<rparr>, p \<mapsto> b\<lparr>skb_prev := Some (last ps)\<rparr>)"
  have r: "skb_recv_push q p = Inr (q\<lparr>skbs := ?s, recv_tail := Some p\<rparr>, 0)"
    using tl c p(2) ne by (simp add: skb_recv_push_def skb_store_def skb_at_def)
  have "skb_list ?s None (recv_head q) (ps @ [p])"
    by (rule skb_list_snoc[where s = "skbs q" and c = c and b = "b\<lparr>skb_prev := Some (last ps)\<rparr>"])
       (use q False p ne c in \<open>auto simp: queue_ok_def\<close>)
  then have "queue_ok (q\<lparr>skbs := ?s, recv_tail := Some p\<rparr>) (ps @ [p])"
    using q p c by (auto simp: queue_ok_def)
  moreover have "skb_payload (q\<lparr>skbs := ?s, recv_tail := Some p\<rparr>) x = skb_payload q x" for x
    using c p(2) by (simp add: skb_payload_def)
  ultimately show ?thesis using r by auto
qed

lemma shift_empty: "queue_ok q [] \<Longrightarrow> skb_recv_shift q = Inr (q, None)"
  by (simp add: queue_ok_def skb_recv_shift_def)

lemma shift_ok:
  assumes q: "queue_ok q (p # ps)"
  shows "\<exists>q'. skb_recv_shift q = Inr (q', Some p) \<and> queue_ok q' ps
     \<and> (\<forall>x. skb_payload q' x = skb_payload q x) \<and> skbs q' p \<noteq> None"
proof -
  obtain b where b: "skbs q p = Some b" "skb_prev b = None" "recv_head q = Some p"
    "skb_list (skbs q) (Some p) (skb_next b) ps"
    using q by (auto simp: queue_ok_def)
  have d: "p \<notin> set ps" "distinct ps" using q by (simp_all add: queue_ok_def)
  show ?thesis
  proof (cases ps)
    case Nil
    then have "skb_next b = None" using b(4) by simp
    then have "skb_recv_shift q = Inr (q\<lparr>skbs := (skbs q)(p \<mapsto> b\<lparr>skb_prev := None, skb_next := None\<rparr>),
                 recv_head := None, recv_tail := None\<rparr>, Some p)"
      using b by (simp add: skb_recv_shift_def skb_store_def skb_at_def)
    then show ?thesis using Nil b q by (auto simp: queue_ok_def skb_payload_def)
  next
    case (Cons z zs)
    then obtain c where c: "skbs q z = Some c" "skb_next b = Some z" using b(4) by auto
    have zp: "z \<noteq> p" using d Cons by auto
    let ?s = "(skbs q)(z \<mapsto> c\<lparr>skb_prev := None\<rparr>, p \<mapsto> b\<lparr>skb_prev := None, skb_next := None\<rparr>)"
    have r: "skb_recv_shift q = Inr (q\<lparr>skbs := ?s, recv_head := Some z\<rparr>, Some p)"
      using b c zp by (simp add: skb_recv_shift_def skb_store_def skb_at_def)
    have "skb_list ?s None (skb_next b) ps"
      by (rule skb_list_unlink_first[where s = "skbs q" and x = p])
         (use q b c zp d Cons in \<open>auto simp: queue_ok_def\<close>)
    then have "queue_ok (q\<lparr>skbs := ?s, recv_head := Some z\<rparr>) ps"
      using q b c Cons by (auto simp: queue_ok_def)
    moreover have "skb_payload (q\<lparr>skbs := ?s, recv_head := Some z\<rparr>) x = skb_payload q x" for x
      using b c zp by (simp add: skb_payload_def)
    ultimately show ?thesis using r by auto
  qed
qed

lemma queue_repr_empty: "queue_repr skb_empty []"
  unfolding queue_repr_def by (rule exI[of _ "[]"]) (simp add: queue_ok_def skb_empty_def)

subsection \<open>The queue as a FIFO\<close>

text \<open>
  Taking the oldest packet out and releasing its buffer, as \<^verbatim>\<open>skb_handle_recv\<close> does around the
  protocol handler.
\<close>

definition skb_dequeue :: "skb_state \<Rightarrow> (skb_state \<times> (u8 list option \<times> u32) option) res" where
  "skb_dequeue q =
     rbind (skb_recv_shift q) (\<lambda>(q1, r).
       case r of
         None \<Rightarrow> Inr (q1, None)
       | Some p \<Rightarrow>
           rbind (skb_at q1 p) (\<lambda>b.
           rbind (skb_free q1 p) (\<lambda>(q2, _). Inr (q2, Some (skb_data b, skb_len b)))))"

lemma free_ok:
  assumes "queue_ok q ps" "p \<notin> set ps" "skbs q p = Some b"
  shows "\<exists>q'. skb_free q p = Inr (q', 0) \<and> queue_ok q' ps \<and> (\<forall>x. x \<noteq> p \<longrightarrow> skb_payload q' x = skb_payload q x)"
proof -
  have "skb_list ((skbs q)(p := None)) None (recv_head q) ps = skb_list (skbs q) None (recv_head q) ps"
    using assms(2) by (intro skb_list_cong) auto
  then have "queue_ok (q\<lparr>skbs := (skbs q)(p := None)\<rparr>) ps" using assms(1) by (auto simp: queue_ok_def)
  then show ?thesis using assms(3) by (auto simp: skb_free_def skb_at_def skb_payload_def)
qed

lemma dequeue_empty: "queue_repr q [] \<Longrightarrow> skb_dequeue q = Inr (q, None)"
  by (auto simp: queue_repr_def skb_dequeue_def shift_empty)

lemma dequeue_cons:
  assumes "queue_repr q (x # xs)"
  shows "\<exists>q'. skb_dequeue q = Inr (q', Some x) \<and> queue_repr q' xs"
proof -
  obtain p ps where q: "queue_ok q (p # ps)" and x: "x = skb_payload q p" "xs = map (skb_payload q) ps"
    using assms by (auto simp: queue_repr_def Cons_eq_map_conv)
  obtain q1 b where q1: "skb_recv_shift q = Inr (q1, Some p)" "queue_ok q1 ps"
    "\<forall>x. skb_payload q1 x = skb_payload q x" "skbs q1 p = Some b"
    using shift_ok[OF q] by auto
  have "p \<notin> set ps" using q by (simp add: queue_ok_def)
  then obtain q2 where q2: "skb_free q1 p = Inr (q2, 0)" "queue_ok q2 ps"
    "\<forall>x. x \<noteq> p \<longrightarrow> skb_payload q2 x = skb_payload q1 x"
    using free_ok[OF q1(2) _ q1(4)] by blast
  have "skb_payload q p = skb_payload q1 p" using q1(3) by simp
  then have "x = (skb_data b, skb_len b)" using q1(4) x(1) by (simp add: skb_payload_def)
  moreover have "queue_repr q2 xs"
    unfolding queue_repr_def using q2 q1(3) x(2) \<open>p \<notin> set ps\<close>
    by (intro exI[of _ ps]) (auto intro!: map_cong)
  ultimately show ?thesis using q1 q2 by (simp add: skb_dequeue_def skb_at_def)
qed

lemma enqueue_ok:
  assumes "queue_repr q xs" "len \<le> 4096" "unat len \<le> length frame"
  shows "\<exists>q'. skb_enqueue q frame len = Inr q' \<and> queue_repr q' (xs @ [(Some (take (unat len) frame), len)])"
proof -
  obtain ps where q: "queue_ok q ps" "xs = map (skb_payload q) ps"
    using assms(1) by (auto simp: queue_repr_def)
  let ?p = "skb_fresh q"
  let ?b = "\<lparr>skb_data = Some (take (unat len) frame), skb_len = len, skb_prev = None, skb_next = None\<rparr>"
  let ?q = "q\<lparr>skb_fresh := Suc ?p, skbs := (skbs q)(?p \<mapsto> ?b)\<rparr>"
  have fresh: "skbs q ?p = None" "?p \<notin> set ps"
    using q queue_member[OF q(1), of ?p] by (auto simp: queue_ok_def)
  have "skb_list ((skbs q)(?p \<mapsto> ?b)) None (recv_head q) ps = skb_list (skbs q) None (recv_head q) ps"
    using fresh(2) by (intro skb_list_cong) auto
  then have ok: "queue_ok ?q ps" using q(1) by (auto simp: queue_ok_def less_Suc_eq)
  obtain q' where q': "skb_recv_push ?q ?p = Inr (q', 0)" "queue_ok q' (ps @ [?p])"
    "\<forall>x. skb_payload q' x = skb_payload ?q x"
    using push_ok[OF ok fresh(2), of ?b] by auto
  have "skb_enqueue q frame len = Inr q'"
    using assms(2,3) q'(1)
    by (simp add: skb_enqueue_def skb_create_def skb_store_def skb_at_def)
  moreover have "map (skb_payload q') ps = map (skb_payload q) ps"
    using q'(3) fresh(2) by (auto simp: skb_payload_def)
  moreover have "skb_payload q' ?p = (Some (take (unat len) frame), len)"
    using q'(3) by (simp add: skb_payload_def)
  ultimately show ?thesis
    unfolding queue_repr_def using q'(2) q(2) by (auto intro!: exI[of _ "ps @ [?p]"])
qed

text \<open>The contract of a queue, and what it gives for sequences of operations.\<close>

fun enq_all :: "('q \<Rightarrow> 'i \<Rightarrow> 'q res) \<Rightarrow> 'q \<Rightarrow> 'i list \<Rightarrow> 'q res" where
  "enq_all enq q [] = Inr q"
| "enq_all enq q (i # is) = rbind (enq q i) (\<lambda>q'. enq_all enq q' is)"

fun deq_all :: "('q \<Rightarrow> ('q \<times> 'a option) res) \<Rightarrow> 'q \<Rightarrow> nat \<Rightarrow> ('q \<times> 'a list) res" where
  "deq_all deq q 0 = Inr (q, [])"
| "deq_all deq q (Suc n) =
     rbind (deq q) (\<lambda>(q', r).
       case r of None \<Rightarrow> Inr (q', [])
       | Some a \<Rightarrow> rmap (\<lambda>(q'', as). (q'', a # as)) (deq_all deq q' n))"

locale fifo_queue =
  fixes repr :: "'q \<Rightarrow> 'a list \<Rightarrow> bool" and admit :: "'i \<Rightarrow> bool" and item :: "'i \<Rightarrow> 'a"
    and enq :: "'q \<Rightarrow> 'i \<Rightarrow> 'q res" and deq :: "'q \<Rightarrow> ('q \<times> 'a option) res"
  assumes enq: "\<lbrakk>repr q xs; admit i\<rbrakk> \<Longrightarrow> \<exists>q'. enq q i = Inr q' \<and> repr q' (xs @ [item i])"
    and deq_nil: "repr q [] \<Longrightarrow> deq q = Inr (q, None)"
    and deq_cons: "repr q (x # xs) \<Longrightarrow> \<exists>q'. deq q = Inr (q', Some x) \<and> repr q' xs"
begin

lemma enq_all_ok:
  "\<lbrakk>repr q xs; \<forall>i \<in> set is. admit i\<rbrakk> \<Longrightarrow>
   \<exists>q'. enq_all enq q is = Inr q' \<and> repr q' (xs @ map item is)"
proof (induction "is" arbitrary: q xs)
  case (Cons i "is")
  then obtain q1 where "enq q i = Inr q1" "repr q1 (xs @ [item i])" using enq[of q xs i] by auto
  then show ?case using Cons.IH[of q1 "xs @ [item i]"] Cons.prems(2) by simp
qed auto

lemma deq_all_ok:
  "repr q xs \<Longrightarrow> n \<le> length xs \<Longrightarrow>
   \<exists>q'. deq_all deq q n = Inr (q', take n xs) \<and> repr q' (drop n xs)"
proof (induction n arbitrary: q xs)
  case (Suc n)
  then obtain x ys where xs: "xs = x # ys" by (cases xs) auto
  then obtain q1 where "deq q = Inr (q1, Some x)" "repr q1 ys" using deq_cons Suc.prems by blast
  then show ?case using Suc.IH[of q1 ys] Suc.prems(2) xs by auto
qed auto

lemma enq_then_deq:
  assumes "repr q []" "\<forall>i \<in> set is. admit i"
  shows "\<exists>q1 q2. enq_all enq q is = Inr q1 \<and> deq_all deq q1 (length is) = Inr (q2, map item is)
     \<and> repr q2 [] \<and> deq q2 = Inr (q2, None)"
proof -
  obtain q1 where "enq_all enq q is = Inr q1" "repr q1 (map item is)"
    using enq_all_ok[OF assms] by auto
  moreover from this obtain q2 where "deq_all deq q1 (length is) = Inr (q2, map item is)" "repr q2 []"
    using deq_all_ok[of q1 "map item is" "length is"] by auto
  ultimately show ?thesis using deq_nil by auto
qed

end

definition frame_ok :: "u8 list \<times> u32 \<Rightarrow> bool" where
  "frame_ok f \<longleftrightarrow> snd f \<le> 4096 \<and> unat (snd f) \<le> length (fst f)"

definition frame_item :: "u8 list \<times> u32 \<Rightarrow> u8 list option \<times> u32" where
  "frame_item f = (Some (take (unat (snd f)) (fst f)), snd f)"

interpretation skbq: fifo_queue queue_repr frame_ok frame_item
    "\<lambda>q f. skb_enqueue q (fst f) (snd f)" skb_dequeue
proof unfold_locales
  show "\<exists>q'. skb_enqueue q (fst f) (snd f) = Inr q' \<and> queue_repr q' (xs @ [frame_item f])"
    if "queue_repr q xs" "frame_ok f" for q xs f
    using that enqueue_ok[of q xs "snd f" "fst f"] by (simp add: frame_ok_def frame_item_def)
qed (auto intro: dequeue_empty dequeue_cons)

subsection \<open>Properties\<close>

text \<open>
  C23. The received-packet queue is a FIFO: \<^verbatim>\<open>skb_recv_push\<close> and \<^verbatim>\<open>skb_recv_shift\<close> on the doubly
  linked buffers refine appending to and removing from the front of a list of packets, for
  any sequence of received frames of at most one page. All frames come out in arrival order,
  each a copy of its first \<^verbatim>\<open>len\<close> bytes, and the queue is then empty, head and tail null.
\<close>

theorem skb_queue_is_fifo:
  assumes "\<forall>(frame, len) \<in> set fs. len \<le> 4096 \<and> unat len \<le> length frame"
  shows "\<exists>q1 q2. enq_all (\<lambda>q f. skb_enqueue q (fst f) (snd f)) skb_empty fs = Inr q1
     \<and> deq_all skb_dequeue q1 (length fs)
         = Inr (q2, map (\<lambda>(frame, len). (Some (take (unat len) frame), len)) fs)
     \<and> recv_head q2 = None \<and> recv_tail q2 = None"
proof -
  have "\<forall>f \<in> set fs. frame_ok f" using assms by (auto simp: frame_ok_def)
  from skbq.enq_then_deq[OF queue_repr_empty this] obtain q1 q2 where
    "enq_all (\<lambda>q f. skb_enqueue q (fst f) (snd f)) skb_empty fs = Inr q1"
    "deq_all skb_dequeue q1 (length fs) = Inr (q2, map frame_item fs)" "queue_repr q2 []"
    by blast
  moreover have "map frame_item fs = map (\<lambda>(frame, len). (Some (take (unat len) frame), len)) fs"
    by (auto simp: frame_item_def)
  ultimately show ?thesis by (auto simp: queue_repr_def queue_ok_def)
qed

theorem skb_queue_is_fifo_witness:
  "\<exists>q1 q2. enq_all (\<lambda>q f. skb_enqueue q (fst f) (snd f)) skb_empty [([1,2,3], 2), ([4], 1)] = Inr q1
     \<and> deq_all skb_dequeue q1 (Suc (Suc 0)) = Inr (q2, [(Some [1,2], 2), (Some [4], 1)])"
proof -
  have a: "\<forall>(frame :: u8 list, len :: u32) \<in> set [([1,2,3], 2), ([4], 1)].
      len \<le> 4096 \<and> unat len \<le> length frame" by simp
  have "map (\<lambda>(frame :: u8 list, len :: u32). (Some (take (unat len) frame), len)) [([1,2,3], 2), ([4], 1)]
      = [(Some [1,2], 2), (Some [4], 1)]" by simp
  moreover have "length [([1,2,3 :: u8], 2 :: u32), ([4], 1)] = Suc (Suc 0)" by simp
  ultimately show ?thesis using skb_queue_is_fifo[OF a] by (simp only:) blast
qed

end
