(* ===== verification/Pci.thy ===== *)
theory Pci
  imports Prelude
begin

text \<open>
  arch/i386/pci.c: enumeration of the PCI bus through the configuration ports and the list
  of the devices found. The hardware is a parameter: \<open>cfg_read s id\<close> is what the data port
  reads after \<open>id\<close> was written to the command port, \<open>cfg_write s id v\<close> the hardware state
  after \<open>v\<close> was then written to the data port. Diagnostics are printed with \<^verbatim>\<open>printk\<close> and left
  out, except for the array access in the arguments of one of them.
\<close>

unbundle bit_operations_syntax

subsection \<open>Data\<close>

record pci_ba =
  map_type :: u8
  prefetchable :: u8
  ba_address :: u32
  ba_size :: u32
  address_size :: u8

record pci_device_desc =
  pd_bus :: u16
  pd_device :: u16
  pd_func :: u16
  vendor_id :: u16
  device_id :: u16
  class_id :: u8
  subclass_id :: u8
  prog_if :: u8
  revision_id :: u8
  header_type :: u8
  interrupt_line :: u8
  interrupt_pin :: u8
  pd_ba :: "pci_ba list"   \<comment> \<open>the nodes after the dummy head node\<close>

record 's pci_hw =
  cfg_read :: "'s \<Rightarrow> u32 \<Rightarrow> u32"
  cfg_write :: "'s \<Rightarrow> u32 \<Rightarrow> u32 \<Rightarrow> 's"

subsection \<open>Configuration accesses\<close>

definition pci_id :: "u16 \<Rightarrow> u16 \<Rightarrow> u16 \<Rightarrow> u32 \<Rightarrow> u32" where
  "pci_id bus device func register_offset =
     0x80000000
     OR push_bit 16 (ucast bus AND 0xFF)
     OR push_bit 11 (ucast device AND 0x1F)
     OR push_bit 8 (ucast func AND 0x07)
     OR (register_offset AND 0xFC)"

definition pci_read :: "'s pci_hw \<Rightarrow> 's \<Rightarrow> u16 \<Rightarrow> u16 \<Rightarrow> u16 \<Rightarrow> u32 \<Rightarrow> u32" where
  "pci_read hw s bus device func register_offset =
     drop_bit (8 * (unat register_offset mod 4))
       (cfg_read hw s (pci_id bus device func register_offset))"

definition pci_write :: "'s pci_hw \<Rightarrow> 's \<Rightarrow> u16 \<Rightarrow> u16 \<Rightarrow> u16 \<Rightarrow> u32 \<Rightarrow> u32 \<Rightarrow> 's" where
  "pci_write hw s bus device func register_offset v =
     cfg_write hw s (pci_id bus device func register_offset) v"

definition PCI_HEADER_TYPE :: "u8 \<Rightarrow> u8" where
  "PCI_HEADER_TYPE t = t AND 0x7F"

definition PCI_HEADER_TYPE_MF :: "u32 \<Rightarrow> u32" where
  "PCI_HEADER_TYPE_MF t = t AND 0x80"

definition pci_device_has_func :: "'s pci_hw \<Rightarrow> 's \<Rightarrow> u16 \<Rightarrow> u16 \<Rightarrow> u8" where
  "pci_device_has_func hw s bus device = ucast (PCI_HEADER_TYPE_MF (pci_read hw s bus device 0 0x0E))"

subsection \<open>One device\<close>

text \<open>
  One round of the loop over the base address registers: the region found, if any, and the
  hardware after it. A region of size 0 leaves the loop body before the register is restored.
\<close>

definition pci_bar :: "'s pci_hw \<Rightarrow> 's \<Rightarrow> u16 \<Rightarrow> u16 \<Rightarrow> u16 \<Rightarrow> u32 \<Rightarrow> 's \<times> pci_ba option" where
  "pci_bar hw s bus device func bar =
     (let offset = 0x10 + 4 * bar;
          origin = pci_read hw s bus device func offset;
          rd = (\<lambda>s. pci_read hw s bus device func offset);
          wr = (\<lambda>s v. pci_write hw s bus device func offset v)
      in if origin AND 1 = 0 then
           (let pf = (if origin AND 8 \<noteq> 0 then 1 else 0);
                kind = drop_bit 1 origin AND 3
            in if kind = 0 then
                 (let s1 = wr s 0xFFFFFFFF;
                      sz = NOT (rd s1 AND 0xFFFFFFF0) + 1
                  in if sz = 0 then (s1, None)
                     else (wr s1 origin, Some \<lparr>map_type = 0, prefetchable = pf,
                             ba_address = origin AND 0xFFFFFFF0, ba_size = sz, address_size = 0\<rparr>))
               else (wr s origin, Some \<lparr>map_type = 0, prefetchable = pf,
                       ba_address = origin AND 0xFFFFFFF0, ba_size = 0,
                       address_size = (if kind = 2 then 1 else 0)\<rparr>))
         else
           (let s1 = wr s 0xFFFFFFFF;
                sz = NOT (rd s1 AND 0xFFFFFFFC) + 1
            in if sz = 0 then (s1, None)
               else (wr s1 origin, Some \<lparr>map_type = 1, prefetchable = 0,
                       ba_address = origin AND 0xFFFFFFFC, ba_size = sz, address_size = 0\<rparr>)))"

fun pci_bars :: "'s pci_hw \<Rightarrow> 's \<Rightarrow> u16 \<Rightarrow> u16 \<Rightarrow> u16 \<Rightarrow> u32 list \<Rightarrow> 's \<times> pci_ba list" where
  "pci_bars hw s bus device func [] = (s, [])"
| "pci_bars hw s bus device func (b # bs) =
     (case pci_bar hw s bus device func b of (s1, r) \<Rightarrow>
      case pci_bars hw s1 bus device func bs of (s2, rs) \<Rightarrow>
        (s2, (case r of None \<Rightarrow> rs | Some ba \<Rightarrow> ba # rs)))"

definition pci_get_device_desc ::
    "'s pci_hw \<Rightarrow> 's \<Rightarrow> u16 \<Rightarrow> u16 \<Rightarrow> u16 \<Rightarrow> 's \<times> pci_device_desc option" where
  "pci_get_device_desc hw s bus device func =
     (let rd = pci_read hw s bus device func;
          vendor = ucast (rd 0x00)
      in if vendor = 0x0000 \<or> vendor = 0xFFFF then (s, None)
         else
           (let intr = rd 0x3C;
                ht = ucast (rd 0x0E);
                (s', bas) = (if PCI_HEADER_TYPE ht = 0
                             then pci_bars hw s bus device func [0, 1, 2, 3, 4, 5] else (s, []))
            in (s', Some \<lparr>pd_bus = bus, pd_device = device, pd_func = func,
                    vendor_id = vendor, device_id = ucast (rd 0x02),
                    class_id = ucast (rd 0x0b), subclass_id = ucast (rd 0x0a),
                    prog_if = ucast (rd 0x09), revision_id = ucast (rd 0x08),
                    header_type = ht,
                    interrupt_line = ucast intr, interrupt_pin = ucast (drop_bit 8 intr),
                    pd_ba = bas\<rparr>)))"

subsection \<open>The device list\<close>

text \<open>The first device stays first; every later one is linked in behind it.\<close>

definition pci_link :: "pci_device_desc list \<Rightarrow> pci_device_desc \<Rightarrow> pci_device_desc list" where
  "pci_link ds d = (case ds of [] \<Rightarrow> [d] | h0 # r \<Rightarrow> h0 # d # r)"

text \<open>The name printed for a found device is \<^verbatim>\<open>PCI_CLASS_CODE[class_id]\<close>, an array of 24.\<close>

definition PCI_CLASS_CODE_count :: nat where
  "PCI_CLASS_CODE_count = 24"

fun pci_funcs :: "'s pci_hw \<Rightarrow> u16 \<Rightarrow> u16 \<Rightarrow> u16 list \<Rightarrow> 's \<times> pci_device_desc list
                  \<Rightarrow> ('s \<times> pci_device_desc list) res" where
  "pci_funcs hw bus device [] (s, ds) = Inr (s, ds)"
| "pci_funcs hw bus device (f # fs) (s, ds) =
     (case pci_get_device_desc hw s bus device f of
        (s', None) \<Rightarrow> pci_funcs hw bus device fs (s', ds)
      | (s', Some d) \<Rightarrow>
          if unat (class_id d) < PCI_CLASS_CODE_count
          then pci_funcs hw bus device fs (s', pci_link ds d) else Inl OutOfBounds)"

fun pci_slots :: "'s pci_hw \<Rightarrow> (u16 \<times> u16) list \<Rightarrow> 's \<times> pci_device_desc list
                  \<Rightarrow> ('s \<times> pci_device_desc list) res" where
  "pci_slots hw [] st = Inr st"
| "pci_slots hw ((bus, device) # r) (s, ds) =
     rbind (pci_funcs hw bus device
              (if pci_device_has_func hw s bus device \<noteq> 0 then [0, 1, 2, 3, 4, 5, 6, 7] else [0]) (s, ds))
       (pci_slots hw r)"

definition pci_select_drivers :: "'s pci_hw \<Rightarrow> 's \<Rightarrow> ('s \<times> pci_device_desc list) res" where
  "pci_select_drivers hw s =
     pci_slots hw (List.product (map of_nat [0..<256]) (map of_nat [0..<32])) (s, [])"

fun pci_find_device :: "pci_device_desc list \<Rightarrow> u16 \<Rightarrow> u16 \<Rightarrow> pci_device_desc option" where
  "pci_find_device [] v d = None"
| "pci_find_device (n # ns) v d =
     (if vendor_id n = v \<and> device_id n = d then Some n else pci_find_device ns v d)"

subsection \<open>Lemmas\<close>

lemma pci_find_device_eq:
  "pci_find_device ds v d = find (\<lambda>n. vendor_id n = v \<and> device_id n = d) ds"
  by (induction ds) auto

lemma set_pci_link [simp]: "set (pci_link ds d) = insert d (set ds)"
  by (cases ds) (auto simp: pci_link_def)

text \<open>Reading back the mask of a region of \<open>2 ^ k\<close> bytes.\<close>

lemma region_size:
  assumes "j \<le> k" and "low AND NOT (mask j) = (0 :: u32)"
  shows "NOT ((((- 1) AND NOT (mask k)) OR low) AND NOT (mask j)) + 1 = (2 ^ k :: u32)"
proof -
  have "(((- 1) AND NOT (mask k)) OR low) AND NOT (mask j) = (NOT (mask k) :: u32)"
  proof (rule bit_word_eqI)
    fix n
    assume "n < LENGTH(32)"
    moreover have "\<not> bit (low AND NOT (mask j)) n" using assms(2) by simp
    ultimately show "bit ((((- 1) AND NOT (mask k)) OR low) AND NOT (mask j)) n \<longleftrightarrow> bit (NOT (mask k) :: u32) n"
      using assms(1) by (auto simp: bit_and_iff bit_or_iff bit_not_iff bit_mask_iff)
  qed
  then show ?thesis by (simp add: mask_eq_exp_minus_1)
qed

lemma bar_masks:
  "(0xFFFFFFF0 :: u32) = NOT (mask 4)" "(0xFFFFFFFC :: u32) = NOT (mask 2)" "(0xFFFFFFFF :: u32) = - 1"
  by (simp_all add: mask_eq_exp_minus_1)

text \<open>What a base address register is: it keeps its address bits and its low bits are fixed.\<close>

definition bar_register :: "'s pci_hw \<Rightarrow> 's \<Rightarrow> u32 \<Rightarrow> nat \<Rightarrow> u32 \<Rightarrow> bool" where
  "bar_register hw s pid k low \<longleftrightarrow>
     (\<forall>v. cfg_read hw (cfg_write hw s pid v) pid = (v AND NOT (mask k)) OR low)
     \<and> (\<forall>v. cfg_write hw (cfg_write hw s pid v) pid (cfg_read hw s pid) = s)"

subsection \<open>Properties\<close>

text \<open>
  Sizing a 32-bit memory region of \<open>2 ^ k\<close> bytes (k at least 4): on a base address register
  that keeps the written address bits and has fixed low bits, the loop body reports the
  register's address and exactly the size \<open>2 ^ k\<close>, and leaves the hardware as it found it.
\<close>

theorem pci_bar_sizes_memory_region:
  assumes "bar_register hw s (pci_id bus device func (0x10 + 4 * bar)) k low"
    and "4 \<le> k" and "k < 32" and "low AND NOT (mask 4) = 0"
    and "unat (0x10 + 4 * bar) mod 4 = 0"
    and "origin = cfg_read hw s (pci_id bus device func (0x10 + 4 * bar))"
    and "origin AND 7 = 0"
  shows "\<exists>ba. pci_bar hw s bus device func bar = (s, Some ba)
     \<and> map_type ba = 0 \<and> ba_address ba = origin AND NOT (mask 4) \<and> ba_size ba = 2 ^ k"
proof -
  let ?id = "pci_id bus device func (0x10 + 4 * bar)"
  have hw: "cfg_read hw (cfg_write hw s ?id v) ?id = (v AND NOT (mask k)) OR low"
    "cfg_write hw (cfg_write hw s ?id v) ?id origin = s" for v
    using assms(1,6) by (simp_all add: bar_register_def)
  have o: "\<not> bit origin n" if "n < 3" for n
  proof -
    have "\<not> bit (origin AND mask 3) n" using assms(7) by (simp add: mask_eq_exp_minus_1)
    then show ?thesis using that by (simp add: bit_and_iff bit_mask_iff)
  qed
  have "origin AND 1 = 0" using o[of 0] by (simp add: and_one_eq odd_iff_mod_2_eq_one bit_0)
  moreover have "drop_bit 1 origin AND 3 = 0"
  proof -
    have "drop_bit 1 origin AND mask 2 = 0"
      using o by (auto intro!: bit_word_eqI simp: bit_and_iff bit_mask_iff bit_drop_bit_eq less_2_cases_iff)
    then show ?thesis by (simp add: mask_eq_exp_minus_1)
  qed
  moreover have "NOT ((((- 1) AND NOT (mask k)) OR low) AND NOT (mask 4)) + 1 = (2 ^ k :: u32)"
    using assms(2,4) by (rule region_size)
  moreover have "(2 :: u32) ^ k \<noteq> 0" using assms(3) by simp
  ultimately show ?thesis
    using assms(5,6) hw
    by (simp add: pci_bar_def pci_read_def pci_write_def Let_def bar_masks del: mask_numeral)
qed

definition one_bar :: "u32 pci_hw" where
  "one_bar = \<lparr>cfg_read = (\<lambda>s _. s), cfg_write = (\<lambda>s _ v. v AND NOT (mask 12))\<rparr>"

theorem pci_bar_sizes_memory_region_witness:
  "\<exists>ba. pci_bar one_bar 0xE0001000 0 3 0 1 = (0xE0001000, Some ba) \<and> ba_size ba = 4096"
  using pci_bar_sizes_memory_region[where hw = one_bar and s = "0xE0001000" and bus = 0 and device = 3
      and func = 0 and bar = 1 and k = 12 and low = 0 and origin = "0xE0001000"]
  by (auto simp: one_bar_def bar_register_def mask_eq_exp_minus_1)

subsection \<open>A bus with one device\<close>

text \<open>A slot without a device answers none of its functions.\<close>

definition slot_empty :: "'s pci_hw \<Rightarrow> 's \<Rightarrow> u16 \<Rightarrow> u16 \<Rightarrow> bool" where
  "slot_empty hw s bus device \<longleftrightarrow> (\<forall>f. (ucast (pci_read hw s bus device f 0) :: u16) \<in> {0, 0xFFFF})"

lemma pci_funcs_empty: "slot_empty hw s bus device \<Longrightarrow> pci_funcs hw bus device fs (s, ds) = Inr (s, ds)"
  by (induction fs) (auto simp: pci_get_device_desc_def Let_def slot_empty_def)

lemma pci_slots_empty: "\<forall>(b, d) \<in> set l. slot_empty hw s b d \<Longrightarrow> pci_slots hw l (s, ds) = Inr (s, ds)"
  by (induction l) (auto simp: pci_funcs_empty)

lemma pci_slots_append: "pci_slots hw (xs @ ys) st = rbind (pci_slots hw xs st) (pci_slots hw ys)"
proof (induction xs arbitrary: st)
  case (Cons x xs)
  then have "pci_slots hw (xs @ ys) = (\<lambda>st. rbind (pci_slots hw xs st) (pci_slots hw ys))" by (intro ext)
  then show ?case by (cases x; cases st) (simp add: rbind_assoc)
qed simp

lemma pci_slots_distinct: "distinct (List.product (map of_nat [0..<256]) (map of_nat [0..<32]) :: (u16 \<times> u16) list)"
  by (auto intro!: distinct_product simp: distinct_map inj_on_def take_bit_eq_mod dest!: word_of_nat_eq_iff[THEN iffD1])

lemma pci_select_single:
  assumes "\<forall>(b, d) \<in> set (List.product (map of_nat [0..<256]) (map of_nat [0..<32])). (b, d) \<noteq> (bus, device) \<longrightarrow> slot_empty hw s b d"
    and "(bus, device) \<in> set (List.product (map of_nat [0..<256]) (map of_nat [0..<32]))"
    and "pci_device_has_func hw s bus device = 0" and "pci_get_device_desc hw s bus device 0 = (s, Some d)"
    and "unat (class_id d) < PCI_CLASS_CODE_count"
  shows "pci_select_drivers hw s = Inr (s, [d])"
proof -
  obtain xs ys where l: "List.product (map of_nat [0..<256]) (map of_nat [0..<32]) = xs @ (bus, device) # ys"
    using split_list[OF assms(2)] by blast
  then have "(bus, device) \<notin> set xs" "(bus, device) \<notin> set ys" using pci_slots_distinct by auto
  then have "\<forall>(b, d) \<in> set xs. slot_empty hw s b d" "\<forall>(b, d) \<in> set ys. slot_empty hw s b d" using assms(1) unfolding l by auto
  then show ?thesis using assms(3-5)
    by (simp add: pci_select_drivers_def l pci_slots_append pci_slots_empty pci_link_def)
qed

text \<open>The identification of a slot determines it.\<close>

lemma pci_id_bits:
  "n < 8 \<Longrightarrow> bit (pci_id b d f r) (16 + n) = bit b n" "n < 5 \<Longrightarrow> bit (pci_id b d f r) (11 + n) = bit d n"
proof -
  have m: "(0xFF :: u32) = mask 8" "(0x1F :: u32) = mask 5" "(0x07 :: u32) = mask 3" "(0xFC :: u32) = push_bit 2 (mask 6)"
    by (simp_all add: mask_eq_exp_minus_1)
  have h: "bit (0x80000000 :: u32) k \<longleftrightarrow> k = 31" for k
    using bit_exp_iff[of 31 k, where 'a = u32] by auto
  show "n < 8 \<Longrightarrow> bit (pci_id b d f r) (16 + n) = bit b n" "n < 5 \<Longrightarrow> bit (pci_id b d f r) (11 + n) = bit d n"
    unfolding pci_id_def m bit_or_iff h by (auto simp: bit_simps)
qed

lemma pci_id_inj:
  assumes "pci_id (of_nat b) (of_nat d) f r = pci_id (of_nat b') (of_nat d') f' r'"
    and "b < 256" and "d < 32" and "b' < 256" and "d' < 32"
  shows "b = b' \<and> d = d'"
proof -
  have "bit (of_nat b :: u16) n = bit (of_nat b' :: u16) n" if "n < 8" for n
    using assms(1) pci_id_bits(1)[OF that, of "of_nat b" "of_nat d" f r] pci_id_bits(1)[OF that, of "of_nat b'" "of_nat d'" f' r'] by simp
  then have "take_bit 8 b = take_bit 8 b'" by (intro bit_eqI) (auto simp: bit_simps)
  moreover have "bit (of_nat d :: u16) n = bit (of_nat d' :: u16) n" if "n < 5" for n
    using assms(1) pci_id_bits(2)[OF that, of "of_nat b" "of_nat d" f r] pci_id_bits(2)[OF that, of "of_nat b'" "of_nat d'" f' r'] by simp
  then have "take_bit 5 d = take_bit 5 d'" by (intro bit_eqI) (auto simp: bit_simps)
  ultimately show ?thesis using assms(2-5) by (simp add: take_bit_eq_mod)
qed

text \<open>A bus on which only the network card answers, in slot 3.\<close>

definition one_card :: "unit pci_hw" where
  "one_card = \<lparr>cfg_read = (\<lambda>_ id. if id = 0x80001800 then 0x20001022 else if id = 0x80001808 then 0x02000000
       else if id = 0x80001810 then 0xC001 else if id = 0x8000183C then 0x010B
       else if id \<in> {0x8000180C, 0x80001814, 0x80001818, 0x8000181C, 0x80001820, 0x80001824} then 0 else 0xFFFFFFFF),
     cfg_write = (\<lambda>_ _ _. ())\<rparr>"

lemma one_card_empty:
  assumes "b < 256" and "d < 32" and "(b, d) \<noteq> (0, 3)"
  shows "slot_empty one_card s (of_nat b) (of_nat d)"
proof -
  have i: "pci_id (of_nat b) (of_nat d) f 0 \<noteq> pci_id (of_nat 0) (of_nat 3) 0 r" for f r
    using pci_id_inj[of b d f 0 0 3 0 r] assms by auto
  have E: "0x80001800 = pci_id (of_nat 0) (of_nat 3) 0 0" "0x80001808 = pci_id (of_nat 0) (of_nat 3) 0 8"
    "0x80001810 = pci_id (of_nat 0) (of_nat 3) 0 0x10" "0x8000183C = pci_id (of_nat 0) (of_nat 3) 0 0x3C"
    "0x8000180C = pci_id (of_nat 0) (of_nat 3) 0 0xC" "0x80001814 = pci_id (of_nat 0) (of_nat 3) 0 0x14"
    "0x80001818 = pci_id (of_nat 0) (of_nat 3) 0 0x18" "0x8000181C = pci_id (of_nat 0) (of_nat 3) 0 0x1C"
    "0x80001820 = pci_id (of_nat 0) (of_nat 3) 0 0x20" "0x80001824 = pci_id (of_nat 0) (of_nat 3) 0 0x24"
    by (simp_all add: pci_id_def)
  have "pci_id (of_nat b) (of_nat d) f 0 \<noteq> 0x80001800" "pci_id (of_nat b) (of_nat d) f 0 \<noteq> 0x80001808"
    "pci_id (of_nat b) (of_nat d) f 0 \<noteq> 0x80001810" "pci_id (of_nat b) (of_nat d) f 0 \<noteq> 0x8000183C"
    "pci_id (of_nat b) (of_nat d) f 0 \<notin> {0x8000180C, 0x80001814, 0x80001818, 0x8000181C, 0x80001820, 0x80001824}" for f
    by (simp_all only: E i insert_iff empty_iff not_False_eq_True simp_thms)
  then have "cfg_read one_card s (pci_id (of_nat b) (of_nat d) f 0) = 0xFFFFFFFF" for f
    by (simp only: one_card_def pci_hw.simps if_False simp_thms)
  then show ?thesis by (simp add: slot_empty_def pci_read_def)
qed

lemma one_card_found: "\<exists>d. pci_select_drivers one_card () = Inr ((), [d]) \<and> vendor_id d = 0x1022 \<and> device_id d = 0x2000 \<and> interrupt_line d = 11"
proof -
  have "\<exists>d. pci_get_device_desc one_card () 0 3 0 = ((), Some d) \<and> vendor_id d = 0x1022 \<and> device_id d = 0x2000 \<and> interrupt_line d = 11 \<and> class_id d = 2"
    by (simp add: pci_get_device_desc_def pci_read_def pci_id_def one_card_def Let_def split: prod.splits)
  then obtain d where d: "pci_get_device_desc one_card () 0 3 0 = ((), Some d)" "vendor_id d = 0x1022" "device_id d = 0x2000"
    "interrupt_line d = 11" "class_id d = 2" by blast
  have "pci_select_drivers one_card () = Inr ((), [d])"
  proof (rule pci_select_single[OF _ _ _ d(1)])
    show "\<forall>(b, d) \<in> set (List.product (map of_nat [0..<256]) (map of_nat [0..<32])). (b, d) \<noteq> (0, 3) \<longrightarrow> slot_empty one_card () b d"
      by (auto intro!: one_card_empty)
    show "(0 :: u16, 3 :: u16) \<in> set (List.product (map of_nat [0..<256]) (map of_nat [0..<32]))"
      by (simp add: image_iff) (intro conjI bexI[of _ 0] bexI[of _ 3]; simp)
    show "pci_device_has_func one_card () 0 3 = 0"
      by (simp add: pci_device_has_func_def PCI_HEADER_TYPE_MF_def pci_read_def pci_id_def one_card_def)
    show "unat (class_id d) < PCI_CLASS_CODE_count" by (simp add: d(5) PCI_CLASS_CODE_count_def)
  qed
  then show ?thesis using d by blast
qed

end
