(* ===== verification/Am79c793.thy ===== *)
theory Am79c793
  imports Skb Pci
begin

text \<open>
  drivers/i386/am79c793.c: the AMD PCnet driver. Its private data are the initialisation
  block, the two descriptor rings and the two ring indices; \<open>custom_data = None\<close> before
  \<^verbatim>\<open>init\<close> is the null pointer. A descriptor holds the contents of the buffer it points to.
  Writes to the ports and registrations of the interrupt are kept in the order they are
  made; values read from ports are arguments.
\<close>

unbundle bit_operations_syntax

subsection \<open>State\<close>

record initialization_block =
  ib_mode :: u16
  ib_rlen :: u8
  ib_tlen :: u8
  ib_mac :: "u8 list"
  ib_reserved3 :: u16
  ib_ladr_low :: u32
  ib_ladr_hight :: u32
  ib_recv_ring :: u32
  ib_send_ring :: u32

record buffer_descriptor =
  bd_buffer :: "u8 list"
  bd_flags :: u32
  bd_flags2 :: u32
  bd_avail :: u32

datatype nic_event =
    Outw u16 u16        \<comment> \<open>value, port\<close>
  | RegisterIrq u32
  | EnableIrq u32

record nic =
  init_block :: initialization_block
  send_ring :: "buffer_descriptor list"
  recv_ring :: "buffer_descriptor list"
  current_rx_buffer :: u32
  current_tx_buffer :: u32
  nic_log :: "nic_event list"

type_synonym nic_dev = "nic option net_device"

definition rx_buffer_count :: u32 where "rx_buffer_count = 32"
definition tx_buffer_count :: u32 where "tx_buffer_count = 16"
definition nic_buffer_size :: u32 where "nic_buffer_size = 1544"

definition AM79C79C_MAC0_PORT :: u32 where "AM79C79C_MAC0_PORT = 0x0"
definition AM79C79C_MAC2_PORT :: u32 where "AM79C79C_MAC2_PORT = 0x2"
definition AM79C79C_MAC4_PORT :: u32 where "AM79C79C_MAC4_PORT = 0x4"
definition AM79C79C_DATA_PORT :: u32 where "AM79C79C_DATA_PORT = 0x10"
definition AM79C79C_ADD_PORT :: u32 where "AM79C79C_ADD_PORT = 0x12"
definition AM79C79C_BUSREG_PORT :: u32 where "AM79C79C_BUSREG_PORT = 0x16"

lemmas nic_const = rx_buffer_count_def tx_buffer_count_def nic_buffer_size_def
  AM79C79C_MAC0_PORT_def AM79C79C_MAC2_PORT_def AM79C79C_MAC4_PORT_def
  AM79C79C_DATA_PORT_def AM79C79C_ADD_PORT_def AM79C79C_BUSREG_PORT_def

text \<open>A register access of the chip: select it, then write its value.\<close>

definition port_of :: "nic_dev \<Rightarrow> u32 \<Rightarrow> u16" where
  "port_of dev p = ucast (io_base dev + p)"

definition csr_write :: "nic_dev \<Rightarrow> u16 \<Rightarrow> u16 \<Rightarrow> nic_event list" where
  "csr_write dev reg v =
     [Outw reg (port_of dev AM79C79C_ADD_PORT), Outw v (port_of dev AM79C79C_DATA_PORT)]"

subsection \<open>Sending\<close>

definition nic_send :: "nic_dev \<Rightarrow> u8 list \<Rightarrow> int \<Rightarrow> (nic_dev \<times> int) res" where
  "nic_send dev packet sz =
     (case custom_data dev of
        None \<Rightarrow> Inl NullDeref
      | Some n \<Rightarrow>
          rbind (arr_get (send_ring n) (unat (current_tx_buffer n))) (\<lambda>bd.
            if bd_flags bd AND 0x80000000 \<noteq> 0 then Inr (dev\<lparr>tx_dropped := tx_dropped dev + 1\<rparr>, -1)
            else if (of_int sz :: u32) > nic_buffer_size then Inr (dev, -1)
            else
              rbind (ld_bytes packet 0 (unat (of_int sz :: u32))) (\<lambda>bytes.
              rbind (put_bytes (bd_buffer bd) 0 bytes) (\<lambda>buf.
                let bd' = bd\<lparr>bd_buffer := buf, bd_avail := 0, bd_flags2 := 0,
                             bd_flags := 0x8300F000 OR (of_int (- sz) AND 0xFFF)\<rparr>;
                    cur = (if current_tx_buffer n + 1 \<ge> tx_buffer_count then 0
                           else current_tx_buffer n + 1)
                in Inr (dev\<lparr>custom_data := Some (n\<lparr>
                           send_ring := (send_ring n)[unat (current_tx_buffer n) := bd'],
                           current_tx_buffer := cur,
                           nic_log := nic_log n @ csr_write dev 0 0x48\<rparr>)\<rparr>, 0)))))"

subsection \<open>The Ethernet header\<close>

definition header_ops_create ::
    "u8 list \<Rightarrow> nic_dev \<Rightarrow> u16 \<Rightarrow> u8 list option \<Rightarrow> u8 list option \<Rightarrow> (int \<times> u8 list) res" where
  "header_ops_create eth dev ty daddr saddr =
     rbind (copy_from daddr 6) (\<lambda>d.
     rbind (put_bytes eth 0 d) (\<lambda>e1.
     rbind (copy_from (if saddr = None then Some (dev_addr dev) else saddr) 6) (\<lambda>s.
     rbind (put_bytes e1 6 s) (\<lambda>e2.
     rbind (put_bytes e2 12 (le16 (htons ty))) (\<lambda>e3. Inr (0, e3))))))"

subsection \<open>Receiving\<close>

definition owned_by_nic :: "buffer_descriptor \<Rightarrow> bool" where
  "owned_by_nic bd \<longleftrightarrow> bd_flags bd AND 0x80000000 \<noteq> 0"

text \<open>No error, and both start and end of packet in this buffer.\<close>

definition frame_complete :: "buffer_descriptor \<Rightarrow> bool" where
  "frame_complete bd \<longleftrightarrow> bd_flags bd AND 0x40000000 = 0 \<and> bd_flags bd AND 0x03000000 = 0x03000000"

definition frame_size :: "buffer_descriptor \<Rightarrow> u32" where
  "frame_size bd = (bd_flags2 bd AND 0xFFF) - 4"

definition return_to_nic :: "buffer_descriptor \<Rightarrow> buffer_descriptor" where
  "return_to_nic bd = bd\<lparr>bd_flags2 := 0, bd_flags := 0x8000F7FF\<rparr>"

definition next_rx :: "u32 \<Rightarrow> u32" where
  "next_rx cur = (if cur + 1 > rx_buffer_count then 0 else cur + 1)"

lemma return_to_nic_owned: "owned_by_nic (return_to_nic bd)"
  by (simp add: owned_by_nic_def return_to_nic_def)

function rx_loop :: "buffer_descriptor list \<Rightarrow> u32 \<Rightarrow> skb_state
                     \<Rightarrow> (buffer_descriptor list \<times> u32 \<times> skb_state) res" where
  "rx_loop ring cur q =
     (if unat cur < length ring then
        (let bd = ring ! unat cur in
         if owned_by_nic bd then Inr (ring, cur, q)
         else case (if frame_complete bd then skb_enqueue q (bd_buffer bd) (frame_size bd) else Inr q) of
                Inl e \<Rightarrow> Inl e
              | Inr q' \<Rightarrow> rx_loop (ring[unat cur := return_to_nic bd]) (next_rx cur) q')
      else Inl OutOfBounds)"
  by pat_completeness auto
termination
proof (relation "measure (\<lambda>(ring, cur, q). length (filter (\<lambda>b. \<not> owned_by_nic b) ring))")
  fix ring :: "buffer_descriptor list" and cur :: u32 and q :: skb_state and bd q'
  assume "unat cur < length ring" "bd = ring ! unat cur" "\<not> owned_by_nic bd"
  moreover have "i < length xs \<Longrightarrow> \<not> owned_by_nic (xs ! i) \<Longrightarrow>
      length (filter (\<lambda>b. \<not> owned_by_nic b) (xs[i := return_to_nic b]))
      < length (filter (\<lambda>b. \<not> owned_by_nic b) xs)" for i b xs
    by (induction xs arbitrary: i) (auto simp: return_to_nic_owned nth_Cons' split: nat.splits)
  ultimately show "((ring[unat cur := return_to_nic bd], next_rx cur, q'), ring, cur, q)
     \<in> measure (\<lambda>(ring, cur, q). length (filter (\<lambda>b. \<not> owned_by_nic b) ring))"
    by simp
qed simp

declare rx_loop.simps [simp del]

definition nic_receive :: "nic_dev \<Rightarrow> skb_state \<Rightarrow> (nic_dev \<times> skb_state) res" where
  "nic_receive dev q =
     (case custom_data dev of
        None \<Rightarrow> Inl NullDeref
      | Some n \<Rightarrow>
          rmap (\<lambda>(ring, cur, q'). (dev\<lparr>custom_data := Some (n\<lparr>recv_ring := ring, current_rx_buffer := cur\<rparr>)\<rparr>, q'))
            (rx_loop (recv_ring n) (current_rx_buffer n) q))"

definition log_events :: "nic_event list \<Rightarrow> nic_dev \<Rightarrow> nic_dev" where
  "log_events es dev =
     dev\<lparr>custom_data := map_option (\<lambda>n. n\<lparr>nic_log := nic_log n @ es\<rparr>) (custom_data dev)\<rparr>"

text \<open>The status word \<open>temp\<close> read from CSR0 is an argument.\<close>

definition am79c_interrupt_handle :: "u16 \<Rightarrow> nic_dev \<Rightarrow> skb_state \<Rightarrow> (nic_dev \<times> skb_state) res" where
  "am79c_interrupt_handle temp dev q =
     (let d1 = log_events [Outw 0 (port_of dev AM79C79C_ADD_PORT)] dev;
          d2 = (if temp AND 0x4000 = 0x4000 then d1\<lparr>tx_dropped := tx_dropped d1 + 1\<rparr> else d1);
          d3 = (if temp AND 0x1000 = 0x1000 then d2\<lparr>rx_dropped := rx_dropped d2 + 1\<rparr> else d2)
      in rbind (if temp AND 0x0400 = 0x0400 then nic_receive d3 q else Inr (d3, q)) (\<lambda>(d4, q').
         Inr (log_events (csr_write d4 0 temp) d4, q')))"

subsection \<open>Initialisation\<close>

text \<open>The first I/O region of the device gives the port base; without one it is unchanged.\<close>

fun probe_io :: "pci_ba list \<Rightarrow> u32 \<Rightarrow> u32" where
  "probe_io [] old = old"
| "probe_io (ba # bas) old = (if map_type ba = 1 then ba_address ba else probe_io bas old)"

definition am79c793_probe :: "pci_device_desc list \<Rightarrow> nic_dev \<Rightarrow> nic_dev \<times> int" where
  "am79c793_probe pci dev =
     (case pci_find_device pci 0x1022 0x2000 of
        None \<Rightarrow> (dev, -1)
      | Some p \<Rightarrow> (dev\<lparr>io_base := probe_io (pd_ba p) (io_base dev),
                       dev_irq := ucast (interrupt_line p)\<rparr>, 0))"

text \<open>
  \<open>rd\<close> gives the 16-bit values the ports are read with, \<open>va_data\<close>, \<open>va_send\<close> and \<open>va_recv\<close> are
  the addresses of the three allocations. The initialisation block is the first member of
  the private data, so its address is \<open>va_data\<close>.
\<close>

definition phys :: "u32 \<Rightarrow> u32" where
  "phys va = va - 0xC0000000"

definition nic_init ::
    "pci_device_desc list \<Rightarrow> (u16 \<Rightarrow> u16) \<Rightarrow> u32 \<Rightarrow> u32 \<Rightarrow> u32 \<Rightarrow> nic_dev \<Rightarrow> (nic_dev \<times> int) res" where
  "nic_init pci rd va_data va_send va_recv dev0 =
     (case am79c793_probe pci dev0 of (dev, r) \<Rightarrow>
        if r = -1 then Inr (dev, -1)
        else
          (let port = port_of dev;
               w0 = rd (port AM79C79C_MAC0_PORT);
               w2 = rd (port AM79C79C_MAC2_PORT);
               w4 = rd (port AM79C79C_MAC4_PORT);
               mac = [ucast (w0 mod 256), ucast (w0 div 256), ucast (w2 mod 256),
                      ucast (w2 div 256), ucast (w4 mod 256), ucast (w4 div 256)];
               temp = rd (port AM79C79C_DATA_PORT)
           in rbind (kzalloc nic_buffer_size) (\<lambda>buf.
                Inr (dev\<lparr>dev_addr := mac,
                  custom_data := Some \<lparr>
                    init_block = \<lparr>ib_mode = 0, ib_rlen = push_bit 4 5, ib_tlen = push_bit 4 4,
                      ib_mac = mac, ib_reserved3 = 0, ib_ladr_low = 0, ib_ladr_hight = 0,
                      ib_recv_ring = phys va_recv, ib_send_ring = phys va_send\<rparr>,
                    send_ring = replicate (unat tx_buffer_count)
                      \<lparr>bd_buffer = buf, bd_flags = 0x7FF OR 0xF000, bd_flags2 = 0, bd_avail = 0\<rparr>,
                    recv_ring = replicate (unat rx_buffer_count)
                      \<lparr>bd_buffer = buf, bd_flags = 0xF7FF OR 0x80000000, bd_flags2 = 0, bd_avail = 0\<rparr>,
                    current_rx_buffer = 0, current_tx_buffer = 0,
                    nic_log =
                      [RegisterIrq (dev_irq dev), EnableIrq (dev_irq dev),
                       Outw 20 (port AM79C79C_ADD_PORT), Outw 0x102 (port AM79C79C_BUSREG_PORT)]
                      @ csr_write dev 0 0x04
                      @ csr_write dev 1 (ucast (phys va_data AND 0xFFFF))
                      @ csr_write dev 2 (ucast (drop_bit 16 (phys va_data) AND 0xFFFF))
                      @ csr_write dev 0 0x41
                      @ [Outw 4 (port AM79C79C_ADD_PORT)]
                      @ csr_write dev 4 (temp OR 0xC00)
                      @ csr_write dev 0 0x42\<rparr>\<rparr>, 0))))"

text \<open>The device object the driver registers, with what its initialisation needs filled in.\<close>

definition am79c793 ::
    "pci_device_desc list \<Rightarrow> (u16 \<Rightarrow> u16) \<Rightarrow> u32 \<Rightarrow> u32 \<Rightarrow> u32 \<Rightarrow> nic option dev_ops" where
  "am79c793 pci rd va_data va_send va_recv =
     \<lparr>op_header = Some header_ops_create, op_send = Some nic_send,
      op_init = Some (nic_init pci rd va_data va_send va_recv)\<rparr>"

subsection \<open>The driver as a link\<close>

lemma header_ops_create_eq:
  assumes "14 \<le> length eth" "length d = 6" "length s = 6"
  shows "header_ops_create eth dev ty (Some d) (Some s) = Inr (0, eth_bytes d s ty @ drop 14 eth)"
proof -
  have "length (d @ drop 6 eth) = length eth" using assms by simp
  moreover have "take 6 (d @ drop 6 eth) = d" "drop 12 (d @ drop 6 eth) = drop 12 eth"
    using assms by simp_all
  moreover have "take 12 (d @ s @ drop 12 eth) = d @ s" "drop 14 (d @ s @ drop 12 eth) = drop 14 eth"
    using assms by simp_all
  ultimately show ?thesis using assms by (simp add: header_ops_create_def eth_bytes_def)
qed

lemma of_int_big: "0 \<le> sz \<Longrightarrow> sz < 2147483648 \<Longrightarrow> unat (of_int sz :: u32) = nat sz"
  by (simp add: unat_eq_nat_uint uint_word_of_int)

lemma send_cases:
  assumes "nic_send dev packet sz = Inr (dev', r)"
  shows "dev_addr dev' = dev_addr dev \<and> dev_ip dev' = dev_ip dev \<and> (r = 0 \<longrightarrow> of_int sz \<le> nic_buffer_size)"
  using assms unfolding nic_send_def
  by (auto simp: rbind_Inr_conv Let_def not_less split: option.splits if_splits)

interpretation am79: ether_link "am79c793 pci rd va_data va_send va_recv"
  for pci rd va_data va_send va_recv
proof unfold_locales
  show "dev_hard_header (am79c793 pci rd va_data va_send va_recv) eth dev ty (Some d) (Some s)
      = Inr (0, eth_bytes d s ty @ drop 14 eth)"
    if "14 \<le> length eth" "length d = 6" "length s = 6" for eth d s ty dev
    using that by (simp add: dev_hard_header_def am79c793_def header_ops_create_eq)
  show "dev_addr dev' = dev_addr dev \<and> dev_ip dev' = dev_ip dev"
    if "dev_send (am79c793 pci rd va_data va_send va_recv) dev packet sz = Inr (dev', r)"
    for dev packet sz dev' r
    using that send_cases[of dev packet sz dev' r] by (simp add: dev_send_def am79c793_def)
  show "r = -1" if "1544 < sz" "sz < 2147483648"
    "dev_send (am79c793 pci rd va_data va_send va_recv) dev packet sz = Inr (dev', r)"
    for dev packet sz dev' r
  proof -
    have s: "nic_send dev packet sz = Inr (dev', r)" using that(3) by (simp add: dev_send_def am79c793_def)
    have "unat (of_int sz :: u32) = nat sz" using that(1,2) by (intro of_int_big) auto
    then have "\<not> (of_int sz :: u32) \<le> nic_buffer_size"
      using that(1) by (simp add: nic_buffer_size_def word_le_nat_alt)
    then have "r \<noteq> 0" using send_cases[OF s] by blast
    moreover have "r = 0 \<or> r = -1"
      using s unfolding nic_send_def
      by (auto simp: rbind_Inr_conv Let_def split: option.splits if_splits)
    ultimately show ?thesis by blast
  qed
qed

subsection \<open>Invariant of the rings\<close>

definition nic_ok :: "nic \<Rightarrow> bool" where
  "nic_ok n \<longleftrightarrow> length (send_ring n) = 16 \<and> length (recv_ring n) = 32
     \<and> (\<forall>bd \<in> set (send_ring n) \<union> set (recv_ring n). length (bd_buffer bd) = 1544)
     \<and> current_tx_buffer n < 16 \<and> current_rx_buffer n < 32"

lemma nic_init_ok:
  assumes "nic_init pci rd a b c dev = Inr (dev', 0)"
  shows "\<exists>n. custom_data dev' = Some n \<and> nic_ok n \<and> length (dev_addr dev') = 6"
  using assms unfolding nic_init_def
  by (auto simp: nic_const nic_ok_def Let_def split: prod.splits if_splits)

definition tx_slot :: "nic \<Rightarrow> nat" where
  "tx_slot n = unat (current_tx_buffer n)"

lemma nic_send_ok:
  assumes n: "custom_data dev = Some n" "nic_ok n" "\<not> owned_by_nic (send_ring n ! tx_slot n)"
    and sz: "0 \<le> sz" "sz \<le> 1544" "nat sz \<le> length packet"
  shows "\<exists>dev' n'. nic_send dev packet sz = Inr (dev', 0) \<and> custom_data dev' = Some n' \<and> nic_ok n'
     \<and> tx_slot n' = (tx_slot n + 1) mod 16
     \<and> take (nat sz) (bd_buffer (send_ring n' ! tx_slot n)) = take (nat sz) packet
     \<and> bd_flags (send_ring n' ! tx_slot n) = 0x8300F000 OR (of_int (- sz) AND 0xFFF)
     \<and> (\<forall>i < 16. i \<noteq> tx_slot n \<longrightarrow> send_ring n' ! i = send_ring n ! i)"
proof -
  let ?i = "tx_slot n"
  let ?bd = "send_ring n ! ?i"
  have i: "?i < 16" using n(2) by (simp add: nic_ok_def tx_slot_def word_less_nat_alt)
  then have len: "length (bd_buffer ?bd) = 1544" "length (send_ring n) = 16"
    using n(2) by (auto simp: nic_ok_def)
  have u: "unat (of_int sz :: u32) = nat sz" using sz by (intro of_int_big) auto
  then have small: "\<not> (of_int sz :: u32) > nic_buffer_size"
    using sz(2) by (simp add: nic_buffer_size_def word_less_nat_alt)
  define bd' where "bd' = ?bd\<lparr>bd_buffer := take (nat sz) packet @ drop (nat sz) (bd_buffer ?bd),
     bd_avail := 0, bd_flags2 := 0, bd_flags := 0x8300F000 OR (of_int (- sz) AND 0xFFF)\<rparr>"
  define cur where "cur = (if current_tx_buffer n + 1 \<ge> tx_buffer_count then 0 else current_tx_buffer n + 1)"
  define n' where "n' = n\<lparr>send_ring := (send_ring n)[?i := bd'], current_tx_buffer := cur,
     nic_log := nic_log n @ csr_write dev 0 0x48\<rparr>"
  have "nic_send dev packet sz = Inr (dev\<lparr>custom_data := Some n'\<rparr>, 0)"
    using n small u sz i len
    by (simp add: nic_send_def tx_slot_def owned_by_nic_def n'_def bd'_def cur_def Let_def)
  moreover have "unat (current_tx_buffer n + 1) = ?i + 1"
    using i by (simp add: tx_slot_def unat_word_ariths)
  then have "unat cur = (?i + 1) mod 16"
    using i by (cases "?i = 15") (auto simp: cur_def tx_buffer_count_def word_le_nat_alt)
  moreover have "length (bd_buffer bd') = 1544" using sz len by (simp add: bd'_def)
  then have "nic_ok n'"
    using n(2) i calculation(2)
    by (auto simp: nic_ok_def n'_def word_less_nat_alt dest!: set_update_subset_insert[THEN subsetD])
  moreover have "take (nat sz) (bd_buffer bd') = take (nat sz) packet"
    using sz by (simp add: bd'_def)
  ultimately show ?thesis
    using i len by (auto simp: n'_def tx_slot_def bd'_def)
qed

subsection \<open>The receive loop\<close>

definition frame_ready :: "buffer_descriptor \<Rightarrow> bool" where
  "frame_ready bd \<longleftrightarrow> \<not> owned_by_nic bd \<and> frame_complete bd \<and> frame_size bd \<le> 1544
     \<and> length (bd_buffer bd) = 1544"

definition frame_of :: "buffer_descriptor \<Rightarrow> u8 list option \<times> u32" where
  "frame_of bd = (Some (take (unat (frame_size bd)) (bd_buffer bd)), frame_size bd)"

lemma next_rx_step: "unat cur < 32 \<Longrightarrow> unat (next_rx cur) = Suc (unat cur)"
proof -
  assume c: "unat cur < 32"
  then have "unat (cur + 1) = unat cur + 1" by (simp add: unat_word_ariths)
  moreover from this c have "\<not> cur + 1 > 32" by (simp add: word_less_nat_alt)
  ultimately show ?thesis by (simp add: next_rx_def rx_buffer_count_def)
qed

lemma rx_step:
  assumes "unat cur < length ring" "frame_ready (ring ! unat cur)" "queue_repr q xs"
  shows "\<exists>q'. rx_loop ring cur q = rx_loop (ring[unat cur := return_to_nic (ring ! unat cur)]) (next_rx cur) q'
     \<and> queue_repr q' (xs @ [frame_of (ring ! unat cur)])"
proof -
  let ?bd = "ring ! unat cur"
  have le: "frame_size ?bd \<le> 4096" "unat (frame_size ?bd) \<le> length (bd_buffer ?bd)"
    using assms(2) by (auto simp: frame_ready_def word_le_nat_alt)
  from enqueue_ok[OF assms(3) le] obtain q' where
    "skb_enqueue q (bd_buffer ?bd) (frame_size ?bd) = Inr q'" "queue_repr q' (xs @ [frame_of ?bd])"
    by (auto simp: frame_of_def)
  then show ?thesis using assms(1,2) by (subst rx_loop.simps) (auto simp: frame_ready_def Let_def)
qed

lemma rx_stop: "unat cur < length ring \<Longrightarrow> owned_by_nic (ring ! unat cur) \<Longrightarrow> rx_loop ring cur q = Inr (ring, cur, q)"
  by (subst rx_loop.simps) simp

lemma rx_past_end: "length ring \<le> unat cur \<Longrightarrow> rx_loop ring cur q = Inl OutOfBounds"
  by (subst rx_loop.simps) simp

lemma rx_run:
  "\<lbrakk>length ring \<le> 32; unat cur + k \<le> length ring; queue_repr q xs;
    \<forall>i < k. frame_ready (ring ! (unat cur + i))\<rbrakk> \<Longrightarrow>
   \<exists>ring' cur' q'. rx_loop ring cur q = rx_loop ring' cur' q' \<and> unat cur' = unat cur + k
     \<and> length ring' = length ring \<and> (\<forall>i \<ge> unat cur + k. ring' ! i = ring ! i)
     \<and> queue_repr q' (xs @ map (\<lambda>i. frame_of (ring ! (unat cur + i))) [0..<k])"
proof (induction k arbitrary: ring cur q xs)
  case (Suc k)
  have c: "unat cur < length ring" using Suc.prems(2) by simp
  obtain q1 where q1: "rx_loop ring cur q
      = rx_loop (ring[unat cur := return_to_nic (ring ! unat cur)]) (next_rx cur) q1"
    "queue_repr q1 (xs @ [frame_of (ring ! unat cur)])"
    using rx_step[OF c _ Suc.prems(3)] Suc.prems(4) by fastforce
  have n: "unat (next_rx cur) = Suc (unat cur)" using c Suc.prems(1) by (intro next_rx_step) simp
  let ?r = "ring[unat cur := return_to_nic (ring ! unat cur)]"
  have "\<forall>i < k. frame_ready (?r ! (unat (next_rx cur) + i))"
    using Suc.prems(4) n by (auto dest: spec[of _ "Suc _"])
  from Suc.IH[OF _ _ q1(2) this] obtain ring' cur' q' where r: "rx_loop ?r (next_rx cur) q1 = rx_loop ring' cur' q'"
    "unat cur' = Suc (unat cur) + k" "length ring' = length ring"
    "\<forall>i \<ge> Suc (unat cur) + k. ring' ! i = ?r ! i"
    "queue_repr q' ((xs @ [frame_of (ring ! unat cur)]) @ map (\<lambda>i. frame_of (?r ! (Suc (unat cur) + i))) [0..<k])"
    using Suc.prems(1,2) n by auto
  have "map (\<lambda>i. frame_of (ring ! (unat cur + i))) [0..<Suc k]
      = frame_of (ring ! unat cur) # map (\<lambda>i. frame_of (?r ! (Suc (unat cur) + i))) [0..<k]"
    by (simp add: map_upt_Suc del: upt_Suc)
  then show ?case using q1(1) r
    by (intro exI[of _ ring'] exI[of _ cur'] exI[of _ q']) (simp del: upt_Suc)
qed auto

subsection \<open>Properties\<close>

text \<open>
  C24. Delivery: when the k descriptors from the current one on hold complete frames that fit
  their buffers, the next one belongs to the chip and the ring does not wrap in between,
  \<^verbatim>\<open>receive\<close> returns, appends exactly those k frames (without their checksums) to the
  receive queue in ring order, and stands at the descriptor of the chip.
\<close>

theorem nic_receive_delivers_in_order:
  assumes "custom_data dev = Some n" and "nic_ok n" and "queue_repr q xs"
    and "unat (current_rx_buffer n) + k < 32"
    and "\<forall>i < k. frame_ready (recv_ring n ! (unat (current_rx_buffer n) + i))"
    and "owned_by_nic (recv_ring n ! (unat (current_rx_buffer n) + k))"
  shows "\<exists>dev' n' q'. nic_receive dev q = Inr (dev', q') \<and> custom_data dev' = Some n'
     \<and> unat (current_rx_buffer n') = unat (current_rx_buffer n) + k
     \<and> queue_repr q' (xs @ map (\<lambda>i. frame_of (recv_ring n ! (unat (current_rx_buffer n) + i))) [0..<k])"
proof -
  have len: "length (recv_ring n) = 32" using assms(2) by (simp add: nic_ok_def)
  obtain ring' cur' q' where r: "rx_loop (recv_ring n) (current_rx_buffer n) q = rx_loop ring' cur' q'"
    "unat cur' = unat (current_rx_buffer n) + k" "length ring' = 32"
    "\<forall>i \<ge> unat (current_rx_buffer n) + k. ring' ! i = recv_ring n ! i"
    "queue_repr q' (xs @ map (\<lambda>i. frame_of (recv_ring n ! (unat (current_rx_buffer n) + i))) [0..<k])"
    using rx_run[of "recv_ring n" "current_rx_buffer n" k q xs] assms(3,4,5) len by auto
  have "rx_loop ring' cur' q' = Inr (ring', cur', q')"
    using r assms(4,6) by (intro rx_stop) auto
  then show ?thesis using assms(1) r by (auto simp: nic_receive_def)
qed

text \<open>Devices for the concrete instances: the first k receive descriptors hold a frame.\<close>

definition ready_bd :: buffer_descriptor where
  "ready_bd = \<lparr>bd_buffer = replicate 1544 7, bd_flags = 0x0300F7FF, bd_flags2 = 68, bd_avail = 0\<rparr>"

definition owned_bd :: buffer_descriptor where
  "owned_bd = \<lparr>bd_buffer = replicate 1544 0, bd_flags = 0x8000F7FF, bd_flags2 = 0, bd_avail = 0\<rparr>"

definition free_bd :: buffer_descriptor where
  "free_bd = \<lparr>bd_buffer = replicate 1544 0, bd_flags = 0xF7FF, bd_flags2 = 0, bd_avail = 0\<rparr>"

definition sample_nic :: "nat \<Rightarrow> nic" where
  "sample_nic k = \<lparr>init_block = \<lparr>ib_mode = 0, ib_rlen = 80, ib_tlen = 64, ib_mac = replicate 6 1,
       ib_reserved3 = 0, ib_ladr_low = 0, ib_ladr_hight = 0, ib_recv_ring = 0, ib_send_ring = 0\<rparr>,
     send_ring = replicate 16 free_bd, recv_ring = replicate k ready_bd @ replicate (32 - k) owned_bd,
     current_rx_buffer = 0, current_tx_buffer = 0, nic_log = []\<rparr>"

definition sample_dev :: "nic option \<Rightarrow> nic_dev" where
  "sample_dev c = \<lparr>dev_addr = replicate 6 1, dev_ip = 0x0A000001, dev_mask = 0, dev_irq = 11,
     io_base = 0xC000, rx_dropped = 0, tx_dropped = 0, custom_data = c\<rparr>"

lemma sample_nic_ok: "k \<le> 32 \<Longrightarrow> nic_ok (sample_nic k)"
  by (auto simp: nic_ok_def sample_nic_def ready_bd_def owned_bd_def free_bd_def)

lemma ready_bd_ready: "frame_ready ready_bd" "owned_by_nic owned_bd" "\<not> owned_by_nic free_bd"
  by (simp_all add: frame_ready_def frame_complete_def frame_size_def owned_by_nic_def
      ready_bd_def owned_bd_def free_bd_def)

lemma sample_nic_simps:
  "custom_data (sample_dev c) = c" "current_rx_buffer (sample_nic k) = 0" "tx_slot (sample_nic k) = 0"
  "send_ring (sample_nic k) = replicate 16 free_bd"
  "k \<le> 32 \<Longrightarrow> i < 32 \<Longrightarrow> recv_ring (sample_nic k) ! i = (if i < k then ready_bd else owned_bd)"
  by (simp_all add: sample_dev_def sample_nic_def tx_slot_def nth_append)

theorem nic_receive_delivers_in_order_witness:
  "\<exists>dev' q'. nic_receive (sample_dev (Some (sample_nic 2))) skb_empty = Inr (dev', q')
     \<and> queue_repr q' [frame_of ready_bd, frame_of ready_bd]"
  using nic_receive_delivers_in_order[of "sample_dev (Some (sample_nic 2))" "sample_nic 2" skb_empty "[]" 2]
  by (auto simp: sample_nic_simps sample_nic_ok queue_repr_empty ready_bd_ready upt_rec numeral_2_eq_2)

text \<open>
  The wrap-around test of \<^verbatim>\<open>receive\<close> is off by one (\<^verbatim>\<open>>\<close> where \<^verbatim>\<open>send\<close> has \<^verbatim>\<open>>=\<close>): after
  the frame in the last descriptor the loop goes on at index 32, past the 32 descriptors.
\<close>

theorem nic_receive_overruns_ring:
  assumes "custom_data dev = Some n" and "nic_ok n" and "queue_repr q xs"
    and "\<forall>i. unat (current_rx_buffer n) \<le> i \<and> i < 32 \<longrightarrow> frame_ready (recv_ring n ! i)"
  shows "nic_receive dev q = Inl OutOfBounds"
proof -
  let ?c = "unat (current_rx_buffer n)"
  have len: "length (recv_ring n) = 32" "?c < 32"
    using assms(2) by (auto simp: nic_ok_def word_less_nat_alt)
  then obtain ring' cur' q' where "rx_loop (recv_ring n) (current_rx_buffer n) q = rx_loop ring' cur' q'"
    "unat cur' = 32" "length ring' = 32"
    using rx_run[of "recv_ring n" "current_rx_buffer n" "32 - ?c" q xs] assms(3,4) by auto
  then show ?thesis using assms(1) rx_past_end[of ring' cur' q'] by (simp add: nic_receive_def)
qed

theorem nic_receive_overruns_ring_witness:
  "nic_receive (sample_dev (Some (sample_nic 32))) skb_empty = Inl OutOfBounds"
  by (rule nic_receive_overruns_ring[of _ "sample_nic 32" skb_empty "[]"])
     (simp_all add: sample_nic_simps sample_nic_ok queue_repr_empty ready_bd_ready)

text \<open>
  C25. \<^verbatim>\<open>send\<close> on an initialised device with a free descriptor and a packet of at most 1544
  bytes succeeds: the packet is in the buffer of the current descriptor, whose flags hand it
  to the chip as a whole packet with the two's complement of its length, no other descriptor
  changes, and the index advances modulo 16, so the invariant of the rings is kept.
\<close>

theorem nic_send_fills_slot_and_advances:
  assumes "custom_data dev = Some n" and "nic_ok n" and "\<not> owned_by_nic (send_ring n ! tx_slot n)"
    and "0 \<le> sz" and "sz \<le> 1544" and "nat sz \<le> length packet"
  shows "\<exists>dev' n'. nic_send dev packet sz = Inr (dev', 0) \<and> custom_data dev' = Some n' \<and> nic_ok n'
     \<and> tx_slot n' = (tx_slot n + 1) mod 16
     \<and> take (nat sz) (bd_buffer (send_ring n' ! tx_slot n)) = take (nat sz) packet
     \<and> bd_flags (send_ring n' ! tx_slot n) = 0x8300F000 OR (of_int (- sz) AND 0xFFF)
     \<and> (\<forall>i < 16. i \<noteq> tx_slot n \<longrightarrow> send_ring n' ! i = send_ring n ! i)"
  using assms by (rule nic_send_ok)

theorem nic_send_fills_slot_and_advances_witness:
  "\<exists>dev' n'. nic_send (sample_dev (Some (sample_nic 0))) [1, 2, 3] 3 = Inr (dev', 0)
     \<and> custom_data dev' = Some n' \<and> tx_slot n' = 1
     \<and> take 3 (bd_buffer (send_ring n' ! 0)) = [1, 2, 3]"
proof -
  have "\<not> owned_by_nic (send_ring (sample_nic 0) ! tx_slot (sample_nic 0))"
    by (simp add: sample_nic_simps ready_bd_ready)
  from nic_send_fills_slot_and_advances[OF sample_nic_simps(1) sample_nic_ok[OF le0] this,
      of 3 "[1, 2, 3]"]
  show ?thesis by (auto simp: sample_nic_simps)
qed

text \<open>
  Every receive descriptor that \<^verbatim>\<open>init\<close> hands to the chip states a buffer of 2049 bytes
  (the 12-bit two's complement in its flags), while the buffer it points to has 1544.
\<close>

theorem nic_init_overstates_receive_buffers:
  assumes "nic_init pci rd a b c dev = Inr (dev', 0)"
  shows "\<exists>n. custom_data dev' = Some n \<and> nic_ok n \<and> length (recv_ring n) = 32
     \<and> (\<forall>bd \<in> set (recv_ring n). owned_by_nic bd \<and> unat (- bd_flags bd AND 0xFFF) = 2049
          \<and> length (bd_buffer bd) = 1544)"
  using assms nic_init_ok[OF assms] unfolding nic_init_def
  by (auto simp: nic_const nic_ok_def owned_by_nic_def Let_def split: prod.splits if_splits)

definition sample_pci :: "pci_device_desc list" where
  "sample_pci = [\<lparr>pd_bus = 0, pd_device = 3, pd_func = 0, vendor_id = 0x1022, device_id = 0x2000,
     class_id = 2, subclass_id = 0, prog_if = 0, revision_id = 0, header_type = 0,
     interrupt_line = 11, interrupt_pin = 1,
     pd_ba = [\<lparr>map_type = 1, prefetchable = 0, ba_address = 0xC000, ba_size = 32, address_size = 0\<rparr>]\<rparr>]"

theorem nic_init_overstates_receive_buffers_witness:
  "\<exists>dev' n. nic_init sample_pci (\<lambda>_. 0x1234) 0xC0200000 0xC0201000 0xC0202000 (sample_dev None)
       = Inr (dev', 0) \<and> custom_data dev' = Some n
     \<and> (\<forall>bd \<in> set (recv_ring n). unat (- bd_flags bd AND 0xFFF) = 2049 \<and> length (bd_buffer bd) = 1544)"
proof -
  obtain dev' where d: "nic_init sample_pci (\<lambda>_. 0x1234) 0xC0200000 0xC0201000 0xC0202000 (sample_dev None)
       = Inr (dev', 0)"
    by (simp add: nic_init_def am79c793_probe_def sample_pci_def Let_def nic_buffer_size_def)
  from nic_init_overstates_receive_buffers[OF this] d show ?thesis by auto
qed

end
