(* ===== verification/Arp.thy ===== *)
theory Arp
  imports ArpTable Am79c793
begin

text \<open>
  The protocol half of net/arp.c: building and answering ARP packets and looking addresses
  up. The state is the address table (\<^verbatim>\<open>arp_map\<close>) and the device; the driver is the
  parameter \<open>ops\<close>. Addresses in the table are keyed by the four address bytes as they stand
  in the packet (network order).
\<close>

unbundle bit_operations_syntax

record 'c net =
  arp_map :: hash_map
  net_dev :: "'c net_device"

definition ETH_P_IP :: u16 where "ETH_P_IP = 0x0800"
definition ETH_P_ARP :: u16 where "ETH_P_ARP = 0x0806"
definition ARPHRD_ETHER :: u16 where "ARPHRD_ETHER = 1"
definition ARPOP_REQUEST :: u16 where "ARPOP_REQUEST = 1"
definition ARPOP_REPLY :: u16 where "ARPOP_REPLY = 2"

lemmas arp_const = ETH_P_IP_def ETH_P_ARP_def ARPHRD_ETHER_def ARPOP_REQUEST_def ARPOP_REPLY_def

subsection \<open>Packets\<close>

record arphdr =
  ar_hrd :: u16
  ar_pro :: u16
  ar_hln :: u8
  ar_pln :: u8
  ar_op :: u16
  ar_sha :: "u8 list"
  ar_sip :: "u8 list"
  ar_tha :: "u8 list"
  ar_tip :: "u8 list"

text \<open>The packed structure in memory, and reading it at an offset of a packet.\<close>

definition arp_bytes :: "arphdr \<Rightarrow> u8 list" where
  "arp_bytes h = le16 (ar_hrd h) @ le16 (ar_pro h) @ [ar_hln h, ar_pln h] @ le16 (ar_op h)
     @ ar_sha h @ ar_sip h @ ar_tha h @ ar_tip h"

subsection \<open>Operations\<close>

text \<open>
  \<^verbatim>\<open>arp_send\<close>. Without a destination the frame goes to the broadcast address; the buffer that
  holds it has left its block when it is used, and is taken to keep its bytes. The value of
  \<^verbatim>\<open>send\<close> is not looked at.
\<close>

definition arp_send ::
    "'c dev_ops \<Rightarrow> u16 \<Rightarrow> u16 \<Rightarrow> u32 \<Rightarrow> 'c net_device \<Rightarrow> u32 \<Rightarrow> u8 list option \<Rightarrow> u8 list option
     \<Rightarrow> u8 list option \<Rightarrow> ('c net_device \<times> int) res" where
  "arp_send ops ty ptype dest_ip dev src_ip dest_hw0 src_hw0 target_hw =
     (let src_hw = (case src_hw0 of None \<Rightarrow> dev_addr dev | Some a \<Rightarrow> a);
          dest_hw = (case dest_hw0 of None \<Rightarrow> broadcast | Some a \<Rightarrow> a)
      in rbind (kzalloc 14) (\<lambda>eth0.
         rbind (dev_hard_header ops eth0 dev ptype (Some dest_hw) (Some src_hw)) (\<lambda>(ret, eth).
           if ret < 0 then Inr (dev, 0)
           else
             rbind (copy_from (Some src_hw) 6) (\<lambda>sha.
             rbind (case target_hw of Some t \<Rightarrow> copy_from (Some t) 6
                                    | None \<Rightarrow> Inr (replicate 6 0)) (\<lambda>tha.
               let arp = \<lparr>ar_hrd = htons ARPHRD_ETHER, ar_pro = htons ETH_P_IP, ar_hln = 6, ar_pln = 4,
                          ar_op = htons ty, ar_sha = sha, ar_sip = le32 src_ip, ar_tha = tha,
                          ar_tip = le32 dest_ip\<rparr>
               in rmap (\<lambda>(dev', _). (dev', 0))
                    (dev_send ops dev (take 14 eth @ arp_bytes arp) 42))))))"

text \<open>
  \<^verbatim>\<open>arp_rcv\<close>. On the two handled operations the function ends without a return statement:
  its value is then unspecified (\<open>None\<close>).
\<close>

definition arp_rcv :: "'c dev_ops \<Rightarrow> u8 list \<Rightarrow> u32 \<Rightarrow> 'c net \<Rightarrow> ('c net \<times> int option) res" where
  "arp_rcv ops packet sz st =
     rbind (ld16 packet 14) (\<lambda>hrd.
     if hrd \<noteq> htons ARPHRD_ETHER then Inr (st, Some (-1))
     else
       rbind (ld16 packet 20) (\<lambda>oper.
       if oper \<noteq> htons ARPOP_REPLY \<and> oper \<noteq> htons ARPOP_REQUEST then Inr (st, Some (-1))
       else
         rbind (ld32 packet 28) (\<lambda>sip.
         if oper = htons ARPOP_REQUEST then
           rbind (ld32 packet 38) (\<lambda>tip.
           if tip = htonl (dev_ip (net_dev st)) then
             rbind (ld_bytes packet 22 6) (\<lambda>sha.
             rmap (\<lambda>(dev', _). (st\<lparr>net_dev := dev'\<rparr>, None))
               (arp_send ops ARPOP_REPLY ETH_P_ARP sip (net_dev st) (htonl (dev_ip (net_dev st)))
                  (Some sha) (Some (dev_addr (net_dev st))) (Some sha)))
           else Inr (st, None))
         else
           rbind (ld_bytes packet 22 6) (\<lambda>sha.
           rmap (\<lambda>m. (st\<lparr>arp_map := m\<rparr>, None)) (hash_put (arp_map st) sip sha)))))"

definition arp_find :: "'c net \<Rightarrow> u32 \<Rightarrow> u8 list option res" where
  "arp_find st ip = hash_get (arp_map st) (htonl ip)"

subsection \<open>The frames on the wire\<close>

text \<open>An ARP frame: Ethernet header and packet for IPv4 over Ethernet.\<close>

definition arp_frame :: "u8 list \<Rightarrow> u8 list \<Rightarrow> u16 \<Rightarrow> u16 \<Rightarrow> u32 \<Rightarrow> u8 list \<Rightarrow> u32 \<Rightarrow> u8 list" where
  "arp_frame dst src ptype oper sip tha tip =
     eth_bytes dst src ptype
     @ rev (le16 1) @ rev (le16 0x0800) @ [6, 4] @ rev (le16 oper)
     @ src @ le32 sip @ tha @ le32 tip"


lemma length_6E:
  assumes "length xs = 6"
  obtains a b c d e f where "xs = [a, b, c, d, e, f]"
proof -
  have "6 = Suc (Suc (Suc (Suc (Suc (Suc 0)))))" by simp
  with assms show thesis by (auto simp: length_Suc_conv intro: that)
qed

text \<open>The bytes 14 to 41 of a frame, read back field by field.\<close>

lemma arp_frame_fields:
  assumes "length d = 6" "length s = 6" "length t = 6"
  shows "ld16 (arp_frame d s p oper sip t tip) 14 = Inr (htons 1)"
    and "ld16 (arp_frame d s p oper sip t tip) 20 = Inr (htons oper)"
    and "ld_bytes (arp_frame d s p oper sip t tip) 22 6 = Inr s"
    and "ld32 (arp_frame d s p oper sip t tip) 28 = Inr sip"
    and "ld32 (arp_frame d s p oper sip t tip) 38 = Inr tip"
proof -
  obtain a1 a2 a3 a4 a5 a6 where d: "d = [a1, a2, a3, a4, a5, a6]" using assms(1) by (rule length_6E)
  obtain b1 b2 b3 b4 b5 b6 where s: "s = [b1, b2, b3, b4, b5, b6]" using assms(2) by (rule length_6E)
  obtain c1 c2 c3 c4 c5 c6 where t: "t = [c1, c2, c3, c4, c5, c6]" using assms(3) by (rule length_6E)
  let ?f = "arp_frame d s p oper sip t tip"
  have f: "?f = d @ s @ le16 (htons p) @ le16 (htons 1) @ le16 (htons 0x0800) @ [6, 4] @ le16 (htons oper)
      @ s @ le32 sip @ t @ le32 tip"
    by (simp add: arp_frame_def eth_bytes_def le16_htons)
  then have len: "length ?f = 42" using assms by simp
  show "ld16 ?f 14 = Inr (htons 1)" "ld16 ?f 20 = Inr (htons oper)"
    "ld_bytes ?f 22 6 = Inr s" "ld32 ?f 28 = Inr sip" "ld32 ?f 38 = Inr tip"
    using len unfolding f by (simp_all add: d s t get16_def get32_def le16_def le32_def)
qed

context ether_link
begin

lemma arp_send_frame:
  assumes "length d = 6" "length s = 6" "length t = 6"
  shows "arp_send ops oper ptype dip dev sip (Some d) (Some s) (Some t)
     = rmap (\<lambda>(dev', _). (dev', 0)) (dev_send ops dev (arp_frame d s ptype oper sip t dip) 42)"
  using assms hard_header[of "replicate 14 0" d s dev ptype]
  by (simp add: arp_send_def arp_frame_def arp_bytes_def arp_const le16_htons Let_def)

text \<open>With the default arguments: a broadcast request.\<close>

lemma arp_request_frame:
  assumes "length (dev_addr dev) = 6"
  shows "arp_send ops ARPOP_REQUEST ETH_P_ARP dip dev sip None None None
     = rmap (\<lambda>(dev', _). (dev', 0)) (dev_send ops dev
         (arp_frame broadcast (dev_addr dev) ETH_P_ARP ARPOP_REQUEST sip (replicate 6 0) dip) 42)"
  using assms hard_header[of "replicate 14 0" broadcast "dev_addr dev" dev ETH_P_ARP]
  by (simp add: arp_send_def arp_frame_def arp_bytes_def arp_const le16_htons Let_def broadcast_def)

lemma arp_rcv_reply:
  assumes "length d = 6" "length s = 6" "length t = 6"
  shows "arp_rcv ops (arp_frame d s p ARPOP_REPLY sip t tip) sz st
     = rmap (\<lambda>m. (st\<lparr>arp_map := m\<rparr>, None)) (hash_put (arp_map st) sip s)"
  using assms by (simp add: arp_rcv_def arp_frame_fields arp_const htons_def)

lemma arp_rcv_request:
  assumes "length d = 6" "length s = 6" "length t = 6" "length (dev_addr (net_dev st)) = 6"
    and "tip = htonl (dev_ip (net_dev st))"
  shows "arp_rcv ops (arp_frame d s p ARPOP_REQUEST sip t tip) sz st
     = rmap (\<lambda>(dev', _). (st\<lparr>net_dev := dev'\<rparr>, None))
         (dev_send ops (net_dev st)
           (arp_frame s (dev_addr (net_dev st)) ETH_P_ARP ARPOP_REPLY tip s sip) 42)"
proof -
  have "arp_rcv ops (arp_frame d s p ARPOP_REQUEST sip t tip) sz st
     = rmap (\<lambda>(dev', _). (st\<lparr>net_dev := dev'\<rparr>, None))
         (arp_send ops ARPOP_REPLY ETH_P_ARP sip (net_dev st) tip (Some s)
            (Some (dev_addr (net_dev st))) (Some s))"
    using assms(1-3,5) by (simp add: arp_rcv_def arp_frame_fields arp_const htons_def)
  also have "\<dots> = rmap (\<lambda>(dev', _). (st\<lparr>net_dev := dev'\<rparr>, None))
         (rmap (\<lambda>(dev', _). (dev', 0 :: int)) (dev_send ops (net_dev st)
           (arp_frame s (dev_addr (net_dev st)) ETH_P_ARP ARPOP_REPLY tip s sip) 42))"
    using assms(2,4) by (simp only: arp_send_frame)
  finally show ?thesis by (simp add: rmap_def split: sum.splits prod.splits)
qed

end

subsection \<open>Properties\<close>

text \<open>
  A request for the address of this host, from any sender, is answered with exactly one
  frame of 42 bytes: an ARP reply addressed to the sender that carries this host's hardware
  and protocol address. The address table is not changed.
\<close>

theorem arp_request_is_answered:
  assumes "length d = 6" and "length s = 6" and "length t = 6"
    and "length (dev_addr (net_dev st)) = 6"
    and "tip = htonl (dev_ip (net_dev st))"
  shows "arp_rcv (am79c793 pci rd va_data va_send va_recv) (arp_frame d s p ARPOP_REQUEST sip t tip) sz st
     = rmap (\<lambda>(dev', _). (st\<lparr>net_dev := dev'\<rparr>, None))
         (nic_send (net_dev st)
           (arp_frame s (dev_addr (net_dev st)) ETH_P_ARP ARPOP_REPLY tip s sip) 42)"
  using am79.arp_rcv_request[OF assms] by (simp add: dev_send_def am79c793_def)

theorem arp_request_is_answered_witness:
  "arp_rcv (am79c793 [] (\<lambda>_. 0) 0 0 0)
     (arp_frame broadcast [2,2,2,2,2,2] ETH_P_ARP ARPOP_REQUEST 0x0200000A (replicate 6 0) (htonl 0x0A000001)) 42
     \<lparr>arp_map = arp_init, net_dev = sample_dev (Some (sample_nic 0))\<rparr>
   = rmap (\<lambda>(dev', _). (\<lparr>arp_map = arp_init, net_dev = dev'\<rparr>, None))
       (nic_send (sample_dev (Some (sample_nic 0)))
         (arp_frame [2,2,2,2,2,2] (replicate 6 1) ETH_P_ARP ARPOP_REPLY (htonl 0x0A000001)
            [2,2,2,2,2,2] 0x0200000A) 42)"
  using arp_request_is_answered[of broadcast "[2,2,2,2,2,2]" "replicate 6 0"
      "\<lparr>arp_map = arp_init, net_dev = sample_dev (Some (sample_nic 0))\<rparr>" "htonl 0x0A000001"
      "[]" "\<lambda>_. 0" 0 0 0 ETH_P_ARP "0x0200000A" 42]
  by (simp add: sample_dev_def broadcast_def)

text \<open>
  A reply teaches its sender's address: after \<^verbatim>\<open>arp_rcv\<close> of a reply from an address that
  is not in the table yet, \<^verbatim>\<open>arp_find\<close> for that address (in host order) gives the sender's
  hardware address, and what \<^verbatim>\<open>arp_find\<close> gave for other known addresses it still gives.
\<close>

theorem arp_reply_is_learned:
  assumes "length d = 6" and "length s = 6" and "length t = 6"
    and "hm_inv (arp_map st)" and "hm_look (arp_map st) (htonl ip) = None" and "htonl ip \<noteq> 0"
  shows "\<exists>st'. arp_rcv (am79c793 pci rd va_data va_send va_recv)
                  (arp_frame d s p ARPOP_REPLY (htonl ip) t tip) sz st = Inr (st', None)
     \<and> arp_find st' ip = Inr (Some s) \<and> net_dev st' = net_dev st
     \<and> (\<forall>k mac. hm_look (arp_map st) (htonl k) = Some mac \<longrightarrow> arp_find st' k = Inr (Some mac))"
proof -
  obtain m where m: "hash_put (arp_map st) (htonl ip) s = Inr m" "hm_inv m"
    "hm_look m = (hm_look (arp_map st))(htonl ip \<mapsto> s)"
    using hash_put_fresh[OF assms(4,6,2,5)] by blast
  have "arp_find (st\<lparr>arp_map := m\<rparr>) ip = Inr (Some s)"
    using m by (simp add: arp_find_def hash_get_look)
  moreover have "arp_find (st\<lparr>arp_map := m\<rparr>) k = Inr (Some mac)"
    if "hm_look (arp_map st) (htonl k) = Some mac" for k mac
    using that m(2,3) assms(5) by (auto simp: arp_find_def intro!: hash_get_look)
  ultimately show ?thesis using am79.arp_rcv_reply[OF assms(1-3)] m(1) by auto
qed

theorem arp_reply_is_learned_witness:
  "\<exists>st'. arp_rcv (am79c793 [] (\<lambda>_. 0) 0 0 0)
           (arp_frame (replicate 6 1) [2,2,2,2,2,2] ETH_P_ARP ARPOP_REPLY (htonl 0x0A000002) (replicate 6 1) 0) 42
           \<lparr>arp_map = arp_init, net_dev = sample_dev None\<rparr> = Inr (st', None)
     \<and> arp_find st' 0x0A000002 = Inr (Some [2,2,2,2,2,2])"
proof -
  have z: "htonl 0x0A000002 \<noteq> 0" by (simp add: htonl_def Let_def)
  show ?thesis
    using arp_reply_is_learned[of "replicate 6 1" "[2,2,2,2,2,2]" "replicate 6 1"
        "\<lparr>arp_map = arp_init, net_dev = sample_dev None\<rparr>" "0x0A000002" "[]" "\<lambda>_. 0" 0 0 0 ETH_P_ARP 0 42] z
    by (auto simp: hm_inv_init)
qed

end
