(* ===== verification/Ip.thy ===== *)
theory Ip
  imports Arp Checksum
begin

text \<open>
  The sending half of net/ip.c: the IPv4 header, datagrams that fit one frame and the
  fragmentation of longer ones. Buffers are never freed after a send, which the model does
  not see.
\<close>

unbundle bit_operations_syntax

subsection \<open>The header\<close>

record iphdr =
  ihl :: u8
  version :: u8
  tos :: u8
  tot_len :: u16
  ip_id :: u16
  frag_off :: u16
  ttl :: u8
  protocol :: u8
  ip_check :: u16
  saddr :: u32
  daddr :: u32

text \<open>\<^verbatim>\<open>ihl\<close> and \<^verbatim>\<open>version\<close> are the two 4-bit fields of the first byte.\<close>

definition iphdr_bytes :: "iphdr \<Rightarrow> u8 list" where
  "iphdr_bytes h =
     [(ihl h AND 15) OR push_bit 4 (version h), tos h] @ le16 (tot_len h) @ le16 (ip_id h)
     @ le16 (frag_off h) @ [ttl h, protocol h] @ le16 (ip_check h) @ le32 (saddr h) @ le32 (daddr h)"

lemma length_iphdr_bytes [simp]: "length (iphdr_bytes h) = 20"
  by (simp add: iphdr_bytes_def)

text \<open>The header both branches fill in; the fields arrive in network order.\<close>

definition mk_iphdr :: "u8 \<Rightarrow> u16 \<Rightarrow> u16 \<Rightarrow> u16 \<Rightarrow> u32 \<Rightarrow> u32 \<Rightarrow> iphdr" where
  "mk_iphdr proto tot ident frag s d =
     \<lparr>ihl = 5, version = 4, tos = 0, tot_len = htons tot, ip_id = htons ident, frag_off = htons frag,
      ttl = 0x40, protocol = proto, ip_check = 0, saddr = htonl s, daddr = htonl d\<rparr>"

subsection \<open>One frame\<close>

text \<open>
  The part the branches share: a zeroed buffer, the link header (\<open>None\<close> when the driver
  refuses), the IP header, the payload, and last the checksum over the header.
\<close>

definition ip_build ::
    "'c dev_ops \<Rightarrow> 'c net_device \<Rightarrow> u8 list option \<Rightarrow> iphdr \<Rightarrow> u8 list \<Rightarrow> u32 \<Rightarrow> u8 list option res" where
  "ip_build ops dev dest_hw h payload bufsize =
     rbind (kzalloc bufsize) (\<lambda>b0.
     rbind (dev_hard_header ops b0 dev ETH_P_IP dest_hw (Some (dev_addr dev))) (\<lambda>(ret, b1).
       if ret < 0 then Inr None
       else
         rbind (put_bytes b1 14 (iphdr_bytes h)) (\<lambda>b2.
         rbind (put_bytes b2 34 payload) (\<lambda>b3.
         rbind (ip_hdr_checksum (drop 14 b3) 20) (\<lambda>c.
         rmap Some (put_bytes b3 24 (le16 (htons c))))))))"

subsection \<open>Fragmentation\<close>

definition ip_mtu :: u32 where "ip_mtu = 1500 - 20"

text \<open>\<^verbatim>\<open>current_size\<close> of the next fragment when \<open>sz\<close> bytes are left.\<close>

definition frag_size :: "u16 \<Rightarrow> u32" where
  "frag_size sz =
     (let c = (if ucast sz > ip_mtu then ip_mtu else ucast sz)
      in if c < ucast sz then c AND NOT 7 else c)"

lemma unat_frag_size: "unat (frag_size sz) = min 1480 (unat sz)"
  by (simp add: frag_size_def ip_mtu_def Let_def word_less_nat_alt unat_widen)

lemma frag_step:
  assumes "sz \<noteq> 0"
  shows "unat (sz - ucast (frag_size sz)) = unat sz - min 1480 (unat sz)"
    and "unat (sz - ucast (frag_size sz)) < unat sz"
proof -
  have u: "unat (ucast (frag_size sz) :: u16) = min 1480 (unat sz)"
    by (simp add: unat_narrow_16 unat_frag_size)
  then have "(ucast (frag_size sz) :: u16) \<le> sz" by (simp add: word_le_nat_alt)
  then show e: "unat (sz - ucast (frag_size sz)) = unat sz - min 1480 (unat sz)"
    using u by (simp add: unat_sub)
  have "0 < unat sz" using assms by (simp add: unat_gt_0)
  then show "unat (sz - ucast (frag_size sz)) < unat sz" using e by simp
qed

function frag_loop ::
    "'c dev_ops \<Rightarrow> u8 list option \<Rightarrow> u8 \<Rightarrow> u16 \<Rightarrow> u32 \<Rightarrow> u32 \<Rightarrow> 'c net_device \<Rightarrow> u8 list \<Rightarrow> u16 \<Rightarrow> u32
     \<Rightarrow> ('c net_device \<times> int) res" where
  "frag_loop ops dest_hw proto ident dest_ip src_ip dev data sz foff =
     (if sz = 0 then Inr (dev, 0)
      else
        (let cur = frag_size sz;
             bufsize = 14 + cur;
             tsize = cur - 20;
             fo = (if ucast sz > ip_mtu then 0x2000 else 0) OR ucast foff
         in case rbind (ld_bytes data 0 (unat tsize)) (\<lambda>payload.
                   ip_build ops dev dest_hw (mk_iphdr proto (ucast cur) ident fo src_ip dest_ip) payload bufsize)
            of Inl e \<Rightarrow> Inl e
             | Inr None \<Rightarrow> Inr (dev, -1)
             | Inr (Some frame) \<Rightarrow>
                 (case dev_send ops dev frame (int (unat bufsize)) of
                    Inl e \<Rightarrow> Inl e
                  | Inr (dev', ret) \<Rightarrow>
                      if ret < 0 then Inr (dev', ret)
                      else frag_loop ops dest_hw proto ident dest_ip src_ip dev'
                             (drop (unat tsize) data) (sz - ucast cur) (foff + cur div 8))))"
  by pat_completeness auto
termination
  by (relation "measure (\<lambda>(_, _, _, _, _, _, _, _, sz, _). unat sz)") (auto intro: frag_step(2))

declare frag_loop.simps [simp del]

subsection \<open>Sending a datagram\<close>

text \<open>The first test, \<^verbatim>\<open>size>IPV4_MAX_LEN\<close> (65535), cannot hold for an \<^verbatim>\<open>unsigned short\<close>.\<close>

definition ip_send ::
    "'c dev_ops \<Rightarrow> u8 \<Rightarrow> u16 \<Rightarrow> u32 \<Rightarrow> u32 \<Rightarrow> u8 list \<Rightarrow> u16 \<Rightarrow> 'c net \<Rightarrow> ('c net \<times> int) res" where
  "ip_send ops proto ident dest_ip0 src_ip data sz st =
     (let dest_ip = (if dest_ip0 = 0 then 0xFFFFFFFF else dest_ip0);
          dev = net_dev st
      in rbind (if dest_ip0 = 0 then Inr (Some broadcast) else arp_find st dest_ip0) (\<lambda>dest_hw.
           if dest_hw = None then Inr (st, -1)
           else if ip_mtu < ucast sz then
             rmap (\<lambda>(dev', r). (st\<lparr>net_dev := dev'\<rparr>, r))
               (frag_loop ops dest_hw proto ident dest_ip src_ip dev data sz 0)
           else
             (let bufsize = 14 + 20 + ucast sz
              in rbind (ld_bytes data 0 (unat sz)) (\<lambda>payload.
                 rbind (ip_build ops dev dest_hw (mk_iphdr proto (20 + sz) ident 0x4000 src_ip dest_ip)
                          payload bufsize) (\<lambda>fr.
                   case fr of
                     None \<Rightarrow> Inr (st, -1)
                   | Some frame \<Rightarrow>
                       rmap (\<lambda>(dev', r). (st\<lparr>net_dev := dev'\<rparr>, r))
                         (dev_send ops dev frame (int (unat bufsize))))))))"

subsection \<open>The frames on the wire\<close>

text \<open>The header with its checksum filled in.\<close>

definition ip_header :: "iphdr \<Rightarrow> u8 list" where
  "ip_header h = iphdr_bytes (h\<lparr>ip_check := htons (cksum_fold (of_nat (wsum (iphdr_bytes (h\<lparr>ip_check := 0\<rparr>)))))\<rparr>)"

definition ip_frame :: "u8 list \<Rightarrow> u8 list \<Rightarrow> iphdr \<Rightarrow> u8 list \<Rightarrow> u8 list" where
  "ip_frame dst src h payload = eth_bytes dst src ETH_P_IP @ ip_header h @ payload"

lemma iphdr_bytes_split:
  "iphdr_bytes h = take 10 (iphdr_bytes h) @ le16 (ip_check h) @ drop 12 (iphdr_bytes h)"
  by (simp add: iphdr_bytes_def le16_def)

lemma iphdr_bytes_check:
  "take 10 (iphdr_bytes (h\<lparr>ip_check := c\<rparr>)) = take 10 (iphdr_bytes h)"
  "drop 12 (iphdr_bytes (h\<lparr>ip_check := c\<rparr>)) = drop 12 (iphdr_bytes h)"
  by (simp_all add: iphdr_bytes_def le16_def)

lemma ip_hdr_checksum_prefix:
  assumes "int (length xs) = n" "length xs \<le> 131072"
  shows "ip_hdr_checksum (xs @ ys) n = Inr (cksum_fold (of_nat (wsum xs)))"
proof -
  have "cksum_loop (xs @ ys) (int (length xs)) 0 = cksum_loop xs (int (length xs)) 0"
    using cksum_loop_prefix[of "length xs" "xs @ ys" 0] by simp
  then show ?thesis unfolding assms(1)[symmetric] by (simp add: ip_hdr_checksum_def cksum_loop_eq)
qed

lemma length_ip_header [simp]: "length (ip_header h) = 20"
  by (simp add: ip_header_def)

lemma ip_header_verifies:
  "ip_hdr_checksum (ip_header h @ r) 20 = Inr 0"
proof -
  let ?h0 = "h\<lparr>ip_check := 0\<rparr>"
  let ?c = "cksum_fold (of_nat (wsum (iphdr_bytes ?h0)))"
  let ?xs = "take 10 (iphdr_bytes h)" and ?ys = "drop 12 (iphdr_bytes h)"
  have s0: "iphdr_bytes ?h0 = ?xs @ le16 0 @ ?ys"
    by (subst iphdr_bytes_split) (simp add: iphdr_bytes_check)
  have s1: "ip_header h = ?xs @ le16 (htons ?c) @ ?ys"
    unfolding ip_header_def by (subst iphdr_bytes_split) (simp add: iphdr_bytes_check)
  have "ip_hdr_checksum (?xs @ le16 0 @ ?ys) (int (length (?xs @ le16 0 @ ?ys))) = Inr ?c"
    using ip_hdr_checksum_prefix[of "iphdr_bytes ?h0" 20 "[]"] by (simp add: s0)
  then have "ip_hdr_checksum (ip_header h) (int (length (ip_header h))) = Inr 0"
    unfolding s1 by (intro checksum_fill) simp_all
  then show ?thesis
    using ip_hdr_checksum_prefix[of "ip_header h" 20 r] ip_hdr_checksum_prefix[of "ip_header h" 20 "[]"]
    by simp
qed

lemma mk_iphdr_check [simp]: "ip_check (mk_iphdr p t i f s d) = 0" "(mk_iphdr p t i f s d)\<lparr>ip_check := 0\<rparr> = mk_iphdr p t i f s d"
  by (simp_all add: mk_iphdr_def)

text \<open>Sending frames one after the other until one is refused.\<close>

fun send_all :: "'c dev_ops \<Rightarrow> 'c net_device \<Rightarrow> u8 list list \<Rightarrow> ('c net_device \<times> int) res" where
  "send_all ops dev [] = Inr (dev, 0)"
| "send_all ops dev (f # fs) =
     rbind (dev_send ops dev f (int (length f))) (\<lambda>(dev', r).
       if r < 0 then Inr (dev', r) else send_all ops dev' fs)"

text \<open>The k-th fragment of a datagram of n bytes as the code makes it.\<close>

definition frag_count :: "nat \<Rightarrow> nat" where
  "frag_count n = (n + 1479) div 1480"

definition frag_hdr :: "u8 \<Rightarrow> u16 \<Rightarrow> u32 \<Rightarrow> u32 \<Rightarrow> nat \<Rightarrow> nat \<Rightarrow> iphdr" where
  "frag_hdr proto ident s d n k =
     mk_iphdr proto (of_nat (min 1480 (n - 1480 * k))) ident
       ((if 1480 < n - 1480 * k then 0x2000 else 0) OR of_nat (185 * k)) s d"

definition frag_payload :: "u8 list \<Rightarrow> nat \<Rightarrow> nat \<Rightarrow> u8 list" where
  "frag_payload data n k = take (min 1480 (n - 1480 * k) - 20) (drop (1460 * k) data)"

context ether_link
begin

lemma ip_build_frame:
  assumes "length d = 6" "length (dev_addr dev) = 6" "bufsize \<le> 4096"
    and "unat bufsize = 34 + length payload" "ip_check h = 0"
  shows "ip_build ops dev (Some d) h payload bufsize = Inr (Some (ip_frame d (dev_addr dev) h payload))"
proof -
  let ?e = "eth_bytes d (dev_addr dev) ETH_P_IP"
  let ?z = "replicate (length payload) (0 :: u8)"
  have b1: "dev_hard_header ops (replicate (unat bufsize) 0) dev ETH_P_IP (Some d) (Some (dev_addr dev))
      = Inr (0, ?e @ replicate (20 + length payload) 0)"
    using hard_header[of "replicate (unat bufsize) 0" d "dev_addr dev" dev ETH_P_IP] assms by simp
  have b2: "put_bytes (?e @ replicate (20 + length payload) 0) 14 (iphdr_bytes h) = Inr (?e @ iphdr_bytes h @ ?z)"
    using assms by simp
  have b3: "put_bytes (?e @ iphdr_bytes h @ ?z) 34 payload = Inr (?e @ iphdr_bytes h @ payload)"
    using assms by simp
  have hc: "h\<lparr>ip_check := 0\<rparr> = h" using assms(5) by simp
  let ?c = "cksum_fold (of_nat (wsum (iphdr_bytes h)))"
  have c: "ip_hdr_checksum (drop 14 (?e @ iphdr_bytes h @ payload)) 20 = Inr ?c"
    using ip_hdr_checksum_prefix[of "iphdr_bytes h" 20 payload] assms by simp
  have "put_bytes (?e @ iphdr_bytes h @ payload) 24 (le16 (htons ?c))
      = Inr (?e @ take 10 (iphdr_bytes h) @ le16 (htons ?c) @ drop 12 (iphdr_bytes h) @ payload)"
    using assms by simp
  also have "take 10 (iphdr_bytes h) @ le16 (htons ?c) @ drop 12 (iphdr_bytes h) @ payload = ip_header h @ payload"
    unfolding ip_header_def hc
    by (subst iphdr_bytes_split[of "h\<lparr>ip_check := htons ?c\<rparr>"]) (simp add: iphdr_bytes_check)
  finally show ?thesis
    using assms(3) b1 b2 b3 c by (simp add: ip_build_def ip_frame_def)
qed

lemma ip_send_small:
  assumes "length d = 6" "length (dev_addr (net_dev st)) = 6"
    and "dip = 0 \<and> d = broadcast \<or> dip \<noteq> 0 \<and> arp_find st dip = Inr (Some d)"
    and "unat sz \<le> 1480" "unat sz \<le> length data"
  shows "ip_send ops proto ident dip sip data sz st
     = rmap (\<lambda>(dev', r). (st\<lparr>net_dev := dev'\<rparr>, r))
         (dev_send ops (net_dev st)
            (ip_frame d (dev_addr (net_dev st))
               (mk_iphdr proto (20 + sz) ident 0x4000 sip (if dip = 0 then 0xFFFFFFFF else dip))
               (take (unat sz) data)) (34 + int (unat sz)))"
proof -
  have hw: "(if dip = 0 then Inr (Some broadcast) else arp_find st dip) = Inr (Some d)"
    using assms(3) by auto
  have n: "\<not> ip_mtu < ucast sz" using assms(4) by (simp add: ip_mtu_def word_less_nat_alt unat_widen)
  have u: "unat (34 + (ucast sz :: u32)) = 34 + unat sz"
    using assms(4) by (simp add: unat_word_ariths unat_widen)
  then have uu: "uint (34 + (ucast sz :: u32)) = 34 + uint sz" by (metis of_nat_add of_nat_numeral uint_nat)
  from u have "(34 :: u32) + ucast sz \<le> 4096" using assms(4) by (simp add: word_le_nat_alt)
  from ip_build_frame[OF assms(1,2) this, of "take (unat sz) data"] u assms(5)
  show ?thesis using hw n uu assms(5) by (simp add: ip_send_def Let_def)
qed

lemma frag_loop_send_all:
  assumes "n \<le> 65535" "n \<le> length data" "length d = 6" "n mod 1480 = 0 \<or> 20 \<le> n mod 1480"
    and "length a = 6"
  shows "dev_addr dev = a \<Longrightarrow> k \<le> frag_count n \<Longrightarrow>
    frag_loop ops (Some d) proto ident dip sip dev (drop (1460 * k) data)
      (of_nat (n - 1480 * k)) (of_nat (185 * k))
    = send_all ops dev (map (\<lambda>i. ip_frame d a (frag_hdr proto ident sip dip n i) (frag_payload data n i))
        [k..<frag_count n])"
proof (induction "frag_count n - k" arbitrary: k dev)
  case 0
  then have "n - 1480 * k = 0" by (simp add: frag_count_def)
  then show ?case using 0 by (subst frag_loop.simps) simp
next
  case (Suc j)
  then have k: "k < frag_count n" by simp
  then have r: "0 < n - 1480 * k" by (simp add: frag_count_def)
  define rest where "rest = n - 1480 * k"
  define sz where "sz = (of_nat rest :: u16)"
  have rest: "0 < rest" "rest \<le> 65535" using r assms(1) by (simp_all add: rest_def)
  then have usz: "unat sz = rest" by (simp add: sz_def unat_of_nat)
  then have sz0: "sz \<noteq> 0" using rest by auto
  have cur: "unat (frag_size sz) = min 1480 rest" by (simp add: unat_frag_size usz)
  have ge: "20 \<le> min 1480 rest"
  proof (cases "1480 \<le> rest")
    case False
    moreover have "n = 1480 * k + rest" using r by (simp add: rest_def)
    ultimately have "rest = n mod 1480" by simp
    then show ?thesis using rest assms(4) by auto
  qed simp
  have "(20 :: u32) \<le> frag_size sz" using cur ge by (simp add: word_le_nat_alt)
  then have t: "unat (frag_size sz - 20) = min 1480 rest - 20" using cur by (simp add: unat_sub)
  have b: "unat (14 + frag_size sz) = 14 + min 1480 rest" using cur by (simp add: unat_word_ariths)
  then have b': "14 + frag_size sz \<le> 4096" by (simp add: word_le_nat_alt)
  have dl: "min 1480 rest - 20 \<le> length (drop (1460 * k) data)"
    using assms(2) rest by (auto simp: rest_def)
  have pl: "take (min 1480 rest - 20) (drop (1460 * k) data) = frag_payload data n k"
    by (simp add: frag_payload_def rest_def)
  have pll: "length (frag_payload data n k) = min 1480 rest - 20" using dl by (simp flip: pl)
  let ?h = "frag_hdr proto ident sip dip n k"
  have h: "mk_iphdr proto (ucast (frag_size sz)) ident
      ((if ip_mtu < ucast sz then 0x2000 else 0) OR ucast (of_nat (185 * k) :: u32)) sip dip = ?h"
  proof -
    have "(ucast (frag_size sz) :: u16) = of_nat (min 1480 rest)"
      by (rule word_unat_eq_iff[THEN iffD2]) (simp add: unat_narrow_16 cur unat_of_nat)
    moreover have "ip_mtu < ucast sz \<longleftrightarrow> 1480 < rest"
      by (simp add: ip_mtu_def word_less_nat_alt unat_widen usz)
    moreover have "(ucast (of_nat (185 * k) :: u32) :: u16) = of_nat (185 * k)"
      by (rule ucast_of_nat_16)
    ultimately show ?thesis by (simp add: frag_hdr_def rest_def)
  qed
  have build: "ip_build ops dev (Some d) ?h (frag_payload data n k) (14 + frag_size sz)
      = Inr (Some (ip_frame d a ?h (frag_payload data n k)))"
    using ip_build_frame[of d dev "14 + frag_size sz" "frag_payload data n k" ?h]
      assms(3,5) Suc.prems(1) b b' pll ge by (simp add: frag_hdr_def)
  have fl: "int (length (ip_frame d a ?h (frag_payload data n k))) = int (unat (14 + frag_size sz))"
    using assms(3,5) pll ge by (simp add: ip_frame_def b)
  have nsz: "sz - ucast (frag_size sz) = of_nat (n - 1480 * Suc k)"
  proof (rule word_unat_eq_iff[THEN iffD2])
    have "unat (sz - ucast (frag_size sz)) = rest - min 1480 rest"
      using frag_step(1)[OF sz0] usz by simp
    then show "unat (sz - ucast (frag_size sz)) = unat (of_nat (n - 1480 * Suc k) :: u16)"
      using assms(1) by (simp add: rest_def unat_of_nat)
  qed
  have step: "frag_loop ops (Some d) proto ident dip sip dev (drop (1460 * k) data) sz (of_nat (185 * k))
      = rbind (dev_send ops dev (ip_frame d a ?h (frag_payload data n k)) (int (unat (14 + frag_size sz))))
          (\<lambda>(dev', ret). if ret < 0 then Inr (dev', ret)
             else frag_loop ops (Some d) proto ident dip sip dev' (drop (min 1480 rest - 20) (drop (1460 * k) data))
               (of_nat (n - 1480 * Suc k)) (of_nat (185 * k) + frag_size sz div 8))"
    using sz0 t dl pl h build nsz
    by (subst frag_loop.simps) (simp add: Let_def rbind_def split: sum.splits prod.splits)
  have fold_sz: "of_nat (n - 1480 * k) = sz" by (simp add: sz_def rest_def)
  let ?F = "\<lambda>i. ip_frame d a (frag_hdr proto ident sip dip n i) (frag_payload data n i)"
  have upt_k: "[k..<frag_count n] = k # [Suc k..<frag_count n]" using k by (rule upt_conv_Cons)
  show ?case
  proof (cases "Suc k < frag_count n")
    case True
    then have "1480 < rest" using k by (simp add: rest_def frag_count_def)
    then have m: "min 1480 rest = 1480" by simp
    have "frag_size sz = 1480" using cur m by (simp add: word_unat_eq_iff)
    then have fo: "of_nat (185 * k) + frag_size sz div 8 = of_nat (185 * Suc k)" by simp
    have dd: "drop (min 1480 rest - 20) (drop (1460 * k) data) = drop (1460 * Suc k) data"
      by (simp add: m add.commute)
    have ih: "frag_loop ops (Some d) proto ident dip sip dev' (drop (1460 * Suc k) data)
            (of_nat (n - 1480 * Suc k)) (of_nat (185 * Suc k))
        = send_all ops dev' (map ?F [Suc k..<frag_count n])" if "dev_addr dev' = a" for dev'
      using Suc.hyps(1)[of "Suc k" dev'] Suc.hyps(2) that k by simp
    show ?thesis
      unfolding fold_sz step[unfolded dd fo] upt_k list.map send_all.simps fl
      by (rule rbind_cong) (use ih Suc.prems(1) in \<open>auto dest!: send_keeps_address\<close>)
  next
    case False
    then have l: "Suc k = frag_count n" using k by simp
    then have z: "(of_nat (n - 1480 * Suc k) :: u16) = 0" by (simp add: frag_count_def)
    have stop: "frag_loop ops (Some d) proto ident dip sip dev' xs 0 f = Inr (dev', 0)" for dev' xs f
      by (subst frag_loop.simps) simp
    show ?thesis
      unfolding fold_sz step[unfolded z stop] upt_k list.map send_all.simps fl
      by (rule rbind_cong) (use l in auto)
  qed
qed

end

lemma frag_payload_concat:
  assumes "n \<le> length data"
  shows "j < frag_count n \<Longrightarrow> concat (map (frag_payload data n) [0..<j]) = take (1460 * j) data"
proof (induction j)
  case (Suc j)
  then have "1480 < n - 1480 * j" by (simp add: frag_count_def)
  then have "frag_payload data n j = take 1460 (drop (1460 * j) data)" by (simp add: frag_payload_def)
  then show ?case using Suc by (simp add: take_add[of "1460 * j" 1460 data, symmetric] add.commute)
qed simp

lemma frag_payload_all:
  assumes "n \<le> length data" "0 < n" "n mod 1480 = 0 \<or> 20 \<le> n mod 1480"
  shows "concat (map (frag_payload data n) [0..<frag_count n]) = take (n - 20 * frag_count n) data"
proof -
  obtain j where j: "frag_count n = Suc j" using assms(2) by (cases "frag_count n") (auto simp: frag_count_def)
  then have r: "n - 1480 * j \<le> 1480" "1480 * j < n" by (auto simp: frag_count_def)
  have ge: "20 \<le> n - 1480 * j"
  proof (cases "n - 1480 * j = 1480")
    case False
    then have "n - 1480 * j < 1480" using r by simp
    moreover have "n = 1480 * j + (n - 1480 * j)" using r by simp
    ultimately have "n mod 1480 = n - 1480 * j" by (metis mod_less mod_mult_self4)
    then show ?thesis using assms(3) r by auto
  qed simp
  have "concat (map (frag_payload data n) [0..<Suc j])
      = take (1460 * j) data @ take (n - 1480 * j - 20) (drop (1460 * j) data)"
    using frag_payload_concat[OF assms(1), of j] j r by (simp add: frag_payload_def)
  also have "\<dots> = take (1460 * j + (n - 1480 * j - 20)) data" by (rule take_add[symmetric])
  also have "1460 * j + (n - 1480 * j - 20) = n - 20 * Suc j" using ge r by simp
  finally show ?thesis by (simp add: j)
qed

subsection \<open>Properties\<close>

text \<open>
  C27. A datagram of up to 1480 bytes to a resolved (or broadcast) address becomes exactly one
  frame: link header to that address, an IPv4 header with the total length, the identifier,
  "don't fragment", the protocol and both addresses in network order, and the data. The
  checksum in that header is the one the receiver's test accepts.
\<close>

theorem ip_send_single_frame:
  assumes "length d = 6" and "length (dev_addr (net_dev st)) = 6"
    and "dip = 0 \<and> d = broadcast \<or> dip \<noteq> 0 \<and> arp_find st dip = Inr (Some d)"
    and "unat sz \<le> 1480" and "unat sz \<le> length data"
    and "h = mk_iphdr proto (20 + sz) ident 0x4000 sip (if dip = 0 then 0xFFFFFFFF else dip)"
  shows "ip_send (am79c793 pci rd va_data va_send va_recv) proto ident dip sip data sz st
     = rmap (\<lambda>(dev', r). (st\<lparr>net_dev := dev'\<rparr>, r))
         (nic_send (net_dev st)
            (ip_frame d (dev_addr (net_dev st)) h (take (unat sz) data)) (34 + int (unat sz)))
     \<and> ip_hdr_checksum (ip_header h @ take (unat sz) data) 20 = Inr 0"
proof -
  have "dev_send (am79c793 pci rd va_data va_send va_recv) = nic_send"
    by (simp add: fun_eq_iff dev_send_def am79c793_def)
  then show ?thesis
    using am79.ip_send_small[OF assms(1-5), of pci rd va_data va_send va_recv] assms(6)
    by (simp only: ip_header_verifies)
qed

theorem ip_send_single_frame_witness:
  "ip_send (am79c793 [] (\<lambda>_. 0) 0 0 0) 1 7 0 0x0A000001 [8, 0] 2
       \<lparr>arp_map = arp_init, net_dev = sample_dev (Some (sample_nic 0))\<rparr>
     = rmap (\<lambda>(dev', r). (\<lparr>arp_map = arp_init, net_dev = dev'\<rparr>, r))
         (nic_send (sample_dev (Some (sample_nic 0)))
            (ip_frame broadcast (replicate 6 1) (mk_iphdr 1 22 7 0x4000 0x0A000001 0xFFFFFFFF) [8, 0]) 36)"
  using ip_send_single_frame[of broadcast "\<lparr>arp_map = arp_init, net_dev = sample_dev (Some (sample_nic 0))\<rparr>"
      0 2 "[8, 0]" "mk_iphdr 1 22 7 0x4000 0x0A000001 0xFFFFFFFF" 1 7 "0x0A000001" "[]" "\<lambda>_. 0" 0 0 0]
  by (simp add: sample_dev_def broadcast_def)

text \<open>
  What fragmentation does to a datagram of n bytes, n above 1480: it is sent as
  \<open>frag_count n\<close> frames in order until one is refused; fragment k claims the offset 1480 k but
  carries the bytes from 1460 k on, and all fragments together carry only the first
  \<open>n - 20 * frag_count n\<close> bytes: 20 bytes per fragment are never sent.
\<close>

theorem ip_fragments_drop_twenty_bytes_each:
  assumes "length d = 6" and "length (dev_addr (net_dev st)) = 6"
    and "dip \<noteq> 0" and "arp_find st dip = Inr (Some d)"
    and "1480 < n" and "n \<le> 65535" and "n \<le> length data"
    and "n mod 1480 = 0 \<or> 20 \<le> n mod 1480"
  shows "ip_send (am79c793 pci rd va_data va_send va_recv) proto ident dip sip data (of_nat n) st
     = rmap (\<lambda>(dev', r). (st\<lparr>net_dev := dev'\<rparr>, r))
         (send_all (am79c793 pci rd va_data va_send va_recv) (net_dev st)
            (map (\<lambda>k. ip_frame d (dev_addr (net_dev st)) (frag_hdr proto ident sip dip n k) (frag_payload data n k))
               [0..<frag_count n]))
     \<and> concat (map (frag_payload data n) [0..<frag_count n]) = take (n - 20 * frag_count n) data"
proof -
  have "ip_mtu < ucast (of_nat n :: u16)"
    using assms(5,6) by (simp add: ip_mtu_def word_less_nat_alt unat_widen unat_of_nat)
  then show ?thesis
    using am79.frag_loop_send_all[OF assms(6,7,1,8,2) refl, of 0 pci rd va_data va_send va_recv proto ident dip sip]
      assms(3,4) frag_payload_all[OF assms(7) _ assms(8)] assms(5)
    by (simp add: ip_send_def Let_def)
qed

definition sample_map :: hash_map where
  "sample_map = \<lparr>hm_size = 1, hm_list_size = 1, hm_list = Some [(\<lparr>e_ip = 0x0200000A, e_mac = replicate 6 2\<rparr>, [])]\<rparr>"

lemma sample_map_find: "hash_get sample_map (htonl 0x0A000002) = Inr (Some (replicate 6 2))"
  by (simp add: hash_get_def hash_code_def sample_map_def htonl_def Let_def)

theorem ip_fragments_drop_twenty_bytes_each_witness:
  "concat (map (frag_payload (replicate 3000 1) 3000) [0..<frag_count 3000]) = replicate 2940 1"
  using ip_fragments_drop_twenty_bytes_each[of "replicate 6 2"
      "\<lparr>arp_map = sample_map, net_dev = sample_dev (Some (sample_nic 0))\<rparr>" "0x0A000002" 3000
      "replicate 3000 1" "[]" "\<lambda>_. 0" 0 0 0 17 1 "0x0A000001"]
  by (simp add: sample_dev_def arp_find_def sample_map_find frag_count_def)

end
