(* ===== verification/Icmp.thy ===== *)
theory Icmp
  imports Ip
begin

text \<open>
  net/icmp.c: the ICMP messages this system sends and its handler for received ones. A
  message is a type, a code, a checksum and two 16-bit fields, followed by a body.
\<close>

unbundle bit_operations_syntax

definition ICMP_ECHOREPLY :: u8 where "ICMP_ECHOREPLY = 0"
definition ICMP_ECHO :: u8 where "ICMP_ECHO = 8"
definition ICMP_NET_ANO :: u8 where "ICMP_NET_ANO = 9"
definition ICMP_HOST_ANO :: u8 where "ICMP_HOST_ANO = 10"
definition ICMP_TIMESTAMP :: u8 where "ICMP_TIMESTAMP = 13"
definition ICMP_TIMESTAMPREPLY :: u8 where "ICMP_TIMESTAMPREPLY = 14"
definition ICMP_ADDRESS :: u8 where "ICMP_ADDRESS = 17"
definition ICMP_ADDRESSREPLY :: u8 where "ICMP_ADDRESSREPLY = 18"
definition IP_P_ICMP :: u8 where "IP_P_ICMP = 1"

lemmas icmp_const = ICMP_ECHOREPLY_def ICMP_ECHO_def ICMP_NET_ANO_def ICMP_HOST_ANO_def
  ICMP_TIMESTAMP_def ICMP_TIMESTAMPREPLY_def ICMP_ADDRESS_def ICMP_ADDRESSREPLY_def IP_P_ICMP_def

record icmphdr =
  icmp_type :: u8
  icmp_code :: u8
  icmp_checksum :: u16
  icmp_echo_id :: u16
  icmp_echo_sequence :: u16

definition icmphdr_bytes :: "icmphdr \<Rightarrow> u8 list" where
  "icmphdr_bytes h = [icmp_type h, icmp_code h] @ le16 (icmp_checksum h)
     @ le16 (icmp_echo_id h) @ le16 (icmp_echo_sequence h)"

lemma length_icmphdr_bytes [simp]: "length (icmphdr_bytes h) = 8"
  by (simp add: icmphdr_bytes_def)

subsection \<open>Sending\<close>

text \<open>A message in a zeroed buffer of \<open>tsize\<close> bytes, then its checksum.\<close>

definition icmp_build :: "u8 \<Rightarrow> u16 \<Rightarrow> u16 \<Rightarrow> u8 list \<Rightarrow> u32 \<Rightarrow> u8 list res" where
  "icmp_build ty ident sequence body tsize =
     rbind (kzalloc tsize) (\<lambda>b0.
     rbind (put_bytes b0 0 (icmphdr_bytes \<lparr>icmp_type = ty, icmp_code = 0, icmp_checksum = 0,
              icmp_echo_id = htons ident, icmp_echo_sequence = htons sequence\<rparr>)) (\<lambda>b1.
     rbind (put_bytes b1 8 body) (\<lambda>b2.
     rbind (ip_hdr_checksum b2 (sint tsize)) (\<lambda>c.
       put_bytes b2 2 (le16 (htons c))))))"

text \<open>Hand a built message to IP; its result is dropped and 0 returned.\<close>

definition icmp_transmit ::
    "'c dev_ops \<Rightarrow> u16 \<Rightarrow> u32 \<Rightarrow> u8 list \<Rightarrow> u32 \<Rightarrow> 'c net \<Rightarrow> ('c net \<times> int) res" where
  "icmp_transmit ops ident dest_ip msg tsize st =
     rmap (\<lambda>(st', _). (st', 0))
       (ip_send ops IP_P_ICMP ident dest_ip (dev_ip (net_dev st)) msg (ucast tsize) st)"

text \<open>\<^verbatim>\<open>icmp_send\<close> is a stub: everything but its default argument is commented out.\<close>

definition icmp_send :: "'c net \<Rightarrow> ('c net \<times> int) res" where
  "icmp_send st = Inr (st, 0)"

definition icmp_echo :: "'c dev_ops \<Rightarrow> u16 \<Rightarrow> u16 \<Rightarrow> u32 \<Rightarrow> 'c net \<Rightarrow> ('c net \<times> int) res" where
  "icmp_echo ops ident sequence dest_ip st =
     rbind (icmp_build ICMP_ECHO ident sequence [] 8) (\<lambda>m.
       icmp_transmit ops sequence dest_ip m 8 st)"

definition icmp_echoreply ::
    "'c dev_ops \<Rightarrow> u16 \<Rightarrow> u16 \<Rightarrow> u32 \<Rightarrow> u8 list \<Rightarrow> u32 \<Rightarrow> 'c net \<Rightarrow> ('c net \<times> int) res" where
  "icmp_echoreply ops ident sequence dest_ip data data_size st =
     rbind (kzalloc (8 + data_size)) (\<lambda>_.
     rbind (ld_bytes data 0 (unat data_size)) (\<lambda>body.
     rbind (icmp_build ICMP_ECHOREPLY ident sequence body (8 + data_size)) (\<lambda>m.
       icmp_transmit ops sequence dest_ip m (8 + data_size) st)))"

definition icmp_address :: "'c dev_ops \<Rightarrow> u16 \<Rightarrow> u16 \<Rightarrow> u32 \<Rightarrow> 'c net \<Rightarrow> ('c net \<times> int) res" where
  "icmp_address ops ident sequence dest_ip st =
     rbind (icmp_build ICMP_ADDRESS ident sequence (le32 0) 12) (\<lambda>m.
       icmp_transmit ops sequence dest_ip m 12 st)"

definition icmp_timestamp :: "'c dev_ops \<Rightarrow> u16 \<Rightarrow> u16 \<Rightarrow> u32 \<Rightarrow> u32 \<Rightarrow> 'c net \<Rightarrow> ('c net \<times> int) res" where
  "icmp_timestamp ops ident sequence dest_ip origin st =
     rbind (icmp_build ICMP_TIMESTAMP ident sequence (le32 (htonl origin)) 20) (\<lambda>m.
       icmp_transmit ops sequence dest_ip m 20 st)"

definition icmp_hostano :: "'c dev_ops \<Rightarrow> u32 \<Rightarrow> 'c net \<Rightarrow> ('c net \<times> int) res" where
  "icmp_hostano ops dest_ip st =
     rbind (icmp_build ICMP_HOST_ANO 0 0 [] 8) (\<lambda>m. icmp_transmit ops 1 dest_ip m 8 st)"

subsection \<open>Receiving\<close>

text \<open>
  \<open>packet\<close> starts at the IP header, \<open>sz\<close> is the length the header claims for the message. The
  branches that only print read what they print. Every path returns -1.
\<close>

definition icmp_rcv :: "'c dev_ops \<Rightarrow> u8 list \<Rightarrow> u32 \<Rightarrow> 'c net \<Rightarrow> ('c net \<times> int) res" where
  "icmp_rcv ops packet sz st =
     rbind (ld8 packet 0) (\<lambda>b0.
     let icmp = drop (unat (b0 AND 15) * 4) packet;
         data_body = drop 8 icmp;
         data_body_size = sz - 8
     in rbind (ip_hdr_checksum icmp (sint sz)) (\<lambda>c.
        if c \<noteq> 0 then Inr (st, -1)
        else
          rbind (ld_bytes icmp 0 8) (\<lambda>_.
          rbind (ld32 packet 12) (\<lambda>sa.
          let ty = icmp ! 0 in
            if ty = ICMP_ECHO then
              rmap (\<lambda>(st', _). (st', -1))
                (icmp_echoreply ops (ntohs (get16 icmp 4)) (ntohs (get16 icmp 6)) (ntohl sa)
                   data_body data_body_size st)
            else if ty = ICMP_ADDRESSREPLY then rmap (\<lambda>_. (st, -1)) (ld8 data_body 0)
            else if ty = ICMP_TIMESTAMPREPLY then rmap (\<lambda>_. (st, -1)) (ld_bytes data_body 0 12)
            else if ty = ICMP_NET_ANO then
              rmap (\<lambda>_. (st, -1)) (ld_bytes data_body 0 (8 * unat (icmp ! 5)))
            else Inr (st, -1)))))"

subsection \<open>Messages\<close>

text \<open>A message as it is on the wire, its checksum filled in.\<close>

definition icmp_msg :: "u8 \<Rightarrow> u16 \<Rightarrow> u16 \<Rightarrow> u8 list \<Rightarrow> u8 list" where
  "icmp_msg ty ident sequence body =
     (let r = le16 (htons ident) @ le16 (htons sequence) @ body;
          c = cksum_fold (of_nat (wsum ([ty, 0] @ le16 0 @ r)))
      in [ty, 0] @ le16 (htons c) @ r)"

lemma length_icmp_msg [simp]: "length (icmp_msg ty i s b) = 8 + length b"
  by (simp add: icmp_msg_def Let_def)

lemma cksum_whole:
  assumes "length b \<le> 131072" "sint sz = int (length b)"
  shows "ip_hdr_checksum b (sint (sz :: u32)) = Inr (cksum_fold (of_nat (wsum b)))"
  using assms ip_hdr_checksum_prefix[of b "int (length b)" "[]"] by simp

lemma sint_small: "unat (w :: u32) \<le> 131072 \<Longrightarrow> sint w = int (unat w)"
proof -
  assume w: "unat w \<le> 131072"
  have "sint w = signed_take_bit 31 (uint w)" by (simp add: sint_uint)
  also have "\<dots> = uint w"
  proof (rule signed_take_bit_int_eq_self)
    show "- (2 ^ 31) \<le> uint w" by (rule order_trans[OF _ uint_nonnegative]) simp
    have "int (unat w) \<le> int 131072" using w by (simp only: of_nat_le_iff)
    then show "uint w < 2 ^ 31" by simp
  qed
  finally show ?thesis by simp
qed

lemma icmp_build_msg:
  assumes "unat tsize = 8 + length body" "tsize \<le> 4096"
  shows "icmp_build ty ident sequence body tsize = Inr (icmp_msg ty ident sequence body)"
proof -
  let ?h = "icmphdr_bytes \<lparr>icmp_type = ty, icmp_code = 0, icmp_checksum = 0,
              icmp_echo_id = htons ident, icmp_echo_sequence = htons sequence\<rparr>"
  have le: "unat tsize \<le> 4096" using assms(2) by (simp add: word_le_nat_alt)
  have b1: "put_bytes (replicate (unat tsize) 0) 0 ?h = Inr (?h @ replicate (length body) 0)"
    using assms(1) by simp
  have b2: "put_bytes (?h @ replicate (length body) 0) 8 body = Inr (?h @ body)" by simp
  have s: "sint tsize = int (length (?h @ body))" using assms(1) le sint_small[of tsize] by simp
  have "ip_hdr_checksum (?h @ body) (sint tsize) = Inr (cksum_fold (of_nat (wsum (?h @ body))))"
    using assms(1) le by (intro cksum_whole s) simp
  then show ?thesis
    using assms(2) b1 b2
    by (simp add: icmp_build_def icmp_msg_def icmphdr_bytes_def Let_def le16_def)
qed

lemma icmp_msg_verifies:
  assumes "length body \<le> 65535"
  shows "ip_hdr_checksum (icmp_msg ty ident sequence body) (int (8 + length body)) = Inr 0"
proof -
  let ?r = "le16 (htons ident) @ le16 (htons sequence) @ body"
  let ?z = "[ty, 0] @ le16 0 @ ?r"
  have "ip_hdr_checksum ?z (int (length ?z)) = Inr (cksum_fold (of_nat (wsum ?z)))"
    using ip_hdr_checksum_prefix[of ?z "int (length ?z)" "[]"] assms by simp
  then have "ip_hdr_checksum (icmp_msg ty ident sequence body)
      (int (length (icmp_msg ty ident sequence body))) = Inr 0"
    unfolding icmp_msg_def Let_def using assms by (intro checksum_fill) simp_all
  then show ?thesis by simp
qed

lemma icmp_msg_fields:
  "icmp_msg ty i s b ! 0 = ty" "get16 (icmp_msg ty i s b) 4 = htons i"
  "get16 (icmp_msg ty i s b) 6 = htons s" "drop 8 (icmp_msg ty i s b) = b"
  by (simp_all add: icmp_msg_def Let_def get16_def le16_def)

text \<open>An echo request with its data is answered with an echo reply to the sender.\<close>

lemma icmp_rcv_echo:
  assumes "unat sz = 8 + length data" "length data \<le> 4088"
    and "20 \<le> length hdr" "unat (hdr ! 0 AND 15) * 4 = length hdr"
  shows "icmp_rcv ops (hdr @ icmp_msg ICMP_ECHO ident sequence data) sz st
     = rmap (\<lambda>(st', _). (st', -1))
         (ip_send ops IP_P_ICMP sequence (ntohl (get32 hdr 12)) (dev_ip (net_dev st))
            (icmp_msg ICMP_ECHOREPLY ident sequence data) (ucast sz) st)"
proof -
  let ?m = "icmp_msg ICMP_ECHO ident sequence data"
  have s: "sint sz = int (8 + length data)" using assms(1,2) sint_small[of sz] by simp
  have c: "ip_hdr_checksum ?m (sint sz) = Inr 0"
    unfolding s using assms(2) by (intro icmp_msg_verifies) simp
  have "8 \<le> sz" using assms(1) by (simp add: word_le_nat_alt)
  then have ds: "unat (sz - 8) = length data" using assms(1) by (simp add: unat_sub)
  have z: "sz \<le> 4096" using assms(1,2) by (simp add: word_le_nat_alt)
  have r: "icmp_build ICMP_ECHOREPLY ident sequence data sz = Inr (icmp_msg ICMP_ECHOREPLY ident sequence data)"
    using assms(1) z by (rule icmp_build_msg)
  have g: "get32 (hdr @ ?m) 12 = get32 hdr 12" using assms(3) by (simp add: get32_def nth_append)
  have n0: "(hdr @ ?m) ! 0 = hdr ! 0" using assms(3) by (cases hdr) auto
  have "icmp_rcv ops (hdr @ ?m) sz st
     = rmap (\<lambda>(st', _). (st', -1)) (icmp_echoreply ops ident sequence (ntohl (get32 hdr 12)) data (sz - 8) st)"
    using assms(3,4) c g n0
    by (simp add: icmp_rcv_def Let_def icmp_msg_fields ntoh_eq)
  also have "icmp_echoreply ops ident sequence (ntohl (get32 hdr 12)) data (sz - 8) st
     = icmp_transmit ops sequence (ntohl (get32 hdr 12)) (icmp_msg ICMP_ECHOREPLY ident sequence data) sz st"
    using ds z r by (simp add: icmp_echoreply_def)
  finally show ?thesis by (simp add: icmp_transmit_def rmap_def split: sum.splits prod.splits)
qed

end
