(* ===== verification/Udp.thy ===== *)
theory Udp
  imports Icmp
begin

text \<open>
  net/udp.c: sending a datagram with its pseudo header checksum, and the handler, which
  checks a received datagram and sends its data back to where it came from.
\<close>

unbundle bit_operations_syntax

definition IP_P_TCP :: u8 where "IP_P_TCP = 6"
definition IP_P_UDP :: u8 where "IP_P_UDP = 0x11"

record udphdr =
  udp_source :: u16
  udp_dest :: u16
  udp_len :: u16
  udp_check :: u16

record udpfakehdr =
  fake_src_ip :: u32
  fake_dest_ip :: u32
  fake_ttl :: u8
  fake_protocol :: u8
  fake_len :: u16

definition udphdr_bytes :: "udphdr \<Rightarrow> u8 list" where
  "udphdr_bytes h = le16 (udp_source h) @ le16 (udp_dest h) @ le16 (udp_len h) @ le16 (udp_check h)"

definition udpfakehdr_bytes :: "udpfakehdr \<Rightarrow> u8 list" where
  "udpfakehdr_bytes h = le32 (fake_src_ip h) @ le32 (fake_dest_ip h) @ [fake_ttl h, fake_protocol h]
     @ le16 (fake_len h)"

lemma length_udp_bytes [simp]:
  "length (udphdr_bytes h) = 8" "length (udpfakehdr_bytes f) = 12"
  by (simp_all add: udphdr_bytes_def udpfakehdr_bytes_def)

subsection \<open>Operations\<close>

definition udp_send ::
    "'c dev_ops \<Rightarrow> u32 \<Rightarrow> u16 \<Rightarrow> u16 \<Rightarrow> u8 list \<Rightarrow> u32 \<Rightarrow> 'c net \<Rightarrow> ('c net \<times> int) res" where
  "udp_send ops dest_ip dest_port src_port data data_size st =
     (let sz = data_size + 20 in
      rbind (kzalloc sz) (\<lambda>b0.
      rbind (put_bytes b0 0 (udpfakehdr_bytes \<lparr>fake_src_ip = htonl (dev_ip (net_dev st)),
               fake_dest_ip = htonl dest_ip, fake_ttl = 0, fake_protocol = IP_P_UDP,
               fake_len = htons (ucast (sz - 12))\<rparr>)) (\<lambda>b1.
      rbind (put_bytes b1 12 (udphdr_bytes \<lparr>udp_source = htons src_port, udp_dest = htons dest_port,
               udp_len = htons (ucast (sz - 12)), udp_check = 0\<rparr>)) (\<lambda>b2.
      rbind (ld_bytes data 0 (unat data_size)) (\<lambda>body.
      rbind (put_bytes b2 20 body) (\<lambda>b3.
      rbind (ip_hdr_checksum b3 (sint sz)) (\<lambda>c.
      rbind (put_bytes b3 18 (le16 (htons c))) (\<lambda>b4.
        rmap (\<lambda>(st', _). (st', 0))
          (ip_send ops IP_P_UDP 1 dest_ip (dev_ip (net_dev st)) (drop 12 b4) (ucast (sz - 12)) st)))))))))"

definition udp_rcv :: "'c dev_ops \<Rightarrow> u8 list \<Rightarrow> u32 \<Rightarrow> 'c net \<Rightarrow> ('c net \<times> int) res" where
  "udp_rcv ops packet sz st =
     rbind (ld8 packet 0) (\<lambda>b0.
     let udp = drop (unat (b0 AND 15) * 4) packet in
     rbind (kzalloc (sz + 12)) (\<lambda>f0.
     rbind (ld_bytes udp 0 (unat sz)) (\<lambda>u.
     rbind (put_bytes f0 12 u) (\<lambda>f1.
     rbind (ld32 packet 16) (\<lambda>da.
     rbind (ld32 packet 12) (\<lambda>sa.
     rbind (put_bytes f1 0 (udpfakehdr_bytes \<lparr>fake_src_ip = sa, fake_dest_ip = da, fake_ttl = 0,
              fake_protocol = IP_P_UDP, fake_len = ntohs (ucast sz)\<rparr>)) (\<lambda>f2.
     rbind (ip_hdr_checksum f2 (sint (sz + 12))) (\<lambda>c.
       if c \<noteq> 0 then Inr (st, -1)
       else
         rbind (ld_bytes udp 0 6) (\<lambda>_.
           rmap (\<lambda>(st', _). (st', -1))
             (udp_send ops (ntohl sa) (ntohs (get16 udp 0)) (ntohs (get16 udp 2))
                (drop 8 udp) (sz - 8) st))))))))))"

subsection \<open>Datagrams\<close>

definition udp_pseudo :: "u32 \<Rightarrow> u32 \<Rightarrow> nat \<Rightarrow> u8 list" where
  "udp_pseudo src dst n = le32 (htonl src) @ le32 (htonl dst) @ [0, IP_P_UDP] @ le16 (htons (of_nat n))"

text \<open>A datagram on the wire, its checksum filled in.\<close>

definition udp_msg :: "u32 \<Rightarrow> u32 \<Rightarrow> u16 \<Rightarrow> u16 \<Rightarrow> u8 list \<Rightarrow> u8 list" where
  "udp_msg src dst sport dport body =
     (let n = 8 + length body;
          h = le16 (htons sport) @ le16 (htons dport) @ le16 (htons (of_nat n));
          c = cksum_fold (of_nat (wsum (udp_pseudo src dst n @ h @ le16 0 @ body)))
      in h @ le16 (htons c) @ body)"

lemma length_udp_pseudo [simp]: "length (udp_pseudo s d n) = 12"
  by (simp add: udp_pseudo_def)

lemma length_udp_msg [simp]: "length (udp_msg s d sp dp b) = 8 + length b"
  by (simp add: udp_msg_def Let_def)

lemma udp_msg_fields:
  "get16 (udp_msg s d sp dp b) 0 = htons sp" "get16 (udp_msg s d sp dp b) 2 = htons dp"
  "drop 8 (udp_msg s d sp dp b) = b"
  by (simp_all add: udp_msg_def Let_def get16_def le16_def)

lemma udp_msg_verifies:
  assumes "length b \<le> 65535"
  shows "ip_hdr_checksum (udp_pseudo s d (8 + length b) @ udp_msg s d sp dp b) (int (20 + length b)) = Inr 0"
proof -
  let ?h = "le16 (htons sp) @ le16 (htons dp) @ le16 (htons (of_nat (8 + length b)))"
  let ?x = "udp_pseudo s d (8 + length b) @ ?h"
  let ?z = "?x @ le16 0 @ b"
  let ?c = "cksum_fold (of_nat (wsum ?z))"
  have e: "udp_pseudo s d (8 + length b) @ udp_msg s d sp dp b = ?x @ le16 (htons ?c) @ b"
    by (simp add: udp_msg_def Let_def)
  have "ip_hdr_checksum ?z (int (length ?z)) = Inr ?c"
    using ip_hdr_checksum_prefix[of ?z "int (length ?z)" "[]"] assms by simp
  then have "ip_hdr_checksum (?x @ le16 (htons ?c) @ b) (int (length (?x @ le16 (htons ?c) @ b))) = Inr 0"
    using assms by (intro checksum_fill) simp_all
  then show ?thesis unfolding e by simp
qed

lemma udp_send_msg:
  assumes "unat n = length body" "length body \<le> 4076"
  shows "udp_send ops dip dport sport body n st
     = rmap (\<lambda>(st', _). (st', 0))
         (ip_send ops IP_P_UDP 1 dip (dev_ip (net_dev st))
            (udp_msg (dev_ip (net_dev st)) dip sport dport body) (of_nat (8 + length body)) st)"
proof -
  let ?l = "8 + length body" and ?src = "dev_ip (net_dev st)"
  have un: "unat (n + 20) = 20 + length body" using assms by (simp add: unat_word_ariths)
  then have le: "n + 20 \<le> 4096" using assms by (simp add: word_le_nat_alt)
  have s: "sint (n + 20) = int (20 + length body)" using un assms(2) sint_small[of "n + 20"] by simp
  have "n = of_nat (length body)" using assms(1) by (metis of_nat_unat ucast_id)
  then have l: "(ucast (n + 20 - 12) :: u16) = of_nat ?l"
    using ucast_of_nat_16[of ?l] by (simp add: add.commute)
  let ?h = "le16 (htons sport) @ le16 (htons dport) @ le16 (htons (of_nat ?l))"
  let ?p = "udp_pseudo ?src dip ?l"
  let ?z = "?p @ ?h @ le16 0 @ body"
  let ?c = "cksum_fold (of_nat (wsum ?z))"
  have fk: "udpfakehdr_bytes \<lparr>fake_src_ip = htonl ?src, fake_dest_ip = htonl dip, fake_ttl = 0,
      fake_protocol = IP_P_UDP, fake_len = htons (ucast (n + 20 - 12))\<rparr> = ?p"
    by (simp only: l) (simp add: udpfakehdr_bytes_def udp_pseudo_def)
  have uh: "udphdr_bytes \<lparr>udp_source = htons sport, udp_dest = htons dport,
      udp_len = htons (ucast (n + 20 - 12)), udp_check = 0\<rparr> = ?h @ le16 0"
    by (simp only: l) (simp add: udphdr_bytes_def)
  have b1: "put_bytes (replicate (unat (n + 20)) 0) 0 ?p = Inr (?p @ replicate ?l 0)"
    using un by simp
  have b2: "put_bytes (?p @ replicate ?l 0) 12 (?h @ le16 0) = Inr (?p @ ?h @ le16 0 @ replicate (length body) 0)"
    by simp
  have b3: "put_bytes (?p @ ?h @ le16 0 @ replicate (length body) 0) 20 body = Inr ?z" by simp
  have c: "ip_hdr_checksum ?z (sint (n + 20)) = Inr ?c"
    using s assms(2) by (intro cksum_whole) simp_all
  have b4: "put_bytes ?z 18 (le16 (htons ?c)) = Inr (?p @ udp_msg ?src dip sport dport body)"
    by (simp add: udp_msg_def Let_def)
  show ?thesis
    unfolding udp_send_def Let_def fk uh
    using le b1 b2 b3 b4 c l assms(1) by (simp del: put_bytes_in)
qed

text \<open>A datagram built by the sender passes the handler's test and its data is sent back.\<close>

lemma udp_rcv_echo:
  assumes "unat sz = 8 + length data" "length data \<le> 4068"
    and "20 \<le> length hdr" "unat (hdr ! 0 AND 15) * 4 = length hdr"
    and "get32 hdr 12 = htonl src" "get32 hdr 16 = htonl dst"
  shows "udp_rcv ops (hdr @ udp_msg src dst sport dport data) sz st
     = rmap (\<lambda>(st', _). (st', -1)) (udp_send ops src sport dport data (of_nat (length data)) st)"
proof -
  let ?m = "udp_msg src dst sport dport data"
  have us: "unat (sz + 12) = 20 + length data" using assms(1,2) by (simp add: unat_word_ariths)
  then have le: "sz + 12 \<le> 4096" using assms(2) by (simp add: word_le_nat_alt)
  have s: "sint (sz + 12) = int (20 + length data)" using us assms(2) sint_small[of "sz + 12"] by simp
  have sz: "sz = of_nat (8 + length data)" using assms(1) by (metis of_nat_unat ucast_id)
  have l: "(ucast sz :: u16) = of_nat (8 + length data)" unfolding sz by (rule ucast_of_nat_16)
  have g: "get32 (hdr @ ?m) 12 = htonl src" "get32 (hdr @ ?m) 16 = htonl dst"
    using assms(3,5,6) by (simp_all add: get32_def nth_append)
  have n0: "(hdr @ ?m) ! 0 = hdr ! 0" using assms(3) by (cases hdr) auto
  let ?p = "udp_pseudo src dst (8 + length data)"
  have fk: "udpfakehdr_bytes \<lparr>fake_src_ip = htonl src, fake_dest_ip = htonl dst, fake_ttl = 0,
      fake_protocol = IP_P_UDP, fake_len = htons (ucast sz)\<rparr> = ?p"
    by (simp only: l) (simp add: udpfakehdr_bytes_def udp_pseudo_def)
  have f1: "put_bytes (replicate (unat (sz + 12)) 0) 12 ?m = Inr (replicate 12 0 @ ?m)"
    using us by simp
  have f2: "put_bytes (replicate 12 0 @ ?m) 0 ?p = Inr (?p @ ?m)" by simp
  have c: "ip_hdr_checksum (?p @ ?m) (sint (sz + 12)) = Inr 0"
    unfolding s using assms(2) by (intro udp_msg_verifies) simp
  have ds: "sz - 8 = of_nat (length data)" unfolding sz by simp
  show ?thesis
    using assms(1,3,4) le f1 f2 c g n0 ds
    by (simp add: udp_rcv_def Let_def udp_msg_fields ntoh_eq fk del: put_bytes_in)
qed

end
