(* ===== verification/NetRx.thy ===== *)
theory NetRx
  imports Udp
begin

text \<open>
  The receiving path: the handler that takes a packet off the queue (net/skbuffer.c), the
  switch on the Ethernet type (net/netdevice.c) and the receiving half of net/ip.c.
\<close>

unbundle bit_operations_syntax

subsection \<open>Operations\<close>

text \<open>
  \<^verbatim>\<open>ip_rcv\<close>. After the checksum test the packet is printed from offset 14 up to the size less
  14, so these bytes are read. \<^verbatim>\<open>ntohs(tot_len)-ihl*4\<close> is an \<^verbatim>\<open>int\<close> passed as unsigned.
\<close>

definition ip_rcv :: "'c dev_ops \<Rightarrow> u8 list \<Rightarrow> u32 \<Rightarrow> 'c net \<Rightarrow> ('c net \<times> int) res" where
  "ip_rcv ops packet sz0 st =
     (let ip = drop 14 packet; sz = sz0 - 14 in
      rbind (ip_hdr_checksum ip 20) (\<lambda>c.
        if c \<noteq> 0 then Inr (st, -1)
        else if 14 < unat sz \<and> length packet < unat sz then Inl OutOfBounds
        else
          (let len = ucast (ntohs (get16 ip 2)) - ucast (ip ! 0 AND 15) * 4;
               proto = ip ! 9
           in if proto = IP_P_ICMP then icmp_rcv ops ip len st
              else if proto = IP_P_UDP then udp_rcv ops ip len st
              else Inr (st, -1))))"

definition reveice_callback :: "'c dev_ops \<Rightarrow> u8 list \<Rightarrow> u32 \<Rightarrow> 'c net \<Rightarrow> ('c net \<times> int option) res" where
  "reveice_callback ops packet sz st =
     rbind (ld16 packet 12) (\<lambda>ty.
       if ntohs ty = ETH_P_ARP then arp_rcv ops packet sz st
       else if ntohs ty = ETH_P_IP then rmap (\<lambda>(st', r). (st', Some r)) (ip_rcv ops packet sz st)
       else Inr (st, Some (-1)))"

definition skb_handle_recv :: "'c dev_ops \<Rightarrow> skb_state \<Rightarrow> 'c net \<Rightarrow> (skb_state \<times> 'c net) res" where
  "skb_handle_recv ops q st =
     rbind (skb_recv_shift q) (\<lambda>(q1, r).
       case r of
         None \<Rightarrow> Inr (q1, st)
       | Some p \<Rightarrow>
           rbind (skb_at q1 p) (\<lambda>b.
           rbind (case skb_data b of None \<Rightarrow> Inl NullDeref
                  | Some d \<Rightarrow> reveice_callback ops d (skb_len b) st) (\<lambda>(st', _).
           rmap (\<lambda>(q2, _). (q2, st')) (skb_free q1 p))))"

subsection \<open>Lemmas\<close>

lemma skb_handle_recv_cons:
  assumes "queue_repr q ((Some d, len) # xs)"
  shows "\<exists>q'. queue_repr q' xs
     \<and> skb_handle_recv ops q st = rmap (\<lambda>(st', _). (q', st')) (reveice_callback ops d len st)"
proof -
  obtain p ps where q: "queue_ok q (p # ps)" "xs = map (skb_payload q) ps" "skb_payload q p = (Some d, len)"
    using assms by (auto simp: queue_repr_def Cons_eq_map_conv)
  obtain q1 b where q1: "skb_recv_shift q = Inr (q1, Some p)" "queue_ok q1 ps"
    "\<forall>x. skb_payload q1 x = skb_payload q x" "skbs q1 p = Some b"
    using shift_ok[OF q(1)] by auto
  have np: "p \<notin> set ps" using q(1) by (simp add: queue_ok_def)
  then obtain q2 where q2: "skb_free q1 p = Inr (q2, 0)" "queue_ok q2 ps"
    "\<forall>x. x \<noteq> p \<longrightarrow> skb_payload q2 x = skb_payload q1 x"
    using free_ok[OF q1(2) _ q1(4)] by blast
  have "skb_payload q1 p = (Some d, len)" using q(3) q1(3) by simp
  then have b: "skb_data b = Some d" "skb_len b = len" using q1(4) by (simp_all add: skb_payload_def)
  have r: "queue_repr q2 xs"
    unfolding queue_repr_def using q2 q1(3) q(2) np by (intro exI[of _ ps]) (auto intro!: map_cong)
  have "skb_handle_recv ops q st = rmap (\<lambda>(st', _). (q2, st')) (reveice_callback ops d len st)"
    using q1(1,4) q2(1) b
    by (cases "reveice_callback ops d len st") (auto simp: skb_handle_recv_def skb_at_def)
  then show ?thesis using r by blast
qed

lemma iphdr_fields:
  "iphdr_bytes h ! 0 = (ihl h AND 15) OR push_bit 4 (version h)" "iphdr_bytes h ! 9 = protocol h"
  "get16 (iphdr_bytes h) 2 = tot_len h"
  "get32 (iphdr_bytes h) 12 = saddr h" "get32 (iphdr_bytes h) 16 = daddr h"
  by (simp_all add: iphdr_bytes_def get16_def get32_def le16_def le32_def)

lemma ip_header_fields:
  "ip_header (mk_iphdr proto tot i f s d) ! 0 = 0x45"
  "ip_header (mk_iphdr proto tot i f s d) ! 9 = proto"
  "get16 (ip_header (mk_iphdr proto tot i f s d)) 2 = htons tot"
  "get32 (ip_header (mk_iphdr proto tot i f s d)) 12 = htonl s"
  "get32 (ip_header (mk_iphdr proto tot i f s d)) 16 = htonl d"
  by (simp_all add: ip_header_def iphdr_fields) (simp_all add: mk_iphdr_def)

text \<open>A datagram in a frame reaches the handler of its protocol.\<close>

lemma callback_ip:
  assumes "length d = 6" "length s = 6" "length body \<le> 1480"
    and "h = mk_iphdr proto (of_nat (20 + length body)) i f src dst"
    and "len = of_nat (34 + length body)"
  shows "reveice_callback ops (ip_frame d s h body) len st
     = rmap (\<lambda>(st', r). (st', Some r))
        (if proto = IP_P_ICMP then icmp_rcv ops (ip_header h @ body) (of_nat (length body)) st
         else if proto = IP_P_UDP then udp_rcv ops (ip_header h @ body) (of_nat (length body)) st
         else Inr (st, -1))"
proof -
  let ?f = "ip_frame d s h body" and ?ip = "ip_header h @ body"
  have dr: "drop 14 ?f = ?ip" and lf: "length ?f = 34 + length body"
    using assms(1,2) by (simp_all add: ip_frame_def)
  have ty: "get16 ?f 12 = htons ETH_P_IP"
    using assms(1,2) by (simp add: ip_frame_def eth_bytes_def get16_def le16_def nth_append)
  have f: "?ip ! 0 = 0x45" "?ip ! 9 = proto" "get16 ?ip 2 = htons (of_nat (20 + length body))"
    using ip_header_fields[of proto "of_nat (20 + length body)" i f src dst]
    by (simp_all add: assms(4) nth_append get16_def)
  have "(ucast (of_nat (20 + length body) :: u16) :: u32) = of_nat (20 + length body)"
    using assms(3) by (intro word_unat_eq_iff[THEN iffD2]) (simp add: unat_widen unat_of_nat del: of_nat_add)
  then have len2: "ucast (ntohs (get16 ?ip 2)) - ucast ((0x45 :: u8) AND 15) * 4 = (of_nat (length body) :: u32)"
    by (simp add: f ntoh_eq)
  have "len - 14 = of_nat (20 + length body)" by (simp add: assms(5))
  then have "unat (len - 14) = 20 + length body"
    using assms(3) by (simp add: unat_of_nat del: of_nat_add)
  then have nob: "\<not> (14 < unat (len - 14) \<and> length ?f < unat (len - 14))" using lf by simp
  have "ip_rcv ops ?f len st
     = (if proto = IP_P_ICMP then icmp_rcv ops ?ip (of_nat (length body)) st
        else if proto = IP_P_UDP then udp_rcv ops ?ip (of_nat (length body)) st
        else Inr (st, -1))"
    unfolding ip_rcv_def Let_def dr ip_header_verifies
    using nob len2 f by (simp only: rbind_simps simp_thms if_False f)
  then show ?thesis
    using lf ty by (simp add: reveice_callback_def ntoh_eq ETH_P_IP_def ETH_P_ARP_def)
qed

lemma hdr_ok:
  "unat (ip_header (mk_iphdr p t i f s d) ! 0 AND 15) * 4 = length (ip_header (mk_iphdr p t i f s d))"
  by (simp add: ip_header_fields)

lemma callback_ping:
  assumes "length d = 6" "length s = 6" "length data \<le> 1472"
    and "h = mk_iphdr IP_P_ICMP (of_nat (28 + length data)) i f src dst"
    and "len = of_nat (42 + length data)"
  shows "reveice_callback ops (ip_frame d s h (icmp_msg ICMP_ECHO ident sequence data)) len st
     = rmap (\<lambda>(st', _). (st', Some (-1)))
        (ip_send ops IP_P_ICMP sequence src (dev_ip (net_dev st))
           (icmp_msg ICMP_ECHOREPLY ident sequence data) (of_nat (8 + length data)) st)"
proof -
  let ?b = "icmp_msg ICMP_ECHO ident sequence data"
  have u: "unat (of_nat (length ?b) :: u32) = 8 + length data"
    using assms(3) by (simp add: unat_of_nat del: of_nat_add)
  have c: "(ucast (of_nat (length ?b) :: u32) :: u16) = of_nat (8 + length data)"
    using ucast_of_nat_16[of "8 + length data"] by simp
  have r: "icmp_rcv ops (ip_header h @ ?b) (of_nat (length ?b)) st
     = rmap (\<lambda>(st', _). (st', -1)) (ip_send ops IP_P_ICMP sequence src (dev_ip (net_dev st))
           (icmp_msg ICMP_ECHOREPLY ident sequence data) (of_nat (8 + length data)) st)"
    using icmp_rcv_echo[OF u, of "ip_header h" ops ident sequence st] assms(3) c
    by (simp add: assms(4) hdr_ok ip_header_fields ntoh_eq)
  have e: "20 + length ?b = 28 + length data" "34 + length ?b = 42 + length data" by simp_all
  have "reveice_callback ops (ip_frame d s h ?b) len st
     = rmap (\<lambda>(st', r). (st', Some r)) (icmp_rcv ops (ip_header h @ ?b) (of_nat (length ?b)) st)"
    using callback_ip[OF assms(1,2), of ?b h IP_P_ICMP i f src dst len ops st] assms(3,4,5)
    unfolding e by simp
  then show ?thesis unfolding r by (simp add: rmap_def split: sum.splits prod.splits)
qed

lemma callback_udp:
  assumes "length d = 6" "length s = 6" "length data \<le> 1472"
    and "h = mk_iphdr IP_P_UDP (of_nat (28 + length data)) i f src dst"
    and "len = of_nat (42 + length data)"
  shows "reveice_callback ops (ip_frame d s h (udp_msg src dst sport dport data)) len st
     = rmap (\<lambda>(st', _). (st', Some (-1)))
        (ip_send ops IP_P_UDP 1 src (dev_ip (net_dev st))
           (udp_msg (dev_ip (net_dev st)) src dport sport data) (of_nat (8 + length data)) st)"
proof -
  let ?b = "udp_msg src dst sport dport data"
  have u: "unat (of_nat (length ?b) :: u32) = 8 + length data"
    using assms(3) by (simp add: unat_of_nat del: of_nat_add)
  have n: "unat (of_nat (length data) :: u32) = length data" using assms(3) by (simp add: unat_of_nat)
  have r: "udp_rcv ops (ip_header h @ ?b) (of_nat (length ?b)) st
     = rmap (\<lambda>(st', _). (st', -1)) (udp_send ops src sport dport data (of_nat (length data)) st)"
    using assms(3) u
    by (intro udp_rcv_echo) (simp_all add: assms(4) hdr_ok ip_header_fields)
  have sd: "udp_send ops src sport dport data (of_nat (length data)) st
     = rmap (\<lambda>(st', _). (st', 0)) (ip_send ops IP_P_UDP 1 src (dev_ip (net_dev st))
           (udp_msg (dev_ip (net_dev st)) src dport sport data) (of_nat (8 + length data)) st)"
    using n assms(3) by (intro udp_send_msg) simp_all
  have e: "20 + length ?b = 28 + length data" "34 + length ?b = 42 + length data" by simp_all
  have ne: "IP_P_UDP \<noteq> IP_P_ICMP" by (simp add: IP_P_UDP_def IP_P_ICMP_def)
  have "reveice_callback ops (ip_frame d s h ?b) len st
     = rmap (\<lambda>(st', r). (st', Some r)) (udp_rcv ops (ip_header h @ ?b) (of_nat (length ?b)) st)"
    using callback_ip[OF assms(1,2), of ?b h IP_P_UDP i f src dst len ops st] assms(3,4,5) ne
    unfolding e by simp
  then show ?thesis unfolding r sd by (simp add: rmap_def split: sum.splits prod.splits)
qed

subsection \<open>Properties\<close>

text \<open>
  C3. Ping, end to end: when the oldest queued packet is an ICMP echo request of up to 1472
  data bytes from a host whose hardware address is known, \<^verbatim>\<open>skb_handle_recv\<close> takes it off the
  queue and hands the driver exactly one frame: an echo reply to that host with the same
  identifier, sequence number and data, both checksums filled in. Nothing else is sent.
\<close>

theorem echo_request_is_answered:
  assumes "length d = 6" and "length s = 6" and "length mac = 6" and "length data \<le> 1472"
    and "length (dev_addr (net_dev st)) = 6"
    and "src \<noteq> 0" and "arp_find st src = Inr (Some mac)"
    and "frame = ip_frame d s (mk_iphdr IP_P_ICMP (of_nat (28 + length data)) i f src dst)
                   (icmp_msg ICMP_ECHO ident sequence data)"
    and "queue_repr q ((Some frame, of_nat (42 + length data)) # xs)"
  shows "\<exists>q'. queue_repr q' xs
     \<and> skb_handle_recv (am79c793 pci rd va_data va_send va_recv) q st
       = rmap (\<lambda>(dev', _). (q', st\<lparr>net_dev := dev'\<rparr>))
          (nic_send (net_dev st)
            (ip_frame mac (dev_addr (net_dev st))
              (mk_iphdr IP_P_ICMP (of_nat (28 + length data)) sequence 0x4000 (dev_ip (net_dev st)) src)
              (icmp_msg ICMP_ECHOREPLY ident sequence data)) (42 + int (length data)))"
proof -
  let ?ops = "am79c793 pci rd va_data va_send va_recv"
  obtain q' where q': "queue_repr q' xs" "skb_handle_recv ?ops q st
      = rmap (\<lambda>(st', _). (q', st')) (reveice_callback ?ops frame (of_nat (42 + length data)) st)"
    using skb_handle_recv_cons[OF assms(9)] by blast
  have u: "unat (of_nat (8 + length data) :: u16) = 8 + length data"
    using assms(4) by (simp add: unat_of_nat del: of_nat_add)
  have t: "(20 :: u16) + of_nat (8 + length data) = of_nat (28 + length data)"
    "34 + int (8 + length data) = 42 + int (length data)" by simp_all
  have snd: "ip_send ?ops IP_P_ICMP sequence src (dev_ip (net_dev st))
           (icmp_msg ICMP_ECHOREPLY ident sequence data) (of_nat (8 + length data)) st
     = rmap (\<lambda>(dev', r). (st\<lparr>net_dev := dev'\<rparr>, r))
         (nic_send (net_dev st)
            (ip_frame mac (dev_addr (net_dev st))
               (mk_iphdr IP_P_ICMP (of_nat (28 + length data)) sequence 0x4000 (dev_ip (net_dev st)) src)
               (icmp_msg ICMP_ECHOREPLY ident sequence data)) (42 + int (length data)))"
    using am79.ip_send_small[of mac st src "of_nat (8 + length data)" "icmp_msg ICMP_ECHOREPLY ident sequence data"
        pci rd va_data va_send va_recv IP_P_ICMP sequence "dev_ip (net_dev st)"] assms(3-7)
    unfolding u t by (simp add: dev_send_def am79c793_def)
  show ?thesis
    using q' callback_ping[OF assms(1,2,4) refl refl, of ?ops i f src dst ident sequence st]
    unfolding assms(8) snd by (auto simp: rmap_def split: sum.splits prod.splits)
qed

definition sample_net :: "nic option net" where
  "sample_net = \<lparr>arp_map = sample_map, net_dev = sample_dev (Some (sample_nic 0))\<rparr>"

lemma sample_net_simps:
  "arp_find sample_net 0x0A000002 = Inr (Some (replicate 6 2))"
  "length (dev_addr (net_dev sample_net)) = 6"
  by (simp_all add: sample_net_def sample_dev_def arp_find_def sample_map_find)

text \<open>A queue that holds one packet of 44 bytes.\<close>

lemma queue_one:
  assumes "length frame = 44"
  shows "\<exists>q. queue_repr q [(Some frame, 44)]"
proof -
  obtain q where "queue_repr q ([] @ [(Some (take 44 frame), 44)])"
    using enqueue_ok[OF queue_repr_empty, of 44 frame] assms by auto
  then show ?thesis using assms by auto
qed

definition sample_ping :: "u8 list" where
  "sample_ping = ip_frame (replicate 6 1) (replicate 6 2)
     (mk_iphdr IP_P_ICMP (of_nat (28 + length [7, 8 :: u8])) 5 0 0x0A000002 0x0A000001)
     (icmp_msg ICMP_ECHO 3 4 [7, 8])"

theorem echo_request_is_answered_witness:
  "\<exists>q q'. queue_repr q [(Some sample_ping, of_nat (42 + length [7, 8 :: u8]))] \<and> queue_repr q' []
     \<and> skb_handle_recv (am79c793 [] (\<lambda>_. 0) 0 0 0) q sample_net
       = rmap (\<lambda>(dev', _). (q', sample_net\<lparr>net_dev := dev'\<rparr>))
          (nic_send (net_dev sample_net)
            (ip_frame (replicate 6 2) (dev_addr (net_dev sample_net))
              (mk_iphdr IP_P_ICMP (of_nat (28 + length [7, 8 :: u8])) 4 0x4000 (dev_ip (net_dev sample_net)) 0x0A000002)
              (icmp_msg ICMP_ECHOREPLY 3 4 [7, 8])) (42 + int (length [7, 8 :: u8])))"
proof -
  have "length sample_ping = 44" by (simp add: sample_ping_def ip_frame_def)
  from queue_one[OF this] obtain q where q: "queue_repr q [(Some sample_ping, of_nat (42 + length [7, 8 :: u8]))]" by auto
  show ?thesis
    using echo_request_is_answered[OF _ _ _ _ sample_net_simps(2) _ sample_net_simps(1) sample_ping_def q,
        of "[]" "\<lambda>_. 0" 0 0 0] q by fastforce
qed

text \<open>
  C4. UDP echo, end to end: when the oldest queued packet is a datagram of up to 1472 bytes that a
  host built with \<^verbatim>\<open>udp_send\<close>'s rules, from a host whose hardware address is known,
  \<^verbatim>\<open>skb_handle_recv\<close> takes it off the queue, it passes the checksum test of the receiving handler,
  and the driver is handed exactly one frame: the same data back to the sender with the ports
  exchanged, as one valid datagram.
\<close>

theorem udp_datagram_is_echoed:
  assumes "length d = 6" and "length s = 6" and "length mac = 6" and "length data \<le> 1472"
    and "length (dev_addr (net_dev st)) = 6"
    and "src \<noteq> 0" and "arp_find st src = Inr (Some mac)"
    and "frame = ip_frame d s (mk_iphdr IP_P_UDP (of_nat (28 + length data)) i f src dst)
                   (udp_msg src dst sport dport data)"
    and "queue_repr q ((Some frame, of_nat (42 + length data)) # xs)"
  shows "\<exists>q'. queue_repr q' xs
     \<and> skb_handle_recv (am79c793 pci rd va_data va_send va_recv) q st
       = rmap (\<lambda>(dev', _). (q', st\<lparr>net_dev := dev'\<rparr>))
          (nic_send (net_dev st)
            (ip_frame mac (dev_addr (net_dev st))
              (mk_iphdr IP_P_UDP (of_nat (28 + length data)) 1 0x4000 (dev_ip (net_dev st)) src)
              (udp_msg (dev_ip (net_dev st)) src dport sport data)) (42 + int (length data)))"
proof -
  let ?ops = "am79c793 pci rd va_data va_send va_recv"
  obtain q' where q': "queue_repr q' xs" "skb_handle_recv ?ops q st
      = rmap (\<lambda>(st', _). (q', st')) (reveice_callback ?ops frame (of_nat (42 + length data)) st)"
    using skb_handle_recv_cons[OF assms(9)] by blast
  have u: "unat (of_nat (8 + length data) :: u16) = 8 + length data"
    using assms(4) by (simp add: unat_of_nat del: of_nat_add)
  have t: "(20 :: u16) + of_nat (8 + length data) = of_nat (28 + length data)"
    "34 + int (8 + length data) = 42 + int (length data)" by simp_all
  have snd: "ip_send ?ops IP_P_UDP 1 src (dev_ip (net_dev st))
           (udp_msg (dev_ip (net_dev st)) src dport sport data) (of_nat (8 + length data)) st
     = rmap (\<lambda>(dev', r). (st\<lparr>net_dev := dev'\<rparr>, r))
         (nic_send (net_dev st)
            (ip_frame mac (dev_addr (net_dev st))
               (mk_iphdr IP_P_UDP (of_nat (28 + length data)) 1 0x4000 (dev_ip (net_dev st)) src)
               (udp_msg (dev_ip (net_dev st)) src dport sport data)) (42 + int (length data)))"
    using am79.ip_send_small[of mac st src "of_nat (8 + length data)"
        "udp_msg (dev_ip (net_dev st)) src dport sport data"
        pci rd va_data va_send va_recv IP_P_UDP 1 "dev_ip (net_dev st)"] assms(3-7)
    unfolding u t by (simp add: dev_send_def am79c793_def)
  show ?thesis
    using q' unfolding assms(8) callback_udp[OF assms(1,2,4) refl refl] snd
    by (auto simp: rmap_def split: sum.splits prod.splits)
qed

definition sample_datagram :: "u8 list" where
  "sample_datagram = ip_frame (replicate 6 1) (replicate 6 2)
     (mk_iphdr IP_P_UDP (of_nat (28 + length [7, 8 :: u8])) 5 0 0x0A000002 0x0A000001)
     (udp_msg 0x0A000002 0x0A000001 1000 7 [7, 8])"

theorem udp_datagram_is_echoed_witness:
  "\<exists>q q'. queue_repr q [(Some sample_datagram, of_nat (42 + length [7, 8 :: u8]))] \<and> queue_repr q' []
     \<and> skb_handle_recv (am79c793 [] (\<lambda>_. 0) 0 0 0) q sample_net
       = rmap (\<lambda>(dev', _). (q', sample_net\<lparr>net_dev := dev'\<rparr>))
          (nic_send (net_dev sample_net)
            (ip_frame (replicate 6 2) (dev_addr (net_dev sample_net))
              (mk_iphdr IP_P_UDP (of_nat (28 + length [7, 8 :: u8])) 1 0x4000 (dev_ip (net_dev sample_net)) 0x0A000002)
              (udp_msg (dev_ip (net_dev sample_net)) 0x0A000002 7 1000 [7, 8])) (42 + int (length [7, 8 :: u8])))"
proof -
  have "length sample_datagram = 44" by (simp add: sample_datagram_def ip_frame_def)
  from queue_one[OF this] obtain q where q: "queue_repr q [(Some sample_datagram, of_nat (42 + length [7, 8 :: u8]))]" by auto
  show ?thesis
    using udp_datagram_is_echoed[OF _ _ _ _ sample_net_simps(2) _ sample_net_simps(1) sample_datagram_def q,
        of "[]" "\<lambda>_. 0" 0 0 0] q by fastforce
qed

end
