(* ===== verification/NetMain.thy ===== *)
theory NetMain
  imports NetRx InetAton CString
begin

text \<open>
  The network from the outside: the timer interrupt (arch/i386/timer.c), which hands one received
  packet on, the interrupt of the card, and \<^verbatim>\<open>handle_net\<close> of kernel/kernel.c, which asks for two
  hardware addresses until they are known and sends a datagram. What happens between two rounds of
  its loops is an argument: for each round the list of the interrupts that arrive in it. What the
  card does to its descriptors in memory is an argument as well. Interrupts are taken between the
  rounds only.
\<close>

subsection \<open>Interrupts\<close>

definition timer_interrupt_handle :: "nic option dev_ops \<Rightarrow> skb_state \<times> nic option net \<Rightarrow> (skb_state \<times> nic option net) res" where
  "timer_interrupt_handle ops = (\<lambda>(q, st). skb_handle_recv ops q st)"

datatype net_event =
    Tick
  | Nic_irq u16                         \<comment> \<open>with the status the card shows\<close>
  | Card "nic_dev \<Rightarrow> nic_dev"            \<comment> \<open>a change the card makes to its descriptors\<close>

fun net_interrupt :: "nic option dev_ops \<Rightarrow> net_event \<Rightarrow> skb_state \<times> nic option net \<Rightarrow> (skb_state \<times> nic option net) res" where
  "net_interrupt ops Tick s = timer_interrupt_handle ops s"
| "net_interrupt ops (Nic_irq status) s =
     rmap (\<lambda>(dev, q). (q, (snd s)\<lparr>net_dev := dev\<rparr>)) (am79c_interrupt_handle status (net_dev (snd s)) (fst s))"
| "net_interrupt ops (Card f) s = Inr (fst s, (snd s)\<lparr>net_dev := f (net_dev (snd s))\<rparr>)"

fun net_interrupts :: "nic option dev_ops \<Rightarrow> net_event list \<Rightarrow> skb_state \<times> nic option net \<Rightarrow> (skb_state \<times> nic option net) res" where
  "net_interrupts ops [] s = Inr s"
| "net_interrupts ops (e # es) s = rbind (net_interrupt ops e s) (net_interrupts ops es)"

subsection \<open>Operations\<close>

text \<open>
  The loop that asks for an address. \<open>n\<close> counts the requests; the result is the hardware address,
  the number of requests and the state. The value is \<open>None\<close> when the loop never ends.
\<close>

partial_function (option) arp_wait :: "nic option dev_ops \<Rightarrow> u32 \<Rightarrow> (nat \<Rightarrow> net_event list) \<Rightarrow> nat
    \<Rightarrow> skb_state \<times> nic option net \<Rightarrow> (u8 list \<times> nat \<times> skb_state \<times> nic option net) res option" where
  "arp_wait ops ip env n s =
     (case arp_find (snd s) ip of
        Inl e \<Rightarrow> Some (Inl e)
      | Inr r \<Rightarrow>
          (case r of
             Some mac \<Rightarrow> Some (Inr (mac, n, s))
           | None \<Rightarrow>
               (case arp_send ops ARPOP_REQUEST ETH_P_ARP (htonl ip) (net_dev (snd s)) (htonl (dev_ip (net_dev (snd s)))) None None None of
                  Inl e \<Rightarrow> Some (Inl e)
                | Inr d \<Rightarrow>
                    (case net_interrupts ops (env n) (fst s, (snd s)\<lparr>net_dev := fst d\<rparr>) of
                       Inl e \<Rightarrow> Some (Inl e)
                     | Inr s' \<Rightarrow> arp_wait ops ip env (Suc n) s'))))"

definition net_text :: "string \<Rightarrow> u8 list" where
  "net_text s = map of_char s @ [0]"

text \<open>
  Up to the endless loop at its end. The buffer of 2033 bytes that the function fills and does not
  use is left out.
\<close>

definition handle_net :: "nic option dev_ops \<Rightarrow> (nat \<Rightarrow> net_event list) \<Rightarrow> (nat \<Rightarrow> net_event list)
    \<Rightarrow> skb_state \<times> nic option net \<Rightarrow> (skb_state \<times> nic option net) res" where
  "handle_net ops env1 env2 = (\<lambda>(q, st).
     rbind (inet_aton (net_text ''10.0.2.12'')) (\<lambda>ip.
     rbind (inet_aton (net_text ''10.0.2.4'')) (\<lambda>a.
     rbind (terminates (arp_wait ops a env1 0 (q, st\<lparr>net_dev := (net_dev st)\<lparr>dev_ip := ip\<rparr>\<rparr>))) (\<lambda>r1.
     rbind r1 (\<lambda>(_, _, s1).
     rbind (inet_aton (net_text ''10.0.2.2'')) (\<lambda>b.
     rbind (terminates (arp_wait ops b env2 0 s1)) (\<lambda>r2.
     rbind r2 (\<lambda>(_, _, q2, st2).
     rbind (strlen (net_text ''fds#'')) (\<lambda>l.
     rmap (\<lambda>(st3, _). (q2, st3)) (udp_send ops b 5555 3333 (net_text ''fds#'') (of_nat l) st2))))))))))"

subsection \<open>Requests\<close>

text \<open>Sending the same frame a number of times, whatever becomes of it.\<close>

fun resend :: "nat \<Rightarrow> nic_dev \<Rightarrow> u8 list \<Rightarrow> nic_dev res" where
  "resend 0 dev f = Inr dev"
| "resend (Suc k) dev f = rbind (nic_send dev f (int (length f))) (\<lambda>(dev', _). resend k dev' f)"

lemma resend_Suc: "resend (Suc k) dev f = rbind (resend k dev f) (\<lambda>dev'. rmap fst (nic_send dev' f (int (length f))))"
proof (induction k arbitrary: dev)
  case 0
  show ?case by (cases "nic_send dev f (int (length f))") auto
next
  case (Suc k)
  have "resend (Suc (Suc k)) dev f = rbind (nic_send dev f (int (length f))) (\<lambda>(dev', _). resend (Suc k) dev' f)"
    by (rule resend.simps(2))
  also have "\<dots> = rbind (nic_send dev f (int (length f)))
      (\<lambda>(dev', _). rbind (resend k dev' f) (\<lambda>dev'. rmap fst (nic_send dev' f (int (length f)))))"
    by (simp only: Suc)
  also have "\<dots> = rbind (resend (Suc k) dev f) (\<lambda>dev'. rmap fst (nic_send dev' f (int (length f))))"
    by (cases "nic_send dev f (int (length f))") auto
  finally show ?case .
qed

text \<open>What sending leaves alone, in a driver whose state is well-formed.\<close>

definition rx_same :: "nic_dev \<Rightarrow> nic \<Rightarrow> nic_dev \<Rightarrow> bool" where
  "rx_same dev c dev' \<longleftrightarrow>
     dev_addr dev' = dev_addr dev \<and> dev_ip dev' = dev_ip dev \<and>
     (\<exists>c'. custom_data dev' = Some c' \<and> nic_ok c' \<and> recv_ring c' = recv_ring c \<and> current_rx_buffer c' = current_rx_buffer c)"

lemma nic_send_rx_same:
  assumes "custom_data dev = Some c" and "nic_ok c" and "length f \<le> 1544"
  shows "\<exists>dev' r. nic_send dev f (int (length f)) = Inr (dev', r) \<and> rx_same dev c dev'"
proof -
  let ?bd = "send_ring c ! tx_slot c"
  have i: "unat (current_tx_buffer c) < 16" using assms(2) by (simp add: nic_ok_def word_less_nat_alt)
  have l: "length (send_ring c) = 16" "length (bd_buffer ?bd) = 1544"
    using assms(2) i by (auto simp: nic_ok_def tx_slot_def)
  show ?thesis
  proof (cases "owned_by_nic ?bd")
    case True
    then have "nic_send dev f (int (length f)) = Inr (dev\<lparr>tx_dropped := tx_dropped dev + 1\<rparr>, -1)"
      using assms(1) i l(1) by (simp add: nic_send_def owned_by_nic_def tx_slot_def)
    then show ?thesis using assms(1,2) by (simp add: rx_same_def)
  next
    case False
    obtain dev' where d: "nic_send dev f (int (length f)) = Inr (dev', 0)"
      and ok: "\<exists>c'. custom_data dev' = Some c' \<and> nic_ok c'"
      using nic_send_ok[OF assms(1,2) False, of "int (length f)" f] assms(3) by auto
    have "rx_same dev c dev'"
      using d ok assms(1) i l(1) unfolding rx_same_def nic_send_def Let_def
      by (auto simp: rbind_Inr_conv split: if_splits)
    then show ?thesis using d by blast
  qed
qed

lemma rx_same_trans: "rx_same dev c dev1 \<Longrightarrow> custom_data dev1 = Some c1 \<Longrightarrow> rx_same dev1 c1 dev2 \<Longrightarrow> rx_same dev c dev2"
  by (auto simp: rx_same_def)

lemma resend_rx_same:
  assumes "custom_data dev = Some c" and "nic_ok c" and "length f \<le> 1544"
  shows "\<exists>dev'. resend k dev f = Inr dev' \<and> rx_same dev c dev'"
  using assms
proof (induction k arbitrary: dev c)
  case 0
  then show ?case by (simp add: rx_same_def)
next
  case (Suc k)
  obtain dev1 r where d1: "nic_send dev f (int (length f)) = Inr (dev1, r)" "rx_same dev c dev1"
    using nic_send_rx_same[OF Suc.prems] by blast
  then obtain c1 where c1: "custom_data dev1 = Some c1" "nic_ok c1" by (auto simp: rx_same_def)
  then obtain dev2 where "resend k dev1 f = Inr dev2" "rx_same dev1 c1 dev2" using Suc.IH Suc.prems(3) by blast
  then show ?case using d1 c1 rx_same_trans by auto
qed

text \<open>While the slots from the current one on are free, each request gets one.\<close>

lemma resend_slots:
  assumes "custom_data dev = Some c" and "nic_ok c" and "length f \<le> 1544" and "tx_slot c + k < 16"
    and "\<forall>i. tx_slot c \<le> i \<and> i < 16 \<longrightarrow> \<not> owned_by_nic (send_ring c ! i)"
    and "resend k dev f = Inr dev'" and "custom_data dev' = Some c'"
  shows "nic_ok c' \<and> tx_slot c' = tx_slot c + k \<and>
    (\<forall>i. i < tx_slot c \<or> tx_slot c + k \<le> i \<and> i < 16 \<longrightarrow> send_ring c' ! i = send_ring c ! i) \<and>
    (\<forall>i. tx_slot c \<le> i \<and> i < tx_slot c + k \<longrightarrow> take (length f) (bd_buffer (send_ring c' ! i)) = f)"
  using assms
proof (induction k arbitrary: dev c)
  case (Suc k)
  have t: "tx_slot c < 16" using Suc.prems(4) by simp
  then have "\<not> owned_by_nic (send_ring c ! tx_slot c)" using Suc.prems(5) by simp
  from nic_send_ok[OF Suc.prems(1,2) this, of "int (length f)" f] Suc.prems(3)
  obtain dev1 c1 where d1: "nic_send dev f (int (length f)) = Inr (dev1, 0)" "custom_data dev1 = Some c1" "nic_ok c1"
    "tx_slot c1 = (tx_slot c + 1) mod 16" "take (length f) (bd_buffer (send_ring c1 ! tx_slot c)) = f"
    "\<forall>i < 16. i \<noteq> tx_slot c \<longrightarrow> send_ring c1 ! i = send_ring c ! i" by auto
  have t1: "tx_slot c1 = Suc (tx_slot c)" using d1(4) Suc.prems(4) by simp
  have "resend k dev1 f = Inr dev'" using Suc.prems(6) d1(1) by simp
  moreover have "\<forall>i. tx_slot c1 \<le> i \<and> i < 16 \<longrightarrow> \<not> owned_by_nic (send_ring c1 ! i)"
    using Suc.prems(5) d1(6) by (auto simp: t1)
  ultimately have h: "nic_ok c' \<and> tx_slot c' = tx_slot c1 + k \<and>
    (\<forall>i. i < tx_slot c1 \<or> tx_slot c1 + k \<le> i \<and> i < 16 \<longrightarrow> send_ring c' ! i = send_ring c1 ! i) \<and>
    (\<forall>i. tx_slot c1 \<le> i \<and> i < tx_slot c1 + k \<longrightarrow> take (length f) (bd_buffer (send_ring c' ! i)) = f)"
    using Suc.IH[OF d1(2,3) Suc.prems(3) _ _ _ Suc.prems(7)] Suc.prems(4) by (simp add: t1)
  have "take (length f) (bd_buffer (send_ring c' ! tx_slot c)) = f" using h d1(5) by (simp add: t1)
  then have "take (length f) (bd_buffer (send_ring c' ! i)) = f" if "tx_slot c \<le> i" "i < tx_slot c + Suc k" for i
    using that h by (cases "i = tx_slot c") (auto simp: t1)
  moreover have "send_ring c' ! i = send_ring c ! i" if "i < tx_slot c \<or> tx_slot c + Suc k \<le> i \<and> i < 16" for i
    using that h d1(6) t by (auto simp: t1)
  ultimately show ?case using h by (simp add: t1)
qed auto

text \<open>A request as it goes out.\<close>

definition arp_request :: "u32 \<Rightarrow> nic_dev \<Rightarrow> u8 list" where
  "arp_request ip dev = arp_frame broadcast (dev_addr dev) ETH_P_ARP ARPOP_REQUEST (htonl (dev_ip dev)) (replicate 6 0) (htonl ip)"

lemma length_arp_frame: "length d = 6 \<Longrightarrow> length s = 6 \<Longrightarrow> length t = 6 \<Longrightarrow> length (arp_frame d s p oper sip t tip) = 42"
  by (simp add: arp_frame_def eth_bytes_def)

lemma length_arp_request: "length (dev_addr dev) = 6 \<Longrightarrow> length (arp_request ip dev) = 42"
  by (simp add: arp_request_def length_arp_frame broadcast_def)

lemma arp_request_same: "rx_same dev c dev' \<Longrightarrow> arp_request ip dev' = arp_request ip dev"
  by (simp add: arp_request_def rx_same_def)

lemma arp_send_request:
  assumes "length (dev_addr dev) = 6"
  shows "arp_send (am79c793 pci rd va_data va_send va_recv) ARPOP_REQUEST ETH_P_ARP (htonl ip) dev (htonl (dev_ip dev)) None None None
     = rmap (\<lambda>(dev', _). (dev', 0)) (nic_send dev (arp_request ip dev) (int (length (arp_request ip dev))))"
  using am79.arp_request_frame[OF assms, of pci rd va_data va_send va_recv "htonl ip" "htonl (dev_ip dev)"]
  by (simp add: length_arp_request[OF assms] arp_request_def[symmetric] dev_send_def am79c793_def)

text \<open>One round without an answer, and the end of the loop.\<close>

lemma arp_wait_known: "arp_find (snd s) ip = Inr (Some mac) \<Longrightarrow> arp_wait ops ip env n s = Some (Inr (mac, n, s))"
  by (subst arp_wait.simps) simp

lemma arp_wait_round:
  assumes "arp_find st ip = Inr None" and "length (dev_addr (net_dev st)) = 6"
    and "nic_send (net_dev st) (arp_request ip (net_dev st)) (int (length (arp_request ip (net_dev st)))) = Inr (dev, r)"
    and "net_interrupts (am79c793 pci rd va_data va_send va_recv) (env n) (q, st\<lparr>net_dev := dev\<rparr>) = Inr s'"
  shows "arp_wait (am79c793 pci rd va_data va_send va_recv) ip env n (q, st) =
    arp_wait (am79c793 pci rd va_data va_send va_recv) ip env (Suc n) s'"
  by (subst arp_wait.simps) (simp add: assms arp_send_request[OF assms(2)])

lemma arp_wait_quiet:
  assumes "custom_data (net_dev st) = Some c" and "nic_ok c" and "length (dev_addr (net_dev st)) = 6"
    and "arp_find st ip = Inr None" and "\<forall>j < k. env (n + j) = []"
  shows "\<exists>dev. resend k (net_dev st) (arp_request ip (net_dev st)) = Inr dev \<and> rx_same (net_dev st) c dev \<and>
    arp_wait (am79c793 pci rd va_data va_send va_recv) ip env n (q, st) =
    arp_wait (am79c793 pci rd va_data va_send va_recv) ip env (n + k) (q, st\<lparr>net_dev := dev\<rparr>)"
  using assms
proof (induction k arbitrary: st c n)
  case 0
  then show ?case by (simp add: rx_same_def)
next
  case (Suc k)
  let ?d = "net_dev st" and ?f = "arp_request ip (net_dev st)"
  have l: "length ?f \<le> 1544" by (simp add: length_arp_request[OF Suc.prems(3)])
  obtain dev r where d: "nic_send ?d ?f (int (length ?f)) = Inr (dev, r)" "rx_same ?d c dev"
    using nic_send_rx_same[OF Suc.prems(1,2) l] by blast
  then obtain c1 where c1: "custom_data dev = Some c1" "nic_ok c1" "length (dev_addr dev) = 6"
    using Suc.prems(3) by (auto simp: rx_same_def)
  have e: "env n = []" using Suc.prems(5) by force
  have 1: "arp_wait (am79c793 pci rd va_data va_send va_recv) ip env n (q, st) =
    arp_wait (am79c793 pci rd va_data va_send va_recv) ip env (Suc n) (q, st\<lparr>net_dev := dev\<rparr>)"
    by (rule arp_wait_round[OF Suc.prems(4,3) d(1)]) (simp add: e)
  have "\<forall>j < k. env (Suc n + j) = []" using Suc.prems(5) by auto
  then obtain dev' where d': "resend k dev (arp_request ip dev) = Inr dev'" "rx_same dev c1 dev'"
    "arp_wait (am79c793 pci rd va_data va_send va_recv) ip env (Suc n) (q, st\<lparr>net_dev := dev\<rparr>) =
     arp_wait (am79c793 pci rd va_data va_send va_recv) ip env (Suc n + k) (q, st\<lparr>net_dev := dev'\<rparr>)"
    using Suc.IH[of "st\<lparr>net_dev := dev\<rparr>" c1 "Suc n"] c1 Suc.prems(4) by (auto simp: arp_find_def)
  have "resend (Suc k) ?d ?f = Inr dev'" using d(1) d'(1) arp_request_same[OF d(2)] by simp
  moreover have "rx_same ?d c dev'" by (rule rx_same_trans[OF d(2) c1(1) d'(2)])
  ultimately show ?case using 1 d'(3) by auto
qed

text \<open>Without any interrupt the loop never ends.\<close>

definition stuck :: "u32 \<Rightarrow> skb_state \<times> nic option net \<Rightarrow> bool" where
  "stuck ip s \<longleftrightarrow> (\<exists>c. custom_data (net_dev (snd s)) = Some c \<and> nic_ok c \<and> length (dev_addr (net_dev (snd s))) = 6 \<and>
     arp_find (snd s) ip = Inr None)"

lemma arp_wait_never_ends:
  assumes "arp_wait ops ip env n s = Some y"
  shows "\<not> (ops = am79c793 pci rd va_data va_send va_recv \<and> stuck ip s \<and> (\<forall>j. env j = []))"
  using assms
proof (induction rule: arp_wait.raw_induct[rotated, consumes 1])
  case (1 f ops ip env n s y)
  show ?case
  proof
    assume a: "ops = am79c793 pci rd va_data va_send va_recv \<and> stuck ip s \<and> (\<forall>j. env j = [])"
    then obtain c where c: "custom_data (net_dev (snd s)) = Some c" "nic_ok c" "length (dev_addr (net_dev (snd s))) = 6"
      "arp_find (snd s) ip = Inr None" by (auto simp: stuck_def)
    have "length (arp_request ip (net_dev (snd s))) \<le> 1544" by (simp add: length_arp_request[OF c(3)])
    then obtain dev r where d: "nic_send (net_dev (snd s)) (arp_request ip (net_dev (snd s)))
        (int (length (arp_request ip (net_dev (snd s))))) = Inr (dev, r)" "rx_same (net_dev (snd s)) c dev"
      using nic_send_rx_same[OF c(1,2)] by blast
    have ops: "ops = am79c793 pci rd va_data va_send va_recv" "\<forall>j. env j = []" using a by simp_all
    have "f ops ip env (Suc n) (fst s, (snd s)\<lparr>net_dev := dev\<rparr>) = Some y"
      using "1.hyps" d(1) ops by (simp add: c(4) arp_send_request[OF c(3)])
    moreover have "stuck ip (fst s, (snd s)\<lparr>net_dev := dev\<rparr>)"
      using d(2) c by (auto simp: stuck_def rx_same_def arp_find_def)
    ultimately show False using "1.IH" ops by blast
  qed
qed

subsection \<open>Replies\<close>

lemma ld_append:
  "ld16 xs i = Inr v \<Longrightarrow> ld16 (xs @ ys) i = Inr v"
  "ld32 xs i = Inr w \<Longrightarrow> ld32 (xs @ ys) i = Inr w"
  "ld_bytes xs i n = Inr bs \<Longrightarrow> ld_bytes (xs @ ys) i n = Inr bs"
  by (auto simp: ld16_def ld32_def ld_bytes_def get16_def get32_def nth_append split: if_splits)

text \<open>A reply, with the padding the wire adds.\<close>

lemma callback_arp_reply:
  assumes "length d = 6" "length s = 6" "length t = 6"
  shows "reveice_callback ops (arp_frame d s ETH_P_ARP ARPOP_REPLY sip t tip @ pad) sz st
     = rmap (\<lambda>m. (st\<lparr>arp_map := m\<rparr>, None)) (hash_put (arp_map st) sip s)"
proof -
  let ?f = "arp_frame d s ETH_P_ARP ARPOP_REPLY sip t tip"
  have "ld16 ?f 12 = Inr (htons ETH_P_ARP)"
    using assms by (simp add: arp_frame_def eth_bytes_def get16_def le16_def nth_append)
  then have t: "ld16 (?f @ pad) 12 = Inr (htons ETH_P_ARP)" by (rule ld_append(1))
  have "arp_rcv ops (?f @ pad) sz st = rmap (\<lambda>m. (st\<lparr>arp_map := m\<rparr>, None)) (hash_put (arp_map st) sip s)"
    using arp_frame_fields(1,2)[OF assms, of ETH_P_ARP ARPOP_REPLY sip tip, THEN ld_append(1), of pad]
      ld_append(2)[OF arp_frame_fields(4)[OF assms, of ETH_P_ARP ARPOP_REPLY sip tip], of pad]
      ld_append(3)[OF arp_frame_fields(3)[OF assms, of ETH_P_ARP ARPOP_REPLY sip tip], of pad]
    by (simp add: arp_rcv_def arp_const htons_def)
  then show ?thesis by (simp add: reveice_callback_def t ntoh_eq)
qed

text \<open>The card stores a frame in the current descriptor, whose other fields say that it is complete.\<close>

definition card_delivers :: "(nic_dev \<Rightarrow> nic_dev) \<Rightarrow> nic \<Rightarrow> u8 list \<Rightarrow> bool" where
  "card_delivers dma c frame \<longleftrightarrow>
     (\<forall>dev c1. custom_data dev = Some c1 \<and> recv_ring c1 = recv_ring c \<and> current_rx_buffer c1 = current_rx_buffer c \<longrightarrow>
       (\<exists>bd. dma dev = dev\<lparr>custom_data := Some (c1\<lparr>recv_ring := (recv_ring c)[unat (current_rx_buffer c) := bd]\<rparr>)\<rparr> \<and>
         frame_ready bd \<and> frame_of bd = (Some frame, of_nat (length frame))))"

text \<open>The driver before and after it has taken one frame off the ring.\<close>

definition rx_after :: "nic \<Rightarrow> nic \<Rightarrow> bool" where
  "rx_after c c' \<longleftrightarrow> nic_ok c' \<and> send_ring c' = send_ring c \<and> current_tx_buffer c' = current_tx_buffer c \<and>
     unat (current_rx_buffer c') = Suc (unat (current_rx_buffer c)) \<and>
     owned_by_nic (recv_ring c' ! unat (current_rx_buffer c)) \<and>
     (\<forall>i. i \<noteq> unat (current_rx_buffer c) \<longrightarrow> recv_ring c' ! i = recv_ring c ! i)"

text \<open>A frame goes from the card through the queue to the handler of its type.\<close>

lemma deliver_frame:
  assumes c: "custom_data (net_dev st) = Some c1" "recv_ring c1 = recv_ring c" "current_rx_buffer c1 = current_rx_buffer c" "nic_ok c1"
    and i: "unat (current_rx_buffer c) + 1 < 32" "owned_by_nic (recv_ring c ! (unat (current_rx_buffer c) + 1))"
    and d: "card_delivers dma c frame" and q: "queue_repr q []"
  shows "\<exists>dev' q' c'. dev_addr dev' = dev_addr (net_dev st) \<and> dev_ip dev' = dev_ip (net_dev st) \<and>
    custom_data dev' = Some c' \<and> rx_after c1 c' \<and> queue_repr q' [] \<and>
    net_interrupts ops [Card dma, Nic_irq 0x0400, Tick] (q, st) =
    rmap (\<lambda>(st', _). (q', st')) (reveice_callback ops frame (of_nat (length frame)) (st\<lparr>net_dev := dev'\<rparr>))"
proof -
  let ?i = "unat (current_rx_buffer c)"
  obtain bd where bd: "dma (net_dev st) = (net_dev st)\<lparr>custom_data := Some (c1\<lparr>recv_ring := (recv_ring c)[?i := bd]\<rparr>)\<rparr>"
    "frame_ready bd" "frame_of bd = (Some frame, of_nat (length frame))"
    using d c(1-3) unfolding card_delivers_def by blast
  define ring where "ring = (recv_ring c)[?i := bd]"
  have l0: "length (recv_ring c) = 32" using c(2,4) by (simp add: nic_ok_def)
  then have len: "length ring = 32" by (simp add: ring_def)
  have r: "ring ! ?i = bd" "ring ! Suc ?i = recv_ring c ! Suc ?i" using i l0 by (simp_all add: ring_def)
  obtain q1 where q1: "rx_loop ring (current_rx_buffer c) q =
      rx_loop (ring[?i := return_to_nic bd]) (next_rx (current_rx_buffer c)) q1" "queue_repr q1 [(Some frame, of_nat (length frame))]"
    using rx_step[of "current_rx_buffer c" ring q "[]"] i(1) len r bd q by auto
  have n: "unat (next_rx (current_rx_buffer c)) = Suc ?i" using i(1) by (intro next_rx_step) simp
  let ?ring' = "ring[?i := return_to_nic bd]"
  have "rx_loop ?ring' (next_rx (current_rx_buffer c)) q1 = Inr (?ring', next_rx (current_rx_buffer c), q1)"
    using i len r by (intro rx_stop) (simp_all add: n)
  note rx = q1(1)[unfolded this]
  let ?d1 = "dma (net_dev st)"
  have "\<exists>dev' log. am79c_interrupt_handle 0x0400 ?d1 q = Inr (dev', q1) \<and> dev_addr dev' = dev_addr (net_dev st) \<and> dev_ip dev' = dev_ip (net_dev st) \<and>
      custom_data dev' = Some (c1\<lparr>recv_ring := ?ring', current_rx_buffer := next_rx (current_rx_buffer c), nic_log := log\<rparr>)"
    by (simp add: am79c_interrupt_handle_def Let_def nic_receive_def log_events_def bd(1) c rx ring_def[symmetric])
      (rule exI, rule refl)
  then obtain dev' log where dev: "am79c_interrupt_handle 0x0400 ?d1 q = Inr (dev', q1)" "dev_addr dev' = dev_addr (net_dev st)"
    "dev_ip dev' = dev_ip (net_dev st)"
    "custom_data dev' = Some (c1\<lparr>recv_ring := ?ring', current_rx_buffer := next_rx (current_rx_buffer c), nic_log := log\<rparr>)" by blast
  have "\<forall>b \<in> set ?ring'. length (bd_buffer b) = 1544"
    using c(2,4) bd(2) by (auto simp: nic_ok_def ring_def frame_ready_def return_to_nic_def dest!: set_update_subset_insert[THEN subsetD])
  then have after: "rx_after c1 (c1\<lparr>recv_ring := ?ring', current_rx_buffer := next_rx (current_rx_buffer c), nic_log := log\<rparr>)"
    using c i(1) len n by (auto simp: rx_after_def nic_ok_def word_less_nat_alt return_to_nic_owned ring_def)
  obtain q' where q': "queue_repr q' []" "skb_handle_recv ops q1 (st\<lparr>net_dev := dev'\<rparr>) =
      rmap (\<lambda>(st', _). (q', st')) (reveice_callback ops frame (of_nat (length frame)) (st\<lparr>net_dev := dev'\<rparr>))"
    using skb_handle_recv_cons[OF q1(2)] by blast
  have "net_interrupts ops [Card dma, Nic_irq 0x0400, Tick] (q, st) =
    rmap (\<lambda>(st', _). (q', st')) (reveice_callback ops frame (of_nat (length frame)) (st\<lparr>net_dev := dev'\<rparr>))"
    using dev(1) q'(2)
    by (cases "reveice_callback ops frame (of_nat (length frame)) (st\<lparr>net_dev := dev'\<rparr>)") (simp_all add: timer_interrupt_handle_def)
  then show ?thesis using dev(2-4) after q'(1) by blast
qed

text \<open>The loop with an answer in round \<open>n\<close>: what it sent and how it leaves the table, the queue and the driver.\<close>

lemma arp_wait_learns:
  assumes "custom_data (net_dev st) = Some c" and "nic_ok c" and "length (dev_addr (net_dev st)) = 6"
    and "hm_inv (arp_map st)" and "hm_look (arp_map st) (htonl ip) = None" and "arp_find st ip = Inr None" and "htonl ip \<noteq> 0"
    and "queue_repr q []" and "unat (current_rx_buffer c) + 1 < 32"
    and "owned_by_nic (recv_ring c ! (unat (current_rx_buffer c) + 1))"
    and "length d = 6" and "length mac = 6" and "length t = 6"
    and "card_delivers dma c (arp_frame d mac ETH_P_ARP ARPOP_REPLY (htonl ip) t tip @ pad)"
    and "\<forall>j < n. env j = []" and "env n = [Card dma, Nic_irq 0x0400, Tick]"
  shows "\<exists>dev cd q' st' c'. resend (Suc n) (net_dev st) (arp_request ip (net_dev st)) = Inr dev \<and> custom_data dev = Some cd
    \<and> rx_same (net_dev st) c dev
    \<and> arp_wait (am79c793 pci rd va_data va_send va_recv) ip env 0 (q, st) = Some (Inr (mac, Suc n, q', st'))
    \<and> queue_repr q' [] \<and> hash_put (arp_map st) (htonl ip) mac = Inr (arp_map st')
    \<and> dev_addr (net_dev st') = dev_addr (net_dev st) \<and> dev_ip (net_dev st') = dev_ip (net_dev st)
    \<and> custom_data (net_dev st') = Some c' \<and> rx_after cd c' \<and> arp_find st' ip = Inr (Some mac)"
proof -
  let ?ops = "am79c793 pci rd va_data va_send va_recv" and ?f = "arp_request ip (net_dev st)"
  let ?r = "arp_frame d mac ETH_P_ARP ARPOP_REPLY (htonl ip) t tip @ pad"
  obtain dev1 where d1: "resend n (net_dev st) ?f = Inr dev1" "rx_same (net_dev st) c dev1"
    "arp_wait ?ops ip env 0 (q, st) = arp_wait ?ops ip env n (q, st\<lparr>net_dev := dev1\<rparr>)"
    using arp_wait_quiet[OF assms(1-3,6), of n env 0 pci rd va_data va_send va_recv q] assms(15) by auto
  then obtain c1 where c1: "custom_data dev1 = Some c1" "nic_ok c1" by (auto simp: rx_same_def)
  have a1: "length (dev_addr dev1) = 6" "arp_request ip dev1 = ?f"
    using d1(2) assms(3) arp_request_same[OF d1(2)] by (simp_all add: rx_same_def)
  have "length ?f \<le> 1544" by (simp add: length_arp_request[OF assms(3)])
  then obtain dev2 r where d2: "nic_send dev1 ?f (int (length ?f)) = Inr (dev2, r)" "rx_same dev1 c1 dev2"
    using nic_send_rx_same[OF c1] by blast
  have s2: "rx_same (net_dev st) c dev2" by (rule rx_same_trans[OF d1(2) c1(1) d2(2)])
  then obtain c2 where c2: "custom_data dev2 = Some c2" "recv_ring c2 = recv_ring c" "current_rx_buffer c2 = current_rx_buffer c"
    "nic_ok c2" by (auto simp: rx_same_def)
  let ?st2 = "st\<lparr>net_dev := dev2\<rparr>"
  obtain dev' q' c' where v: "dev_addr dev' = dev_addr dev2" "dev_ip dev' = dev_ip dev2" "custom_data dev' = Some c'"
    "rx_after c2 c'" "queue_repr q' []" "net_interrupts ?ops (env n) (q, ?st2) =
      rmap (\<lambda>(st', _). (q', st')) (reveice_callback ?ops ?r (of_nat (length ?r)) (?st2\<lparr>net_dev := dev'\<rparr>))"
    using deliver_frame[of ?st2 c2 c dma ?r q ?ops] c2 assms(8-10,14,16) by auto
  obtain m where m: "hash_put (arp_map st) (htonl ip) mac = Inr m" "hm_inv m" "hm_look m = (hm_look (arp_map st))(htonl ip \<mapsto> mac)"
    using hash_put_fresh[OF assms(4,7,12,5)] by blast
  let ?st' = "st\<lparr>net_dev := dev', arp_map := m\<rparr>"
  have "net_interrupts ?ops (env n) (q, ?st2) = Inr (q', ?st')"
    unfolding v(6) callback_arp_reply[OF assms(11-13)] by (simp add: m(1))
  then have "arp_wait ?ops ip env n (q, st\<lparr>net_dev := dev1\<rparr>) = arp_wait ?ops ip env (Suc n) (q', ?st')"
    using d2(1) a1 assms(6) by (intro arp_wait_round) (simp_all add: arp_find_def)
  moreover have f: "arp_find ?st' ip = Inr (Some mac)" using m by (simp add: arp_find_def hash_get_look)
  moreover have "resend (Suc n) (net_dev st) ?f = Inr dev2" using d1(1) d2(1) by (simp add: resend_Suc del: resend.simps(2))
  moreover have "dev_addr dev2 = dev_addr (net_dev st)" "dev_ip dev2 = dev_ip (net_dev st)" using s2 by (simp_all add: rx_same_def)
  ultimately show ?thesis
    using d1(3) v(1-5) m(1) c2(1) s2 f arp_wait_known[of "(q', ?st')" ip mac ?ops env "Suc n"]
    by (intro exI[of _ dev2] exI[of _ c2] exI[of _ q'] exI[of _ ?st'] exI[of _ c']) simp
qed

subsection \<open>Properties\<close>

text \<open>
  Asking for an address: a host whose address is not known yet and that answers in round \<open>n\<close>, after rounds without
  interrupts, is asked \<open>n + 1\<close> times, with the same broadcast request, and then the loop of \<^verbatim>\<open>handle_net\<close> ends with the
  hardware address of the reply, which went from the card's descriptor through the receive interrupt, the packet
  queue and the timer interrupt into the table. Nothing is left in the queue, and addresses that were known still are.
\<close>

theorem arp_wait_learns_address:
  assumes "custom_data (net_dev st) = Some c" and "nic_ok c" and "length (dev_addr (net_dev st)) = 6"
    and "hm_inv (arp_map st)" and "hm_look (arp_map st) (htonl ip) = None" and "arp_find st ip = Inr None" and "htonl ip \<noteq> 0"
    and "queue_repr q []" and "unat (current_rx_buffer c) + 1 < 32"
    and "owned_by_nic (recv_ring c ! (unat (current_rx_buffer c) + 1))"
    and "length d = 6" and "length mac = 6" and "length t = 6"
    and "card_delivers dma c (arp_frame d mac ETH_P_ARP ARPOP_REPLY (htonl ip) t tip @ pad)"
    and "\<forall>j < n. env j = []" and "env n = [Card dma, Nic_irq 0x0400, Tick]"
  shows "\<exists>dev q' st'. resend (Suc n) (net_dev st) (arp_request ip (net_dev st)) = Inr dev
    \<and> arp_wait (am79c793 pci rd va_data va_send va_recv) ip env 0 (q, st) = Some (Inr (mac, Suc n, q', st'))
    \<and> arp_find st' ip = Inr (Some mac) \<and> queue_repr q' [] \<and> hm_inv (arp_map st')
    \<and> (\<forall>k m. hm_look (arp_map st) (htonl k) = Some m \<longrightarrow> arp_find st' k = Inr (Some m))"
proof -
  obtain dev q' st' where w: "resend (Suc n) (net_dev st) (arp_request ip (net_dev st)) = Inr dev"
    "arp_wait (am79c793 pci rd va_data va_send va_recv) ip env 0 (q, st) = Some (Inr (mac, Suc n, q', st'))"
    "queue_repr q' []" "hash_put (arp_map st) (htonl ip) mac = Inr (arp_map st')" "arp_find st' ip = Inr (Some mac)"
    using arp_wait_learns[OF assms, of pci rd va_data va_send va_recv] by blast
  have m: "hm_inv (arp_map st')" "hm_look (arp_map st') = (hm_look (arp_map st))(htonl ip \<mapsto> mac)"
    using hash_put_fresh[OF assms(4,7,12,5)] w(4) by auto
  have "arp_find st' k = Inr (Some v)" if "hm_look (arp_map st) (htonl k) = Some v" for k v
    using that m assms(5) by (auto simp: arp_find_def intro!: hash_get_look)
  then show ?thesis using w m(1) by auto
qed

text \<open>The three addresses of \<^verbatim>\<open>handle_net\<close>.\<close>

lemma handle_net_addresses:
  "inet_aton (net_text ''10.0.2.12'') = Inr 0x0A00020C" "inet_aton (net_text ''10.0.2.4'') = Inr 0x0A000204"
  "inet_aton (net_text ''10.0.2.2'') = Inr 0x0A000202"
proof -
  have e: "net_text ''10.0.2.12'' = dotted_quad 10 0 2 12 @ 0 # []" "net_text ''10.0.2.4'' = dotted_quad 10 0 2 4 @ 0 # []"
    "net_text ''10.0.2.2'' = dotted_quad 10 0 2 2 @ 0 # []"
    by (simp_all add: net_text_def dotted_quad_def octet_str_def digit_char_def)
  show "inet_aton (net_text ''10.0.2.12'') = Inr 0x0A00020C" "inet_aton (net_text ''10.0.2.4'') = Inr 0x0A000204"
    "inet_aton (net_text ''10.0.2.2'') = Inr 0x0A000202"
    unfolding e by (simp_all add: inet_aton_def dotted_quad_def aton_parts_octet aton_parts_last aton_join_def)
qed

lemma udp_send_prefix:
  "unat n = length body \<Longrightarrow> udp_send ops dip dport sport (body @ rest) n st = udp_send ops dip dport sport body n st"
  by (simp add: udp_send_def Let_def ld_bytes_def)

text \<open>Once both loops have ended, the datagram goes to the second host.\<close>

lemma handle_net_after:
  assumes "arp_wait (am79c793 pci rd va_data va_send va_recv) 0x0A000204 env1 0
      (q, st\<lparr>net_dev := (net_dev st)\<lparr>dev_ip := 0x0A00020C\<rparr>\<rparr>) = Some (Inr (m1, n1, q1, st1))"
    and "arp_wait (am79c793 pci rd va_data va_send va_recv) 0x0A000202 env2 0 (q1, st1) = Some (Inr (m2, n2, q2, st2))"
    and "arp_find st2 0x0A000202 = Inr (Some mac)" and "length mac = 6"
    and "length (dev_addr (net_dev st2)) = 6" and "dev_ip (net_dev st2) = 0x0A00020C"
  shows "handle_net (am79c793 pci rd va_data va_send va_recv) env1 env2 (q, st) =
    rmap (\<lambda>(dev', _). (q2, st2\<lparr>net_dev := dev'\<rparr>))
      (nic_send (net_dev st2)
        (ip_frame mac (dev_addr (net_dev st2)) (mk_iphdr IP_P_UDP 32 1 0x4000 0x0A00020C 0x0A000202)
          (udp_msg 0x0A00020C 0x0A000202 3333 5555 (map of_char ''fds#''))) 46)"
proof -
  let ?ops = "am79c793 pci rd va_data va_send va_recv" and ?b = "map of_char ''fds#'' :: u8 list"
  have l: "strlen (net_text ''fds#'') = Inr 4" "net_text ''fds#'' = ?b @ [0]" by (simp_all add: net_text_def)
  have "udp_send ?ops 0x0A000202 5555 3333 (net_text ''fds#'') (of_nat 4) st2 = udp_send ?ops 0x0A000202 5555 3333 ?b (of_nat 4) st2"
    unfolding l(2) by (rule udp_send_prefix) simp
  also have "\<dots> = rmap (\<lambda>(st', _). (st', 0)) (ip_send ?ops IP_P_UDP 1 0x0A000202 0x0A00020C (udp_msg 0x0A00020C 0x0A000202 3333 5555 ?b) 12 st2)"
    by (subst udp_send_msg) (simp_all add: assms(6))
  also have "ip_send ?ops IP_P_UDP 1 0x0A000202 0x0A00020C (udp_msg 0x0A00020C 0x0A000202 3333 5555 ?b) 12 st2 =
      rmap (\<lambda>(dev', r). (st2\<lparr>net_dev := dev'\<rparr>, r))
        (nic_send (net_dev st2) (ip_frame mac (dev_addr (net_dev st2)) (mk_iphdr IP_P_UDP 32 1 0x4000 0x0A00020C 0x0A000202)
          (udp_msg 0x0A00020C 0x0A000202 3333 5555 ?b)) 46)"
    using am79.ip_send_small[of mac st2 "0x0A000202" 12 "udp_msg 0x0A00020C 0x0A000202 3333 5555 ?b" pci rd va_data va_send va_recv
        IP_P_UDP 1 "0x0A00020C"] assms(3-5)
    by (simp add: dev_send_def am79c793_def)
  finally show ?thesis
    by (simp add: handle_net_def handle_net_addresses assms(1,2) l(1) rmap_def split: sum.splits prod.splits)
qed

text \<open>With both addresses known the loops send nothing.\<close>

lemma handle_net_sends:
  assumes "arp_find st 0x0A000204 = Inr (Some m1)" and "arp_find st 0x0A000202 = Inr (Some mac)" and "length mac = 6"
    and "length (dev_addr (net_dev st)) = 6"
  shows "handle_net (am79c793 pci rd va_data va_send va_recv) env1 env2 (q, st) =
    rmap (\<lambda>(dev', _). (q, st\<lparr>net_dev := dev'\<rparr>))
      (nic_send ((net_dev st)\<lparr>dev_ip := 0x0A00020C\<rparr>)
        (ip_frame mac (dev_addr (net_dev st)) (mk_iphdr IP_P_UDP 32 1 0x4000 0x0A00020C 0x0A000202)
          (udp_msg 0x0A00020C 0x0A000202 3333 5555 (map of_char ''fds#''))) 46)"
proof -
  let ?ops = "am79c793 pci rd va_data va_send va_recv"
  let ?st = "st\<lparr>net_dev := (net_dev st)\<lparr>dev_ip := 0x0A00020C\<rparr>\<rparr>"
  have 1: "arp_wait ?ops 0x0A000204 env1 0 (q, ?st) = Some (Inr (m1, 0, q, ?st))"
    "arp_wait ?ops 0x0A000202 env2 0 (q, ?st) = Some (Inr (mac, 0, q, ?st))"
    using assms(1,2) by (auto intro!: arp_wait_known simp: arp_find_def)
  show ?thesis using handle_net_after[OF 1 _ assms(3)] assms(2,4) by (simp add: arp_find_def)
qed

text \<open>A host that never answers keeps \<^verbatim>\<open>handle_net\<close>, and with it the start of the kernel, in its first loop.\<close>

lemma handle_net_hangs:
  assumes "custom_data (net_dev st) = Some c" and "nic_ok c" and "length (dev_addr (net_dev st)) = 6"
    and "arp_find st 0x0A000204 = Inr None" and "\<forall>j. env1 j = []"
  shows "handle_net (am79c793 pci rd va_data va_send va_recv) env1 env2 (q, st) = Inl Hang"
proof -
  let ?s = "(q, st\<lparr>net_dev := (net_dev st)\<lparr>dev_ip := 0x0A00020C\<rparr>\<rparr>)"
  have "stuck 0x0A000204 ?s" using assms by (auto simp: stuck_def arp_find_def)
  then have "arp_wait (am79c793 pci rd va_data va_send va_recv) 0x0A000204 env1 0 ?s = None"
    using arp_wait_never_ends assms(5) by (metis not_Some_eq)
  then show ?thesis by (simp add: handle_net_def handle_net_addresses)
qed

subsection \<open>An answer in the third round\<close>

definition sample_reply :: "u8 list" where
  "sample_reply = arp_frame (replicate 6 1) (replicate 6 2) ETH_P_ARP ARPOP_REPLY (htonl 0x0A000204) (replicate 6 1) 0 @ replicate 18 0"

definition reply_bd :: buffer_descriptor where
  "reply_bd = \<lparr>bd_buffer = sample_reply @ replicate 1484 0, bd_flags = 0x0300F7FF, bd_flags2 = 64, bd_avail = 0\<rparr>"

definition sample_dma :: "nic_dev \<Rightarrow> nic_dev" where
  "sample_dma dev = dev\<lparr>custom_data := map_option (\<lambda>c. c\<lparr>recv_ring := (recv_ring c)[unat (current_rx_buffer c) := reply_bd]\<rparr>) (custom_data dev)\<rparr>"

lemma length_sample_reply: "length sample_reply = 60"
  by (simp add: sample_reply_def length_arp_frame)

lemma sample_dma_delivers: "card_delivers sample_dma c sample_reply"
proof -
  have "frame_ready reply_bd \<and> frame_of reply_bd = (Some sample_reply, of_nat (length sample_reply))"
    by (simp add: frame_ready_def frame_of_def frame_complete_def frame_size_def owned_by_nic_def reply_bd_def length_sample_reply)
  then show ?thesis by (auto simp: card_delivers_def sample_dma_def)
qed

theorem arp_wait_learns_address_witness:
  "\<exists>q' st'. arp_wait (am79c793 [] (\<lambda>_. 0) 0 0 0) 0x0A000204
      (\<lambda>j. if j = 2 then [Card sample_dma, Nic_irq 0x0400, Tick] else []) 0
      (skb_empty, \<lparr>arp_map = arp_init, net_dev = sample_dev (Some (sample_nic 0))\<rparr>) = Some (Inr (replicate 6 2, 3, q', st'))
    \<and> arp_find st' 0x0A000204 = Inr (Some (replicate 6 2))"
proof -
  let ?st = "\<lparr>arp_map = arp_init, net_dev = sample_dev (Some (sample_nic 0))\<rparr>"
  let ?env = "\<lambda>j :: nat. if j = 2 then [Card sample_dma, Nic_irq 0x0400, Tick] else []"
  have b: "hm_list arp_init = Some (replicate 10 (zero_entry, []))" by (simp add: arp_init_def)
  have u: "arp_find ?st 0x0A000204 = Inr None"
    using hash_get_absent[OF hm_inv_init b, of "htonl 0x0A000204"]
    by (simp add: arp_find_def slot_def zero_entry_def htonl_def Let_def)
  have o: "owned_by_nic (recv_ring (sample_nic 0) ! (unat (current_rx_buffer (sample_nic 0)) + 1))"
    by (simp add: sample_nic_def ready_bd_ready)
  have z: "htonl 0x0A000204 \<noteq> 0" by (simp add: htonl_def Let_def)
  have d: "card_delivers sample_dma (sample_nic 0)
      (arp_frame (replicate 6 1) (replicate 6 2) ETH_P_ARP ARPOP_REPLY (htonl 0x0A000204) (replicate 6 1) 0 @ replicate 18 0)"
    using sample_dma_delivers by (simp add: sample_reply_def)
  have "3 = Suc 2" by simp
  then show ?thesis
    using arp_wait_learns_address[OF _ _ _ _ _ u z queue_repr_empty _ o _ _ _ d, of 2 ?env "[]" "\<lambda>_. 0" 0 0 0]
    by (auto simp: sample_nic_ok hm_inv_init sample_nic_simps sample_dev_def)
qed

end
