(* ===== verification/Initcalls.thy ===== *)
theory Initcalls
  imports Prelude "HOL-Library.Multiset"
begin

text \<open>
  The calls registered for the start: include/system/init.h and the section \<^verbatim>\<open>.init.data\<close> of the
  linker script. A registration puts a function pointer into a section that its level names, the
  script lays the sections out one after the other with symbols between them, and \<^verbatim>\<open>do_initcalls\<close>
  calls what it finds between the symbols. The lemmas show that each registered function is called
  once, by level and within a level in the order of linking.
\<close>

subsection \<open>Registration\<close>

text \<open>The pointers of the linked files with the section each is in, in the order of linking.\<close>

type_synonym 'f registrations = "(string \<times> 'f) list"

definition define_initcall :: "'f \<Rightarrow> string \<Rightarrow> string \<times> 'f" where
  "define_initcall fn level = (''.initcall'' @ level @ ''.init'', fn)"

definition core_initcall :: "'f \<Rightarrow> string \<times> 'f" where
  "core_initcall fn = define_initcall fn ''1''"

definition device_initcall :: "'f \<Rightarrow> string \<times> 'f" where
  "device_initcall fn = define_initcall fn ''6''"

definition module_init :: "'f \<Rightarrow> string \<times> 'f" where
  "module_init fn = device_initcall fn"

subsection \<open>The linker script\<close>

text \<open>\<^verbatim>\<open>sym = .;\<close> and \<^verbatim>\<open>*(sec)\<close>.\<close>

datatype layout = Symbol string | Input string

definition init_data :: "layout list" where
  "init_data = [Symbol ''__initcall_start'', Input ''.initcallearly.init'',
     Symbol ''__initcall0_start'', Input ''.initcall0.init'', Input ''.initcall0s.init'',
     Symbol ''__initcall1_start'', Input ''.initcall1.init'', Input ''.initcall1s.init'',
     Symbol ''__initcall2_start'', Input ''.initcall2.init'', Input ''.initcall2s.init'',
     Symbol ''__initcall3_start'', Input ''.initcall3.init'', Input ''.initcall3s.init'',
     Symbol ''__initcall4_start'', Input ''.initcall4.init'', Input ''.initcall4s.init'',
     Symbol ''__initcall5_start'', Input ''.initcall5.init'', Input ''.initcall5s.init'',
     Symbol ''__initcallrootfs_start'', Input ''.initcallrootfs.init'', Input ''.initcallrootfss.init'',
     Symbol ''__initcall6_start'', Input ''.initcall6.init'', Input ''.initcall6s.init'',
     Symbol ''__initcall7_start'', Input ''.initcall7.init'', Input ''.initcall7s.init'',
     Symbol ''__initcall_end'']"

text \<open>What the linker does with it: the pointers in memory, and the index a symbol stands for.\<close>

definition in_section :: "'f registrations \<Rightarrow> string \<Rightarrow> 'f list" where
  "in_section regs sec = map snd (filter (\<lambda>r. fst r = sec) regs)"

fun image :: "layout list \<Rightarrow> 'f registrations \<Rightarrow> 'f list" where
  "image [] regs = []"
| "image (Symbol s # ls) regs = image ls regs"
| "image (Input sec # ls) regs = in_section regs sec @ image ls regs"

fun address :: "layout list \<Rightarrow> 'f registrations \<Rightarrow> string \<Rightarrow> nat \<Rightarrow> nat option" where
  "address [] regs s n = None"
| "address (Symbol t # ls) regs s n = (if t = s then Some n else address ls regs s n)"
| "address (Input sec # ls) regs s n = address ls regs s (n + length (in_section regs sec))"

subsection \<open>The calls\<close>

definition initcall_levels :: "string list" where
  "initcall_levels = [''__initcall0_start'', ''__initcall1_start'', ''__initcall2_start'', ''__initcall3_start'',
     ''__initcall4_start'', ''__initcall5_start'', ''__initcall6_start'', ''__initcall7_start'', ''__initcall_end'']"

definition level_calls :: "'f registrations \<Rightarrow> nat \<Rightarrow> 'f list" where
  "level_calls regs level =
     (let start = (\<lambda>l. the (address init_data regs (initcall_levels ! l) 0))
      in map (\<lambda>fn. image init_data regs ! fn) [start level..<start (level + 1)])"

definition do_initcalls :: "('f \<Rightarrow> 's \<Rightarrow> 's res) \<Rightarrow> 'f registrations \<Rightarrow> 's \<Rightarrow> 's res" where
  "do_initcalls call regs = run_steps (\<lambda>level. run_steps call (level_calls regs level)) [0..<9 - 1]"

subsection \<open>The sections between two symbols\<close>

lemma map_nth_slice: "b \<le> length xs \<Longrightarrow> map (\<lambda>i. xs ! i) [a..<b] = take (b - a) (drop a xs)"
  by (rule nth_equalityI) auto

text \<open>The calls of a level: those of its two sections, and those for the root file system after the fifth.\<close>

lemma level_calls_sections:
  "level_calls regs 0 = in_section regs ''.initcall0.init'' @ in_section regs ''.initcall0s.init''"
  "level_calls regs 1 = in_section regs ''.initcall1.init'' @ in_section regs ''.initcall1s.init''"
  "level_calls regs 2 = in_section regs ''.initcall2.init'' @ in_section regs ''.initcall2s.init''"
  "level_calls regs 3 = in_section regs ''.initcall3.init'' @ in_section regs ''.initcall3s.init''"
  "level_calls regs 4 = in_section regs ''.initcall4.init'' @ in_section regs ''.initcall4s.init''"
  "level_calls regs 5 = in_section regs ''.initcall5.init'' @ in_section regs ''.initcall5s.init'' @
     in_section regs ''.initcallrootfs.init'' @ in_section regs ''.initcallrootfss.init''"
  "level_calls regs 6 = in_section regs ''.initcall6.init'' @ in_section regs ''.initcall6s.init''"
  "level_calls regs 7 = in_section regs ''.initcall7.init'' @ in_section regs ''.initcall7s.init''"
  by (simp_all add: level_calls_def initcall_levels_def init_data_def Let_def map_nth_slice)

subsection \<open>The order of the calls\<close>

text \<open>Registrations at the levels 0 to 7 that the symbols name.\<close>

definition level_name :: "nat \<Rightarrow> string" where
  "level_name n = [''01234567'' ! n]"

definition at_levels :: "(nat \<times> 'f) list \<Rightarrow> 'f registrations" where
  "at_levels rs = map (\<lambda>(n, fn). define_initcall fn (level_name n)) rs"

lemma less_8: "n < 8 \<longleftrightarrow> n \<in> {0, 1, 2, 3, 4, 5, 6, 7 :: nat}"
  by auto

lemma level_name_eq: "n < 8 \<Longrightarrow> k < 8 \<Longrightarrow> level_name n = level_name k \<longleftrightarrow> n = k"
  by (simp add: level_name_def nth_eq_iff_index_eq)

lemma in_section_level:
  assumes "\<forall>r \<in> set rs. fst r < 8" and "k < 8"
  shows "in_section (at_levels rs) (''.initcall'' @ level_name k @ ''.init'') = map snd (filter (\<lambda>r. fst r = k) rs)"
  using assms by (induction rs) (auto simp: at_levels_def in_section_def define_initcall_def level_name_eq)

lemma in_section_other:
  assumes "\<forall>r \<in> set rs. fst r < 8" and "length sec \<noteq> 15"
  shows "in_section (at_levels rs) sec = []"
  using assms by (induction rs) (auto simp: at_levels_def in_section_def define_initcall_def level_name_def)

lemma level_calls_level:
  assumes "\<forall>r \<in> set rs. fst r < 8" and "k < 8"
  shows "level_calls (at_levels rs) k = map snd (filter (\<lambda>r. fst r = k) rs)"
proof -
  note s = in_section_level[OF assms(1), unfolded level_name_def]
  from s[of 0] s[of 1] s[of 2] s[of 3] s[of 4] s[of 5] s[of 6] s[of 7] assms(2) show ?thesis
    unfolding less_8 by (auto simp: level_calls_sections[simplified] in_section_other[OF assms(1)])
qed

text \<open>Taking the levels one after the other is sorting by level, in a stable way.\<close>

lemma levels_sort:
  assumes "\<forall>r \<in> set rs. fst r < k"
  shows "concat (map (\<lambda>n. filter (\<lambda>r. fst r = n) rs) [0..<k]) = sort_key fst rs"
proof (rule sym, rule properties_for_sort_key)
  let ?c = "\<lambda>k. concat (map (\<lambda>n. filter (\<lambda>r. fst r = n) rs) [0..<k])"
  have m: "mset (?c k) = mset (filter (\<lambda>r. fst r < k) rs)" for k
  proof (induction k)
    case (Suc k)
    have "mset (filter (\<lambda>r. fst r < Suc k) rs) = mset (filter (\<lambda>r. fst r < k) rs) + mset (filter (\<lambda>r. fst r = k) rs)"
      by (induction rs) auto
    then show ?case using Suc by simp
  qed simp
  moreover have "filter (\<lambda>r. fst r < k) rs = rs" using assms by (simp add: filter_id_conv)
  ultimately show "mset (?c k) = mset rs" by (metis (no_types))
  show "filter (\<lambda>x. fst r = fst x) (?c k) = filter (\<lambda>x. fst r = fst x) rs" if "r \<in> set (?c k)" for r
  proof -
    have f: "filter (\<lambda>x. fst r = fst x) (?c k) = (if fst r < k then filter (\<lambda>x. fst r = fst x) rs else [])" for k
    proof (induction k)
      case (Suc k)
      have "filter (\<lambda>x. fst r = fst x) (filter (\<lambda>x. fst x = k) rs) = (if fst r = k then filter (\<lambda>x. fst r = fst x) rs else [])"
        by (auto simp: filter_empty_conv intro!: filter_cong)
      then show ?case using Suc by auto
    qed simp
    show ?thesis using that assms by (simp add: f)
  qed
  show "sorted (map fst (?c k))"
  proof (induction k)
    case (Suc k)
    have "sorted (map fst (filter (\<lambda>r. fst r = k) rs))" by (induction rs) auto
    then show ?case using Suc by (auto simp: sorted_append)
  qed simp
qed

subsection \<open>Properties\<close>

text \<open>
  C21. Whatever functions are registered at the eight levels, \<^verbatim>\<open>do_initcalls\<close> calls each of them once, by
  level and, within a level, in the order in which their files are linked, and stops at the first that
  does not return.
\<close>

theorem initcalls_run_by_level:
  assumes "\<forall>r \<in> set rs. fst r < 8"
  shows "do_initcalls call (at_levels rs) s = run_steps call (map snd (sort_key fst rs)) s"
proof -
  have "map (level_calls (at_levels rs)) [0..<8] = map (\<lambda>k. map snd (filter (\<lambda>r. fst r = k) rs)) [0..<8]"
    using level_calls_level[OF assms] by simp
  then have "concat (map (level_calls (at_levels rs)) [0..<8]) = map snd (concat (map (\<lambda>k. filter (\<lambda>r. fst r = k) rs) [0..<8]))"
    by (simp only: map_concat map_map comp_def)
  then show ?thesis using levels_sort[OF assms] by (simp add: do_initcalls_def run_steps_concat)
qed

theorem initcalls_run_by_level_witness:
  "do_initcalls (\<lambda>f s. Inr (s @ [f])) [module_init (1 :: nat), core_initcall 2, module_init 3, core_initcall 4] [] = Inr [2, 4, 1, 3]"
proof -
  have "[module_init (1 :: nat), core_initcall 2, module_init 3, core_initcall 4] = at_levels [(6, 1), (1, 2), (6, 3), (1, 4)]"
    by (simp add: at_levels_def level_name_def module_init_def device_initcall_def core_initcall_def)
  then show ?thesis using initcalls_run_by_level[of "[(6, 1), (1, 2), (6, 3), (1, 4 :: nat)]" "\<lambda>f s. Inr (s @ [f])" "[]"] by simp
qed

end
