(* ===== verification/Keyboard.thy ===== *)
theory Keyboard
  imports Tty
begin

text \<open>
  drivers/i386/keyboard.c and include/drivers/i386/keyboard.h: the key map, the ring buffer of
  scan codes that the interrupt handler fills, the decoding of scan codes into keys, the state
  of the modifier and lock keys, and the delivery of a key to a terminal.

  The keyboard controller is a parameter \<open>dev\<close>: \<open>dev n p\<close> is what the \<open>n\<close>-th read since the
  start returns when it reads port \<open>p\<close>. Bytes written to it are logged. The tests of a scan
  code against \<open>-1\<close> compare an \<^verbatim>\<open>unsigned char\<close> with a negative number, so they never hold
  and have no branch in the model. The last two calls of
  \<^verbatim>\<open>keyboard_init\<close>, which register and enable the interrupt, are added in the theory \<open>Startup\<close>.
\<close>

unbundle bit_operations_syntax

subsection \<open>Keys\<close>

definition FLAG_BREAK :: u8 where "FLAG_BREAK = 0x80"
definition FLAG_EXT :: u32 where "FLAG_EXT = 0x100"
definition FLAG_SHIFT_L :: u32 where "FLAG_SHIFT_L = 0x200"
definition FLAG_SHIFT_R :: u32 where "FLAG_SHIFT_R = 0x400"
definition FLAG_CTRL_L :: u32 where "FLAG_CTRL_L = 0x800"
definition FLAG_CTRL_R :: u32 where "FLAG_CTRL_R = 0x1000"
definition FLAG_ALT_L :: u32 where "FLAG_ALT_L = 0x2000"
definition FLAG_ALT_R :: u32 where "FLAG_ALT_R = 0x4000"
definition FLAG_PAD :: u32 where "FLAG_PAD = 0x8000"
definition KB_DATA :: u16 where "KB_DATA = 0x60"
definition KB_CMD :: u16 where "KB_CMD = 0x64"
definition LED_CODE :: u8 where "LED_CODE = 0xED"
definition KB_ACK :: u8 where "KB_ACK = 0xFA"
definition KB_IN_BYTES :: nat where "KB_IN_BYTES = 32"
definition MAP_COLS :: nat where "MAP_COLS = 3"

definition ESC :: u32 where "ESC = 0x101"
definition TAB :: u32 where "TAB = 0x102"
definition ENTER :: u32 where "ENTER = 0x103"
definition BACKSPACE :: u32 where "BACKSPACE = 0x104"
definition GUI_L :: u32 where "GUI_L = 0x105"
definition GUI_R :: u32 where "GUI_R = 0x106"
definition APPS :: u32 where "APPS = 0x107"
definition SHIFT_L :: u32 where "SHIFT_L = 0x108"
definition SHIFT_R :: u32 where "SHIFT_R = 0x109"
definition CTRL_L :: u32 where "CTRL_L = 0x10A"
definition CTRL_R :: u32 where "CTRL_R = 0x10B"
definition ALT_L :: u32 where "ALT_L = 0x10C"
definition ALT_R :: u32 where "ALT_R = 0x10D"
definition CAPS_LOCK :: u32 where "CAPS_LOCK = 0x10E"
definition NUM_LOCK :: u32 where "NUM_LOCK = 0x10F"
definition SCROLL_LOCK :: u32 where "SCROLL_LOCK = 0x110"
definition F1 :: u32 where "F1 = 0x111"
definition F2 :: u32 where "F2 = 0x112"
definition F3 :: u32 where "F3 = 0x113"
definition F4 :: u32 where "F4 = 0x114"
definition F5 :: u32 where "F5 = 0x115"
definition F6 :: u32 where "F6 = 0x116"
definition F7 :: u32 where "F7 = 0x117"
definition F8 :: u32 where "F8 = 0x118"
definition F9 :: u32 where "F9 = 0x119"
definition F10 :: u32 where "F10 = 0x11A"
definition F11 :: u32 where "F11 = 0x11B"
definition F12 :: u32 where "F12 = 0x11C"
definition PRINTSCREEN :: u32 where "PRINTSCREEN = 0x11D"
definition PAUSEBREAK :: u32 where "PAUSEBREAK = 0x11E"
definition INSERT :: u32 where "INSERT = 0x11F"
definition DELETE :: u32 where "DELETE = 0x120"
definition HOME :: u32 where "HOME = 0x121"
definition END :: u32 where "END = 0x122"
definition PAGEUP :: u32 where "PAGEUP = 0x123"
definition PAGEDOWN :: u32 where "PAGEDOWN = 0x124"
definition UP :: u32 where "UP = 0x125"
definition DOWN :: u32 where "DOWN = 0x126"
definition LEFT :: u32 where "LEFT = 0x127"
definition RIGHT :: u32 where "RIGHT = 0x128"
definition PAD_SLASH :: u32 where "PAD_SLASH = 0x12C"
definition PAD_STAR :: u32 where "PAD_STAR = 0x12D"
definition PAD_MINUS :: u32 where "PAD_MINUS = 0x12E"
definition PAD_PLUS :: u32 where "PAD_PLUS = 0x12F"
definition PAD_ENTER :: u32 where "PAD_ENTER = 0x130"
definition PAD_DOT :: u32 where "PAD_DOT = 0x131"
definition PAD_0 :: u32 where "PAD_0 = 0x132"
definition PAD_1 :: u32 where "PAD_1 = 0x133"
definition PAD_2 :: u32 where "PAD_2 = 0x134"
definition PAD_3 :: u32 where "PAD_3 = 0x135"
definition PAD_4 :: u32 where "PAD_4 = 0x136"
definition PAD_5 :: u32 where "PAD_5 = 0x137"
definition PAD_6 :: u32 where "PAD_6 = 0x138"
definition PAD_7 :: u32 where "PAD_7 = 0x139"
definition PAD_8 :: u32 where "PAD_8 = 0x13A"
definition PAD_9 :: u32 where "PAD_9 = 0x13B"
definition PAD_UP :: u32 where "PAD_UP = PAD_8"
definition PAD_DOWN :: u32 where "PAD_DOWN = PAD_2"
definition PAD_LEFT :: u32 where "PAD_LEFT = PAD_4"
definition PAD_RIGHT :: u32 where "PAD_RIGHT = PAD_6"
definition PAD_HOME :: u32 where "PAD_HOME = PAD_7"
definition PAD_END :: u32 where "PAD_END = PAD_1"
definition PAD_PAGEUP :: u32 where "PAD_PAGEUP = PAD_9"
definition PAD_PAGEDOWN :: u32 where "PAD_PAGEDOWN = PAD_3"
definition PAD_INS :: u32 where "PAD_INS = PAD_0"
definition PAD_MID :: u32 where "PAD_MID = PAD_5"

lemmas key_defs =
  ESC_def TAB_def ENTER_def BACKSPACE_def GUI_L_def GUI_R_def APPS_def SHIFT_L_def
  SHIFT_R_def CTRL_L_def CTRL_R_def ALT_L_def ALT_R_def CAPS_LOCK_def NUM_LOCK_def
  SCROLL_LOCK_def F1_def F2_def F3_def F4_def F5_def F6_def F7_def F8_def F9_def F10_def
  F11_def F12_def PRINTSCREEN_def PAUSEBREAK_def INSERT_def DELETE_def HOME_def END_def
  PAGEUP_def PAGEDOWN_def UP_def DOWN_def LEFT_def RIGHT_def PAD_SLASH_def PAD_STAR_def
  PAD_MINUS_def PAD_PLUS_def PAD_ENTER_def PAD_DOT_def PAD_0_def PAD_1_def PAD_2_def
  PAD_3_def PAD_4_def PAD_5_def PAD_6_def PAD_7_def PAD_8_def PAD_9_def PAD_UP_def
  PAD_DOWN_def PAD_LEFT_def PAD_RIGHT_def PAD_HOME_def PAD_END_def PAD_PAGEUP_def
  PAD_PAGEDOWN_def PAD_INS_def PAD_MID_def

definition keymap :: "u32 list" where
  "keymap = [
     0, 0, 0, ESC, ESC, 0,
     49, 33, 0, 50, 64, 0,
     51, 35, 0, 52, 36, 0,
     53, 37, 0, 54, 94, 0,
     55, 38, 0, 56, 42, 0,
     57, 40, 0, 48, 41, 0,
     45, 95, 0, 61, 43, 0,
     BACKSPACE, BACKSPACE, 0, TAB, TAB, 0,
     113, 81, 0, 119, 87, 0,
     101, 69, 0, 114, 82, 0,
     116, 84, 0, 121, 89, 0,
     117, 85, 0, 105, 73, 0,
     111, 79, 0, 112, 80, 0,
     91, 123, 0, 93, 125, 0,
     ENTER, ENTER, PAD_ENTER, CTRL_L, CTRL_L, CTRL_R,
     97, 65, 0, 115, 83, 0,
     100, 68, 0, 102, 70, 0,
     103, 71, 0, 104, 72, 0,
     106, 74, 0, 107, 75, 0,
     108, 76, 0, 59, 58, 0,
     39, 34, 0, 96, 126, 0,
     SHIFT_L, SHIFT_L, 0, 92, 124, 0,
     122, 90, 0, 120, 88, 0,
     99, 67, 0, 118, 86, 0,
     98, 66, 0, 110, 78, 0,
     109, 77, 0, 44, 60, 0,
     46, 62, 0, 47, 63, PAD_SLASH,
     SHIFT_R, SHIFT_R, 0, 42, 42, 0,
     ALT_L, ALT_L, ALT_R, 32, 32, 0,
     CAPS_LOCK, CAPS_LOCK, 0, F1, F1, 0,
     F2, F2, 0, F3, F3, 0,
     F4, F4, 0, F5, F5, 0,
     F6, F6, 0, F7, F7, 0,
     F8, F8, 0, F9, F9, 0,
     F10, F10, 0, NUM_LOCK, NUM_LOCK, 0,
     SCROLL_LOCK, SCROLL_LOCK, 0, PAD_HOME, 55, HOME,
     PAD_UP, 56, UP, PAD_PAGEUP, 57, PAGEUP,
     PAD_MINUS, 45, 0, PAD_LEFT, 52, LEFT,
     PAD_MID, 53, 0, PAD_RIGHT, 54, RIGHT,
     PAD_PLUS, 43, 0, PAD_END, 49, END,
     PAD_DOWN, 50, DOWN, PAD_PAGEDOWN, 51, PAGEDOWN,
     PAD_INS, 48, INSERT, PAD_DOT, 46, DELETE,
     0, 0, 0, 0, 0, 0,
     0, 0, 0, F11, F11, 0,
     F12, F12, 0, 0, 0, 0,
     0, 0, 0, 0, 0, GUI_L,
     0, 0, GUI_R, 0, 0, APPS,
     0, 0, 0, 0, 0, 0,
     0, 0, 0, 0, 0, 0,
     0, 0, 0, 0, 0, 0,
     0, 0, 0, 0, 0, 0,
     0, 0, 0, 0, 0, 0,
     0, 0, 0, 0, 0, 0,
     0, 0, 0, 0, 0, 0,
     0, 0, 0, 0, 0, 0,
     0, 0, 0, 0, 0, 0,
     0, 0, 0, 0, 0, 0,
     0, 0, 0, 0, 0, 0,
     0, 0, 0, 0, 0, 0,
     0, 0, 0, 0, 0, 0,
     0, 0, 0, 0, 0, 0,
     0, 0, 0, 0, 0, 0,
     0, 0, 0, 0, 0, 0,
     0, 0, 0, 0, 0, 0]"

subsection \<open>State\<close>

record kb_state =
  kb_buf :: "u8 list"
  kb_head :: nat
  kb_tail :: nat
  kb_count :: nat
  code_with_E0 :: bool
  shift_l :: bool
  shift_r :: bool
  alt_l :: bool
  alt_r :: bool
  ctrl_l :: bool
  ctrl_r :: bool
  caps_lock :: bool
  num_lock :: bool
  scroll_lock :: bool
  column :: nat
  kb_tty :: tty_state
  kb_reads :: nat
  kb_out :: "(u8 \<times> u16) list"

type_synonym controller = "nat \<Rightarrow> u16 \<Rightarrow> u8"

definition kb_inb :: "controller \<Rightarrow> u16 \<Rightarrow> kb_state \<Rightarrow> u8 \<times> kb_state" where
  "kb_inb dev p kb = (dev (kb_reads kb) p, kb\<lparr>kb_reads := Suc (kb_reads kb)\<rparr>)"

definition kb_outb :: "u8 \<Rightarrow> u16 \<Rightarrow> kb_state \<Rightarrow> kb_state" where
  "kb_outb v p kb = kb\<lparr>kb_out := kb_out kb @ [(v, p)]\<rparr>"

subsection \<open>The controller\<close>

partial_function (option) kb_wait :: "controller \<Rightarrow> kb_state \<Rightarrow> kb_state option" where
  "kb_wait dev kb =
     (case kb_inb dev KB_CMD kb of (kb_stat, kb1) \<Rightarrow>
        if kb_stat AND 2 \<noteq> 0 then kb_wait dev kb1 else Some kb1)"

partial_function (option) kb_ack :: "controller \<Rightarrow> kb_state \<Rightarrow> kb_state option" where
  "kb_ack dev kb =
     (case kb_inb dev KB_DATA kb of (kb_read, kb1) \<Rightarrow>
        if kb_read \<noteq> KB_ACK then kb_ack dev kb1 else Some kb1)"

definition send_byte :: "controller \<Rightarrow> u8 \<Rightarrow> kb_state \<Rightarrow> kb_state res" where
  "send_byte dev v kb =
     rbind (terminates (kb_wait dev kb)) (\<lambda>kb1. terminates (kb_ack dev (kb_outb v KB_DATA kb1)))"

definition set_leds :: "controller \<Rightarrow> kb_state \<Rightarrow> kb_state res" where
  "set_leds dev kb =
     (let leds = push_bit 2 (of_bool (caps_lock kb)) OR push_bit 1 (of_bool (num_lock kb)) OR of_bool (scroll_lock kb)
      in rbind (send_byte dev LED_CODE kb) (send_byte dev leds))"

definition keyboard_init :: "controller \<Rightarrow> kb_state \<Rightarrow> kb_state res" where
  "keyboard_init dev kb =
     set_leds dev (kb\<lparr>kb_count := 0, kb_head := 0, kb_tail := 0, shift_l := False, shift_r := False,
       alt_l := False, alt_r := False, ctrl_l := False, ctrl_r := False, caps_lock := False,
       num_lock := True, scroll_lock := False, column := 0\<rparr>)"

subsection \<open>The ring buffer\<close>

definition kb_push :: "u8 \<Rightarrow> kb_state \<Rightarrow> kb_state" where
  "kb_push sc kb =
     (if kb_count kb < KB_IN_BYTES
      then kb\<lparr>kb_buf := (kb_buf kb)[kb_head kb := sc],
              kb_head := (if kb_head kb + 1 = KB_IN_BYTES then 0 else kb_head kb + 1),
              kb_count := kb_count kb + 1\<rparr>
      else kb)"

definition get_tail :: "kb_state \<Rightarrow> u8" where
  "get_tail kb = (if kb_count kb = 0 then 0xFF else kb_buf kb ! kb_tail kb)"

definition pop_buf :: "kb_state \<Rightarrow> kb_state" where
  "pop_buf kb =
     (if kb_count kb = 0 then kb
      else kb\<lparr>kb_tail := (if kb_tail kb + 1 = KB_IN_BYTES then 0 else kb_tail kb + 1),
              kb_count := kb_count kb - 1\<rparr>)"

subsection \<open>Delivering a key to a terminal\<close>

text \<open>A store through \<^verbatim>\<open>inbuf_head\<close>, and the head after it.\<close>

definition store_in :: "u32 \<Rightarrow> tty \<Rightarrow> tty res" where
  "store_in v t =
     (case inbuf_head t of
        NullPtr \<Rightarrow> Inl NullDeref
      | OfLocal _ \<Rightarrow> Inl Dangling
      | Own k \<Rightarrow> rmap (\<lambda>b. t\<lparr>in_buff := b, inbuf_head := Own (if k + 1 = TTY_IN_BYTES then 0 else k + 1),
                              inbuf_count := inbuf_count t + 1\<rparr>)
                  (arr_set (in_buff t) k v))"

definition handle_tty :: "nat \<Rightarrow> u32 \<Rightarrow> tty_state \<Rightarrow> tty_state res" where
  "handle_tty i content st =
     (if content AND FLAG_CTRL_L \<noteq> 0 \<and> content AND 0xFF = 108 then clear_screen i st
      else if content = PAGEDOWN then Inr (scroll_screen i SCR_DN st)
      else if content = PAGEUP then Inr (scroll_screen i SCR_UP st)
      else if content AND FLAG_EXT = 0 \<or> content = ENTER \<or> content = BACKSPACE then
        (let key = (if content = ENTER then 10 else if content = BACKSPACE then 8 else ucast (content AND 0xFF) :: u8)
         in rbind (tty_write 0 [key] 1 st) (\<lambda>(_, st1).
              let t = tty_table st1 ! i in
              if sint (inbuf_count t) < int TTY_IN_BYTES
              then rmap (\<lambda>t'. st1\<lparr>tty_table := (tty_table st1)[i := t']\<rparr>) (store_in (scast key) t)
              else Inr st1))
      else Inr st)"

subsection \<open>Decoding\<close>

text \<open>
  The loop over the bytes of the Pause sequence: the scan code read last, and whether all
  bytes matched. \<^verbatim>\<open>get_tail\<close> does not take the byte out of the buffer.
\<close>

fun pause_loop :: "kb_state \<Rightarrow> u8 \<Rightarrow> u8 list \<Rightarrow> u8 \<times> bool" where
  "pause_loop kb sc [] = (sc, True)"
| "pause_loop kb sc (c # cs) = (if get_tail kb \<noteq> c then (get_tail kb, False) else pause_loop kb (get_tail kb) cs)"

text \<open>The first part of an iteration: the state, the scan code, the key and \<^verbatim>\<open>make\<close> after it.\<close>

definition parse_scan :: "kb_state \<Rightarrow> u32 \<Rightarrow> bool option \<Rightarrow> kb_state \<times> u8 \<times> u32 \<times> bool option" where
  "parse_scan kb0 key mk0 =
     (let kb = kb0\<lparr>code_with_E0 := False\<rparr>; sc = get_tail kb in
      if sc = 0xE1 then
        (case pause_loop kb sc [0x1D, 0x45, 0xE1, 0x9D, 0xC5] of (sc1, is_pausebreak) \<Rightarrow>
           ((pop_buf ^^ 7) kb, sc1, if is_pausebreak then PAUSEBREAK else key, mk0))
      else if sc = 0xE0 then
        (let kb1 = kb\<lparr>code_with_E0 := True\<rparr>; sc1 = get_tail kb1 in
         if sc1 = 0x2A then
           (let kb2 = kb1\<lparr>code_with_E0 := False\<rparr>; sc2 = get_tail kb2 in
            if sc2 = 0xE0 then
              (let kb3 = kb2\<lparr>code_with_E0 := True\<rparr>; sc3 = get_tail kb3 in
               if sc3 = 0x37 then ((pop_buf ^^ 4) kb3, sc3, PRINTSCREEN, Some True)
               else ((pop_buf ^^ 4) kb3, sc3, key, mk0))
            else ((pop_buf ^^ 4) kb2, sc2, key, mk0))
         else if sc1 = 0xB7 then
           (let kb2 = kb1\<lparr>code_with_E0 := False\<rparr>; sc2 = get_tail kb2 in
            if sc2 = 0xE0 then
              (let kb3 = kb2\<lparr>code_with_E0 := True\<rparr>; sc3 = get_tail kb3 in
               if sc3 = 0xAA then ((pop_buf ^^ 3) kb3, sc3, PRINTSCREEN, Some False)
               else ((pop_buf ^^ 3) kb3, sc3, key, mk0))
            else ((pop_buf ^^ 3) kb2, sc2, key, mk0))
         else (kb1, sc1, key, mk0))
      else (pop_buf kb, sc, key, mk0))"

text \<open>The column of the key map for a row, and the key.\<close>

definition map_column :: "kb_state \<Rightarrow> nat \<Rightarrow> nat" where
  "map_column kb row =
     (let shifted = shift_l kb \<or> shift_r kb;
          letter = 97 \<le> keymap ! row \<and> keymap ! row \<le> 122;
          caps = (if caps_lock kb \<and> letter then \<not> shifted else shifted)
      in if code_with_E0 kb then 2 else if caps then 1 else 0)"

definition modifier :: "controller \<Rightarrow> u32 \<Rightarrow> bool \<Rightarrow> kb_state \<Rightarrow> kb_state res" where
  "modifier dev key mk0 kb =
     (if key = SHIFT_L then Inr (kb\<lparr>shift_l := mk0\<rparr>)
      else if key = SHIFT_R then Inr (kb\<lparr>shift_r := mk0\<rparr>)
      else if key = CTRL_L then Inr (kb\<lparr>ctrl_l := mk0\<rparr>)
      else if key = CTRL_R then Inr (kb\<lparr>ctrl_r := mk0\<rparr>)
      else if key = ALT_L then Inr (kb\<lparr>alt_l := mk0\<rparr>)
      else if key = ALT_R then Inr (kb\<lparr>alt_l := mk0\<rparr>)
      else if key = CAPS_LOCK then (if mk0 then set_leds dev (kb\<lparr>caps_lock := \<not> caps_lock kb\<rparr>) else Inr kb)
      else if key = NUM_LOCK then (if mk0 then set_leds dev (kb\<lparr>num_lock := \<not> num_lock kb\<rparr>) else Inr kb)
      else if key = SCROLL_LOCK then (if mk0 then set_leds dev (kb\<lparr>scroll_lock := \<not> scroll_lock kb\<rparr>) else Inr kb)
      else Inr kb)"

definition pad_key :: "bool \<Rightarrow> u32 \<Rightarrow> u32 \<times> bool" where
  "pad_key num key =
     (if PAD_SLASH \<le> key \<and> key \<le> PAD_9 then
        (if key = PAD_SLASH then 47 else if key = PAD_STAR then 42 else if key = PAD_MINUS then 45
         else if key = PAD_PLUS then 43 else if key = PAD_ENTER then ENTER
         else if num then (if PAD_0 \<le> key \<and> key \<le> PAD_9 then key - PAD_0 + 48
                           else if key = PAD_DOT then 46 else key)
         else if key = PAD_HOME then HOME else if key = PAD_END then END
         else if key = PAD_PAGEUP then PAGEUP else if key = PAD_PAGEDOWN then PAGEDOWN
         else if key = PAD_INS then INSERT else if key = PAD_UP then UP else if key = PAD_DOWN then DOWN
         else if key = PAD_LEFT then LEFT else if key = PAD_RIGHT then RIGHT
         else if key = PAD_DOT then DELETE else key, True)
      else (key, False))"

definition flags :: "kb_state \<Rightarrow> u32" where
  "flags kb =
     (if shift_l kb then FLAG_SHIFT_L else 0) OR (if shift_r kb then FLAG_SHIFT_R else 0)
     OR (if ctrl_l kb then FLAG_CTRL_L else 0) OR (if ctrl_r kb then FLAG_CTRL_R else 0)
     OR (if alt_l kb then FLAG_ALT_L else 0) OR (if alt_r kb then FLAG_ALT_R else 0)"

text \<open>One iteration of the loop of \<^verbatim>\<open>keyboard_read\<close>: whether the function returns, and the locals.\<close>

definition read_key :: "controller \<Rightarrow> nat \<Rightarrow> kb_state \<Rightarrow> u32 \<Rightarrow> bool option \<Rightarrow>
    (kb_state \<times> bool \<times> u32 \<times> bool option) res" where
  "read_key dev i kb0 key0 make0 =
     (case parse_scan kb0 key0 make0 of (kb1, sc, key1, make1) \<Rightarrow>
      rbind (if key1 \<noteq> PAUSEBREAK \<and> key1 \<noteq> PRINTSCREEN then
               (let mk = (sc AND FLAG_BREAK = 0); row = unat (sc AND 0x7F) * MAP_COLS;
                    col = map_column kb1 row; key = keymap ! (row + col)
                in rmap (\<lambda>kb2. (kb2, key, Some mk)) (modifier dev key mk (kb1\<lparr>column := col\<rparr>)))
             else Inr (kb1, key1, make1)) (\<lambda>(kb2, key2, make2).
      rbind (case make2 of
               None \<Rightarrow> Inl Uninit
             | Some False \<Rightarrow> Inr (kb2, key2)
             | Some True \<Rightarrow>
                 (case pad_key (num_lock kb2) key2 of (key3, pad) \<Rightarrow>
                    let key4 = key3 OR flags kb2 OR (if pad then FLAG_PAD else 0) in
                    rmap (\<lambda>t. (kb2\<lparr>kb_tty := t\<rparr>, key4)) (handle_tty i key4 (kb_tty kb2)))) (\<lambda>(kb3, key).
      Inr (if key = 0 then (pop_buf kb3, True, key, make2) else (kb3, False, key, make2)))))"

partial_function (option) read_loop :: "controller \<Rightarrow> nat \<Rightarrow> kb_state \<Rightarrow> u32 \<Rightarrow> bool option \<Rightarrow> kb_state res option" where
  "read_loop dev i kb key mk0 =
     (if kb_count kb > 0 then
        (case read_key dev i kb key mk0 of
           Inl e \<Rightarrow> Some (Inl e)
         | Inr (kb1, done, key1, make1) \<Rightarrow> if done then Some (Inr kb1) else read_loop dev i kb1 key1 make1)
      else Some (Inr kb))"

definition keyboard_read :: "controller \<Rightarrow> nat \<Rightarrow> kb_state \<Rightarrow> kb_state res" where
  "keyboard_read dev i kb = rbind (terminates (read_loop dev i kb 0 None)) (\<lambda>r. r)"

text \<open>The interrupt handler; the terminal is always the first one.\<close>

definition keyboard_handler :: "controller \<Rightarrow> kb_state \<Rightarrow> kb_state res" where
  "keyboard_handler dev kb =
     (case kb_inb dev KB_DATA kb of (scan_code, kb1) \<Rightarrow> keyboard_read dev 0 (kb_push scan_code kb1))"

subsection \<open>A byte that arrives at an empty buffer\<close>

definition kb_ready :: "kb_state \<Rightarrow> bool" where
  "kb_ready kb \<longleftrightarrow> length (kb_buf kb) = KB_IN_BYTES \<and> kb_head kb = kb_tail kb \<and> kb_tail kb < KB_IN_BYTES
     \<and> kb_count kb = 0"

definition next_slot :: "nat \<Rightarrow> nat" where
  "next_slot i = (if i + 1 = KB_IN_BYTES then 0 else i + 1)"

text \<open>The state once the byte has been taken in and out of the buffer.\<close>

definition consumed :: "u8 \<Rightarrow> kb_state \<Rightarrow> kb_state" where
  "consumed sc kb = kb\<lparr>kb_reads := Suc (kb_reads kb), kb_buf := (kb_buf kb)[kb_tail kb := sc],
     kb_head := next_slot (kb_tail kb), kb_tail := next_slot (kb_tail kb), kb_count := 0\<rparr>"

definition queued :: "u8 \<Rightarrow> kb_state \<Rightarrow> kb_state" where
  "queued sc kb = kb\<lparr>kb_reads := Suc (kb_reads kb), kb_buf := (kb_buf kb)[kb_tail kb := sc],
     kb_head := next_slot (kb_tail kb), kb_count := 1\<rparr>"

lemma kb_ready_consumed: "kb_ready kb \<Longrightarrow> kb_ready (consumed sc kb)"
  by (auto simp: kb_ready_def consumed_def next_slot_def KB_IN_BYTES_def)

lemma handler_queued:
  assumes "kb_ready kb" and "dev (kb_reads kb) KB_DATA = sc"
  shows "keyboard_handler dev kb = keyboard_read dev 0 (queued sc kb)"
  using assms by (simp add: keyboard_handler_def kb_inb_def kb_push_def queued_def kb_ready_def next_slot_def KB_IN_BYTES_def)

lemma queued_tail:
  assumes "kb_ready kb"
  shows "get_tail (queued sc kb) = sc" "get_tail ((queued sc kb)\<lparr>code_with_E0 := b\<rparr>) = sc"
    "pop_buf ((queued sc kb)\<lparr>code_with_E0 := b\<rparr>) = (consumed sc kb)\<lparr>code_with_E0 := b\<rparr>"
  using assms by (simp_all add: get_tail_def queued_def kb_ready_def pop_buf_def consumed_def next_slot_def)

lemma pop_empty [simp]: "kb_count kb = 0 \<Longrightarrow> pop_buf kb = kb"
  by (simp add: pop_buf_def)

lemma read_one:
  assumes "kb_count kb > 0" and "read_key dev i kb 0 None = Inr (kb1, done, key, mk)" and "kb_count kb1 = 0"
  shows "keyboard_read dev i kb = Inr kb1"
proof -
  have "read_loop dev i kb1 key mk = Some (Inr kb1)" using assms(3) by (subst read_loop.simps) simp
  then have "read_loop dev i kb 0 None = Some (Inr kb1)"
    using assms(1,2) by (subst read_loop.simps) simp
  then show ?thesis by (simp add: keyboard_read_def)
qed

lemma read_one_fault:
  assumes "kb_count kb > 0" and "read_key dev i kb 0 None = Inl e"
  shows "keyboard_read dev i kb = Inl e"
  using assms by (simp add: keyboard_read_def read_loop.simps[of dev i kb])

subsection \<open>Plain keys and the prefix of extended keys\<close>

text \<open>The key of a make code without prefix.\<close>

definition plain_column :: "u8 \<Rightarrow> kb_state \<Rightarrow> nat" where
  "plain_column sc kb = map_column (kb\<lparr>code_with_E0 := False\<rparr>) (unat sc * MAP_COLS)"

definition plain_key :: "u8 \<Rightarrow> kb_state \<Rightarrow> u32" where
  "plain_key sc kb = keymap ! (unat sc * MAP_COLS + plain_column sc kb)"

definition is_modifier :: "u32 \<Rightarrow> bool" where
  "is_modifier key \<longleftrightarrow> key \<in> {SHIFT_L, SHIFT_R, CTRL_L, CTRL_R, ALT_L, ALT_R, CAPS_LOCK, NUM_LOCK, SCROLL_LOCK}"

definition key_content :: "kb_state \<Rightarrow> u32 \<Rightarrow> u32" where
  "key_content kb n = (case pad_key (num_lock kb) n of (k, pad) \<Rightarrow> k OR flags kb OR (if pad then FLAG_PAD else 0))"

lemma modifier_plain: "\<not> is_modifier key \<Longrightarrow> modifier dev key mk kb = Inr kb"
  by (simp add: is_modifier_def modifier_def)

lemma make_code:
  fixes sc :: u8
  assumes "sc < 0x80"
  shows "sc AND FLAG_BREAK = 0" "sc AND 0x7F = sc" "sc \<noteq> 0xE0" "sc \<noteq> 0xE1"
proof -
  have "sc AND 0x7F = take_bit 7 sc" by (simp add: take_bit_eq_mask mask_eq_exp_minus_1)
  also have "take_bit 7 sc = sc"
    using assms by (simp add: word_unat_eq_iff take_bit_eq_mod unat_mod_distrib word_less_nat_alt)
  finally show s: "sc AND 0x7F = sc" .
  have "sc AND FLAG_BREAK = (sc AND 0x7F) AND FLAG_BREAK" using s by simp
  also have "\<dots> = 0" by (simp add: FLAG_BREAK_def and.assoc)
  finally show "sc AND FLAG_BREAK = 0" .
  show "sc \<noteq> 0xE0" "sc \<noteq> 0xE1" using assms by auto
qed

lemma map_column_cong:
  "shift_l a = shift_l b \<Longrightarrow> shift_r a = shift_r b \<Longrightarrow> caps_lock a = caps_lock b \<Longrightarrow> code_with_E0 a = code_with_E0 b \<Longrightarrow>
   map_column a r = map_column b r"
  by (simp add: map_column_def)

lemma handler_plain:
  assumes "kb_ready kb" and "dev (kb_reads kb) KB_DATA = sc" and "sc < 0x80" and "\<not> is_modifier (plain_key sc kb)"
  shows "keyboard_handler dev kb =
     rmap (\<lambda>t. (consumed sc kb)\<lparr>code_with_E0 := False, column := plain_column sc kb, kb_tty := t\<rparr>)
       (handle_tty 0 (key_content kb (plain_key sc kb)) (kb_tty kb))"
proof -
  let ?q = "queued sc kb" and ?c = "(consumed sc kb)\<lparr>code_with_E0 := False\<rparr>"
  let ?k = "?c\<lparr>column := plain_column sc kb\<rparr>"
  note mk = make_code[OF assms(3)]
  have parse: "parse_scan ?q 0 None = (?c, sc, 0, None)"
    using mk(3,4) queued_tail[OF assms(1)] by (simp add: parse_scan_def)
  have col: "map_column ?c (unat sc * MAP_COLS) = plain_column sc kb"
    unfolding plain_column_def by (rule map_column_cong) (simp_all add: consumed_def)
  have fl: "flags ?k = flags kb" "num_lock ?k = num_lock kb" "kb_tty ?k = kb_tty kb"
    by (simp_all add: flags_def consumed_def)
  have rk: "read_key dev 0 ?q 0 None =
     rbind (rmap (\<lambda>t. (?k\<lparr>kb_tty := t\<rparr>, key_content kb (plain_key sc kb))) (handle_tty 0 (key_content kb (plain_key sc kb)) (kb_tty kb)))
       (\<lambda>(kb3, key). Inr (if key = 0 then (pop_buf kb3, True, key, Some True) else (kb3, False, key, Some True)))"
    using modifier_plain[OF assms(4)] mk(1,2) fl col
    by (simp add: read_key_def parse Let_def key_content_def plain_key_def[symmetric] PAUSEBREAK_def PRINTSCREEN_def
        split: prod.split)
  have cnt: "kb_count ?q > 0" by (simp add: queued_def)
  have "keyboard_read dev 0 ?q = rmap (\<lambda>t. ?k\<lparr>kb_tty := t\<rparr>) (handle_tty 0 (key_content kb (plain_key sc kb)) (kb_tty kb))"
  proof (cases "handle_tty 0 (key_content kb (plain_key sc kb)) (kb_tty kb)")
    case (Inl e)
    then show ?thesis using read_one_fault[OF cnt] rk by simp
  next
    case (Inr t)
    have z: "kb_count (?k\<lparr>kb_tty := t\<rparr>) = 0" by (simp add: consumed_def)
    then have "\<exists>done. read_key dev 0 ?q 0 None = Inr (?k\<lparr>kb_tty := t\<rparr>, done, key_content kb (plain_key sc kb), Some True)"
      using rk Inr by auto
    then show ?thesis using read_one[OF cnt _ z] Inr by auto
  qed
  then show ?thesis using handler_queued[of kb dev sc] assms(1,2) by simp
qed

lemma keymap_prefix: "keymap ! 290 = 0"
  by (simp add: keymap_def)

lemma handler_prefix:
  assumes "kb_ready kb" and "dev (kb_reads kb) KB_DATA = 0xE0"
  shows "keyboard_handler dev kb = Inr ((consumed 0xE0 kb)\<lparr>code_with_E0 := True, column := 2\<rparr>)"
proof -
  let ?q = "queued 0xE0 kb"
  have parse: "parse_scan ?q 0 None = (?q\<lparr>code_with_E0 := True\<rparr>, 0xE0, 0, None)"
    using queued_tail[OF assms(1)] by (simp add: parse_scan_def)
  have "modifier dev 0 False k = Inr k" for k
    by (simp add: modifier_def key_defs)
  then have "read_key dev 0 ?q 0 None =
     Inr (pop_buf (?q\<lparr>code_with_E0 := True, column := 2\<rparr>), True, 0, Some False)"
    by (simp add: read_key_def parse Let_def FLAG_BREAK_def MAP_COLS_def map_column_def keymap_prefix
        PAUSEBREAK_def PRINTSCREEN_def)
  moreover have "pop_buf (?q\<lparr>code_with_E0 := True, column := 2\<rparr>) = (consumed 0xE0 kb)\<lparr>code_with_E0 := True, column := 2\<rparr>"
    by (simp add: pop_buf_def queued_def consumed_def next_slot_def)
  ultimately have "keyboard_read dev 0 ?q = Inr ((consumed 0xE0 kb)\<lparr>code_with_E0 := True, column := 2\<rparr>)"
    by (intro read_one) (simp_all add: queued_def consumed_def)
  then show ?thesis using handler_queued[of kb dev "0xE0"] assms by simp
qed

subsection \<open>Printable keys\<close>

lemma flag_bits: "flags kb AND 0x1FF = 0"
  unfolding flags_def by (simp add: bit.conj_disj_distrib2 FLAG_SHIFT_L_def FLAG_SHIFT_R_def FLAG_CTRL_L_def
      FLAG_CTRL_R_def FLAG_ALT_L_def FLAG_ALT_R_def)

lemma flag_ctrl: "\<not> ctrl_l kb \<Longrightarrow> flags kb AND FLAG_CTRL_L = 0"
  unfolding flags_def by (simp add: bit.conj_disj_distrib2 FLAG_SHIFT_L_def FLAG_SHIFT_R_def FLAG_CTRL_L_def
      FLAG_CTRL_R_def FLAG_ALT_L_def FLAG_ALT_R_def)

lemma small_and:
  fixes n :: u32
  assumes "n < 0x100" and "0xFF AND m = (0 :: u32)"
  shows "n AND 0xFF = n" and "n AND m = 0"
proof -
  have "n AND 0xFF = take_bit 8 n" by (simp add: take_bit_eq_mask mask_eq_exp_minus_1)
  also have "take_bit 8 n = n"
    using assms(1) by (simp add: word_unat_eq_iff take_bit_eq_mod unat_mod_distrib word_less_nat_alt)
  finally show n: "n AND 0xFF = n" .
  have "n AND m = n AND (0xFF AND m)" using n by (metis and.assoc)
  then show "n AND m = 0" using assms(2) by simp
qed

lemma printable_content:
  fixes n :: u32
  assumes "n < 0x100" and "\<not> (ctrl_l kb \<and> n = 108)"
  shows "key_content kb n = n OR flags kb"
    and "(n OR flags kb) AND 0xFF = n" and "(n OR flags kb) AND FLAG_EXT = 0"
    and "\<not> ((n OR flags kb) AND FLAG_CTRL_L \<noteq> 0 \<and> (n OR flags kb) AND 0xFF = 108)"
    and "(n OR flags kb) \<notin> {PAGEUP, PAGEDOWN, ENTER, BACKSPACE}"
proof -
  have "\<not> PAD_SLASH \<le> n" using assms(1) by (simp add: PAD_SLASH_def word_le_nat_alt word_less_nat_alt)
  then show "key_content kb n = n OR flags kb" by (simp add: key_content_def pad_key_def)
  have f: "flags kb AND m = 0" if "m AND 0x1FF = m" for m
  proof -
    have "flags kb AND m = flags kb AND (0x1FF AND m)" using that by (simp add: and.commute)
    also have "\<dots> = 0" using flag_bits[of kb] by (simp add: and.assoc[symmetric])
    finally show ?thesis .
  qed
  show ff: "(n OR flags kb) AND 0xFF = n"
    using small_and(1)[OF assms(1), of 0] f[of "0xFF"] by (simp add: bit.conj_disj_distrib2)
  show ext: "(n OR flags kb) AND FLAG_EXT = 0"
    using small_and(2)[OF assms(1), of FLAG_EXT] f[of FLAG_EXT] by (simp add: bit.conj_disj_distrib2 FLAG_EXT_def)
  show "\<not> ((n OR flags kb) AND FLAG_CTRL_L \<noteq> 0 \<and> (n OR flags kb) AND 0xFF = 108)"
    using assms ff flag_ctrl[of kb] small_and(2)[OF assms(1), of FLAG_CTRL_L]
    by (auto simp: bit.conj_disj_distrib2 FLAG_CTRL_L_def)
  show "(n OR flags kb) \<notin> {PAGEUP, PAGEDOWN, ENTER, BACKSPACE}"
    using ext by (auto simp: FLAG_EXT_def key_defs)
qed

lemma low_byte:
  assumes "n < (0x80 :: u32)"
  shows "scast (ucast n :: u8) = n"
proof -
  have n: "unat n < 128" using assms by (simp add: word_less_nat_alt)
  have s: "sint (of_nat k :: u8) = int k" if "k < 128" for k
    using that by (simp add: signed_of_nat signed_take_bit_int_eq_self)
  have "(ucast n :: u8) = of_nat (unat n)" by simp
  then have "(scast (ucast n :: u8) :: u32) = of_int (sint (of_nat (unat n) :: u8))" by (simp only: scast_eq)
  also have "\<dots> = of_int (int (unat n))" by (simp only: s[OF n])
  finally show ?thesis by simp
qed

text \<open>A printable character goes to the console and is then stored through the head of the input buffer.\<close>

lemma handle_printable:
  assumes "n < 0x80" and "\<not> (ctrl_l kb \<and> n = 108)" and "0 < length (tty_table st)"
    and "console_ok 0 (con 0 st)" and "sint (inbuf_count (tty_table st ! 0)) < int TTY_IN_BYTES"
  shows "\<exists>st1 c. tty_write 0 [ucast n] 1 st = Inr (1, st1) \<and>
     tty_table st1 = (tty_table st)[0 := (tty_table st ! 0)\<lparr>console := c\<rparr>] \<and>
     handle_tty 0 (key_content kb n) st =
       rmap (\<lambda>t'. st1\<lparr>tty_table := (tty_table st1)[0 := t']\<rparr>) (store_in n (tty_table st1 ! 0))"
proof -
  have n: "n < 0x100" using assms(1) by (simp add: word_less_nat_alt)
  note pc = printable_content[OF n assms(2)]
  obtain st1 where w: "tty_write 0 [ucast n] 1 st = Inr (1, st1)"
    using tty_write_returns[of 0 st 1 "[ucast n]"] assms(3,4) by auto
  then obtain c where st1: "tty_table st1 = (tty_table st)[0 := (tty_table st ! 0)\<lparr>console := c\<rparr>]"
    using tty_write_only[OF w] by (auto simp: only_console_def)
  have "handle_tty 0 (key_content kb n) st = rbind (tty_write 0 [ucast n] 1 st) (\<lambda>(_, st1).
      let t = tty_table st1 ! 0 in
      if sint (inbuf_count t) < int TTY_IN_BYTES
      then rmap (\<lambda>t'. st1\<lparr>tty_table := (tty_table st1)[0 := t']\<rparr>) (store_in (scast (ucast n :: u8)) t)
      else Inr st1)"
    using pc by (auto simp: handle_tty_def Let_def)
  also have "\<dots> = rmap (\<lambda>t'. st1\<lparr>tty_table := (tty_table st1)[0 := t']\<rparr>) (store_in n (tty_table st1 ! 0))"
    using w st1 assms(3,5) low_byte[OF assms(1)] by simp
  finally show ?thesis using w st1 by blast
qed

subsection \<open>Properties\<close>

lemma flags_consumed [simp]:
  "flags ((consumed sc kb)\<lparr>code_with_E0 := b, column := c\<rparr>) = flags kb"
  "flags ((consumed sc kb)\<lparr>code_with_E0 := b, column := c, kb_tty := t\<rparr>) = flags kb"
  by (simp_all add: flags_def consumed_def)

lemma plain_key_consumed [simp]:
  "plain_key x ((consumed sc kb)\<lparr>code_with_E0 := b, column := c\<rparr>) = plain_key x kb"
  by (simp add: plain_key_def plain_column_def map_column_def consumed_def)

lemma ready_update [simp]:
  "kb_ready (kb\<lparr>code_with_E0 := b, column := c\<rparr>) = kb_ready kb"
  "kb_ready (kb\<lparr>code_with_E0 := b, column := c, kb_tty := t\<rparr>) = kb_ready kb"
  by (simp_all add: kb_ready_def)

lemma consumed_reads: "kb_reads ((consumed sc kb)\<lparr>code_with_E0 := b, column := c\<rparr>) = Suc (kb_reads kb)"
  by (simp add: consumed_def)

text \<open>
  A flaw of the code: the prefix 0xE0 is taken out of the buffer by itself and the byte
  after it is read without the prefix, since \<^verbatim>\<open>get_tail\<close> returns the same byte until it is
  popped. For the terminal, the two interrupts of an extended key are the one interrupt of
  the key that has the same code without prefix: a cursor key, say, is the key of the
  number pad, which Num Lock makes a digit. The third column of the key map is not used.
\<close>

theorem extended_keys_read_as_keypad:
  assumes "kb_ready kb" and "dev (kb_reads kb) KB_DATA = 0xE0" and "dev (Suc (kb_reads kb)) KB_DATA = sc"
    and "sc < 0x80" and "plain_key sc kb = n" and "\<not> is_modifier n"
  shows "rmap kb_tty (rbind (keyboard_handler dev kb) (keyboard_handler dev)) =
     rmap kb_tty (keyboard_handler (\<lambda>_ _. sc) kb)"
proof -
  let ?k = "(consumed 0xE0 kb)\<lparr>code_with_E0 := True, column := 2\<rparr>"
  have "keyboard_handler dev ?k = rmap (\<lambda>t. (consumed sc ?k)\<lparr>code_with_E0 := False, column := plain_column sc ?k, kb_tty := t\<rparr>)
       (handle_tty 0 (key_content ?k (plain_key sc ?k)) (kb_tty ?k))"
    by (rule handler_plain) (use assms kb_ready_consumed[OF assms(1)] in \<open>simp_all add: consumed_reads\<close>)
  also have "key_content ?k (plain_key sc ?k) = key_content kb n"
    using assms(5) by (simp add: key_content_def) (simp add: consumed_def)
  also have "kb_tty ?k = kb_tty kb" by (simp add: consumed_def)
  finally have "rmap kb_tty (keyboard_handler dev ?k) = handle_tty 0 (key_content kb n) (kb_tty kb)"
    by (cases "handle_tty 0 (key_content kb n) (kb_tty kb)") simp_all
  moreover have "rmap kb_tty (keyboard_handler (\<lambda>_ _. sc) kb) = handle_tty 0 (key_content kb n) (kb_tty kb)"
    using handler_plain[of kb "\<lambda>_ _. sc" sc] assms
    by (cases "handle_tty 0 (key_content kb n) (kb_tty kb)") simp_all
  ultimately show ?thesis using handler_prefix[of kb dev] assms(1,2) by simp
qed

text \<open>A keyboard at rest in front of the first terminal, with a shift key down.\<close>

definition idle_kb :: kb_state where
  "idle_kb = \<lparr>kb_buf = replicate 32 0, kb_head = 0, kb_tail = 0, kb_count = 0, code_with_E0 = False,
     shift_l = True, shift_r = False, alt_l = False, alt_r = False, ctrl_l = False, ctrl_r = False,
     caps_lock = False, num_lock = True, scroll_lock = False, column = 0,
     kb_tty = three_ttys, kb_reads = 0, kb_out = []\<rparr>"

lemma idle_kb_ready: "kb_ready idle_kb" "kb_reads idle_kb = 0"
  by (simp_all add: kb_ready_def idle_kb_def KB_IN_BYTES_def)

text \<open>The cursor key up, 0xE0 0x48, with Num Lock on and a shift key down: the digit 8.\<close>

lemma shifted_up: "plain_key 0x48 idle_kb = 56"
  by (simp add: plain_key_def plain_column_def map_column_def MAP_COLS_def idle_kb_def) (simp add: keymap_def)

theorem extended_keys_read_as_keypad_witness:
  "rmap kb_tty (rbind (keyboard_handler (\<lambda>n _. if n = 0 then 0xE0 else 0x48) idle_kb)
       (keyboard_handler (\<lambda>n _. if n = 0 then 0xE0 else 0x48)))
   = rmap kb_tty (keyboard_handler (\<lambda>_ _. 0x48) idle_kb)"
proof -
  have "\<not> is_modifier 56" by (simp add: is_modifier_def key_defs)
  then show ?thesis
    using extended_keys_read_as_keypad[of idle_kb "\<lambda>n _. if n = 0 then 0xE0 else 0x48" "0x48" 56]
      idle_kb_ready shifted_up
    by simp
qed

end
