(* ===== verification/Paging.thy ===== *)
theory Paging
  imports Pages
begin

text \<open>
  Virtual memory: arch/i386/page.c with include/arch/i386/page.h, and \<^verbatim>\<open>load_memory_size\<close> and
  \<^verbatim>\<open>reset_paging\<close> of arch/i386/init.c. Physical memory is a map from frame numbers to the
  1024 words of the frame; a page directory and a page table are frames, and the table of
  pages is \<^verbatim>\<open>mem_map\<close> of mm/page.c. The kernel reaches a frame through its mapping at 3 GB, so a
  frame that \<^verbatim>\<open>mem_map\<close> does not cover cannot be reached.
\<close>

unbundle bit_operations_syntax

definition PG_P :: u32 where "PG_P = 1"
definition PG_RWW :: u32 where "PG_RWW = 2"
definition PG_USS :: u32 where "PG_USS = 0"
definition PG_USU :: u32 where "PG_USU = 4"

record vm =
  mem_map :: "page list"
  frames :: "nat \<Rightarrow> nat \<Rightarrow> u32"

text \<open>\<^verbatim>\<open>entry & 0xfffff000\<close> as a frame number, and the two indices of a virtual address.\<close>

definition entry_frame :: "u32 \<Rightarrow> nat" where
  "entry_frame e = unat (drop_bit 12 e)"

definition PDINDEX :: "u32 \<Rightarrow> nat" where
  "PDINDEX a = unat (drop_bit 22 a)"

definition PTINDEX :: "u32 \<Rightarrow> nat" where
  "PTINDEX a = unat (drop_bit 12 a AND 0x03FF)"

text \<open>The word that a page directory or table holds for a frame and attributes.\<close>

definition entry :: "nat \<Rightarrow> u32 \<Rightarrow> u32" where
  "entry f attr = of_nat (PAGE_SIZE * f) OR attr"

definition rd_frame :: "vm \<Rightarrow> nat \<Rightarrow> nat \<Rightarrow> u32 res" where
  "rd_frame m f i = (if f < length (mem_map m) then Inr (frames m f i) else Inl OutOfBounds)"

definition wr_frame :: "nat \<Rightarrow> nat \<Rightarrow> u32 \<Rightarrow> vm \<Rightarrow> vm res" where
  "wr_frame f i e m =
     (if f < length (mem_map m) then Inr (m\<lparr>frames := (frames m)(f := (frames m f)(i := e))\<rparr>) else Inl OutOfBounds)"

definition upd_page :: "nat \<Rightarrow> (page \<Rightarrow> page) \<Rightarrow> vm \<Rightarrow> vm res" where
  "upd_page f g m = rmap (\<lambda>p. m\<lparr>mem_map := (mem_map m)[f := g p]\<rparr>) (arr_get (mem_map m) f)"

text \<open>\<^verbatim>\<open>get_free_page\<close> with its \<^verbatim>\<open>memset\<close>: the frame is cleared.\<close>

definition alloc_frame :: "vm \<Rightarrow> (vm \<times> nat) res" where
  "alloc_frame m =
     rmap (\<lambda>(ps, a). (m\<lparr>mem_map := ps, frames := (frames m)(a div PAGE_SIZE := (\<lambda>_. 0))\<rparr>, a div PAGE_SIZE))
       (get_free_page (mem_map m))"

definition create_dir :: "vm \<Rightarrow> (vm \<times> nat) res" where
  "create_dir m = alloc_frame m"

definition create_table :: "u32 \<Rightarrow> vm \<Rightarrow> (vm \<times> u32) res" where
  "create_table attr m = rmap (\<lambda>(m', f). (m', entry f attr)) (alloc_frame m)"

subsection \<open>Faults\<close>

text \<open>
  A write to a page that is present and not writable; \<open>dir\<close> is the frame of the directory, \<open>pt\<close>
  that of the page table. The branch for a page that is not shared, and the one that copies it.
\<close>

definition wp_reuse :: "nat \<Rightarrow> nat \<Rightarrow> nat \<Rightarrow> vm \<Rightarrow> vm res" where
  "wp_reuse pt index2 old_page m =
     rbind (wr_frame pt index2 (entry old_page (PG_P OR PG_RWW OR PG_USU)) m)
       (upd_page old_page (\<lambda>p. p\<lparr>pg_flags := pg_flags p OR MP_USE\<rparr>))"

definition wp_copy :: "nat \<Rightarrow> nat \<Rightarrow> nat \<Rightarrow> vm \<Rightarrow> vm res" where
  "wp_copy pt index2 old_page m =
     rbind (alloc_frame m) (\<lambda>(m1, new_page).
     rbind (wr_frame pt index2 (entry new_page (PG_P OR PG_RWW OR PG_USU)) m1) (\<lambda>m2.
     let m3 = m2\<lparr>frames := (frames m2)(new_page := frames m2 old_page)\<rparr> in
     rbind (upd_page new_page (\<lambda>p. p\<lparr>pg_count := pg_count p + 1\<rparr>) m3)
       (upd_page old_page (\<lambda>p. p\<lparr>pg_count := pg_count p - 1\<rparr>))))"

definition do_wp_page :: "nat \<Rightarrow> u32 \<Rightarrow> vm \<Rightarrow> vm res" where
  "do_wp_page dir address m =
     (let index1 = PDINDEX address; index2 = PTINDEX address in
      rbind (rd_frame m dir index1) (\<lambda>pde.
      rbind (rd_frame m (entry_frame pde) index2) (\<lambda>pte.
      let old_page = entry_frame pte in
      rbind (arr_get (mem_map m) old_page) (\<lambda>pg.
        if pg_count pg = 1 then wp_reuse (entry_frame pde) index2 old_page m
        else wp_copy (entry_frame pde) index2 old_page m))))"

text \<open>An access to a page that is not present; \<open>in_kernel\<close> is the test on the thread's flag.\<close>

definition do_no_page :: "bool \<Rightarrow> nat \<Rightarrow> u32 \<Rightarrow> vm \<Rightarrow> vm res" where
  "do_no_page in_kernel dir address m =
     (let index1 = PDINDEX address; index2 = PTINDEX address;
          attr = PG_P OR PG_RWW OR (if in_kernel then PG_USS else PG_USU) in
      rbind (alloc_frame m) (\<lambda>(m1, new_page).
      rbind (create_table attr m1) (\<lambda>(m2, pde).
      rbind (wr_frame dir index1 pde m2) (\<lambda>m3.
      rbind (wr_frame (entry_frame pde) index2 (entry new_page attr) m3)
        (upd_page new_page (\<lambda>p. p\<lparr>pg_count := pg_count p + 1\<rparr>))))))"

subsection \<open>Copying an address space\<close>

text \<open>The inner loop of \<^verbatim>\<open>copy_page\<close>, over the indices of the table in frame \<open>src\<close>.\<close>

fun copy_entries :: "nat \<Rightarrow> nat \<Rightarrow> nat list \<Rightarrow> vm \<Rightarrow> vm res" where
  "copy_entries src dst [] m = Inr m"
| "copy_entries src dst (j # js) m =
     rbind (rd_frame m src j) (\<lambda>e.
       rbind (if e \<noteq> 0 then
                rbind (wr_frame src j (e AND NOT PG_RWW) m) (\<lambda>m1.
                rbind (rd_frame m1 src j) (\<lambda>e1.
                rbind (wr_frame dst j e1 m1)
                  (upd_page (entry_frame e1) (\<lambda>p. p\<lparr>pg_count := pg_count p + 1, pg_flags := pg_flags p OR MP_COW\<rparr>))))
              else wr_frame dst j 0 m)
         (copy_entries src dst js))"

fun copy_tables :: "nat \<Rightarrow> nat \<Rightarrow> nat list \<Rightarrow> vm \<Rightarrow> vm res" where
  "copy_tables pd res [] m = Inr m"
| "copy_tables pd res (i # is) m =
     rbind (rd_frame m pd i) (\<lambda>pde.
       rbind (if pde \<noteq> 0 then
                rbind (create_table (PG_P OR PG_RWW OR PG_USU) m) (\<lambda>(m1, e).
                rbind (wr_frame res i e m1) (\<lambda>m2.
                  rbind (rd_frame m2 pd i) (\<lambda>pde1.
                    copy_entries (entry_frame pde1) (entry_frame e) [0..<1024] m2)))
              else wr_frame res i 0 m)
         (copy_tables pd res is))"

text \<open>The kernel's half is copied from the directory at \<^verbatim>\<open>PAGE_DIR_BASE\<close>.\<close>

definition PAGE_TABLE_FRAME :: nat where "PAGE_TABLE_FRAME = 0x200000 div 0x1000"
definition PAGE_DIR_FRAME :: nat where "PAGE_DIR_FRAME = PAGE_TABLE_FRAME - 1"

fun copy_kernel :: "nat \<Rightarrow> nat list \<Rightarrow> vm \<Rightarrow> vm res" where
  "copy_kernel res [] m = Inr m"
| "copy_kernel res (i # is) m =
     rbind (rd_frame m PAGE_DIR_FRAME i) (\<lambda>e. rbind (wr_frame res i e m) (copy_kernel res is))"

definition copy_page :: "nat \<Rightarrow> nat \<Rightarrow> vm \<Rightarrow> vm res" where
  "copy_page pd res m = rbind (copy_tables pd res [0..<768] m) (copy_kernel res [768..<1024])"

subsection \<open>Setting up\<close>

text \<open>An entry of the BIOS's memory map; \<^verbatim>\<open>mem_size\<close> is a signed \<^verbatim>\<open>int\<close>, compared as unsigned.\<close>

record ards =
  baseAddrLow :: u32
  baseAddrHigh :: u32
  lengthLow :: u32
  lengthHigh :: u32
  ard_type :: u32

definition ARD_TYPE_FREE :: u32 where "ARD_TYPE_FREE = 1"

fun load_memory_size_loop :: "ards list \<Rightarrow> u32 \<Rightarrow> u32" where
  "load_memory_size_loop [] mem_size = mem_size"
| "load_memory_size_loop (b # bs) mem_size =
     load_memory_size_loop bs
       (if ard_type b = ARD_TYPE_FREE \<and> baseAddrLow b + lengthLow b > mem_size
        then baseAddrLow b + lengthLow b else mem_size)"

definition load_memory_size :: "ards list \<Rightarrow> u32" where
  "load_memory_size bs = load_memory_size_loop bs 0"

definition HIGH_MEMORY :: u32 where "HIGH_MEMORY = 0x38000000"

text \<open>The comparison and the division are signed; the quotient is stored in an \<^verbatim>\<open>unsigned int\<close>.\<close>

definition page_table_count :: "u32 \<Rightarrow> u32" where
  "page_table_count mem_size =
     (if sint HIGH_MEMORY > sint mem_size
      then (let n = sint (mem_size + 0x400000 - 1) in of_int (sgn n * (\<bar>n\<bar> div 0x400000)))
      else (HIGH_MEMORY + 0x400000 - 1) div 0x400000)"

text \<open>The entries of page table \<open>j\<close>, then its entry in the directory.\<close>

fun fill_table :: "nat \<Rightarrow> nat list \<Rightarrow> u32 \<Rightarrow> (nat \<Rightarrow> nat \<Rightarrow> u32) \<Rightarrow> (nat \<Rightarrow> nat \<Rightarrow> u32) \<times> u32" where
  "fill_table f [] a mm = (mm, a)"
| "fill_table f (i # is) a mm =
     fill_table f is (a + 4096) (mm(f := (mm f)(i := a OR PG_P OR PG_RWW OR PG_USS)))"

fun fill_tables :: "nat list \<Rightarrow> u32 \<Rightarrow> (nat \<Rightarrow> nat \<Rightarrow> u32) \<Rightarrow> (nat \<Rightarrow> nat \<Rightarrow> u32) res" where
  "fill_tables [] a mm = Inr mm"
| "fill_tables (j # js) a mm =
     (let f = PAGE_TABLE_FRAME + j; (mm1, a1) = fill_table f [0..<1024] a mm in
      if j + 768 < 1024
      then fill_tables js a1 (mm1(PAGE_DIR_FRAME := (mm1 PAGE_DIR_FRAME)(j + 768 :=
             entry f (PG_P OR PG_RWW OR PG_USS))))
      else Inl OutOfBounds)"

text \<open>\<^verbatim>\<open>mem_map\<close> is laid over memory that holds anything; the flags of a used page keep it.\<close>

definition init_page :: "nat \<Rightarrow> nat \<Rightarrow> page \<Rightarrow> page" where
  "init_page mem_map_size i p =
     (if i < 1024 + mem_map_size then p\<lparr>pg_count := 1, pg_flags := pg_flags p OR MP_USE\<rparr>
      else p\<lparr>pg_count := 0, pg_flags := 0\<rparr>)"

definition reset_paging :: "u32 \<Rightarrow> (nat \<Rightarrow> page) \<Rightarrow> (nat \<Rightarrow> nat \<Rightarrow> u32) \<Rightarrow> vm res" where
  "reset_paging mem_size junk mm =
     (let n = unat (page_table_count mem_size);
          mem_map_size = 8 * 1024 * n div (1024 * 4) in
      rmap (\<lambda>mm'. \<lparr>mem_map = map (\<lambda>i. init_page mem_map_size i (junk i)) [0..<n * 1024], frames = mm'\<rparr>)
        (fill_tables [0..<n] 0 mm))"

subsection \<open>Entries and frames\<close>

lemma entry_frame_entry:
  assumes "f < 2 ^ 20" and "attr < 4096"
  shows "entry_frame (entry f attr) = f" and "n < 12 \<Longrightarrow> bit (entry f attr) n = bit attr n"
proof -
  have "unat attr < 2 ^ 12" using assms(2) by (simp add: word_less_nat_alt)
  then have a: "take_bit 12 attr = attr"
    by (simp only: word_unat_eq_iff unsigned_take_bit_eq take_bit_nat_eq_self)
  then have ha: "bit attr n \<Longrightarrow> n < 12" for n by (metis bit_take_bit_iff)
  have e: "entry f attr = push_bit 12 (of_nat f) OR attr"
    by (simp add: entry_def PAGE_SIZE_def push_bit_eq_mult mult.commute)
  have "drop_bit 12 (entry f attr) = (of_nat f :: u32)"
  proof (rule bit_word_eqI)
    fix n
    assume "n < LENGTH(32)"
    have "bit (of_nat f :: u32) n \<Longrightarrow> n < 20"
    proof -
      assume "bit (of_nat f :: u32) n"
      moreover have "take_bit 20 (of_nat f :: u32) = of_nat f"
        using assms(1) by (simp add: take_bit_of_nat take_bit_nat_eq_self)
      ultimately show "n < 20" by (metis bit_take_bit_iff)
    qed
    then show "bit (drop_bit 12 (entry f attr)) n \<longleftrightarrow> bit (of_nat f :: u32) n"
      using ha by (auto simp: e bit_drop_bit_eq bit_or_iff bit_push_bit_iff)
  qed
  then show "entry_frame (entry f attr) = f"
    using assms(1) by (simp add: entry_frame_def unat_of_nat)
  show "bit (entry f attr) n = bit attr n" if "n < 12"
    using that by (auto simp: e bit_or_iff bit_push_bit_iff)
qed

lemma attrs_small:
  "PG_P OR PG_RWW OR PG_USU = 7" "PG_P OR PG_RWW OR PG_USS = 3"
  "PG_P OR PG_RWW OR (if k then PG_USS else PG_USU) = (if k then 3 else 7)"
  by (simp_all add: PG_P_def PG_RWW_def PG_USU_def PG_USS_def)

lemma PTINDEX_less: "PTINDEX a < 1024"
proof -
  have "drop_bit 12 a AND 0x03FF = take_bit 10 (drop_bit 12 a)"
    by (simp add: take_bit_eq_mask mask_eq_exp_minus_1)
  then have "PTINDEX a = take_bit 10 (unat (drop_bit 12 a))"
    by (simp add: PTINDEX_def unsigned_take_bit_eq)
  then show ?thesis by (simp add: take_bit_eq_mod)
qed

lemma PDINDEX_less: "PDINDEX a < 1024"
proof -
  have "unat (drop_bit 22 a) = unat a div 2 ^ 22"     using unat_drop_bit_eq[of 22 a] by (simp add: drop_bit_eq_div)
  then show ?thesis using unat_less_32[of a] by (simp add: PDINDEX_def)
qed

text \<open>
  The translation of a virtual address: the frame it is mapped to, when both entries are
  present, and whether it may be written and by the user.
\<close>

definition pte_at :: "vm \<Rightarrow> nat \<Rightarrow> u32 \<Rightarrow> u32" where
  "pte_at m dir a = frames m (entry_frame (frames m dir (PDINDEX a))) (PTINDEX a)"

definition maps :: "vm \<Rightarrow> nat \<Rightarrow> u32 \<Rightarrow> nat option" where
  "maps m dir a =
     (if bit (frames m dir (PDINDEX a)) 0 \<and> bit (pte_at m dir a) 0 then Some (entry_frame (pte_at m dir a)) else None)"

definition writable :: "vm \<Rightarrow> nat \<Rightarrow> u32 \<Rightarrow> bool" where
  "writable m dir a \<longleftrightarrow> maps m dir a \<noteq> None \<and> bit (pte_at m dir a) 1"

definition user_page :: "vm \<Rightarrow> nat \<Rightarrow> u32 \<Rightarrow> bool" where
  "user_page m dir a \<longleftrightarrow> maps m dir a \<noteq> None \<and> bit (pte_at m dir a) 2"

text \<open>A frame that is in use, and a map that covers at most the 4 GB of the address space.\<close>

definition used :: "vm \<Rightarrow> nat \<Rightarrow> bool" where
  "used m f \<longleftrightarrow> f < length (mem_map m) \<and> in_use (mem_map m ! f)"

definition vm_ok :: "vm \<Rightarrow> bool" where
  "vm_ok m \<longleftrightarrow> length (mem_map m) \<le> 2 ^ 20"

lemma alloc_frame_Inr:
  assumes "alloc_frame m = Inr (m', f)"
  shows "f < length (mem_map m)" "\<not> used m f" "used m' f" "pg_count (mem_map m' ! f) = 1"
    "length (mem_map m') = length (mem_map m)" "\<forall>g. g \<noteq> f \<longrightarrow> mem_map m' ! g = mem_map m ! g"
    "frames m' = (frames m)(f := (\<lambda>_. 0))"
proof -
  obtain ps a where g: "get_free_page (mem_map m) = Inr (ps, a)" and m': "f = a div PAGE_SIZE"
    "m' = m\<lparr>mem_map := ps, frames := (frames m)(a div PAGE_SIZE := (\<lambda>_. 0))\<rparr>"
    using assms by (auto simp: alloc_frame_def rmap_Inr_conv)
  obtain i where i: "i < length (mem_map m)" "a = PAGE_SIZE * i" "\<not> in_use (mem_map m ! i)" "in_use (ps ! i)"
    "pg_count (ps ! i) = 1" "length ps = length (mem_map m)" "\<forall>j. j \<noteq> i \<longrightarrow> ps ! j = mem_map m ! j"
    using get_free_page_Inr[OF g] by blast
  have "f = i" using m'(1) i(2) by (simp add: PAGE_SIZE_def)
  then show "f < length (mem_map m)" "\<not> used m f" "used m' f" "pg_count (mem_map m' ! f) = 1"
    "length (mem_map m') = length (mem_map m)" "\<forall>g. g \<noteq> f \<longrightarrow> mem_map m' ! g = mem_map m ! g"
    "frames m' = (frames m)(f := (\<lambda>_. 0))"
    using i m' by (auto simp: used_def)
qed

lemma used_differs: "used m f \<Longrightarrow> \<not> used m g \<Longrightarrow> f \<noteq> g"
  by auto

lemma wr_frame_Inr_conv:
  "wr_frame f i e m = Inr m' \<longleftrightarrow>
     f < length (mem_map m) \<and> m' = m\<lparr>frames := (frames m)(f := (frames m f)(i := e))\<rparr>"
  by (auto simp: wr_frame_def)

lemma upd_page_Inr_conv:
  "upd_page f g m = Inr m' \<longleftrightarrow>
     f < length (mem_map m) \<and> m' = m\<lparr>mem_map := (mem_map m)[f := g (mem_map m ! f)]\<rparr>"
  by (auto simp: upd_page_def rmap_Inr_conv arr_get_Inr_conv)

lemma rd_frame_Inr_conv: "rd_frame m f i = Inr e \<longleftrightarrow> f < length (mem_map m) \<and> e = frames m f i"
  by (auto simp: rd_frame_def)

lemmas vm_Inr_convs = wr_frame_Inr_conv upd_page_Inr_conv rd_frame_Inr_conv arr_get_Inr_conv

lemma create_table_Inr:
  assumes "create_table attr m = Inr (m', e)"
  obtains f where "alloc_frame m = Inr (m', f)" and "e = entry f attr"
  using assms by (auto simp: create_table_def rmap_Inr_conv)

lemma bits_attr [simp]: "bit (7 :: u32) 0" "bit (7 :: u32) (Suc 0)" "bit (7 :: u32) 2"
  "bit (3 :: u32) 0" "bit (3 :: u32) (Suc 0)" "\<not> bit (3 :: u32) 2"
  by (simp_all add: bit_numeral_rec)

lemma frame_bound: "vm_ok m \<Longrightarrow> f < length (mem_map m) \<Longrightarrow> f < 2 ^ 20"
  by (simp add: vm_ok_def)

lemma wp_reuse_Inr:
  assumes "wp_reuse pt i old m = Inr m'"
  shows "old < length (mem_map m)" "frames m' = (frames m)(pt := (frames m pt)(i := entry old 7))"
    "length (mem_map m') = length (mem_map m)" "pg_count (mem_map m' ! g) = pg_count (mem_map m ! g)"
  using assms unfolding wp_reuse_def attrs_small
  by (auto simp: rbind_Inr_conv vm_Inr_convs nth_list_update split: if_splits)

lemma wp_copy_Inr:
  assumes "wp_copy pt i old m = Inr m'" and "used m old"
  obtains new where "new < length (mem_map m)" and "\<not> used m new" and "used m' new"
    and "frames m' = ((frames m)(new := (\<lambda>_. 0), pt := (((frames m)(new := (\<lambda>_. 0))) pt)(i := entry new 7)))
           (new := ((frames m)(new := (\<lambda>_. 0), pt := (((frames m)(new := (\<lambda>_. 0))) pt)(i := entry new 7))) old)"
    and "pg_count (mem_map m' ! new) = 2" and "pg_count (mem_map m' ! old) = pg_count (mem_map m ! old) - 1"
    and "\<And>g. g \<noteq> new \<Longrightarrow> g \<noteq> old \<Longrightarrow> mem_map m' ! g = mem_map m ! g"
    and "length (mem_map m') = length (mem_map m)"
proof -
  obtain m1 new where a: "alloc_frame m = Inr (m1, new)"
    and r: "rbind (wr_frame pt i (entry new 7) m1) (\<lambda>m2.
      rbind (upd_page new (\<lambda>p. p\<lparr>pg_count := pg_count p + 1\<rparr>) (m2\<lparr>frames := (frames m2)(new := frames m2 old)\<rparr>))
       (upd_page old (\<lambda>p. p\<lparr>pg_count := pg_count p - 1\<rparr>))) = Inr m'"
    using assms(1) unfolding wp_copy_def attrs_small Let_def by (elim rbindE) auto
  note A = alloc_frame_Inr[OF a]
  have ne: "old \<noteq> new" using A(2) assms(2) by blast
  let ?d = "(frames m1)(pt := (frames m1 pt)(i := entry new 7))"
  let ?mm = "(mem_map m1)[new := (mem_map m1 ! new)\<lparr>pg_count := pg_count (mem_map m1 ! new) + 1\<rparr>]"
  have m': "m' = m1\<lparr>frames := ?d(new := ?d old), mem_map := ?mm[old := (?mm ! old)\<lparr>pg_count := pg_count (?mm ! old) - 1\<rparr>]\<rparr>"
    using r by (auto simp: rbind_Inr_conv vm_Inr_convs)
  have l: "old < length (mem_map m1)" using assms(2) A(5) by (simp add: used_def)
  show ?thesis
  proof (rule that[of new])
    show "new < length (mem_map m)" "\<not> used m new" using A(1,2) by auto
    show "used m' new" using A(3) ne by (simp add: m' used_def in_use_def)
    show "frames m' = ((frames m)(new := (\<lambda>_. 0), pt := (((frames m)(new := (\<lambda>_. 0))) pt)(i := entry new 7)))
           (new := ((frames m)(new := (\<lambda>_. 0), pt := (((frames m)(new := (\<lambda>_. 0))) pt)(i := entry new 7))) old)"
      by (simp add: m' A(7))
    show "pg_count (mem_map m' ! new) = 2" using A(1,4,5) ne by (simp add: m')
    show "pg_count (mem_map m' ! old) = pg_count (mem_map m ! old) - 1" using A(6) l ne by (simp add: m')
    show "mem_map m' ! g = mem_map m ! g" if "g \<noteq> new" "g \<noteq> old" for g using A(6) that by (simp add: m')
    show "length (mem_map m') = length (mem_map m)" by (simp add: m' A(5))
  qed
qed

lemma do_wp_page_Inr:
  assumes "do_wp_page dir a m = Inr m'"
  shows "entry_frame (pte_at m dir a) < length (mem_map m) \<and>
    (if pg_count (mem_map m ! entry_frame (pte_at m dir a)) = 1
     then wp_reuse (entry_frame (frames m dir (PDINDEX a))) (PTINDEX a) (entry_frame (pte_at m dir a)) m = Inr m'
     else wp_copy (entry_frame (frames m dir (PDINDEX a))) (PTINDEX a) (entry_frame (pte_at m dir a)) m = Inr m')"
  using assms unfolding do_wp_page_def Let_def
  by (auto simp: rbind_Inr_conv vm_Inr_convs pte_at_def split: if_splits)

subsection \<open>Properties\<close>

lemma do_wp_page_copies:
  assumes "vm_ok m" and "do_wp_page dir a m = Inr m'" and "maps m dir a = Some old"
    and "used m dir" and "used m old"
  defines "pt \<equiv> entry_frame (frames m dir (PDINDEX a))"
  assumes "used m pt" and "dir \<noteq> pt" and "old \<noteq> pt" and "old \<noteq> dir"
  shows "\<exists>f. maps m' dir a = Some f \<and> writable m' dir a \<and> user_page m' dir a \<and> frames m' f = frames m old \<and>
     (if pg_count (mem_map m ! old) = 1 then f = old
      else \<not> used m f \<and> frames m' old = frames m old \<and>
           pg_count (mem_map m' ! old) = pg_count (mem_map m ! old) - 1 \<and> pg_count (mem_map m' ! f) = 2) \<and>
     (\<forall>g i. g \<noteq> f \<longrightarrow> g \<noteq> pt \<or> i \<noteq> PTINDEX a \<longrightarrow> frames m' g i = frames m g i)"
proof -
  have old: "old = entry_frame (pte_at m dir a)" and p: "bit (frames m dir (PDINDEX a)) 0"
    using assms(3) by (auto simp: maps_def split: if_splits)
  have e7: "entry_frame (entry f 7) = f" "bit (entry f 7) 0" "bit (entry f 7) (Suc 0)" "bit (entry f 7) 2"
    if "f < length (mem_map m)" for f
    using entry_frame_entry[of f 7] frame_bound[OF assms(1) that] by auto
  note R = do_wp_page_Inr[OF assms(2), folded pt_def old]
  show ?thesis
  proof (cases "pg_count (mem_map m ! old) = 1")
    case True
    with R have w: "wp_reuse pt (PTINDEX a) old m = Inr m'" by simp
    note W = wp_reuse_Inr[OF w]
    have "frames m' dir = frames m dir" using assms(8) by (simp add: W(2))
    then have "pte_at m' dir a = entry old 7" by (simp add: pte_at_def pt_def[symmetric] W(2))
    then show ?thesis
      using True p e7[OF W(1)] \<open>frames m' dir = frames m dir\<close> assms(9)
      by (auto simp: maps_def writable_def user_page_def W(2))
  next
    case False
    with R have w: "wp_copy pt (PTINDEX a) old m = Inr m'" by simp
    obtain new where W: "new < length (mem_map m)" "\<not> used m new"
      and ph: "frames m' = ((frames m)(new := (\<lambda>_. 0), pt := (((frames m)(new := (\<lambda>_. 0))) pt)(PTINDEX a := entry new 7)))
           (new := ((frames m)(new := (\<lambda>_. 0), pt := (((frames m)(new := (\<lambda>_. 0))) pt)(PTINDEX a := entry new 7))) old)"
      and c: "pg_count (mem_map m' ! new) = 2" "pg_count (mem_map m' ! old) = pg_count (mem_map m ! old) - 1"
      by (rule wp_copy_Inr[OF w assms(5)])
    have ne: "new \<noteq> dir" "new \<noteq> old" "new \<noteq> pt" using W(2) assms(4,5,7) by auto
    have d: "frames m' dir = frames m dir" "frames m' pt = (frames m pt)(PTINDEX a := entry new 7)" "frames m' new = frames m old"
      "frames m' old = frames m old" and o: "g \<noteq> new \<Longrightarrow> g \<noteq> pt \<Longrightarrow> frames m' g = frames m g" for g
      using ne assms(8,9,10) by (simp_all add: ph)
    have "pte_at m' dir a = entry new 7" by (simp add: pte_at_def d pt_def[symmetric])
    then have t: "maps m' dir a = Some new" "writable m' dir a" "user_page m' dir a"
      using p e7[OF W(1)] d(1) by (simp_all add: maps_def writable_def user_page_def)
    have "frames m' g i = frames m g i" if "g \<noteq> new" "g \<noteq> pt \<or> i \<noteq> PTINDEX a" for g i
      using o[of g] d(2) that by (cases "g = pt") simp_all
    then show ?thesis
      using False t d(3,4) c W(2) by (intro exI[of _ new]) simp
  qed
qed

text \<open>
  C13. After a write fault on a present page the address is mapped, writable for the user, to a
  frame with the content the page had. When the page was shared (its count is not 1) this is
  another frame that was not in use before, the old frame keeps its content and loses one
  count; otherwise it is the same frame. No other frame changes but for the entry of the
  address. The new frame is given count 2 although one address maps it.
\<close>

theorem write_fault_gives_private_copy:
  assumes "vm_ok m" and "do_wp_page dir a m = Inr m'" and "maps m dir a = Some old"
    and "used m dir" and "used m old"
  defines "pt \<equiv> entry_frame (frames m dir (PDINDEX a))"
  assumes "used m pt" and "dir \<noteq> pt" and "old \<noteq> pt" and "old \<noteq> dir"
  shows "\<exists>f. maps m' dir a = Some f \<and> writable m' dir a \<and> user_page m' dir a \<and> frames m' f = frames m old \<and>
     (if pg_count (mem_map m ! old) = 1 then f = old
      else \<not> used m f \<and> frames m' old = frames m old \<and>
           pg_count (mem_map m' ! old) = pg_count (mem_map m ! old) - 1 \<and> pg_count (mem_map m' ! f) = 2) \<and>
     (\<forall>g i. g \<noteq> f \<longrightarrow> g \<noteq> pt \<or> i \<noteq> PTINDEX a \<longrightarrow> frames m' g i = frames m g i)"
  using do_wp_page_copies[OF assms(1-5)] assms(7-10) unfolding pt_def by blast

text \<open>A directory in frame 2, a table in frame 3, a shared page in frame 4, frames 5 and 6 free.\<close>

definition sample_vm :: vm where
  "sample_vm =
     \<lparr>mem_map = replicate 4 \<lparr>pg_count = 1, pg_flags = 1\<rparr> @
                [\<lparr>pg_count = 2, pg_flags = 3\<rparr>, \<lparr>pg_count = 0, pg_flags = 0\<rparr>, \<lparr>pg_count = 0, pg_flags = 0\<rparr>],
      frames = (\<lambda>f i. if f = 2 \<and> i = 0 then entry 3 7 else if f = 3 \<and> i = 0 then entry 4 5
                    else if f = 4 then 42 else 0)\<rparr>"

lemma sample_index: "PDINDEX 0 = 0" "PTINDEX 0 = 0"
  by (simp_all add: PDINDEX_def PTINDEX_def)

lemma sample_entries: "entry_frame (entry 3 7) = 3" "entry_frame (entry 4 5) = 4" "bit (entry 3 7) 0" "bit (entry 4 5) 0"
  by (simp_all add: entry_frame_entry bit_numeral_rec)

lemma sample_map:
  "mem_map sample_vm = [\<lparr>pg_count = 1, pg_flags = 1\<rparr>, \<lparr>pg_count = 1, pg_flags = 1\<rparr>, \<lparr>pg_count = 1, pg_flags = 1\<rparr>,
     \<lparr>pg_count = 1, pg_flags = 1\<rparr>, \<lparr>pg_count = 2, pg_flags = 3\<rparr>, \<lparr>pg_count = 0, pg_flags = 0\<rparr>,
     \<lparr>pg_count = 0, pg_flags = 0\<rparr>]"
  by (simp add: sample_vm_def eval_nat_numeral)

lemma sample_used: "used sample_vm 2" "used sample_vm 3" "used sample_vm 4" "vm_ok sample_vm"
  by (simp_all add: used_def in_use_def sample_map MP_USE_def vm_ok_def)

lemma sample_phys: "frames sample_vm 2 0 = entry 3 7" "frames sample_vm 3 0 = entry 4 5" "frames sample_vm 4 i = 42"
  by (simp_all add: sample_vm_def)

lemma sample_maps: "maps sample_vm 2 0 = Some 4" "entry_frame (frames sample_vm 2 (PDINDEX 0)) = 3"
  "entry_frame (pte_at sample_vm 2 0) = 4"
  by (simp_all add: maps_def pte_at_def sample_index sample_phys sample_entries)

lemma sample_alloc: "\<exists>m'. alloc_frame sample_vm = Inr (m', 5) \<and> length (mem_map m') = 7"
  by (simp add: alloc_frame_def get_free_page_def sample_map in_use_def MP_USE_def PAGE_SIZE_def)

theorem write_fault_gives_private_copy_witness:
  "\<exists>m' f. do_wp_page 2 0 sample_vm = Inr m' \<and> maps m' 2 0 = Some f \<and> writable m' 2 0 \<and> frames m' f 7 = 42 \<and>
     f \<notin> {2, 3, 4}"
proof -
  obtain m1 where m1: "alloc_frame sample_vm = Inr (m1, 5)" "length (mem_map m1) = 7" using sample_alloc by blast
  have "\<exists>m'. do_wp_page 2 0 sample_vm = Inr m'"
    by (simp add: do_wp_page_def rd_frame_def sample_index sample_map sample_phys sample_entries wp_copy_def m1
        wr_frame_def upd_page_def)
  then obtain m' where m': "do_wp_page 2 0 sample_vm = Inr m'" by blast
  have c: "pg_count (mem_map sample_vm ! 4) = 2" by (simp add: sample_map)
  have "\<exists>f. maps m' 2 0 = Some f \<and> writable m' 2 0 \<and> user_page m' 2 0 \<and> frames m' f = frames sample_vm 4 \<and>
     (if pg_count (mem_map sample_vm ! 4) = 1 then f = 4
      else \<not> used sample_vm f \<and> frames m' 4 = frames sample_vm 4 \<and>
           pg_count (mem_map m' ! 4) = pg_count (mem_map sample_vm ! 4) - 1 \<and> pg_count (mem_map m' ! f) = 2) \<and>
     (\<forall>g i. g \<noteq> f \<longrightarrow> g \<noteq> entry_frame (frames sample_vm 2 (PDINDEX 0)) \<or> i \<noteq> PTINDEX 0 \<longrightarrow> frames m' g i = frames sample_vm g i)"
    by (rule write_fault_gives_private_copy[OF sample_used(4) m' sample_maps(1) sample_used(1) sample_used(3)])
       (simp_all add: sample_maps sample_used)
  then obtain f where "maps m' 2 0 = Some f" "writable m' 2 0" "frames m' f = frames sample_vm 4" "\<not> used sample_vm f"
    by (simp add: c) blast
  moreover from this(4) have "f \<notin> {2, 3, 4}" using sample_used by auto
  ultimately show ?thesis using m' sample_phys(3) by auto
qed

text \<open>
  C14. After a fault on a page that is not present the address is mapped to a frame that was
  not in use and is cleared, writable, and open to the user exactly for a user thread. But the
  directory entry is always replaced by a new page table: every other page of the same 4 MB is
  unmapped, mapped or not before. Addresses of other directory entries keep their translation.
\<close>

theorem missing_page_fault:
  assumes "vm_ok m" and "do_no_page k dir a m = Inr m'" and "used m dir"
  shows "\<exists>f. maps m' dir a = Some f \<and> writable m' dir a \<and> (user_page m' dir a \<longleftrightarrow> \<not> k) \<and> \<not> used m f \<and>
     (\<forall>i. frames m' f i = 0) \<and>
     (\<forall>b. PDINDEX b = PDINDEX a \<longrightarrow> PTINDEX b \<noteq> PTINDEX a \<longrightarrow> maps m' dir b = None) \<and>
     (\<forall>b. PDINDEX b \<noteq> PDINDEX a \<longrightarrow> used m (entry_frame (frames m dir (PDINDEX b))) \<longrightarrow>
        entry_frame (frames m dir (PDINDEX b)) \<noteq> dir \<longrightarrow> maps m' dir b = maps m dir b)"
proof -
  define attr where "attr = (if k then 3 else 7 :: u32)"
  obtain m1 new m2 pde m3 m4 where 1: "alloc_frame m = Inr (m1, new)"
    and 2: "create_table attr m1 = Inr (m2, pde)" and 3: "wr_frame dir (PDINDEX a) pde m2 = Inr m3"
    and 4: "wr_frame (entry_frame pde) (PTINDEX a) (entry new attr) m3 = Inr m4"
    and 5: "upd_page new (\<lambda>p. p\<lparr>pg_count := pg_count p + 1\<rparr>) m4 = Inr m'"
    using assms(2) unfolding do_no_page_def Let_def attrs_small attr_def[symmetric] by (elim rbindE; clarsimp)+
  obtain t where t: "alloc_frame m1 = Inr (m2, t)" "pde = entry t attr" by (rule create_table_Inr[OF 2])
  note A = alloc_frame_Inr[OF 1] and T = alloc_frame_Inr[OF t(1)]
  have fa: "entry_frame (entry f attr) = f" "bit (entry f attr) 0" "bit (entry f attr) (Suc 0)" "bit (entry f attr) 2 = (\<not> k)"
    if "f < length (mem_map m)" for f
    using entry_frame_entry[of f attr] frame_bound[OF assms(1) that] by (auto simp: attr_def)
  have tl: "t < length (mem_map m)" using T(1) A(5) by simp
  have pf: "entry_frame pde = t" using fa(1)[OF tl] by (simp add: t(2))
  have u1: "used m1 g" if "used m g" for g using that A(3,5,6) by (cases "g = new") (auto simp: used_def)
  have ne: "new \<noteq> t" "dir \<noteq> new" "dir \<noteq> t" using A(2,3) T(2) assms(3) u1 by auto
  have ph: "frames m' = (frames m)(new := (\<lambda>_. 0), t := (\<lambda>_. 0)(PTINDEX a := entry new attr),
      dir := (frames m dir)(PDINDEX a := entry t attr))"
  proof -
    have "frames m3 = (frames m2)(dir := (frames m2 dir)(PDINDEX a := entry t attr))"
      using 3 by (auto simp: wr_frame_Inr_conv t(2))
    moreover have "frames m4 = (frames m3)(t := (frames m3 t)(PTINDEX a := entry new attr))"
      using 4 unfolding pf by (auto simp: wr_frame_Inr_conv)
    moreover have "frames m' = frames m4" using 5 by (auto simp: upd_page_Inr_conv)
    ultimately show ?thesis using ne by (auto simp: A(7) T(7))
  qed
  have pa: "pte_at m' dir a = entry new attr" using ne by (simp add: pte_at_def ph fa(1)[OF tl])
  have a: "maps m' dir a = Some new" "writable m' dir a" "user_page m' dir a \<longleftrightarrow> \<not> k"
    using pa ne fa[OF A(1)] fa(2)[OF tl] by (simp_all add: maps_def writable_def user_page_def ph)
  have b: "maps m' dir b = None" if "PDINDEX b = PDINDEX a" "PTINDEX b \<noteq> PTINDEX a" for b
    using that ne by (simp add: maps_def pte_at_def ph fa(1)[OF tl])
  have c: "maps m' dir b = maps m dir b" if "PDINDEX b \<noteq> PDINDEX a" "used m (entry_frame (frames m dir (PDINDEX b)))"
      "entry_frame (frames m dir (PDINDEX b)) \<noteq> dir" for b
  proof -
    have d: "frames m' dir (PDINDEX b) = frames m dir (PDINDEX b)" using that(1) by (simp add: ph)
    let ?g = "entry_frame (frames m dir (PDINDEX b))"
    have "?g \<noteq> new" "?g \<noteq> t" using that(2) A(2) T(2) u1 by auto
    then have "pte_at m' dir b = pte_at m dir b" using that(3) by (simp add: pte_at_def d) (simp add: ph)
    then show ?thesis by (simp add: maps_def d)
  qed
  show ?thesis using a b c A(2) ne by (intro exI[of _ new]) (simp add: ph)
qed

lemma sample_alloc_twice:
  "\<exists>m1 m2. alloc_frame sample_vm = Inr (m1, 5) \<and> alloc_frame m1 = Inr (m2, 6) \<and> length (mem_map m2) = 7"
  by (simp add: alloc_frame_def get_free_page_def sample_map in_use_def MP_USE_def PAGE_SIZE_def)

theorem missing_page_fault_witness:
  "\<exists>m' f. do_no_page False 2 0 sample_vm = Inr m' \<and> maps m' 2 0 = Some f \<and> user_page m' 2 0 \<and>
     maps m' 2 0x1000 = None"
proof -
  obtain m1 m2 where m: "alloc_frame sample_vm = Inr (m1, 5)" "alloc_frame m1 = Inr (m2, 6)" "length (mem_map m2) = 7"
    using sample_alloc_twice by blast
  have "\<exists>m'. do_no_page False 2 0 sample_vm = Inr m'"
    by (simp add: do_no_page_def sample_index create_table_def m wr_frame_def upd_page_def entry_frame_entry attrs_small)
  then obtain m' where m': "do_no_page False 2 0 sample_vm = Inr m'" by blast
  have i: "PDINDEX 0x1000 = PDINDEX 0" "PTINDEX 0x1000 \<noteq> PTINDEX 0" by (simp_all add: PDINDEX_def PTINDEX_def)
  show ?thesis using missing_page_fault[OF sample_used(4) m' sample_used(1)] m' i by blast
qed

subsection \<open>The kernel's mapping\<close>

lemma fill_table_eq:
  "fill_table f [i..<i + k] a mm =
     (mm(f := (\<lambda>n. if i \<le> n \<and> n < i + k then (a + 4096 * of_nat (n - i)) OR PG_P OR PG_RWW OR PG_USS else mm f n)),
      a + 4096 * of_nat k)"
proof (induction k arbitrary: i a mm)
  case 0
  then show ?case by (auto simp: fun_eq_iff)
next
  case (Suc k)
  have l: "[i..<i + Suc k] = i # [Suc i..<Suc i + k]" by (simp add: upt_conv_Cons)
  have s: "(n - i) = Suc (n - Suc i)" if "Suc i \<le> n" for n using that by simp
  show ?case unfolding l fill_table.simps Suc.IH by (auto simp: fun_eq_iff s algebra_simps le_Suc_eq)
qed

lemma fill_tables_eq:
  assumes "j + k \<le> 256"
  shows "\<exists>mm'. fill_tables [j..<j + k] a mm = Inr mm' \<and>
    (\<forall>n i. n < k \<longrightarrow> i < 1024 \<longrightarrow>
       mm' (PAGE_TABLE_FRAME + j + n) i = (a + 4096 * of_nat (1024 * n + i)) OR PG_P OR PG_RWW OR PG_USS) \<and>
    (\<forall>n < k. mm' PAGE_DIR_FRAME (j + n + 768) = entry (PAGE_TABLE_FRAME + j + n) (PG_P OR PG_RWW OR PG_USS)) \<and>
    (\<forall>g. g \<noteq> PAGE_DIR_FRAME \<longrightarrow> \<not> (PAGE_TABLE_FRAME + j \<le> g \<and> g < PAGE_TABLE_FRAME + j + k) \<longrightarrow> mm' g = mm g) \<and>
    (\<forall>i. \<not> (j + 768 \<le> i \<and> i < j + k + 768) \<longrightarrow> mm' PAGE_DIR_FRAME i = mm PAGE_DIR_FRAME i)"
  using assms
proof (induction k arbitrary: j a mm)
  case 0
  then show ?case by auto
next
  case (Suc k)
  have l: "[j..<j + Suc k] = j # [Suc j..<Suc j + k]" by (simp add: upt_conv_Cons)
  define at where "at = PG_P OR PG_RWW OR PG_USS"
  define mm1 where "mm1 = mm(PAGE_TABLE_FRAME + j := (\<lambda>n. if n < 1024 then (a + 4096 * of_nat n) OR at
    else mm (PAGE_TABLE_FRAME + j) n))"
  have t: "fill_table (PAGE_TABLE_FRAME + j) [0..<1024] a mm = (mm1, a + 4096 * 1024)"
    using fill_table_eq[of "PAGE_TABLE_FRAME + j" 0 1024 a mm] by (simp add: mm1_def at_def cong: if_cong)
  define mm2 where "mm2 = mm1(PAGE_DIR_FRAME := (mm1 PAGE_DIR_FRAME)(j + 768 := entry (PAGE_TABLE_FRAME + j) at))"
  have ne: "PAGE_TABLE_FRAME + x \<noteq> PAGE_DIR_FRAME" for x by (simp add: PAGE_DIR_FRAME_def PAGE_TABLE_FRAME_def)
  obtain mm' where I: "fill_tables [Suc j..<Suc j + k] (a + 4096 * 1024) mm2 = Inr mm'"
    "\<forall>n i. n < k \<longrightarrow> i < 1024 \<longrightarrow>
       mm' (PAGE_TABLE_FRAME + Suc j + n) i = (a + 4096 * 1024 + 4096 * of_nat (1024 * n + i)) OR at"
    "\<forall>n < k. mm' PAGE_DIR_FRAME (Suc j + n + 768) = entry (PAGE_TABLE_FRAME + Suc j + n) at"
    "\<forall>g. g \<noteq> PAGE_DIR_FRAME \<longrightarrow> \<not> (PAGE_TABLE_FRAME + Suc j \<le> g \<and> g < PAGE_TABLE_FRAME + Suc j + k) \<longrightarrow> mm' g = mm2 g"
    "\<forall>i. \<not> (Suc j + 768 \<le> i \<and> i < Suc j + k + 768) \<longrightarrow> mm' PAGE_DIR_FRAME i = mm2 PAGE_DIR_FRAME i"
    using Suc.IH[of "Suc j" "a + 4096 * 1024" mm2] Suc.prems unfolding at_def by auto
  have r: "fill_tables [j..<j + Suc k] a mm = Inr mm'"
    using I(1) Suc.prems unfolding l fill_tables.simps t Let_def by (simp add: mm2_def at_def)
  have j: "mm' (PAGE_TABLE_FRAME + j) = mm1 (PAGE_TABLE_FRAME + j)"
    using I(4) ne by (simp add: mm2_def)
  have "mm' (PAGE_TABLE_FRAME + j + n) i = (a + 4096 * of_nat (1024 * n + i)) OR at" if "n < Suc k" "i < 1024" for n i
  proof (cases n)
    case 0
    then show ?thesis using that by (simp add: j mm1_def)
  next
    case (Suc n')
    then show ?thesis using I(2)[rule_format, of n' i] that by (simp add: algebra_simps)
  qed
  moreover have "mm' PAGE_DIR_FRAME (j + n + 768) = entry (PAGE_TABLE_FRAME + j + n) at" if "n < Suc k" for n
  proof (cases n)
    case 0
    then show ?thesis using I(5) by (simp add: mm2_def)
  next
    case (Suc n')
    then show ?thesis using I(3) that by simp
  qed
  moreover have "mm' g = mm g"
    if "g \<noteq> PAGE_DIR_FRAME" "\<not> (PAGE_TABLE_FRAME + j \<le> g \<and> g < PAGE_TABLE_FRAME + j + Suc k)" for g
    using I(4) that by (auto simp: mm2_def mm1_def)
  moreover have "mm' PAGE_DIR_FRAME i = mm PAGE_DIR_FRAME i" if "\<not> (j + 768 \<le> i \<and> i < j + Suc k + 768)" for i
    using I(5) that ne[of j] by (auto simp: mm2_def mm1_def)
  ultimately show ?case using r unfolding at_def by blast
qed

lemma fill_tables_overrun:
  "j \<le> 256 \<Longrightarrow> 256 < j + k \<Longrightarrow> fill_tables [j..<j + k] a mm = Inl OutOfBounds"
proof (induction k arbitrary: j a mm)
  case (Suc k)
  have l: "[j..<j + Suc k] = j # [Suc j..<Suc j + k]" by (simp add: upt_conv_Cons)
  show ?case
  proof (cases "j = 256")
    case True
    then show ?thesis unfolding l fill_tables.simps by (simp split: prod.split)
  next
    case False
    have "fill_tables [Suc j..<Suc j + k] a' mm' = Inl OutOfBounds" for a' mm'
      by (rule Suc.IH) (use Suc.prems False in auto)
    then show ?thesis unfolding l fill_tables.simps Let_def by (auto split: prod.split simp del: upt_Suc add_Suc)
  qed
qed simp

lemma sint_positive:
  fixes w :: u32
  assumes "0 < sint w"
  shows "sint w = int (unat w)"
proof -
  have t: "take_bit (Suc 31) (uint w) = uint w"
    using take_bit_length_eq by (simp add: take_bit_int_eq_self unsigned_less[of w, simplified])
  have "sint w = uint w - 2 ^ 32 * of_bool (bit (uint w) 31)"
    using signed_take_bit_eq_take_bit_minus[of 31 "uint w"] unfolding t by (simp add: sint_uint)
  moreover have "uint w < 2 ^ 32" using unsigned_less[of w] by simp
  ultimately show ?thesis using assms by (cases "bit (uint w) 31") simp_all
qed

lemma page_table_count_eq:
  assumes "0 < sint mem_size"
  shows "unat (page_table_count mem_size) = (min (unat mem_size) (unat HIGH_MEMORY) + 0x3FFFFF) div 0x400000"
proof (cases "sint HIGH_MEMORY > sint mem_size")
  case True
  have s: "sint mem_size = int (unat mem_size)"
    by (rule sint_positive) fact
  have "int (unat mem_size) < 0x38000000" using True unfolding s by (simp add: HIGH_MEMORY_def)
  then have u: "unat mem_size < 0x38000000" by linarith
  have m: "mem_size = of_nat (unat mem_size)" by simp
  have "mem_size + 0x400000 - 1 = (of_nat (unat mem_size + 0x3FFFFF) :: u32)"
    by (subst m) (simp only: of_nat_add, simp)
  moreover have "sint (of_nat k :: u32) = int k" if "k < 0x40000000" for k
    using that by (simp add: signed_of_nat signed_take_bit_int_eq_self)
  from this[of "unat mem_size + 0x3FFFFF"]
  have "sint (of_nat (unat mem_size + 0x3FFFFF) :: u32) = int (unat mem_size + 0x3FFFFF)"
    using u by linarith
  ultimately have e: "sint (mem_size + 0x400000 - 1) = int (unat mem_size + 0x3FFFFF)" by (simp only:)
  have "page_table_count mem_size = of_nat ((unat mem_size + 0x3FFFFF) div 0x400000)"
  proof -
    have "sgn (int k) * (\<bar>int k\<bar> div 0x400000) = int (k div 0x400000)" for k
      by (cases "k = 0") (simp_all add: zdiv_int)
    then show ?thesis using True unfolding page_table_count_def e Let_def by (simp only: if_True of_int_of_nat_eq)
  qed
  moreover have "(unat mem_size + 0x3FFFFF) div 0x400000 < 2 ^ 32" using u by simp
  ultimately show ?thesis using u by (simp add: unat_of_nat HIGH_MEMORY_def)
next
  case False
  have s: "sint mem_size = int (unat mem_size)"
    by (rule sint_positive) fact
  have "\<not> int (unat mem_size) < 0x38000000" using False unfolding s by (simp add: HIGH_MEMORY_def)
  then have "min (unat mem_size) 0x38000000 = 0x38000000" by linarith
  then show ?thesis using False by (simp add: page_table_count_def HIGH_MEMORY_def)
qed

lemma reset_paging_entries:
  assumes "n \<le> 256" and "n = unat (page_table_count mem_size)"
  shows "\<exists>m. reset_paging mem_size junk mm = Inr m \<and>
    mem_map m = map (\<lambda>i. init_page (2 * n) i (junk i)) [0..<n * 1024] \<and>
    (\<forall>j i. j < n \<longrightarrow> i < 1024 \<longrightarrow> frames m (PAGE_TABLE_FRAME + j) i = entry (1024 * j + i) 3) \<and>
    (\<forall>j < n. frames m PAGE_DIR_FRAME (j + 768) = entry (PAGE_TABLE_FRAME + j) 3)"
proof -
  obtain mm' where f: "fill_tables [0..<0 + n] 0 mm = Inr mm'"
    "\<forall>k i. k < n \<longrightarrow> i < 1024 \<longrightarrow> mm' (PAGE_TABLE_FRAME + 0 + k) i = (0 + 4096 * of_nat (1024 * k + i)) OR 3"
    "\<forall>k < n. mm' PAGE_DIR_FRAME (0 + k + 768) = entry (PAGE_TABLE_FRAME + 0 + k) 3"
    using fill_tables_eq[of 0 n 0 mm] assms(1) unfolding attrs_small by auto
  have e: "entry g a = (4096 * of_nat g) OR a" for g a by (simp add: entry_def PAGE_SIZE_def)
  have s: "8 * 1024 * n div (1024 * 4) = 2 * n" by simp
  let ?m = "\<lparr>mem_map = map (\<lambda>i. init_page (2 * n) i (junk i)) [0..<n * 1024], frames = mm'\<rparr>"
  have "reset_paging mem_size junk mm = Inr ?m"
    using f(1) unfolding reset_paging_def Let_def assms(2)[symmetric] s by simp
  then show ?thesis
    using f(2,3) by (intro exI[of _ ?m]) (simp add: e)
qed

lemma va_index:
  assumes "p < 0x40000000"
  shows "PDINDEX (of_nat (va p)) = 768 + p div 0x400000" and "PTINDEX (of_nat (va p)) = p div 0x1000 mod 1024"
proof -
  have u: "unat (of_nat (va p) :: u32) = p + 0xC0000000"
    by (simp only: unat_of_nat va_def) (use assms in simp)
  have "unat (drop_bit 22 (of_nat (va p) :: u32)) = (p + 0xC0000000) div 2 ^ 22"
    unfolding unat_drop_bit_eq u by (rule drop_bit_eq_div)
  also have "\<dots> = 768 + p div 0x400000" by simp
  finally show "PDINDEX (of_nat (va p)) = 768 + p div 0x400000" by (simp add: PDINDEX_def)
  have "drop_bit 12 (of_nat (va p) :: u32) AND 0x03FF = take_bit 10 (drop_bit 12 (of_nat (va p)))"
    by (simp add: take_bit_eq_mask mask_eq_exp_minus_1)
  then have "PTINDEX (of_nat (va p)) = take_bit 10 (drop_bit 12 (p + 0xC0000000))"
    unfolding PTINDEX_def by (simp only: unsigned_take_bit_eq unat_drop_bit_eq u)
  also have "\<dots> = (p + 0xC0000000) div 0x1000 mod 1024" by (simp add: take_bit_eq_mod drop_bit_eq_div)
  also have "(p + 0xC0000000) div 0x1000 = p div 0x1000 + 0xC0000" by simp
  also have "(p div 0x1000 + 0xC0000) mod 1024 = p div 0x1000 mod 1024"
    using mod_mult_self2[of "p div 0x1000" 1024 768] by simp
  finally show "PTINDEX (of_nat (va p)) = p div 0x1000 mod 1024" .
qed

lemma reset_paging_maps:
  assumes "0 < sint mem_size"
  defines "n \<equiv> (min (unat mem_size) (unat HIGH_MEMORY) + 0x3FFFFF) div 0x400000"
  shows "\<exists>m. reset_paging mem_size junk mm = Inr m \<and> length (mem_map m) = 1024 * n \<and> vm_ok m \<and>
     (\<forall>p < 0x400000 * n. maps m PAGE_DIR_FRAME (of_nat (va p)) = Some (p div 0x1000) \<and>
        writable m PAGE_DIR_FRAME (of_nat (va p)) \<and> \<not> user_page m PAGE_DIR_FRAME (of_nat (va p))) \<and>
     (\<forall>i < 1024 * n. used m i \<longleftrightarrow> i < 1024 + 2 * n)"
proof -
  have c: "n = unat (page_table_count mem_size)" using page_table_count_eq[OF assms(1)] by (simp add: n_def)
  have "n \<le> (0x38000000 + 0x3FFFFF) div 0x400000"
    unfolding n_def by (rule div_le_mono) (simp add: HIGH_MEMORY_def)
  then have n: "n \<le> 224" and n256: "n \<le> 256" by simp_all
  obtain m where m: "reset_paging mem_size junk mm = Inr m"
    "mem_map m = map (\<lambda>i. init_page (2 * n) i (junk i)) [0..<n * 1024]"
    "\<forall>j i. j < n \<longrightarrow> i < 1024 \<longrightarrow> frames m (PAGE_TABLE_FRAME + j) i = entry (1024 * j + i) 3"
    "\<forall>j < n. frames m PAGE_DIR_FRAME (j + 768) = entry (PAGE_TABLE_FRAME + j) 3"
    using reset_paging_entries[OF n256 c, of junk mm] by blast
  have t: "maps m PAGE_DIR_FRAME (of_nat (va p)) = Some (p div 0x1000) \<and>
        writable m PAGE_DIR_FRAME (of_nat (va p)) \<and> \<not> user_page m PAGE_DIR_FRAME (of_nat (va p))"
    if p: "p < 0x400000 * n" for p
  proof -
    have "p < 0x40000000" using p n by simp
    note i = va_index[OF this]
    have j: "p div 0x400000 < n" using p by (simp add: less_mult_imp_div_less mult.commute)
    have pd: "frames m PAGE_DIR_FRAME (PDINDEX (of_nat (va p))) = entry (PAGE_TABLE_FRAME + p div 0x400000) 3"
      using m(4)[rule_format, OF j] by (simp add: i(1) add.commute)
    have f: "entry_frame (entry (PAGE_TABLE_FRAME + p div 0x400000) 3) = PAGE_TABLE_FRAME + p div 0x400000"
      "bit (entry (PAGE_TABLE_FRAME + p div 0x400000) 3) 0"
      using entry_frame_entry[of "PAGE_TABLE_FRAME + p div 0x400000" 3] j n by (auto simp: PAGE_TABLE_FRAME_def)
    have "1024 * (p div 0x400000) + p div 0x1000 mod 1024 = p div 0x1000"
      using div_mult2_eq[of p "0x1000" 1024] by simp
    then have pt: "pte_at m PAGE_DIR_FRAME (of_nat (va p)) = entry (p div 0x1000) 3"
      using m(3)[rule_format, OF j, of "p div 0x1000 mod 1024"] by (simp add: pte_at_def pd f i(2))
    have "p div 0x1000 < 2 ^ 20" using \<open>p < 0x40000000\<close> by simp
    then show ?thesis
      using f(2) entry_frame_entry[of "p div 0x1000" 3] by (simp add: maps_def writable_def user_page_def pd pt)
  qed
  have "used m i \<longleftrightarrow> i < 1024 + 2 * n" if "i < 1024 * n" for i
    using that by (auto simp: used_def m(2) init_page_def in_use_def)
      (simp_all add: in_use_def[symmetric] bit.conj_disj_distrib2 MP_USE_def)
  then show ?thesis using m(1,2) t n by (intro exI[of _ m]) (simp add: vm_ok_def mult.commute)
qed

text \<open>
  For a positive \<^verbatim>\<open>mem_size\<close> \<^verbatim>\<open>reset_paging\<close> maps the physical memory, up to 896 MB and
  rounded up to 4 MB, to the addresses from 3 GB on, writable and closed to the user: the
  address \<^verbatim>\<open>__va(p)\<close> is translated to the frame of \<open>p\<close>. The first page the kernel can take
  afterwards is behind the first 4 MB and the \<open>2 * n\<close> pages that \<^verbatim>\<open>mem_map\<close> itself occupies.
\<close>

theorem reset_paging_maps_memory:
  assumes "0 < sint mem_size"
  defines "n \<equiv> (min (unat mem_size) (unat HIGH_MEMORY) + 0x3FFFFF) div 0x400000"
  shows "\<exists>m. reset_paging mem_size junk mm = Inr m \<and> length (mem_map m) = 1024 * n \<and> vm_ok m \<and>
     (\<forall>p < 0x400000 * n. maps m PAGE_DIR_FRAME (of_nat (va p)) = Some (p div 0x1000) \<and>
        writable m PAGE_DIR_FRAME (of_nat (va p)) \<and> \<not> user_page m PAGE_DIR_FRAME (of_nat (va p))) \<and>
     (\<forall>i < 1024 * n. used m i \<longleftrightarrow> i < 1024 + 2 * n)"
  using reset_paging_maps[OF assms(1), of junk mm] unfolding n_def .

theorem reset_paging_maps_memory_witness:
  "\<exists>m. reset_paging 0x2000000 (\<lambda>i. \<lparr>pg_count = 0, pg_flags = 0\<rparr>) (\<lambda>f i. 0) = Inr m \<and>
     maps m PAGE_DIR_FRAME (of_nat (va 0x1234567)) = Some 0x1234 \<and> used m 1039 \<and> \<not> used m 1040"
  using reset_paging_maps_memory[of "0x2000000" "\<lambda>i. \<lparr>pg_count = 0, pg_flags = 0\<rparr>" "\<lambda>f i. 0"]
  by (auto simp: HIGH_MEMORY_def)

text \<open>
  A machine with 2 GB of memory or more has a negative \<^verbatim>\<open>mem_size\<close>: the number of page
  tables, a small negative quotient, becomes a huge unsigned number, and the loop writes past
  the page directory.
\<close>

theorem reset_paging_two_gigabytes:
  assumes "sint mem_size < - 0x800000"
  shows "reset_paging mem_size junk mm = Inl OutOfBounds"
proof -
  define s where "s = sint mem_size"
  have s: "- 0x80000000 \<le> s" "s < - 0x800000" using assms sint_ge[of mem_size] by (simp_all add: s_def)
  have "mem_size + 0x400000 - 1 = word_of_int (s + 0x3FFFFF)"
    by (simp add: s_def)
  then have e: "sint (mem_size + 0x400000 - 1) = s + 0x3FFFFF"
    using s by (simp only: signed_of_int) (simp add: signed_take_bit_int_eq_self)
  define q where "q = (- (s + 0x3FFFFF)) div 0x400000"
  have q: "1 \<le> q" "q \<le> 512" using s unfolding q_def by linarith+
  have "sgn (s + 0x3FFFFF) = - 1" "\<bar>s + 0x3FFFFF\<bar> = - (s + 0x3FFFFF)" using s by (simp_all add: sgn_if)
  then have "page_table_count mem_size = word_of_int (- q)"
    using s unfolding page_table_count_def e Let_def by (simp add: HIGH_MEMORY_def s_def[symmetric] q_def)
  then have "uint (page_table_count mem_size) = (- q) mod 2 ^ 32"
    by (simp only: uint_word_of_int) simp
  also have "\<dots> = 2 ^ 32 - q"
    using q by (simp add: zmod_zminus1_eq_if)
  finally have "256 < unat (page_table_count mem_size)" using q by (simp add: unat_eq_nat_uint)
  then have "fill_tables [0..<0 + unat (page_table_count mem_size)] 0 mm = Inl OutOfBounds"
    by (intro fill_tables_overrun) auto
  then show ?thesis by (simp add: reset_paging_def Let_def)
qed

theorem reset_paging_two_gigabytes_witness:
  "reset_paging 0x80000000 (\<lambda>i. \<lparr>pg_count = 0, pg_flags = 0\<rparr>) (\<lambda>f i. 0) = Inl OutOfBounds"
  by (rule reset_paging_two_gigabytes) simp

subsection \<open>Sharing an address space\<close>

definition shared_entry :: "u32 \<Rightarrow> u32" where
  "shared_entry e = e AND NOT PG_RWW"

lemma bit_PG_RWW: "bit PG_RWW n \<longleftrightarrow> n = 1"
proof -
  have "PG_RWW = push_bit 1 1" by (simp add: PG_RWW_def)
  show ?thesis unfolding \<open>PG_RWW = push_bit 1 1\<close> by (simp only: bit_push_bit_iff bit_1_iff) auto
qed

lemma entry_frame_shared [simp]: "entry_frame (shared_entry e) = entry_frame e"
proof -
  have "drop_bit 12 (e AND NOT PG_RWW) = drop_bit 12 e"
    by (rule bit_word_eqI)
      (auto simp: bit_drop_bit_eq bit_and_iff bit_not_iff bit_PG_RWW dest: bit_imp_le_length)
  then show ?thesis by (simp add: entry_frame_def shared_entry_def)
qed

lemma shared_entry_bits:
  "bit (shared_entry e) 0 = bit e 0" "\<not> bit (shared_entry e) (Suc 0)" "shared_entry 0 = 0"
  by (simp_all add: shared_entry_def bit_and_iff bit_not_iff bit_PG_RWW)

lemma used_cow:
  "used (m\<lparr>mem_map := (mem_map m)[f := (mem_map m ! f)\<lparr>pg_count := c, pg_flags := pg_flags (mem_map m ! f) OR MP_COW\<rparr>]\<rparr>) g
     \<longleftrightarrow> used m g"
proof -
  have "(x OR MP_COW) AND MP_USE = x AND MP_USE" for x :: u32
    by (simp add: bit.conj_disj_distrib2 MP_COW_def MP_USE_def)
  then show ?thesis by (cases "g = f") (auto simp: used_def in_use_def)
qed

lemma used_phys [simp]: "used (m\<lparr>frames := x\<rparr>) g = used m g"
  by (simp add: used_def)

lemma copy_entries_Inr:
  assumes "copy_entries src dst js m = Inr m'" and "src \<noteq> dst" and "distinct js"
  shows "(\<forall>g. g \<noteq> src \<longrightarrow> g \<noteq> dst \<longrightarrow> frames m' g = frames m g) \<and>
    (\<forall>j \<in> set js. frames m' src j = shared_entry (frames m src j) \<and> frames m' dst j = shared_entry (frames m src j)) \<and>
    (\<forall>j. j \<notin> set js \<longrightarrow> frames m' src j = frames m src j \<and> frames m' dst j = frames m dst j) \<and>
    (\<forall>g. used m' g = used m g) \<and> length (mem_map m') = length (mem_map m) \<and>
    (\<forall>f < length (mem_map m). pg_count (mem_map m' ! f) = pg_count (mem_map m ! f) +
       of_nat (length (filter (\<lambda>j. frames m src j \<noteq> 0 \<and> entry_frame (frames m src j) = f) js)))"
  using assms
proof (induction js arbitrary: m)
  case (Cons j js)
  obtain m1 where 1: "(if frames m src j \<noteq> 0 then
                rbind (wr_frame src j (frames m src j AND NOT PG_RWW) m) (\<lambda>m1.
                rbind (rd_frame m1 src j) (\<lambda>e1.
                rbind (wr_frame dst j e1 m1)
                  (upd_page (entry_frame e1) (\<lambda>p. p\<lparr>pg_count := pg_count p + 1, pg_flags := pg_flags p OR MP_COW\<rparr>))))
              else wr_frame dst j 0 m) = Inr m1"
    and 2: "copy_entries src dst js m1 = Inr m'"
    using Cons.prems(1) by (auto simp: rbind_Inr_conv rd_frame_Inr_conv)
  have s: "frames m1 = (frames m)(src := (frames m src)(j := shared_entry (frames m src j)),
      dst := (frames m dst)(j := shared_entry (frames m src j))) \<and> length (mem_map m1) = length (mem_map m) \<and>
    (\<forall>g. used m1 g = used m g) \<and>
    (\<forall>f < length (mem_map m). pg_count (mem_map m1 ! f) = pg_count (mem_map m ! f) +
       (if frames m src j \<noteq> 0 \<and> entry_frame (frames m src j) = f then 1 else 0))"
  proof (cases "frames m src j = 0")
    case True
    then have "m1 = m\<lparr>frames := (frames m)(dst := (frames m dst)(j := 0))\<rparr>" using 1 by (simp add: wr_frame_Inr_conv)
    then show ?thesis using True Cons.prems(2) by (auto simp: shared_entry_bits fun_eq_iff)
  next
    case False
    let ?e = "shared_entry (frames m src j)"
    let ?m = "m\<lparr>frames := (frames m)(src := (frames m src)(j := ?e), dst := (frames m dst)(j := ?e))\<rparr>"
    have "m1 = ?m\<lparr>mem_map := (mem_map m)[entry_frame ?e := (mem_map m ! entry_frame ?e)
        \<lparr>pg_count := pg_count (mem_map m ! entry_frame ?e) + 1, pg_flags := pg_flags (mem_map m ! entry_frame ?e) OR MP_COW\<rparr>]\<rparr>"
      using 1 False Cons.prems(2) by (auto simp: rbind_Inr_conv vm_Inr_convs shared_entry_def[symmetric] simp del: entry_frame_shared)
    then show ?thesis using False used_cow[of ?m "entry_frame ?e"] by (auto simp: nth_list_update)
  qed
  have I: "(\<forall>g. g \<noteq> src \<longrightarrow> g \<noteq> dst \<longrightarrow> frames m' g = frames m1 g)"
    "(\<forall>j \<in> set js. frames m' src j = shared_entry (frames m1 src j) \<and> frames m' dst j = shared_entry (frames m1 src j))"
    "(\<forall>j. j \<notin> set js \<longrightarrow> frames m' src j = frames m1 src j \<and> frames m' dst j = frames m1 dst j)"
    "(\<forall>g. used m' g = used m1 g)" "length (mem_map m') = length (mem_map m1)"
    "(\<forall>f < length (mem_map m1). pg_count (mem_map m' ! f) = pg_count (mem_map m1 ! f) +
       of_nat (length (filter (\<lambda>j. frames m1 src j \<noteq> 0 \<and> entry_frame (frames m1 src j) = f) js)))"
    using Cons.IH[OF 2] Cons.prems(2,3) by simp_all
  have src: "frames m1 src k = frames m src k" if "k \<noteq> j" for k using s that Cons.prems(2) by simp
  have f: "filter (\<lambda>j. frames m1 src j \<noteq> 0 \<and> entry_frame (frames m1 src j) = f) js =
      filter (\<lambda>j. frames m src j \<noteq> 0 \<and> entry_frame (frames m src j) = f) js" for f
  proof (rule filter_cong)
    fix x
    assume "x \<in> set js"
    with Cons.prems(3) have "x \<noteq> j" by auto
    then show "(frames m1 src x \<noteq> 0 \<and> entry_frame (frames m1 src x) = f) = (frames m src x \<noteq> 0 \<and> entry_frame (frames m src x) = f)"
      by (simp add: src)
  qed simp
  have "pg_count (mem_map m' ! f) = pg_count (mem_map m ! f) +
       of_nat (length (filter (\<lambda>j. frames m src j \<noteq> 0 \<and> entry_frame (frames m src j) = f) (j # js)))"
    if "f < length (mem_map m)" for f
    using I(6) s that unfolding f by simp
  moreover have "frames m' g = frames m g" if "g \<noteq> src" "g \<noteq> dst" for g using I(1) s that by simp
  moreover have "frames m' src k = shared_entry (frames m src k) \<and> frames m' dst k = shared_entry (frames m src k)"
    if "k \<in> set (j # js)" for k
  proof (cases "k = j")
    case True
    then show ?thesis using I(3) s Cons.prems(2,3) by simp
  next
    case False
    then show ?thesis using I(2) src that by simp
  qed
  moreover have "frames m' src k = frames m src k \<and> frames m' dst k = frames m dst k" if "k \<notin> set (j # js)" for k
    using I(3) s src that Cons.prems(2) by simp
  moreover have "\<forall>g. used m' g = used m g" "length (mem_map m') = length (mem_map m)"
    using I(4,5) s by simp_all
  ultimately show ?case by (intro conjI allI ballI impI) simp_all
qed simp

text \<open>
  What the outer loop needs: the two directories and the tables behind the given entries are
  frames in use, all different.
\<close>

definition tables_ok :: "nat \<Rightarrow> nat \<Rightarrow> nat list \<Rightarrow> vm \<Rightarrow> bool" where
  "tables_ok pd res is m \<longleftrightarrow>
     used m pd \<and> used m res \<and> pd \<noteq> res \<and> distinct is \<and>
     (\<forall>i \<in> set is. frames m pd i \<noteq> 0 \<longrightarrow>
        used m (entry_frame (frames m pd i)) \<and> entry_frame (frames m pd i) \<notin> {pd, res}) \<and>
     (\<forall>i \<in> set is. \<forall>k \<in> set is. frames m pd i \<noteq> 0 \<longrightarrow> frames m pd k \<noteq> 0 \<longrightarrow> i \<noteq> k \<longrightarrow>
        entry_frame (frames m pd i) \<noteq> entry_frame (frames m pd k))"

text \<open>One entry of the directory.\<close>

lemma copy_table_step:
  assumes "vm_ok m" and "tables_ok pd res (i # is) m" and "frames m pd i \<noteq> 0"
    and "create_table (PG_P OR PG_RWW OR PG_USU) m = Inr (m1, e)" and "wr_frame res i e m1 = Inr m2"
    and "copy_entries (entry_frame (frames m2 pd i)) (entry_frame e) [0..<1024] m2 = Inr m3"
  obtains f where "\<not> used m f" and "used m3 f" and "e = entry f 7" and "entry_frame e = f"
    and "frames m3 res = (frames m res)(i := entry f 7)"
    and "\<And>j. j < 1024 \<Longrightarrow> frames m3 (entry_frame (frames m pd i)) j = shared_entry (frames m (entry_frame (frames m pd i)) j)"
    and "\<And>j. j < 1024 \<Longrightarrow> frames m3 f j = shared_entry (frames m (entry_frame (frames m pd i)) j)"
    and "\<And>g. g \<noteq> res \<Longrightarrow> g \<noteq> f \<Longrightarrow> g \<noteq> entry_frame (frames m pd i) \<Longrightarrow> frames m3 g = frames m g"
    and "\<And>g. used m g \<Longrightarrow> used m3 g" and "vm_ok m3"
proof -
  obtain f where f: "alloc_frame m = Inr (m1, f)" and e: "e = entry f 7"
    using create_table_Inr[OF assms(4)] unfolding attrs_small by blast
  note A = alloc_frame_Inr[OF f]
  have fe: "entry_frame e = f" using entry_frame_entry(1)[of f 7] frame_bound[OF assms(1) A(1)] by (simp add: e)
  define t where "t = entry_frame (frames m pd i)"
  have ne: "f \<noteq> pd" "f \<noteq> res" "f \<noteq> t" "t \<noteq> pd" "t \<noteq> res" "pd \<noteq> res"
    using assms(2,3) A(2) by (auto simp: tables_ok_def t_def)
  have m2: "m2 = m1\<lparr>frames := (frames m1)(res := (frames m1 res)(i := e))\<rparr>" using assms(5) by (simp add: wr_frame_Inr_conv)
  have p2: "frames m2 pd i = frames m pd i" using ne by (simp add: m2 A(7))
  have ce: "copy_entries t f [0..<1024] m2 = Inr m3" using assms(6) unfolding p2 fe t_def .
  have "t \<noteq> f" "distinct [0..<1024 :: nat]" using ne by auto
  note C = copy_entries_Inr[OF ce this]
  have u: "used m3 g" if "used m g" for g
  proof -
    have "used m1 g" using that A(3,5,6) by (cases "g = f") (auto simp: used_def)
    then show ?thesis using C by (simp add: m2)
  qed
  have o: "frames m3 g = frames m g" if "g \<noteq> res" "g \<noteq> f" "g \<noteq> t" for g
    using C that by (simp add: m2 A(7))
  have s: "frames m2 t j = frames m t j" for j using ne by (simp add: m2 A(7))
  show ?thesis
  proof (rule that[of f])
    show "\<not> used m f" by (rule A(2))
    show "used m3 f" using C A(3) by (simp add: m2)
    show "e = entry f 7" "entry_frame e = f" by fact+
    show "frames m3 res = (frames m res)(i := entry f 7)" using C ne by (simp add: m2 A(7) e)
    show "frames m3 (entry_frame (frames m pd i)) j = shared_entry (frames m (entry_frame (frames m pd i)) j)" if "j < 1024" for j
      using C that s unfolding t_def[symmetric] by simp
    show "frames m3 f j = shared_entry (frames m (entry_frame (frames m pd i)) j)" if "j < 1024" for j
      using C that s unfolding t_def[symmetric] by simp
    show "frames m3 g = frames m g" if "g \<noteq> res" "g \<noteq> f" "g \<noteq> entry_frame (frames m pd i)" for g
      using o that unfolding t_def by blast
    show "used m3 g" if "used m g" for g using u that .
    show "vm_ok m3" using assms(1) C A(5) by (simp add: vm_ok_def m2)
  qed
qed

lemma copy_tables_Inr:
  assumes "copy_tables pd res is m = Inr m'" and "vm_ok m" and "tables_ok pd res is m"
  shows "(\<forall>i \<in> set is. if frames m pd i = 0 then frames m' res i = 0
           else \<exists>f. frames m' res i = entry f 7 \<and> entry_frame (entry f 7) = f \<and> \<not> used m f \<and>
             (\<forall>j < 1024. frames m' f j = shared_entry (frames m (entry_frame (frames m pd i)) j) \<and>
                frames m' (entry_frame (frames m pd i)) j = shared_entry (frames m (entry_frame (frames m pd i)) j))) \<and>
    (\<forall>i. i \<notin> set is \<longrightarrow> frames m' res i = frames m res i) \<and>
    (\<forall>g. used m g \<longrightarrow> used m' g \<and>
       (g \<noteq> res \<longrightarrow> (\<forall>i \<in> set is. frames m pd i \<noteq> 0 \<longrightarrow> g \<noteq> entry_frame (frames m pd i)) \<longrightarrow> frames m' g = frames m g)) \<and> vm_ok m'"
  using assms
proof (induction "is" arbitrary: m)
  case (Cons i "is")
  show ?case
  proof (cases "frames m pd i = 0")
    case True
    then obtain m1 where 1: "wr_frame res i 0 m = Inr m1" and 2: "copy_tables pd res is m1 = Inr m'"
      using Cons.prems(1) by (auto simp: rbind_Inr_conv rd_frame_Inr_conv)
    have m1: "m1 = m\<lparr>frames := (frames m)(res := (frames m res)(i := 0))\<rparr>" using 1 by (simp add: wr_frame_Inr_conv)
    have keep: "frames m1 g = frames m g" if "g \<noteq> res" for g using that by (simp add: m1)
    have pd: "frames m1 pd = frames m pd" using Cons.prems(3) by (intro keep) (simp add: tables_ok_def)
    have ok: "tables_ok pd res is m1" "vm_ok m1"
      using Cons.prems(2,3) by (auto simp: tables_ok_def pd vm_ok_def) (auto simp: m1)
    note I = Cons.IH[OF 2 ok(2,1), unfolded pd]
    have "frames m1 (entry_frame (frames m pd k)) = frames m (entry_frame (frames m pd k))"
      if "k \<in> set is" "frames m pd k \<noteq> 0" for k
      using Cons.prems(3) that by (intro keep) (auto simp: tables_ok_def)
    then show ?thesis using I True Cons.prems(3) by (auto simp: m1 tables_ok_def)
  next
    case False
    then obtain m1 e m2 m3 where 1: "create_table (PG_P OR PG_RWW OR PG_USU) m = Inr (m1, e)"
      "wr_frame res i e m1 = Inr m2" "copy_entries (entry_frame (frames m2 pd i)) (entry_frame e) [0..<1024] m2 = Inr m3"
      and 2: "copy_tables pd res is m3 = Inr m'"
      using Cons.prems(1) by (auto simp: rbind_Inr_conv rd_frame_Inr_conv simp del: upt_Suc split: prod.splits)
    define t where "t = (\<lambda>k. entry_frame (frames m pd k))"
    obtain f where F: "\<not> used m f" "used m3 f" "e = entry f 7" "entry_frame e = f"
      "frames m3 res = (frames m res)(i := entry f 7)"
      "\<And>j. j < 1024 \<Longrightarrow> frames m3 (t i) j = shared_entry (frames m (t i) j)"
      "\<And>j. j < 1024 \<Longrightarrow> frames m3 f j = shared_entry (frames m (t i) j)"
      "\<And>g. g \<noteq> res \<Longrightarrow> g \<noteq> f \<Longrightarrow> g \<noteq> t i \<Longrightarrow> frames m3 g = frames m g"
      "\<And>g. used m g \<Longrightarrow> used m3 g" "vm_ok m3"
      unfolding t_def using copy_table_step[OF Cons.prems(2,3) False 1] by blast
    have T: "used m pd" "used m res" "pd \<noteq> res" "i \<notin> set is" "distinct is"
      "\<And>k. k \<in> set (i # is) \<Longrightarrow> frames m pd k \<noteq> 0 \<Longrightarrow> used m (t k) \<and> t k \<noteq> pd \<and> t k \<noteq> res"
      "\<And>k. k \<in> set is \<Longrightarrow> frames m pd k \<noteq> 0 \<Longrightarrow> t k \<noteq> t i"
      "\<And>k l. k \<in> set is \<Longrightarrow> l \<in> set is \<Longrightarrow> frames m pd k \<noteq> 0 \<Longrightarrow> frames m pd l \<noteq> 0 \<Longrightarrow> k \<noteq> l \<Longrightarrow> t k \<noteq> t l"
      using Cons.prems(3) False by (auto simp: tables_ok_def t_def)
    have ti: "used m (t i)" "t i \<noteq> pd" "t i \<noteq> res" using T(6)[of i] False by auto
    have pd: "frames m3 pd = frames m pd" using F(1) T(1,3) ti(2) by (intro F(8)) auto
    have tk: "frames m3 (t k) = frames m (t k)" if "k \<in> set is" "frames m pd k \<noteq> 0" for k
      using F(1) T(6,7) that by (intro F(8)) auto
    have ok: "tables_ok pd res is m3"
      using T F(9) unfolding tables_ok_def pd t_def by simp
    note I = Cons.IH[OF 2 F(10) ok, unfolded pd, folded t_def]
    have I1: "if frames m pd k = 0 then frames m' res k = 0
           else \<exists>f. frames m' res k = entry f 7 \<and> entry_frame (entry f 7) = f \<and> \<not> used m3 f \<and>
             (\<forall>j < 1024. frames m' f j = shared_entry (frames m3 (t k) j) \<and> frames m' (t k) j = shared_entry (frames m3 (t k) j))"
      if "k \<in> set is" for k
      using I that unfolding t_def by (elim conjE) (drule bspec, assumption+)
    have I2: "frames m' res k = frames m3 res k" if "k \<notin> set is" for k using I that by (elim conjE) blast
    have I3: "used m' g" if "used m3 g" for g using I that by (elim conjE) blast
    have I4: "frames m' g = frames m3 g" if "used m3 g" "g \<noteq> res" "\<forall>k \<in> set is. frames m pd k \<noteq> 0 \<longrightarrow> g \<noteq> t k" for g
      using I that unfolding t_def by (elim conjE) blast
    have I5: "vm_ok m'" using I by (elim conjE)
    have fn: "\<forall>k \<in> set is. frames m pd k \<noteq> 0 \<longrightarrow> f \<noteq> t k" "f \<noteq> res" using F(1) T(2,6) by auto
    have tn: "\<forall>k \<in> set is. frames m pd k \<noteq> 0 \<longrightarrow> t i \<noteq> t k" using T(7) by metis
    have "frames m' f = frames m3 f" by (rule I4[OF F(2) fn(2,1)])
    moreover have "frames m' (t i) = frames m3 (t i)" by (rule I4[OF F(9)[OF ti(1)] ti(3) tn])
    moreover have "frames m' res i = entry f 7" using I2[OF T(4)] F(5) by simp
    ultimately have here: "\<exists>f. frames m' res i = entry f 7 \<and> entry_frame (entry f 7) = f \<and> \<not> used m f \<and>
        (\<forall>j < 1024. frames m' f j = shared_entry (frames m (t i) j) \<and> frames m' (t i) j = shared_entry (frames m (t i) j))"
      using F by (intro exI[of _ f]) simp
    have rest: "if frames m pd k = 0 then frames m' res k = 0
           else \<exists>f. frames m' res k = entry f 7 \<and> entry_frame (entry f 7) = f \<and> \<not> used m f \<and>
             (\<forall>j < 1024. frames m' f j = shared_entry (frames m (t k) j) \<and> frames m' (t k) j = shared_entry (frames m (t k) j))"
      if k: "k \<in> set is" for k
    proof (cases "frames m pd k = 0")
      case True
      then show ?thesis using I1[OF k] by simp
    next
      case False
      then obtain f' where f': "frames m' res k = entry f' 7" "entry_frame (entry f' 7) = f'" "\<not> used m3 f'"
        "\<And>j. j < 1024 \<Longrightarrow> frames m' f' j = shared_entry (frames m3 (t k) j)"
        "\<And>j. j < 1024 \<Longrightarrow> frames m' (t k) j = shared_entry (frames m3 (t k) j)"
        using I1[OF k] by auto
      have "\<not> used m f'" using f'(3) F(9) by blast
      then show ?thesis using False f' tk[OF k False] by auto
    qed
    have "used m' g \<and> (g \<noteq> res \<longrightarrow> (\<forall>k \<in> set (i # is). frames m pd k \<noteq> 0 \<longrightarrow> g \<noteq> t k) \<longrightarrow> frames m' g = frames m g)"
      if "used m g" for g
    proof -
      have n: "g \<noteq> f" using F(1) that by blast
      have "frames m' g = frames m g" if "g \<noteq> res" "\<forall>k \<in> set (i # is). frames m pd k \<noteq> 0 \<longrightarrow> g \<noteq> t k"
        using I4[OF F(9)[OF \<open>used m g\<close>] that(1)] F(8)[OF that(1) n] that(2) False by simp
      then show ?thesis using I3[OF F(9)[OF \<open>used m g\<close>]] by blast
    qed
    moreover have "frames m' res k = frames m res k" if "k \<notin> set (i # is)" for k using I2 F(5) that by simp
    ultimately show ?thesis
      using here rest False I5 unfolding t_def by simp
  qed
qed simp


lemma copy_kernel_Inr:
  assumes "copy_kernel res is m = Inr m'" and "res \<noteq> PAGE_DIR_FRAME"
  shows "(\<forall>i \<in> set is. frames m' res i = frames m PAGE_DIR_FRAME i) \<and>
    (\<forall>i. i \<notin> set is \<longrightarrow> frames m' res i = frames m res i) \<and>
    (\<forall>g. g \<noteq> res \<longrightarrow> frames m' g = frames m g) \<and> mem_map m' = mem_map m"
  using assms
proof (induction "is" arbitrary: m)
  case (Cons i "is")
  then obtain m1 where 1: "wr_frame res i (frames m PAGE_DIR_FRAME i) m = Inr m1" and 2: "copy_kernel res is m1 = Inr m'"
    by (auto simp: rbind_Inr_conv rd_frame_Inr_conv)
  have m1: "m1 = m\<lparr>frames := (frames m)(res := (frames m res)(i := frames m PAGE_DIR_FRAME i))\<rparr>"
    using 1 by (simp add: wr_frame_Inr_conv)
  have I: "(\<forall>i \<in> set is. frames m' res i = frames m PAGE_DIR_FRAME i)"
    "(\<forall>k. k \<notin> set is \<longrightarrow> frames m' res k = frames m1 res k)"
    "(\<forall>g. g \<noteq> res \<longrightarrow> frames m' g = frames m1 g)" "mem_map m' = mem_map m1"
    using Cons.IH[OF 2 Cons.prems(2)] Cons.prems(2) by (simp_all add: m1)
  show ?case using I by (cases "i \<in> set is") (simp_all add: m1)
qed simp

lemma copy_page_shares:
  assumes "copy_page pd res m = Inr m'" and "vm_ok m" and "tables_ok pd res [0..<768] m"
    and "used m PAGE_DIR_FRAME" and "PAGE_DIR_FRAME \<noteq> res"
    and "\<forall>i < 768. frames m pd i \<noteq> 0 \<longrightarrow> bit (frames m pd i) 0 \<and> entry_frame (frames m pd i) \<noteq> PAGE_DIR_FRAME"
    and "PDINDEX a < 768"
  shows "maps m' pd a = maps m pd a \<and> maps m' res a = maps m pd a \<and> \<not> writable m' pd a \<and> \<not> writable m' res a \<and>
    (\<forall>i. 768 \<le> i \<longrightarrow> i < 1024 \<longrightarrow> frames m' res i = frames m PAGE_DIR_FRAME i)"
proof -
  let ?i = "PDINDEX a"
  obtain m1 where 1: "copy_tables pd res [0..<768] m = Inr m1" and 2: "copy_kernel res [768..<1024] m1 = Inr m'"
    using assms(1) unfolding copy_page_def by (rule rbindE)
  note T = copy_tables_Inr[OF 1 assms(2,3), unfolded set_upt]
  have T1: "if frames m pd i = 0 then frames m1 res i = 0
      else \<exists>f. frames m1 res i = entry f 7 \<and> entry_frame (entry f 7) = f \<and> \<not> used m f \<and>
        (\<forall>j < 1024. frames m1 f j = shared_entry (frames m (entry_frame (frames m pd i)) j) \<and>
           frames m1 (entry_frame (frames m pd i)) j = shared_entry (frames m (entry_frame (frames m pd i)) j))" if "i < 768" for i
    by (rule bspec[OF conjunct1[OF T]]) (use that in simp)
  have T2: "frames m1 g = frames m g" if "used m g" "g \<noteq> res" "\<forall>i < 768. frames m pd i \<noteq> 0 \<longrightarrow> g \<noteq> entry_frame (frames m pd i)" for g
  proof -
    note conjunct2[OF spec[where x = g, OF conjunct1[OF conjunct2[OF conjunct2[OF T]]], THEN mp, OF that(1)], rule_format, OF that(2)]
    then show ?thesis using that(3) by simp
  qed
  note k = copy_kernel_Inr[OF 2 assms(5)[symmetric], unfolded set_upt]
  have K: "frames m' res i = frames m1 PAGE_DIR_FRAME i" if "768 \<le> i" "i < 1024" for i
    using k that by simp
  have K2: "frames m' res ?i = frames m1 res ?i" "\<And>g. g \<noteq> res \<Longrightarrow> frames m' g = frames m1 g"
    using k assms(7) by simp_all
  have "\<forall>i < 768. frames m pd i \<noteq> 0 \<longrightarrow> PAGE_DIR_FRAME \<noteq> entry_frame (frames m pd i)"
    using assms(6) by (intro allI impI) (drule spec, auto)
  note D = T2[OF assms(4,5) this]
  have t: "used m pd" "used m res" "pd \<noteq> res"
    "frames m pd i \<noteq> 0 \<Longrightarrow> i < 768 \<Longrightarrow> entry_frame (frames m pd i) \<noteq> pd \<and> entry_frame (frames m pd i) \<noteq> res" for i
    using assms(3) unfolding tables_ok_def set_upt by auto
  have "\<forall>i < 768. frames m pd i \<noteq> 0 \<longrightarrow> pd \<noteq> entry_frame (frames m pd i)"
    by (intro allI impI) (rule conjunct1[OF t(4), THEN not_sym])
  note P = trans[OF K2(2)[OF t(3)] T2[OF t(1,3) this]]
  have "maps m' pd a = maps m pd a \<and> maps m' res a = maps m pd a \<and> \<not> writable m' pd a \<and> \<not> writable m' res a"
  proof (cases "frames m pd ?i = 0")
    case True
    then have "frames m' res ?i = 0" using T1[OF assms(7)] K2(1) by simp
    with True show ?thesis by (simp add: maps_def writable_def P)
  next
    case False
    then obtain f where f: "frames m' res ?i = entry f 7" "entry_frame (entry f 7) = f" "\<not> used m f"
      and e: "\<And>j. j < 1024 \<Longrightarrow> frames m1 f j = shared_entry (frames m (entry_frame (frames m pd ?i)) j)"
        "\<And>j. j < 1024 \<Longrightarrow> frames m1 (entry_frame (frames m pd ?i)) j = shared_entry (frames m (entry_frame (frames m pd ?i)) j)"
      using T1[OF assms(7)] K2(1) by auto
    have fr: "f \<noteq> res" "entry_frame (frames m pd ?i) \<noteq> res" using f(3) t(2) t(4)[OF False assms(7)] by auto
    have "pte_at m' pd a = shared_entry (pte_at m pd a)" "pte_at m' res a = shared_entry (pte_at m pd a)"
      unfolding pte_at_def P f(1,2) K2(2)[OF fr(1)] K2(2)[OF fr(2)] using e PTINDEX_less by simp_all
    moreover have "bit (entry f 7) 0" by (simp add: entry_def bit_or_iff)
    moreover have "bit (frames m pd ?i) 0" using False assms(6,7) by blast
    ultimately show ?thesis by (simp add: maps_def writable_def P f(1) shared_entry_bits)
  qed
  then show ?thesis using K D by simp
qed


lemma copy_entries_covered:
  assumes "src < length (mem_map m)" and "dst < length (mem_map m)" and "src \<noteq> dst"
    and "\<And>j. frames m src j \<noteq> 0 \<Longrightarrow> entry_frame (frames m src j) < length (mem_map m)"
  shows "\<exists>m'. copy_entries src dst js m = Inr m'"
  using assms
proof (induction js arbitrary: m)
  case (Cons j js)
  show ?case
  proof (cases "frames m src j = 0")
    case True
    have "\<exists>m'. copy_entries src dst js (m\<lparr>frames := (frames m)(dst := (frames m dst)(j := 0))\<rparr>) = Inr m'"
      by (rule Cons.IH) (use Cons.prems in auto)
    then show ?thesis using True Cons.prems by (simp add: rd_frame_def wr_frame_def)
  next
    case False
    let ?e = "shared_entry (frames m src j)"
    let ?g = "\<lambda>p. p\<lparr>pg_count := pg_count p + 1, pg_flags := pg_flags p OR MP_COW\<rparr>"
    let ?m = "m\<lparr>frames := (frames m)(src := (frames m src)(j := ?e), dst := (frames m dst)(j := ?e)),
        mem_map := (mem_map m)[entry_frame ?e := ?g (mem_map m ! entry_frame ?e)]\<rparr>"
    have "entry_frame (frames m src j) < length (mem_map m)" using Cons.prems(4) False by simp
    moreover have "\<exists>m'. copy_entries src dst js ?m = Inr m'"
      by (rule Cons.IH) (use Cons.prems False in \<open>auto split: if_splits\<close>)
    ultimately show ?thesis using False Cons.prems(1,2,3)
      by (simp add: rd_frame_def wr_frame_def upd_page_def arr_get_def shared_entry_def[symmetric])
  qed
qed simp

lemma copy_tables_empty:
  assumes "pd < length (mem_map m)" and "res < length (mem_map m)" and "\<forall>i \<in> set is. frames m pd i = 0"
  shows "\<exists>m'. copy_tables pd res is m = Inr m' \<and> mem_map m' = mem_map m \<and> (\<forall>g. g \<noteq> res \<longrightarrow> frames m' g = frames m g) \<and>
    (\<forall>i \<in> set is. frames m' res i = 0) \<and> (\<forall>i. i \<notin> set is \<longrightarrow> frames m' res i = frames m res i)"
  using assms
proof (induction "is" arbitrary: m)
  case (Cons i "is")
  let ?m = "m\<lparr>frames := (frames m)(res := (frames m res)(i := 0))\<rparr>"
  have "\<forall>k \<in> set is. frames ?m pd k = 0" using Cons.prems(3) by auto
  then obtain m' where "copy_tables pd res is ?m = Inr m'" "mem_map m' = mem_map m" "\<forall>g. g \<noteq> res \<longrightarrow> frames m' g = frames m g"
    "\<forall>i \<in> set is. frames m' res i = 0" "\<forall>k. k \<notin> set is \<longrightarrow> frames m' res k = frames ?m res k"
    using Cons.IH[where m = ?m] Cons.prems(1,2) by fastforce
  then show ?case using Cons.prems by (intro exI[of _ m']) (cases "i \<in> set is"; simp add: rd_frame_def wr_frame_def)
qed simp

lemma copy_kernel_covered:
  assumes "PAGE_DIR_FRAME < length (mem_map m)" and "res < length (mem_map m)"
  shows "\<exists>m'. copy_kernel res is m = Inr m'"
  using assms
proof (induction "is" arbitrary: m)
  case (Cons i "is")
  then show ?case by (simp add: rd_frame_def wr_frame_def)
qed simp

text \<open>
  After a directory has been copied, an address of the user's half is mapped to the same
  frame in both directories and can be written through neither of them, so the next write
  faults; the kernel's half is that of the first directory.
\<close>

theorem copied_space_is_shared:
  assumes "copy_page pd res m = Inr m'" and "vm_ok m" and "tables_ok pd res [0..<768] m"
    and "used m PAGE_DIR_FRAME" and "PAGE_DIR_FRAME \<noteq> res"
    and "\<forall>i < 768. frames m pd i \<noteq> 0 \<longrightarrow> bit (frames m pd i) 0 \<and> entry_frame (frames m pd i) \<noteq> PAGE_DIR_FRAME"
    and "PDINDEX a < 768"
  shows "maps m' pd a = maps m pd a \<and> maps m' res a = maps m pd a \<and> \<not> writable m' pd a \<and> \<not> writable m' res a \<and>
    (\<forall>i. 768 \<le> i \<longrightarrow> i < 1024 \<longrightarrow> frames m' res i = frames m PAGE_DIR_FRAME i)"
  using assms by (rule copy_page_shares)

text \<open>A free frame is enough for an allocation.\<close>

lemma alloc_frame_free:
  assumes "f < length (mem_map m)" and "\<not> used m f"
  shows "\<exists>m' g. alloc_frame m = Inr (m', g)"
proof -
  have "\<not> (\<forall>p \<in> set (mem_map m). in_use p)" using assms nth_mem[of f "mem_map m"] by (auto simp: used_def)
  then obtain ps a where "get_free_page (mem_map m) = Inr (ps, a)"
    using get_free_page_Inl[of "mem_map m"] by (cases "get_free_page (mem_map m)") auto
  then show ?thesis by (simp add: alloc_frame_def)
qed

text \<open>
  A directory in frame 2 with a table in frame 3 for the page in frame 4; frame 6 is the directory
  of the copy, the frames \<open>fr\<close> are free.
\<close>

definition space_vm :: "nat set \<Rightarrow> vm" where
  "space_vm fr = \<lparr>mem_map = map (\<lambda>i. if i \<in> fr then \<lparr>pg_count = 0, pg_flags = 0\<rparr> else \<lparr>pg_count = 1, pg_flags = 1\<rparr>) [0..<512],
      frames = (\<lambda>f i. if f = 2 \<and> i = 0 then entry 3 7 else if f = 3 \<and> i = 0 then entry 4 7 else 0)\<rparr>"

lemma space_used: "used (space_vm fr) f \<longleftrightarrow> f < 512 \<and> f \<notin> fr"
  by (cases "f < 512") (simp_all add: used_def in_use_def space_vm_def MP_USE_def del: upt_Suc upt_rec_numeral)

lemma space_length: "length (mem_map (space_vm fr)) = 512"
  by (simp add: space_vm_def del: upt_Suc upt_rec_numeral)

lemma space_count: "f < 512 \<Longrightarrow> pg_count (mem_map (space_vm fr) ! f) = (if f \<in> fr then 0 else 1)"
  by (simp add: space_vm_def del: upt_Suc upt_rec_numeral)

lemma space_phys: "frames (space_vm fr) = (\<lambda>f i. if f = 2 \<and> i = 0 then entry 3 7 else if f = 3 \<and> i = 0 then entry 4 7 else 0)"
  by (simp add: space_vm_def del: upt_Suc upt_rec_numeral)

lemma entry_3_4: "entry_frame (entry 3 7) = 3" "entry_frame (entry 4 7) = 4" "entry 3 7 \<noteq> 0" "entry 4 7 \<noteq> 0" "bit (entry 3 7) 0"
proof -
  show "entry_frame (entry 3 7) = 3" "entry_frame (entry 4 7) = 4" "bit (entry 3 7) 0"
    by (simp_all add: entry_frame_entry)
  show "entry 3 7 \<noteq> 0" "entry 4 7 \<noteq> 0" by (simp_all add: entry_def PAGE_SIZE_def)
qed

text \<open>The copy takes one of the free frames, and the page is counted twice after it.\<close>

lemma copy_page_space:
  assumes "fr \<noteq> {}" and "fr \<subseteq> {7..<511} \<union> {5}"
  shows "\<exists>m' f. copy_page 2 6 (space_vm fr) = Inr m' \<and> f \<in> fr \<and> (\<forall>g. used m' g \<longleftrightarrow> g < 512 \<and> g \<notin> fr - {f}) \<and>
    pg_count (mem_map m' ! 4) = 2 \<and> length (mem_map m') = 512"
proof -
  obtain x where x: "x \<in> fr" "x < 512" using assms by fastforce
  then obtain m1 f where m1: "alloc_frame (space_vm fr) = Inr (m1, f)"
    using alloc_frame_free[of x "space_vm fr"] by (auto simp: space_used space_length)
  note A = alloc_frame_Inr[OF m1]
  have f: "f \<in> fr" "f < 512" using A(1,2) by (simp_all add: space_used space_length)
  then have ne: "f \<noteq> 2" "f \<noteq> 3" "f \<noteq> 4" "f \<noteq> 6" using assms(2) by auto
  have ef: "entry_frame (entry f 7) = f" using f(2) by (intro entry_frame_entry(1)) simp_all
  let ?m2 = "m1\<lparr>frames := (frames m1)(6 := (frames m1 6)(0 := entry f 7))\<rparr>"
  have l: "length (mem_map ?m2) = 512" using A(5) by (simp add: space_length)
  have p: "frames ?m2 2 0 = entry 3 7" "frames ?m2 2 i = frames (space_vm fr) 2 i" "frames ?m2 3 = frames (space_vm fr) 3" for i
    using A(7) ne by (simp_all add: space_phys)
  have "\<exists>m3. copy_entries 3 f [0..<1024] ?m2 = Inr m3"
    by (rule copy_entries_covered) (use l p(3) f(2) ne in \<open>auto simp: space_phys entry_3_4 split: if_splits\<close>)
  then obtain m3 where m3: "copy_entries 3 f [0..<1024] ?m2 = Inr m3" by blast
  note C = copy_entries_Inr[OF m3 ne(2)[symmetric] distinct_upt]
  have c: "length (mem_map m3) = 512" "frames m3 2 = frames ?m2 2" using C l ne by simp_all
  have u3: "used m3 g \<longleftrightarrow> g < 512 \<and> g \<notin> fr - {f}" for g
  proof -
    have "used m3 g = used m1 g" using C by simp
    also have "\<dots> \<longleftrightarrow> g < 512 \<and> g \<notin> fr - {f}"
      using A(1,3,5,6) space_used[of fr g] by (cases "g = f") (auto simp: used_def space_length)
    finally show ?thesis .
  qed
  have "filter (\<lambda>j. frames ?m2 3 j \<noteq> 0 \<and> entry_frame (frames ?m2 3 j) = 4) [0..<1024] = [0]"
  proof -
    have e: "(frames ?m2 3 j \<noteq> 0 \<and> entry_frame (frames ?m2 3 j) = 4) = (j = 0)" for j
      unfolding p(3) by (simp add: space_phys entry_3_4)
    have "[0 :: nat..<1024] = 0 # [1..<1024]" unfolding One_nat_def by (rule upt_conv_Cons) (rule zero_less_numeral)
    then show ?thesis unfolding e by (simp add: filter_empty_conv del: upt_Suc upt_rec_numeral)
  qed
  moreover have "pg_count (mem_map ?m2 ! 4) = 1"
    using A(6) ne(3) assms(2) space_count[of 4 fr] by auto
  ultimately have cnt: "pg_count (mem_map m3 ! 4) = 2" using C l by simp
  have "\<forall>i \<in> set [1..<768]. frames m3 2 i = 0"
    unfolding c(2) p(2) set_upt by (simp add: space_phys)
  then obtain m4 where m4: "copy_tables 2 6 [1..<768] m3 = Inr m4" "mem_map m4 = mem_map m3"
    using copy_tables_empty[of 2 m3 6 "[1..<768]"] c(1) by auto
  have t: "copy_tables 2 6 (0 # [1..<768]) (space_vm fr) = Inr m4"
  proof -
    have "create_table (PG_P OR PG_RWW OR PG_USU) (space_vm fr) = Inr (m1, entry f 7)"
      by (simp add: create_table_def m1 attrs_small)
    moreover have "rd_frame (space_vm fr) 2 0 = Inr (entry 3 7)" by (simp add: rd_frame_def space_length space_phys)
    moreover have "wr_frame 6 0 (entry f 7) m1 = Inr ?m2" using l by (simp add: wr_frame_def)
    moreover have "rd_frame ?m2 2 0 = Inr (entry 3 7)" using l p(1) by (simp add: rd_frame_def)
    ultimately show ?thesis by (simp add: entry_3_4 ef m3 m4(1)[unfolded One_nat_def] del: upt_Suc upt_rec_numeral)
  qed
  have "[0..<768] = 0 # [1..<768]" unfolding One_nat_def by (rule upt_conv_Cons) (rule zero_less_numeral)
  moreover obtain m5 where m5: "copy_kernel 6 [768..<1024] m4 = Inr m5"
    using copy_kernel_covered[of m4 6 "[768..<1024]"] m4(2) c(1) by (auto simp: PAGE_DIR_FRAME_def PAGE_TABLE_FRAME_def)
  ultimately have "copy_page 2 6 (space_vm fr) = Inr m5" unfolding copy_page_def using t by (simp only: rbind_simps)
  moreover have "mem_map m5 = mem_map m3"
    using copy_kernel_Inr[OF m5] m4(2) by (simp add: PAGE_DIR_FRAME_def PAGE_TABLE_FRAME_def)
  ultimately show ?thesis using f(1) u3 cnt c(1) by (intro exI[of _ m5] exI[of _ f]) (simp add: used_def)
qed

lemma space_maps: "maps (space_vm fr) 2 0 = Some 4"
  by (simp add: maps_def pte_at_def sample_index space_phys entry_3_4 entry_frame_entry bit_numeral_rec)

lemma space_copyable:
  assumes "fr \<subseteq> {7..<511} \<union> {5}"
  shows "vm_ok (space_vm fr)" and "tables_ok 2 6 [0..<768] (space_vm fr)" and "used (space_vm fr) PAGE_DIR_FRAME"
    and "PAGE_DIR_FRAME \<noteq> 6" and "\<forall>i < 768. frames (space_vm fr) 2 i \<noteq> 0 \<longrightarrow>
        bit (frames (space_vm fr) 2 i) 0 \<and> entry_frame (frames (space_vm fr) 2 i) \<noteq> PAGE_DIR_FRAME"
proof -
  show "vm_ok (space_vm fr)" by (simp add: vm_ok_def space_length)
  show "tables_ok 2 6 [0..<768] (space_vm fr)"
    unfolding tables_ok_def set_upt using assms by (auto simp: space_used space_phys entry_3_4)
  show "used (space_vm fr) PAGE_DIR_FRAME" "PAGE_DIR_FRAME \<noteq> 6"
    using assms by (auto simp: space_used PAGE_DIR_FRAME_def PAGE_TABLE_FRAME_def)
  show "\<forall>i < 768. frames (space_vm fr) 2 i \<noteq> 0 \<longrightarrow>
        bit (frames (space_vm fr) 2 i) 0 \<and> entry_frame (frames (space_vm fr) 2 i) \<noteq> PAGE_DIR_FRAME"
    by (simp add: space_phys entry_3_4 PAGE_DIR_FRAME_def PAGE_TABLE_FRAME_def)
qed

theorem copied_space_is_shared_witness:
  "\<exists>m'. copy_page 2 6 (space_vm {5}) = Inr m' \<and> maps m' 2 0 = Some 4 \<and> maps m' 6 0 = Some 4 \<and> \<not> writable m' 6 0"
proof -
  obtain m' where m': "copy_page 2 6 (space_vm {5}) = Inr m'" using copy_page_space[of "{5}"] by auto
  have "{5 :: nat} \<subseteq> {7..<511} \<union> {5}" by simp
  note c = space_copyable[OF this]
  have "PDINDEX 0 < 768" by (simp add: sample_index)
  from copied_space_is_shared[OF m' c this] show ?thesis using m' by (simp add: space_maps)
qed

end
