(* ===== verification/Vfs.thy ===== *)
theory Vfs
  imports CString
begin

text \<open>
  fs/file_op.c, the part that deals with names, and fs/rootfs/super.c: directory entries,
  inodes, path resolution, directories, mounting, the root and working directory of the
  current thread.

  Objects that \<^verbatim>\<open>kzmalloc\<close> hands out (directory entries, super blocks) live in growing lists
  and a pointer to one is its index; a null pointer is \<open>None\<close>. The list of the children of a
  directory is kept as the HOL list of what \<^verbatim>\<open>list_for_each\<close> visits, so \<^verbatim>\<open>list_add\<close>, which
  links the new node right after the head, conses. The tables of function pointers of the
  built kernel are those of the root file system, so a pointer to a table is the name of
  the table. A path is the list of bytes of the object the pointer points into. An \<^verbatim>\<open>int\<close> is
  a 32-bit word, read with \<open>sint\<close> where the code compares it.
\<close>

unbundle bit_operations_syntax

subsection \<open>Data\<close>

datatype fop_table = Rootfs_f_op
datatype iop_table = Rootfs_inode_op
datatype mount_fn = Rootfs_mount

definition FILE_MODE_REG :: u16 where "FILE_MODE_REG = 0"
definition FILE_MODE_BLK :: u16 where "FILE_MODE_BLK = 1"
definition FILE_MODE_CHR :: u16 where "FILE_MODE_CHR = 2"
definition FILE_MODE_DIR :: u16 where "FILE_MODE_DIR = 3"

definition INODE_TABLE_MAX_COUNT :: nat where "INODE_TABLE_MAX_COUNT = 2048"
definition PROC_FILES_MAX_COUNT :: nat where "PROC_FILES_MAX_COUNT = 1024"
definition FILE_DESC_TABLE_MAX_COUNT :: nat where "FILE_DESC_TABLE_MAX_COUNT = 2048"

definition ENOENT :: u32 where "ENOENT = 2"
definition ENOTDIR :: u32 where "ENOTDIR = 20"

record file_system_type =
  fs_name :: "u8 list"
  fs_mount :: mount_fn
  sb_table :: "nat option"

record super_block =
  sb_dev_num :: u32
  root_dir :: "nat option"
  root_inode :: "nat option"
  sb_fs_type :: "nat option"

record inode =
  i_mode :: u16
  i_size :: u32
  i_dev_num :: u32
  i_num :: u32
  i_used_count :: u32
  f_op :: "fop_table option"
  i_sb :: "nat option"
  inode_op :: "iop_table option"

record dir_entry =
  d_name :: "u8 list"
  d_inode :: "nat option"
  d_sb :: "nat option"
  d_parent :: "nat option"
  d_children :: "nat list"
  d_dev_num :: u32
  is_mounted :: bool
  mounted_dir :: "nat option"

record file_descriptor =
  fd_mode :: u32
  pos :: u32
  fd_used_count :: u32
  fd_inode :: "nat option"
  fd_op :: "fop_table option"

text \<open>
  The globals of fs/file_op.c, with the registered file systems in list order, and the
  fields of \<^verbatim>\<open>current_thread\<close> that the code reads.
\<close>

record vfs =
  file_system_table :: "file_system_type list"
  sblocks :: "super_block list"
  inode_table :: "inode list"
  inode_num :: nat
  dentries :: "dir_entry list"
  f_desc_table :: "file_descriptor list"
  file_table :: "nat option list"
  root :: "nat option"
  pwd :: "nat option"

subsection \<open>Pointers\<close>

definition deref :: "'a list \<Rightarrow> nat option \<Rightarrow> 'a res" where
  "deref xs p = (case p of None \<Rightarrow> Inl NullDeref | Some i \<Rightarrow> arr_get xs i)"

definition dent :: "vfs \<Rightarrow> nat option \<Rightarrow> dir_entry res" where
  "dent st p = deref (dentries st) p"

definition inode_at :: "vfs \<Rightarrow> nat option \<Rightarrow> inode res" where
  "inode_at st p = deref (inode_table st) p"

text \<open>\<^verbatim>\<open>dir->inode\<close>, followed.\<close>

definition inode_of :: "vfs \<Rightarrow> nat option \<Rightarrow> inode res" where
  "inode_of st p = rbind (dent st p) (\<lambda>d. inode_at st (d_inode d))"

definition put_dent :: "nat \<Rightarrow> (dir_entry \<Rightarrow> dir_entry) \<Rightarrow> vfs \<Rightarrow> vfs" where
  "put_dent i f st = st\<lparr>dentries := (dentries st)[i := f (dentries st ! i)]\<rparr>"

definition put_inode :: "nat \<Rightarrow> (inode \<Rightarrow> inode) \<Rightarrow> vfs \<Rightarrow> vfs" where
  "put_inode i f st = st\<lparr>inode_table := (inode_table st)[i := f (inode_table st ! i)]\<rparr>"

subsection \<open>Allocation of inodes, super blocks and directory entries\<close>

definition zero_inode :: inode where
  "zero_inode = \<lparr>i_mode = 0, i_size = 0, i_dev_num = 0, i_num = 0, i_used_count = 0,
     f_op = None, i_sb = None, inode_op = None\<rparr>"

definition zero_dir_entry :: dir_entry where
  "zero_dir_entry = \<lparr>d_name = replicate 256 0, d_inode = None, d_sb = None, d_parent = None,
     d_children = [], d_dev_num = 0, is_mounted = False, mounted_dir = None\<rparr>"

text \<open>The index into the inode table is not checked.\<close>

definition get_inode :: "vfs \<Rightarrow> (vfs \<times> nat) res" where
  "get_inode st =
     rmap (\<lambda>tbl. (st\<lparr>inode_table := tbl, inode_num := Suc (inode_num st)\<rparr>, inode_num st))
       (arr_set (inode_table st) (inode_num st) (zero_inode\<lparr>i_num := of_nat (inode_num st)\<rparr>))"

definition get_block :: "u32 \<Rightarrow> vfs \<Rightarrow> vfs \<times> nat" where
  "get_block dev st =
     (st\<lparr>sblocks := sblocks st @
           [\<lparr>sb_dev_num = dev, root_dir = None, root_inode = None, sb_fs_type = None\<rparr>]\<rparr>,
      length (sblocks st))"

definition get_dir :: "vfs \<Rightarrow> vfs \<times> nat" where
  "get_dir st = (st\<lparr>dentries := dentries st @ [zero_dir_entry]\<rparr>, length (dentries st))"

subsection \<open>The root file system\<close>

definition register_filesystem :: "file_system_type \<Rightarrow> vfs \<Rightarrow> vfs" where
  "register_filesystem fs st = st\<lparr>file_system_table := file_system_table st @ [fs]\<rparr>"

definition rootfs_fs_type :: file_system_type where
  "rootfs_fs_type = \<lparr>fs_name = [114, 111, 111, 116, 102, 115, 0], fs_mount = Rootfs_mount, sb_table = None\<rparr>"

definition init_rootfs :: "vfs \<Rightarrow> vfs" where
  "init_rootfs st = register_filesystem rootfs_fs_type st"

definition rootfs_mount :: "nat \<Rightarrow> u32 \<Rightarrow> vfs \<Rightarrow> (vfs \<times> nat option) res" where
  "rootfs_mount fs dev st =
     (case get_block 0 st of (st1, sb) \<Rightarrow>
      let st2 = st1\<lparr>file_system_table :=
                      (file_system_table st1)[fs := (file_system_table st1 ! fs)\<lparr>sb_table := Some sb\<rparr>],
                    sblocks := (sblocks st1)[sb := (sblocks st1 ! sb)\<lparr>sb_fs_type := Some fs\<rparr>]\<rparr>
      in rbind (get_inode st2) (\<lambda>(st3, ni).
           let dev0 = sb_dev_num (sblocks st3 ! sb);
               st4 = put_inode ni (\<lambda>i. i\<lparr>i_sb := Some sb, i_dev_num := dev0, f_op := Some Rootfs_f_op,
                        inode_op := Some Rootfs_inode_op, i_mode := FILE_MODE_DIR\<rparr>) st3
           in case get_dir st4 of (st5, nd) \<Rightarrow>
                let st6 = put_dent nd (\<lambda>d. d\<lparr>d_name := (d_name d)[0 := 47], d_dev_num := dev0,
                             d_inode := Some ni, d_parent := Some nd, d_sb := Some sb\<rparr>) st5
                in Inr (st6\<lparr>sblocks := (sblocks st6)[sb := (sblocks st6 ! sb)
                               \<lparr>root_dir := Some nd, root_inode := Some ni\<rparr>]\<rparr>, Some nd)))"

text \<open>
  The lookup of the root file system reports success and does not store a result: the
  second component, what is written through \<^verbatim>\<open>res_dir\<close>, is \<open>None\<close>.
\<close>

definition rootfs_lookup :: "vfs \<Rightarrow> nat option \<Rightarrow> u8 list \<Rightarrow> nat \<Rightarrow> (u32 \<times> nat option option) res" where
  "rootfs_lookup st dir name l = Inr (0, None)"

fun call_lookup :: "iop_table \<Rightarrow> vfs \<Rightarrow> nat option \<Rightarrow> u8 list \<Rightarrow> nat \<Rightarrow> (u32 \<times> nat option option) res" where
  "call_lookup Rootfs_inode_op st dir name l = rootfs_lookup st dir name l"

fun call_mount :: "mount_fn \<Rightarrow> nat \<Rightarrow> u32 \<Rightarrow> vfs \<Rightarrow> (vfs \<times> nat option) res" where
  "call_mount Rootfs_mount fs dev st = rootfs_mount fs dev st"

subsection \<open>Looking up a name in a directory\<close>

text \<open>\<^verbatim>\<open>while (tmp->is_mounted) tmp = tmp->mounted_dir;\<close>\<close>

partial_function (option) follow_mounts :: "vfs \<Rightarrow> nat option \<Rightarrow> nat option res option" where
  "follow_mounts st t =
     (case dent st t of
        Inl e \<Rightarrow> Some (Inl e)
      | Inr d \<Rightarrow> if is_mounted d then follow_mounts st (mounted_dir d) else Some (Inr t))"

definition topmost :: "vfs \<Rightarrow> nat option \<Rightarrow> nat option res" where
  "topmost st t = rbind (terminates (follow_mounts st t)) (\<lambda>r. r)"

text \<open>The first child whose name \<^verbatim>\<open>strcmp\<close> finds equal to the \<^verbatim>\<open>len\<close> bytes of the name.\<close>

fun find_child :: "vfs \<Rightarrow> u8 list \<Rightarrow> nat \<Rightarrow> nat list \<Rightarrow> nat option res" where
  "find_child st name l [] = Inr None"
| "find_child st name l (c # cs) =
     rbind (dent st (Some c)) (\<lambda>d.
     rbind (ld_bytes name 0 l) (\<lambda>tmp.
     rbind (strcmp_loop (tmp @ [0]) (d_name d)) (\<lambda>r.
       if r = 0 then Inr (Some c) else find_child st name l cs)))"

definition lookup :: "vfs \<Rightarrow> nat option \<Rightarrow> u8 list \<Rightarrow> nat \<Rightarrow> (u32 \<times> nat option option) res" where
  "lookup st dir name l =
     (if l = 1 \<and> name ! 0 = 46 then Inr (0, Some dir)
      else if l = 2 \<and> name ! 0 = 46 \<and> name ! 1 = 46 then
        rmap (\<lambda>d. (0, Some (d_parent d))) (dent st dir)
      else if l = 0 then Inr (0, Some dir)
      else rbind (dent st dir) (\<lambda>d.
           rbind (find_child st name l (d_children d)) (\<lambda>m.
             case m of
               Some c \<Rightarrow> rmap (\<lambda>t. (0, Some t)) (topmost st (Some c))
             | None \<Rightarrow>
                 rbind (inode_at st (d_inode d)) (\<lambda>i.
                   case inode_op i of
                     None \<Rightarrow> Inl NullDeref
                   | Some t \<Rightarrow> call_lookup t st dir name l))))"

subsection \<open>Resolving a path\<close>

text \<open>
  The inner loop: the length of the component, the byte that ended it, and the rest of the
  path after that byte.
\<close>

fun scan_name :: "u8 list \<Rightarrow> (nat \<times> u8 \<times> u8 list) res" where
  "scan_name [] = Inl OutOfBounds"
| "scan_name (c # cs) =
     (if c \<noteq> 0 \<and> c \<noteq> 47 then rmap (\<lambda>(n, e, r). (Suc n, e, r)) (scan_name cs)
      else Inr (0, c, cs))"

lemma scan_name_shorter: "scan_name p = Inr (n, e, r) \<Longrightarrow> length r < length p"
  by (induction p arbitrary: n) (auto split: if_splits simp: rmap_Inr_conv)

text \<open>
  The outer loop of \<^verbatim>\<open>get_parent_dir_entry\<close>. \<open>mid\<close> is the local \<^verbatim>\<open>mid_dir\<close>, \<open>None\<close> as long as it
  is not assigned: it keeps its old value when \<^verbatim>\<open>lookup\<close> succeeds without storing a result.
  The result is the error code and, when it is 0, \<^verbatim>\<open>nd->dir\<close>, \<^verbatim>\<open>nd->last_name\<close> and \<^verbatim>\<open>nd->last_len\<close>.
\<close>

function walk :: "vfs \<Rightarrow> nat option \<Rightarrow> nat option option \<Rightarrow> u8 list \<Rightarrow>
             (u32 \<times> (nat option \<times> u8 list \<times> nat) option) res" where
  "walk st dir mid path =
     rbind (scan_name path) (\<lambda>(l, c, rest).
       if c = 0 then Inr (0, Some (dir, path, l))
       else rbind (lookup st dir path l) (\<lambda>(err, out).
              if err \<noteq> 0 then Inr (err, None)
              else case (case out of None \<Rightarrow> mid | Some d \<Rightarrow> Some d) of
                     None \<Rightarrow> Inl Uninit
                   | Some d \<Rightarrow> walk st d (Some d) rest))"
  by pat_completeness auto

termination
  by (relation "measure (\<lambda>(st, dir, mid, path). length path)") (auto dest: scan_name_shorter)

declare walk.simps [simp del]

definition get_parent_dir_entry :: "vfs \<Rightarrow> u8 list \<Rightarrow> nat option \<Rightarrow>
    (u32 \<times> (nat option \<times> u8 list \<times> nat) option) res" where
  "get_parent_dir_entry st path base =
     (case path of
        [] \<Rightarrow> Inl OutOfBounds
      | c # cs \<Rightarrow>
          if c = 47 then walk st (root st) None cs
          else walk st (if base = None then pwd st else base) None path)"

text \<open>The value of \<^verbatim>\<open>*dir\<close> after the call; it is set to null before the last lookup.\<close>

definition namei_base :: "vfs \<Rightarrow> u8 list \<Rightarrow> nat option \<Rightarrow> (u32 \<times> nat option) res" where
  "namei_base st path base =
     rbind (get_parent_dir_entry st path base) (\<lambda>(err, nd).
       case nd of
         None \<Rightarrow> Inr (err, None)
       | Some (dir, name, l) \<Rightarrow>
           rmap (\<lambda>(err, out). (err, case out of None \<Rightarrow> None | Some d \<Rightarrow> d)) (lookup st dir name l))"

definition namei :: "vfs \<Rightarrow> u8 list \<Rightarrow> (u32 \<times> nat option) res" where
  "namei st path = namei_base st path None"

fun lookup_fs :: "file_system_type list \<Rightarrow> u8 list \<Rightarrow> nat \<Rightarrow> (u32 \<times> nat option) res" where
  "lookup_fs [] name i = Inr (- 1, None)"
| "lookup_fs (fs # rest) name i =
     rbind (strcmp_loop (fs_name fs) name) (\<lambda>r.
       if r = 0 then Inr (0, Some i) else lookup_fs rest name (Suc i))"

subsection \<open>System calls on names\<close>

definition is_dir :: "u16 \<Rightarrow> bool" where "is_dir m \<longleftrightarrow> m = FILE_MODE_DIR"

text \<open>
  \<^verbatim>\<open>sys_mkdir\<close>. A relative path is resolved from the root of the thread, not from its
  working directory. The new inode has no operations.
\<close>

definition sys_mkdir :: "u8 list \<Rightarrow> vfs \<Rightarrow> (u32 \<times> vfs) res" where
  "sys_mkdir dirname st =
     rbind (get_parent_dir_entry st dirname (root st)) (\<lambda>(err, nd).
       case nd of
         None \<Rightarrow> Inr (- 1, st)
       | Some (dirp, last_name, last_len) \<Rightarrow>
           rbind (dent st dirp) (\<lambda>dir.
           rbind (inode_at st (d_inode dir)) (\<lambda>i.
             if \<not> is_dir (i_mode i) then Inr (- 1, st)
             else rbind (get_inode st) (\<lambda>(st1, ni).
               let st2 = put_inode ni (\<lambda>i. i\<lparr>i_sb := d_sb dir, i_dev_num := d_dev_num dir,
                                          i_mode := FILE_MODE_DIR\<rparr>) st1
               in case get_dir st2 of (st3, nd) \<Rightarrow>
                  rbind (memcpy (d_name zero_dir_entry) last_name last_len) (\<lambda>nm.
                    let st4 = put_dent nd (\<lambda>d. d\<lparr>d_name := nm, d_dev_num := d_dev_num dir,
                                 d_inode := Some ni, d_parent := dirp, d_sb := d_sb dir,
                                 is_mounted := False, mounted_dir := None\<rparr>) st3
                    in Inr (0, put_dent (the dirp) (\<lambda>d. d\<lparr>d_children := nd # d_children d\<rparr>) st4))))))"

text \<open>The new root of a mounted file system is attached to the last directory of the chain.\<close>

definition sys_mount :: "u8 list \<Rightarrow> u8 list \<Rightarrow> u8 list \<Rightarrow> vfs \<Rightarrow> (u32 \<times> vfs) res" where
  "sys_mount dev_name dir_name ty st =
     rbind (lookup_fs (file_system_table st) ty 0) (\<lambda>(err, fs).
     case fs of None \<Rightarrow> Inr (- 1, st) | Some fs \<Rightarrow>
     rbind (namei st dev_name) (\<lambda>(err, dev_dir).
     if err \<noteq> 0 then Inr (- 1, st) else
     rbind (inode_of st dev_dir) (\<lambda>i.
     if i_mode i \<noteq> FILE_MODE_DIR \<and> i_mode i \<noteq> FILE_MODE_BLK then Inr (- 1, st) else
     rbind (namei st dir_name) (\<lambda>(err, dir_dir).
     if err \<noteq> 0 then Inr (- 1, st) else
     rbind (inode_of st dir_dir) (\<lambda>i.
     if \<not> is_dir (i_mode i) then Inr (- 1, st) else
     rbind (dent st dir_dir) (\<lambda>d.
     if is_mounted d then Inr (- 1, st) else
     rbind (dent st dev_dir) (\<lambda>dd.
     rbind (call_mount (fs_mount (file_system_table st ! fs)) fs (d_dev_num dd) st) (\<lambda>(st1, new_dir).
     rbind (topmost st1 dir_dir) (\<lambda>t.
     rbind (dent st1 t) (\<lambda>_.
       Inr (0, put_dent (the t) (\<lambda>d. d\<lparr>is_mounted := True, mounted_dir := new_dir\<rparr>) st1)))))))))))"

record s_stat =
  st_dev_num :: u32
  st_inode_num :: u32
  st_mode :: u16
  st_size :: u32

definition sys_stat :: "u8 list \<Rightarrow> vfs \<Rightarrow> (u32 \<times> s_stat option) res" where
  "sys_stat filename st =
     rbind (namei st filename) (\<lambda>(err, dirp).
       if err \<noteq> 0 then Inr (- 1, None)
       else rbind (dent st dirp) (\<lambda>d.
            rbind (inode_at st (d_inode d)) (\<lambda>i.
              Inr (0, Some \<lparr>st_dev_num = d_dev_num d, st_inode_num = i_num i,
                            st_mode = i_mode i, st_size = i_size i\<rparr>))))"

text \<open>The part that \<^verbatim>\<open>sys_chroot\<close> and \<^verbatim>\<open>sys_chdir\<close> share: the directory, or the error code.\<close>

definition find_directory :: "u8 list \<Rightarrow> vfs \<Rightarrow> (u32 + nat option) res" where
  "find_directory dirname st =
     rbind (namei st dirname) (\<lambda>(err, dirp).
       if err \<noteq> 0 then Inr (Inl (- ENOENT))
       else rbind (inode_of st dirp) (\<lambda>i.
              Inr (if i_mode i \<noteq> FILE_MODE_DIR then Inl (- ENOTDIR) else Inr dirp)))"

definition sys_chroot :: "u8 list \<Rightarrow> vfs \<Rightarrow> (u32 \<times> vfs) res" where
  "sys_chroot dirname st =
     rmap (\<lambda>r. case r of Inl err \<Rightarrow> (err, st) | Inr d \<Rightarrow> (0, st\<lparr>root := d\<rparr>)) (find_directory dirname st)"

definition sys_chdir :: "u8 list \<Rightarrow> vfs \<Rightarrow> (u32 \<times> vfs) res" where
  "sys_chdir dirname st =
     rmap (\<lambda>r. case r of Inl err \<Rightarrow> (err, st) | Inr d \<Rightarrow> (0, st\<lparr>pwd := d\<rparr>)) (find_directory dirname st)"

subsection \<open>Names and components\<close>

text \<open>A component as it stands in a path: neither the terminator nor a slash occurs in it.\<close>

definition component :: "u8 list \<Rightarrow> bool" where
  "component c \<longleftrightarrow> 0 \<notin> set c \<and> 47 \<notin> set c"

lemma component_simps [simp]:
  "component []" "component (x # xs) \<longleftrightarrow> x \<noteq> 0 \<and> x \<noteq> 47 \<and> component xs"
  by (auto simp: component_def)

lemma scan_name_component:
  "component c \<Longrightarrow> e = 0 \<or> e = 47 \<Longrightarrow> scan_name (c @ e # r) = Inr (length c, e, r)"
  by (induction c) auto

lemma find_child_prefix: "find_child st (c @ r) (length c) cs = find_child st c (length c) cs"
  by (induction cs) (simp_all add: ld_bytes_def cong: if_cong)

lemma lookup_prefix:
  "lookup st dir (c @ r) (length c) = lookup st dir c (length c)"
proof -
  have "call_lookup t st dir (c @ r) (length c) = call_lookup t st dir c (length c)" for t
    by (cases t) (simp add: rootfs_lookup_def)
  then show ?thesis
    by (simp add: lookup_def find_child_prefix nth_append cong: if_cong option.case_cong conj_cong)
qed

text \<open>One component leads from a directory to an entry; a list of components to the last one.\<close>

definition enters :: "vfs \<Rightarrow> nat option \<Rightarrow> u8 list \<Rightarrow> nat option \<Rightarrow> bool" where
  "enters st d c e \<longleftrightarrow> lookup st d c (length c) = Inr (0, Some e)"

inductive reaches :: "vfs \<Rightarrow> nat option \<Rightarrow> u8 list list \<Rightarrow> nat option \<Rightarrow> bool" for st where
  here: "reaches st d [] d"
| into: "component c \<Longrightarrow> enters st d c e \<Longrightarrow> reaches st e cs t \<Longrightarrow> reaches st d (c # cs) t"

inductive_simps reaches_simps [simp]: "reaches st d [] t" "reaches st d (c # cs) t"

text \<open>The bytes of a path: components, each followed by a slash, then a last one and its terminator.\<close>

fun path_of :: "u8 list list \<Rightarrow> u8 list \<Rightarrow> u8 list \<Rightarrow> u8 list" where
  "path_of [] name r = name @ 0 # r"
| "path_of (c # cs) name r = c @ 47 # path_of cs name r"

lemma walk_path_of:
  assumes "reaches st d cs t" and "component name"
  shows "walk st d mid (path_of cs name r) = Inr (0, Some (t, name @ 0 # r, length name))"
  using assms
proof (induction arbitrary: mid rule: reaches.induct)
  case (here d)
  then show ?case by (simp add: walk.simps scan_name_component)
next
  case (into c d e cs t)
  have "lookup st d (c @ 47 # path_of cs name r) (length c) = Inr (0, Some e)"
    using into.hyps(2) by (simp add: lookup_prefix enters_def)
  then show ?case using into by (simp add: walk.simps[of _ d] scan_name_component)
qed

lemma parent_of_absolute_path:
  assumes "reaches st (root st) cs t" and "component name"
  shows "get_parent_dir_entry st (47 # path_of cs name r) base = Inr (0, Some (t, name @ 0 # r, length name))"
  using walk_path_of[OF assms] by (simp add: get_parent_dir_entry_def)

lemma path_of_relative: "component name \<Longrightarrow> \<forall>c \<in> set cs. component c \<and> c \<noteq> [] \<Longrightarrow>
  \<exists>x xs. path_of cs name r = x # xs \<and> x \<noteq> 47"
  by (cases cs; cases name; force simp: neq_Nil_conv)

lemma parent_of_relative_path:
  assumes "reaches st base cs t" and "component name" and "\<forall>c \<in> set cs. component c \<and> c \<noteq> []"
    and "base \<noteq> None"
  shows "get_parent_dir_entry st (path_of cs name r) base = Inr (0, Some (t, name @ 0 # r, length name))"
    and "base = pwd st \<Longrightarrow>
         get_parent_dir_entry st (path_of cs name r) None = Inr (0, Some (t, name @ 0 # r, length name))"
proof -
  obtain x xs where "path_of cs name r = x # xs" "x \<noteq> 47"
    using path_of_relative[OF assms(2,3), of r] by blast
  then show "get_parent_dir_entry st (path_of cs name r) base = Inr (0, Some (t, name @ 0 # r, length name))"
    "base = pwd st \<Longrightarrow>
     get_parent_dir_entry st (path_of cs name r) None = Inr (0, Some (t, name @ 0 # r, length name))"
    using walk_path_of[OF assms(1,2), of None r] assms(4) by (auto simp: get_parent_dir_entry_def)
qed

lemma namei_absolute:
  assumes "reaches st (root st) cs t" and "component name"
  shows "namei st (47 # path_of cs name r) =
     rmap (\<lambda>(err, out). (err, case out of None \<Rightarrow> None | Some d \<Rightarrow> d)) (lookup st t name (length name))"
  using parent_of_absolute_path[OF assms] by (simp add: namei_def namei_base_def lookup_prefix)

lemma namei_relative:
  assumes "reaches st (pwd st) cs t" and "component name" and "\<forall>c \<in> set cs. component c \<and> c \<noteq> []"
    and "pwd st \<noteq> None"
  shows "namei st (path_of cs name r) =
     rmap (\<lambda>(err, out). (err, case out of None \<Rightarrow> None | Some d \<Rightarrow> d)) (lookup st t name (length name))"
  using parent_of_relative_path(2)[OF assms] by (simp add: namei_def namei_base_def lookup_prefix)

subsection \<open>Well-formed trees\<close>

definition in_range :: "'a list \<Rightarrow> nat option \<Rightarrow> bool" where
  "in_range xs p \<longleftrightarrow> (case p of None \<Rightarrow> True | Some i \<Rightarrow> i < length xs)"

lemma in_range_simps [simp]: "in_range xs None" "in_range xs (Some i) \<longleftrightarrow> i < length xs"
  by (simp_all add: in_range_def)

text \<open>
  A directory entry has a terminated name, an inode in use, and points to entries that exist;
  when it is mounted on, what covers it exists.
\<close>

definition dent_ok :: "nat \<Rightarrow> nat \<Rightarrow> dir_entry \<Rightarrow> bool" where
  "dent_ok dents inodes d \<longleftrightarrow>
     0 \<in> set (d_name d) \<and> (\<exists>i < inodes. d_inode d = Some i)
     \<and> (\<forall>c \<in> set (d_children d). c < dents) \<and> (\<forall>p. d_parent d = Some p \<longrightarrow> p < dents)
     \<and> (is_mounted d \<longrightarrow> (\<exists>m < dents. mounted_dir d = Some m))"

definition vfs_wf :: "vfs \<Rightarrow> bool" where
  "vfs_wf st \<longleftrightarrow>
     length (inode_table st) = INODE_TABLE_MAX_COUNT \<and> inode_num st \<le> INODE_TABLE_MAX_COUNT
     \<and> (\<forall>d \<in> set (dentries st). dent_ok (length (dentries st)) (inode_num st) d)
     \<and> in_range (dentries st) (root st) \<and> in_range (dentries st) (pwd st)"

lemma dent_ok_mono: "dent_ok n k d \<Longrightarrow> n \<le> n' \<Longrightarrow> k \<le> k' \<Longrightarrow> dent_ok n' k' d"
  unfolding dent_ok_def by (meson order_less_le_trans)

lemma dent_Inr_conv: "dent st p = Inr d \<longleftrightarrow> (\<exists>i. p = Some i \<and> i < length (dentries st) \<and> d = dentries st ! i)"
  by (cases p) (auto simp: dent_def deref_def arr_get_Inr_conv)

lemma dent_in [simp]: "i < length (dentries st) \<Longrightarrow> dent st (Some i) = Inr (dentries st ! i)"
  by (simp add: dent_Inr_conv)

lemma wf_dent: "vfs_wf st \<Longrightarrow> i < length (dentries st) \<Longrightarrow> dent_ok (length (dentries st)) (inode_num st) (dentries st ! i)"
  by (simp add: vfs_wf_def)

lemma wf_inode:
  assumes "vfs_wf st" and "i < length (dentries st)"
  obtains k where "d_inode (dentries st ! i) = Some k" "k < inode_num st"
    "inode_at st (d_inode (dentries st ! i)) = Inr (inode_table st ! k)"
  using wf_dent[OF assms] assms(1) by (auto simp: dent_ok_def vfs_wf_def inode_at_def deref_def)

text \<open>The name of an entry as a string, and the search of a directory for it.\<close>

definition named :: "vfs \<Rightarrow> u8 list \<Rightarrow> nat \<Rightarrow> bool" where
  "named st name c \<longleftrightarrow> cstr (d_name (dentries st ! c)) = name"

definition child_named :: "vfs \<Rightarrow> nat \<Rightarrow> u8 list \<Rightarrow> nat option" where
  "child_named st d name = find (named st name) (d_children (dentries st ! d))"

lemma find_child_eq:
  assumes "\<forall>c \<in> set cs. c < length (dentries st) \<and> 0 \<in> set (d_name (dentries st ! c))" and "0 \<notin> set name"
  shows "find_child st name (length name) cs = Inr (find (named st name) cs)"
  using assms
proof (induction cs)
  case (Cons c cs)
  obtain r where "strcmp_loop (name @ [0]) (d_name (dentries st ! c)) = Inr r"
    "r = 0 \<longleftrightarrow> cstr (name @ [0]) = cstr (d_name (dentries st ! c))"
    using strcmp_loop_returns[of "name @ [0]" "d_name (dentries st ! c)"] Cons.prems by auto
  then show ?case using Cons by (auto simp: named_def)
qed simp

definition ordinary :: "u8 list \<Rightarrow> bool" where
  "ordinary c \<longleftrightarrow> component c \<and> c \<noteq> [] \<and> c \<noteq> [46] \<and> c \<noteq> [46, 46]"

lemma ordinary_component: "ordinary c \<Longrightarrow> component c"
  by (simp add: ordinary_def)

lemma ordinary_not_dots:
  "ordinary c \<Longrightarrow> \<not> (length c = Suc 0 \<and> c ! 0 = 46) \<and> \<not> (length c = 2 \<and> c ! 0 = 46 \<and> c ! Suc 0 = 46) \<and> length c \<noteq> 0"
  by (cases c; cases "tl c") (auto simp: ordinary_def)

lemma lookup_ordinary:
  assumes "vfs_wf st" and "d < length (dentries st)" and "ordinary name"
  shows "lookup st (Some d) name (length name) =
     (case child_named st d name of
        Some c \<Rightarrow> rmap (\<lambda>t. (0, Some t)) (topmost st (Some c))
      | None \<Rightarrow> (case inode_op (inode_table st ! the (d_inode (dentries st ! d))) of
                   None \<Rightarrow> Inl NullDeref | Some t \<Rightarrow> Inr (0, None)))"
proof -
  obtain k where k: "d_inode (dentries st ! d) = Some k"
    "inode_at st (Some k) = Inr (inode_table st ! k)"
    using wf_inode[OF assms(1,2)] by metis
  have "\<forall>c \<in> set (d_children (dentries st ! d)). c < length (dentries st) \<and> 0 \<in> set (d_name (dentries st ! c))"
    using wf_dent[OF assms(1,2)] assms(1) by (simp add: dent_ok_def vfs_wf_def)
  then have "find_child st name (length name) (d_children (dentries st ! d)) = Inr (child_named st d name)"
    using assms(3) by (simp add: find_child_eq child_named_def ordinary_def component_def)
  moreover have "call_lookup t st (Some d) name (length name) = Inr (0, None)" for t
    by (cases t) (simp add: rootfs_lookup_def)
  ultimately show ?thesis
    using ordinary_not_dots[OF assms(3)] assms(2) k by (auto simp: lookup_def cong: option.case_cong)
qed

subsection \<open>Mount points of a tree that grows\<close>

text \<open>The second state has the entries of the first, mounted in the same way.\<close>

definition same_mounts :: "vfs \<Rightarrow> vfs \<Rightarrow> bool" where
  "same_mounts st st' \<longleftrightarrow> length (dentries st) \<le> length (dentries st') \<and>
     (\<forall>i < length (dentries st). is_mounted (dentries st' ! i) = is_mounted (dentries st ! i)
        \<and> mounted_dir (dentries st' ! i) = mounted_dir (dentries st ! i))"

lemma wf_mounted: "vfs_wf st \<Longrightarrow> i < length (dentries st) \<Longrightarrow> is_mounted (dentries st ! i) \<Longrightarrow>
   \<exists>m < length (dentries st). mounted_dir (dentries st ! i) = Some m"
  using wf_dent[of st i] by (simp add: dent_ok_def)

lemma follow_null: "follow_mounts st None = Some (Inl NullDeref)"
  by (subst follow_mounts.simps) (simp add: dent_def deref_def)

lemma follow_mounts_grow:
  assumes "follow_mounts st t = Some r"
  shows "vfs_wf st \<longrightarrow> same_mounts st st' \<longrightarrow> (\<forall>i. t = Some i \<longrightarrow> i < length (dentries st)) \<longrightarrow>
    follow_mounts st' t = Some r"
  using assms
proof (induction rule: follow_mounts.raw_induct[rotated, consumes 1])
  case (1 follow st t r)
  show ?case
  proof (intro impI)
    assume wf: "vfs_wf st" and same: "same_mounts st st'" and t: "\<forall>i. t = Some i \<longrightarrow> i < length (dentries st)"
    show "follow_mounts st' t = Some r"
    proof (cases t)
      case None
      then have "r = Inl NullDeref" using 1(2) by (simp add: dent_def deref_def)
      then show ?thesis using None follow_null by simp
    next
      case (Some i)
      then have i: "i < length (dentries st)" "i < length (dentries st')"
        using t same by (auto simp: same_mounts_def)
      then show ?thesis
        using 1 Some same wf wf_mounted[OF wf i(1)]
        by (auto simp: follow_mounts.simps[of st' "Some i"] same_mounts_def split: if_splits)
    qed
  qed
qed

lemma follow_mounts_shrink:
  assumes "follow_mounts st' t = Some r"
  shows "vfs_wf st \<longrightarrow> same_mounts st st' \<longrightarrow> (\<forall>i. t = Some i \<longrightarrow> i < length (dentries st)) \<longrightarrow>
    follow_mounts st t = Some r"
  using assms
proof (induction rule: follow_mounts.raw_induct[rotated, consumes 1])
  case (1 follow st' t r)
  show ?case
  proof (intro impI)
    assume wf: "vfs_wf st" and same: "same_mounts st st'" and t: "\<forall>i. t = Some i \<longrightarrow> i < length (dentries st)"
    show "follow_mounts st t = Some r"
    proof (cases t)
      case None
      then have "r = Inl NullDeref" using 1(2) by (simp add: dent_def deref_def)
      then show ?thesis using None follow_null by simp
    next
      case (Some i)
      then have i: "i < length (dentries st)" "i < length (dentries st')"
        using t same by (auto simp: same_mounts_def)
      then show ?thesis
        using 1 Some same wf wf_mounted[OF wf i(1)]
        by (auto simp: follow_mounts.simps[of st "Some i"] same_mounts_def split: if_splits)
    qed
  qed
qed

lemma topmost_same:
  assumes "vfs_wf st" and "same_mounts st st'" and "i < length (dentries st)"
  shows "topmost st' (Some i) = topmost st (Some i)"
proof -
  have "follow_mounts st' (Some i) = follow_mounts st (Some i)"
  proof (cases "follow_mounts st (Some i)")
    case (Some r)
    then show ?thesis using follow_mounts_grow[OF Some] assms by simp
  next
    case None
    then show ?thesis using follow_mounts_shrink[of st' "Some i"] assms
      by (cases "follow_mounts st' (Some i)") auto
  qed
  then show ?thesis by (simp add: topmost_def)
qed

lemma topmost_unmounted [simp]:
  "i < length (dentries st) \<Longrightarrow> \<not> is_mounted (dentries st ! i) \<Longrightarrow> topmost st (Some i) = Inr (Some i)"
  by (simp add: topmost_def follow_mounts.simps[of st "Some i"])

subsection \<open>Making a directory\<close>

text \<open>The state after a directory \<open>nm\<close> has been made in the entry \<open>d\<close>.\<close>

definition with_dir :: "vfs \<Rightarrow> nat \<Rightarrow> u8 list \<Rightarrow> vfs" where
  "with_dir st d nm =
     (let dir = dentries st ! d; n = length (dentries st); k = inode_num st in
      st\<lparr>inode_table := (inode_table st)[k := zero_inode\<lparr>i_num := of_nat k, i_sb := d_sb dir,
                            i_dev_num := d_dev_num dir, i_mode := FILE_MODE_DIR\<rparr>],
         inode_num := Suc k,
         dentries := (dentries st)[d := dir\<lparr>d_children := n # d_children dir\<rparr>] @
           [zero_dir_entry\<lparr>d_name := nm, d_inode := Some k, d_sb := d_sb dir, d_parent := Some d,
                            d_dev_num := d_dev_num dir\<rparr>]\<rparr>)"

lemma with_dir_fields [simp]:
  "length (dentries (with_dir st d nm)) = Suc (length (dentries st))"
  "inode_num (with_dir st d nm) = Suc (inode_num st)"
  "length (inode_table (with_dir st d nm)) = length (inode_table st)"
  "root (with_dir st d nm) = root st" "pwd (with_dir st d nm) = pwd st"
  "file_table (with_dir st d nm) = file_table st" "f_desc_table (with_dir st d nm) = f_desc_table st"
  "sblocks (with_dir st d nm) = sblocks st" "file_system_table (with_dir st d nm) = file_system_table st"
  by (simp_all add: with_dir_def Let_def)

lemma with_dir_new:
  assumes "d < length (dentries st)"
  shows "dentries (with_dir st d nm) ! length (dentries st) =
     zero_dir_entry\<lparr>d_name := nm, d_inode := Some (inode_num st), d_sb := d_sb (dentries st ! d),
                    d_parent := Some d, d_dev_num := d_dev_num (dentries st ! d)\<rparr>"
  by (simp add: with_dir_def Let_def nth_append)

lemma with_dir_old:
  assumes "i < length (dentries st)"
  shows "dentries (with_dir st d nm) ! i =
     (if i = d then (dentries st ! d)\<lparr>d_children := length (dentries st) # d_children (dentries st ! d)\<rparr>
      else dentries st ! i)"
  using assms by (simp add: with_dir_def Let_def nth_append)

lemma with_dir_inode:
  "inode_num st < length (inode_table st) \<Longrightarrow> inode_table (with_dir st d nm) ! inode_num st =
     zero_inode\<lparr>i_num := of_nat (inode_num st), i_sb := d_sb (dentries st ! d),
       i_dev_num := d_dev_num (dentries st ! d), i_mode := FILE_MODE_DIR\<rparr>"
  "k \<noteq> inode_num st \<Longrightarrow> inode_table (with_dir st d nm) ! k = inode_table st ! k"
  by (simp_all add: with_dir_def Let_def)

text \<open>Every successful \<^verbatim>\<open>sys_mkdir\<close> has this form.\<close>

lemma sys_mkdir_eq:
  assumes "get_parent_dir_entry st path (root st) = Inr (0, Some (Some d, name, l))"
    and "d < length (dentries st)" and "inode_at st (d_inode (dentries st ! d)) = Inr i"
    and "i_mode i = FILE_MODE_DIR" and "inode_num st < length (inode_table st)"
    and "memcpy (d_name zero_dir_entry) name l = Inr nm"
  shows "sys_mkdir path st = Inr (0, with_dir st d nm)"
  using assms
  by (simp add: sys_mkdir_def is_dir_def get_inode_def get_dir_def put_inode_def put_dent_def
      with_dir_def Let_def nth_append list_update_append) (simp add: zero_dir_entry_def)

lemma scan_name_length: "scan_name p = Inr (n, e, r) \<Longrightarrow> n + length r < length p"
  by (induction p arbitrary: n) (auto split: if_splits simp: rmap_Inr_conv)

lemma walk_code: "walk st dir mid path = Inr (e, nd) \<Longrightarrow> (nd = None \<longleftrightarrow> e \<noteq> 0) \<and>
   (\<forall>t n l. nd = Some (t, n, l) \<longrightarrow> l < length n \<and> length n \<le> length path)"
proof (induction st dir mid path arbitrary: rule: walk.induct)
  case (1 st dir mid path)
  obtain l c rest where s: "scan_name path = Inr (l, c, rest)"
    using 1(2) by (auto simp: walk.simps[of st dir mid path] rbind_Inr_conv)
  show ?case
  proof (cases "c = 0")
    case True
    then show ?thesis using 1(2) s scan_name_length[OF s] by (auto simp: walk.simps[of st dir mid path])
  next
    case c: False
    then obtain err out where lk: "lookup st dir path l = Inr (err, out)"
      using 1(2) s by (auto simp: walk.simps[of st dir mid path] rbind_Inr_conv)
    consider "err \<noteq> 0" | d where "err = 0" "(case out of None \<Rightarrow> mid | Some d \<Rightarrow> Some d) = Some d"
      "walk st d (Some d) rest = Inr (e, nd)"
      using 1(2) s c lk by (auto simp: walk.simps[of st dir mid path] split: if_splits option.splits)
    then show ?thesis
    proof cases
      case 1
      then show ?thesis using \<open>walk st dir mid path = Inr (e, nd)\<close> s c lk
        by (auto simp: walk.simps[of st dir mid path])
    next
      case (2 d)
      then show ?thesis using 1(1)[OF s refl refl c lk refl _ 2(2,3)] scan_name_length[OF s] by fastforce
    qed
  qed
qed

lemma get_parent_code:
  assumes "get_parent_dir_entry st path base = Inr (e, nd)"
  shows "nd = None \<longleftrightarrow> e \<noteq> 0" and "nd = Some (t, n, l) \<Longrightarrow> l < length n \<and> length n \<le> length path"
  using assms by (auto simp: get_parent_dir_entry_def split: list.splits if_splits dest!: walk_code)

lemma sys_mkdir_cases:
  assumes "sys_mkdir path st = Inr (r, st')"
  shows "(r = - 1 \<and> st' = st) \<or>
     (\<exists>d name l i nm. get_parent_dir_entry st path (root st) = Inr (0, Some (Some d, name, l))
        \<and> d < length (dentries st) \<and> inode_at st (d_inode (dentries st ! d)) = Inr i
        \<and> i_mode i = FILE_MODE_DIR \<and> inode_num st < length (inode_table st)
        \<and> memcpy (d_name zero_dir_entry) name l = Inr nm \<and> r = 0 \<and> st' = with_dir st d nm)"
proof -
  obtain e nd where p: "get_parent_dir_entry st path (root st) = Inr (e, nd)"
    using assms by (auto simp: sys_mkdir_def rbind_Inr_conv)
  show ?thesis
  proof (cases nd)
    case None
    then show ?thesis using assms p by (simp add: sys_mkdir_def)
  next
    case (Some t)
    obtain dp name l where t: "t = (dp, name, l)" by (cases t)
    have e: "e = 0" using get_parent_code(1)[OF p] Some by simp
    obtain dir i where di: "dent st dp = Inr dir" "inode_at st (d_inode dir) = Inr i"
      using assms p Some t by (auto simp: sys_mkdir_def rbind_Inr_conv)
    then obtain d where d: "dp = Some d" "d < length (dentries st)" "dir = dentries st ! d"
      by (auto simp: dent_Inr_conv)
    show ?thesis
    proof (cases "i_mode i = FILE_MODE_DIR")
      case False
      then show ?thesis using assms p Some t di by (simp add: sys_mkdir_def is_dir_def)
    next
      case True
      have k: "inode_num st < length (inode_table st)"
        using assms p Some t di True
        by (auto simp: sys_mkdir_def is_dir_def get_inode_def arr_set_def split: if_splits)
      obtain nm where nm: "memcpy (d_name zero_dir_entry) name l = Inr nm"
        using assms p Some t di True k
        by (cases "memcpy (d_name zero_dir_entry) name l")
           (auto simp: sys_mkdir_def is_dir_def get_inode_def get_dir_def Let_def)
      have "sys_mkdir path st = Inr (0, with_dir st d nm)"
        using sys_mkdir_eq[of st path d name l i nm] p e Some t d di True k nm by simp
      then show ?thesis using assms p e Some t d di True k nm by auto
    qed
  qed
qed

lemma cstr_padded: "0 \<notin> set s \<Longrightarrow> k > 0 \<Longrightarrow> cstr (s @ replicate k 0) = s"
  by (cases k) simp_all

lemma dir_entry_name_length: "length (d_name zero_dir_entry) = 256"
  by (simp add: zero_dir_entry_def)

lemma memcpy_name:
  assumes "memcpy (d_name zero_dir_entry) name l = Inr nm" and "l < 256" and "l \<le> length name"
  shows "nm = take l name @ replicate (256 - l) 0"
  using assms memcpy_eq[of l "d_name zero_dir_entry" name] by (simp add: zero_dir_entry_def)

lemma with_dir_wf:
  assumes "vfs_wf st" and "d < length (dentries st)" and "0 \<in> set nm"
    and "inode_num st < length (inode_table st)"
  shows "vfs_wf (with_dir st d nm)"
proof -
  let ?s = "with_dir st d nm"
  have "dent_ok (length (dentries ?s)) (inode_num ?s) (dentries ?s ! i)" if "i < length (dentries ?s)" for i
  proof (cases "i = length (dentries st)")
    case True
    then show ?thesis using assms by (simp add: with_dir_new dent_ok_def zero_dir_entry_def)
  next
    case False
    then have i: "i < length (dentries st)" using that by simp
    have "dent_ok (length (dentries ?s)) (inode_num ?s) (dentries st ! i)"
      by (rule dent_ok_mono[OF wf_dent[OF assms(1) i]]) simp_all
    then show ?thesis using i assms(2) by (auto simp: with_dir_old dent_ok_def)
  qed
  then have "\<forall>x \<in> set (dentries ?s). dent_ok (length (dentries ?s)) (inode_num ?s) x"
    by (metis in_set_conv_nth)
  then show ?thesis using assms unfolding vfs_wf_def by (auto simp: in_range_def split: option.splits)
qed

lemma with_dir_mounts: "d < length (dentries st) \<Longrightarrow> same_mounts st (with_dir st d nm)"
  by (simp add: same_mounts_def with_dir_old)

text \<open>Looking a name up in the new state.\<close>

lemma with_dir_lookup_new:
  assumes "vfs_wf st" and "d < length (dentries st)" and "ordinary name" and "cstr nm = name"
    and "vfs_wf (with_dir st d nm)"
  shows "enters (with_dir st d nm) (Some d) name (Some (length (dentries st)))"
proof -
  let ?s = "with_dir st d nm" and ?n = "length (dentries st)"
  have "child_named ?s d name = Some ?n"
    using assms by (simp add: child_named_def with_dir_old with_dir_new named_def)
  moreover have "topmost ?s (Some ?n) = Inr (Some ?n)"
    using assms(2) by (simp add: with_dir_new zero_dir_entry_def)
  ultimately show ?thesis
    using assms by (simp add: enters_def lookup_ordinary)
qed

lemma with_dir_lookup_old:
  assumes "vfs_wf st" and "vfs_wf (with_dir st d nm)" and "d < length (dentries st)" and "ordinary x"
    and "d' < length (dentries st)" and "d' \<noteq> d \<or> x \<noteq> cstr nm"
  shows "lookup (with_dir st d nm) (Some d') x (length x) = lookup st (Some d') x (length x)"
proof -
  let ?s = "with_dir st d nm"
  have old: "named ?s x c = named st x c" if "c < length (dentries st)" for c
    using that by (simp add: named_def with_dir_old)
  have kids: "c < length (dentries st)" if "c \<in> set (d_children (dentries st ! d'))" for c
    using wf_dent[OF assms(1,5)] that by (simp add: dent_ok_def)
  have "find (named ?s x) (d_children (dentries st ! d')) = find (named st x) (d_children (dentries st ! d'))"
    by (rule find_cong) (simp_all add: old kids)
  moreover have "\<not> named ?s x (length (dentries st))" if "d' = d"
    using assms(3,6) that by (simp add: named_def with_dir_new)
  ultimately have ch: "child_named ?s d' x = child_named st d' x"
    using assms(3,5) by (auto simp: child_named_def with_dir_old)
  obtain k where k: "d_inode (dentries st ! d') = Some k" "k < inode_num st"
    using wf_inode[OF assms(1,5)] by metis
  have same: "d_inode (dentries ?s ! d') = Some k" "inode_table ?s ! k = inode_table st ! k"
    using assms(5) k by (auto simp: with_dir_old with_dir_inode)
  have "topmost ?s (Some c) = topmost st (Some c)" if "child_named st d' x = Some c" for c
    using that kids topmost_same[OF assms(1) with_dir_mounts[OF assms(3)]]
    by (auto simp: child_named_def find_Some_iff)
  then show ?thesis
    using k(1) same assms(5)
    by (simp add: lookup_ordinary[OF assms(1,5,4)] lookup_ordinary[OF assms(2) _ assms(4)] ch split: option.split)
qed

subsection \<open>Calls that keep the tree well formed\<close>

datatype tree_call =
    Mkdir "u8 list"
  | Mount "u8 list" "u8 list" "u8 list"
  | Chroot "u8 list"
  | Chdir "u8 list"

fun run_call :: "tree_call \<Rightarrow> vfs \<Rightarrow> (u32 \<times> vfs) res" where
  "run_call (Mkdir p) st = sys_mkdir p st"
| "run_call (Mount dev dir ty) st = sys_mount dev dir ty st"
| "run_call (Chroot p) st = sys_chroot p st"
| "run_call (Chdir p) st = sys_chdir p st"

fun short_paths :: "tree_call \<Rightarrow> bool" where
  "short_paths (Mkdir p) \<longleftrightarrow> length p \<le> 256"
| "short_paths _ \<longleftrightarrow> True"

lemma sys_mkdir_wf:
  assumes "vfs_wf st" and "sys_mkdir path st = Inr (r, st')" and "length path \<le> 256"
  shows "vfs_wf st'"
proof -
  consider "st' = st" | d name l nm where
    "get_parent_dir_entry st path (root st) = Inr (0, Some (Some d, name, l))" "d < length (dentries st)"
    "inode_num st < length (inode_table st)" "memcpy (d_name zero_dir_entry) name l = Inr nm"
    "st' = with_dir st d nm"
    using sys_mkdir_cases[OF assms(2)] by blast
  then show ?thesis
  proof cases
    case 2
    have "l < 256" "l \<le> length name" using get_parent_code(2)[OF 2(1) refl] assms(3) by auto
    then have "0 \<in> set nm" using memcpy_name[OF 2(4)] by simp
    then show ?thesis using with_dir_wf[OF assms(1) 2(2) _ 2(3)] 2(5) by simp
  qed (use assms in simp)
qed

lemma find_directory_in_range:
  "find_directory p st = Inr (Inr d) \<Longrightarrow> \<exists>i < length (dentries st). d = Some i"
  by (auto simp: find_directory_def inode_of_def rbind_Inr_conv dent_Inr_conv split: if_splits)

lemma sys_chroot_wf:
  assumes "vfs_wf st" and "sys_chroot p st = Inr (r, st')"
  shows "vfs_wf st'"
proof -
  obtain x where x: "find_directory p st = Inr x" "(r, st') = (case x of Inl e \<Rightarrow> (e, st) | Inr d \<Rightarrow> (0, st\<lparr>root := d\<rparr>))"
    using assms(2) by (auto simp: sys_chroot_def rmap_Inr_conv)
  show ?thesis
    using assms(1) x find_directory_in_range[of p st] by (cases x) (auto simp: vfs_wf_def)
qed

lemma sys_chdir_wf:
  assumes "vfs_wf st" and "sys_chdir p st = Inr (r, st')"
  shows "vfs_wf st'"
proof -
  obtain x where x: "find_directory p st = Inr x" "(r, st') = (case x of Inl e \<Rightarrow> (e, st) | Inr d \<Rightarrow> (0, st\<lparr>pwd := d\<rparr>))"
    using assms(2) by (auto simp: sys_chdir_def rmap_Inr_conv)
  show ?thesis
    using assms(1) x find_directory_in_range[of p st] by (cases x) (auto simp: vfs_wf_def)
qed

lemma rootfs_mount_state:
  assumes "rootfs_mount fs dev st = Inr (st', nd)"
  shows "inode_num st < length (inode_table st)"
    and "dentries st' = dentries st @ [zero_dir_entry\<lparr>d_name := (d_name zero_dir_entry)[0 := 47],
         d_dev_num := 0, d_inode := Some (inode_num st), d_parent := Some (length (dentries st)),
         d_sb := Some (length (sblocks st))\<rparr>]"
    and "inode_num st' = Suc (inode_num st)" and "length (inode_table st') = length (inode_table st)"
    and "root st' = root st" and "pwd st' = pwd st" and "nd = Some (length (dentries st))"
proof -
  show k: "inode_num st < length (inode_table st)"
    using assms by (auto simp: rootfs_mount_def get_block_def get_inode_def Let_def arr_set_def split: if_splits)
  note defs = rootfs_mount_def get_block_def get_inode_def get_dir_def put_inode_def put_dent_def Let_def
  have st': "st' = fst (projr (rootfs_mount fs dev st))" "nd = snd (projr (rootfs_mount fs dev st))"
    using assms by simp_all
  show "dentries st' = dentries st @ [zero_dir_entry\<lparr>d_name := (d_name zero_dir_entry)[0 := 47],
         d_dev_num := 0, d_inode := Some (inode_num st), d_parent := Some (length (dentries st)),
         d_sb := Some (length (sblocks st))\<rparr>]"
    unfolding st' using k by (simp add: defs nth_append list_update_append)
  show "inode_num st' = Suc (inode_num st)" "length (inode_table st') = length (inode_table st)"
    "root st' = root st" "pwd st' = pwd st" "nd = Some (length (dentries st))"
    unfolding st' using k by (simp_all add: defs)
qed

lemma rootfs_mount_wf:
  assumes "vfs_wf st" and "rootfs_mount fs dev st = Inr (st', nd)"
  shows "vfs_wf st' \<and> nd = Some (length (dentries st)) \<and> length (dentries st') = Suc (length (dentries st))"
proof -
  note m = rootfs_mount_state[OF assms(2)]
  have new: "0 \<in> set ((d_name zero_dir_entry)[0 := 47])"
    by (auto simp: zero_dir_entry_def numeral_eq_Suc)
  have old: "dent_ok (Suc (length (dentries st))) (Suc (inode_num st)) x" if "x \<in> set (dentries st)" for x
    using assms(1) that dent_ok_mono[of "length (dentries st)" "inode_num st" x] by (simp add: vfs_wf_def)
  have root: "dent_ok (Suc n) (Suc k) (zero_dir_entry\<lparr>d_name := nm, d_dev_num := 0, d_inode := Some k,
      d_parent := Some n, d_sb := b\<rparr>)" if "0 \<in> set nm" for n k nm b
    using that by (simp add: dent_ok_def zero_dir_entry_def)
  have "dent_ok (length (dentries st')) (inode_num st') x" if "x \<in> set (dentries st')" for x
    using that old root[OF new] by (auto simp: m)
  moreover have "in_range (dentries st') (root st') \<and> in_range (dentries st') (pwd st')"
    using assms(1) by (simp add: m vfs_wf_def in_range_def split: option.splits)
  ultimately have "vfs_wf st'" using assms(1) m(1) by (simp add: m vfs_wf_def)
  then show ?thesis by (simp add: m)
qed

lemma sys_mount_cases:
  assumes "sys_mount dev_name dir_name ty st = Inr (r, st')"
  shows "st' = st \<or> (\<exists>m fs dev st1 nd t. call_mount m fs dev st = Inr (st1, nd) \<and> t < length (dentries st1)
     \<and> st' = put_dent t (\<lambda>d. d\<lparr>is_mounted := True, mounted_dir := nd\<rparr>) st1)"
  using assms by (auto simp: sys_mount_def rbind_Inr_conv dent_Inr_conv split: option.splits if_splits) blast+

lemma sys_mount_wf:
  assumes "vfs_wf st" and "sys_mount dev_name dir_name ty st = Inr (r, st')"
  shows "vfs_wf st'"
  using sys_mount_cases[OF assms(2)]
proof (elim disjE exE conjE)
  fix m fs dev st1 nd t
  assume m: "call_mount m fs dev st = Inr (st1, nd)" and t: "t < length (dentries st1)"
    and st': "st' = put_dent t (\<lambda>d. d\<lparr>is_mounted := True, mounted_dir := nd\<rparr>) st1"
  have st1: "vfs_wf st1" "nd = Some (length (dentries st))" "length (dentries st) < length (dentries st1)"
    using rootfs_mount_wf[OF assms(1), of fs dev st1 nd] m by (cases m; simp)+
  have "dent_ok (length (dentries st1)) (inode_num st1) ((dentries st1 ! t)\<lparr>is_mounted := True, mounted_dir := nd\<rparr>)"
    using wf_dent[OF st1(1) t] st1(2,3) by (simp add: dent_ok_def)
  then show ?thesis
    using st1(1) by (auto simp: st' put_dent_def vfs_wf_def in_range_def dest!: set_update_subset_insert[THEN subsetD] split: option.splits)
qed (use assms in simp)

lemma reaches_append [simp]:
  "reaches st d (cs @ cs') t \<longleftrightarrow> (\<exists>e. reaches st d cs e \<and> reaches st e cs' t)"
  by (induction cs arbitrary: d) auto

lemma reaches_components: "reaches st d cs t \<Longrightarrow> \<forall>c \<in> set cs. component c"
  by (induction rule: reaches.induct) auto

subsection \<open>Properties\<close>

text \<open>
  C10. Path resolution follows the components. When looking up the components of a path one
  after the other leads from the root of the thread to the entry \<open>t\<close>, then \<^verbatim>\<open>namei\<close> of the
  path with a leading slash returns 0 and \<open>t\<close>; when it leads there from the working
  directory, so does \<^verbatim>\<open>namei\<close> of the path without the slash. In particular the scan of the
  path cuts it at the slashes and stays inside it, and what follows the terminator is
  not looked at.
\<close>

theorem namei_follows_components:
  assumes "reaches st base (cs @ [name]) t" and "base \<noteq> None" and "\<forall>c \<in> set cs. c \<noteq> []"
  shows "(base = root st \<longrightarrow> namei st (47 # path_of cs name r) = Inr (0, t)) \<and>
         (base = pwd st \<longrightarrow> namei st (path_of cs name r) = Inr (0, t))"
proof -
  obtain e where e: "reaches st base cs e" "component name" "enters st e name t"
    using assms(1) by auto
  have ne: "\<forall>c \<in> set cs. component c \<and> c \<noteq> []" using reaches_components[OF e(1)] assms(3) by blast
  show ?thesis
  proof (intro conjI impI)
    assume "base = root st"
    then show "namei st (47 # path_of cs name r) = Inr (0, t)"
      using namei_absolute[of st cs e name r] e by (simp add: enters_def)
  next
    assume b: "base = pwd st"
    then have "pwd st \<noteq> None" using assms(2) by simp
    from namei_relative[OF e(1)[unfolded b] e(2) ne this, of r]
    show "namei st (path_of cs name r) = Inr (0, t)" using e(3) by (simp add: enters_def)
  qed
qed

text \<open>
  C9. \<^verbatim>\<open>sys_mkdir\<close> makes a directory that is then found. For an absolute path whose
  intermediate components lead to a directory, with an ordinary last component of less than
  256 bytes and an inode left, the call returns 0; in the new state the name leads to a new
  entry, an empty directory whose parent is that directory, and every other name in every
  directory of the tree is looked up with the same result as before.
\<close>

theorem mkdir_makes_directory:
  assumes "vfs_wf st" and "reaches st (root st) cs (Some d)" and "d < length (dentries st)"
    and "ordinary name" and "length name < 256"
    and "i_mode (inode_table st ! the (d_inode (dentries st ! d))) = FILE_MODE_DIR"
    and "inode_num st < INODE_TABLE_MAX_COUNT"
  shows "\<exists>st' n i. sys_mkdir (47 # path_of cs name r) st = Inr (0, st') \<and> vfs_wf st'
     \<and> n \<notin> {..< length (dentries st)} \<and> enters st' (Some d) name (Some n)
     \<and> d_parent (dentries st' ! n) = Some d \<and> d_children (dentries st' ! n) = []
     \<and> inode_of st' (Some n) = Inr i \<and> i_mode i = FILE_MODE_DIR
     \<and> (\<forall>d' x. d' < length (dentries st) \<and> ordinary x \<and> (d' \<noteq> d \<or> x \<noteq> name) \<longrightarrow>
          lookup st' (Some d') x (length x) = lookup st (Some d') x (length x))"
proof -
  let ?n = "length (dentries st)" and ?nm = "name @ replicate (256 - length name) 0"
  let ?s = "with_dir st d ?nm"
  have len: "length (inode_table st) = INODE_TABLE_MAX_COUNT" using assms(1) by (simp add: vfs_wf_def)
  obtain k where k: "d_inode (dentries st ! d) = Some k" "inode_at st (Some k) = Inr (inode_table st ! k)"
    using wf_inode[OF assms(1,3)] by metis
  have cp: "memcpy (d_name zero_dir_entry) (name @ 0 # r) (length name) = Inr ?nm"
    using assms(5) memcpy_eq[of "length name" "d_name zero_dir_entry" "name @ 0 # r"] by (simp add: zero_dir_entry_def)
  have ok: "sys_mkdir (47 # path_of cs name r) st = Inr (0, ?s)"
    by (rule sys_mkdir_eq[OF _ assms(3) _ _ _ cp, where i = "inode_table st ! k"])
       (use parent_of_absolute_path[OF assms(2) ordinary_component[OF assms(4)]] k assms(6,7) len in simp_all)
  have nm: "cstr ?nm = name" "0 \<in> set ?nm"
    using assms(4,5) by (simp_all add: cstr_padded ordinary_def component_def)
  have wf: "vfs_wf ?s" using with_dir_wf[OF assms(1,3) nm(2)] assms(7) len by simp
  have "enters ?s (Some d) name (Some ?n)"
    by (rule with_dir_lookup_new[OF assms(1,3,4) nm(1) wf])
  moreover have "d_parent (dentries ?s ! ?n) = Some d" "d_children (dentries ?s ! ?n) = []"
    "d_inode (dentries ?s ! ?n) = Some (inode_num st)"
    using assms(3) by (simp_all add: with_dir_new zero_dir_entry_def)
  moreover then have "inode_of ?s (Some ?n) = Inr (inode_table ?s ! inode_num st)"
    "i_mode (inode_table ?s ! inode_num st) = FILE_MODE_DIR"
    using assms(7) len by (simp_all add: inode_of_def inode_at_def deref_def with_dir_inode)
  moreover have "\<forall>d' x. d' < length (dentries st) \<and> ordinary x \<and> (d' \<noteq> d \<or> x \<noteq> name) \<longrightarrow>
      lookup ?s (Some d') x (length x) = lookup st (Some d') x (length x)"
    using with_dir_lookup_old[OF assms(1) wf assms(3)] nm(1) by simp
  ultimately show ?thesis using ok wf by (intro exI[of _ ?s] exI[of _ ?n]) auto
qed

text \<open>
  C11. The calls that change the tree, the mounts or the thread's directories keep it well
  formed: every entry has a terminated name and an inode in use, the pointers between
  entries, the root and the working directory stay inside the tree. For \<^verbatim>\<open>sys_mkdir\<close> the path
  must be at most 256 bytes with its terminator: the copy of a component of 256 bytes leaves
  the name of the new entry without one.
\<close>

theorem tree_calls_keep_wf:
  assumes "vfs_wf st" and "run_call c st = Inr (r, st')" and "short_paths c"
  shows "vfs_wf st'"
  using assms by (cases c) (auto dest: sys_mkdir_wf sys_mount_wf sys_chroot_wf sys_chdir_wf)

subsection \<open>A concrete tree\<close>

text \<open>
  The state in which the root file system has been mounted once, as the root and the working
  directory of the thread.
\<close>

definition zero_file :: file_descriptor where
  "zero_file = \<lparr>fd_mode = 0, pos = 0, fd_used_count = 0, fd_inode = None, fd_op = None\<rparr>"

definition rooted :: vfs where
  "rooted = \<lparr>file_system_table = [rootfs_fs_type\<lparr>sb_table := Some 0\<rparr>],
     sblocks = [\<lparr>sb_dev_num = 0, root_dir = Some 0, root_inode = Some 0, sb_fs_type = Some 0\<rparr>],
     inode_table = zero_inode\<lparr>i_mode := FILE_MODE_DIR, i_sb := Some 0, f_op := Some Rootfs_f_op,
        inode_op := Some Rootfs_inode_op\<rparr> # replicate 2047 zero_inode, inode_num = 1,
     dentries = [zero_dir_entry\<lparr>d_name := 47 # replicate 255 0, d_inode := Some 0, d_parent := Some 0,
        d_sb := Some 0\<rparr>],
     f_desc_table = replicate 2048 zero_file, file_table = replicate 1024 None,
     root = Some 0, pwd = Some 0\<rparr>"

lemma rooted_simps [simp]:
  "length (dentries rooted) = 1" "inode_num rooted = 1" "length (inode_table rooted) = 2048"
  "root rooted = Some 0" "pwd rooted = Some 0" "file_table rooted = replicate 1024 None"
  "f_desc_table rooted = replicate 2048 zero_file"
  "d_inode (dentries rooted ! 0) = Some 0" "d_children (dentries rooted ! 0) = []"
  "i_mode (inode_table rooted ! 0) = FILE_MODE_DIR" "inode_op (inode_table rooted ! 0) = Some Rootfs_inode_op"
  "f_op (inode_table rooted ! 0) = Some Rootfs_f_op"
  "is_mounted (dentries rooted ! 0) = False"
  by (simp_all add: rooted_def zero_dir_entry_def)

lemma rooted_wf: "vfs_wf rooted"
  by (simp add: vfs_wf_def INODE_TABLE_MAX_COUNT_def)
     (simp add: rooted_def dent_ok_def zero_dir_entry_def)

text \<open>That is the state that \<^verbatim>\<open>rootfs_mount\<close> leaves behind.\<close>

lemma rooted_by_mount:
  "rootfs_mount 0 0 (rooted\<lparr>file_system_table := [rootfs_fs_type], sblocks := [], dentries := [],
       inode_table := replicate 2048 zero_inode, inode_num := 0\<rparr>) = Inr (rooted, Some 0)"
proof -
  have "replicate 2048 zero_inode = zero_inode # replicate 2047 zero_inode"
    by (simp flip: replicate_Suc)
  moreover have "(replicate 256 (0 :: u8))[0 := 47] = 47 # replicate 255 0"
    by (simp add: numeral_eq_Suc)
  ultimately show ?thesis
    by (simp add: rootfs_mount_def get_block_def get_inode_def get_dir_def put_inode_def put_dent_def
        rooted_def zero_dir_entry_def zero_inode_def)
qed

definition usr :: "u8 list" where "usr = [117, 115, 114]"

lemma usr_ordinary: "ordinary usr" "length usr = 3" "component usr"
  by (simp_all add: usr_def ordinary_def)

definition usr_tree :: vfs where
  "usr_tree = with_dir rooted 0 (usr @ replicate 253 0)"

lemma usr_tree_wf: "vfs_wf usr_tree"
  unfolding usr_tree_def by (rule with_dir_wf[OF rooted_wf]) simp_all

lemma usr_tree_enters: "enters usr_tree (Some 0) usr (Some 1)"
  using with_dir_lookup_new[OF rooted_wf, of 0 usr "usr @ replicate 253 0"] usr_tree_wf usr_ordinary
  by (simp add: usr_tree_def cstr_padded component_def)

theorem namei_follows_components_witness:
  "namei usr_tree [47, 46, 47, 117, 115, 114, 0] = Inr (0, Some 1) \<and>
   namei usr_tree [46, 47, 117, 115, 114, 0] = Inr (0, Some 1)"
proof -
  have "reaches usr_tree (Some 0) ([[46]] @ [usr]) (Some 1)"
    using usr_tree_enters usr_ordinary by (simp add: enters_def lookup_def)
  from namei_follows_components[OF this, of "[]"] show ?thesis
    by (simp add: usr_def usr_tree_def)
qed

theorem mkdir_makes_directory_witness:
  "\<exists>st' n. sys_mkdir [47, 117, 115, 114, 0] rooted = Inr (0, st') \<and> enters st' (Some 0) usr (Some n)"
  using mkdir_makes_directory[OF rooted_wf, of "[]" 0 usr "[]"] usr_ordinary
  by (auto simp: INODE_TABLE_MAX_COUNT_def usr_def)

theorem tree_calls_keep_wf_witness: "\<exists>r st'. run_call (Mkdir [47, 117, 115, 114, 0]) rooted = Inr (r, st') \<and> vfs_wf st'"
proof -
  have "sys_mkdir (47 # path_of [] usr []) rooted = Inr (0, usr_tree)"
    unfolding usr_tree_def
    by (rule sys_mkdir_eq[where name = "usr @ [0]" and l = 3 and i = "inode_table rooted ! 0"])
       (use parent_of_absolute_path[of rooted "[]" "Some 0" usr "[]" "Some 0"] usr_ordinary
          memcpy_eq[of 3 "d_name zero_dir_entry" "usr @ [0]"]
        in \<open>simp_all add: inode_at_def deref_def zero_dir_entry_def\<close>)
  then have "run_call (Mkdir [47, 117, 115, 114, 0]) rooted = Inr (0, usr_tree)" by (simp add: usr_def)
  from tree_calls_keep_wf[OF rooted_wf this] this show ?thesis by auto
qed

end
