(* ===== verification/FileOps.thy ===== *)
theory FileOps
  imports Vfs
begin

text \<open>
  fs/file_op.c, the part that deals with open files: the descriptors of a thread
  (\<^verbatim>\<open>file_table\<close>), the system-wide table of open files (\<^verbatim>\<open>f_desc_table\<close>) and the operations
  of the root file system. A descriptor holds the index of an open file or null.
\<close>

unbundle bit_operations_syntax

subsection \<open>The operations of a file\<close>

text \<open>
  \<^verbatim>\<open>struct file_operation\<close>, the members the code calls. Each takes the open file; a buffer the
  operation may store to is returned.
\<close>

record file_operation =
  fo_lseek :: "(nat \<Rightarrow> u32 \<Rightarrow> u32 \<Rightarrow> vfs \<Rightarrow> (u32 \<times> vfs) res) option"
  fo_read :: "(nat \<Rightarrow> u8 list \<Rightarrow> u32 \<Rightarrow> vfs \<Rightarrow> (u32 \<times> u8 list \<times> vfs) res) option"
  fo_write :: "(nat \<Rightarrow> u8 list \<Rightarrow> u32 \<Rightarrow> vfs \<Rightarrow> (u32 \<times> vfs) res) option"
  fo_readdir :: "(nat \<Rightarrow> nat \<Rightarrow> u8 list \<Rightarrow> u32 \<Rightarrow> vfs \<Rightarrow> (u32 \<times> u8 list \<times> vfs) res) option"
  fo_open :: "(nat \<Rightarrow> nat \<Rightarrow> vfs \<Rightarrow> vfs res) option"

definition f_op_write :: "nat \<Rightarrow> u8 list \<Rightarrow> u32 \<Rightarrow> vfs \<Rightarrow> (u32 \<times> vfs) res" where
  "f_op_write fd buf nbyte st = Inr (nbyte, st)"

definition f_op_read :: "nat \<Rightarrow> u8 list \<Rightarrow> u32 \<Rightarrow> vfs \<Rightarrow> (u32 \<times> u8 list \<times> vfs) res" where
  "f_op_read fd buf nbyte st = Inr (nbyte, buf, st)"

definition rootfs_f_op :: file_operation where
  "rootfs_f_op = \<lparr>fo_lseek = None, fo_read = Some f_op_read, fo_write = Some f_op_write,
     fo_readdir = None, fo_open = None\<rparr>"

fun fops :: "fop_table \<Rightarrow> file_operation" where
  "fops Rootfs_f_op = rootfs_f_op"

text \<open>\<^verbatim>\<open>file->op\<close>, followed.\<close>

definition op_of :: "fop_table option \<Rightarrow> file_operation res" where
  "op_of t = (case t of None \<Rightarrow> Inl NullDeref | Some t \<Rightarrow> Inr (fops t))"

subsection \<open>Descriptors\<close>

definition put_file :: "nat \<Rightarrow> (file_descriptor \<Rightarrow> file_descriptor) \<Rightarrow> vfs \<Rightarrow> vfs" where
  "put_file i f st = st\<lparr>f_desc_table := (f_desc_table st)[i := f (f_desc_table st ! i)]\<rparr>"

text \<open>\<^verbatim>\<open>current_thread->file_table[fd]\<close> for a signed \<^verbatim>\<open>fd\<close>, which the callers check from above.\<close>

definition file_at :: "vfs \<Rightarrow> u32 \<Rightarrow> nat option res" where
  "file_at st fd = (if sint fd < 0 then Inl OutOfBounds else arr_get (file_table st) (nat (sint fd)))"

text \<open>The first index of a list with a property: the two searches of \<^verbatim>\<open>sys_open\<close>.\<close>

fun first_index :: "('a \<Rightarrow> bool) \<Rightarrow> 'a list \<Rightarrow> nat \<Rightarrow> nat option" where
  "first_index P [] i = None"
| "first_index P (x # xs) i = (if P x then Some i else first_index P xs (Suc i))"

definition free_fd :: "vfs \<Rightarrow> nat option" where
  "free_fd st = first_index (\<lambda>f. f = None) (file_table st) 0"

definition free_file :: "vfs \<Rightarrow> nat option" where
  "free_file st = first_index (\<lambda>f. fd_inode f = None) (f_desc_table st) 0"

definition get_inode_by_filename :: "vfs \<Rightarrow> u8 list \<Rightarrow> (u32 \<times> nat option) res" where
  "get_inode_by_filename st filename =
     rbind (namei st filename) (\<lambda>(err, dirp).
       if err \<noteq> 0 then Inr (- 1, None)
       else rmap (\<lambda>d. (0, d_inode d)) (dent st dirp))"

definition sys_open :: "u8 list \<Rightarrow> vfs \<Rightarrow> (u32 \<times> vfs) res" where
  "sys_open path st =
     (case free_fd st of None \<Rightarrow> Inr (- 1, st) | Some fd \<Rightarrow>
      case free_file st of None \<Rightarrow> Inr (- 1, st) | Some i \<Rightarrow>
      rbind (get_inode_by_filename st path) (\<lambda>(err, p).
      if err \<noteq> 0 then Inr (- 1, st) else
      rbind (inode_at st p) (\<lambda>p_inode.
      let st1 = put_file i (\<lambda>f. f\<lparr>pos := 0, fd_inode := p, fd_op := f_op p_inode, fd_used_count := 1\<rparr>)
                  (st\<lparr>file_table := (file_table st)[fd := Some i]\<rparr>)
      in rbind (op_of (f_op p_inode)) (\<lambda>op.
         rbind (case fo_open op of None \<Rightarrow> Inr st1 | Some g \<Rightarrow> g (the p) i st1) (\<lambda>st2.
           Inr (of_nat fd, put_inode (the p) (\<lambda>j. j\<lparr>i_used_count := i_used_count j + 1\<rparr>) st2))))))"

definition sys_close :: "u32 \<Rightarrow> vfs \<Rightarrow> (u32 \<times> vfs) res" where
  "sys_close fd st =
     rbind (file_at st fd) (\<lambda>p.
     rbind (deref (f_desc_table st) p) (\<lambda>f.
       let st1 = put_file (the p) (\<lambda>f. f\<lparr>fd_used_count := fd_used_count f - 1\<rparr>) st
       in rbind (inode_at st1 (fd_inode f)) (\<lambda>_.
            let st2 = put_inode (the (fd_inode f)) (\<lambda>j. j\<lparr>i_used_count := i_used_count j - 1\<rparr>) st1
            in Inr (0, st2\<lparr>file_table := (file_table st2)[nat (sint fd) := None]\<rparr>))))"

text \<open>
  The checks at the head of the calls that take a descriptor: \<open>None\<close> when the descriptor is
  too large, is not open, or its file has no inode.
\<close>

definition open_file :: "u32 \<Rightarrow> vfs \<Rightarrow> (nat \<times> file_descriptor) option res" where
  "open_file fd st =
     (if sint fd \<ge> int PROC_FILES_MAX_COUNT then Inr None
      else rbind (file_at st fd) (\<lambda>p.
        if p = None then Inr None
        else rbind (deref (f_desc_table st) p) (\<lambda>f.
          if fd_inode f = None then Inr None else Inr (Some (the p, f)))))"

definition sys_write :: "u32 \<Rightarrow> u8 list \<Rightarrow> u32 \<Rightarrow> vfs \<Rightarrow> (u32 \<times> vfs) res" where
  "sys_write fd buf nbyte st =
     rbind (open_file fd st) (\<lambda>m. case m of
       None \<Rightarrow> Inr (- 1, st)
     | Some (i, file) \<Rightarrow>
         if nbyte = 0 then Inr (0, st)
         else rbind (op_of (fd_op file)) (\<lambda>op.
           case fo_write op of None \<Rightarrow> Inr (- 1, st) | Some g \<Rightarrow> g i buf nbyte st))"

definition sys_read :: "u32 \<Rightarrow> u8 list \<Rightarrow> u32 \<Rightarrow> vfs \<Rightarrow> (u32 \<times> u8 list \<times> vfs) res" where
  "sys_read fd buf nbyte st =
     rbind (open_file fd st) (\<lambda>m. case m of
       None \<Rightarrow> Inr (- 1, buf, st)
     | Some (i, file) \<Rightarrow>
         rbind (op_of (fd_op file)) (\<lambda>op.
           case fo_read op of None \<Rightarrow> Inr (- 1, buf, st) | Some g \<Rightarrow> g i buf nbyte st))"

text \<open>
  \<^verbatim>\<open>off_t\<close> is unsigned, so the first two tests for a negative position compare an unsigned
  number with 0; the third compares the \<^verbatim>\<open>int\<close> that the sum was stored in.
\<close>

definition sys_lseek :: "u32 \<Rightarrow> u32 \<Rightarrow> u32 \<Rightarrow> vfs \<Rightarrow> (u32 \<times> vfs) res" where
  "sys_lseek fd offset whence st =
     rbind (open_file fd st) (\<lambda>m. case m of
       None \<Rightarrow> Inr (- 1, st)
     | Some (i, file) \<Rightarrow>
         (case (case fd_op file of None \<Rightarrow> None | Some t \<Rightarrow> fo_lseek (fops t)) of
            Some g \<Rightarrow> g i offset whence st
          | None \<Rightarrow>
              if whence = 0 then
                (if offset < 0 then Inr (- 1, st)
                 else Inr (offset, put_file i (\<lambda>f. f\<lparr>pos := offset\<rparr>) st))
              else if whence = 1 then
                (if pos file + offset < 0 then Inr (- 1, st)
                 else Inr (pos file + offset, put_file i (\<lambda>f. f\<lparr>pos := pos file + offset\<rparr>) st))
              else if whence = 2 then
                rbind (inode_at st (fd_inode file)) (\<lambda>j.
                  let tmp = i_size j + offset in
                  if sint tmp < 0 then Inr (- 1, st)
                  else Inr (tmp, put_file i (\<lambda>f. f\<lparr>pos := tmp\<rparr>) st))
              else Inr (- 1, st)))"

text \<open>The argument is not checked: the null entry of a closed descriptor is followed.\<close>

definition sys_dup :: "u32 \<Rightarrow> vfs \<Rightarrow> (u32 \<times> vfs) res" where
  "sys_dup oldfd st =
     (case free_fd st of None \<Rightarrow> Inr (- 1, st) | Some fd \<Rightarrow>
      rbind (arr_get (file_table st) (unat oldfd)) (\<lambda>p.
      let st1 = st\<lparr>file_table := (file_table st)[fd := p]\<rparr> in
      rbind (arr_get (file_table st1) (unat oldfd)) (\<lambda>q.
      rbind (deref (f_desc_table st1) q) (\<lambda>f.
      rbind (inode_at st1 (fd_inode f)) (\<lambda>_.
        Inr (of_nat fd,
             put_file (the q) (\<lambda>f. f\<lparr>fd_used_count := fd_used_count f + 1\<rparr>)
               (put_inode (the (fd_inode f)) (\<lambda>j. j\<lparr>i_used_count := i_used_count j + 1\<rparr>) st1)))))))"

text \<open>Here \<^verbatim>\<open>fd\<close> is unsigned.\<close>

definition sys_getdents :: "u32 \<Rightarrow> u8 list \<Rightarrow> u32 \<Rightarrow> vfs \<Rightarrow> (u32 \<times> u8 list \<times> vfs) res" where
  "sys_getdents fd dirent count st =
     (if unat fd \<ge> PROC_FILES_MAX_COUNT then Inr (- 1, dirent, st)
      else rbind (arr_get (file_table st) (unat fd)) (\<lambda>p.
        if p = None then Inr (- 1, dirent, st)
        else rbind (deref (f_desc_table st) p) (\<lambda>file.
          if fd_inode file = None then Inr (- 1, dirent, st)
          else rbind (inode_at st (fd_inode file)) (\<lambda>j.
            if i_mode j \<noteq> FILE_MODE_DIR then Inr (- 1, dirent, st)
            else rbind (op_of (fd_op file)) (\<lambda>op.
              case fo_readdir op of
                None \<Rightarrow> Inr (0, dirent, st)
              | Some g \<Rightarrow> g (the (fd_inode file)) (the p) dirent count st)))))"

subsection \<open>Searches\<close>

lemma first_index_Some:
  "first_index P xs i = Some j \<Longrightarrow> i \<le> j \<and> j - i < length xs \<and> P (xs ! (j - i)) \<and> (\<forall>k < j - i. \<not> P (xs ! k))"
proof (induction xs arbitrary: i)
  case (Cons x xs)
  show ?case
  proof (cases "P x")
    case False
    then have "first_index P xs (Suc i) = Some j" using Cons.prems by simp
    from Cons.IH[OF this] have h: "Suc i \<le> j" "j - Suc i < length xs" "P (xs ! (j - Suc i))"
      "\<forall>k < j - Suc i. \<not> P (xs ! k)" by auto
    then have j: "j - i = Suc (j - Suc i)" by simp
    show ?thesis unfolding j using h False by (auto simp: less_Suc_eq_0_disj)
  qed (use Cons.prems in simp)
qed simp

lemma first_index_None: "first_index P xs i = None \<longleftrightarrow> (\<forall>x \<in> set xs. \<not> P x)"
  by (induction xs arbitrary: i) auto

lemma free_fd_Some:
  "free_fd st = Some fd \<Longrightarrow> fd < length (file_table st) \<and> file_table st ! fd = None \<and> (\<forall>k < fd. file_table st ! k \<noteq> None)"
  using first_index_Some[of "\<lambda>f. f = None" "file_table st" 0 fd] by (simp add: free_fd_def)

lemma free_file_Some:
  "free_file st = Some i \<Longrightarrow> i < length (f_desc_table st) \<and> fd_inode (f_desc_table st ! i) = None"
  using first_index_Some[of "\<lambda>f. fd_inode f = None" "f_desc_table st" 0 i] by (simp add: free_file_def)

lemma sint_of_small: "n < 2 ^ 31 \<Longrightarrow> sint (of_nat n :: u32) = int n"
  by (simp add: signed_of_nat signed_take_bit_int_eq_self)

lemma fops_tables [simp]:
  "fo_lseek (fops t) = None" "fo_open (fops t) = None" "fo_readdir (fops t) = None"
  "fo_read (fops t) = Some f_op_read" "fo_write (fops t) = Some f_op_write"
  by (cases t; simp add: rootfs_f_op_def)+

lemma no_lseek: "(case t of None \<Rightarrow> None | Some t \<Rightarrow> fo_lseek (fops t)) = None"
  by (simp split: option.split)

lemma op_of_Inr_conv: "op_of t = Inr op \<longleftrightarrow> (\<exists>x. t = Some x \<and> op = fops x)"
  by (auto simp: op_of_def split: option.splits)

lemma deref_Inr_conv: "deref xs p = Inr x \<longleftrightarrow> (\<exists>i. p = Some i \<and> i < length xs \<and> x = xs ! i)"
  by (cases p) (auto simp: deref_def arr_get_Inr_conv)

lemma deref_in [simp]: "i < length xs \<Longrightarrow> deref xs (Some i) = Inr (xs ! i)"
  by (simp add: deref_Inr_conv)

lemma put_simps [simp]:
  "file_table (put_file i f st) = file_table st" "inode_table (put_file i f st) = inode_table st"
  "f_desc_table (put_file i f st) = (f_desc_table st)[i := f (f_desc_table st ! i)]"
  "file_table (put_inode k g st) = file_table st" "f_desc_table (put_inode k g st) = f_desc_table st"
  "inode_table (put_inode k g st) = (inode_table st)[k := g (inode_table st ! k)]"
  by (simp_all add: put_file_def put_inode_def)

lemma set_own_pos: "pos f = p \<Longrightarrow> f\<lparr>pos := p\<rparr> = f" for f :: file_descriptor
  by (cases f) simp

subsection \<open>What a successful call does\<close>

lemma sys_open_cases:
  assumes "sys_open path st = Inr (r, st')"
  shows "(r = - 1 \<and> st' = st) \<or>
    (\<exists>fd i k t. free_fd st = Some fd \<and> free_file st = Some i \<and> get_inode_by_filename st path = Inr (0, Some k)
       \<and> k < length (inode_table st) \<and> f_op (inode_table st ! k) = Some t \<and> r = of_nat fd
       \<and> file_table st' = (file_table st)[fd := Some i]
       \<and> f_desc_table st' = (f_desc_table st)[i := (f_desc_table st ! i)
            \<lparr>pos := 0, fd_inode := Some k, fd_op := Some t, fd_used_count := 1\<rparr>]
       \<and> i_used_count (inode_table st' ! k) = i_used_count (inode_table st ! k) + 1)"
proof (cases "free_fd st")
  case fd: (Some fd)
  show ?thesis
  proof (cases "free_file st")
    case i: (Some i)
    obtain e p where g: "get_inode_by_filename st path = Inr (e, p)"
      using assms fd i by (auto simp: sys_open_def rbind_Inr_conv)
    show ?thesis
    proof (cases "e = 0")
      case True
      then obtain k where k: "p = Some k" "k < length (inode_table st)"
        using assms fd i g by (auto simp: sys_open_def rbind_Inr_conv inode_at_def deref_Inr_conv)
      then obtain t where t: "f_op (inode_table st ! k) = Some t"
        using assms fd i g True
        by (auto simp: sys_open_def rbind_Inr_conv inode_at_def op_of_Inr_conv Let_def)
      then show ?thesis
        using assms fd i g True k
        by (auto simp: sys_open_def inode_at_def op_of_def)
    qed (use assms fd i g in \<open>simp add: sys_open_def\<close>)
  qed (use assms fd in \<open>simp add: sys_open_def\<close>)
qed (use assms in \<open>simp add: sys_open_def\<close>)

lemma sys_close_tables:
  assumes "sys_close fd st = Inr (r, st')"
  shows "\<exists>i. file_at st fd = Inr (Some i) \<and> i < length (f_desc_table st) \<and> r = 0
     \<and> file_table st' = (file_table st)[nat (sint fd) := None]
     \<and> f_desc_table st' = (f_desc_table st)[i := (f_desc_table st ! i)
          \<lparr>fd_used_count := fd_used_count (f_desc_table st ! i) - 1\<rparr>]"
  using assms by (auto simp: sys_close_def rbind_Inr_conv inode_at_def deref_Inr_conv Let_def)

lemma sys_dup_tables:
  assumes "sys_dup oldfd st = Inr (r, st')"
  shows "(r = - 1 \<and> st' = st) \<or>
    (\<exists>fd i. free_fd st = Some fd \<and> unat oldfd < length (file_table st) \<and> fd \<noteq> unat oldfd
       \<and> file_table st ! unat oldfd = Some i \<and> i < length (f_desc_table st) \<and> r = of_nat fd
       \<and> fd_inode (f_desc_table st ! i) \<noteq> None
       \<and> file_table st' = (file_table st)[fd := Some i] \<and> f_desc_table st' = (f_desc_table st)[i := (f_desc_table st ! i)
          \<lparr>fd_used_count := fd_used_count (f_desc_table st ! i) + 1\<rparr>])"
  using assms free_fd_Some[of st]
  by (auto simp: sys_dup_def rbind_Inr_conv inode_at_def deref_Inr_conv arr_get_Inr_conv Let_def
      nth_list_update split: option.splits if_splits)

lemma open_file_Inr:
  "open_file fd st = Inr (Some (i, f)) \<Longrightarrow> i < length (f_desc_table st) \<and> f = f_desc_table st ! i \<and> fd_inode f \<noteq> None
     \<and> 0 \<le> sint fd \<and> nat (sint fd) < length (file_table st) \<and> file_table st ! nat (sint fd) = Some i
     \<and> sint fd < int PROC_FILES_MAX_COUNT"
  by (auto simp: open_file_def rbind_Inr_conv deref_Inr_conv file_at_def arr_get_Inr_conv split: if_splits)

lemma sys_write_state: "sys_write fd buf n st = Inr (r, st') \<Longrightarrow> st' = st"
  by (cases "open_file fd st"; cases "projr (open_file fd st)")
     (auto simp: sys_write_def rbind_Inr_conv op_of_Inr_conv f_op_write_def split: if_split_asm)

lemma sys_read_state: "sys_read fd buf n st = Inr (r, buf', st') \<Longrightarrow> st' = st \<and> buf' = buf"
  by (cases "open_file fd st"; cases "projr (open_file fd st)")
     (auto simp: sys_read_def rbind_Inr_conv op_of_Inr_conv f_op_read_def)

lemma sys_lseek_tables:
  assumes "sys_lseek fd off wh st = Inr (r, st')"
  shows "file_table st' = file_table st \<and> (f_desc_table st' = f_desc_table st \<or>
     (\<exists>i p. i < length (f_desc_table st) \<and> f_desc_table st' = (f_desc_table st)[i := (f_desc_table st ! i)\<lparr>pos := p\<rparr>]))"
proof -
  obtain m where m: "open_file fd st = Inr m" using assms by (auto simp: sys_lseek_def rbind_Inr_conv)
  show ?thesis
  proof (cases m)
    case None
    then show ?thesis using assms m by (simp add: sys_lseek_def)
  next
    case (Some x)
    then obtain i f where x: "m = Some (i, f)" by (cases x) auto
    note no_lseek[of "fd_op f"]
    then have "st' = st \<or> (\<exists>p. st' = put_file i (\<lambda>f. f\<lparr>pos := p\<rparr>) st)"
      using assms m x by (auto simp: sys_lseek_def rbind_Inr_conv Let_def split: if_split_asm)
    moreover have "i < length (f_desc_table st)" using open_file_Inr m x by blast
    ultimately show ?thesis by (elim disjE exE; simp) blast
  qed
qed

subsection \<open>Runs of file calls\<close>

datatype file_call =
    Open "u8 list"
  | Close u32
  | Dup u32
  | Lseek u32 u32 u32
  | Read u32 "u8 list" u32
  | Write u32 "u8 list" u32

fun file_step :: "file_call \<Rightarrow> vfs \<Rightarrow> (u32 \<times> vfs) res" where
  "file_step (Open p) st = sys_open p st"
| "file_step (Close fd) st = sys_close fd st"
| "file_step (Dup fd) st = sys_dup fd st"
| "file_step (Lseek fd off wh) st = sys_lseek fd off wh st"
| "file_step (Read fd buf n) st = rmap (\<lambda>(r, b, s). (r, s)) (sys_read fd buf n st)"
| "file_step (Write fd buf n) st = sys_write fd buf n st"

fun file_run :: "file_call list \<Rightarrow> vfs \<Rightarrow> (u32 list \<times> vfs) res" where
  "file_run [] st = Inr ([], st)"
| "file_run (c # cs) st =
     rbind (file_step c st) (\<lambda>(r, st1). rmap (\<lambda>(rs, st2). (r # rs, st2)) (file_run cs st1))"

text \<open>The number of opens that succeeded, and of entries of the open file table in use.\<close>

fun opened :: "file_call \<Rightarrow> u32 \<Rightarrow> nat" where
  "opened (Open p) r = (if r = - 1 then 0 else 1)"
| "opened _ r = 0"

fun opens :: "file_call list \<Rightarrow> u32 list \<Rightarrow> nat" where
  "opens (c # cs) (r # rs) = opened c r + opens cs rs"
| "opens _ _ = 0"

definition busy :: "vfs \<Rightarrow> nat" where
  "busy st = length (filter (\<lambda>p. p \<noteq> None) (map fd_inode (f_desc_table st)))"

lemma filter_update_Suc:
  "i < length xs \<Longrightarrow> \<not> P (xs ! i) \<Longrightarrow> P y \<Longrightarrow> length (filter P (xs[i := y])) = Suc (length (filter P xs))"
  by (induction xs arbitrary: i) (auto split: nat.splits)

lemma minus_one_of_nat: "n < 1024 \<Longrightarrow> (of_nat n :: u32) \<noteq> - 1"
proof
  assume "n < 1024" "(of_nat n :: u32) = - 1"
  then have "sint (of_nat n :: u32) = sint (- 1 :: u32)" by simp
  then show False using sint_of_small[of n] \<open>n < 1024\<close> by simp
qed

lemma inodes_update: "fd_inode f = fd_inode (xs ! i) \<Longrightarrow> map fd_inode (xs[i := f]) = map fd_inode xs"
  by (simp add: map_update list_update_same_conv) (metis list_update_beyond list_update_id map_update not_le)

lemma busy_same: "map fd_inode (f_desc_table a) = map fd_inode (f_desc_table b) \<Longrightarrow> busy a = busy b"
  by (simp add: busy_def del: filter_map)

lemma file_step_busy:
  assumes "length (file_table st) = 1024" and "file_step c st = Inr (r, st')"
  shows "length (file_table st') = 1024 \<and> length (f_desc_table st') = length (f_desc_table st)
     \<and> busy st' = busy st + opened c r"
proof (cases c)
  case (Open p)
  from sys_open_cases[of p st r st'] assms Open
  consider "r = - 1" "st' = st" | fd i k t where "free_fd st = Some fd" "free_file st = Some i" "r = of_nat fd"
    "file_table st' = (file_table st)[fd := Some i]"
    "f_desc_table st' = (f_desc_table st)[i := (f_desc_table st ! i)
        \<lparr>pos := 0, fd_inode := Some k, fd_op := Some t, fd_used_count := 1\<rparr>]" by auto
  then show ?thesis
  proof cases
    case (2 fd i k t)
    have "r \<noteq> - 1" using free_fd_Some[OF 2(1)] assms(1) 2(3) minus_one_of_nat by simp
    then show ?thesis
      using 2 Open assms(1) free_file_Some[OF 2(2)] by (simp add: busy_def map_update filter_update_Suc)
  qed (use assms Open in \<open>simp add: busy_def\<close>)
next
  case (Close fd)
  then show ?thesis using assms sys_close_tables[of fd st r st'] by (auto intro!: busy_same simp: inodes_update)
next
  case (Dup fd)
  then show ?thesis using assms sys_dup_tables[of fd st r st'] by (auto intro!: busy_same simp: inodes_update)
next
  case (Lseek fd off wh)
  then show ?thesis using assms sys_lseek_tables[of fd off wh st r st'] by (auto intro!: busy_same simp: inodes_update)
next
  case (Read fd buf n)
  then show ?thesis using assms sys_read_state[of fd buf n st] by (auto simp: rmap_Inr_conv)
next
  case (Write fd buf n)
  then show ?thesis using assms sys_write_state[of fd buf n st] by auto
qed

lemma file_run_busy:
  "length (file_table st) = 1024 \<Longrightarrow> file_run cs st = Inr (rs, st') \<Longrightarrow>
   length (file_table st') = 1024 \<and> length (f_desc_table st') = length (f_desc_table st)
     \<and> busy st' = busy st + opens cs rs"
proof (induction cs arbitrary: st rs)
  case (Cons c cs)
  obtain r st1 rs1 where s: "file_step c st = Inr (r, st1)" "file_run cs st1 = Inr (rs1, st')" "rs = r # rs1"
    using Cons.prems(2) by (auto simp: rbind_Inr_conv rmap_Inr_conv)
  show ?case using Cons.IH[OF _ s(2)] file_step_busy[OF Cons.prems(1) s(1)] s(3) by simp
qed simp

lemma busy_bound: "busy st \<le> length (f_desc_table st)"
  unfolding busy_def by (metis length_filter_le length_map)

subsection \<open>Properties\<close>

text \<open>
  C37. A successful \<^verbatim>\<open>sys_open\<close> returns the lowest descriptor that was not open, which then
  refers to an entry of the open file table that was not in use, at position 0 and with the
  inode the path leads to; no other entry and no other descriptor changes.
\<close>

theorem open_takes_lowest_descriptor:
  assumes "length (file_table st) = PROC_FILES_MAX_COUNT" and "sys_open path st = Inr (r, st')" and "r \<noteq> - 1"
  shows "\<exists>fd i k. r = of_nat fd \<and> fd < PROC_FILES_MAX_COUNT \<and> file_table st ! fd = None
     \<and> (\<forall>j < fd. file_table st ! j \<noteq> None) \<and> file_table st' = (file_table st)[fd := Some i]
     \<and> fd_inode (f_desc_table st ! i) = None \<and> (\<forall>j. j \<noteq> i \<longrightarrow> f_desc_table st' ! j = f_desc_table st ! j)
     \<and> get_inode_by_filename st path = Inr (0, Some k)
     \<and> fd_inode (f_desc_table st' ! i) = Some k \<and> pos (f_desc_table st' ! i) = 0"
proof -
  obtain fd i k t where o: "free_fd st = Some fd" "free_file st = Some i"
    "get_inode_by_filename st path = Inr (0, Some k)" "r = of_nat fd" "file_table st' = (file_table st)[fd := Some i]"
    "f_desc_table st' = (f_desc_table st)[i := (f_desc_table st ! i)
        \<lparr>pos := 0, fd_inode := Some k, fd_op := Some t, fd_used_count := 1\<rparr>]"
    using sys_open_cases[OF assms(2)] assms(3) by blast
  have i: "i < length (f_desc_table st)" "fd_inode (f_desc_table st ! i) = None"
    using free_file_Some[OF o(2)] by simp_all
  show ?thesis
    by (intro exI[of _ fd] exI[of _ i] exI[of _ k]) (use o i free_fd_Some[OF o(1)] assms(1) in simp)
qed

text \<open>
  CX (a flaw of the code). Entries of the open file table are never released: \<^verbatim>\<open>sys_close\<close>
  counts the use down and clears the descriptor, but leaves the inode that marks the entry
  as used. In any run of file calls the successful opens, closed again or not, together with
  the entries in use at the start, are at most the entries of the table; once that many
  opens have succeeded every later one fails.
\<close>

theorem open_files_are_never_released:
  assumes "length (file_table st) = PROC_FILES_MAX_COUNT" and "file_run cs st = Inr (rs, st')"
  shows "busy st' = busy st + opens cs rs \<and> busy st + opens cs rs \<le> length (f_desc_table st)"
  using file_run_busy[of st cs rs st'] busy_bound[of st'] assms by (simp add: PROC_FILES_MAX_COUNT_def)

text \<open>
  The descriptor \<^verbatim>\<open>sys_dup\<close> returns is the lowest one that was not open, and it shares the
  open file, hence the position, with the old one: after a seek through one of them, asking
  for the position through the other returns what the seek returned.
\<close>

theorem dup_shares_the_position:
  assumes "length (file_table st) = PROC_FILES_MAX_COUNT" and "sys_dup oldfd st = Inr (r, st')" and "r \<noteq> - 1"
    and "sys_lseek r off 0 st' = Inr (p, st'')"
  shows "p = off \<and> (\<exists>fd. r = of_nat fd \<and> file_table st ! fd = None \<and> (\<forall>j < fd. file_table st ! j \<noteq> None))
     \<and> sys_lseek oldfd 0 1 st'' = Inr (p, st'')"
proof -
  obtain fd i where d: "free_fd st = Some fd" "unat oldfd < 1024" "fd \<noteq> unat oldfd"
    "file_table st ! unat oldfd = Some i" "i < length (f_desc_table st)" "r = of_nat fd"
    "fd_inode (f_desc_table st ! i) \<noteq> None"
    "file_table st' = (file_table st)[fd := Some i]" "f_desc_table st' = (f_desc_table st)[i := (f_desc_table st ! i)
          \<lparr>fd_used_count := fd_used_count (f_desc_table st ! i) + 1\<rparr>]"
    using sys_dup_tables[OF assms(2)] assms(1,3) by (auto simp: PROC_FILES_MAX_COUNT_def)
  note fd = free_fd_Some[OF d(1)]
  have old: "sint oldfd = int (unat oldfd)" using sint_of_small[of "unat oldfd"] d(2) by simp
  have "int (unat oldfd) < 1024" using d(2) by linarith
  then have oldu: "uint oldfd < 1024" by simp
  have new: "sint r = int fd" using sint_of_small[of fd] fd assms(1) d(6) by (simp add: PROC_FILES_MAX_COUNT_def)
  have lt: "fd < 1024" "length (file_table st) = 1024" using fd assms(1) by (simp_all add: PROC_FILES_MAX_COUNT_def)
  note op = no_lseek
  have o1: "open_file r st' = Inr (Some (i, f_desc_table st' ! i))"
    using d lt new by (auto simp: open_file_def file_at_def PROC_FILES_MAX_COUNT_def)
  then have s: "p = off" "st'' = put_file i (\<lambda>f. f\<lparr>pos := off\<rparr>) st'"
    using assms(4) op by (auto simp: sys_lseek_def)
  have "open_file oldfd st'' = Inr (Some (i, f_desc_table st'' ! i))"
    using d lt old oldu s(2) by (auto simp: open_file_def file_at_def PROC_FILES_MAX_COUNT_def)
  moreover have "pos (f_desc_table st'' ! i) = off" using d(5,9) s(2) by simp
  moreover then have "put_file i (\<lambda>f. f\<lparr>pos := off\<rparr>) st'' = st''"
    by (simp only: put_file_def set_own_pos list_update_id) simp
  ultimately have "sys_lseek oldfd 0 1 st'' = Inr (p, st'')"
    using op s(1) by (simp add: sys_lseek_def)
  then show ?thesis using s(1) d(6) fd by blast
qed

text \<open>
  CX (a flaw of the code). A name that does not exist is not reported. When no entry of a
  directory of the root file system has the name, \<^verbatim>\<open>namei\<close> returns 0 with a null entry, and
  \<^verbatim>\<open>sys_open\<close> of the path, with a descriptor and an entry left, follows the null pointer.
\<close>

theorem missing_name_is_not_reported:
  assumes "vfs_wf st" and "reaches st (root st) cs (Some d)" and "d < length (dentries st)"
    and "ordinary name" and "child_named st d name = None"
    and "inode_op (inode_table st ! the (d_inode (dentries st ! d))) \<noteq> None"
  shows "namei st (47 # path_of cs name r) = Inr (0, None) \<and>
     (free_fd st \<noteq> None \<and> free_file st \<noteq> None \<longrightarrow> sys_open (47 # path_of cs name r) st = Inl NullDeref)"
proof -
  have "namei st (47 # path_of cs name r) = Inr (0, None)"
    using namei_absolute[OF assms(2) ordinary_component[OF assms(4)]] lookup_ordinary[OF assms(1,3,4)] assms(5,6)
    by auto
  then show ?thesis by (auto simp: sys_open_def get_inode_by_filename_def dent_def deref_def)
qed

subsection \<open>The calls on a concrete tree\<close>

lemma first_index_eqI:
  "j < length xs \<Longrightarrow> P (xs ! j) \<Longrightarrow> \<forall>k < j. \<not> P (xs ! k) \<Longrightarrow> first_index P xs i = Some (i + j)"
proof (induction xs arbitrary: i j)
  case (Cons x xs)
  show ?case
  proof (cases j)
    case (Suc j')
    then have "\<not> P x" "\<forall>k < j'. \<not> P (xs ! k)" using Cons.prems(3) by (auto dest: spec[of _ "Suc _"])
    then show ?thesis using Cons.IH[of j' "Suc i"] Cons.prems Suc by simp
  qed (use Cons.prems in simp)
qed simp

lemma namei_slash: "namei st [47, 0] = Inr (0, root st)"
  by (simp add: namei_def namei_base_def get_parent_dir_entry_def walk.simps lookup_def)

text \<open>Opening the root directory when \<open>n\<close> descriptors and \<open>m\<close> entries have been used.\<close>

definition root_open :: "nat \<Rightarrow> nat \<Rightarrow> vfs \<Rightarrow> vfs" where
  "root_open n m st =
     put_inode 0 (\<lambda>j. j\<lparr>i_used_count := i_used_count j + 1\<rparr>)
       (put_file m (\<lambda>f. f\<lparr>pos := 0, fd_inode := Some 0, fd_op := Some Rootfs_f_op, fd_used_count := 1\<rparr>)
          (st\<lparr>file_table := (file_table st)[n := Some m]\<rparr>))"

lemma sys_open_root:
  assumes "free_fd st = Some n" and "free_file st = Some m" and "root st = Some 0"
    and "dentries st = dentries rooted" and "length (inode_table st) = 2048"
    and "f_op (inode_table st ! 0) = Some Rootfs_f_op"
  shows "sys_open [47, 0] st = Inr (of_nat n, root_open n m st)"
  using assms
  by (simp add: sys_open_def get_inode_by_filename_def namei_slash inode_at_def op_of_def dent_def root_open_def rootfs_f_op_def Let_def)

lemma rooted_free: "free_fd rooted = Some 0" "free_file rooted = Some 0"
  by (simp_all add: free_fd_def free_file_def first_index_eqI[of 0 _ _ 0, simplified] zero_file_def)

lemma open_root: "sys_open [47, 0] rooted = Inr (0, root_open 0 0 rooted)"
  using sys_open_root[of rooted 0 0] rooted_free by simp

theorem open_takes_lowest_descriptor_witness:
  "\<exists>st' i. sys_open [47, 0] rooted = Inr (0, st') \<and> file_table st' ! 0 = Some i \<and> pos (f_desc_table st' ! i) = 0"
proof -
  obtain fd i k where "0 = (of_nat fd :: u32)" "fd < PROC_FILES_MAX_COUNT" "file_table (root_open 0 0 rooted) = (file_table rooted)[fd := Some i]"
    "pos (f_desc_table (root_open 0 0 rooted) ! i) = 0"
    using open_takes_lowest_descriptor[OF _ open_root] by (auto simp: PROC_FILES_MAX_COUNT_def)
  moreover then have "fd = 0" using sint_of_small[of fd] by (simp add: PROC_FILES_MAX_COUNT_def)
  ultimately show ?thesis using open_root by auto
qed

lemma close_open_root:
  "\<exists>st'. file_run [Open [47, 0], Close 0, Open [47, 0]] rooted = Inr ([0, 0, 0], st')"
proof -
  let ?s = "root_open 0 0 rooted"
  have f: "dentries ?s = dentries rooted" "root ?s = Some 0" "f_op (inode_table ?s ! 0) = Some Rootfs_f_op"
    "length (inode_table ?s) = 2048" "file_table ?s = (replicate 1024 None)[0 := Some 0]"
    "f_desc_table ?s = (replicate 2048 zero_file)[0 := zero_file\<lparr>pos := 0, fd_inode := Some 0, fd_op := Some Rootfs_f_op, fd_used_count := 1\<rparr>]"
    by (simp_all add: root_open_def put_file_def put_inode_def)
  obtain t where c: "sys_close 0 ?s = Inr (0, t)" "dentries t = dentries rooted" "root t = Some 0"
    "f_op (inode_table t ! 0) = Some Rootfs_f_op" "length (inode_table t) = 2048"
    "file_table t = replicate 1024 None" "f_desc_table t = (replicate 2048 zero_file)[0 := zero_file\<lparr>pos := 0, fd_inode := Some 0, fd_op := Some Rootfs_f_op, fd_used_count := 0\<rparr>]"
    using f by (simp add: sys_close_def file_at_def inode_at_def put_file_def put_inode_def Let_def list_update_same_conv)
  have "free_fd t = Some 0" "free_file t = Some 1"
    using first_index_eqI[of 0 "file_table t" "\<lambda>f. f = None" 0]
      first_index_eqI[of 1 "f_desc_table t" "\<lambda>f. fd_inode f = None" 0]
    by (simp_all add: c free_fd_def free_file_def zero_file_def)
  then have "sys_open [47, 0] t = Inr (0, root_open 0 1 t)" using sys_open_root[of t 0 1] c by simp
  then show ?thesis using open_root c(1) by simp
qed

theorem open_files_are_never_released_witness:
  "\<exists>st'. file_run [Open [47, 0], Close 0, Open [47, 0]] rooted = Inr ([0, 0, 0], st') \<and> busy st' = 2"
proof -
  obtain st' where r: "file_run [Open [47, 0], Close 0, Open [47, 0]] rooted = Inr ([0, 0, 0], st')"
    using close_open_root by blast
  have "busy rooted = 0" by (simp add: busy_def zero_file_def)
  then have "busy st' = 2"
    using open_files_are_never_released[OF _ r] by (simp add: PROC_FILES_MAX_COUNT_def)
  then show ?thesis using r by blast
qed

theorem dup_shares_the_position_witness:
  "\<exists>st1 st2. sys_dup 0 (root_open 0 0 rooted) = Inr (1, st1) \<and> sys_lseek 1 100 0 st1 = Inr (100, st2)
     \<and> sys_lseek 0 0 1 st2 = Inr (100, st2)"
proof -
  let ?s = "root_open 0 0 rooted"
  have f: "length (inode_table ?s) = 2048" "file_table ?s = (replicate 1024 None)[0 := Some 0]"
    "f_desc_table ?s = (replicate 2048 zero_file)[0 := zero_file\<lparr>pos := 0, fd_inode := Some 0, fd_op := Some Rootfs_f_op, fd_used_count := 1\<rparr>]"
    by (simp_all add: root_open_def put_file_def put_inode_def)
  have "free_fd ?s = Some 1"
    using first_index_eqI[of 1 "file_table ?s" "\<lambda>f. f = None" 0] by (simp add: f free_fd_def)
  then obtain t where d: "sys_dup 0 ?s = Inr (1, t)" "file_table t = (replicate 1024 None)[0 := Some 0, 1 := Some 0]"
    "f_desc_table t = (replicate 2048 zero_file)[0 := zero_file\<lparr>pos := 0, fd_inode := Some 0, fd_op := Some Rootfs_f_op, fd_used_count := 2\<rparr>]"
    by (simp add: sys_dup_def inode_at_def f Let_def)
  have "open_file 1 t = Inr (Some (0, f_desc_table t ! 0))"
    by (simp add: open_file_def file_at_def d PROC_FILES_MAX_COUNT_def)
  then obtain st2 where l: "sys_lseek 1 100 0 t = Inr (100, st2)"
    by (auto simp: sys_lseek_def no_lseek)
  have "sys_lseek 0 0 1 st2 = Inr (100, st2)"
    using dup_shares_the_position[OF _ d(1) _ l] f(2) by (simp add: PROC_FILES_MAX_COUNT_def)
  then show ?thesis using d(1) l by blast
qed

theorem missing_name_is_not_reported_witness:
  "namei rooted [47, 117, 115, 114, 0] = Inr (0, None) \<and> sys_open [47, 117, 115, 114, 0] rooted = Inl NullDeref"
  using missing_name_is_not_reported[OF rooted_wf, of "[]" 0 usr "[]"] usr_ordinary rooted_free
  by (simp add: child_named_def usr_def)

end
