(* ===== verification/Threads.thy ===== *)
theory Threads
  imports Paging FileOps Printf Desc
begin

text \<open>
  Threads: kernel/thread.c, kernel/schedule.c and \<^verbatim>\<open>init_fork\<close>, \<^verbatim>\<open>init1_fork\<close> of kernel/kernel.c with
  include/system/thread.h. The structures \<^verbatim>\<open>struct thread\<close> that \<^verbatim>\<open>kzmalloc\<close> hands out, and the
  descriptor tables they point to, live in growing lists, and a pointer to one is an index; what
  the allocator guarantees is shown in Kmalloc. The threads form a ring through \<open>prev\<close> and \<open>next\<close>.
  The debugging output of the functions is left out.
\<close>

unbundle bit_operations_syntax

subsection \<open>State\<close>

record stack_frame =
  r_gs :: u32
  r_fs :: u32
  r_es :: u32
  r_ds :: u32
  r_edi :: u32
  r_esi :: u32
  r_ebp :: u32
  r_kernel_esp :: u32
  r_ebx :: u32
  r_edx :: u32
  r_ecx :: u32
  r_eax :: u32
  r_retaddr :: u32
  r_eip :: u32
  r_cs :: u32
  r_eflags :: u32
  r_esp :: u32
  r_ss :: u32

record kernel_frame =
  k_esp :: u32
  k_esp_addr :: u32
  k_eip :: u32

record thread =
  regs :: stack_frame
  kernel_regs :: kernel_frame
  th_pid :: u32
  th_status :: u32
  th_flag :: u32
  parent_pid :: u32
  th_name :: "u8 list"
  th_alarm :: u32
  th_files :: "nat option"
  th_root :: "nat option"
  th_pwd :: "nat option"
  exit_code :: u8
  page_dir :: "nat option"
  th_prev :: "nat option"
  th_next :: "nat option"

record threads =
  thread_heap :: "thread list"
  files_heap :: "nat option list list"
  thread_table :: "nat option"
  current_thread :: "nat option"
  pid_count :: u32
  th_vm :: vm
  th_vfs :: vfs

definition THREAD_TYPE_KERNEL :: u32 where "THREAD_TYPE_KERNEL = 1"
definition TASK_RUNNING :: u32 where "TASK_RUNNING = 0"
definition PROC_STACK_TOP :: u32 where "PROC_STACK_TOP = 0x8000000"

definition SA_RPL_MASK :: u32 where "SA_RPL_MASK = 0xFFFC"
definition SA_RPL0 :: u32 where "SA_RPL0 = 0"
definition SA_RPL3 :: u32 where "SA_RPL3 = 3"
definition GDT_SEL_KERNEL_CODE :: u32 where "GDT_SEL_KERNEL_CODE = 0x8 OR SA_RPL0"
definition GDT_SEL_KERNEL_DATA :: u32 where "GDT_SEL_KERNEL_DATA = 0x10 OR SA_RPL0"
definition GDT_SEL_VIDEO :: u32 where "GDT_SEL_VIDEO = 0x18 OR SA_RPL3"
definition GDT_SEL_USER_CODE :: u32 where "GDT_SEL_USER_CODE = 0x20 OR SA_RPL3"
definition GDT_SEL_USER_DATA :: u32 where "GDT_SEL_USER_DATA = 0x28 OR SA_RPL3"

text \<open>The address at which the kernel sees a frame.\<close>

definition frame_va :: "nat \<Rightarrow> u32" where
  "frame_va f = of_nat (va (PAGE_SIZE * f))"

definition zero_frame :: stack_frame where
  "zero_frame = \<lparr>r_gs = 0, r_fs = 0, r_es = 0, r_ds = 0, r_edi = 0, r_esi = 0, r_ebp = 0, r_kernel_esp = 0, r_ebx = 0,
     r_edx = 0, r_ecx = 0, r_eax = 0, r_retaddr = 0, r_eip = 0, r_cs = 0, r_eflags = 0, r_esp = 0, r_ss = 0\<rparr>"

text \<open>Writing through a pointer to a thread.\<close>

definition upd_thread :: "nat option \<Rightarrow> (thread \<Rightarrow> thread) \<Rightarrow> threads \<Rightarrow> threads res" where
  "upd_thread p g st =
     rbind (deref (thread_heap st) p) (\<lambda>t. Inr (st\<lparr>thread_heap := (thread_heap st)[the p := g t]\<rparr>))"

subsection \<open>Creation\<close>

text \<open>The segment registers and the stack of a kernel thread and of a user thread.\<close>

definition kernel_frame_regs :: "u32 \<Rightarrow> stack_frame" where
  "kernel_frame_regs sp =
     (let data = (GDT_SEL_KERNEL_DATA AND SA_RPL_MASK) OR SA_RPL0 in
      zero_frame\<lparr>r_cs := (GDT_SEL_KERNEL_CODE AND SA_RPL_MASK) OR SA_RPL0, r_ds := data, r_es := data, r_fs := data,
        r_ss := data, r_gs := (GDT_SEL_VIDEO AND SA_RPL_MASK) OR SA_RPL0, r_kernel_esp := sp\<rparr>)"

definition user_frame_regs :: stack_frame where
  "user_frame_regs =
     (let data = (GDT_SEL_USER_DATA AND SA_RPL_MASK) OR SA_RPL3 in
      zero_frame\<lparr>r_cs := (GDT_SEL_USER_CODE AND SA_RPL_MASK) OR SA_RPL3, r_ds := data, r_es := data, r_fs := data,
        r_ss := data, r_gs := (GDT_SEL_VIDEO AND SA_RPL_MASK) OR SA_RPL3, r_esp := PROC_STACK_TOP\<rparr>)"

definition start_regs :: "u32 \<Rightarrow> vm \<Rightarrow> (vm \<times> stack_frame) res" where
  "start_regs fl m =
     (if fl AND THREAD_TYPE_KERNEL = THREAD_TYPE_KERNEL
      then rmap (\<lambda>(m', f). (m', kernel_frame_regs (frame_va (f + 1)))) (alloc_frame m)
      else Inr (m, user_frame_regs))"

text \<open>The new thread is put before the first one of the ring: at its end.\<close>

definition link_thread :: "nat \<Rightarrow> threads \<Rightarrow> threads res" where
  "link_thread a st =
     (case thread_table st of
        None \<Rightarrow> upd_thread (Some a) (\<lambda>t. t\<lparr>th_next := Some a, th_prev := Some a\<rparr>) (st\<lparr>thread_table := Some a\<rparr>)
      | Some h \<Rightarrow>
          rbind (deref (thread_heap st) (Some h)) (\<lambda>head.
          rbind (upd_thread (Some a) (\<lambda>t. t\<lparr>th_next := Some h, th_prev := th_prev head\<rparr>) st) (\<lambda>st1.
          rbind (upd_thread (th_prev head) (\<lambda>t. t\<lparr>th_next := Some a\<rparr>) st1)
            (upd_thread (Some h) (\<lambda>t. t\<lparr>th_prev := Some a\<rparr>)))))"

definition thread_create :: "u8 list \<Rightarrow> u32 \<Rightarrow> u32 \<Rightarrow> threads \<Rightarrow> (threads \<times> nat) res" where
  "thread_create name handle fl st =
     (let a = length (thread_heap st); t = length (files_heap st) in
      rbind (sprintf (\<lambda>_. []) (replicate 256 0) name []) (\<lambda>(nm, _, _).
      rbind (start_regs fl (th_vm st)) (\<lambda>(m, r).
      let th = \<lparr>regs = r\<lparr>r_eip := handle, r_eflags := 0x3202\<rparr>, kernel_regs = \<lparr>k_esp = 0, k_esp_addr = 0, k_eip = 0\<rparr>,
            th_pid = pid_count st, th_status = 0, th_flag = fl, parent_pid = - 1, th_name = nm, th_alarm = 0,
            th_files = Some t, th_root = None, th_pwd = None, exit_code = 0, page_dir = None,
            th_prev = None, th_next = None\<rparr>
      in rmap (\<lambda>st'. (st'\<lparr>current_thread := Some a\<rparr>, a))
           (link_thread a (st\<lparr>thread_heap := thread_heap st @ [th], files_heap := files_heap st @ [replicate PROC_FILES_MAX_COUNT None],
              pid_count := pid_count st + 1, th_vm := m\<rparr>)))))"

subsection \<open>Fork\<close>

text \<open>
  A descriptor of the copied table: the inode it refers to and the open file are counted.
\<close>

definition share_file :: "nat option \<Rightarrow> vfs \<Rightarrow> vfs res" where
  "share_file p fs =
     (case p of
        None \<Rightarrow> Inr fs
      | Some i \<Rightarrow>
          rbind (arr_get (f_desc_table fs) i) (\<lambda>f.
          rbind (deref (inode_table fs) (fd_inode f)) (\<lambda>_.
            Inr (put_file i (\<lambda>f. f\<lparr>fd_used_count := fd_used_count f + 1\<rparr>)
                  (put_inode (the (fd_inode f)) (\<lambda>j. j\<lparr>i_used_count := i_used_count j + 1\<rparr>) fs)))))"

fun share_files :: "nat option list \<Rightarrow> vfs \<Rightarrow> vfs res" where
  "share_files [] fs = Inr fs"
| "share_files (p # ps) fs = rbind (share_file p fs) (share_files ps)"

definition fork_name_format :: "u8 list" where
  "fork_name_format = map (of_char :: char \<Rightarrow> u8) ''%s_%d'' @ [0]"


definition PAGE_OFFSET :: u32 where "PAGE_OFFSET = 0xC0000000"

text \<open>
  The common part of \<^verbatim>\<open>sys_fork\<close> and \<^verbatim>\<open>init1_fork\<close>, from \<^verbatim>\<open>*p=*current_thread\<close> to the loop over the
  descriptors. \<^verbatim>\<open>sprintf\<close> measures its source before it writes, so it does not matter when the
  name it reads is the one it writes.
\<close>

definition fork_copy :: "nat \<Rightarrow> threads \<Rightarrow> threads res" where
  "fork_copy p st =
     rbind (deref (thread_heap st) (current_thread st)) (\<lambda>cur.
     rbind (upd_thread (Some p) (\<lambda>_. cur) st) (\<lambda>st1.
     rbind (deref (thread_heap st1) (current_thread st1)) (\<lambda>cur.
     rbind (upd_thread (Some p) (\<lambda>t. t\<lparr>parent_pid := th_pid cur\<rparr>) st1) (\<lambda>st2.
     rbind (deref (thread_heap st2) (Some p)) (\<lambda>t.
     rbind (deref (thread_heap st2) (current_thread st2)) (\<lambda>cur.
     rbind (sprintf (\<lambda>_. th_name cur) (th_name t) fork_name_format [0, th_pid t]) (\<lambda>(nm, _, _).
     rbind (create_dir (th_vm st2)) (\<lambda>(m, f).
     rbind (upd_thread (Some p) (\<lambda>t. t\<lparr>th_name := nm, regs := (regs t)\<lparr>r_eax := 0\<rparr>, th_status := TASK_RUNNING,
              page_dir := Some f\<rparr>) (st2\<lparr>th_vm := m\<rparr>)) (\<lambda>st3.
     rbind (deref (thread_heap st3) (Some p)) (\<lambda>t.
     rbind (deref (thread_heap st3) (current_thread st3)) (\<lambda>cur.
       case (page_dir t, page_dir cur) of
         (Some pd, Some res) \<Rightarrow>
           rbind (copy_page pd res (th_vm st3)) (\<lambda>m'.
           rbind (deref (files_heap st3) (th_files t)) (\<lambda>tab.
             rmap (\<lambda>fs. st3\<lparr>th_vm := m', th_vfs := fs\<rparr>) (share_files tab (th_vfs st3))))
       | _ \<Rightarrow> Inl NullDeref)))))))))))"

text \<open>\<^verbatim>\<open>restart\<close> is the address of the entry code; the result is the local \<^verbatim>\<open>pid\<close>, which stays -1.\<close>

definition sys_fork :: "u32 \<Rightarrow> threads \<Rightarrow> (threads \<times> u32) res" where
  "sys_fork restart st =
     rbind (deref (thread_heap st) (current_thread st)) (\<lambda>cur.
     rbind (thread_create [0] 0 (th_flag cur) st) (\<lambda>(st1, p).
     rbind (fork_copy p st1) (\<lambda>st2.
     rbind (alloc_frame (th_vm st2)) (\<lambda>(m, f).
     rmap (\<lambda>st3. (st3, - 1))
       (upd_thread (Some p) (\<lambda>t. t\<lparr>kernel_regs := \<lparr>k_esp = (frame_va f - PAGE_OFFSET) + 1024 * 4,
          k_esp_addr = frame_va f, k_eip = restart\<rparr>\<rparr>) (st2\<lparr>th_vm := m\<rparr>))))))"

definition init1_fork :: "u32 \<Rightarrow> threads \<Rightarrow> (threads \<times> u32) res" where
  "init1_fork handle_net st =
     rbind (deref (thread_heap st) (current_thread st)) (\<lambda>cur.
     rbind (thread_create [0] handle_net (th_flag cur) st) (\<lambda>(st1, p).
     rbind (fork_copy p st1) (\<lambda>st2.
     rbind (alloc_frame (th_vm st2)) (\<lambda>(m, f).
     rbind (upd_thread (Some p) (\<lambda>t. t\<lparr>regs := (regs t)\<lparr>r_eip := handle_net\<rparr>,
          kernel_regs := (kernel_regs t)\<lparr>k_esp_addr := frame_va f, k_esp := frame_va f + 1024 * 4\<rparr>\<rparr>)
          (st2\<lparr>th_vm := m\<rparr>)) (\<lambda>st3.
       rmap (\<lambda>t. (st3, th_pid t)) (deref (thread_heap st3) (Some p)))))))"

text \<open>The address space of the first thread: the kernel's half and one page below 2 GB.\<close>

definition init_fork :: "threads \<Rightarrow> threads res" where
  "init_fork st =
     rbind (create_dir (th_vm st)) (\<lambda>(m, dir).
     rbind (upd_thread (current_thread st) (\<lambda>t. t\<lparr>page_dir := Some dir\<rparr>) st) (\<lambda>st1.
     rbind (copy_kernel dir [768..<1024] m) (\<lambda>m1.
     rbind (alloc_frame m1) (\<lambda>(m2, f).
     rbind (upd_thread (current_thread st1) (\<lambda>t. t\<lparr>kernel_regs := (kernel_regs t)
              \<lparr>k_esp_addr := frame_va f, k_esp := frame_va f + 1024 * 4\<rparr>\<rparr>) st1) (\<lambda>st2.
     rbind (create_table (PG_P OR PG_RWW OR PG_USS) m2) (\<lambda>(m3, pde).
     rbind (wr_frame dir 511 pde m3) (\<lambda>m4.
     rbind (alloc_frame m4) (\<lambda>(m5, g).
     rbind (wr_frame (entry_frame pde) 1023 (entry g (PG_P OR PG_RWW OR PG_USS)) m5) (\<lambda>m6.
     rbind (rd_frame m6 (entry_frame pde) 1023) (\<lambda>pte.
       rmap (\<lambda>m7. st2\<lparr>th_vm := m7\<rparr>)
         (upd_page (entry_frame pte) (\<lambda>p. p\<lparr>pg_count := pg_count p + 1\<rparr>) m6)))))))))))"

subsection \<open>The scheduler\<close>

definition thread_int :: "threads \<Rightarrow> threads" where
  "thread_int st = st\<lparr>current_thread := thread_table st\<rparr>"

definition dir_cr3 :: "nat option \<Rightarrow> u32" where
  "dir_cr3 d = (case d of None \<Rightarrow> 0 | Some f \<Rightarrow> frame_va f) - PAGE_OFFSET"

text \<open>
  What the switch does to registers and stacks is shown in Switch: it stores the stack pointer and the address of its
  own end, \<open>sp\<close> and \<open>ip\<close>, with the thread that is left. The second result is what the processor
  goes on with: the value of \<^verbatim>\<open>cr3\<close>, the stack pointer and the address jumped to.
\<close>

definition schedule :: "u32 \<times> u32 \<Rightarrow> threads \<Rightarrow> (threads \<times> (u32 \<times> u32 \<times> u32) option) res" where
  "schedule = (\<lambda>(sp, ip) st.
     (case current_thread st of
        None \<Rightarrow> Inr (st, None)
      | Some prev \<Rightarrow>
          rbind (deref (thread_heap st) (Some prev)) (\<lambda>pt.
            let st1 = st\<lparr>current_thread := th_next pt\<rparr> in
            if th_next pt = Some prev then Inr (st1, None)
            else rbind (deref (thread_heap st1) (current_thread st1)) (\<lambda>nt.
                 rbind (upd_thread (Some prev) (\<lambda>t. t\<lparr>kernel_regs := (kernel_regs t)\<lparr>k_esp := sp, k_eip := ip\<rparr>\<rparr>) st1)
                   (\<lambda>st2. Inr (st2, Some (dir_cr3 (page_dir nt), k_esp (kernel_regs nt), k_eip (kernel_regs nt))))))))"

subsection \<open>The ring\<close>

text \<open>The threads in their order: each one's \<open>next\<close> is the following one and points back to it.\<close>

definition linked :: "thread list \<Rightarrow> nat \<times> nat \<Rightarrow> bool" where
  "linked hp = (\<lambda>(a, b). th_next (hp ! a) = Some b \<and> th_prev (hp ! b) = Some a)"

definition ring :: "threads \<Rightarrow> nat list \<Rightarrow> bool" where
  "ring st xs \<longleftrightarrow>
     thread_table st = (if xs = [] then None else Some (hd xs)) \<and> distinct xs \<and>
     (\<forall>a \<in> set xs. a < length (thread_heap st)) \<and> (\<forall>p \<in> set (zip xs (rotate1 xs)). linked (thread_heap st) p)"

lemma upd_thread_Inr_conv:
  "upd_thread p g st = Inr st' \<longleftrightarrow> (\<exists>a. p = Some a \<and> a < length (thread_heap st) \<and>
     st' = st\<lparr>thread_heap := (thread_heap st)[a := g (thread_heap st ! a)]\<rparr>)"
  by (auto simp: upd_thread_def rbind_Inr_conv deref_Inr_conv)

text \<open>What a ring says of the thread at a position.\<close>

lemma ring_next:
  assumes "ring st xs" and "i < length xs"
  shows "th_next (thread_heap st ! (xs ! i)) = Some (xs ! (Suc i mod length xs))"
    and "th_prev (thread_heap st ! (xs ! (Suc i mod length xs))) = Some (xs ! i)"
    and "xs ! i < length (thread_heap st)"
proof -
  have "(xs ! i, rotate1 xs ! i) \<in> set (zip xs (rotate1 xs))"
    using assms(2) by (auto simp: in_set_zip)
  then have "linked (thread_heap st) (xs ! i, rotate1 xs ! i)" using assms(1) by (simp add: ring_def)
  moreover have "rotate1 xs ! i = xs ! (Suc i mod length xs)" using assms(2) by (rule nth_rotate1)
  ultimately show "th_next (thread_heap st ! (xs ! i)) = Some (xs ! (Suc i mod length xs))"
    "th_prev (thread_heap st ! (xs ! (Suc i mod length xs))) = Some (xs ! i)"
    by (simp_all add: linked_def)
  show "xs ! i < length (thread_heap st)" using assms by (simp add: ring_def)
qed


lemma ringI:
  assumes "xs \<noteq> []" and "thread_table st = Some (hd xs)" and "distinct xs" and "\<forall>a \<in> set xs. a < length (thread_heap st)"
    and "\<And>i. i < length xs \<Longrightarrow> linked (thread_heap st) (xs ! i, xs ! (Suc i mod length xs))"
  shows "ring st xs"
proof -
  have "linked (thread_heap st) p" if q: "p \<in> set (zip xs (rotate1 xs))" for p
  proof -
    obtain i where "i < length xs" "p = (xs ! i, rotate1 xs ! i)" using q by (auto simp: in_set_zip)
    then show ?thesis using assms(5)[of i] by (simp add: nth_rotate1)
  qed
  then show ?thesis using assms(1-4) by (simp add: ring_def)
qed

text \<open>A thread that is not in the ring yet; only links change.\<close>

definition relinked :: "threads \<Rightarrow> threads \<Rightarrow> bool" where
  "relinked st st' \<longleftrightarrow> length (thread_heap st') = length (thread_heap st) \<and>
     (\<forall>b < length (thread_heap st). \<exists>n p. thread_heap st' ! b = (thread_heap st ! b)\<lparr>th_next := n, th_prev := p\<rparr>)"

lemma relinked_upd:
  assumes "relinked st st'" and "upd_thread q g st' = Inr st''"
    and "\<And>t. \<exists>n p. g t = t\<lparr>th_next := n, th_prev := p\<rparr>"
  shows "relinked st st''"
proof -
  obtain a where a: "a < length (thread_heap st')"
    "st'' = st'\<lparr>thread_heap := (thread_heap st')[a := g (thread_heap st' ! a)]\<rparr>"
    using assms(2) by (auto simp: upd_thread_Inr_conv)
  have "\<exists>n p. thread_heap st'' ! b = (thread_heap st ! b)\<lparr>th_next := n, th_prev := p\<rparr>"
    if b: "b < length (thread_heap st)" for b
  proof -
    obtain n p where np: "thread_heap st' ! b = (thread_heap st ! b)\<lparr>th_next := n, th_prev := p\<rparr>"
      using assms(1) b by (auto simp: relinked_def)
    obtain n' p' where "g (thread_heap st' ! b) = (thread_heap st' ! b)\<lparr>th_next := n', th_prev := p'\<rparr>"
      using assms(3) by blast
    then have "g (thread_heap st' ! b) = (thread_heap st ! b)\<lparr>th_next := n', th_prev := p'\<rparr>"
      unfolding np by simp
    then show ?thesis using np a(1) by (cases "b = a") (auto simp: a(2))
  qed
  then show ?thesis using assms(1) by (simp add: relinked_def a(2))
qed

lemma relinked_refl: "relinked st st"
proof -
  have "\<exists>n p. t = t\<lparr>th_next := n, th_prev := p\<rparr>" for t :: thread
    by (rule exI[of _ "th_next t"], rule exI[of _ "th_prev t"]) simp
  then show ?thesis by (simp add: relinked_def)
qed

lemma link_thread_ring:
  assumes "ring st xs" and "a < length (thread_heap st)" and "a \<notin> set xs"
  obtains hp where "link_thread a st = Inr (st\<lparr>thread_heap := hp, thread_table := Some (hd (xs @ [a]))\<rparr>)"
    and "ring (st\<lparr>thread_heap := hp, thread_table := Some (hd (xs @ [a]))\<rparr>) (xs @ [a])"
    and "relinked st (st\<lparr>thread_heap := hp\<rparr>)"
proof (cases xs)
  case Nil
  let ?hp = "(thread_heap st)[a := (thread_heap st ! a)\<lparr>th_next := Some a, th_prev := Some a\<rparr>]"
  have "link_thread a st = Inr (st\<lparr>thread_heap := ?hp, thread_table := Some (hd (xs @ [a]))\<rparr>)"
    using assms Nil by (simp add: link_thread_def ring_def upd_thread_Inr_conv)
  moreover have "ring (st\<lparr>thread_heap := ?hp, thread_table := Some (hd (xs @ [a]))\<rparr>) (xs @ [a])"
    using assms(2) Nil by (simp add: ring_def linked_def)
  moreover have "relinked st (st\<lparr>thread_heap := ?hp\<rparr>)"
    by (rule relinked_upd[OF relinked_refl, of "Some a" "\<lambda>t. t\<lparr>th_next := Some a, th_prev := Some a\<rparr>"])
      (use assms(2) in \<open>auto simp: upd_thread_Inr_conv\<close>)
  ultimately show thesis by (rule that)
next
  case (Cons h xs')
  let ?n = "length xs" and ?hp = "thread_heap st"
  define l where "l = xs ! (?n - 1)"
  have n: "?n - 1 < ?n" "Suc (?n - 1) mod ?n = 0" "xs \<noteq> []" using Cons by simp_all
  have h: "xs ! 0 = h" "hd xs = h" using Cons by simp_all
  have pl: "th_prev (?hp ! h) = Some l" "l < length ?hp"
    using ring_next(2,3)[OF assms(1) n(1)] unfolding n(2) h l_def by simp_all
  have hl: "h < length ?hp" "h \<in> set xs" "l \<in> set xs"
    using assms(1) Cons nth_mem[OF n(1)] by (auto simp: ring_def l_def)
  have ne: "a \<noteq> h" "a \<noteq> l" using hl(2,3) assms(3) by auto
  define hp1 where "hp1 = ?hp[a := (?hp ! a)\<lparr>th_next := Some h, th_prev := Some l\<rparr>]"
  define hp2 where "hp2 = hp1[l := (hp1 ! l)\<lparr>th_next := Some a\<rparr>]"
  define hp3 where "hp3 = hp2[h := (hp2 ! h)\<lparr>th_prev := Some a\<rparr>]"
  have len: "length hp1 = length ?hp" "length hp2 = length ?hp" "length hp3 = length ?hp"
    by (simp_all add: hp1_def hp2_def hp3_def)
  have steps: "upd_thread (Some a) (\<lambda>t. t\<lparr>th_next := Some h, th_prev := Some l\<rparr>) st = Inr (st\<lparr>thread_heap := hp1\<rparr>)"
    "upd_thread (Some l) (\<lambda>t. t\<lparr>th_next := Some a\<rparr>) (st\<lparr>thread_heap := hp1\<rparr>) = Inr (st\<lparr>thread_heap := hp2\<rparr>)"
    "upd_thread (Some h) (\<lambda>t. t\<lparr>th_prev := Some a\<rparr>) (st\<lparr>thread_heap := hp2\<rparr>) = Inr (st\<lparr>thread_heap := hp3\<rparr>)"
    using assms(2) pl(2) hl(1) len by (simp_all add: upd_thread_Inr_conv hp1_def hp2_def hp3_def)
  have tt: "thread_table st = Some h" using assms(1) h n(3) by (simp add: ring_def)
  have "link_thread a st = Inr (st\<lparr>thread_heap := hp3\<rparr>)"
    using tt hl(1) pl(1) by (simp add: link_thread_def deref_in steps)
  moreover have same: "st\<lparr>thread_heap := hp3, thread_table := Some (hd (xs @ [a]))\<rparr> = st\<lparr>thread_heap := hp3\<rparr>"
    using tt h n(3) by simp
  have links: "th_next (hp3 ! b) = (if b = a then Some h else if b = l then Some a else th_next (?hp ! b))"
    "th_prev (hp3 ! b) = (if b = h then Some a else if b = a then Some l else th_prev (?hp ! b))"
    if "b < length ?hp" for b
    using that ne assms(2) hl(1) pl(2) by (auto simp: hp1_def hp2_def hp3_def nth_list_update)
  moreover have "ring (st\<lparr>thread_heap := hp3\<rparr>) (xs @ [a])"
  proof (rule ringI)
    fix i
    assume i: "i < length (xs @ [a])"
    consider "i = ?n" | "i = ?n - 1" "i < ?n" | "Suc i < ?n" using i by fastforce
    then have "linked hp3 ((xs @ [a]) ! i, (xs @ [a]) ! (Suc i mod length (xs @ [a])))"
    proof cases
      case 1
      then show ?thesis using ne hl assms(2) h n(3) by (simp add: linked_def links nth_append)
    next
      case 2
      then have "(xs @ [a]) ! i = l" by (simp add: l_def nth_append)
      moreover have s: "Suc i = ?n" using 2 by simp
      have "(xs @ [a]) ! (Suc i mod length (xs @ [a])) = a" unfolding s by simp
      ultimately show ?thesis using ne pl(2) assms(2) by (simp add: linked_def links)
    next
      case 3
      then have e: "(xs @ [a]) ! i = xs ! i" "(xs @ [a]) ! (Suc i mod length (xs @ [a])) = xs ! Suc i"
        by (simp_all add: nth_append)
      have "i < ?n" using 3 by simp
      note r = ring_next[OF assms(1) this]
      have d: "distinct xs" using assms(1) by (simp add: ring_def)
      have "xs ! i \<noteq> l" "xs ! Suc i \<noteq> h"
        using nth_eq_iff_index_eq[OF d, of i "?n - 1"] nth_eq_iff_index_eq[OF d, of "Suc i" 0] 3 n(3)
        unfolding l_def h(1)[symmetric] by simp_all
      moreover have "xs ! i \<noteq> a" "xs ! Suc i \<noteq> a" using assms(3) 3 nth_mem[of i xs] nth_mem[of "Suc i" xs] by auto
      moreover have "xs ! Suc i < length ?hp" using ring_next(3)[OF assms(1) 3] .
      ultimately show ?thesis using r 3 unfolding e by (simp add: linked_def links)
    qed
    then show "linked (thread_heap (st\<lparr>thread_heap := hp3\<rparr>)) ((xs @ [a]) ! i, (xs @ [a]) ! (Suc i mod length (xs @ [a])))"
      by simp
  qed (use assms tt h n(3) len in \<open>auto simp: ring_def\<close>)
  moreover have "relinked st (st\<lparr>thread_heap := hp3\<rparr>)"
  proof -
    have "\<exists>n p. t\<lparr>th_next := x\<rparr> = t\<lparr>th_next := n, th_prev := p\<rparr>" "\<exists>n p. t\<lparr>th_prev := x\<rparr> = t\<lparr>th_next := n, th_prev := p\<rparr>"
      for t :: thread and x
      by (rule exI[of _ x], rule exI[of _ "th_prev t"], simp) (rule exI[of _ "th_next t"], rule exI[of _ x], simp)
    then show ?thesis
      using relinked_upd[OF relinked_upd[OF relinked_upd[OF relinked_refl steps(1)] steps(2)] steps(3)] by blast
  qed
  ultimately show thesis using that[of hp3] unfolding same by blast
qed


subsection \<open>Creating a thread\<close>

text \<open>Adding fresh structures at the ends of the lists keeps the ring.\<close>

lemma ring_grow: "ring st xs \<Longrightarrow> thread_heap st' = thread_heap st @ ts \<Longrightarrow> thread_table st' = thread_table st \<Longrightarrow> ring st' xs"
proof -
  assume r: "ring st xs" and e: "thread_heap st' = thread_heap st @ ts" "thread_table st' = thread_table st"
  have "linked (thread_heap st') p" if p: "p \<in> set (zip xs (rotate1 xs))" for p
  proof -
    have "fst p \<in> set xs" "snd p \<in> set xs" using p set_zip_leftD[of "fst p" "snd p"] set_zip_rightD[of "fst p" "snd p" xs "rotate1 xs"] by simp_all
    then have "fst p < length (thread_heap st)" "snd p < length (thread_heap st)" using r by (auto simp: ring_def)
    moreover have "linked (thread_heap st) p" using r p by (simp add: ring_def)
    ultimately show ?thesis by (simp add: linked_def e nth_append split: prod.splits)
  qed
  then show "ring st' xs" using r e by (auto simp: ring_def)
qed

lemma ring_cong:
  "thread_heap st' = thread_heap st \<Longrightarrow> thread_table st' = thread_table st \<Longrightarrow> ring st' xs = ring st xs"
  by (simp add: ring_def)

text \<open>What \<^verbatim>\<open>thread_create\<close> leaves: a ring with the new thread at its end, and the fields of the threads.\<close>

lemma thread_create_Inr:
  assumes "ring st xs" and "thread_create name handle fl st = Inr (st', a)"
  obtains m r nm where "start_regs fl (th_vm st) = Inr (m, r)" and "a = length (thread_heap st)"
    and "ring st' (xs @ [a])" and "length (thread_heap st') = Suc a"
    and "\<exists>n p. thread_heap st' ! a = \<lparr>regs = r\<lparr>r_eip := handle, r_eflags := 0x3202\<rparr>,
            kernel_regs = \<lparr>k_esp = 0, k_esp_addr = 0, k_eip = 0\<rparr>,
            th_pid = pid_count st, th_status = 0, th_flag = fl, parent_pid = - 1, th_name = nm, th_alarm = 0,
            th_files = Some (length (files_heap st)), th_root = None, th_pwd = None, exit_code = 0, page_dir = None,
            th_prev = p, th_next = n\<rparr>"
    and "\<forall>b < a. \<exists>n p. thread_heap st' ! b = (thread_heap st ! b)\<lparr>th_next := n, th_prev := p\<rparr>"
    and "files_heap st' = files_heap st @ [replicate PROC_FILES_MAX_COUNT None]" and "th_vm st' = m"
    and "th_vfs st' = th_vfs st" and "current_thread st' = Some a" and "pid_count st' = pid_count st + 1"
    and "length nm = 256" and "\<exists>k y. sprintf (\<lambda>_. []) (replicate 256 0) name [] = Inr (nm, k, y)"
proof -
  let ?a = "length (thread_heap st)"
  obtain nm k y m r where s: "sprintf (\<lambda>_. []) (replicate 256 0) name [] = Inr (nm, k, y)"
    and r: "start_regs fl (th_vm st) = Inr (m, r)"
    using assms(2) by (auto simp: thread_create_def Let_def rbind_Inr_conv)
  define th where "th = \<lparr>regs = r\<lparr>r_eip := handle, r_eflags := 0x3202\<rparr>, kernel_regs = \<lparr>k_esp = 0, k_esp_addr = 0, k_eip = 0\<rparr>,
            th_pid = pid_count st, th_status = 0, th_flag = fl, parent_pid = - 1, th_name = nm, th_alarm = 0,
            th_files = Some (length (files_heap st)), th_root = None, th_pwd = None, exit_code = 0, page_dir = None,
            th_prev = None, th_next = None\<rparr>"
  define st0 where "st0 = st\<lparr>thread_heap := thread_heap st @ [th], files_heap := files_heap st @ [replicate PROC_FILES_MAX_COUNT None],
              pid_count := pid_count st + 1, th_vm := m\<rparr>"
  have c: "rmap (\<lambda>st'. (st'\<lparr>current_thread := Some ?a\<rparr>, ?a)) (link_thread ?a st0) = Inr (st', a)"
    using assms(2) by (simp add: thread_create_def Let_def s r st0_def th_def)
  have "ring st0 xs" by (rule ring_grow[OF assms(1), of _ "[th]"]) (simp_all add: st0_def)
  moreover have "?a < length (thread_heap st0)" by (simp add: st0_def)
  moreover have "?a \<notin> set xs" using assms(1) by (auto simp: ring_def)
  ultimately obtain hp where hp: "link_thread ?a st0 = Inr (st0\<lparr>thread_heap := hp, thread_table := Some (hd (xs @ [?a]))\<rparr>)"
    "ring (st0\<lparr>thread_heap := hp, thread_table := Some (hd (xs @ [?a]))\<rparr>) (xs @ [?a])" "relinked st0 (st0\<lparr>thread_heap := hp\<rparr>)"
    by (rule link_thread_ring)
  have st': "st' = st0\<lparr>thread_heap := hp, thread_table := Some (hd (xs @ [?a])), current_thread := Some ?a\<rparr>" "a = ?a"
    using c by (auto simp: hp(1))
  have l: "length hp = Suc ?a" "\<And>b. b < Suc ?a \<Longrightarrow> \<exists>n p. hp ! b = ((thread_heap st @ [th]) ! b)\<lparr>th_next := n, th_prev := p\<rparr>"
    using hp(3) by (simp_all add: relinked_def st0_def)
  show thesis
  proof (rule that[of m r nm])
    show "ring st' (xs @ [a])"
      using hp(2) by (subst ring_cong[of _ "st0\<lparr>thread_heap := hp, thread_table := Some (hd (xs @ [?a]))\<rparr>"]) (simp_all add: st')
    obtain n p where "hp ! ?a = th\<lparr>th_next := n, th_prev := p\<rparr>" using l(2)[of ?a] by auto
    then have "thread_heap st' ! a = th\<lparr>th_next := n, th_prev := p\<rparr>" by (simp add: st')
    then show "\<exists>n p. thread_heap st' ! a = \<lparr>regs = r\<lparr>r_eip := handle, r_eflags := 0x3202\<rparr>,
            kernel_regs = \<lparr>k_esp = 0, k_esp_addr = 0, k_eip = 0\<rparr>,
            th_pid = pid_count st, th_status = 0, th_flag = fl, parent_pid = - 1, th_name = nm, th_alarm = 0,
            th_files = Some (length (files_heap st)), th_root = None, th_pwd = None, exit_code = 0, page_dir = None,
            th_prev = p, th_next = n\<rparr>"
      by (intro exI[of _ n] exI[of _ p]) (simp add: th_def)
    show "\<forall>b < a. \<exists>n p. thread_heap st' ! b = (thread_heap st ! b)\<lparr>th_next := n, th_prev := p\<rparr>"
    proof (intro allI impI)
      fix b
      assume "b < a"
      then show "\<exists>n p. thread_heap st' ! b = (thread_heap st ! b)\<lparr>th_next := n, th_prev := p\<rparr>"
        using l(2)[of b] by (simp add: st' nth_append)
    qed
    show "length nm = 256" using s by (auto simp: sprintf_def vsprintf_def rbind_Inr_conv split: if_splits)
    show "\<exists>k y. sprintf (\<lambda>_. []) (replicate 256 0) name [] = Inr (nm, k, y)" using s by blast
  qed (use r in \<open>simp_all add: st' l(1) st0_def\<close>)
qed


text \<open>
  C18. A thread that is created goes to the end of the ring and becomes the current one, with the
  next number for its pid. It starts at the given address, in the kernel's segments or in those of
  the user as its flag says, with no open descriptor; of the other threads only links change.
\<close>

theorem thread_create_extends_ring:
  assumes "ring st xs" and "thread_create name handle fl st = Inr (st', a)"
  shows "ring st' (xs @ [a]) \<and> a \<notin> set xs \<and> current_thread st' = Some a \<and>
    th_pid (thread_heap st' ! a) = pid_count st \<and> pid_count st' = pid_count st + 1 \<and>
    r_eip (regs (thread_heap st' ! a)) = handle \<and>
    r_cs (regs (thread_heap st' ! a)) = (if bit fl 0 then 0x8 else 0x23) \<and>
    r_ss (regs (thread_heap st' ! a)) = (if bit fl 0 then 0x10 else 0x2B) \<and>
    (\<exists>t. th_files (thread_heap st' ! a) = Some t \<and> files_heap st' ! t = replicate PROC_FILES_MAX_COUNT None) \<and>
    (\<forall>b \<in> set xs. \<exists>n p. thread_heap st' ! b = (thread_heap st ! b)\<lparr>th_next := n, th_prev := p\<rparr>)"
proof -
  obtain m r nm where r: "start_regs fl (th_vm st) = Inr (m, r)" and a: "a = length (thread_heap st)"
    and t: "\<exists>n p. thread_heap st' ! a = \<lparr>regs = r\<lparr>r_eip := handle, r_eflags := 0x3202\<rparr>,
            kernel_regs = \<lparr>k_esp = 0, k_esp_addr = 0, k_eip = 0\<rparr>,
            th_pid = pid_count st, th_status = 0, th_flag = fl, parent_pid = - 1, th_name = nm, th_alarm = 0,
            th_files = Some (length (files_heap st)), th_root = None, th_pwd = None, exit_code = 0, page_dir = None,
            th_prev = p, th_next = n\<rparr>"
    and o: "\<forall>b < a. \<exists>n p. thread_heap st' ! b = (thread_heap st ! b)\<lparr>th_next := n, th_prev := p\<rparr>"
    and f: "files_heap st' = files_heap st @ [replicate PROC_FILES_MAX_COUNT None]"
    and u: "ring st' (xs @ [a])" "current_thread st' = Some a" "pid_count st' = pid_count st + 1"
    using assms by (rule thread_create_Inr) blast
  have b: "b < a" if "b \<in> set xs" for b using assms(1) that by (simp add: ring_def a)
  have k: "fl AND THREAD_TYPE_KERNEL = THREAD_TYPE_KERNEL \<longleftrightarrow> bit fl 0"
    by (simp add: THREAD_TYPE_KERNEL_def and_one_eq odd_iff_mod_2_eq_one[symmetric] bit_0)
  have "r_cs r = (if bit fl 0 then 0x8 else 0x23) \<and> r_ss r = (if bit fl 0 then 0x10 else 0x2B)"
    using r by (auto simp: start_regs_def k rmap_Inr_conv kernel_frame_regs_def user_frame_regs_def Let_def
        GDT_SEL_KERNEL_CODE_def GDT_SEL_KERNEL_DATA_def GDT_SEL_USER_CODE_def GDT_SEL_USER_DATA_def SA_RPL0_def SA_RPL3_def
        SA_RPL_MASK_def split: if_splits)
  moreover have "a \<notin> set xs" using b by blast
  ultimately show ?thesis using u t f b o by auto
qed

subsection \<open>Every thread gets its turn\<close>

text \<open>
  The contract of a round robin scheduler: the state stands for a list of threads, of which one
  is current, and a step keeps the list and makes the following one current.
\<close>

locale round_robin =
  fixes step :: "'i \<Rightarrow> 's \<Rightarrow> 's res"
    and current :: "'s \<Rightarrow> 'a option"
    and order :: "'s \<Rightarrow> 'a list \<Rightarrow> bool"
  assumes step_next: "order s xs \<Longrightarrow> k < length xs \<Longrightarrow> current s = Some (xs ! k) \<Longrightarrow>
    \<exists>s'. step i s = Inr s' \<and> order s' xs \<and> current s' = Some (xs ! (Suc k mod length xs))"
begin

lemma position:
  assumes "order s xs" and "k < length xs" and "current s = Some (xs ! k)"
  shows "\<exists>s'. run_steps step is s = Inr s' \<and> order s' xs \<and> current s' = Some (xs ! ((k + length is) mod length xs))"
  using assms
proof (induction "is" arbitrary: s k)
  case (Cons i "is")
  obtain s1 where s1: "step i s = Inr s1" "order s1 xs" "current s1 = Some (xs ! (Suc k mod length xs))"
    using step_next[OF Cons.prems, of i] by blast
  have "Suc k mod length xs < length xs" using Cons.prems(2) mod_less_divisor[of "length xs" "Suc k"] by linarith
  from Cons.IH[OF s1(2) this s1(3)] show ?case by (simp add: s1(1) mod_add_left_eq)
qed simp

lemma gets_turn:
  assumes "order s xs" and "current s = Some a" and "a \<in> set xs" and "b \<in> set xs"
  shows "\<exists>n < length xs. \<forall>is. length is = n \<longrightarrow>
    (\<exists>s'. run_steps step is s = Inr s' \<and> order s' xs \<and> current s' = Some b)"
proof -
  obtain k j where k: "k < length xs" "xs ! k = a" and j: "j < length xs" "xs ! j = b"
    using assms(3,4) by (meson in_set_conv_nth)
  define n where "n = (if k \<le> j then j - k else j + length xs - k)"
  have "n < length xs" "(k + n) mod length xs = j" using k(1) j(1) by (auto simp: n_def)
  then show ?thesis using position[OF assms(1) k(1)] assms(2) k(2) j(2) by auto
qed

end

text \<open>\<^verbatim>\<open>schedule\<close> keeps the ring and passes to the next thread.\<close>

definition reschedule :: "u32 \<times> u32 \<Rightarrow> threads \<Rightarrow> threads res" where
  "reschedule c st = rmap fst (schedule c st)"

lemma ring_regs:
  assumes "ring st xs" and "\<And>t. th_next (g t) = th_next t \<and> th_prev (g t) = th_prev t"
  shows "ring (st\<lparr>thread_heap := (thread_heap st)[a := g (thread_heap st ! a)], current_thread := c\<rparr>) xs"
proof -
  have e: "th_next ((thread_heap st)[a := g (thread_heap st ! a)] ! b) = th_next (thread_heap st ! b)"
    "th_prev ((thread_heap st)[a := g (thread_heap st ! a)] ! b) = th_prev (thread_heap st ! b)" for b
    by (cases "a < length (thread_heap st)"; cases "a = b"; simp add: assms(2) nth_list_update list_update_beyond)+
  show ?thesis using assms(1) unfolding ring_def linked_def by (simp add: e)
qed

lemma schedule_next:
  assumes "ring st xs" and "k < length xs" and "current_thread st = Some (xs ! k)"
  shows "\<exists>st'. reschedule c st = Inr st' \<and> ring st' xs \<and> current_thread st' = Some (xs ! (Suc k mod length xs))"
proof -
  obtain sp ip where c: "c = (sp, ip)" by fastforce
  let ?j = "Suc k mod length xs"
  have j: "?j < length xs" using assms(2) mod_less_divisor[of "length xs" "Suc k"] by linarith
  note n = ring_next[OF assms(1,2)] ring_next(3)[OF assms(1) j]
  show ?thesis
  proof (cases "xs ! ?j = xs ! k")
    case True
    then show ?thesis using assms(1,3) n
      by (simp add: reschedule_def schedule_def c deref_in ring_def)
  next
    case False
    let ?g = "\<lambda>t. t\<lparr>kernel_regs := (kernel_regs t)\<lparr>k_esp := sp, k_eip := ip\<rparr>\<rparr>"
    have "upd_thread (Some (xs ! k)) ?g (st\<lparr>current_thread := Some (xs ! ?j)\<rparr>) =
        Inr (st\<lparr>thread_heap := (thread_heap st)[xs ! k := ?g (thread_heap st ! (xs ! k))], current_thread := Some (xs ! ?j)\<rparr>)"
      using n(3) by (simp add: upd_thread_Inr_conv)
    then show ?thesis using False assms(3) n ring_regs[where g = ?g and a = "xs ! k" and c = "Some (xs ! ?j)", OF assms(1)]
      by (simp add: reschedule_def schedule_def c deref_in)
  qed
qed

interpretation sched: round_robin reschedule current_thread ring
  by unfold_locales (rule schedule_next)

text \<open>
  Whatever the switches store, each thread of the ring is current again after fewer calls of
  \<^verbatim>\<open>schedule\<close> than there are threads, and the ring stays as it is.
\<close>

theorem schedule_reaches_every_thread:
  assumes "ring st xs" and "current_thread st = Some a" and "a \<in> set xs" and "b \<in> set xs"
  shows "\<exists>n < length xs. \<forall>cs. length cs = n \<longrightarrow>
    (\<exists>st'. run_steps (\<lambda>c st. rmap fst (schedule c st)) cs st = Inr st' \<and> ring st' xs \<and> current_thread st' = Some b)"
  using sched.gets_turn[OF assms] unfolding reschedule_def .


subsection \<open>Fork\<close>

lemma share_files_none: "share_files (replicate n None) fs = Inr fs"
  by (induction n) (simp_all add: share_file_def)

lemma upd_thread_in:
  "a < length (thread_heap st) \<Longrightarrow>
   upd_thread (Some a) g st = Inr (st\<lparr>thread_heap := (thread_heap st)[a := g (thread_heap st ! a)]\<rparr>)"
  by (simp add: upd_thread_Inr_conv)

text \<open>The thread that is copied is the new one itself, because it is the current one.\<close>

lemma fork_copy_self:
  assumes "fork_copy p st = Inr st'" and "current_thread st = Some p" and "p < length (thread_heap st)"
    and "th_files (thread_heap st ! p) = Some t" and "t < length (files_heap st)"
    and "files_heap st ! t = replicate n None"
  obtains nm m f m' where "alloc_frame (th_vm st) = Inr (m, f)" and "copy_page f f m = Inr m'"
    and "st' = st\<lparr>thread_heap := (thread_heap st)[p := (thread_heap st ! p)\<lparr>parent_pid := th_pid (thread_heap st ! p),
            th_name := nm, regs := (regs (thread_heap st ! p))\<lparr>r_eax := 0\<rparr>, th_status := TASK_RUNNING, page_dir := Some f\<rparr>],
          th_vm := m'\<rparr>"
proof -
  let ?t = "thread_heap st ! p"
  have d: "deref (thread_heap st) (Some p) = Inr ?t" using assms(3) by (simp add: deref_in)
  obtain nm k y where nm: "sprintf (\<lambda>_. th_name ?t) (th_name ?t) fork_name_format [0, th_pid ?t] = Inr (nm, k, y)"
    and m: "\<exists>m f. create_dir (th_vm st) = Inr (m, f)"
    using assms(1-3) by (auto simp: fork_copy_def d upd_thread_in deref_in rbind_Inr_conv)
  then obtain m f where mf: "alloc_frame (th_vm st) = Inr (m, f)" by (auto simp: create_dir_def)
  have "rbind (copy_page f f m) (\<lambda>m'. Inr (st\<lparr>thread_heap := (thread_heap st)[p := ?t\<lparr>parent_pid := th_pid ?t,
            th_name := nm, regs := (regs ?t)\<lparr>r_eax := 0\<rparr>, th_status := TASK_RUNNING, page_dir := Some f\<rparr>],
          th_vm := m'\<rparr>)) = Inr st'"
    using assms by (simp add: fork_copy_def d upd_thread_in deref_in nm create_dir_def mf share_files_none)
  then show thesis using that[OF mf] by (auto simp: rbind_Inr_conv)
qed

text \<open>Copying a directory that is empty onto itself leaves its user half empty.\<close>

lemma copy_page_onto_empty:
  assumes "copy_page f f m = Inr m'" and "\<forall>i. frames m f i = 0" and "f < length (mem_map m)" and "f \<noteq> PAGE_DIR_FRAME"
  shows "\<forall>i < 768. frames m' f i = 0" and "\<forall>i. 768 \<le> i \<longrightarrow> i < 1024 \<longrightarrow> frames m' f i = frames m PAGE_DIR_FRAME i"
    and "\<forall>g. g \<noteq> f \<longrightarrow> frames m' g = frames m g" and "mem_map m' = mem_map m"
proof -
  obtain m1 where 1: "copy_tables f f [0..<768] m = Inr m1" and 2: "copy_kernel f [768..<1024] m1 = Inr m'"
    using assms(1) unfolding copy_page_def by (rule rbindE)
  have z: "\<forall>i \<in> set [0..<768]. frames m f i = 0" using assms(2) by blast
  obtain m2 where "copy_tables f f [0..<768] m = Inr m2" and m2: "mem_map m2 = mem_map m"
    "\<forall>g. g \<noteq> f \<longrightarrow> frames m2 g = frames m g" "\<forall>i \<in> {0..<768}. frames m2 f i = 0"
    using copy_tables_empty[OF assms(3,3) z, unfolded set_upt] by blast
  then have "m1 = m2" using 1 by (metis sum.inject(2))
  note m1 = m2[folded this]
  note k = copy_kernel_Inr[OF 2 assms(4), unfolded set_upt]
  show "mem_map m' = mem_map m" using k m1(1) by simp
  show "\<forall>g. g \<noteq> f \<longrightarrow> frames m' g = frames m g" using k m1(2) by simp
  show "\<forall>i < 768. frames m' f i = 0" using k m1(3) by simp
  show "\<forall>i. 768 \<le> i \<longrightarrow> i < 1024 \<longrightarrow> frames m' f i = frames m PAGE_DIR_FRAME i" using k m1(2) assms(4) by simp
qed

lemma start_regs_vm:
  assumes "start_regs fl m = Inr (m', r)"
  shows "used m g \<Longrightarrow> used m' g \<and> frames m' g = frames m g"
proof (cases "fl AND THREAD_TYPE_KERNEL = THREAD_TYPE_KERNEL")
  case True
  then obtain f where f: "alloc_frame m = Inr (m', f)" using assms by (auto simp: start_regs_def rmap_Inr_conv)
  assume "used m g"
  with alloc_frame_Inr(2)[OF f] have "g \<noteq> f" by auto
  with \<open>used m g\<close> show ?thesis using alloc_frame_Inr(5,6,7)[OF f] by (simp add: used_def)
next
  case False
  then show "used m g \<Longrightarrow> ?thesis" using assms by (simp add: start_regs_def)
qed




subsection \<open>Two threads\<close>

definition fork_vm :: vm where
  "fork_vm = \<lparr>mem_map = map (\<lambda>i. if i \<in> {5, 6} then \<lparr>pg_count = 0, pg_flags = 0\<rparr> else \<lparr>pg_count = 1, pg_flags = 1\<rparr>) [0..<512],
      frames = (\<lambda>f i. 0)\<rparr>"

definition idle_thread :: "u32 \<Rightarrow> nat \<Rightarrow> thread" where
  "idle_thread n other = \<lparr>regs = zero_frame, kernel_regs = \<lparr>k_esp = 0, k_esp_addr = 0, k_eip = 0\<rparr>, th_pid = n,
     th_status = 0, th_flag = 0, parent_pid = - 1, th_name = replicate 256 0, th_alarm = 0, th_files = Some 0,
     th_root = None, th_pwd = None, exit_code = 0, page_dir = Some 2, th_prev = Some other, th_next = Some other\<rparr>"

definition two_threads :: threads where
  "two_threads = \<lparr>thread_heap = [idle_thread 0 1, idle_thread 1 0], files_heap = [replicate PROC_FILES_MAX_COUNT None],
     thread_table = Some 0, current_thread = Some 1, pid_count = 2, th_vm = fork_vm, th_vfs = rooted\<rparr>"

lemma two_threads_ring: "ring two_threads [0, 1]"
  by (simp add: ring_def linked_def two_threads_def idle_thread_def)

lemma two_threads_fields [simp]:
  "current_thread two_threads = Some 1" "pid_count two_threads = 2" "th_vm two_threads = fork_vm"
  "length (thread_heap two_threads) = 2" "th_flag (thread_heap two_threads ! Suc 0) = 0"
  by (simp_all add: two_threads_def idle_thread_def)

lemma fork_used: "used fork_vm f \<longleftrightarrow> f < 512 \<and> f \<noteq> 5 \<and> f \<noteq> 6"
  by (cases "f < 512") (simp_all add: used_def in_use_def fork_vm_def MP_USE_def del: upt_Suc upt_rec_numeral)

lemma fork_length: "length (mem_map fork_vm) = 512"
  by (simp add: fork_vm_def del: upt_Suc upt_rec_numeral)

lemma sprintf_empty: "sprintf mem (replicate 256 0) [0] [] = Inr (replicate 256 0, 0, [])"
proof -
  have "replicate 256 (0 :: u8) = 0 # replicate 255 0" by (simp add: replicate_Suc[symmetric] del: replicate_Suc)
  then show ?thesis by (simp add: sprintf_def vsprintf_def ld8_def)
qed

text \<open>\<^verbatim>\<open>thread_create\<close> succeeds when its name fits and there is a frame for a kernel stack.\<close>

lemma thread_create_ok:
  assumes "ring st xs" and "sprintf (\<lambda>_. []) (replicate 256 0) name [] = Inr (nm, k, y)"
    and "start_regs fl (th_vm st) = Inr (m, r)"
  shows "\<exists>st'. thread_create name handle fl st = Inr (st', length (thread_heap st)) \<and>
    th_vm st' = m \<and> th_name (thread_heap st' ! length (thread_heap st)) = nm"
proof -
  let ?a = "length (thread_heap st)"
  let ?th = "\<lparr>regs = r\<lparr>r_eip := handle, r_eflags := 0x3202\<rparr>, kernel_regs = \<lparr>k_esp = 0, k_esp_addr = 0, k_eip = 0\<rparr>,
            th_pid = pid_count st, th_status = 0, th_flag = fl, parent_pid = - 1, th_name = nm, th_alarm = 0,
            th_files = Some (length (files_heap st)), th_root = None, th_pwd = None, exit_code = 0, page_dir = None,
            th_prev = None, th_next = None\<rparr>"
  let ?st = "st\<lparr>thread_heap := thread_heap st @ [?th], files_heap := files_heap st @ [replicate PROC_FILES_MAX_COUNT None],
              pid_count := pid_count st + 1, th_vm := m\<rparr>"
  have "ring ?st xs" by (rule ring_grow[OF assms(1), of _ "[?th]"]) simp_all
  moreover have "?a < length (thread_heap ?st)" by simp
  moreover have "?a \<notin> set xs" using assms(1) by (auto simp: ring_def)
  ultimately obtain hp where "link_thread ?a ?st = Inr (?st\<lparr>thread_heap := hp, thread_table := Some (hd (xs @ [?a]))\<rparr>)"
    and "relinked ?st (?st\<lparr>thread_heap := hp\<rparr>)"
    by (rule link_thread_ring)
  then show ?thesis by (auto simp: thread_create_def Let_def assms(2,3) relinked_def nth_append dest: spec[of _ ?a])
qed

theorem thread_create_extends_ring_witness:
  "\<exists>st'. thread_create [0] 0x100000 0 two_threads = Inr (st', 2) \<and> ring st' [0, 1, 2] \<and>
     th_pid (thread_heap st' ! 2) = 2 \<and> r_cs (regs (thread_heap st' ! 2)) = 0x23"
proof -
  have "start_regs 0 (th_vm two_threads) = Inr (fork_vm, user_frame_regs)"
    by (simp add: start_regs_def THREAD_TYPE_KERNEL_def)
  then obtain st' where c: "thread_create [0] 0x100000 0 two_threads = Inr (st', 2)"
    using thread_create_ok[OF two_threads_ring sprintf_empty] by fastforce
  then show ?thesis using thread_create_extends_ring[OF two_threads_ring c] by auto
qed

theorem schedule_reaches_every_thread_witness:
  "\<exists>n < 2. \<forall>cs. length cs = n \<longrightarrow>
    (\<exists>st'. run_steps (\<lambda>c st. rmap fst (schedule c st)) cs two_threads = Inr st' \<and> ring st' [0, 1] \<and>
       current_thread st' = Some 0)"
  using schedule_reaches_every_thread[OF two_threads_ring, of 1 0] by (simp add: numeral_2_eq_2)


text \<open>What \<^verbatim>\<open>fork_copy\<close> needs to succeed: room for the name, a free frame and an empty descriptor table.\<close>

lemma sprintf_fork_name:
  "\<exists>nm k y. sprintf (\<lambda>_. replicate 256 0) (replicate 256 0) fork_name_format [0, 2] = Inr (nm, k, y)"
proof -
  have z: "0 \<in> set (replicate 256 (0 :: u8))" by simp
  have c: "cstr (replicate 256 (0 :: u8)) = []" by (simp add: cstr_def takeWhile_eq_Nil_iff)
  have "fork_name_format = concat (map item_fmt [Str 0, Lit 95, Dec 2]) @ [0]" by (simp add: fork_name_format_def)
  moreover have "[0, 2] = concat (map item_args [Str 0, Lit 95, Dec 2]) @ []" by simp
  moreover have "\<forall>it \<in> set [Str 0, Lit 95, Dec 2]. item_ok (\<lambda>_. replicate 256 0) it" using z by simp
  moreover have "lsd 10 2 = [2]" by (simp add: lsd.simps)
  ultimately show ?thesis
    using vsprintf_loop_items[of "[Str 0, Lit 95, Dec 2]" "\<lambda>_. replicate 256 0" "[0]" "[]" "[]" "[]"]
    by (simp add: sprintf_def vsprintf_def c digit_text_def)
qed

lemma fork_copy_ok:
  assumes "current_thread st = Some p" and "p < length (thread_heap st)"
    and "th_files (thread_heap st ! p) = Some t" and "t < length (files_heap st)"
    and "files_heap st ! t = replicate n None"
    and "sprintf (\<lambda>_. th_name (thread_heap st ! p)) (th_name (thread_heap st ! p)) fork_name_format
           [0, th_pid (thread_heap st ! p)] = Inr (nm, k, y)"
    and "alloc_frame (th_vm st) = Inr (m, f)" and "copy_page f f m = Inr m'"
  shows "\<exists>st'. fork_copy p st = Inr st' \<and> th_vm st' = m' \<and> current_thread st' = Some p \<and>
    length (thread_heap st') = length (thread_heap st)"
  using assms by (simp add: fork_copy_def upd_thread_in deref_in create_dir_def share_files_none)


end
