(* ===== verification/Startup.thy ===== *)
theory Startup
  imports Initcalls NetMain Keyboard Threads Idt
begin

text \<open>
  The start of the network, across the registered initialisations and \<^verbatim>\<open>handle_net\<close>: \<^verbatim>\<open>main\<close> of
  kernel/kernel.c runs \<^verbatim>\<open>do_initcalls\<close>, which sets up the address table, the keyboard and the card, and
  then \<^verbatim>\<open>handle_net\<close>. The PCI devices found before, the values of the ports, the keyboard controller and
  the interrupts between the rounds are arguments.
\<close>

subsection \<open>Operations\<close>

datatype initcall = Thread_int | Arp_init | Keyboard_init | Am79c793_init

definition thread_initcall :: "string \<times> initcall" where "thread_initcall = core_initcall Thread_int"
definition arp_initcall :: "string \<times> initcall" where "arp_initcall = module_init Arp_init"
definition keyboard_initcall :: "string \<times> initcall" where "keyboard_initcall = module_init Keyboard_init"
definition am79c793_initcall :: "string \<times> initcall" where "am79c793_initcall = module_init Am79c793_init"

text \<open>The registrations of the linked files, in their order: kernel/thread.c, net, drivers/i386.\<close>

definition kernel_initcalls :: "initcall registrations" where
  "kernel_initcalls = [thread_initcall, arp_initcall, keyboard_initcall, am79c793_initcall]"

text \<open>
  The state that the calls and the network share, and what they take of the interrupt controller:
  how its ports read, and the addresses of the two handlers and of the device.
\<close>

record kernel =
  k_threads :: threads
  k_kb :: kb_state
  k_queue :: skb_state
  k_net :: "nic option net"
  k_irqs :: "irq_entry list"
  k_ports :: port_log

record irq_env =
  ir_read :: "port_log \<Rightarrow> u16 \<Rightarrow> u8"
  ir_keyboard :: u32
  ir_card :: u32
  ir_device :: u32

definition KEYBOARD_IRQ :: u32 where "KEYBOARD_IRQ = 1"

text \<open>A registration of a line followed by its unmasking, as both drivers make them.\<close>

definition claim_line :: "irq_env \<Rightarrow> u32 \<Rightarrow> u32 \<Rightarrow> u32 \<Rightarrow> kernel \<Rightarrow> kernel res" where
  "claim_line env irq h dev k =
     rmap (\<lambda>tbl. k\<lparr>k_irqs := tbl, k_ports := enable_8259A_irq (ir_read env) (unat irq) (k_ports k)\<rparr>)
       (register_irq (k_irqs k) (ucast irq) h dev)"

definition keyboard_start :: "irq_env \<Rightarrow> controller \<Rightarrow> kernel \<Rightarrow> kernel res" where
  "keyboard_start env kbc k =
     rbind (keyboard_init kbc (k_kb k)) (\<lambda>kb. claim_line env KEYBOARD_IRQ (ir_keyboard env) 0 (k\<lparr>k_kb := kb\<rparr>))"

text \<open>\<^verbatim>\<open>init\<close> of the driver claims the line right after it has found the card.\<close>

definition am79c793_init :: "nic option dev_ops \<Rightarrow> irq_env \<Rightarrow> kernel \<Rightarrow> kernel res" where
  "am79c793_init ops env k =
     rbind (register_netdev ops (net_dev (k_net k))) (\<lambda>(dev, r).
       let k1 = k\<lparr>k_net := (k_net k)\<lparr>net_dev := dev\<rparr>\<rparr>
       in if r = -1 then Inr k1 else claim_line env (dev_irq dev) (ir_card env) (ir_device env) k1)"

fun run_initcall :: "nic option dev_ops \<Rightarrow> irq_env \<Rightarrow> controller \<Rightarrow> initcall \<Rightarrow> kernel \<Rightarrow> kernel res" where
  "run_initcall ops env kbc Thread_int k = Inr (k\<lparr>k_threads := thread_int (k_threads k)\<rparr>)"
| "run_initcall ops env kbc Arp_init k = Inr (k\<lparr>k_net := (k_net k)\<lparr>arp_map := arp_init\<rparr>\<rparr>)"
| "run_initcall ops env kbc Keyboard_init k = keyboard_start env kbc k"
| "run_initcall ops env kbc Am79c793_init k = am79c793_init ops env k"

text \<open>\<^verbatim>\<open>main\<close> from \<^verbatim>\<open>do_initcalls\<close> to the endless loop of \<^verbatim>\<open>handle_net\<close>.\<close>

definition main_network :: "nic option dev_ops \<Rightarrow> irq_env \<Rightarrow> controller \<Rightarrow> (nat \<Rightarrow> net_event list) \<Rightarrow> (nat \<Rightarrow> net_event list)
    \<Rightarrow> kernel \<Rightarrow> kernel res" where
  "main_network ops env kbc env1 env2 k =
     rbind (do_initcalls (run_initcall ops env kbc) kernel_initcalls k) (\<lambda>k1.
     rmap (\<lambda>(q, net). k1\<lparr>k_queue := q, k_net := net\<rparr>) (handle_net ops env1 env2 (k_queue k1, k_net k1)))"

subsection \<open>The initialisations\<close>

lemma kernel_initcalls_run:
  "do_initcalls call kernel_initcalls s = run_steps call [Thread_int, Arp_init, Keyboard_init, Am79c793_init] s"
proof -
  have "[0..<9 - 1] = [0, 1, 2, 3, 4, 5, 6, 7 :: nat]" by (simp add: upt_rec)
  moreover note l = level_calls_sections[of kernel_initcalls, unfolded One_nat_def]
  ultimately show ?thesis
    by (simp add: do_initcalls_def run_steps_concat l)
      (simp add: kernel_initcalls_def thread_initcall_def arp_initcall_def keyboard_initcall_def am79c793_initcall_def
        in_section_def core_initcall_def module_init_def device_initcall_def define_initcall_def)
qed

text \<open>The driver as its initialisation leaves it: nothing sent, nothing received.\<close>

definition fresh_card :: "nic_dev \<Rightarrow> nic \<Rightarrow> bool" where
  "fresh_card dev c \<longleftrightarrow> custom_data dev = Some c \<and> nic_ok c \<and> length (dev_addr dev) = 6 \<and>
     current_rx_buffer c = 0 \<and> tx_slot c = 0 \<and>
     (\<forall>i < 32. owned_by_nic (recv_ring c ! i)) \<and> (\<forall>i < 16. \<not> owned_by_nic (send_ring c ! i))"

lemma nic_init_fresh:
  assumes "pci_find_device pci 0x1022 0x2000 = Some p"
  shows "\<exists>dev' c. nic_init pci rd a b s dev = Inr (dev', 0) \<and> fresh_card dev' c \<and> dev_irq dev' = ucast (interrupt_line p)"
proof -
  obtain dev' where d: "nic_init pci rd a b s dev = Inr (dev', 0)"
    using assms by (simp add: nic_init_def am79c793_probe_def Let_def nic_buffer_size_def)
  obtain c where c: "custom_data dev' = Some c" "nic_ok c" "length (dev_addr dev') = 6" using nic_init_ok[OF d] by blast
  have "current_rx_buffer c = 0 \<and> tx_slot c = 0 \<and> (\<forall>i < 32. owned_by_nic (recv_ring c ! i)) \<and>
      (\<forall>i < 16. \<not> owned_by_nic (send_ring c ! i))"
    using d c(1) unfolding nic_init_def
    by (auto simp: nic_const tx_slot_def owned_by_nic_def Let_def split: prod.splits if_splits)
  moreover have "dev_irq dev' = ucast (interrupt_line p)"
    using d assms by (auto simp: nic_init_def am79c793_probe_def Let_def nic_buffer_size_def)
  ultimately show ?thesis using d c by (auto simp: fresh_card_def)
qed

text \<open>After a line was claimed, its handler is in the table, and it is unmasked unless it is line 8.\<close>

definition claimed :: "irq_env \<Rightarrow> nat \<Rightarrow> u32 \<Rightarrow> u32 \<Rightarrow> kernel \<Rightarrow> kernel \<Rightarrow> bool" where
  "claimed env n h dev k k' \<longleftrightarrow>
     k_irqs k' = (k_irqs k)[n := (k_irqs k ! n)\<lparr>ie_handler := h, ie_dev_id := dev\<rparr>] \<and>
     (\<forall>j < 16. line_masked (ir_read env) (k_ports k') j \<longleftrightarrow> line_masked (ir_read env) (k_ports k) j \<and> (j \<noteq> n \<or> n = 8))"

lemma claim_line_ok:
  assumes "mask_registers (ir_read env)" and "length (k_irqs k) = 16" and "unat irq < 16"
  shows "\<exists>tbl lg. claim_line env irq h dev k = Inr (k\<lparr>k_irqs := tbl, k_ports := lg\<rparr>) \<and>
    claimed env (unat irq) h dev k (k\<lparr>k_irqs := tbl, k_ports := lg\<rparr>)"
proof -
  have "unat (ucast irq :: u8) = unat irq" using assms(3) by (simp add: unat_narrow_8)
  then show ?thesis
    using assms irq_masking(1)[OF assms(1) _ assms(3)]
    by (auto simp: claim_line_def claimed_def register_irq_def arr_get_def arr_set_def)
qed

lemma initcalls_done:
  assumes "pci_find_device pci 0x1022 0x2000 = Some p" and "unat (interrupt_line p) < 16"
    and "keyboard_init kbc (k_kb k) = Inr kb" and "mask_registers (ir_read env)" and "length (k_irqs k) = 16"
  shows "\<exists>dev c k1 k2. fresh_card dev c \<and> claimed env 1 (ir_keyboard env) 0 k k1 \<and>
    claimed env (unat (interrupt_line p)) (ir_card env) (ir_device env) k1 k2 \<and>
    do_initcalls (run_initcall (am79c793 pci rd a b s) env kbc) kernel_initcalls k = Inr k2 \<and>
    k_threads k2 = thread_int (k_threads k) \<and> k_kb k2 = kb \<and> k_queue k2 = k_queue k \<and>
    k_net k2 = \<lparr>arp_map = arp_init, net_dev = dev\<rparr>"
proof -
  let ?k0 = "k\<lparr>k_threads := thread_int (k_threads k), k_net := (k_net k)\<lparr>arp_map := arp_init\<rparr>, k_kb := kb\<rparr>"
  obtain dev c where d: "nic_init pci rd a b s (net_dev (k_net k)) = Inr (dev, 0)" "fresh_card dev c"
    and i: "dev_irq dev = ucast (interrupt_line p)"
    using nic_init_fresh[OF assms(1)] by blast
  have l: "unat KEYBOARD_IRQ = 1" "unat (dev_irq dev) = unat (interrupt_line p)"
    by (simp_all add: KEYBOARD_IRQ_def i unat_widen)
  have e1: "length (k_irqs ?k0) = 16" "unat KEYBOARD_IRQ < 16" using assms(5) by (simp_all add: l)
  obtain t1 l1 where 1: "claim_line env KEYBOARD_IRQ (ir_keyboard env) 0 ?k0 = Inr (?k0\<lparr>k_irqs := t1, k_ports := l1\<rparr>)"
    "claimed env 1 (ir_keyboard env) 0 ?k0 (?k0\<lparr>k_irqs := t1, k_ports := l1\<rparr>)"
    using claim_line_ok[OF assms(4) e1, of "ir_keyboard env" 0] unfolding l(1) by blast
  let ?k1 = "?k0\<lparr>k_irqs := t1, k_ports := l1\<rparr>"
  let ?k2 = "?k1\<lparr>k_net := \<lparr>arp_map = arp_init, net_dev = dev\<rparr>\<rparr>"
  have e2: "length (k_irqs ?k2) = 16" "unat (dev_irq dev) < 16" using 1(2) assms(2,5) by (simp_all add: claimed_def l)
  obtain t2 l2 where 2: "claim_line env (dev_irq dev) (ir_card env) (ir_device env) ?k2 = Inr (?k2\<lparr>k_irqs := t2, k_ports := l2\<rparr>)"
    "claimed env (unat (interrupt_line p)) (ir_card env) (ir_device env) ?k2 (?k2\<lparr>k_irqs := t2, k_ports := l2\<rparr>)"
    using claim_line_ok[OF assms(4) e2, of "ir_card env" "ir_device env"] unfolding l(2) by blast
  have net: "(k_net k)\<lparr>arp_map := arp_init, net_dev := dev\<rparr> = \<lparr>arp_map = arp_init, net_dev = dev\<rparr>" by (cases "k_net k") simp
  let ?k3 = "?k2\<lparr>k_irqs := t2, k_ports := l2\<rparr>"
  have "do_initcalls (run_initcall (am79c793 pci rd a b s) env kbc) kernel_initcalls k = Inr ?k3"
    using 1(1) 2(1) assms(3) d(1)
    by (simp add: net kernel_initcalls_run keyboard_start_def am79c793_init_def register_netdev_def am79c793_def)
  moreover have "claimed env 1 (ir_keyboard env) 0 k ?k1"
    "claimed env (unat (interrupt_line p)) (ir_card env) (ir_device env) ?k1 ?k3"
    using 1(2) 2(2) by (simp_all add: claimed_def)
  ultimately show ?thesis using d(2)
    by (intro exI[of _ dev] exI[of _ c] exI[of _ ?k1] exI[of _ ?k3]) simp
qed

subsection \<open>The two hosts\<close>

text \<open>The two addresses fall into different buckets of the table.\<close>

lemma host_keys:
  "hm_look arp_init (htonl 0x0A000204) = None" "hash_get arp_init (htonl 0x0A000204) = Inr None"
proof -
  have b: "hm_list arp_init = Some (replicate 10 (zero_entry, []))" by (simp add: arp_init_def)
  show n: "hm_look arp_init (htonl 0x0A000204) = None"
    by (simp add: hm_look_def b slot_def zero_entry_def htonl_def Let_def)
  show "hash_get arp_init (htonl 0x0A000204) = Inr None"
    using hash_get_absent[OF hm_inv_init b n] by (simp add: slot_def zero_entry_def htonl_def Let_def)
qed

lemma second_host_key:
  assumes "hash_put arp_init (htonl 0x0A000204) mac = Inr m" and "length mac = 6"
  shows "hm_inv m" "hm_look m (htonl 0x0A000204) = Some mac" "hm_look m (htonl 0x0A000202) = None"
    "hash_get m (htonl 0x0A000202) = Inr None"
proof -
  have z: "htonl 0x0A000204 \<noteq> (0 :: u32)" by (simp add: htonl_def Let_def)
  show i: "hm_inv m" and "hm_look m (htonl 0x0A000204) = Some mac"
    using hash_put_fresh[OF hm_inv_init z assms(2) host_keys(1)] assms(1) by auto
  let ?bs = "(replicate 10 (zero_entry, []))[6 := (zero_entry\<lparr>e_ip := htonl 0x0A000204, e_mac := mac\<rparr>, [])]"
  have l: "hm_list m = Some ?bs"
    using assms(1) by (auto simp: hash_put_def arp_init_def hash_code_def bucket_put_def zero_entry_def htonl_def Let_def)
  show n: "hm_look m (htonl 0x0A000202) = None"
    by (simp add: hm_look_def l slot_def zero_entry_def htonl_def Let_def)
  show "hash_get m (htonl 0x0A000202) = Inr None"
    using hash_get_absent[OF i l n] by (simp add: slot_def zero_entry_def htonl_def Let_def)
qed

text \<open>A host answers in round \<open>n\<close>, after rounds without interrupts.\<close>

definition answered_in :: "nat \<Rightarrow> u32 \<Rightarrow> u8 list \<Rightarrow> (nat \<Rightarrow> net_event list) \<Rightarrow> bool" where
  "answered_in n ip mac env \<longleftrightarrow> (\<forall>j < n. env j = []) \<and> length mac = 6 \<and>
     (\<exists>dma d t tip pad. env n = [Card dma, Nic_irq 0x0400, Tick] \<and> length d = 6 \<and> length t = 6 \<and>
       (\<forall>c. card_delivers dma c (arp_frame d mac ETH_P_ARP ARPOP_REPLY (htonl ip) t tip @ pad)))"

text \<open>The frame that a slot of the transmit ring was filled with.\<close>

definition sent :: "nic \<Rightarrow> nat \<Rightarrow> u8 list \<Rightarrow> bool" where
  "sent c i f \<longleftrightarrow> take (length f) (bd_buffer (send_ring c ! i)) = f"

text \<open>One of the loops, in a driver that has its transmit slots from the current one on free.\<close>

lemma asks_for_address:
  assumes "answered_in n ip mac env" and "custom_data (net_dev st) = Some c" and "nic_ok c" and "length (dev_addr (net_dev st)) = 6"
    and "hm_inv (arp_map st)" and "hm_look (arp_map st) (htonl ip) = None" and "hash_get (arp_map st) (htonl ip) = Inr None"
    and "htonl ip \<noteq> 0" and "queue_repr q []" and "unat (current_rx_buffer c) < 31" and "\<forall>i < 32. owned_by_nic (recv_ring c ! i)"
    and "tx_slot c + Suc n < 16" and "\<forall>i. tx_slot c \<le> i \<and> i < 16 \<longrightarrow> \<not> owned_by_nic (send_ring c ! i)"
  shows "\<exists>q' st' c'. arp_wait (am79c793 pci rd a b s) ip env 0 (q, st) = Some (Inr (mac, Suc n, q', st')) \<and> queue_repr q' [] \<and>
    hash_put (arp_map st) (htonl ip) mac = Inr (arp_map st') \<and> custom_data (net_dev st') = Some c' \<and> nic_ok c' \<and>
    dev_addr (net_dev st') = dev_addr (net_dev st) \<and> dev_ip (net_dev st') = dev_ip (net_dev st) \<and>
    unat (current_rx_buffer c') = Suc (unat (current_rx_buffer c)) \<and> (\<forall>i < 32. owned_by_nic (recv_ring c' ! i)) \<and>
    tx_slot c' = tx_slot c + Suc n \<and> (\<forall>i. i < tx_slot c \<or> tx_slot c' \<le> i \<and> i < 16 \<longrightarrow> send_ring c' ! i = send_ring c ! i) \<and>
    (\<forall>i. tx_slot c \<le> i \<and> i < tx_slot c' \<longrightarrow> sent c' i (arp_request ip (net_dev st)))"
proof -
  obtain dma d t tip pad where w: "env n = [Card dma, Nic_irq 0x0400, Tick]" "length d = 6" "length t = 6"
    "card_delivers dma c (arp_frame d mac ETH_P_ARP ARPOP_REPLY (htonl ip) t tip @ pad)" and m: "length mac = 6" "\<forall>j < n. env j = []"
    using assms(1) unfolding answered_in_def by blast
  have f: "arp_find st ip = Inr None" using assms(7) by (simp add: arp_find_def)
  have i: "unat (current_rx_buffer c) + 1 < 32" "owned_by_nic (recv_ring c ! (unat (current_rx_buffer c) + 1))"
    using assms(10,11) by simp_all
  obtain dev cd q' st' c' where v: "resend (Suc n) (net_dev st) (arp_request ip (net_dev st)) = Inr dev" "custom_data dev = Some cd"
    "rx_same (net_dev st) c dev" "arp_wait (am79c793 pci rd a b s) ip env 0 (q, st) = Some (Inr (mac, Suc n, q', st'))"
    "queue_repr q' []" "hash_put (arp_map st) (htonl ip) mac = Inr (arp_map st')"
    "dev_addr (net_dev st') = dev_addr (net_dev st)" "dev_ip (net_dev st') = dev_ip (net_dev st)"
    "custom_data (net_dev st') = Some c'" "rx_after cd c'"
    using arp_wait_learns[OF assms(2-6) f assms(8,9) i w(2) m(1) w(3,4) m(2) w(1)] by blast
  have "length (arp_request ip (net_dev st)) \<le> 1544" by (simp add: length_arp_request[OF assms(4)])
  note r = resend_slots[OF assms(2,3) this assms(12,13) v(1,2)]
  have a: "recv_ring cd = recv_ring c" "current_rx_buffer cd = current_rx_buffer c" using v(2,3) by (auto simp: rx_same_def)
  have "owned_by_nic (recv_ring c' ! i)" if "i < 32" for i
    using v(10) a assms(11) that by (cases "i = unat (current_rx_buffer c)") (auto simp: rx_after_def)
  moreover have "send_ring c' = send_ring cd" "tx_slot c' = tx_slot cd" using v(10) by (simp_all add: rx_after_def tx_slot_def)
  ultimately show ?thesis using v a r by (intro exI[of _ q'] exI[of _ st'] exI[of _ c']) (simp add: rx_after_def sent_def)
qed

text \<open>What \<^verbatim>\<open>handle_net\<close> sends last.\<close>

definition hello_frame :: "u8 list \<Rightarrow> u8 list \<Rightarrow> u8 list" where
  "hello_frame dst src = ip_frame dst src (mk_iphdr IP_P_UDP 32 1 0x4000 0x0A00020C 0x0A000202)
     (udp_msg 0x0A00020C 0x0A000202 3333 5555 (map of_char ''fds#''))"

lemma length_hello: "length dst = 6 \<Longrightarrow> length src = 6 \<Longrightarrow> length (hello_frame dst src) = 46"
  by (simp add: hello_frame_def ip_frame_def eth_bytes_def)

lemma handle_net_talks:
  assumes "fresh_card (net_dev st) c" and "arp_map st = arp_init" and "queue_repr q []"
    and "answered_in n1 0x0A000204 mac1 env1" and "answered_in n2 0x0A000202 mac2 env2" and "n1 + n2 < 14"
  shows "\<exists>q' st' c'. handle_net (am79c793 pci rd a b s) env1 env2 (q, st) = Inr (q', st') \<and> queue_repr q' [] \<and>
    arp_find st' 0x0A000204 = Inr (Some mac1) \<and> arp_find st' 0x0A000202 = Inr (Some mac2) \<and>
    dev_addr (net_dev st') = dev_addr (net_dev st) \<and> dev_ip (net_dev st') = 0x0A00020C \<and>
    custom_data (net_dev st') = Some c' \<and> nic_ok c' \<and> tx_slot c' = (n1 + n2 + 3) mod 16 \<and>
    (\<forall>i \<le> n1. sent c' i (arp_request 0x0A000204 (net_dev st'))) \<and>
    (\<forall>i. n1 < i \<and> i \<le> n1 + n2 + 1 \<longrightarrow> sent c' i (arp_request 0x0A000202 (net_dev st'))) \<and>
    sent c' (n1 + n2 + 2) (hello_frame mac2 (dev_addr (net_dev st)))"
proof -
  let ?ops = "am79c793 pci rd a b s" and ?st = "st\<lparr>net_dev := (net_dev st)\<lparr>dev_ip := 0x0A00020C\<rparr>\<rparr>"
  have c: "custom_data (net_dev st) = Some c" "nic_ok c" "length (dev_addr (net_dev st)) = 6" "unat (current_rx_buffer c) = 0"
    "tx_slot c = 0" "\<forall>i < 32. owned_by_nic (recv_ring c ! i)" "\<forall>i < 16. \<not> owned_by_nic (send_ring c ! i)"
    using assms(1) by (simp_all add: fresh_card_def)
  have z: "htonl 0x0A000204 \<noteq> (0 :: u32)" "htonl 0x0A000202 \<noteq> (0 :: u32)" by (simp_all add: htonl_def Let_def)
  have mac: "length mac1 = 6" "length mac2 = 6" using assms(4,5) by (simp_all add: answered_in_def)
  obtain q1 st1 c1 where w1: "arp_wait ?ops 0x0A000204 env1 0 (q, ?st) = Some (Inr (mac1, Suc n1, q1, st1))" "queue_repr q1 []"
    "hash_put arp_init (htonl 0x0A000204) mac1 = Inr (arp_map st1)" "custom_data (net_dev st1) = Some c1" "nic_ok c1"
    "dev_addr (net_dev st1) = dev_addr (net_dev st)" "dev_ip (net_dev st1) = 0x0A00020C" "unat (current_rx_buffer c1) = 1"
    "\<forall>i < 32. owned_by_nic (recv_ring c1 ! i)" "tx_slot c1 = Suc n1"
    "\<forall>i. Suc n1 \<le> i \<and> i < 16 \<longrightarrow> send_ring c1 ! i = send_ring c ! i"
    "\<forall>i < Suc n1. sent c1 i (arp_request 0x0A000204 ((net_dev st)\<lparr>dev_ip := 0x0A00020C\<rparr>))"
    using asks_for_address[OF assms(4), of ?st c q pci rd a b s] c assms(2,3,6) host_keys z(1) hm_inv_init by auto
  note k = second_host_key[OF w1(3) mac(1)]
  have free: "\<forall>i. tx_slot c1 \<le> i \<and> i < 16 \<longrightarrow> \<not> owned_by_nic (send_ring c1 ! i)" using w1(10,11) c(7) by simp
  obtain q2 st2 c2 where w2: "arp_wait ?ops 0x0A000202 env2 0 (q1, st1) = Some (Inr (mac2, Suc n2, q2, st2))" "queue_repr q2 []"
    "hash_put (arp_map st1) (htonl 0x0A000202) mac2 = Inr (arp_map st2)" "custom_data (net_dev st2) = Some c2" "nic_ok c2"
    "dev_addr (net_dev st2) = dev_addr (net_dev st)" "dev_ip (net_dev st2) = 0x0A00020C" "tx_slot c2 = Suc n1 + Suc n2"
    "\<forall>i. i < Suc n1 \<or> Suc n1 + Suc n2 \<le> i \<and> i < 16 \<longrightarrow> send_ring c2 ! i = send_ring c1 ! i"
    "\<forall>i. Suc n1 \<le> i \<and> i < Suc n1 + Suc n2 \<longrightarrow> sent c2 i (arp_request 0x0A000202 (net_dev st1))"
    using asks_for_address[OF assms(5) w1(4,5) _ k(1,3,4) z(2) w1(2) _ w1(9) _ free, of pci rd a b s] w1(6-8,10) c(3) assms(6) by auto
  have m: "hm_inv (arp_map st2)" "hm_look (arp_map st2) = (hm_look (arp_map st1))(htonl 0x0A000202 \<mapsto> mac2)"
    using hash_put_fresh[OF k(1) z(2) mac(2) k(3)] w2(3) by auto
  have "htonl 0x0A000204 \<noteq> (htonl 0x0A000202 :: u32)" by (simp add: htonl_def Let_def)
  then have found: "hash_get (arp_map st2) (htonl 0x0A000204) = Inr (Some mac1)" "hash_get (arp_map st2) (htonl 0x0A000202) = Inr (Some mac2)"
    using m k(2) by (auto intro!: hash_get_look)
  let ?f = "hello_frame mac2 (dev_addr (net_dev st))"
  have len: "length ?f = 46" using mac(2) c(3) by (rule length_hello)
  have t2: "tx_slot c2 < 16" "\<not> owned_by_nic (send_ring c2 ! tx_slot c2)" using w2(8,9) free w1(10) assms(6) by simp_all
  obtain dev c' where d: "nic_send (net_dev st2) ?f 46 = Inr (dev, 0)" "custom_data dev = Some c'" "nic_ok c'"
    "tx_slot c' = (tx_slot c2 + 1) mod 16" "take 46 (bd_buffer (send_ring c' ! tx_slot c2)) = take 46 ?f"
    "\<forall>i < 16. i \<noteq> tx_slot c2 \<longrightarrow> send_ring c' ! i = send_ring c2 ! i"
    using nic_send_ok[OF w2(4,5) t2(2), of 46 ?f] len by auto
  have da: "dev_addr dev = dev_addr (net_dev st)" "dev_ip dev = 0x0A00020C" using send_cases[OF d(1)] w2(6,7) by simp_all
  then have req: "arp_request ip ((net_dev st)\<lparr>dev_ip := 0x0A00020C\<rparr>) = arp_request ip dev" "arp_request ip (net_dev st1) = arp_request ip dev" for ip
    using w1(6,7) by (simp_all add: arp_request_def)
  have h: "handle_net ?ops env1 env2 (q, st) = Inr (q2, st2\<lparr>net_dev := dev\<rparr>)"
    using handle_net_after[OF w1(1) w2(1) _ mac(2)] found(2) w2(6,7) c(3) d(1) by (simp add: arp_find_def hello_frame_def)
  have s1: "sent c' i (arp_request 0x0A000204 dev)" if "i \<le> n1" for i
    using that w1(12) w2(8,9) d(6) t2(1) by (simp add: sent_def req)
  have s2: "sent c' i (arp_request 0x0A000202 dev)" if "n1 < i" "i \<le> n1 + n2 + 1" for i
    using that w2(8,10) d(6) t2(1) by (simp add: sent_def req)
  have "sent c' (n1 + n2 + 2) ?f" using d(5) w2(8) by (simp add: sent_def len)
  moreover have "tx_slot c' = (n1 + n2 + 3) mod 16" using d(4) w2(8) by (simp add: ac_simps)
  ultimately show ?thesis using h w2(2) found da d(2,3) s1 s2
    by (intro exI[of _ q2] exI[of _ "st2\<lparr>net_dev := dev\<rparr>"] exI[of _ c']) (simp add: arp_find_def)
qed

text \<open>The whole of it.\<close>

lemma main_network_runs:
  assumes "pci_find_device pci 0x1022 0x2000 = Some p" and "unat (interrupt_line p) < 16"
    and "keyboard_init kbc (k_kb k) = Inr kb" and "mask_registers (ir_read env)" and "length (k_irqs k) = 16"
    and "queue_repr (k_queue k) []"
    and "answered_in n1 0x0A000204 mac1 env1" and "answered_in n2 0x0A000202 mac2 env2" and "n1 + n2 < 14"
  shows "\<exists>k1 k2 k' c. main_network (am79c793 pci rd a b s) env kbc env1 env2 k = Inr k' \<and> k_kb k' = kb \<and>
    k_threads k' = thread_int (k_threads k) \<and>
    claimed env 1 (ir_keyboard env) 0 k k1 \<and> claimed env (unat (interrupt_line p)) (ir_card env) (ir_device env) k1 k2 \<and>
    k_irqs k' = k_irqs k2 \<and> k_ports k' = k_ports k2 \<and>
    queue_repr (k_queue k') [] \<and>
    arp_find (k_net k') 0x0A000204 = Inr (Some mac1) \<and> arp_find (k_net k') 0x0A000202 = Inr (Some mac2) \<and>
    dev_ip (net_dev (k_net k')) = 0x0A00020C \<and> custom_data (net_dev (k_net k')) = Some c \<and> nic_ok c \<and> tx_slot c = (n1 + n2 + 3) mod 16 \<and>
    (\<forall>i \<le> n1. sent c i (arp_request 0x0A000204 (net_dev (k_net k')))) \<and>
    (\<forall>i. n1 < i \<and> i \<le> n1 + n2 + 1 \<longrightarrow> sent c i (arp_request 0x0A000202 (net_dev (k_net k')))) \<and>
    sent c (n1 + n2 + 2) (hello_frame mac2 (dev_addr (net_dev (k_net k'))))"
proof -
  obtain dev c0 k1 k2 where i: "fresh_card dev c0" "claimed env 1 (ir_keyboard env) 0 k k1"
    "claimed env (unat (interrupt_line p)) (ir_card env) (ir_device env) k1 k2"
    "do_initcalls (run_initcall (am79c793 pci rd a b s) env kbc) kernel_initcalls k = Inr k2"
    "k_threads k2 = thread_int (k_threads k)" "k_kb k2 = kb" "k_queue k2 = k_queue k" "k_net k2 = \<lparr>arp_map = arp_init, net_dev = dev\<rparr>"
    using initcalls_done[OF assms(1-5)] by blast
  have "fresh_card (net_dev \<lparr>arp_map = arp_init, net_dev = dev\<rparr>) c0" using i(1) by simp
  from handle_net_talks[OF this _ assms(6-9), of pci rd a b s]
  obtain q' st' c' where h: "handle_net (am79c793 pci rd a b s) env1 env2 (k_queue k, \<lparr>arp_map = arp_init, net_dev = dev\<rparr>) = Inr (q', st')"
    "queue_repr q' []" "arp_find st' 0x0A000204 = Inr (Some mac1)" "arp_find st' 0x0A000202 = Inr (Some mac2)"
    "dev_addr (net_dev st') = dev_addr dev" "dev_ip (net_dev st') = 0x0A00020C" "custom_data (net_dev st') = Some c'" "nic_ok c'"
    "tx_slot c' = (n1 + n2 + 3) mod 16" "\<forall>i \<le> n1. sent c' i (arp_request 0x0A000204 (net_dev st'))"
    "\<forall>i. n1 < i \<and> i \<le> n1 + n2 + 1 \<longrightarrow> sent c' i (arp_request 0x0A000202 (net_dev st'))"
    "sent c' (n1 + n2 + 2) (hello_frame mac2 (dev_addr dev))" by auto
  show ?thesis
    by (rule exI[of _ k1], rule exI[of _ k2], rule exI[of _ "k2\<lparr>k_queue := q', k_net := st'\<rparr>"], rule exI[of _ c'])
      (use h i in \<open>simp add: main_network_def\<close>)
qed

subsection \<open>Properties\<close>

text \<open>
  C2. The start of the network: on a machine with the card, whose keyboard controller answers, and with two hosts
  that answer in round \<open>n1\<close> and \<open>n2\<close>, the registered initialisations and the loops of \<^verbatim>\<open>handle_net\<close> return. Both
  hosts are in the address table, the packet queue is empty, and the transmit ring holds from its first slot on
  \<open>n1 + 1\<close> requests for the first host, \<open>n2 + 1\<close> requests for the second, and the datagram to the second host with
  the hardware address that host gave. (The ring has 16 slots, and the model's card does not give them back.)
  The line of the card leads to the handler of the driver and is open, unless it is line 8 and was masked before.
\<close>

theorem network_comes_up:
  assumes "pci_find_device pci 0x1022 0x2000 = Some p" and "unat (interrupt_line p) < 16"
    and "keyboard_init kbc (k_kb k) = Inr kb" and "mask_registers (ir_read env)" and "length (k_irqs k) = 16"
    and "queue_repr (k_queue k) []"
    and "answered_in n1 0x0A000204 mac1 env1" and "answered_in n2 0x0A000202 mac2 env2" and "n1 + n2 < 14"
  shows "\<exists>k' net line c. main_network (am79c793 pci rd a b s) env kbc env1 env2 k = Inr k' \<and> net = k_net k' \<and>
    line = unat (interrupt_line p) \<and> k_kb k' = kb \<and> k_threads k' = thread_int (k_threads k) \<and> queue_repr (k_queue k') [] \<and>
    ie_handler (k_irqs k' ! line) = ir_card env \<and> ie_dev_id (k_irqs k' ! line) = ir_device env \<and>
    (line_masked (ir_read env) (k_ports k') line \<longleftrightarrow> line = 8 \<and> line_masked (ir_read env) (k_ports k) line) \<and>
    arp_find net 0x0A000204 = Inr (Some mac1) \<and> arp_find net 0x0A000202 = Inr (Some mac2) \<and>
    dev_ip (net_dev net) = 0x0A00020C \<and> custom_data (net_dev net) = Some c \<and> nic_ok c \<and> tx_slot c = (n1 + n2 + 3) mod 16 \<and>
    (\<forall>i \<le> n1. sent c i (arp_request 0x0A000204 (net_dev net))) \<and>
    (\<forall>i. n1 < i \<and> i \<le> n1 + n2 + 1 \<longrightarrow> sent c i (arp_request 0x0A000202 (net_dev net))) \<and>
    sent c (n1 + n2 + 2) (hello_frame mac2 (dev_addr (net_dev net)))"
proof -
  obtain k1 k2 k' c where r: "main_network (am79c793 pci rd a b s) env kbc env1 env2 k = Inr k'" "k_kb k' = kb"
    "k_threads k' = thread_int (k_threads k)" "claimed env 1 (ir_keyboard env) 0 k k1"
    "claimed env (unat (interrupt_line p)) (ir_card env) (ir_device env) k1 k2" "k_irqs k' = k_irqs k2" "k_ports k' = k_ports k2"
    and n: "queue_repr (k_queue k') []"
    "arp_find (k_net k') 0x0A000204 = Inr (Some mac1)" "arp_find (k_net k') 0x0A000202 = Inr (Some mac2)"
    "dev_ip (net_dev (k_net k')) = 0x0A00020C" "custom_data (net_dev (k_net k')) = Some c" "nic_ok c" "tx_slot c = (n1 + n2 + 3) mod 16"
    "\<forall>i \<le> n1. sent c i (arp_request 0x0A000204 (net_dev (k_net k')))"
    "\<forall>i. n1 < i \<and> i \<le> n1 + n2 + 1 \<longrightarrow> sent c i (arp_request 0x0A000202 (net_dev (k_net k')))"
    "sent c (n1 + n2 + 2) (hello_frame mac2 (dev_addr (net_dev (k_net k'))))"
    using main_network_runs[OF assms, of rd a b s] by blast
  have "ie_handler (k_irqs k' ! unat (interrupt_line p)) = ir_card env" "ie_dev_id (k_irqs k' ! unat (interrupt_line p)) = ir_device env"
    using r(4-6) assms(2,5) by (simp_all add: claimed_def)
  moreover have "line_masked (ir_read env) (k_ports k') (unat (interrupt_line p)) \<longleftrightarrow>
      unat (interrupt_line p) = 8 \<and> line_masked (ir_read env) (k_ports k) (unat (interrupt_line p))"
    using r(4,5,7) assms(2) by (auto simp: claimed_def)
  ultimately show ?thesis
    by (intro exI[of _ k'] exI[of _ "k_net k'"] exI[of _ "unat (interrupt_line p)"] exI[of _ c]) (use r(1-3) n in simp)
qed

subsection \<open>Two hosts that answer in the third and in the first round\<close>

definition host_reply :: "u32 \<Rightarrow> u8 \<Rightarrow> u8 list" where
  "host_reply ip x = arp_frame (replicate 6 1) (replicate 6 x) ETH_P_ARP ARPOP_REPLY (htonl ip) (replicate 6 1) 0 @ replicate 18 0"

definition host_dma :: "u32 \<Rightarrow> u8 \<Rightarrow> nic_dev \<Rightarrow> nic_dev" where
  "host_dma ip x dev = dev\<lparr>custom_data := map_option (\<lambda>c. c\<lparr>recv_ring := (recv_ring c)[unat (current_rx_buffer c) :=
     \<lparr>bd_buffer = host_reply ip x @ replicate 1484 0, bd_flags = 0x0300F7FF, bd_flags2 = 64, bd_avail = 0\<rparr>]\<rparr>) (custom_data dev)\<rparr>"

lemma host_answers:
  "answered_in n ip (replicate 6 x) (\<lambda>j. if j = n then [Card (host_dma ip x), Nic_irq 0x0400, Tick] else [])"
proof -
  let ?bd = "\<lparr>bd_buffer = host_reply ip x @ replicate 1484 0, bd_flags = 0x0300F7FF, bd_flags2 = 64, bd_avail = 0\<rparr>"
  have l: "length (host_reply ip x) = 60" by (simp add: host_reply_def length_arp_frame)
  then have "frame_ready ?bd \<and> frame_of ?bd = (Some (host_reply ip x), of_nat (length (host_reply ip x)))"
    by (simp add: frame_ready_def frame_of_def frame_complete_def frame_size_def owned_by_nic_def)
  then have "card_delivers (host_dma ip x) c (host_reply ip x)" for c by (auto simp: card_delivers_def host_dma_def)
  then show ?thesis
    unfolding answered_in_def host_reply_def
    by (intro conjI exI[of _ "host_dma ip x"] exI[of _ "replicate 6 1"] exI[of _ 0] exI[of _ "replicate 18 0"]) simp_all
qed

text \<open>A keyboard controller that is ready at once and acknowledges.\<close>

lemma keyboard_init_ready: "\<exists>kb'. keyboard_init (\<lambda>n p. if p = KB_DATA then KB_ACK else 0) kb = Inr kb'"
  by (simp add: keyboard_init_def set_leds_def send_byte_def kb_wait.simps kb_ack.simps kb_inb_def KB_DATA_def KB_CMD_def KB_ACK_def)

theorem network_comes_up_witness:
  "\<exists>k' c. main_network (am79c793 sample_pci (\<lambda>_. 0x1234) 0xC0200000 0xC0201000 0xC0202000)
      \<lparr>ir_read = last_written, ir_keyboard = 1, ir_card = 2, ir_device = 3\<rparr> (\<lambda>n p. if p = KB_DATA then KB_ACK else 0)
      (\<lambda>j. if j = 2 then [Card (host_dma 0x0A000204 2), Nic_irq 0x0400, Tick] else [])
      (\<lambda>j. if j = 0 then [Card (host_dma 0x0A000202 3), Nic_irq 0x0400, Tick] else [])
      \<lparr>k_threads = two_threads, k_kb = idle_kb, k_queue = skb_empty,
        k_net = \<lparr>arp_map = arp_init, net_dev = sample_dev None\<rparr>, k_irqs = irq_table0 0, k_ports = init_8259A_commands\<rparr> = Inr k' \<and>
    custom_data (net_dev (k_net k')) = Some c \<and> tx_slot c = 5 \<and>
    sent c 4 (hello_frame (replicate 6 3) (dev_addr (net_dev (k_net k')))) \<and>
    ie_handler (k_irqs k' ! 11) = 2 \<and> \<not> line_masked last_written (k_ports k') 11"
proof -
  let ?k = "\<lparr>k_threads = two_threads, k_kb = idle_kb, k_queue = skb_empty,
    k_net = \<lparr>arp_map = arp_init, net_dev = sample_dev None\<rparr>, k_irqs = irq_table0 0, k_ports = init_8259A_commands\<rparr>"
  let ?env = "\<lparr>ir_read = last_written, ir_keyboard = 1, ir_card = 2, ir_device = 3\<rparr>"
  obtain kb where kb: "keyboard_init (\<lambda>n p. if p = KB_DATA then KB_ACK else 0) (k_kb ?k) = Inr kb"
    using keyboard_init_ready by blast
  have p: "pci_find_device sample_pci 0x1022 0x2000 = Some (hd sample_pci)" by (simp add: sample_pci_def)
  have l: "unat (interrupt_line (hd sample_pci)) < 16" by (simp add: sample_pci_def)
  have m: "mask_registers (ir_read ?env)" using last_written_registers by simp
  have t: "length (k_irqs ?k) = 16" by (simp add: irq_table0_def IRQ_NUMBER_def)
  have q: "queue_repr (k_queue ?k) []" using queue_repr_empty by simp
  have "2 + 0 < (14 :: nat)" by simp
  from network_comes_up[OF p l kb m t q host_answers host_answers this] show ?thesis
    by (force simp: sample_pci_def)
qed

end
