(* ===== verification/Kmalloc.thy ===== *)
theory Kmalloc
  imports Pages
begin

text \<open>
  mm/kmalloc.c: the bucket allocator. Each size class (16 to 4096 bytes) has a chain of
  descriptors; a descriptor owns one page, cut into objects of the class size, and the head
  of the page's free list, which is threaded through the first word of the free objects.

  Memory is a function from addresses to bytes. Descriptors are kept by value: a chain is
  the list of its descriptors, each with the address it is stored at, and the unused
  descriptors are the list of their addresses. Disabling and enabling interrupts around the
  updates is not modelled.
\<close>

unbundle bit_operations_syntax

subsection \<open>State\<close>

record bucket_desc =
  bd_at :: nat          \<comment> \<open>the address of the descriptor\<close>
  bd_page :: nat
  bd_freeptr :: nat
  bd_refcnt :: u16
  bd_bucket_size :: u16

text \<open>\<^verbatim>\<open>bucket_dir\<close>: the sizes are constant, the chains are state, indexed like the sizes.\<close>

definition bucket_sizes :: "nat list" where
  "bucket_sizes = [16, 32, 64, 128, 256, 512, 1024, 2048, 4096]"

record kheap =
  mem :: "nat \<Rightarrow> u8"
  kpages :: "page list"
  chain :: "nat \<Rightarrow> bucket_desc list"
  free_bucket_desc :: "nat list"

subsection \<open>Memory accesses\<close>

definition rd32 :: "(nat \<Rightarrow> u8) \<Rightarrow> nat \<Rightarrow> nat" where
  "rd32 m a = unat (of_le32 (m a) (m (a + 1)) (m (a + 2)) (m (a + 3)))"

definition wr32 :: "(nat \<Rightarrow> u8) \<Rightarrow> nat \<Rightarrow> nat \<Rightarrow> nat \<Rightarrow> u8" where
  "wr32 m a v = (let w = of_nat v :: u32 in
     m(a := ucast w, a + 1 := ucast (drop_bit 8 w), a + 2 := ucast (drop_bit 16 w),
       a + 3 := ucast (drop_bit 24 w)))"

definition zero_mem :: "(nat \<Rightarrow> u8) \<Rightarrow> nat \<Rightarrow> nat \<Rightarrow> nat \<Rightarrow> u8" where
  "zero_mem m a n = (\<lambda>b. if a \<le> b \<and> b < a + n then 0 else m b)"

text \<open>\<^verbatim>\<open>get_free_page\<close> with the clearing of the page; the result is \<^verbatim>\<open>__va\<close> of the frame.\<close>

definition take_page :: "kheap \<Rightarrow> (kheap \<times> nat) res" where
  "take_page st =
     rmap (\<lambda>(ps, a). (st\<lparr>kpages := ps, mem := zero_mem (mem st) (va a) PAGE_SIZE\<rparr>, va a))
       (get_free_page (kpages st))"

subsection \<open>Allocation\<close>

definition init_bucket_desc :: "kheap \<Rightarrow> kheap res" where
  "init_bucket_desc st =
     rmap (\<lambda>(st', first). st'\<lparr>free_bucket_desc :=
             map (\<lambda>k. first + 16 * k) [0..<PAGE_SIZE div 16] @ free_bucket_desc st'\<rparr>)
       (take_page st)"

fun find_dir :: "nat list \<Rightarrow> nat \<Rightarrow> nat \<Rightarrow> nat option" where
  "find_dir [] len i = None"
| "find_dir (s # ss) len i = (if s \<ge> len then Some i else find_dir ss len (Suc i))"

text \<open>The position in a chain of the first descriptor with a free object.\<close>

fun find_desc :: "bucket_desc list \<Rightarrow> nat \<Rightarrow> nat option" where
  "find_desc [] j = None"
| "find_desc (d # ds) j = (if bd_freeptr d \<noteq> 0 then Some j else find_desc ds (Suc j))"

text \<open>Threading the free list through the objects of a new page: \<open>i\<close> objects from \<open>cp\<close> on.\<close>

fun build_free :: "(nat \<Rightarrow> u8) \<Rightarrow> nat \<Rightarrow> nat \<Rightarrow> nat \<Rightarrow> nat \<Rightarrow> u8" where
  "build_free m cp sz i =
     (if i > 1 then build_free (wr32 m cp (cp + sz)) (cp + sz) sz (i - 1) else wr32 m cp 0)"

declare build_free.simps [simp del]

definition new_bucket :: "nat \<Rightarrow> nat \<Rightarrow> kheap \<Rightarrow> kheap res" where
  "new_bucket i sz st0 =
     rbind (if free_bucket_desc st0 = [] then init_bucket_desc st0 else Inr st0) (\<lambda>st1.
       case free_bucket_desc st1 of
         [] \<Rightarrow> Inl NullDeref
       | a # fds \<Rightarrow>
           rmap (\<lambda>(st2, cp).
               st2\<lparr>mem := build_free (mem st2) cp sz (PAGE_SIZE div sz),
                   chain := (chain st2)(i :=
                     \<lparr>bd_at = a, bd_page = cp, bd_freeptr = cp, bd_refcnt = 0,
                      bd_bucket_size = of_nat sz\<rparr> # chain st2 i)\<rparr>)
             (take_page (st1\<lparr>free_bucket_desc := fds\<rparr>)))"

text \<open>Taking the first free object of the j-th descriptor of chain i.\<close>

definition take_object :: "nat \<Rightarrow> nat \<Rightarrow> kheap \<Rightarrow> kheap \<times> nat" where
  "take_object i j st =
     (let d = chain st i ! j;
          retval = bd_freeptr d;
          d' = d\<lparr>bd_freeptr := rd32 (mem st) retval, bd_refcnt := bd_refcnt d + 1\<rparr>
      in (st\<lparr>chain := (chain st)(i := (chain st i)[j := d'])\<rparr>, retval))"

definition kmalloc :: "u32 \<Rightarrow> kheap \<Rightarrow> (kheap \<times> nat) res" where
  "kmalloc len st =
     (case find_dir bucket_sizes (unat len) 0 of
        None \<Rightarrow> Inl Panic
      | Some i \<Rightarrow>
          (case find_desc (chain st i) 0 of
             Some j \<Rightarrow> Inr (take_object i j st)
           | None \<Rightarrow> rmap (take_object i 0) (new_bucket i (bucket_sizes ! i) st)))"

definition kzmalloc :: "u32 \<Rightarrow> kheap \<Rightarrow> (kheap \<times> nat) res" where
  "kzmalloc len st =
     rmap (\<lambda>(st', a). (if a \<noteq> 0 then st'\<lparr>mem := zero_mem (mem st') a (unat len)\<rparr> else st', a))
       (kmalloc len st)"

subsection \<open>Freeing\<close>

fun find_page :: "bucket_desc list \<Rightarrow> nat \<Rightarrow> nat \<Rightarrow> nat option" where
  "find_page [] pg j = None"
| "find_page (d # ds) pg j = (if bd_page d = pg then Some j else find_page ds pg (Suc j))"

text \<open>The search through the size classes from \<open>i\<close> on, skipping those smaller than \<open>sz\<close>.\<close>

fun find_owner :: "(nat \<Rightarrow> bucket_desc list) \<Rightarrow> nat list \<Rightarrow> nat \<Rightarrow> nat \<Rightarrow> nat \<Rightarrow> (nat \<times> nat) option" where
  "find_owner ch [] sz pg i = None"
| "find_owner ch (s # ss) sz pg i =
     (if s < sz then find_owner ch ss sz pg (Suc i)
      else case find_page (ch i) pg 0 of
             Some j \<Rightarrow> Some (i, j)
           | None \<Rightarrow> find_owner ch ss sz pg (Suc i))"

definition remove_nth :: "nat \<Rightarrow> 'a list \<Rightarrow> 'a list" where
  "remove_nth j xs = take j xs @ drop (Suc j) xs"

definition kfree :: "nat \<Rightarrow> u32 \<Rightarrow> kheap \<Rightarrow> kheap res" where
  "kfree obj sz st =
     (let pg = obj - obj mod PAGE_SIZE in
      case find_owner (chain st) bucket_sizes (unat sz) pg 0 of
        None \<Rightarrow> Inl Panic
      | Some (i, j) \<Rightarrow>
          (let d = chain st i ! j;
               st1 = st\<lparr>mem := wr32 (mem st) obj (bd_freeptr d)\<rparr>;
               d' = d\<lparr>bd_freeptr := obj, bd_refcnt := bd_refcnt d - 1\<rparr>
           in if bd_refcnt d' = 0 then
                rmap (\<lambda>ps. st1\<lparr>kpages := ps, chain := (chain st1)(i := remove_nth j (chain st1 i)),
                              free_bucket_desc := bd_at d # free_bucket_desc st1\<rparr>)
                  (free_page (kpages st1) (bd_page d - 0xC0000000))
              else Inr (st1\<lparr>chain := (chain st1)(i := (chain st1 i)[j := d'])\<rparr>)))"

subsection \<open>Lemmas on memory\<close>

lemma rd32_wr32_same: "v < 4294967296 \<Longrightarrow> rd32 (wr32 m a v) a = v"
  by (simp add: rd32_def wr32_def Let_def unat_of_nat)

lemma rd32_wr32_other: "a + 4 \<le> b \<or> b + 4 \<le> a \<Longrightarrow> rd32 (wr32 m a v) b = rd32 m b"
  by (auto simp: rd32_def wr32_def Let_def)

lemma rd32_zero_other: "a + n \<le> b \<or> b + 4 \<le> a \<Longrightarrow> rd32 (zero_mem m a n) b = rd32 m b"
  by (auto simp: rd32_def zero_mem_def)

text \<open>The free list threaded from \<open>p\<close>.\<close>

fun flist :: "(nat \<Rightarrow> u8) \<Rightarrow> nat \<Rightarrow> nat list \<Rightarrow> bool" where
  "flist m p [] = (p = 0)"
| "flist m p (x # xs) = (p = x \<and> x \<noteq> 0 \<and> flist m (rd32 m x) xs)"

lemma flist_cong:
  "(\<And>x. x \<in> set xs \<Longrightarrow> rd32 m x = rd32 m' x) \<Longrightarrow> flist m p xs = flist m' p xs"
  by (induction xs arbitrary: p) auto

lemma flist_head: "flist m p xs \<Longrightarrow> p = (case xs of [] \<Rightarrow> 0 | x # _ \<Rightarrow> x)"
  by (cases xs) auto

lemma flist_zero_iff: "flist m p xs \<Longrightarrow> p = 0 \<longleftrightarrow> xs = []"
  by (cases xs) auto

definition slots :: "nat \<Rightarrow> nat \<Rightarrow> nat list" where
  "slots p sz = map (\<lambda>k. p + sz * k) [0..<PAGE_SIZE div sz]"

lemma build_free_ok:
  "\<lbrakk>0 < n; 4 \<le> sz; cp \<noteq> 0; cp + sz * n \<le> 4294967296\<rbrakk> \<Longrightarrow>
   flist (build_free m cp sz n) cp (map (\<lambda>k. cp + sz * k) [0..<n])
   \<and> (\<forall>b. b + 4 \<le> cp \<or> cp + sz * n \<le> b \<longrightarrow> rd32 (build_free m cp sz n) b = rd32 m b)"
proof (induction n arbitrary: m cp)
  case (Suc n)
  show ?case
  proof (cases "n = 0")
    case True
    have "rd32 (wr32 m cp 0) b = rd32 m b" if "b + 4 \<le> cp \<or> cp + sz \<le> b" for b
      using that Suc.prems(2) by (intro rd32_wr32_other) auto
    then show ?thesis
      using True Suc.prems by (auto simp: build_free.simps[of m cp sz "Suc 0"] rd32_wr32_same)
  next
    case False
    let ?m = "wr32 m cp (cp + sz)"
    let ?b = "build_free ?m (cp + sz) sz n"
    have e: "build_free m cp sz (Suc n) = ?b" using False by (subst build_free.simps) simp
    have le: "cp + sz + sz * n \<le> 4294967296" using Suc.prems(4) by simp
    have szn: "sz \<le> sz * n" using False by simp
    have ih: "flist ?b (cp + sz) (map (\<lambda>k. cp + sz + sz * k) [0..<n])"
      "\<And>b. b + 4 \<le> cp + sz \<or> cp + sz + sz * n \<le> b \<Longrightarrow> rd32 ?b b = rd32 ?m b"
      using Suc.IH[of "cp + sz" ?m] False Suc.prems(2) le by auto
    have "cp + sz < 4294967296" using le szn Suc.prems(2) by linarith
    then have "rd32 ?b cp = cp + sz"
      using ih(2)[of cp] Suc.prems(2) by (simp add: rd32_wr32_same)
    moreover have "map (\<lambda>k. cp + sz * k) [0..<Suc n] = cp # map (\<lambda>k. cp + sz + sz * k) [0..<n]"
      by (simp add: map_upt_Suc add.assoc del: upt_Suc)
    ultimately have "flist ?b cp (map (\<lambda>k. cp + sz * k) [0..<Suc n])"
      using ih(1) Suc.prems(3) by simp
    moreover have "rd32 ?b b = rd32 m b" if b: "b + 4 \<le> cp \<or> cp + sz * Suc n \<le> b" for b
    proof -
      have "rd32 ?b b = rd32 ?m b" using b by (intro ih(2)) auto
      moreover have "cp + 4 \<le> b \<or> b + 4 \<le> cp" using b Suc.prems(2) by auto
      ultimately show ?thesis using rd32_wr32_other[of cp b m "cp + sz"] by simp
    qed
    ultimately show ?thesis unfolding e by blast
  qed
qed simp

subsection \<open>Size classes and pages\<close>

lemma length_bucket_sizes [simp]: "length bucket_sizes = 9"
  by (simp add: bucket_sizes_def)

lemma size_facts:
  assumes "i < 9"
  shows "16 \<le> bucket_sizes ! i \<and> bucket_sizes ! i \<le> 4096
     \<and> bucket_sizes ! i * (PAGE_SIZE div bucket_sizes ! i) = 4096 \<and> 0 < PAGE_SIZE div bucket_sizes ! i
     \<and> PAGE_SIZE div bucket_sizes ! i \<le> 256"
proof -
  have "\<forall>s \<in> set bucket_sizes. 16 \<le> s \<and> s \<le> 4096 \<and> s * (PAGE_SIZE div s) = 4096 \<and> 0 < PAGE_SIZE div s
     \<and> PAGE_SIZE div s \<le> 256"
    by (simp add: bucket_sizes_def PAGE_SIZE_def)
  then show ?thesis using assms by simp
qed

lemma set_slots: "a \<in> set (slots p sz) \<longleftrightarrow> (\<exists>k < PAGE_SIZE div sz. a = p + sz * k)"
  by (auto simp: slots_def)

lemma slot_bounds:
  assumes "i < 9" "sz = bucket_sizes ! i" "a \<in> set (slots p sz)"
  shows "p \<le> a" "a + sz \<le> p + 4096"
proof -
  obtain k where k: "k < PAGE_SIZE div sz" "a = p + sz * k" using assms(3) by (auto simp: set_slots)
  have "sz * Suc k \<le> sz * (PAGE_SIZE div sz)" using k(1) by (intro mult_le_mono2) simp
  also have "\<dots> = 4096" using size_facts[OF assms(1)] assms(2) by simp
  finally show "p \<le> a" "a + sz \<le> p + 4096" using k(2) by simp_all
qed

lemma slots_apart:
  assumes "a \<in> set (slots p sz)" "b \<in> set (slots p sz)" "a \<noteq> b"
  shows "a + sz \<le> b \<or> b + sz \<le> a"
proof -
  obtain k l where k: "a = p + sz * k" "b = p + sz * l" using assms(1,2) by (auto simp: set_slots)
  then consider "k < l" | "l < k" using assms(3) by (metis nat_neq_iff)
  then show ?thesis
  proof cases
    case 1
    then have "sz * Suc k \<le> sz * l" by (intro mult_le_mono2) simp
    then show ?thesis using k by simp
  next
    case 2
    then have "sz * Suc l \<le> sz * k" by (intro mult_le_mono2) simp
    then show ?thesis using k by simp
  qed
qed

lemma distinct_slots: "0 < sz \<Longrightarrow> distinct (slots p sz)"
  by (simp add: slots_def distinct_map inj_on_def)

lemma length_slots [simp]: "length (slots p sz) = PAGE_SIZE div sz"
  by (simp add: slots_def)

text \<open>The address the kernel sees page frame \<open>k\<close> at.\<close>

definition frame :: "nat \<Rightarrow> nat" where
  "frame k = va (PAGE_SIZE * k)"

lemma frame_apart: "k \<noteq> l \<Longrightarrow> frame k + 4096 \<le> frame l \<or> frame l + 4096 \<le> frame k"
  by (auto simp: frame_def va_def PAGE_SIZE_def)

lemma frame_inj [simp]: "frame k = frame l \<longleftrightarrow> k = l"
  by (auto simp: frame_def va_def PAGE_SIZE_def)

lemma frame_bounds: "k < 229376 \<Longrightarrow> frame k + 4096 \<le> 4294967296" "frame k \<noteq> 0"
  by (simp_all add: frame_def va_def PAGE_SIZE_def)

lemma frame_base: "frame k \<le> a \<Longrightarrow> a < frame k + 4096 \<Longrightarrow> a - a mod PAGE_SIZE = frame k"
proof -
  assume a: "frame k \<le> a" "a < frame k + 4096"
  have f: "frame k = 4096 * (k + 786432)" by (simp add: frame_def va_def PAGE_SIZE_def)
  obtain r where "a = frame k + r" "r < 4096" using a by (metis add_less_cancel_left le_Suc_ex)
  then have "a mod 4096 = (r + 4096 * (k + 786432)) mod 4096" by (simp only: f add.commute)
  also have "\<dots> = r" using \<open>r < 4096\<close> by (simp only: mod_mult_self2 mod_less)
  finally show ?thesis using \<open>a = frame k + r\<close> by (simp add: PAGE_SIZE_def)
qed

subsection \<open>What a heap represents\<close>

text \<open>
  \<open>F\<close> gives for each page that belongs to a chain the list of its free objects. \<open>desc_ok\<close>
  says what one descriptor of class size \<open>sz\<close> guarantees.
\<close>

definition desc_ok :: "kheap \<Rightarrow> (nat \<Rightarrow> nat list) \<Rightarrow> nat \<Rightarrow> bucket_desc \<Rightarrow> bool" where
  "desc_ok st F sz d \<longleftrightarrow>
     bd_bucket_size d = of_nat sz
     \<and> (\<exists>k < length (kpages st). bd_page d = frame k \<and> in_use (kpages st ! k))
     \<and> flist (mem st) (bd_freeptr d) (F (bd_page d))
     \<and> distinct (F (bd_page d)) \<and> set (F (bd_page d)) \<subseteq> set (slots (bd_page d) sz)
     \<and> unat (bd_refcnt d) + length (F (bd_page d)) = PAGE_SIZE div sz"

definition chain_pages :: "(nat \<Rightarrow> bucket_desc list) \<Rightarrow> nat set" where
  "chain_pages ch = (\<Union>i < 9. bd_page ` set (ch i))"

definition desc_addrs :: "kheap \<Rightarrow> nat set" where
  "desc_addrs st = (\<Union>i < 9. bd_at ` set (chain st i)) \<union> set (free_bucket_desc st)"

definition pages_apart :: "(nat \<Rightarrow> bucket_desc list) \<Rightarrow> bool" where
  "pages_apart ch \<longleftrightarrow>
     (\<forall>i < 9. distinct (map bd_page (ch i)))
     \<and> (\<forall>i < 9. \<forall>j < 9. i \<noteq> j \<longrightarrow> bd_page ` set (ch i) \<inter> bd_page ` set (ch j) = {})"

definition heap_rep :: "kheap \<Rightarrow> (nat \<Rightarrow> nat list) \<Rightarrow> bool" where
  "heap_rep st F \<longleftrightarrow>
     (\<forall>i < 9. \<forall>d \<in> set (chain st i). desc_ok st F (bucket_sizes ! i) d)
     \<and> pages_apart (chain st)
     \<and> (\<forall>a \<in> desc_addrs st. \<exists>k < length (kpages st). in_use (kpages st ! k) \<and> frame k \<le> a
          \<and> a < frame k + 4096 \<and> frame k \<notin> chain_pages (chain st))
     \<and> length (kpages st) \<le> 229376"

text \<open>The objects in use: address and size.\<close>

definition live :: "kheap \<Rightarrow> (nat \<Rightarrow> nat list) \<Rightarrow> (nat \<times> nat) set" where
  "live st F = {(a, sz). \<exists>i < 9. \<exists>d \<in> set (chain st i). sz = bucket_sizes ! i
      \<and> a \<in> set (slots (bd_page d) sz) \<and> a \<notin> set (F (bd_page d))}"

lemma heap_repD:
  assumes "heap_rep st F"
  shows "i < 9 \<Longrightarrow> d \<in> set (chain st i) \<Longrightarrow> desc_ok st F (bucket_sizes ! i) d"
    and "pages_apart (chain st)" and "length (kpages st) \<le> 229376"
    and "a \<in> desc_addrs st \<Longrightarrow> \<exists>k < length (kpages st). in_use (kpages st ! k) \<and> frame k \<le> a
          \<and> a < frame k + 4096 \<and> frame k \<notin> chain_pages (chain st)"
  using assms by (auto simp: heap_rep_def)

lemma pages_apartD:
  assumes "pages_apart ch" "i < 9" "j < 9" "d \<in> set (ch i)" "e \<in> set (ch j)" "bd_page d = bd_page e"
  shows "i = j \<and> d = e"
proof -
  have "bd_page d \<in> bd_page ` set (ch i)" "bd_page d \<in> bd_page ` set (ch j)"
    using assms(4) by simp (use assms(5,6) in simp)
  then have "bd_page ` set (ch i) \<inter> bd_page ` set (ch j) \<noteq> {}" by blast
  then have "i = j" using assms(1,2,3) unfolding pages_apart_def by blast
  then show ?thesis using assms inj_onD[of bd_page "set (ch i)" d e] by (auto simp: pages_apart_def distinct_map)
qed

text \<open>Two objects of a well-formed heap do not overlap.\<close>

lemma live_apart:
  assumes rep: "heap_rep st F" and a: "(a, sa) \<in> live st F" and b: "(b, sb) \<in> live st F" and ne: "a \<noteq> b"
  shows "a + sa \<le> b \<or> b + sb \<le> a"
proof -
  obtain i d where d: "i < 9" "d \<in> set (chain st i)" "sa = bucket_sizes ! i" "a \<in> set (slots (bd_page d) sa)"
    using a by (auto simp: live_def)
  obtain j e where e: "j < 9" "e \<in> set (chain st j)" "sb = bucket_sizes ! j" "b \<in> set (slots (bd_page e) sb)"
    using b by (auto simp: live_def)
  show ?thesis
  proof (cases "bd_page d = bd_page e")
    case True
    then have "i = j \<and> d = e" using pages_apartD[OF heap_repD(2)[OF rep] d(1) e(1) d(2) e(2)] by simp
    then show ?thesis using slots_apart[of a "bd_page d" sa b] d e ne by simp
  next
    case False
    obtain k where k: "bd_page d = frame k"
      using heap_repD(1)[OF rep d(1,2)] by (auto simp: desc_ok_def)
    obtain l where l: "bd_page e = frame l"
      using heap_repD(1)[OF rep e(1,2)] by (auto simp: desc_ok_def)
    have "k \<noteq> l" using False k l by auto
    from frame_apart[OF this] slot_bounds[OF d(1,3,4)] slot_bounds[OF e(1,3,4)] k l
    show ?thesis by auto
  qed
qed

lemma live_unique_size:
  assumes "heap_rep st F" "(a, sa) \<in> live st F" "(a, sb) \<in> live st F"
  shows "sa = sb"
proof -
  obtain i d where d: "i < 9" "d \<in> set (chain st i)" "sa = bucket_sizes ! i" "a \<in> set (slots (bd_page d) sa)"
    using assms(2) by (auto simp: live_def)
  obtain j e where e: "j < 9" "e \<in> set (chain st j)" "sb = bucket_sizes ! j" "a \<in> set (slots (bd_page e) sb)"
    using assms(3) by (auto simp: live_def)
  obtain k where k: "bd_page d = frame k"
    using heap_repD(1)[OF assms(1) d(1,2)] by (auto simp: desc_ok_def)
  obtain l where l: "bd_page e = frame l"
    using heap_repD(1)[OF assms(1) e(1,2)] by (auto simp: desc_ok_def)
  have "k = l"
    using frame_apart[of k l] slot_bounds[OF d(1,3,4)] slot_bounds[OF e(1,3,4)] k l
      size_facts[OF d(1)] size_facts[OF e(1)] d(3) e(3) by fastforce
  then show ?thesis using pages_apartD[OF heap_repD(2)[OF assms(1)] d(1) e(1) d(2) e(2)] k l d(3) e(3) by simp
qed

text \<open>The live objects outside one page, and those of one descriptor.\<close>

definition live_others :: "(nat \<Rightarrow> bucket_desc list) \<Rightarrow> (nat \<Rightarrow> nat list) \<Rightarrow> nat \<Rightarrow> (nat \<times> nat) set" where
  "live_others ch F pg = {(a, sz). \<exists>i < 9. \<exists>e \<in> set (ch i). bd_page e \<noteq> pg \<and> sz = bucket_sizes ! i
      \<and> a \<in> set (slots (bd_page e) sz) \<and> a \<notin> set (F (bd_page e))}"

definition live_in :: "nat \<Rightarrow> nat \<Rightarrow> nat list \<Rightarrow> (nat \<times> nat) set" where
  "live_in pg sz fs = {(a, s). s = sz \<and> a \<in> set (slots pg sz) \<and> a \<notin> set fs}"

lemma live_split:
  assumes "pages_apart (chain st)" "i < 9" "d \<in> set (chain st i)"
  shows "live st F = live_in (bd_page d) (bucket_sizes ! i) (F (bd_page d)) \<union> live_others (chain st) F (bd_page d)"
proof (rule set_eqI, clarify)
  fix a s
  show "(a, s) \<in> live st F \<longleftrightarrow>
    (a, s) \<in> live_in (bd_page d) (bucket_sizes ! i) (F (bd_page d)) \<union> live_others (chain st) F (bd_page d)"
  proof
    assume "(a, s) \<in> live st F"
    then obtain j e where e: "j < 9" "e \<in> set (chain st j)" "s = bucket_sizes ! j"
      "a \<in> set (slots (bd_page e) s)" "a \<notin> set (F (bd_page e))" by (auto simp: live_def)
    show "(a, s) \<in> live_in (bd_page d) (bucket_sizes ! i) (F (bd_page d)) \<union> live_others (chain st) F (bd_page d)"
    proof (cases "bd_page e = bd_page d")
      case True
      then have "j = i \<and> e = d" using pages_apartD[OF assms(1) e(1) assms(2) e(2) assms(3)] by simp
      then show ?thesis using e by (simp add: live_in_def)
    next
      case False
      then show ?thesis using e by (auto simp: live_others_def)
    qed
  next
    assume "(a, s) \<in> live_in (bd_page d) (bucket_sizes ! i) (F (bd_page d)) \<union> live_others (chain st) F (bd_page d)"
    then show "(a, s) \<in> live st F"
      using assms(2,3) by (auto simp: live_in_def live_others_def live_def)
  qed
qed

lemma live_others_cong:
  assumes "\<And>i e. i < 9 \<Longrightarrow> bd_page e \<noteq> pg \<Longrightarrow> e \<in> set (ch i) \<longleftrightarrow> e \<in> set (ch' i)"
    and "\<And>q. q \<noteq> pg \<Longrightarrow> F q = F' q"
  shows "live_others ch F pg = live_others ch' F' pg"
proof -
  have "(\<exists>e \<in> set (ch i). bd_page e \<noteq> pg \<and> s = bucket_sizes ! i \<and> a \<in> set (slots (bd_page e) s) \<and> a \<notin> set (F (bd_page e)))
     = (\<exists>e \<in> set (ch' i). bd_page e \<noteq> pg \<and> s = bucket_sizes ! i \<and> a \<in> set (slots (bd_page e) s) \<and> a \<notin> set (F' (bd_page e)))"
    if "i < 9" for i a s
    using assms(1)[OF that] assms(2) by metis
  then show ?thesis unfolding live_others_def by blast
qed

lemma desc_ok_cong:
  assumes "desc_ok st F sz e" "F' (bd_page e) = F (bd_page e)"
    and "\<And>x. x \<in> set (F (bd_page e)) \<Longrightarrow> rd32 (mem st') x = rd32 (mem st) x"
    and "length (kpages st') = length (kpages st)"
    and "\<And>k. k < length (kpages st) \<Longrightarrow> bd_page e = frame k \<Longrightarrow> in_use (kpages st ! k) \<Longrightarrow> in_use (kpages st' ! k)"
  shows "desc_ok st' F' sz e"
proof -
  have "flist (mem st') p (F (bd_page e)) = flist (mem st) p (F (bd_page e))" for p
    using assms(3) by (intro flist_cong) auto
  then show ?thesis using assms unfolding desc_ok_def by auto
qed

text \<open>Replacing one descriptor by another of the same page and place.\<close>

definition put_desc :: "nat \<Rightarrow> nat \<Rightarrow> bucket_desc \<Rightarrow> (nat \<Rightarrow> bucket_desc list) \<Rightarrow> nat \<Rightarrow> bucket_desc list" where
  "put_desc i j d' ch = ch(i := (ch i)[j := d'])"

lemma put_desc_maps:
  assumes "j < length (ch i)" "f d' = f (ch i ! j)"
  shows "map f (put_desc i j d' ch k) = map f (ch k)"
  using assms by (simp add: put_desc_def map_update list_update_same_conv)

lemma put_desc_images:
  assumes "j < length (ch i)" "f d' = f (ch i ! j)"
  shows "f ` set (put_desc i j d' ch k) = f ` set (ch k)"
  using put_desc_maps[of j ch i f d' k] assms by (metis list.set_map)

lemma put_desc_pages:
  assumes "j < length (ch i)" "bd_page d' = bd_page (ch i ! j)"
  shows "chain_pages (put_desc i j d' ch) = chain_pages ch"
    and "pages_apart (put_desc i j d' ch) = pages_apart ch"
  unfolding chain_pages_def pages_apart_def put_desc_maps[of j ch i bd_page, OF assms]
    put_desc_images[of j ch i bd_page, OF assms] by simp_all

lemma put_desc_others:
  assumes "j < length (ch i)" "bd_page d' = bd_page (ch i ! j)" "bd_page e \<noteq> bd_page d'"
  shows "e \<in> set (put_desc i j d' ch k) \<longleftrightarrow> e \<in> set (ch k)"
proof (cases "k = i")
  case True
  then show ?thesis using assms by (auto simp: put_desc_def in_set_conv_nth nth_list_update)
qed (simp add: put_desc_def)

lemma put_desc_member: "j < length (ch i) \<Longrightarrow> d' \<in> set (put_desc i j d' ch i)"
  by (simp add: put_desc_def set_update_memI)

lemma put_desc_same_page:
  assumes "pages_apart ch" "i < 9" "j < length (ch i)" "bd_page d' = bd_page (ch i ! j)"
    and "k < 9" "e \<in> set (put_desc i j d' ch k)" "bd_page e = bd_page d'"
  shows "k = i \<and> e = d'"
proof -
  have "pages_apart (put_desc i j d' ch)" using put_desc_pages(2)[of j ch i d'] assms by simp
  from pages_apartD[OF this assms(5,2,6) put_desc_member[of j ch i, OF assms(3)] assms(7)] show ?thesis .
qed

lemma put_desc_addrs:
  assumes "j < length (chain st i)" "bd_at d' = bd_at (chain st i ! j)"
  shows "desc_addrs (st\<lparr>chain := put_desc i j d' (chain st)\<rparr>) = desc_addrs st"
  unfolding desc_addrs_def using put_desc_images[of j "chain st" i bd_at d'] assms by simp

text \<open>An address in the page of one descriptor is no object of another page.\<close>

lemma not_live_other:
  assumes rep: "heap_rep st F" and d: "i < 9" "d \<in> set (chain st i)" "a \<in> set (slots (bd_page d) (bucket_sizes ! i))"
  shows "(a, s) \<notin> live_others (chain st) F (bd_page d)"
proof
  assume "(a, s) \<in> live_others (chain st) F (bd_page d)"
  then obtain l e where e: "l < 9" "e \<in> set (chain st l)" "bd_page e \<noteq> bd_page d"
    "a \<in> set (slots (bd_page e) (bucket_sizes ! l))" by (auto simp: live_others_def)
  obtain k where k: "bd_page d = frame k"
    using heap_repD(1)[OF rep d(1,2)] by (auto simp: desc_ok_def)
  obtain m where m: "bd_page e = frame m"
    using heap_repD(1)[OF rep e(1,2)] by (auto simp: desc_ok_def)
  have "k \<noteq> m" using e(3) k m by auto
  from frame_apart[OF this] slot_bounds[OF d(1) refl d(3)] slot_bounds[OF e(1) refl e(4)] k m
    size_facts[OF d(1)] size_facts[OF e(1)] show False by auto
qed

lemma take_object_ok:
  assumes rep: "heap_rep st F" and i: "i < 9" and j: "j < length (chain st i)"
    and d: "d = chain st i ! j" and free: "bd_freeptr d \<noteq> 0" and t: "take_object i j st = (st', a)"
  shows "\<exists>F'. heap_rep st' F' \<and> a = bd_freeptr d \<and> a \<in> set (slots (bd_page d) (bucket_sizes ! i))
     \<and> live st' F' = insert (a, bucket_sizes ! i) (live st F) \<and> (\<forall>s. (a, s) \<notin> live st F)
     \<and> mem st' = mem st \<and> kpages st' = kpages st"
proof -
  let ?sz = "bucket_sizes ! i" and ?pg = "bd_page d"
  have dm: "d \<in> set (chain st i)" using d j by simp
  note ok = heap_repD(1)[OF rep i dm, unfolded desc_ok_def]
  obtain x xs where F: "F ?pg = x # xs" using ok free by (cases "F ?pg") auto
  have ax: "a = bd_freeptr d" "x = bd_freeptr d" using t ok F d by (auto simp: take_object_def Let_def)
  let ?d = "d\<lparr>bd_freeptr := rd32 (mem st) a, bd_refcnt := bd_refcnt d + 1\<rparr>"
  let ?ch = "put_desc i j ?d (chain st)" and ?F = "F(?pg := xs)"
  have st': "st' = st\<lparr>chain := ?ch\<rparr>"
    using t d ax by (simp add: take_object_def put_desc_def Let_def)
  have jd: "j < length (chain st i)" "bd_page ?d = bd_page (chain st i ! j)" "bd_at ?d = bd_at (chain st i ! j)"
    using j d by simp_all
  have asl: "a \<in> set (slots ?pg ?sz)" "a \<notin> set xs" using ok F ax by auto
  have len: "unat (bd_refcnt d) + Suc (length xs) \<le> 256"
    using ok F size_facts[OF i] by auto
  then have "unat (bd_refcnt d + 1) = unat (bd_refcnt d) + 1" by (simp add: unat_word_ariths)
  then have dok: "desc_ok st' ?F ?sz ?d"
    using ok F ax by (auto simp: desc_ok_def st')
  have all: "desc_ok st' ?F (bucket_sizes ! k) e" if "k < 9" "e \<in> set (?ch k)" for k e
  proof (cases "bd_page e = ?pg")
    case True
    then have "k = i \<and> e = ?d"
      using put_desc_same_page[of "chain st" i j ?d, OF heap_repD(2)[OF rep] i jd(1,2) that] by simp
    then show ?thesis using dok by simp
  next
    case False
    then have "e \<in> set (chain st k)" using put_desc_others[of j "chain st" i ?d e k, OF jd(1,2)] that(2) by simp
    from heap_repD(1)[OF rep that(1) this] show ?thesis
      by (rule desc_ok_cong) (use False in \<open>simp_all add: st'\<close>)
  qed
  have rep': "heap_rep st' ?F"
    unfolding heap_rep_def
  proof (intro conjI)
    show "\<forall>i<9. \<forall>d\<in>set (chain st' i). desc_ok st' ?F (bucket_sizes ! i) d" using all by (simp add: st')
    show "pages_apart (chain st')" using put_desc_pages(2)[of j "chain st" i ?d, OF jd(1,2)] heap_repD(2)[OF rep] by (simp add: st')
    show "length (kpages st') \<le> 229376" using heap_repD(3)[OF rep] by (simp add: st')
    show "\<forall>a\<in>desc_addrs st'. \<exists>k<length (kpages st'). in_use (kpages st' ! k) \<and> frame k \<le> a \<and> a < frame k + 4096
       \<and> frame k \<notin> chain_pages (chain st')"
      using heap_repD(4)[OF rep] put_desc_addrs[of j st i ?d, OF jd(1,3)] put_desc_pages(1)[of j "chain st" i ?d, OF jd(1,2)] by (simp add: st')
  qed
  have "live st' ?F = live_in ?pg ?sz xs \<union> live_others ?ch ?F ?pg"
    using live_split[of st' i ?d ?F] rep' i put_desc_member[of j "chain st" i ?d, OF j]
    by (simp add: st' heap_rep_def)
  moreover have "live_others ?ch ?F ?pg = live_others (chain st) F ?pg"
    using put_desc_others[of j "chain st" i ?d, OF jd(1,2)] by (intro live_others_cong) auto
  moreover have "live_in ?pg ?sz xs = insert (a, ?sz) (live_in ?pg ?sz (F ?pg))"
    using asl F ax by (auto simp: live_in_def)
  ultimately have lv: "live st' ?F = insert (a, ?sz) (live st F)"
    using live_split[OF heap_repD(2)[OF rep] i dm, of F] by simp
  have "(a, s) \<notin> live st F" for s
    using live_split[OF heap_repD(2)[OF rep] i dm, of F] not_live_other[OF rep i dm asl(1), of s] F ax
    by (simp add: live_in_def)
  then show ?thesis using rep' lv ax asl(1) st' by auto
qed

lemma rd32_page_apart:
  assumes rep: "heap_rep st F" and e: "i < 9" "e \<in> set (chain st i)" and x: "x \<in> set (F (bd_page e))"
    and k: "bd_page e \<noteq> frame k"
    and m: "\<And>b. b + 4 \<le> frame k \<or> frame k + 4096 \<le> b \<Longrightarrow> rd32 m b = rd32 (mem st) b"
  shows "rd32 m x = rd32 (mem st) x"
proof -
  note ok = heap_repD(1)[OF rep e, unfolded desc_ok_def]
  obtain l where l: "bd_page e = frame l" using ok by auto
  have xs: "x \<in> set (slots (bd_page e) (bucket_sizes ! i))" using ok x by auto
  from slot_bounds[OF e(1) refl xs] size_facts[OF e(1)] frame_apart[of l k] l k
  show ?thesis by (intro m) auto
qed

lemma chain_pages_iff: "p \<in> chain_pages ch \<longleftrightarrow> (\<exists>i < 9. \<exists>e \<in> set (ch i). bd_page e = p)"
  by (force simp: chain_pages_def)

lemma desc_addrs_iff: "p \<in> desc_addrs st \<longleftrightarrow>
    p \<in> set (free_bucket_desc st) \<or> (\<exists>i < 9. \<exists>e \<in> set (chain st i). bd_at e = p)"
  by (force simp: desc_addrs_def)

lemma chain_page_in_use:
  assumes "heap_rep st F" "frame k \<in> chain_pages (chain st)"
  shows "k < length (kpages st) \<and> in_use (kpages st ! k)"
proof -
  obtain i e where e: "i < 9" "e \<in> set (chain st i)" "bd_page e = frame k"
    using assms(2) by (auto simp: chain_pages_def)
  obtain l where "bd_page e = frame l" "l < length (kpages st)" "in_use (kpages st ! l)"
    using heap_repD(1)[OF assms(1) e(1,2)] by (auto simp: desc_ok_def)
  then show ?thesis using e(3) by simp
qed

lemma take_page_ok:
  assumes rep: "heap_rep st F" and t: "take_page st = Inr (st1, v)"
  shows "\<exists>k. v = frame k \<and> k < length (kpages st1) \<and> \<not> in_use (kpages st ! k) \<and> in_use (kpages st1 ! k)
     \<and> frame k \<notin> chain_pages (chain st) \<and> heap_rep st1 F \<and> chain st1 = chain st
     \<and> free_bucket_desc st1 = free_bucket_desc st \<and> length (kpages st1) = length (kpages st)"
proof -
  obtain ps a where g: "get_free_page (kpages st) = Inr (ps, a)" and v: "v = va a"
    and st1: "st1 = st\<lparr>kpages := ps, mem := zero_mem (mem st) (va a) PAGE_SIZE\<rparr>"
    using t by (auto simp: take_page_def rmap_Inr_conv)
  obtain k where k: "k < length (kpages st)" "a = PAGE_SIZE * k" "\<not> in_use (kpages st ! k)" "in_use (ps ! k)"
    "length ps = length (kpages st)" "\<forall>j. j \<noteq> k \<longrightarrow> ps ! j = kpages st ! j"
    using get_free_page_Inr[OF g] by auto
  have vk: "va a = frame k" by (simp add: k(2) frame_def)
  have nk: "frame k \<notin> chain_pages (chain st)" using chain_page_in_use[OF rep, of k] k(3) by auto
  have used: "in_use (ps ! l)" if "in_use (kpages st ! l)" for l using k(3,6) that by (cases "l = k") auto
  have "heap_rep st1 F"
    unfolding heap_rep_def
  proof (intro conjI allI impI ballI)
    fix i e
    assume i: "i < 9" and "e \<in> set (chain st1 i)"
    then have e: "e \<in> set (chain st i)" by (simp add: st1)
    have ne: "bd_page e \<noteq> frame k" using nk i e by (auto simp: chain_pages_iff)
    show "desc_ok st1 F (bucket_sizes ! i) e"
    proof (rule desc_ok_cong[OF heap_repD(1)[OF rep i e]])
      show "rd32 (mem st1) x = rd32 (mem st) x" if "x \<in> set (F (bd_page e))" for x
        by (rule rd32_page_apart[OF rep i e that ne])
           (auto simp: st1 vk PAGE_SIZE_def intro!: rd32_zero_other)
    qed (use used k(5) in \<open>auto simp: st1\<close>)
  next
    fix b assume "b \<in> desc_addrs st1"
    then have "b \<in> desc_addrs st" by (simp add: desc_addrs_def st1)
    then show "\<exists>k<length (kpages st1). in_use (kpages st1 ! k) \<and> frame k \<le> b \<and> b < frame k + 4096
        \<and> frame k \<notin> chain_pages (chain st1)"
      using heap_repD(4)[OF rep] used k(5) by (force simp: st1)
  qed (use heap_repD(2,3)[OF rep] k(5) in \<open>simp_all add: st1\<close>)
  then show ?thesis using k nk v vk by (intro exI[of _ k]) (simp add: st1)
qed

lemma live_chain_cong: "chain st = chain st' \<Longrightarrow> live st F = live st' F"
  by (simp add: live_def)

lemma init_bucket_desc_ok:
  assumes rep: "heap_rep st F" and t: "init_bucket_desc st = Inr st1"
  shows "heap_rep st1 F \<and> chain st1 = chain st \<and> free_bucket_desc st1 \<noteq> []"
proof -
  obtain st2 v where s: "take_page st = Inr (st2, v)" and st1: "st1 = st2\<lparr>free_bucket_desc :=
      map (\<lambda>k. v + 16 * k) [0..<PAGE_SIZE div 16] @ free_bucket_desc st2\<rparr>"
    using t by (auto simp: init_bucket_desc_def rmap_Inr_conv)
  obtain k where k: "v = frame k" "k < length (kpages st2)" "in_use (kpages st2 ! k)"
    "frame k \<notin> chain_pages (chain st)" "heap_rep st2 F" "chain st2 = chain st"
    "free_bucket_desc st2 = free_bucket_desc st"
    using take_page_ok[OF rep s] by blast
  have dk: "desc_ok st1 F sz e = desc_ok st2 F sz e" for sz e by (simp add: desc_ok_def st1)
  have "heap_rep st1 F"
    unfolding heap_rep_def
  proof (intro conjI allI impI ballI)
    fix b assume "b \<in> desc_addrs st1"
    then consider "b \<in> desc_addrs st2" | m where "m < 256" "b = v + 16 * m"
      by (auto simp: desc_addrs_def st1 PAGE_SIZE_def)
    then show "\<exists>k<length (kpages st1). in_use (kpages st1 ! k) \<and> frame k \<le> b \<and> b < frame k + 4096
        \<and> frame k \<notin> chain_pages (chain st1)"
    proof cases
      case 1
      then show ?thesis using heap_repD(4)[OF k(5)] by (simp add: st1)
    next
      case 2
      then show ?thesis using k by (intro exI[of _ k]) (simp add: st1)
    qed
  qed (use heap_repD(1-3)[OF k(5)] in \<open>simp_all add: dk\<close>, simp_all add: st1)
  then show ?thesis using k(6) by (simp add: st1 PAGE_SIZE_def)
qed

lemma new_bucket_ok:
  assumes rep: "heap_rep st F" and i: "i < 9" and t: "new_bucket i (bucket_sizes ! i) st = Inr st3"
  shows "\<exists>F'. heap_rep st3 F' \<and> live st3 F' = live st F \<and> 0 < length (chain st3 i)
     \<and> bd_freeptr (chain st3 i ! 0) \<noteq> 0"
proof -
  let ?sz = "bucket_sizes ! i" and ?n = "PAGE_SIZE div bucket_sizes ! i"
  obtain st1 where "(if free_bucket_desc st = [] then init_bucket_desc st else Inr st) = Inr st1"
    using t by (auto simp: new_bucket_def rbind_Inr_conv)
  then have r1: "heap_rep st1 F" and c1: "chain st1 = chain st"
    and s1: "(if free_bucket_desc st = [] then init_bucket_desc st else Inr st) = Inr st1"
    using rep init_bucket_desc_ok[OF rep, of st1] by (auto split: if_splits)
  obtain a fds where f: "free_bucket_desc st1 = a # fds"
    using t s1 by (cases "free_bucket_desc st1") (auto simp: new_bucket_def)
  obtain st2 cp where s2: "take_page (st1\<lparr>free_bucket_desc := fds\<rparr>) = Inr (st2, cp)"
    and st3: "st3 = st2\<lparr>mem := build_free (mem st2) cp ?sz ?n,
        chain := (chain st2)(i := \<lparr>bd_at = a, bd_page = cp, bd_freeptr = cp, bd_refcnt = 0,
                  bd_bucket_size = of_nat ?sz\<rparr> # chain st2 i)\<rparr>"
    using t s1 f by (auto simp: new_bucket_def rmap_Inr_conv)
  have dk1: "desc_ok (st1\<lparr>free_bucket_desc := fds\<rparr>) F sz e = desc_ok st1 F sz e" for sz e by (simp add: desc_ok_def)
  have r1': "heap_rep (st1\<lparr>free_bucket_desc := fds\<rparr>) F"
    using r1 unfolding heap_rep_def dk1 by (auto simp: desc_addrs_def f)
  obtain k where k: "cp = frame k" "k < length (kpages st2)" "\<not> in_use (kpages st1 ! k)" "in_use (kpages st2 ! k)"
    "frame k \<notin> chain_pages (chain st)" "heap_rep st2 F" "chain st2 = chain st" "free_bucket_desc st2 = fds"
    "length (kpages st2) = length (kpages st1)"
    using take_page_ok[OF r1' s2] c1 by auto
  have k9: "k < 229376" using k(2) heap_repD(3)[OF k(6)] by simp
  let ?d = "\<lparr>bd_at = a, bd_page = cp, bd_freeptr = cp, bd_refcnt = 0, bd_bucket_size = of_nat ?sz\<rparr>"
  let ?F = "F(cp := slots cp ?sz)"
  have bf: "flist (mem st3) cp (slots cp ?sz)"
    "\<And>b. b + 4 \<le> frame k \<or> frame k + 4096 \<le> b \<Longrightarrow> rd32 (mem st3) b = rd32 (mem st2) b"
    using build_free_ok[of ?n ?sz cp "mem st2"] size_facts[OF i] frame_bounds(1)[OF k9] k(1) frame_bounds(2)[of k]
    by (auto simp: slots_def st3)
  have other: "bd_page e \<noteq> frame k" if "l < 9" "e \<in> set (chain st l)" for l e
    using k(5) that by (auto simp: chain_pages_iff)
  have ch3: "chain st3 l = (if l = i then ?d # chain st i else chain st l)" for l by (simp add: st3 k(7))
  have kp: "kpages st3 = kpages st2" by (simp add: st3)
  have new_ok: "desc_ok st3 ?F ?sz ?d"
    using bf(1) k(1,2,4) distinct_slots[of ?sz cp] size_facts[OF i] by (auto simp: desc_ok_def kp)
  have old_ok: "desc_ok st3 ?F (bucket_sizes ! l) e" if l: "l < 9" "e \<in> set (chain st l)" for l e
  proof (rule desc_ok_cong[where st = st2 and F = F])
    have l2: "e \<in> set (chain st2 l)" using l(2) k(7) by simp
    show "desc_ok st2 F (bucket_sizes ! l) e" by (rule heap_repD(1)[OF k(6) l(1) l2])
    show "?F (bd_page e) = F (bd_page e)" using other[OF l] k(1) by simp
    show "rd32 (mem st3) x = rd32 (mem st2) x" if "x \<in> set (F (bd_page e))" for x
      by (rule rd32_page_apart[OF k(6) l(1) l2 that other[OF l]]) (rule bf(2))
  qed (simp_all add: kp)
  have cpages: "chain_pages (chain st3) = insert cp (chain_pages (chain st))"
  proof (rule set_eqI)
    fix p
    have "(\<exists>e \<in> set (chain st3 l). bd_page e = p) \<longleftrightarrow> l = i \<and> p = cp \<or> (\<exists>e \<in> set (chain st l). bd_page e = p)"
      for l by (auto simp: ch3)
    then show "p \<in> chain_pages (chain st3) \<longleftrightarrow> p \<in> insert cp (chain_pages (chain st))"
      using i by (auto simp: chain_pages_iff)
  qed
  have apart: "pages_apart (chain st3)"
  proof -
    have p: "pages_apart (chain st)" using heap_repD(2)[OF rep] .
    have n: "cp \<notin> bd_page ` set (chain st l)" if "l < 9" for l
      using other[OF that] k(1) by fastforce
    show ?thesis
      unfolding pages_apart_def
    proof (intro conjI allI impI)
      show "distinct (map bd_page (chain st3 l))" if "l < 9" for l
        using p n[OF that] that by (auto simp: ch3 pages_apart_def)
      show "bd_page ` set (chain st3 l) \<inter> bd_page ` set (chain st3 m) = {}"
        if "l < 9" "m < 9" "l \<noteq> m" for l m
        using p n[OF that(1)] n[OF that(2)] that by (simp add: ch3 pages_apart_def)
    qed
  qed
  have addrs: "desc_addrs st3 = insert a (desc_addrs st2)"
  proof (rule set_eqI)
    fix p
    have "(\<exists>e \<in> set (chain st3 l). bd_at e = p) \<longleftrightarrow> l = i \<and> p = a \<or> (\<exists>e \<in> set (chain st l). bd_at e = p)"
      for l by (auto simp: ch3)
    then show "p \<in> desc_addrs st3 \<longleftrightarrow> p \<in> insert a (desc_addrs st2)"
      using i by (auto simp: desc_addrs_iff k(7) st3)
  qed
  have "desc_addrs st2 \<subseteq> desc_addrs st1" "a \<in> desc_addrs st1"
    by (auto simp: desc_addrs_def k(7,8) c1 f)
  then have sub: "desc_addrs st3 \<subseteq> desc_addrs st1" using addrs by auto
  have keep: "in_use (kpages st2 ! m)" if "in_use (kpages st1 ! m)" "m < length (kpages st1)" for m
  proof -
    obtain ps b where "get_free_page (kpages st1) = Inr (ps, b)" "kpages st2 = ps"
      using s2 by (auto simp: take_page_def rmap_Inr_conv)
    then show ?thesis using get_free_page_Inr[of "kpages st1" ps b] that by metis
  qed
  have rep3: "heap_rep st3 ?F"
    unfolding heap_rep_def
  proof (intro conjI allI impI ballI)
    show "desc_ok st3 ?F (bucket_sizes ! l) e" if "l < 9" "e \<in> set (chain st3 l)" for l e
      using that new_ok old_ok[OF that(1), of e] by (auto simp: ch3 split: if_splits)
    show "\<exists>k<length (kpages st3). in_use (kpages st3 ! k) \<and> frame k \<le> b \<and> b < frame k + 4096
        \<and> frame k \<notin> chain_pages (chain st3)" if "b \<in> desc_addrs st3" for b
    proof -
      have b1: "b \<in> desc_addrs st1" using that sub by auto
      obtain m where m: "m < length (kpages st1)" "in_use (kpages st1 ! m)" "frame m \<le> b" "b < frame m + 4096"
        "frame m \<notin> chain_pages (chain st1)"
        using heap_repD(4)[OF r1 b1] by auto
      then have "m \<noteq> k" using k(3) by auto
      then show ?thesis using m keep k(1,9) c1 by (intro exI[of _ m]) (simp add: kp cpages)
    qed
  qed (use apart heap_repD(3)[OF k(6)] in \<open>simp_all add: kp\<close>)
  have "live st3 ?F = live_in cp ?sz (slots cp ?sz) \<union> live_others (chain st3) ?F cp"
    using live_split[OF apart i, of ?d ?F] by (simp add: ch3)
  also have "live_in cp ?sz (slots cp ?sz) = {}" by (auto simp: live_in_def)
  also have "live_others (chain st3) ?F cp = live_others (chain st) F cp"
    by (rule live_others_cong) (auto simp: ch3)
  also have "live_others (chain st) F cp = live st F"
    using other k(1) by (auto simp: live_others_def live_def)
  finally have lv: "live st3 ?F = live st F" by (simp only: Un_empty_left)
  show ?thesis
  proof (intro exI[of _ ?F] conjI)
    show "bd_freeptr (chain st3 i ! 0) \<noteq> 0" using k(1) frame_bounds(2)[of k] by (simp add: ch3)
  qed (fact rep3, fact lv, simp add: ch3)
qed

subsection \<open>The operations on well-formed heaps\<close>

lemma find_dir_Some:
  "find_dir ss len i0 = Some i \<Longrightarrow> i0 \<le> i \<and> i - i0 < length ss \<and> len \<le> ss ! (i - i0) \<and> (\<forall>l < i - i0. ss ! l < len)"
proof (induction ss arbitrary: i0)
  case (Cons s ss)
  show ?case
  proof (cases "len \<le> s")
    case False
    then have "find_dir ss len (Suc i0) = Some i" using Cons.prems by simp
    from Cons.IH[OF this] have h: "Suc i0 \<le> i" "i - Suc i0 < length ss" "len \<le> ss ! (i - Suc i0)"
      "\<forall>l < i - Suc i0. ss ! l < len" by auto
    then have "i - i0 = Suc (i - Suc i0)" by simp
    then show ?thesis using h False by (auto simp: nth_Cons')
  qed (use Cons.prems in simp)
qed simp

lemma find_dir_None: "find_dir ss len i0 = None \<longleftrightarrow> (\<forall>s \<in> set ss. s < len)"
  by (induction ss arbitrary: i0) auto

lemma find_desc_Some:
  "find_desc ds j0 = Some j \<Longrightarrow> j0 \<le> j \<and> j - j0 < length ds \<and> bd_freeptr (ds ! (j - j0)) \<noteq> 0"
proof (induction ds arbitrary: j0)
  case (Cons d ds)
  show ?case
  proof (cases "bd_freeptr d = 0")
    case True
    then have "find_desc ds (Suc j0) = Some j" using Cons.prems by simp
    from Cons.IH[OF this] show ?thesis by (auto simp: nth_Cons')
  qed (use Cons.prems in auto)
qed simp

lemma kmalloc_ok:
  assumes rep: "heap_rep st F" and t: "kmalloc len st = Inr (st', a)"
  shows "\<exists>F' i. heap_rep st' F' \<and> i < 9 \<and> unat len \<le> bucket_sizes ! i \<and> (\<forall>l < i. bucket_sizes ! l < unat len)
     \<and> live st' F' = insert (a, bucket_sizes ! i) (live st F) \<and> (\<forall>s. (a, s) \<notin> live st F)"
proof -
  obtain i where i: "find_dir bucket_sizes (unat len) 0 = Some i"
    using t by (auto simp: kmalloc_def split: option.splits)
  from find_dir_Some[OF this] have i9: "i < 9" "unat len \<le> bucket_sizes ! i" "\<forall>l < i. bucket_sizes ! l < unat len"
    by auto
  show ?thesis
  proof (cases "find_desc (chain st i) 0")
    case (Some j)
    then have tk: "take_object i j st = (st', a)" using t i by (simp add: kmalloc_def)
    have "j < length (chain st i)" "bd_freeptr (chain st i ! j) \<noteq> 0" using find_desc_Some[OF Some] by auto
    from take_object_ok[OF rep i9(1) this(1) refl this(2) tk] show ?thesis using i9 by blast
  next
    case None
    then obtain st3 where st3: "new_bucket i (bucket_sizes ! i) st = Inr st3" "take_object i 0 st3 = (st', a)"
      using t i by (auto simp: kmalloc_def rmap_Inr_conv)
    obtain F3 where F3: "heap_rep st3 F3" "live st3 F3 = live st F" "0 < length (chain st3 i)"
      "bd_freeptr (chain st3 i ! 0) \<noteq> 0"
      using new_bucket_ok[OF rep i9(1) st3(1)] by blast
    from take_object_ok[OF F3(1) i9(1) F3(3) refl F3(4) st3(2)] show ?thesis using i9 F3(2) by auto
  qed
qed

lemma kmalloc_returns:
  assumes "unat len \<le> 4096" and "p \<noteq> q" and "p < length (kpages st)" and "q < length (kpages st)"
    and "\<not> in_use (kpages st ! p)" and "\<not> in_use (kpages st ! q)"
  shows "\<exists>r. kmalloc len st = Inr r"
proof -
  have page: "\<exists>st1 v. take_page s = Inr (st1, v) \<and> free_bucket_desc st1 = free_bucket_desc s
      \<and> length (kpages st1) = length (kpages s)
      \<and> (\<exists>i. \<forall>j. j \<noteq> i \<longrightarrow> kpages st1 ! j = kpages s ! j)"
    if "x < length (kpages s)" "\<not> in_use (kpages s ! x)" for s :: kheap and x
  proof (cases "get_free_page (kpages s)")
    case (Inl e)
    then show ?thesis using that by (auto simp: get_free_page_Inl)
  next
    case (Inr r)
    then obtain ps a where "get_free_page (kpages s) = Inr (ps, a)" by (cases r) auto
    with get_free_page_Inr[OF this] show ?thesis by (auto simp: take_page_def)
  qed
  have "\<exists>st1 a fds. (if free_bucket_desc st = [] then init_bucket_desc st else Inr st) = Inr st1
      \<and> free_bucket_desc st1 = a # fds \<and> (\<exists>x < length (kpages st1). \<not> in_use (kpages st1 ! x))"
  proof (cases "free_bucket_desc st")
    case Nil
    obtain st1 v i where s: "take_page st = Inr (st1, v)" "length (kpages st1) = length (kpages st)"
      "\<forall>j. j \<noteq> i \<longrightarrow> kpages st1 ! j = kpages st ! j" "free_bucket_desc st1 = free_bucket_desc st"
      using page[OF assms(3,5)] by blast
    have x: "\<exists>x < length (kpages st1). \<not> in_use (kpages st1 ! x)"
      using s(2,3) assms(2-6) by (cases "p = i") auto
    show ?thesis
      using s(1) x Nil
      by (simp add: init_bucket_desc_def PAGE_SIZE_def upt_conv_Cons del: upt_Suc)
  qed (use assms in auto)
  then obtain st1 a fds x where st1: "(if free_bucket_desc st = [] then init_bucket_desc st else Inr st) = Inr st1"
    "free_bucket_desc st1 = a # fds" "x < length (kpages st1)" "\<not> in_use (kpages st1 ! x)" by blast
  obtain st2 v where "take_page (st1\<lparr>free_bucket_desc := fds\<rparr>) = Inr (st2, v)"
    using page[of x "st1\<lparr>free_bucket_desc := fds\<rparr>"] st1(3,4) by auto
  then have nb: "\<exists>r. new_bucket i sz st = Inr r" for i sz using st1 by (simp add: new_bucket_def)
  have "find_dir bucket_sizes (unat len) 0 \<noteq> None"
    using assms(1) by (auto simp: find_dir_None bucket_sizes_def)
  then obtain i where i: "find_dir bucket_sizes (unat len) 0 = Some i" by blast
  obtain st3 where "new_bucket i (bucket_sizes ! i) st = Inr st3" using nb by blast
  then show ?thesis using i by (cases "find_desc (chain st i) 0") (simp_all add: kmalloc_def)
qed

text \<open>Freeing.\<close>

lemma find_page_Some: "find_page ds pg j0 = Some j \<Longrightarrow> j0 \<le> j \<and> j - j0 < length ds \<and> bd_page (ds ! (j - j0)) = pg"
proof (induction ds arbitrary: j0)
  case (Cons d ds)
  show ?case
  proof (cases "bd_page d = pg")
    case False
    then have "find_page ds pg (Suc j0) = Some j" using Cons.prems by simp
    from Cons.IH[OF this] show ?thesis by (auto simp: nth_Cons')
  qed (use Cons.prems in auto)
qed simp

lemma find_page_None: "find_page ds pg j0 = None \<longleftrightarrow> (\<forall>d \<in> set ds. bd_page d \<noteq> pg)"
  by (induction ds arbitrary: j0) auto

lemma find_owner_ok:
  "\<lbrakk>l < length ss; sz \<le> ss ! l; d \<in> set (ch (i0 + l)); bd_page d = pg;
    \<forall>m < length ss. m \<noteq> l \<longrightarrow> (\<forall>e \<in> set (ch (i0 + m)). bd_page e \<noteq> pg)\<rbrakk> \<Longrightarrow>
   \<exists>j. find_owner ch ss sz pg i0 = Some (i0 + l, j) \<and> j < length (ch (i0 + l)) \<and> bd_page (ch (i0 + l) ! j) = pg"
proof (induction ss arbitrary: l i0)
  case (Cons s ss)
  show ?case
  proof (cases l)
    case 0
    then have "find_page (ch i0) pg 0 \<noteq> None" using Cons.prems(3,4) by (auto simp: find_page_None)
    then obtain j where "find_page (ch i0) pg 0 = Some j" by blast
    then show ?thesis using 0 Cons.prems(2) find_page_Some[of "ch i0" pg 0 j] by auto
  next
    case (Suc k)
    have "\<forall>e \<in> set (ch i0). bd_page e \<noteq> pg" using Cons.prems(5)[rule_format, of 0] Suc by simp
    then have n: "find_page (ch i0) pg 0 = None" by (simp add: find_page_None)
    have "\<exists>j. find_owner ch ss sz pg (Suc i0) = Some (Suc i0 + k, j) \<and> j < length (ch (Suc i0 + k))
        \<and> bd_page (ch (Suc i0 + k) ! j) = pg"
    proof (rule Cons.IH)
      show "\<forall>m<length ss. m \<noteq> k \<longrightarrow> (\<forall>e\<in>set (ch (Suc i0 + m)). bd_page e \<noteq> pg)"
        using Cons.prems(5) Suc by (metis Suc_less_eq add_Suc add_Suc_right length_Cons old.nat.inject)
    qed (use Cons.prems Suc in auto)
    then show ?thesis using n Suc by simp
  qed
qed simp

lemma remove_nth_facts:
  assumes "j < length xs" "distinct (map f xs)"
  shows "distinct (map f (remove_nth j xs))"
    and "e \<in> set (remove_nth j xs) \<longleftrightarrow> e \<in> set xs \<and> f e \<noteq> f (xs ! j)"
proof -
  have xs: "xs = take j xs @ xs ! j # drop (Suc j) xs" using assms(1) by (rule id_take_nth_drop)
  have d: "distinct (map f (take j xs) @ f (xs ! j) # map f (drop (Suc j) xs))"
    using assms(2) by (subst (asm) xs) simp
  then show "distinct (map f (remove_nth j xs))" by (simp add: remove_nth_def)
  have "set xs = insert (xs ! j) (set (remove_nth j xs))" by (subst xs) (simp add: remove_nth_def)
  moreover have "f (xs ! j) \<notin> f ` set (remove_nth j xs)" using d by (simp add: remove_nth_def image_Un)
  ultimately show "e \<in> set (remove_nth j xs) \<longleftrightarrow> e \<in> set xs \<and> f e \<noteq> f (xs ! j)"
    by (metis image_eqI insert_iff)
qed

text \<open>
  What is common to both ends of \<open>kfree\<close>: the memory after the object is linked into its free
  list, and the descriptors of other pages, which do not notice.
\<close>

lemma freed_memory:
  assumes rep: "heap_rep st F" and i: "i < 9" and d: "d \<in> set (chain st i)"
    and obj: "obj \<in> set (slots (bd_page d) (bucket_sizes ! i))" "obj \<notin> set (F (bd_page d))"
  shows "flist (wr32 (mem st) obj (bd_freeptr d)) obj (obj # F (bd_page d))"
    and "\<And>l e x. l < 9 \<Longrightarrow> e \<in> set (chain st l) \<Longrightarrow> bd_page e \<noteq> bd_page d \<Longrightarrow> x \<in> set (F (bd_page e))
       \<Longrightarrow> rd32 (wr32 (mem st) obj (bd_freeptr d)) x = rd32 (mem st) x"
    and "obj - obj mod PAGE_SIZE = bd_page d"
proof -
  let ?sz = "bucket_sizes ! i" and ?fs = "F (bd_page d)" and ?m = "wr32 (mem st) obj (bd_freeptr d)"
  note ok = heap_repD(1)[OF rep i d, unfolded desc_ok_def]
  obtain k where k: "bd_page d = frame k" "k < length (kpages st)" using ok by auto
  have k9: "k < 229376" using k(2) heap_repD(3)[OF rep] by simp
  have ob: "frame k \<le> obj" "obj + ?sz \<le> frame k + 4096"
    using slot_bounds[OF i refl obj(1)] k(1) by simp_all
  have fl: "flist (mem st) (bd_freeptr d) ?fs" using ok by simp
  have "bd_freeptr d < 4294967296"
  proof (cases ?fs)
    case Nil
    then show ?thesis using fl by simp
  next
    case (Cons x xs)
    then have "bd_freeptr d = x" "x \<in> set (slots (bd_page d) ?sz)" using fl ok by auto
    then show ?thesis using slot_bounds[OF i refl, of x "bd_page d"] size_facts[OF i] frame_bounds(1)[OF k9] k(1) by simp
  qed
  then have "rd32 ?m obj = bd_freeptr d" by (rule rd32_wr32_same)
  moreover have "flist ?m (bd_freeptr d) ?fs = flist (mem st) (bd_freeptr d) ?fs"
  proof (rule flist_cong)
    fix x assume x: "x \<in> set ?fs"
    then have "x \<in> set (slots (bd_page d) ?sz)" "x \<noteq> obj" using ok obj(2) by auto
    then have "obj + ?sz \<le> x \<or> x + ?sz \<le> obj" using slots_apart[OF obj(1)] by auto
    then show "rd32 ?m x = rd32 (mem st) x" using size_facts[OF i] by (intro rd32_wr32_other) auto
  qed
  ultimately show "flist ?m obj (obj # ?fs)" using fl ob(1) frame_bounds(2)[of k] by simp
  show "rd32 ?m x = rd32 (mem st) x"
    if "l < 9" "e \<in> set (chain st l)" "bd_page e \<noteq> bd_page d" "x \<in> set (F (bd_page e))" for l e x
  proof (rule rd32_page_apart[OF rep that(1,2,4)])
    show "bd_page e \<noteq> frame k" using that(3) k(1) by simp
    show "rd32 ?m b = rd32 (mem st) b" if "b + 4 \<le> frame k \<or> frame k + 4096 \<le> b" for b
      using that ob size_facts[OF i] by (intro rd32_wr32_other) auto
  qed
  show "obj - obj mod PAGE_SIZE = bd_page d"
    using frame_base[OF ob(1)] ob(2) size_facts[OF i] k(1) by simp
qed

lemma free_count:
  assumes "distinct fs" "set fs \<subseteq> set (slots p sz)" "obj \<in> set (slots p sz)" "obj \<notin> set fs" "0 < sz"
  shows "length fs < PAGE_SIZE div sz"
    and "Suc (length fs) = PAGE_SIZE div sz \<Longrightarrow> set (slots p sz) = insert obj (set fs)"
proof -
  have c: "card (set (slots p sz)) = PAGE_SIZE div sz"
    using distinct_card[OF distinct_slots[OF assms(5), of p]] by simp
  have s: "insert obj (set fs) \<subseteq> set (slots p sz)" using assms by auto
  have ci: "card (insert obj (set fs)) = Suc (length fs)" using assms(1,4) by (simp add: distinct_card)
  then show "length fs < PAGE_SIZE div sz" using card_mono[OF _ s] c by simp
  show "set (slots p sz) = insert obj (set fs)" if "Suc (length fs) = PAGE_SIZE div sz"
    using card_subset_eq[OF _ s] c ci that by simp
qed

lemma kfree_ok:
  assumes rep: "heap_rep st F" and lv: "(obj, s) \<in> live st F" and sz: "unat sz \<le> s"
  shows "\<exists>st' F'. kfree obj sz st = Inr st' \<and> heap_rep st' F' \<and> live st' F' = live st F - {(obj, s)}"
proof -
  obtain i d0 where d0: "i < 9" "d0 \<in> set (chain st i)" "s = bucket_sizes ! i"
    "obj \<in> set (slots (bd_page d0) s)" "obj \<notin> set (F (bd_page d0))"
    using lv by (auto simp: live_def)
  have pg: "obj - obj mod PAGE_SIZE = bd_page d0"
    using freed_memory(3)[OF rep d0(1,2)] d0(3-5) by simp
  have uniq: "\<forall>m < length bucket_sizes. m \<noteq> i \<longrightarrow> (\<forall>e \<in> set (chain st (0 + m)). bd_page e \<noteq> bd_page d0)"
    using pages_apartD[OF heap_repD(2)[OF rep] _ d0(1) _ d0(2)] by auto
  obtain j where j: "find_owner (chain st) bucket_sizes (unat sz) (bd_page d0) 0 = Some (i, j)"
    "j < length (chain st i)" "bd_page (chain st i ! j) = bd_page d0"
    using find_owner_ok[of i bucket_sizes "unat sz" d0 "chain st" 0 "bd_page d0"] d0 sz uniq by auto
  define d where "d = chain st i ! j"
  have "d = d0"
    using pages_apartD[OF heap_repD(2)[OF rep] d0(1,1) _ d0(2)] j(2,3) by (auto simp: d_def)
  then have d: "d \<in> set (chain st i)" "obj \<in> set (slots (bd_page d) s)" "obj \<notin> set (F (bd_page d))"
    using d0 by simp_all
  let ?sz = "bucket_sizes ! i" and ?pg = "bd_page d" and ?m = "wr32 (mem st) obj (bd_freeptr d)"
  let ?fs = "F ?pg"
  note ok = heap_repD(1)[OF rep d0(1) d(1), unfolded desc_ok_def]
  note fm = freed_memory(1,2)[OF rep d0(1) d(1) d(2)[unfolded d0(3)] d(3)]
  have s0: "0 < ?sz" using size_facts[OF d0(1)] by simp
  have fsp: "distinct ?fs" "set ?fs \<subseteq> set (slots ?pg ?sz)" using ok by simp_all
  note fc = free_count[OF fsp d(2)[unfolded d0(3)] d(3) s0]
  have "unat (bd_refcnt d) + length ?fs = PAGE_SIZE div ?sz" using ok by blast
  then have rc: "unat (bd_refcnt d) = PAGE_SIZE div ?sz - length ?fs" by linarith
  then have rpos: "0 < unat (bd_refcnt d)" using fc(1) by simp
  then have r1: "unat (bd_refcnt d - 1) = unat (bd_refcnt d) - 1"
    by (intro unat_minus_one) auto
  let ?d = "d\<lparr>bd_freeptr := obj, bd_refcnt := bd_refcnt d - 1\<rparr>" and ?F = "F(?pg := obj # ?fs)"
  have kf: "kfree obj sz st = (if bd_refcnt d - 1 = 0 then
      rmap (\<lambda>ps. st\<lparr>mem := ?m, kpages := ps, chain := (chain st)(i := remove_nth j (chain st i)),
                    free_bucket_desc := bd_at d # free_bucket_desc st\<rparr>)
        (free_page (kpages st) (?pg - 0xC0000000))
      else Inr (st\<lparr>mem := ?m, chain := put_desc i j ?d (chain st)\<rparr>))"
  proof -
    have p: "obj - obj mod PAGE_SIZE = ?pg" using pg \<open>d = d0\<close> by simp
    have f: "find_owner (chain st) bucket_sizes (unat sz) ?pg 0 = Some (i, j)" using j(1) \<open>d = d0\<close> by simp
    show ?thesis
      unfolding kfree_def Let_def p f option.case prod.case d_def[symmetric] by (simp add: put_desc_def)
  qed
  have split: "live st F = live_in ?pg ?sz ?fs \<union> live_others (chain st) F ?pg"
    by (rule live_split[OF heap_repD(2)[OF rep] d0(1) d(1)])
  have no: "(obj, t) \<notin> live_others (chain st) F ?pg" for t
    using not_live_other[OF rep d0(1) d(1)] d(2) d0(3) by simp
  have rest: "live st F - {(obj, s)} = live_in ?pg ?sz (obj # ?fs) \<union> live_others (chain st) F ?pg"
    using split no d0(3) by (auto simp: live_in_def)
  have old: "desc_ok st1 ?F (bucket_sizes ! l) e"
    if "l < 9" "e \<in> set (chain st l)" "bd_page e \<noteq> ?pg" "mem st1 = ?m" "length (kpages st1) = length (kpages st)"
      "\<And>k. k < length (kpages st) \<Longrightarrow> bd_page e = frame k \<Longrightarrow> in_use (kpages st ! k) \<Longrightarrow> in_use (kpages st1 ! k)"
    for st1 l e
    by (rule desc_ok_cong[OF heap_repD(1)[OF rep that(1,2)]]) (use that fm(2)[OF that(1-3)] in auto)
  show ?thesis
  proof (cases "bd_refcnt d - 1 = 0")
    case False
    let ?st = "st\<lparr>mem := ?m, chain := put_desc i j ?d (chain st)\<rparr>"
    have jd: "bd_page ?d = bd_page (chain st i ! j)" "bd_at ?d = bd_at (chain st i ! j)"
      by (simp_all add: d_def)
    have dok: "desc_ok ?st ?F ?sz ?d"
      using ok fm(1) fsp d(2,3) d0(3) r1 rpos by (auto simp: desc_ok_def)
    have ap: "pages_apart (chain ?st)"
      using put_desc_pages(2)[of j "chain st" i ?d, OF j(2) jd(1)] heap_repD(2)[OF rep] by simp
    have rep': "heap_rep ?st ?F"
      unfolding heap_rep_def
    proof (intro conjI allI impI ballI)
      fix l e assume l: "l < 9" and e: "e \<in> set (chain ?st l)"
      show "desc_ok ?st ?F (bucket_sizes ! l) e"
      proof (cases "bd_page e = ?pg")
        case True
        then have "l = i \<and> e = ?d"
          using put_desc_same_page[of "chain st" i j ?d l e, OF heap_repD(2)[OF rep] d0(1) j(2) jd(1) l] e by simp
        then show ?thesis using dok by simp
      next
        case False
        then have "e \<in> set (chain st l)"
          using put_desc_others[of j "chain st" i ?d e l, OF j(2) jd(1)] e by simp
        from old[OF l this False] show ?thesis by simp
      qed
    next
      fix b assume "b \<in> desc_addrs ?st"
      then have "b \<in> desc_addrs (st\<lparr>chain := put_desc i j ?d (chain st)\<rparr>)" by (simp add: desc_addrs_iff)
      then have "b \<in> desc_addrs st"
        unfolding put_desc_addrs[of j st i ?d, OF j(2) jd(2)] .
      then show "\<exists>k<length (kpages ?st). in_use (kpages ?st ! k) \<and> frame k \<le> b \<and> b < frame k + 4096
          \<and> frame k \<notin> chain_pages (chain ?st)"
        using heap_repD(4)[OF rep] put_desc_pages(1)[of j "chain st" i ?d, OF j(2) jd(1)] by simp
    qed (use ap heap_repD(3)[OF rep] in simp_all)
    have "live ?st ?F = live_in ?pg ?sz (obj # ?fs) \<union> live_others (chain ?st) ?F ?pg"
      using live_split[OF ap d0(1), of ?d ?F] put_desc_member[of j "chain st" i ?d, OF j(2)] by simp
    also have "live_others (chain ?st) ?F ?pg = live_others (chain st) F ?pg"
      using put_desc_others[of j "chain st" i ?d, OF j(2) jd(1)] by (intro live_others_cong) auto
    finally have lvs: "live ?st ?F = live st F - {(obj, s)}" unfolding rest .
    have "kfree obj sz st = Inr ?st" using kf False by simp
    then show ?thesis using rep' lvs by blast
  next
    case True
    then have "unat (bd_refcnt d) = 1" using r1 rpos by simp
    then have "set (slots ?pg ?sz) = insert obj (set ?fs)" using fc rc by auto
    then have empty: "live_in ?pg ?sz (obj # ?fs) = {}" by (auto simp: live_in_def)
    obtain k where k: "?pg = frame k" "k < length (kpages st)" using ok by auto
    have pa: "?pg - 0xC0000000 = PAGE_SIZE * k" using k(1) by (simp add: frame_def va_def)
    obtain ps where ps: "free_page (kpages st) (PAGE_SIZE * k) = Inr ps" "length ps = length (kpages st)"
      "\<forall>l. l \<noteq> k \<longrightarrow> ps ! l = kpages st ! l"
      using free_page_at[OF k(2)] by blast
    let ?ch = "(chain st)(i := remove_nth j (chain st i))"
    let ?st = "st\<lparr>mem := ?m, kpages := ps, chain := ?ch, free_bucket_desc := bd_at d # free_bucket_desc st\<rparr>"
    have dist: "distinct (map bd_page (chain st l))" if "l < 9" for l
      using heap_repD(2)[OF rep] that by (simp add: pages_apart_def)
    have mem_ch: "e \<in> set (?ch l) \<longleftrightarrow> e \<in> set (chain st l) \<and> bd_page e \<noteq> ?pg" if "l < 9" for l e
    proof (cases "l = i")
      case True
      then show ?thesis using remove_nth_facts(2)[OF j(2) dist[OF d0(1)], of e] by (simp add: d_def)
    next
      case False
      then show ?thesis using pages_apartD[OF heap_repD(2)[OF rep] that d0(1) _ d(1), of e] by auto
    qed
    have ap: "pages_apart ?ch"
      unfolding pages_apart_def
    proof (intro conjI allI impI)
      show "distinct (map bd_page (?ch l))" if "l < 9" for l
        using remove_nth_facts(1)[OF j(2) dist[OF d0(1)]] dist[OF that] by simp
      show "bd_page ` set (?ch l) \<inter> bd_page ` set (?ch m) = {}" if "l < 9" "m < 9" "l \<noteq> m" for l m
        using pages_apartD[OF heap_repD(2)[OF rep] that(1,2)] that(3) mem_ch[OF that(1)] mem_ch[OF that(2)] by blast
    qed
    have rep': "heap_rep ?st ?F"
      unfolding heap_rep_def
    proof (intro conjI allI impI ballI)
      fix l e assume l: "l < 9" and "e \<in> set (chain ?st l)"
      then have e: "e \<in> set (chain st l)" "bd_page e \<noteq> ?pg" using mem_ch[OF l] by simp_all
      show "desc_ok ?st ?F (bucket_sizes ! l) e"
      proof (rule old[OF l e])
        show "in_use (kpages ?st ! m)" if "bd_page e = frame m" "in_use (kpages st ! m)" for m
        proof -
          have "m \<noteq> k" using e(2) k(1) that(1) by auto
          then show ?thesis using ps(3) that(2) by simp
        qed
      qed (use ps in auto)
    next
      fix b assume "b \<in> desc_addrs ?st"
      then have "b \<in> desc_addrs st" using mem_ch d(1) d0(1) by (auto simp: desc_addrs_iff)
      then obtain m where m: "m < length (kpages st)" "in_use (kpages st ! m)" "frame m \<le> b" "b < frame m + 4096"
        "frame m \<notin> chain_pages (chain st)"
        using heap_repD(4)[OF rep] by blast
      have "m \<noteq> k" using m(5) k(1) d(1) d0(1) by (auto simp: chain_pages_iff)
      moreover have "frame m \<notin> chain_pages ?ch" using m(5) mem_ch by (auto simp: chain_pages_iff)
      ultimately show "\<exists>k<length (kpages ?st). in_use (kpages ?st ! k) \<and> frame k \<le> b \<and> b < frame k + 4096
          \<and> frame k \<notin> chain_pages (chain ?st)"
        using m ps by (intro exI[of _ m]) simp
    qed (use ap heap_repD(3)[OF rep] ps(2) in simp_all)
    define ch where "ch = ?ch"
    have cst: "chain ?st = ch" by (simp add: ch_def)
    have mc: "e \<in> set (ch l) \<longleftrightarrow> e \<in> set (chain st l) \<and> bd_page e \<noteq> ?pg" if "l < 9" for l e
      unfolding ch_def by (rule mem_ch[OF that])
    have "live ?st ?F = live_others ch ?F ?pg" unfolding live_def live_others_def cst using mc by blast
    also have "\<dots> = live_others (chain st) F ?pg" using mc by (intro live_others_cong) auto
    finally have "live ?st ?F = live_others (chain st) F ?pg" .
    then have lvs: "live ?st ?F = live st F - {(obj, s)}" unfolding rest empty by simp
    have "kfree obj sz st = Inr ?st" using kf True pa ps(1) by simp
    then show ?thesis using rep' lvs by blast
  qed
qed

text \<open>A free object does not overlap an object in use.\<close>

lemma live_free_apart:
  assumes rep: "heap_rep st F" and lv: "(a, s) \<in> live st F"
    and l: "l < 9" "e \<in> set (chain st l)" and x: "x \<in> set (F (bd_page e))"
  shows "a + s \<le> x \<or> x + 4 \<le> a"
proof -
  obtain i d where d: "i < 9" "d \<in> set (chain st i)" "s = bucket_sizes ! i"
    "a \<in> set (slots (bd_page d) s)" "a \<notin> set (F (bd_page d))"
    using lv by (auto simp: live_def)
  note ok = heap_repD(1)[OF rep l, unfolded desc_ok_def]
  have xs: "x \<in> set (slots (bd_page e) (bucket_sizes ! l))" using ok x by auto
  show ?thesis
  proof (cases "bd_page e = bd_page d")
    case True
    then have "l = i \<and> e = d" using pages_apartD[OF heap_repD(2)[OF rep] l(1) d(1) l(2) d(2)] by simp
    then have "x \<in> set (slots (bd_page d) s)" "x \<noteq> a" using xs x d by auto
    then show ?thesis using slots_apart[OF d(4), of x] size_facts[OF d(1)] d(3) by auto
  next
    case False
    obtain k where k: "bd_page e = frame k" using ok by auto
    obtain n where n: "bd_page d = frame n" using heap_repD(1)[OF rep d(1,2)] by (auto simp: desc_ok_def)
    have "k \<noteq> n" using False k n by auto
    from frame_apart[OF this] slot_bounds[OF l(1) refl xs] slot_bounds[OF d(1,3,4)] k n size_facts[OF l(1)]
    show ?thesis by auto
  qed
qed

text \<open>Writing into objects in use leaves all free lists alone.\<close>

lemma write_objects:
  assumes rep: "heap_rep st F"
    and m: "\<And>b. (\<And>a s. (a, s) \<in> live st F \<Longrightarrow> b < a \<or> a + s \<le> b) \<Longrightarrow> m b = mem st b"
  shows "heap_rep (st\<lparr>mem := m\<rparr>) F \<and> live (st\<lparr>mem := m\<rparr>) F = live st F"
proof -
  have "desc_ok (st\<lparr>mem := m\<rparr>) F (bucket_sizes ! l) e" if l: "l < 9" "e \<in> set (chain st l)" for l e
  proof (rule desc_ok_cong[OF heap_repD(1)[OF rep l]])
    fix x assume x: "x \<in> set (F (bd_page e))"
    have "m b = mem st b" if "x \<le> b" "b < x + 4" for b
    proof (rule m)
      show "b < a \<or> a + s \<le> b" if "(a, s) \<in> live st F" for a s
        using live_free_apart[OF rep that l x] \<open>x \<le> b\<close> \<open>b < x + 4\<close> by auto
    qed
    then show "rd32 (mem (st\<lparr>mem := m\<rparr>)) x = rd32 (mem st) x" by (simp add: rd32_def)
  qed simp_all
  then show ?thesis using rep by (simp add: heap_rep_def desc_addrs_def live_def)
qed

lemma write_object:
  assumes "heap_rep st F" and "(a, s) \<in> live st F" and "\<And>b. b < a \<or> a + s \<le> b \<Longrightarrow> m b = mem st b"
  shows "heap_rep (st\<lparr>mem := m\<rparr>) F \<and> live (st\<lparr>mem := m\<rparr>) F = live st F"
  by (rule write_objects) (use assms in blast)+

lemma zero_object:
  assumes "heap_rep st F" and "(a, s) \<in> live st F" and "n \<le> s"
  shows "heap_rep (st\<lparr>mem := zero_mem (mem st) a n\<rparr>) F"
  by (rule conjunct1[OF write_object[OF assms(1,2)]]) (use assms(3) in \<open>auto simp: zero_mem_def\<close>)

text \<open>An object in use lies in a page in use.\<close>

lemma live_in_page:
  assumes "heap_rep st F" and "(a, s) \<in> live st F"
  shows "\<exists>k < length (kpages st). in_use (kpages st ! k) \<and> frame k \<le> a \<and> a + s \<le> frame k + 4096 \<and> 0 < a
    \<and> a + s \<le> 4294967296 \<and> 16 \<le> s"
proof -
  obtain i d where d: "i < 9" "d \<in> set (chain st i)" "s = bucket_sizes ! i" "a \<in> set (slots (bd_page d) s)"
    using assms(2) by (auto simp: live_def)
  obtain k where k: "k < length (kpages st)" "bd_page d = frame k" "in_use (kpages st ! k)"
    using heap_repD(1)[OF assms(1) d(1,2)] by (auto simp: desc_ok_def)
  have "frame k + 4096 \<le> 4294967296" "frame k \<noteq> 0"
    using frame_bounds[of k] heap_repD(3)[OF assms(1)] k(1) by simp_all
  then show ?thesis using slot_bounds[OF d(1,3,4)] k size_facts[OF d(1)] d(3) by (intro exI[of _ k]) auto
qed

text \<open>An allocation changes no byte of a page in use.\<close>

lemma build_free_frame:
  "\<lbrakk>0 < n; 4 \<le> sz; b < cp \<or> cp + sz * n \<le> b\<rbrakk> \<Longrightarrow> build_free m cp sz n b = m b"
proof (induction n arbitrary: m cp)
  case (Suc n)
  have e: "wr32 m cp v b = m b" for v using Suc.prems by (auto simp: wr32_def Let_def)
  show ?case
  proof (cases "n = 0")
    case True
    then show ?thesis by (subst build_free.simps) (simp add: e)
  next
    case False
    then have "build_free m cp sz (Suc n) b = build_free (wr32 m cp (cp + sz)) (cp + sz) sz n b"
      by (subst build_free.simps) simp
    also have "\<dots> = wr32 m cp (cp + sz) b" using Suc.prems False by (intro Suc.IH) auto
    finally show ?thesis by (simp add: e)
  qed
qed simp

lemma take_page_frame:
  assumes "take_page st = Inr (st', p)" and "k < length (kpages st)" and "in_use (kpages st ! k)"
    and "frame k \<le> b" and "b < frame k + 4096"
  shows "mem st' b = mem st b \<and> k < length (kpages st') \<and> in_use (kpages st' ! k) \<and> (b < p \<or> p + 4096 \<le> b)"
proof -
  obtain ps a where g: "get_free_page (kpages st) = Inr (ps, a)"
    and st': "st' = st\<lparr>kpages := ps, mem := zero_mem (mem st) (va a) PAGE_SIZE\<rparr>" "p = va a"
    using assms(1) by (auto simp: take_page_def rmap_Inr_conv)
  obtain j where j: "a = PAGE_SIZE * j" "\<not> in_use (kpages st ! j)" "length ps = length (kpages st)"
    "\<forall>i. i \<noteq> j \<longrightarrow> ps ! i = kpages st ! i" using get_free_page_Inr[OF g] by auto
  have "j \<noteq> k" using j(2) assms(3) by auto
  moreover have "va a = frame j" using j(1) by (simp add: frame_def)
  ultimately show ?thesis using frame_apart[of j k] assms j(3,4) by (auto simp: st' zero_mem_def PAGE_SIZE_def)
qed

lemma kmalloc_frame:
  assumes t: "kmalloc len st = Inr (st', a)" and k: "k < length (kpages st)" "in_use (kpages st ! k)"
    "frame k \<le> b" "b < frame k + 4096"
  shows "mem st' b = mem st b"
proof -
  obtain i where i: "find_dir bucket_sizes (unat len) 0 = Some i"
    using t by (auto simp: kmalloc_def split: option.splits)
  then have i9: "i < 9" using find_dir_Some[OF i] by auto
  show ?thesis
  proof (cases "find_desc (chain st i) 0")
    case (Some j)
    then show ?thesis using t i by (auto simp: kmalloc_def take_object_def Let_def)
  next
    case None
    then obtain st3 where st3: "new_bucket i (bucket_sizes ! i) st = Inr st3" "mem st' = mem st3"
      using t i by (auto simp: kmalloc_def rmap_Inr_conv take_object_def Let_def)
    obtain st1 where st1: "(if free_bucket_desc st = [] then init_bucket_desc st else Inr st) = Inr st1"
      using st3(1) by (auto simp: new_bucket_def rbind_Inr_conv)
    have k1: "mem st1 b = mem st b \<and> k < length (kpages st1) \<and> in_use (kpages st1 ! k)"
    proof (cases "free_bucket_desc st = []")
      case True
      then obtain st0 p where "take_page st = Inr (st0, p)" "mem st1 = mem st0" "kpages st1 = kpages st0"
        using st1 by (auto simp: init_bucket_desc_def rmap_Inr_conv)
      then show ?thesis using take_page_frame[OF _ k] by simp
    qed (use st1 k in simp)
    obtain c fds st2 cp where st2: "take_page (st1\<lparr>free_bucket_desc := fds\<rparr>) = Inr (st2, cp)"
      "mem st3 = build_free (mem st2) cp (bucket_sizes ! i) (PAGE_SIZE div bucket_sizes ! i)"
      using st3(1) st1 by (auto simp: new_bucket_def rmap_Inr_conv split: list.splits)
    note f = take_page_frame[OF st2(1) _ _ k(3,4)]
    have "bucket_sizes ! i * (PAGE_SIZE div bucket_sizes ! i) \<le> 4096" by (simp add: PAGE_SIZE_def)
    moreover have "0 < PAGE_SIZE div bucket_sizes ! i \<and> 4 \<le> bucket_sizes ! i"
      using size_facts[OF i9] by auto
    ultimately have "mem st3 b = mem st2 b"
      unfolding st2(2) using f k1 by (intro build_free_frame) auto
    then show ?thesis using f k1 st3(2) by simp
  qed
qed

subsection \<open>The contract of an object allocator\<close>

fun alloc_all :: "(u32 \<Rightarrow> 's \<Rightarrow> ('s \<times> nat) res) \<Rightarrow> u32 list \<Rightarrow> 's \<Rightarrow> ('s \<times> (nat \<times> u32) list) res" where
  "alloc_all alloc [] s = Inr (s, [])"
| "alloc_all alloc (n # ns) s =
     rbind (alloc n s) (\<lambda>(s', a). rmap (\<lambda>(s'', as). (s'', (a, n) # as)) (alloc_all alloc ns s'))"

definition ranges_apart :: "nat \<times> u32 \<Rightarrow> nat \<times> u32 \<Rightarrow> bool" where
  "ranges_apart x y \<longleftrightarrow> fst x + unat (snd x) \<le> fst y \<or> fst y + unat (snd y) \<le> fst x"

locale object_allocator =
  fixes rep :: "'s \<Rightarrow> (nat \<times> nat) set \<Rightarrow> bool"
    and alloc :: "u32 \<Rightarrow> 's \<Rightarrow> ('s \<times> nat) res" and free :: "nat \<Rightarrow> u32 \<Rightarrow> 's \<Rightarrow> 's res"
  assumes alloc: "\<lbrakk>rep s L; alloc n s = Inr (s', a)\<rbrakk> \<Longrightarrow>
      \<exists>sz. unat n \<le> sz \<and> rep s' (insert (a, sz) L) \<and> (\<forall>t. (a, t) \<notin> L)"
    and free: "\<lbrakk>rep s L; (a, sz) \<in> L; unat n \<le> sz\<rbrakk> \<Longrightarrow> \<exists>s'. free a n s = Inr s' \<and> rep s' (L - {(a, sz)})"
    and apart: "\<lbrakk>rep s L; (a, sa) \<in> L; (b, sb) \<in> L; a \<noteq> b\<rbrakk> \<Longrightarrow> a + sa \<le> b \<or> b + sb \<le> a"
begin

lemma alloc_then_free:
  assumes "rep s L" "alloc n s = Inr (s', a)"
  shows "\<exists>s''. free a n s' = Inr s'' \<and> rep s'' L"
proof -
  obtain sz where sz: "unat n \<le> sz" "rep s' (insert (a, sz) L)" "\<forall>t. (a, t) \<notin> L"
    using alloc[OF assms] by blast
  then obtain s'' where s'': "free a n s' = Inr s''" "rep s'' (insert (a, sz) L - {(a, sz)})"
    using free[of s' "insert (a, sz) L" a sz n] by auto
  have "insert (a, sz) L - {(a, sz)} = L" using sz(3) by simp
  then show ?thesis using s'' by auto
qed

text \<open>Objects allocated one after the other are pairwise apart, and apart from older ones.\<close>

lemma alloc_all_apart:
  "\<lbrakk>rep s L; alloc_all alloc ns s = Inr (s', xs)\<rbrakk> \<Longrightarrow>
   \<exists>L'. rep s' L' \<and> L \<subseteq> L' \<and> (\<forall>(a, n) \<in> set xs. \<exists>sz. unat n \<le> sz \<and> (a, sz) \<in> L' \<and> (\<forall>t. (a, t) \<notin> L))
     \<and> distinct (map fst xs) \<and> sorted_wrt ranges_apart xs"
proof (induction ns arbitrary: s L xs)
  case (Cons n ns)
  obtain s1 a as where s1: "alloc n s = Inr (s1, a)" "alloc_all alloc ns s1 = Inr (s', as)" "xs = (a, n) # as"
    using Cons.prems(2) by (auto simp: rbind_Inr_conv rmap_Inr_conv)
  obtain sz where sz: "unat n \<le> sz" "rep s1 (insert (a, sz) L)" "\<forall>t. (a, t) \<notin> L"
    using alloc[OF Cons.prems(1) s1(1)] by blast
  obtain L' where L': "rep s' L'" "insert (a, sz) L \<subseteq> L'"
    "\<forall>(b, m) \<in> set as. \<exists>t. unat m \<le> t \<and> (b, t) \<in> L' \<and> (\<forall>t. (b, t) \<notin> insert (a, sz) L)"
    "distinct (map fst as)" "sorted_wrt ranges_apart as"
    using Cons.IH[OF sz(2) s1(2)] by blast
  have ab: "b \<noteq> a \<and> ranges_apart (a, n) (b, m)" if bm: "(b, m) \<in> set as" for b m
  proof -
    obtain t where t: "unat m \<le> t" "(b, t) \<in> L'" "\<forall>u. (b, u) \<notin> insert (a, sz) L"
      using bspec[OF L'(3) bm] by auto
    then have ne: "b \<noteq> a" by auto
    then have "a + sz \<le> b \<or> b + t \<le> a" using apart[OF L'(1), of a sz b t] L'(2) t(2) by auto
    then show ?thesis using t(1) ne sz(1) by (auto simp: ranges_apart_def)
  qed
  have "a \<notin> fst ` set as" using ab by fastforce
  then have "distinct (map fst xs)" "sorted_wrt ranges_apart xs" using ab L'(4,5) s1(3) by auto
  moreover have "\<forall>(b, m) \<in> set xs. \<exists>t. unat m \<le> t \<and> (b, t) \<in> L' \<and> (\<forall>t. (b, t) \<notin> L)"
    using L'(2,3) sz(1,3) s1(3) by fastforce
  ultimately show ?case using L'(1,2) by blast
qed auto

end

definition kheap_rep :: "kheap \<Rightarrow> (nat \<times> nat) set \<Rightarrow> bool" where
  "kheap_rep st L \<longleftrightarrow> (\<exists>F. heap_rep st F \<and> L = live st F)"

interpretation km: object_allocator kheap_rep kmalloc kfree
proof unfold_locales
  show "\<exists>sz. unat n \<le> sz \<and> kheap_rep s' (insert (a, sz) L) \<and> (\<forall>t. (a, t) \<notin> L)"
    if "kheap_rep s L" "kmalloc n s = Inr (s', a)" for s L n s' a
    using that kmalloc_ok[of s _ n s' a] unfolding kheap_rep_def by metis
  show "\<exists>s'. kfree a n s = Inr s' \<and> kheap_rep s' (L - {(a, sz)})"
    if "kheap_rep s L" "(a, sz) \<in> L" "unat n \<le> sz" for s L a sz n
    using that kfree_ok[of s _ a sz n] unfolding kheap_rep_def by metis
  show "a + sa \<le> b \<or> b + sb \<le> a"
    if "kheap_rep s L" "(a, sa) \<in> L" "(b, sb) \<in> L" "a \<noteq> b" for s L a sa b sb
    using that live_apart unfolding kheap_rep_def by blast
qed

subsection \<open>Properties\<close>

text \<open>The heap before the first allocation: no chain has a descriptor yet.\<close>

definition empty_heap :: "page list \<Rightarrow> kheap" where
  "empty_heap ps = \<lparr>mem = (\<lambda>_. 0xFF), kpages = ps, chain = (\<lambda>_. []), free_bucket_desc = []\<rparr>"

lemma empty_heap_rep: "length ps \<le> 229376 \<Longrightarrow> heap_rep (empty_heap ps) F \<and> live (empty_heap ps) F = {}"
  by (simp add: heap_rep_def empty_heap_def pages_apart_def desc_addrs_def live_def)

definition free_pages :: "nat \<Rightarrow> page list" where
  "free_pages n = replicate n \<lparr>pg_count = 0, pg_flags = 0\<rparr>"

text \<open>
  C5. Fresh objects: on a well-formed heap \<^verbatim>\<open>kmalloc\<close> that returns gives an object of the smallest
  size class that holds the request. The object was not in use, does not overlap any object
  in use, the heap stays well-formed, and the objects in use are those before and this one.
\<close>

theorem kmalloc_gives_fresh_object:
  assumes "heap_rep st F" and "kmalloc len st = Inr (st', a)"
  shows "\<exists>F' i. heap_rep st' F' \<and> i < 9 \<and> unat len \<le> bucket_sizes ! i \<and> (\<forall>l < i. bucket_sizes ! l < unat len)
     \<and> live st' F' = insert (a, bucket_sizes ! i) (live st F)
     \<and> (\<forall>(b, s) \<in> live st F. a + bucket_sizes ! i \<le> b \<or> b + s \<le> a)"
proof -
  obtain F' i where F': "heap_rep st' F'" "i < 9" "unat len \<le> bucket_sizes ! i"
    "\<forall>l < i. bucket_sizes ! l < unat len" "live st' F' = insert (a, bucket_sizes ! i) (live st F)"
    "\<forall>s. (a, s) \<notin> live st F"
    using kmalloc_ok[OF assms] by blast
  have "a + bucket_sizes ! i \<le> b \<or> b + s \<le> a" if "(b, s) \<in> live st F" for b s
    by (rule live_apart[OF F'(1)]) (use that F'(5,6) in auto)
  then show ?thesis using F' by blast
qed

text \<open>
  \<^verbatim>\<open>kmalloc\<close> of up to one page does not fail while two page frames are free: one may be
  needed for the object and one for the descriptors.
\<close>

theorem kmalloc_succeeds_with_two_free_pages:
  assumes "unat len \<le> 4096" and "p \<noteq> q" and "p < length (kpages st)" and "q < length (kpages st)"
    and "\<not> in_use (kpages st ! p)" and "\<not> in_use (kpages st ! q)"
  shows "\<exists>st' a. kmalloc len st = Inr (st', a)"
  using kmalloc_returns[OF assms] by auto

theorem kmalloc_succeeds_with_two_free_pages_witness:
  "\<exists>st' a. kmalloc 100 (empty_heap (free_pages 2)) = Inr (st', a)"
  by (rule kmalloc_succeeds_with_two_free_pages[where p = 0 and q = 1])
     (simp_all add: empty_heap_def free_pages_def in_use_def)

theorem kmalloc_gives_fresh_object_witness:
  "\<exists>st' a F'. kmalloc 100 (empty_heap (free_pages 2)) = Inr (st', a) \<and> heap_rep st' F' \<and> live st' F' = {(a, 128)}"
proof -
  obtain st' a where k: "kmalloc 100 (empty_heap (free_pages 2)) = Inr (st', a)"
    using kmalloc_returns[of 100 0 1 "empty_heap (free_pages 2)"]
    by (auto simp: empty_heap_def free_pages_def in_use_def)
  have e: "heap_rep (empty_heap (free_pages 2)) (\<lambda>_. [])" "live (empty_heap (free_pages 2)) (\<lambda>_. []) = {}"
    using empty_heap_rep[of "free_pages 2"] by (simp_all add: free_pages_def)
  obtain F' i where i: "heap_rep st' F'" "i < 9" "100 \<le> bucket_sizes ! i" "\<forall>l < i. bucket_sizes ! l < 100"
    "live st' F' = {(a, bucket_sizes ! i)}"
    using kmalloc_gives_fresh_object[OF e(1) k] e(2) by auto
  have "i = 3"
  proof (rule ccontr)
    assume "i \<noteq> 3"
    then consider "i \<in> {0, 1, 2}" | "3 < i" by fastforce
    then show False using i(3) i(4)[rule_format, of 3] by cases (auto simp: bucket_sizes_def)
  qed
  then show ?thesis using k i by (auto simp: bucket_sizes_def)
qed

text \<open>
  C6. \<^verbatim>\<open>kfree\<close> of an object in use, with a size not above the object's (0 included), returns:
  the object is no longer in use, all others still are, and the heap stays well-formed; the
  page frame and the descriptor are given back when it was the last object of its page.
\<close>

theorem kfree_releases_object:
  assumes "heap_rep st F" and "(obj, s) \<in> live st F" and "unat sz \<le> s"
  shows "\<exists>st' F'. kfree obj sz st = Inr st' \<and> heap_rep st' F' \<and> live st' F' = live st F - {(obj, s)}"
  using assms by (rule kfree_ok)

theorem kfree_releases_object_witness:
  "\<exists>st a st' F'. kmalloc 100 (empty_heap (free_pages 2)) = Inr (st, a)
     \<and> kfree a 100 st = Inr st' \<and> heap_rep st' F' \<and> live st' F' = {}"
proof -
  obtain st a where k: "kmalloc 100 (empty_heap (free_pages 2)) = Inr (st, a)"
    using kmalloc_returns[of 100 0 1 "empty_heap (free_pages 2)"]
    by (auto simp: empty_heap_def free_pages_def in_use_def)
  have e: "heap_rep (empty_heap (free_pages 2)) (\<lambda>_. [])" "live (empty_heap (free_pages 2)) (\<lambda>_. []) = {}"
    using empty_heap_rep[of "free_pages 2"] by (simp_all add: free_pages_def)
  obtain F i where f: "heap_rep st F" "100 \<le> bucket_sizes ! i" "live st F = {(a, bucket_sizes ! i)}"
    using kmalloc_ok[OF e(1) k] e(2) by auto
  show ?thesis using kfree_releases_object[OF f(1), of a "bucket_sizes ! i" 100] f k by fastforce
qed

text \<open>
  \<^verbatim>\<open>kzmalloc\<close> gives a fresh object whose first \<^verbatim>\<open>size\<close> bytes are zero, and clearing it does
  not damage the allocator: the heap it leaves is well-formed.
\<close>

theorem kzmalloc_gives_zeroed_object:
  assumes "heap_rep st F" and "kzmalloc len st = Inr (st', a)"
  shows "\<exists>F' sz. heap_rep st' F' \<and> unat len \<le> sz \<and> live st' F' = insert (a, sz) (live st F)
     \<and> (\<forall>s. (a, s) \<notin> live st F) \<and> (\<forall>b. a \<le> b \<and> b < a + unat len \<longrightarrow> mem st' b = 0)"
proof -
  obtain st1 where k: "kmalloc len st = Inr (st1, a)"
    and st': "st' = (if a \<noteq> 0 then st1\<lparr>mem := zero_mem (mem st1) a (unat len)\<rparr> else st1)"
    using assms(2) by (auto simp: kzmalloc_def rmap_Inr_conv)
  obtain F' i where F': "heap_rep st1 F'" "i < 9" "unat len \<le> bucket_sizes ! i"
    "live st1 F' = insert (a, bucket_sizes ! i) (live st F)" "\<forall>s. (a, s) \<notin> live st F"
    using kmalloc_ok[OF assms(1) k] by blast
  have lv: "(a, bucket_sizes ! i) \<in> live st1 F'" using F'(4) by simp
  then obtain l d where "l < 9" "d \<in> set (chain st1 l)" "a \<in> set (slots (bd_page d) (bucket_sizes ! l))"
    by (auto simp: live_def)
  moreover from this(1,2) obtain m where "bd_page d = frame m"
    using heap_repD(1)[OF F'(1), of l d] by (auto simp: desc_ok_def)
  ultimately have a0: "a \<noteq> 0" using slot_bounds(1)[OF _ refl, of l a "frame m"] frame_bounds(2)[of m] by auto
  have "heap_rep st' F'" using zero_object[OF F'(1) lv F'(3)] a0 st' by simp
  moreover have "live st' F' = live st1 F'" using st' by (intro live_chain_cong) simp
  moreover have "\<forall>b. a \<le> b \<and> b < a + unat len \<longrightarrow> mem st' b = 0" using st' a0 by (simp add: zero_mem_def)
  ultimately show ?thesis using F'(3-5) by auto
qed

theorem kzmalloc_gives_zeroed_object_witness:
  "\<exists>st' a. kzmalloc 20 (empty_heap (free_pages 2)) = Inr (st', a) \<and> mem st' a = 0 \<and> mem st' (a + 19) = 0"
proof -
  obtain st a where "kmalloc 20 (empty_heap (free_pages 2)) = Inr (st, a)"
    using kmalloc_returns[of 20 0 1 "empty_heap (free_pages 2)"]
    by (auto simp: empty_heap_def free_pages_def in_use_def)
  then obtain st' where z: "kzmalloc 20 (empty_heap (free_pages 2)) = Inr (st', a)" by (auto simp: kzmalloc_def)
  have e: "heap_rep (empty_heap (free_pages 2)) (\<lambda>_. [])"
    using empty_heap_rep[of "free_pages 2"] by (simp add: free_pages_def)
  have "mem st' b = 0" if "a \<le> b \<and> b < a + 20" for b
    using kzmalloc_gives_zeroed_object[OF e z] that by auto
  then show ?thesis using z by auto
qed

text \<open>
  C7. Any number of objects allocated one after the other from a well-formed heap are at
  distinct addresses and the requested bytes of any two of them do not overlap.
\<close>

theorem kmalloc_objects_never_overlap:
  assumes "heap_rep st F" and "alloc_all kmalloc ns st = Inr (st', xs)"
  shows "distinct (map fst xs) \<and> sorted_wrt ranges_apart xs \<and> (\<exists>F'. heap_rep st' F')"
proof -
  have "kheap_rep st (live st F)" using assms(1) by (auto simp: kheap_rep_def)
  from km.alloc_all_apart[OF this assms(2)] show ?thesis by (auto simp: kheap_rep_def)
qed

text \<open>One allocation touches at most two entries of the page table.\<close>

lemma take_page_entries:
  assumes "take_page s = Inr (s1, v)"
  shows "length (kpages s1) = length (kpages s) \<and> (\<exists>i. \<forall>k. k \<noteq> i \<longrightarrow> kpages s1 ! k = kpages s ! k)"
proof -
  obtain ps a where "get_free_page (kpages s) = Inr (ps, a)" "kpages s1 = ps"
    using assms by (auto simp: take_page_def rmap_Inr_conv)
  then show ?thesis using get_free_page_Inr[of "kpages s" ps a] by metis
qed

lemma new_bucket_entries:
  assumes "new_bucket i sz st = Inr st'"
  shows "length (kpages st') = length (kpages st)
     \<and> (\<exists>x y. \<forall>k. k \<noteq> x \<and> k \<noteq> y \<longrightarrow> kpages st' ! k = kpages st ! k)"
proof -
  obtain st1 where st1: "(if free_bucket_desc st = [] then init_bucket_desc st else Inr st) = Inr st1"
    using assms by (auto simp: new_bucket_def rbind_Inr_conv)
  then have p1: "length (kpages st1) = length (kpages st) \<and> (\<exists>x. \<forall>k. k \<noteq> x \<longrightarrow> kpages st1 ! k = kpages st ! k)"
    using take_page_entries[of st] by (auto simp: init_bucket_desc_def rmap_Inr_conv split: if_splits)
  obtain a fds where "free_bucket_desc st1 = a # fds"
    using assms st1 by (cases "free_bucket_desc st1") (auto simp: new_bucket_def)
  then obtain st2 cp where "take_page (st1\<lparr>free_bucket_desc := fds\<rparr>) = Inr (st2, cp)" "kpages st' = kpages st2"
    using assms st1 by (auto simp: new_bucket_def rmap_Inr_conv)
  then have "length (kpages st') = length (kpages st1) \<and> (\<exists>y. \<forall>k. k \<noteq> y \<longrightarrow> kpages st' ! k = kpages st1 ! k)"
    using take_page_entries[of "st1\<lparr>free_bucket_desc := fds\<rparr>" st2 cp] by simp
  then show ?thesis using p1 by metis
qed

lemma kmalloc_entries:
  assumes "kmalloc len st = Inr (st', a)"
  shows "length (kpages st') = length (kpages st)
     \<and> (\<exists>x y. \<forall>k. k \<noteq> x \<and> k \<noteq> y \<longrightarrow> kpages st' ! k = kpages st ! k)"
proof -
  obtain i where i: "find_dir bucket_sizes (unat len) 0 = Some i"
    using assms by (auto simp: kmalloc_def split: option.splits)
  show ?thesis
  proof (cases "find_desc (chain st i) 0")
    case None
    then obtain st3 where "new_bucket i (bucket_sizes ! i) st = Inr st3" "kpages st' = kpages st3"
      using assms i by (auto simp: kmalloc_def rmap_Inr_conv take_object_def Let_def)
    then show ?thesis using new_bucket_entries[of i "bucket_sizes ! i" st st3] by simp
  qed (use assms i in \<open>auto simp: kmalloc_def take_object_def Let_def\<close>)
qed

theorem kmalloc_objects_never_overlap_witness:
  "\<exists>st' a b. alloc_all kmalloc [100, 50] (empty_heap (free_pages 4)) = Inr (st', [(a, 100), (b, 50)])
     \<and> (a + 100 \<le> b \<or> b + 50 \<le> a)"
proof -
  let ?h = "empty_heap (free_pages 4)"
  have fr: "\<not> in_use (kpages ?h ! k)" if "k < 4" for k
    using that by (simp add: empty_heap_def free_pages_def in_use_def)
  have len: "length (kpages ?h) = 4" by (simp add: empty_heap_def free_pages_def)
  obtain s1 a where s1: "kmalloc 100 ?h = Inr (s1, a)"
    using kmalloc_returns[of 100 0 1 ?h] fr len by auto
  obtain x y where xy: "length (kpages s1) = 4" "\<forall>k. k \<noteq> x \<and> k \<noteq> y \<longrightarrow> kpages s1 ! k = kpages ?h ! k"
    using kmalloc_entries[OF s1] len by auto
  have "\<exists>p q. p < 4 \<and> q < 4 \<and> p \<noteq> q \<and> p \<notin> {x, y} \<and> q \<notin> {x, y}"
  proof -
    have "2 \<le> card ({0, 1, 2, 3} - {x, y})"
      using diff_card_le_card_Diff[of "{x, y}" "{0, 1, 2, 3 :: nat}"] card_insert_le_m1[of 2 "{y}" x] by simp
    then obtain p q where "p \<in> {0, 1, 2, 3} - {x, y}" "q \<in> {0, 1, 2, 3} - {x, y}" "p \<noteq> q"
      by (auto simp: card_le_Suc_iff numeral_2_eq_2)
    then show ?thesis by (intro exI[of _ p] exI[of _ q]) auto
  qed
  then obtain p q where pq: "p < 4" "q < 4" "p \<noteq> q" "p \<notin> {x, y}" "q \<notin> {x, y}" by blast
  have "\<not> in_use (kpages s1 ! p)" "\<not> in_use (kpages s1 ! q)" using xy(2) pq fr by auto
  then obtain s2 b where s2: "kmalloc 50 s1 = Inr (s2, b)"
    using kmalloc_returns[of 50 p q s1] pq xy(1) by auto
  have al: "alloc_all kmalloc [100, 50] ?h = Inr (s2, [(a, 100), (b, 50)])" using s1 s2 by simp
  have e: "heap_rep ?h (\<lambda>_. [])" using empty_heap_rep[of "free_pages 4"] by (simp add: free_pages_def)
  show ?thesis using kmalloc_objects_never_overlap[OF e al] al by (auto simp: ranges_apart_def)
qed

end
