(* ===== verification/Spaces.thy ===== *)
theory Spaces
  imports Paging
begin

text \<open>
  Copy on write, across \<^verbatim>\<open>copy_page\<close> and \<^verbatim>\<open>do_wp_page\<close> of arch/i386/page.c: after a copy and a write
  fault in it the two address spaces agree on every other page, and the copy has a frame of its
  own for the page it writes. The entry code \<^verbatim>\<open>page_fault\<close> of kernel/kernel.asm decides by the
  error code which handler runs.
\<close>

unbundle bit_operations_syntax

subsection \<open>The entry code\<close>

text \<open>Bit 0 of the error code: the page was present, so the fault is one of protection.\<close>

definition page_fault :: "bool \<Rightarrow> nat \<Rightarrow> u32 \<Rightarrow> u32 \<Rightarrow> vm \<Rightarrow> vm res" where
  "page_fault in_kernel dir error_code cr2 m =
     (if error_code AND 1 \<noteq> 0 then do_wp_page dir cr2 m else do_no_page in_kernel dir cr2 m)"

lemma page_fault_write: "bit error_code 0 \<Longrightarrow> page_fault in_kernel dir error_code a m = do_wp_page dir a m"
  by (simp add: page_fault_def and_one_eq bit_0 odd_iff_mod_2_eq_one)

subsection \<open>The tables of a copy\<close>

text \<open>One entry of the directory that is in use, and the rest.\<close>

lemma copy_tables_cons:
  assumes "copy_tables pd res (i # is) m = Inr m'" and "vm_ok m" and "tables_ok pd res (i # is) m" and "frames m pd i \<noteq> 0"
  obtains m3 f where "copy_tables pd res is m3 = Inr m'" and "vm_ok m3" and "tables_ok pd res is m3" and "\<not> used m f"
    and "used m3 f" and "frames m3 res = (frames m res)(i := entry f 7)" and "entry_frame (entry f 7) = f"
    and "frames m3 pd = frames m pd" and "\<And>g. used m g \<Longrightarrow> used m3 g"
proof -
  obtain m1 e m2 m3 where 1: "create_table (PG_P OR PG_RWW OR PG_USU) m = Inr (m1, e)"
      "wr_frame res i e m1 = Inr m2" "copy_entries (entry_frame (frames m2 pd i)) (entry_frame e) [0..<1024] m2 = Inr m3"
    and 2: "copy_tables pd res is m3 = Inr m'"
    using assms(1,4) by (auto simp: rbind_Inr_conv rd_frame_Inr_conv simp del: upt_Suc split: prod.splits)
  obtain f where F: "\<not> used m f" "used m3 f" "e = entry f 7" "entry_frame e = f"
      "frames m3 res = (frames m res)(i := entry f 7)"
      "\<And>g. g \<noteq> res \<Longrightarrow> g \<noteq> f \<Longrightarrow> g \<noteq> entry_frame (frames m pd i) \<Longrightarrow> frames m3 g = frames m g"
      "\<And>g. used m g \<Longrightarrow> used m3 g" "vm_ok m3"
    using copy_table_step[OF assms(2-4) 1] by blast
  have T: "used m pd" "used m res" "pd \<noteq> res" "entry_frame (frames m pd i) \<noteq> pd"
    using assms(3,4) by (auto simp: tables_ok_def)
  have pd: "frames m3 pd = frames m pd" using F(1) T by (intro F(6)) auto
  have "tables_ok pd res is m3" using assms(3) F(7) unfolding tables_ok_def pd by auto
  then show thesis using that[OF 2 F(8) _ F(1,2,5)] F(3,4,7) pd by simp
qed

lemma copy_tables_fresh:
  assumes "copy_tables pd res is m = Inr m'" and "vm_ok m" and "tables_ok pd res is m"
  shows "(\<forall>i \<in> set is. frames m pd i \<noteq> 0 \<longrightarrow>
      \<not> used m (entry_frame (frames m' res i)) \<and> used m' (entry_frame (frames m' res i))) \<and>
    (\<forall>i \<in> set is. \<forall>k \<in> set is. i \<noteq> k \<longrightarrow> frames m pd i \<noteq> 0 \<longrightarrow> frames m pd k \<noteq> 0 \<longrightarrow>
      entry_frame (frames m' res i) \<noteq> entry_frame (frames m' res k))"
  using assms
proof (induction "is" arbitrary: m)
  case (Cons i "is")
  show ?case
  proof (cases "frames m pd i = 0")
    case True
    then obtain m1 where 1: "wr_frame res i 0 m = Inr m1" and 2: "copy_tables pd res is m1 = Inr m'"
      using Cons.prems(1) by (auto simp: rbind_Inr_conv rd_frame_Inr_conv)
    have m1: "m1 = m\<lparr>frames := (frames m)(res := (frames m res)(i := 0))\<rparr>" using 1 by (simp add: wr_frame_Inr_conv)
    have pd: "frames m1 pd = frames m pd" using Cons.prems(3) by (simp add: m1 tables_ok_def)
    have ok: "tables_ok pd res is m1" "vm_ok m1"
      using Cons.prems(2,3) by (auto simp: tables_ok_def pd vm_ok_def) (auto simp: m1)
    note I = Cons.IH[OF 2 ok(2,1), unfolded pd]
    have "used m1 g = used m g" for g by (simp add: m1)
    then show ?thesis using I True by simp
  next
    case False
    obtain m3 f where 3: "copy_tables pd res is m3 = Inr m'" "vm_ok m3" "tables_ok pd res is m3"
      and f: "\<not> used m f" "used m3 f" "frames m3 res = (frames m res)(i := entry f 7)" "entry_frame (entry f 7) = f"
      and pd: "frames m3 pd = frames m pd" and u: "\<And>g. used m g \<Longrightarrow> used m3 g"
      using copy_tables_cons[OF Cons.prems False] by blast
    note T = copy_tables_Inr[OF 3]
    note I = Cons.IH[OF 3, unfolded pd]
    have i: "i \<notin> set is" using Cons.prems(3) by (simp add: tables_ok_def)
    have "frames m' res i = frames m3 res i" using T i by (elim conjE) blast
    then have e: "entry_frame (frames m' res i) = f" using f(3,4) by simp
    have uf: "used m' f" using T f(2) by (elim conjE) blast
    have A: "\<not> used m3 (entry_frame (frames m' res k)) \<and> used m' (entry_frame (frames m' res k))"
      if "k \<in> set is" "frames m pd k \<noteq> 0" for k using I that by (elim conjE) blast
    have B: "\<not> used m (entry_frame (frames m' res k)) \<and> entry_frame (frames m' res k) \<noteq> f"
      if "k \<in> set is" "frames m pd k \<noteq> 0" for k using A[OF that] u f(2) by metis
    have C: "entry_frame (frames m' res k) \<noteq> entry_frame (frames m' res l)"
      if "k \<in> set is" "l \<in> set is" "k \<noteq> l" "frames m pd k \<noteq> 0" "frames m pd l \<noteq> 0" for k l
      using I that by (elim conjE) blast
    show ?thesis
    proof (intro conjI ballI impI)
      fix k
      assume k: "k \<in> set (i # is)" "frames m pd k \<noteq> 0"
      show "\<not> used m (entry_frame (frames m' res k))" using k B f(1) e by (cases "k = i") simp_all
      show "used m' (entry_frame (frames m' res k))" using k A uf e by (cases "k = i") simp_all
      fix l
      assume l: "l \<in> set (i # is)" "frames m pd l \<noteq> 0" "k \<noteq> l"
      consider "k = i" "l \<in> set is" | "l = i" "k \<in> set is" | "k \<in> set is" "l \<in> set is" using k(1) l(1,3) by auto
      then show "entry_frame (frames m' res k) \<noteq> entry_frame (frames m' res l)"
      proof cases
        case 1
        then show ?thesis using B[of l] l(2) e by simp
      next
        case 2
        then show ?thesis using B[of k] k(2) e by simp
      next
        case 3
        then show ?thesis using C k(2) l(2,3) by simp
      qed
    qed
  qed
qed simp

subsection \<open>A whole copy\<close>

text \<open>The entries below the kernel's half, after the copy.\<close>

definition copyable :: "nat \<Rightarrow> nat \<Rightarrow> vm \<Rightarrow> bool" where
  "copyable pd res m \<longleftrightarrow> vm_ok m \<and> tables_ok pd res [0..<768] m \<and> used m PAGE_DIR_FRAME \<and> PAGE_DIR_FRAME \<noteq> res \<and>
     (\<forall>i < 768. frames m pd i \<noteq> 0 \<longrightarrow> bit (frames m pd i) 0 \<and> entry_frame (frames m pd i) \<noteq> PAGE_DIR_FRAME)"

text \<open>A frame that holds no table of the directory.\<close>

definition no_table :: "nat \<Rightarrow> vm \<Rightarrow> nat \<Rightarrow> bool" where
  "no_table pd m g \<longleftrightarrow> (\<forall>i < 768. frames m pd i \<noteq> 0 \<longrightarrow> g \<noteq> entry_frame (frames m pd i))"

lemma copy_page_tables:
  assumes "copy_page pd res m = Inr m'" and "copyable pd res m"
  shows "vm_ok m'" and "frames m' pd = frames m pd" and "used m g \<Longrightarrow> used m' g"
    and "used m g \<Longrightarrow> g \<noteq> res \<Longrightarrow> no_table pd m g \<Longrightarrow> frames m' g = frames m g"
    and "i < 768 \<Longrightarrow> frames m pd i = 0 \<Longrightarrow> frames m' res i = 0"
    and "i < 768 \<Longrightarrow> frames m pd i \<noteq> 0 \<Longrightarrow> \<not> used m (entry_frame (frames m' res i)) \<and> used m' (entry_frame (frames m' res i))"
    and "i < 768 \<Longrightarrow> k < 768 \<Longrightarrow> i \<noteq> k \<Longrightarrow> frames m pd i \<noteq> 0 \<Longrightarrow> frames m pd k \<noteq> 0 \<Longrightarrow>
      entry_frame (frames m' res i) \<noteq> entry_frame (frames m' res k)"
proof -
  have c: "vm_ok m" "tables_ok pd res [0..<768] m" "used m PAGE_DIR_FRAME" "PAGE_DIR_FRAME \<noteq> res"
    using assms(2) unfolding copyable_def by blast+
  obtain m1 where 1: "copy_tables pd res [0..<768] m = Inr m1" and 2: "copy_kernel res [768..<1024] m1 = Inr m'"
    using assms(1) unfolding copy_page_def by (rule rbindE)
  note T = copy_tables_Inr[OF 1 c(1,2), unfolded set_upt]
  note N = copy_tables_fresh[OF 1 c(1,2), unfolded set_upt]
  note k = copy_kernel_Inr[OF 2 c(4)[symmetric], unfolded set_upt]
  have K: "frames m' res i = frames m1 res i" if "i < 768" for i using k that by simp
  have K2: "g \<noteq> res \<Longrightarrow> frames m' g = frames m1 g" for g using k by simp
  have mm: "mem_map m' = mem_map m1" using k by simp
  have u: "used m' g = used m1 g" for g by (simp add: used_def mm)
  have pd: "used m pd" "pd \<noteq> res" "no_table pd m pd"
    using c(2) unfolding tables_ok_def set_upt no_table_def by auto
  show "vm_ok m'" using T by (elim conjE) (simp add: vm_ok_def mm)
  show used: "used m' g" if "used m g" for g using T that unfolding u by (elim conjE) blast
  show keep: "frames m' g = frames m g" if "used m g" "g \<noteq> res" "no_table pd m g" for g
  proof -
    have "frames m1 g = frames m g"
      using T that unfolding no_table_def by (elim conjE) (drule spec[of _ g], auto)
    then show ?thesis using K2[OF that(2)] by simp
  qed
  show "frames m' pd = frames m pd" by (rule keep[OF pd])
  show "frames m' res i = 0" if "i < 768" "frames m pd i = 0" for i
    using bspec[OF conjunct1[OF T], of i] that by (simp add: K)
  show "\<not> used m (entry_frame (frames m' res i)) \<and> used m' (entry_frame (frames m' res i))"
    if "i < 768" "frames m pd i \<noteq> 0" for i
    using bspec[OF conjunct1[OF N], of i] that by (simp add: K u)
  show "entry_frame (frames m' res i) \<noteq> entry_frame (frames m' res k)"
    if "i < 768" "k < 768" "i \<noteq> k" "frames m pd i \<noteq> 0" "frames m pd k \<noteq> 0" for i k
  proof -
    have "i \<in> {0..<768}" "k \<in> {0..<768}" using that by simp_all
    with N that(3-5) have "entry_frame (frames m1 res i) \<noteq> entry_frame (frames m1 res k)" by blast
    then show ?thesis using that(1,2) by (simp add: K)
  qed
qed

lemma copy_page_maps:
  assumes "copy_page pd res m = Inr m'" and "copyable pd res m" and "PDINDEX a < 768"
  shows "maps m' pd a = maps m pd a \<and> maps m' res a = maps m pd a \<and> \<not> writable m' pd a \<and> \<not> writable m' res a"
  using copy_page_shares[OF assms(1), of a] assms(2,3) unfolding copyable_def by blast

text \<open>A mapping is decided by the directory and one entry of one table.\<close>

lemma maps_cong:
  assumes "frames m' dir = frames m dir"
    and "frames m dir (PDINDEX a) \<noteq> 0 \<Longrightarrow>
      frames m' (entry_frame (frames m dir (PDINDEX a))) (PTINDEX a) = frames m (entry_frame (frames m dir (PDINDEX a))) (PTINDEX a)"
  shows "maps m' dir a = maps m dir a \<and> writable m' dir a = writable m dir a"
proof (cases "frames m dir (PDINDEX a) = 0")
  case False
  then show ?thesis using assms by (simp add: maps_def writable_def pte_at_def)
qed (use assms(1) in \<open>simp add: maps_def writable_def\<close>)

subsection \<open>Property\<close>

text \<open>
  C12. Copy on write: when a copied address space takes a write fault on a page that is counted more than once, the
  page gets a frame that no one used, with the content it had, writable in the copy. The original still maps the
  page to its old frame with its old content. Every other page below the kernel's half is still mapped to the same
  frame by both, and the original can write none of them without a fault of its own.
\<close>

theorem copy_on_write_isolates:
  assumes "copy_page pd res m = Inr m1" and "copyable pd res m" and "PDINDEX a < 768" and "maps m pd a = Some old"
    and "used m old" and "no_table pd m old" and "old \<noteq> pd" and "old \<noteq> res" and "pg_count (mem_map m1 ! old) \<noteq> 1"
    and "bit error_code 0" and "page_fault in_kernel res error_code a m1 = Inr m2"
  shows "\<exists>f. \<not> used m f \<and> maps m2 res a = Some f \<and> writable m2 res a \<and> frames m2 f = frames m old \<and>
    maps m2 pd a = Some old \<and> frames m2 old = frames m old \<and>
    (\<forall>b. PDINDEX b < 768 \<longrightarrow> maps m2 pd b = maps m pd b \<and> \<not> writable m2 pd b \<and>
      ((PDINDEX b, PTINDEX b) \<noteq> (PDINDEX a, PTINDEX a) \<longrightarrow> maps m2 res b = maps m pd b))"
proof -
  note C = copy_page_tables[OF assms(1,2)] and M = copy_page_maps[OF assms(1,2)]
  have t: "used m pd" "used m res" "pd \<noteq> res" "\<And>i. i < 768 \<Longrightarrow> frames m pd i \<noteq> 0 \<Longrightarrow> used m (entry_frame (frames m pd i))"
    using assms(2) unfolding copyable_def tables_ok_def set_upt by auto
  have a0: "frames m pd (PDINDEX a) \<noteq> 0" using assms(4) by (auto simp: maps_def split: if_splits)
  define pt where "pt = entry_frame (frames m1 res (PDINDEX a))"
  have pt: "\<not> used m pt" "used m1 pt" using C(6)[OF assms(3) a0] by (simp_all add: pt_def)
  have w: "do_wp_page res a m1 = Inr m2" using assms(11) unfolding page_fault_write[OF assms(10)] .
  have mo: "maps m1 res a = Some old" using M[OF assms(3)] assms(4) by simp
  have ne: "res \<noteq> pt" "old \<noteq> pt" "pd \<noteq> pt" using pt(1) t(1,2) assms(5) by auto
  obtain f where f: "maps m2 res a = Some f" "writable m2 res a" "frames m2 f = frames m1 old" "\<not> used m1 f" "frames m2 old = frames m1 old"
    and keep: "\<And>g i. g \<noteq> f \<Longrightarrow> g \<noteq> pt \<or> i \<noteq> PTINDEX a \<Longrightarrow> frames m2 g i = frames m1 g i"
    using do_wp_page_copies[OF C(1) w mo C(3)[OF t(2)] C(3)[OF assms(5)] pt(2)[unfolded pt_def] ne(1,2)[unfolded pt_def] assms(8)]
      assms(9) unfolding pt_def by auto
  have old: "frames m1 old = frames m old" by (rule C(4)[OF assms(5,8,6)])
  have nf: "g \<noteq> f" if "used m1 g" for g using that f(4) by auto
  have pd2: "frames m2 pd = frames m1 pd" using keep[OF nf[OF C(3)[OF t(1)]]] ne(3) by (intro ext) simp
  have res2: "frames m2 res = frames m1 res" using keep[OF nf[OF C(3)[OF t(2)]]] ne(1) by (intro ext) simp
  have pdb: "maps m2 pd b = maps m1 pd b \<and> writable m2 pd b = writable m1 pd b" if b: "PDINDEX b < 768" for b
  proof (rule maps_cong[OF pd2])
    assume "frames m1 pd (PDINDEX b) \<noteq> 0"
    then have "used m (entry_frame (frames m1 pd (PDINDEX b)))" using t(4)[OF b] by (simp add: C(2))
    then show "frames m2 (entry_frame (frames m1 pd (PDINDEX b))) (PTINDEX b) = frames m1 (entry_frame (frames m1 pd (PDINDEX b))) (PTINDEX b)"
      using pt(1) by (intro keep nf C(3)) auto
  qed
  have resb: "maps m2 res b = maps m1 res b" if b: "PDINDEX b < 768" "(PDINDEX b, PTINDEX b) \<noteq> (PDINDEX a, PTINDEX a)" for b
  proof (rule conjunct1[OF maps_cong[OF res2]])
    assume n: "frames m1 res (PDINDEX b) \<noteq> 0"
    then have z: "frames m pd (PDINDEX b) \<noteq> 0" using C(5)[OF b(1)] by auto
    have "entry_frame (frames m1 res (PDINDEX b)) \<noteq> pt \<or> PTINDEX b \<noteq> PTINDEX a"
      using C(7)[OF b(1) assms(3) _ z a0] b(2) by (cases "PDINDEX b = PDINDEX a") (auto simp: pt_def)
    then show "frames m2 (entry_frame (frames m1 res (PDINDEX b))) (PTINDEX b) = frames m1 (entry_frame (frames m1 res (PDINDEX b))) (PTINDEX b)"
      using C(6)[OF b(1) z] by (intro keep nf) auto
  qed
  have "\<not> used m f" using f(4) C(3) by blast
  then show ?thesis using f old pdb resb M assms(3,4) by (intro exI[of _ f]) simp
qed

text \<open>A write fault is handled while its tables lie in memory and a frame is free.\<close>

lemma do_wp_page_returns:
  assumes "dir < length (mem_map m)" and "entry_frame (frames m dir (PDINDEX a)) < length (mem_map m)"
    and "entry_frame (pte_at m dir a) < length (mem_map m)" and "x < length (mem_map m)" and "\<not> used m x"
  shows "\<exists>m'. do_wp_page dir a m = Inr m'"
proof -
  obtain m1 f where f: "alloc_frame m = Inr (m1, f)" using alloc_frame_free[OF assms(4,5)] by blast
  note A = alloc_frame_Inr[OF f]
  show ?thesis
    using assms A(1,5)
    by (simp add: do_wp_page_def Let_def rd_frame_def wp_reuse_def wp_copy_def wr_frame_def upd_page_def f pte_at_def[symmetric])
qed

theorem copy_on_write_isolates_witness:
  "\<exists>m1 m2 f. copy_page 2 6 (space_vm {5, 7}) = Inr m1 \<and> page_fault False 6 7 0 m1 = Inr m2 \<and>
     maps m2 6 0 = Some f \<and> writable m2 6 0 \<and> maps m2 2 0 = Some 4 \<and> f \<noteq> 4 \<and> \<not> writable m2 2 0"
proof -
  let ?m = "space_vm {5, 7}"
  have fr: "{5, 7 :: nat} \<subseteq> {7..<511} \<union> {5}" by simp
  note c = space_copyable[OF fr]
  obtain m1 x where m1: "copy_page 2 6 ?m = Inr m1" "x \<in> {5, 7}" "\<forall>g. used m1 g \<longleftrightarrow> g < 512 \<and> g \<notin> {5, 7} - {x}"
    "pg_count (mem_map m1 ! 4) = 2" "length (mem_map m1) = 512"
    using copy_page_space[OF _ fr] by auto
  have ok: "copyable 2 6 ?m" using c by (simp only: copyable_def) simp
  note T = copy_page_tables[OF m1(1) ok]
  have i: "PDINDEX 0 < 768" by (simp add: sample_index)
  have "frames ?m 2 (PDINDEX 0) \<noteq> 0" by (simp add: sample_index space_phys entry_3_4)
  note pt = T(6)[OF i this]
  have mp: "maps m1 6 0 = Some 4" using copy_page_maps[OF m1(1) ok i] by (simp add: space_maps)
  then have 4: "entry_frame (pte_at m1 6 0) = 4" by (auto simp: maps_def split: if_splits)
  have y: "12 - x < 512" "\<not> used m1 (12 - x)" using m1(2) by (auto simp: m1(3)[rule_format])
  have "entry_frame (frames m1 6 (PDINDEX 0)) < length (mem_map m1)" using pt by (simp add: used_def)
  then obtain m2 where "do_wp_page 6 0 m1 = Inr m2"
    using do_wp_page_returns[OF _ _ _ _ y(2), of 6 0] 4 y(1) by (auto simp: m1(5))
  moreover have b: "bit (7 :: u32) 0" by simp
  ultimately have m2: "page_fault False 6 7 0 m1 = Inr m2" by (simp add: page_fault_write)
  have n: "no_table 2 ?m 4" by (simp add: no_table_def space_phys entry_3_4)
  have u: "used ?m 4" by (simp add: space_used)
  have "pg_count (mem_map m1 ! 4) \<noteq> 1" using m1(4) by simp
  from copy_on_write_isolates[OF m1(1) ok i space_maps u n _ _ this b m2] obtain f where
    f: "\<not> used ?m f" "maps m2 6 0 = Some f" "writable m2 6 0" "maps m2 2 0 = Some 4" "\<not> writable m2 2 0"
    using i by auto
  have "f \<noteq> 4" using f(1) u by blast
  then show ?thesis using m1(1) m2 f(2-5) by blast
qed

end
