(* ===== verification/Lists.thy ===== *)
theory Lists
  imports Kmalloc Vfs
begin

text \<open>
  include/system/list.h and kernel/list.c: the linked lists of the kernel, in the memory that
  kmalloc hands out, and the search of a directory's children by name in fs/file_op.c.

  A list hangs off a head that lies inside another object and has no value of its own. An
  address is a number and 0 the null pointer. The lemmas show that the list of a head
  represents a HOL list, so that \<^verbatim>\<open>list_add\<close> after \<^verbatim>\<open>create_list\<close> conses: this is the
  list of children that Vfs works with.
\<close>

subsection \<open>Nodes\<close>

text \<open>\<^verbatim>\<open>struct list\<close>: three words.\<close>

definition LIST_SIZE :: u32 where "LIST_SIZE = 12"

definition l_prev :: "(nat \<Rightarrow> u8) \<Rightarrow> nat \<Rightarrow> nat" where "l_prev m p = rd32 m p"
definition list_entry :: "(nat \<Rightarrow> u8) \<Rightarrow> nat \<Rightarrow> nat" where "list_entry m p = rd32 m (p + 4)"
definition l_next :: "(nat \<Rightarrow> u8) \<Rightarrow> nat \<Rightarrow> nat" where "l_next m p = rd32 m (p + 8)"

definition create_list :: "nat \<Rightarrow> kheap \<Rightarrow> (kheap \<times> nat) res" where
  "create_list v st =
     rmap (\<lambda>(st', a). if a = 0 then (st', 0) else (st'\<lparr>mem := wr32 (mem st') (a + 4) v\<rparr>, a)) (kzmalloc LIST_SIZE st)"

definition list_add :: "nat \<Rightarrow> nat \<Rightarrow> (nat \<Rightarrow> u8) \<Rightarrow> nat \<Rightarrow> u8" where
  "list_add new head m =
     (if l_next m head = 0 then wr32 (wr32 m (head + 8) new) new head
      else let m1 = wr32 m (new + 8) (l_next m head);
               m2 = wr32 m1 (l_next m1 new) new;
               m3 = wr32 m2 new head
           in wr32 m3 (head + 8) new)"

definition del_list :: "nat \<Rightarrow> kheap \<Rightarrow> kheap res" where
  "del_list l st = kfree l LIST_SIZE st"

text \<open>The values that \<^verbatim>\<open>list_for_each\<close> visits from \<open>p\<close> on.\<close>

partial_function (option) visit :: "(nat \<Rightarrow> u8) \<Rightarrow> nat \<Rightarrow> nat list option" where
  "visit m p = (if p = 0 then Some [] else Option.bind (visit m (l_next m p)) (\<lambda>vs. Some (list_entry m p # vs)))"

definition list_for_each :: "(nat \<Rightarrow> u8) \<Rightarrow> nat \<Rightarrow> nat list res" where
  "list_for_each m head = terminates (visit m (l_next m head))"

subsection \<open>The list of a head\<close>

fun nodes :: "(nat \<Rightarrow> u8) \<Rightarrow> nat \<Rightarrow> nat \<Rightarrow> nat list \<Rightarrow> bool" where
  "nodes m q p [] = (p = 0)"
| "nodes m q p (n # ns) = (p = n \<and> n \<noteq> 0 \<and> l_prev m n = q \<and> nodes m n (l_next m n) ns)"

text \<open>
  The head lies in an object in use, and every node is the start of another one that holds
  three words.
\<close>

definition list_rep :: "kheap \<Rightarrow> (nat \<Rightarrow> nat list) \<Rightarrow> nat \<Rightarrow> nat list \<Rightarrow> nat list \<Rightarrow> bool" where
  "list_rep st F head ns vs \<longleftrightarrow>
     (\<exists>b s. (b, s) \<in> live st F \<and> b \<le> head \<and> head + 12 \<le> b + s \<and> b \<notin> set ns) \<and>
     (\<forall>n \<in> set ns. \<exists>s. (n, s) \<in> live st F \<and> 12 \<le> s) \<and> distinct ns \<and>
     nodes (mem st) head (l_next (mem st) head) ns \<and> map (list_entry (mem st)) ns = vs"

lemma wr32_byte: "c < a \<or> a + 4 \<le> c \<Longrightarrow> wr32 m a v c = m c"
  by (auto simp: wr32_def Let_def)

lemma rd32_cong: "(\<And>c. a \<le> c \<Longrightarrow> c < a + 4 \<Longrightarrow> m c = m' c) \<Longrightarrow> rd32 m a = rd32 m' a"
  by (simp add: rd32_def)

lemma rd32_bound: "rd32 m a < 4294967296"
  using unsigned_less[of "of_le32 (m a) (m (a + 1)) (m (a + 2)) (m (a + 3))"] by (simp add: rd32_def)

lemma nodes_cong:
  "(\<And>n. n \<in> set ns \<Longrightarrow> l_prev m n = l_prev m' n \<and> l_next m n = l_next m' n) \<Longrightarrow> nodes m q p ns = nodes m' q p ns"
  by (induction ns arbitrary: q p) auto

lemma nodes_visit: "nodes m q p ns \<Longrightarrow> visit m p = Some (map (list_entry m) ns)"
proof (induction ns arbitrary: q p)
  case Nil
  then show ?case by (subst visit.simps) simp
next
  case (Cons n ns)
  then have "visit m (l_next m n) = Some (map (list_entry m) ns)" "p = n" "n \<noteq> 0" by auto
  then show ?case by (subst visit.simps) simp
qed

lemma list_rep_for_each: "list_rep st F head ns vs \<Longrightarrow> list_for_each (mem st) head = Inr vs"
  by (auto simp: list_rep_def list_for_each_def dest: nodes_visit)

subsection \<open>Adding\<close>

text \<open>A new list: its node is a fresh object and no other object in use has changed.\<close>

lemma create_list_ok:
  assumes rep: "heap_rep st F" and v: "v < 4294967296" and c: "create_list v st = Inr (st1, a)"
  shows "\<exists>F' s. heap_rep st1 F' \<and> live st1 F' = insert (a, s) (live st F) \<and> 12 \<le> s \<and> (\<forall>t. (a, t) \<notin> live st F)
    \<and> l_prev (mem st1) a = 0 \<and> list_entry (mem st1) a = v \<and> l_next (mem st1) a = 0
    \<and> (\<forall>(b, t) \<in> live st F. \<forall>x. b \<le> x \<longrightarrow> x < b + t \<longrightarrow> mem st1 x = mem st x)"
proof -
  obtain st0 a' where k: "kmalloc LIST_SIZE st = Inr (st0, a')" and n: "unat LIST_SIZE = 12"
    using c by (auto simp: create_list_def kzmalloc_def rmap_Inr_conv LIST_SIZE_def split: if_splits)
  obtain F' i where i: "heap_rep st0 F'" "12 \<le> bucket_sizes ! i" "live st0 F' = insert (a', bucket_sizes ! i) (live st F)"
    "\<forall>t. (a', t) \<notin> live st F" using kmalloc_ok[OF rep k] n by auto
  have lv: "(a', bucket_sizes ! i) \<in> live st0 F'" using i(3) by simp
  have a0: "0 < a'" using live_in_page[OF i(1) lv] by blast
  let ?m = "wr32 (zero_mem (mem st0) a' 12) (a' + 4) v"
  have e: "a = a'" "st1 = st0\<lparr>mem := ?m\<rparr>"
    using c k a0 n by (auto simp: create_list_def kzmalloc_def)
  have out: "?m x = mem st0 x" if "x < a' \<or> a' + bucket_sizes ! i \<le> x" for x
    using that i(2) by (auto simp: wr32_byte zero_mem_def)
  note w = write_object[OF i(1) lv out]
  have z: "rd32 (zero_mem (mem st0) a' 12) x = 0" if "a' \<le> x" "x + 4 \<le> a' + 12" for x
    using that by (simp add: rd32_def zero_mem_def of_le32_def)
  have "mem st1 x = mem st x" if b: "(b, t) \<in> live st F" "b \<le> x" "x < b + t" for b t x
  proof -
    have "a' + bucket_sizes ! i \<le> b \<or> b + t \<le> a'"
      by (rule live_apart[OF i(1) lv]) (use b i(3,4) in auto)
    then have "mem st1 x = mem st0 x" using b by (auto simp: e intro: out)
    moreover obtain k where "k < length (kpages st)" "in_use (kpages st ! k)" "frame k \<le> b" "b + t \<le> frame k + 4096"
      using live_in_page[OF rep b(1)] by blast
    ultimately show ?thesis using kmalloc_frame[OF k, of _ x] b by auto
  qed
  moreover have "l_prev (mem st1) a = 0 \<and> list_entry (mem st1) a = v \<and> l_next (mem st1) a = 0"
    using v z by (simp add: e l_prev_def list_entry_def l_next_def rd32_wr32_same rd32_wr32_other)
  ultimately show ?thesis using w i e by (intro exI[of _ F'] exI[of _ "bucket_sizes ! i"]) auto
qed

text \<open>
  The words of the new node and the head, and the two words that change elsewhere. \<open>first\<close> is the
  node the head refers to, or 0.
\<close>

lemma list_add_words:
  assumes new: "new < 4294967296" "head < 4294967296" "new \<noteq> 0" and ap: "new + 12 \<le> head \<or> head + 12 \<le> new"
    and f: "first = l_next m head" "first \<noteq> 0 \<Longrightarrow> (first + 12 \<le> head \<or> head + 12 \<le> first) \<and> (first + 12 \<le> new \<or> new + 12 \<le> first)"
    and z: "l_next m new = 0"
  shows "l_next (list_add new head m) head = new" "l_prev (list_add new head m) new = head"
    "list_entry (list_add new head m) new = list_entry m new" "l_next (list_add new head m) new = first"
    "first \<noteq> 0 \<Longrightarrow> l_prev (list_add new head m) first = new"
    "(x < new \<or> new + 12 \<le> x) \<Longrightarrow> (x < head + 8 \<or> head + 12 \<le> x) \<Longrightarrow> (first = 0 \<or> x < first \<or> first + 4 \<le> x) \<Longrightarrow>
      list_add new head m x = m x"
proof -
  have b: "first < 4294967296" using rd32_bound by (simp add: f(1) l_next_def)
  note s = list_add_def Let_def l_next_def l_prev_def list_entry_def rd32_wr32_same rd32_wr32_other
  show "l_next (list_add new head m) head = new" "l_prev (list_add new head m) new = head"
    "list_entry (list_add new head m) new = list_entry m new" "l_next (list_add new head m) new = first"
    "first \<noteq> 0 \<Longrightarrow> l_prev (list_add new head m) first = new"
    using assms b by (auto simp: s)
  show "list_add new head m x = m x" if "x < new \<or> new + 12 \<le> x" "x < head + 8 \<or> head + 12 \<le> x"
    "first = 0 \<or> x < first \<or> first + 4 \<le> x"
    using that f(1) b by (auto simp: s wr32_byte)
qed


lemma rd32_cong12: "(\<And>x. n + k \<le> x \<Longrightarrow> x < n + 12 \<Longrightarrow> m x = m' x) \<Longrightarrow> k \<le> d \<Longrightarrow> d \<le> 8 \<Longrightarrow> rd32 m (n + d) = rd32 m' (n + d)"
  by (rule rd32_cong) simp

text \<open>The list after the new node is linked in.\<close>

lemma list_add_rep:
  assumes rep: "heap_rep st F" and lr: "list_rep st F head ns vs" and v: "v < 4294967296"
    and c: "create_list v st = Inr (st1, a)"
  defines "m2 \<equiv> list_add a head (mem st1)"
  shows "\<exists>F'. heap_rep (st1\<lparr>mem := m2\<rparr>) F' \<and> list_rep (st1\<lparr>mem := m2\<rparr>) F' head (a # ns) (v # vs)
    \<and> (\<forall>(b, t) \<in> live st F. \<forall>x. b \<le> x \<longrightarrow> x < b + t \<longrightarrow> b \<notin> set ns \<longrightarrow> \<not> (head + 8 \<le> x \<and> x < head + 12) \<longrightarrow> m2 x = mem st x)"
proof -
  obtain F' s where c': "heap_rep st1 F'" "live st1 F' = insert (a, s) (live st F)" "12 \<le> s" "\<forall>t. (a, t) \<notin> live st F"
    "list_entry (mem st1) a = v" "l_next (mem st1) a = 0"
    and old: "\<And>b t x. (b, t) \<in> live st F \<Longrightarrow> b \<le> x \<Longrightarrow> x < b + t \<Longrightarrow> mem st1 x = mem st x"
    using create_list_ok[OF rep v c] by blast
  obtain b0 s0 where b0: "(b0, s0) \<in> live st F" "b0 \<le> head" "head + 12 \<le> b0 + s0" "b0 \<notin> set ns"
    and nd: "\<And>n. n \<in> set ns \<Longrightarrow> \<exists>t. (n, t) \<in> live st F \<and> 12 \<le> t" and ds: "distinct ns"
    and nn: "nodes (mem st) head (l_next (mem st) head) ns" and vs: "map (list_entry (mem st)) ns = vs"
    using lr by (auto simp: list_rep_def)
  have a_new: "a + s \<le> b \<or> b + t \<le> a" if "(b, t) \<in> live st F" for b t
    by (rule live_apart[OF c'(1)]) (use that c'(2,4) in auto)
  have lim: "b \<noteq> 0 \<and> b + t \<le> 4294967296" if "(b, t) \<in> live st1 F'" for b t using live_in_page[OF c'(1) that] by blast
  have apart: "n + 12 \<le> k \<or> k + 12 \<le> n" if "n \<in> set ns" "k \<in> set ns" "n \<noteq> k" for n k
    using live_apart[OF rep, of n _ k] nd[OF that(1)] nd[OF that(2)] that(3) by fastforce
  have far: "n + 12 \<le> head \<or> head + 12 \<le> n" if "n \<in> set ns" for n
    using live_apart[OF rep b0(1), of n] nd[OF that] b0(2-4) that by fastforce
  have new: "n + 12 \<le> a \<or> a + 12 \<le> n" if "n \<in> set ns" for n using a_new nd[OF that] c'(3) by fastforce
  define f where "f = l_next (mem st1) head"
  have "l_next (mem st1) head = l_next (mem st) head"
    unfolding l_next_def by (rule rd32_cong) (use old b0 in auto)
  then have f: "nodes (mem st) head f ns" using nn by (simp add: f_def)
  then have hd: "f = (case ns of [] \<Rightarrow> 0 | n # _ \<Rightarrow> n)" by (cases ns) auto
  have fa: "(f + 12 \<le> head \<or> head + 12 \<le> f) \<and> (f + 12 \<le> a \<or> a + 12 \<le> f)" if "f \<noteq> 0"
    using that hd far new by (cases ns) auto
  have ah: "a + 12 \<le> head \<or> head + 12 \<le> a" using a_new[OF b0(1)] b0(2,3) c'(3) by auto
  have bnd: "a < 4294967296" "head < 4294967296" "a \<noteq> 0" using lim[of a s] lim[of b0 s0] b0 c'(2,3) by auto
  note w = list_add_words[OF bnd ah f_def fa c'(6), folded m2_def]
  have same: "m2 x = mem st x" if n: "n \<in> set ns" "n \<le> x" "x < n + 12" "n = f \<Longrightarrow> n + 4 \<le> x" for n x
  proof -
    obtain t where t: "(n, t) \<in> live st F" "12 \<le> t" using nd[OF n(1)] by blast
    have "f = 0 \<or> x < f \<or> f + 4 \<le> x" using n apart[OF n(1), of f] hd by (cases "n = f"; cases ns) auto
    then have "m2 x = mem st1 x" using w(6) far[OF n(1)] new[OF n(1)] n(2,3) by auto
    then show ?thesis using old[OF t(1)] t(2) n(2,3) by simp
  qed
  have val: "list_entry m2 n = list_entry (mem st) n" "l_next m2 n = l_next (mem st) n" if "n \<in> set ns" for n
    unfolding list_entry_def l_next_def by (rule rd32_cong12[of n 4]; use same[OF that] in simp)+
  have prv: "l_prev m2 n = l_prev (mem st) n" if "n \<in> set ns" "n \<noteq> f" for n
    unfolding l_prev_def by (rule rd32_cong) (use same[OF that(1)] that(2) in simp)
  have "nodes m2 a f ns"
  proof (cases ns)
    case (Cons n ns')
    have "nodes m2 n (l_next (mem st) n) ns'"
      by (subst nodes_cong[of _ _ "mem st"]) (use val prv Cons f ds hd in auto)
    then show ?thesis using f w(5) val(2)[of n] hd Cons by simp
  qed (use f in simp)
  then have "nodes m2 head (l_next m2 head) (a # ns)" using w(1,2,4) bnd by simp
  moreover have "map (list_entry m2) (a # ns) = v # vs" using w(3) c'(5) vs val(1) by auto
  moreover have "heap_rep (st1\<lparr>mem := m2\<rparr>) F' \<and> live (st1\<lparr>mem := m2\<rparr>) F' = live st1 F'"
  proof (rule write_objects[OF c'(1)])
    fix x assume o: "\<And>b t. (b, t) \<in> live st1 F' \<Longrightarrow> x < b \<or> b + t \<le> x"
    have "f = 0 \<or> x < f \<or> f + 4 \<le> x"
    proof (cases ns)
      case (Cons n ns')
      then show ?thesis using nd[of n] o[of n] hd c'(2) by fastforce
    qed (use hd in simp)
    moreover have "x < a \<or> a + 12 \<le> x" using o[of a s] c'(2,3) by auto
    moreover have "x < head + 8 \<or> head + 12 \<le> x" using o[of b0 s0] b0 c'(2) by auto
    ultimately show "m2 x = mem st1 x" by (intro w(6))
  qed
  moreover have "m2 x = mem st x" if b: "(b, t) \<in> live st F" "b \<le> x" "x < b + t" "b \<notin> set ns" "\<not> (head + 8 \<le> x \<and> x < head + 12)"
    for b t x
  proof -
    have "f = 0 \<or> x < f \<or> f + 4 \<le> x"
    proof (cases ns)
      case (Cons n ns')
      then show ?thesis using nd[of n] live_apart[OF rep b(1), of n] b hd by fastforce
    qed (use hd in simp)
    moreover have "x < a \<or> a + 12 \<le> x" using a_new[OF b(1)] b c'(3) by auto
    ultimately have "m2 x = mem st1 x" using b(5) by (intro w(6)) auto
    then show ?thesis using old b by simp
  qed
  moreover have "\<forall>n \<in> set (a # ns). \<exists>t. (n, t) \<in> live st1 F' \<and> 12 \<le> t" using nd c'(2,3) by auto
  moreover have "a \<notin> set ns" using c'(4) nd by blast
  moreover have "\<exists>b t. (b, t) \<in> live st1 F' \<and> b \<le> head \<and> head + 12 \<le> b + t \<and> b \<notin> set (a # ns)"
    using b0 c'(2,4) by (intro exI[of _ b0] exI[of _ s0]) auto
  ultimately show ?thesis using ds by (intro exI[of _ F'] conjI) (simp_all add: list_rep_def, blast)
qed


subsection \<open>Searching the children\<close>

text \<open>\<^verbatim>\<open>find_children_by_name\<close>: the first child whose whole name is the given one.\<close>

fun find_children_by_name :: "vfs \<Rightarrow> u8 list \<Rightarrow> nat list \<Rightarrow> nat option res" where
  "find_children_by_name st filename [] = Inr None"
| "find_children_by_name st filename (c # cs) =
     rbind (dent st (Some c)) (\<lambda>tmp.
     rbind (strcmp_loop filename (d_name tmp)) (\<lambda>r.
       if r = 0 then Inr (Some c) else find_children_by_name st filename cs))"

text \<open>It agrees with the search inside \<^verbatim>\<open>lookup\<close> on a name given by its length.\<close>

lemma find_children_by_name_eq:
  "find_children_by_name st (c @ [0]) cs = find_child st c (length c) cs"
  by (induction cs) (simp_all add: ld_bytes_def cong: if_cong)

text \<open>An allocation takes at most two pages.\<close>

lemma take_page_pages:
  "take_page st = Inr (st', p) \<Longrightarrow> length (kpages st') = length (kpages st) \<and>
    (\<exists>i. \<forall>k. k \<noteq> i \<longrightarrow> kpages st' ! k = kpages st ! k)"
  by (auto simp: take_page_def rmap_Inr_conv dest!: get_free_page_Inr) blast

lemma new_bucket_pages:
  assumes "new_bucket i sz st = Inr st'"
  shows "length (kpages st') = length (kpages st) \<and>
    (\<exists>x y. \<forall>k. k \<noteq> x \<longrightarrow> k \<noteq> y \<longrightarrow> kpages st' ! k = kpages st ! k)"
proof -
  obtain st1 where st1: "(if free_bucket_desc st = [] then init_bucket_desc st else Inr st) = Inr st1"
    using assms by (auto simp: new_bucket_def rbind_Inr_conv)
  have 1: "length (kpages st1) = length (kpages st) \<and> (\<exists>x. \<forall>k. k \<noteq> x \<longrightarrow> kpages st1 ! k = kpages st ! k)"
    using st1 by (auto simp: init_bucket_desc_def rmap_Inr_conv split: if_splits dest: take_page_pages)
  obtain fds st2 cp where st2: "take_page (st1\<lparr>free_bucket_desc := fds\<rparr>) = Inr (st2, cp)" "kpages st' = kpages st2"
    using assms st1 by (auto simp: new_bucket_def rmap_Inr_conv split: list.splits)
  show ?thesis using 1 take_page_pages[OF st2(1)] st2(2) by auto metis
qed

lemma kmalloc_pages:
  assumes "kmalloc len st = Inr (st', a)"
  shows "length (kpages st') = length (kpages st) \<and>
    (\<exists>x y. \<forall>k. k \<noteq> x \<longrightarrow> k \<noteq> y \<longrightarrow> kpages st' ! k = kpages st ! k)"
  using assms new_bucket_pages
  by (auto simp: kmalloc_def take_object_def Let_def rmap_Inr_conv split: option.splits)

subsection \<open>Properties of the lists\<close>

text \<open>The list of a head inside a fresh object is empty.\<close>

lemma fresh_list_empty:
  assumes "heap_rep st F" and "kzmalloc n st = Inr (st1, b)" and "k + 12 \<le> unat n"
  shows "\<exists>F'. heap_rep st1 F' \<and> list_rep st1 F' (b + k) [] []"
proof -
  obtain st0 where k: "kmalloc n st = Inr (st0, b)" and st1: "b \<noteq> 0 \<Longrightarrow> st1 = st0\<lparr>mem := zero_mem (mem st0) b (unat n)\<rparr>"
    using assms(2) by (auto simp: kzmalloc_def rmap_Inr_conv)
  obtain F' i where i: "heap_rep st0 F'" "unat n \<le> bucket_sizes ! i" "(b, bucket_sizes ! i) \<in> live st0 F'"
    using kmalloc_ok[OF assms(1) k] by auto
  have "0 < b" using live_in_page[OF i(1,3)] by blast
  note e = st1[OF this[THEN gr_implies_not0]]
  have "heap_rep st1 F' \<and> live st1 F' = live st0 F'"
    unfolding e by (rule write_object[OF i(1,3)]) (use i(2) in \<open>auto simp: zero_mem_def\<close>)
  moreover have "l_next (mem st1) (b + k) = 0"
    using assms(3) by (simp add: e l_next_def rd32_def zero_mem_def of_le32_def)
  moreover have "b + k + 12 \<le> b + bucket_sizes ! i" using assms(3) i(2) by simp
  moreover have "b \<le> b + k" by simp
  moreover have "\<exists>c t. (c, t) \<in> live st0 F' \<and> c \<le> b + k \<and> b + k + 12 \<le> c + t \<and> c \<notin> set []"
    using i(3) calculation(3,4) by (intro exI[of _ b] exI[of _ "bucket_sizes ! i"]) simp
  ultimately show ?thesis by (intro exI[of _ F']) (simp add: list_rep_def)
qed

text \<open>\<^verbatim>\<open>del_list\<close> gives a node back to the allocator.\<close>

lemma create_then_del_list:
  assumes "heap_rep st F" and "v < 4294967296" and "create_list v st = Inr (st1, a)"
  shows "\<exists>st2 F2. del_list a st1 = Inr st2 \<and> heap_rep st2 F2 \<and> live st2 F2 = live st F"
proof -
  obtain F' s where c: "heap_rep st1 F'" "live st1 F' = insert (a, s) (live st F)" "12 \<le> s" "\<forall>t. (a, t) \<notin> live st F"
    using create_list_ok[OF assms] by blast
  then have "live st1 F' - {(a, s)} = live st F" by auto
  then show ?thesis using kfree_ok[OF c(1), of a s LIST_SIZE] c by (auto simp: del_list_def LIST_SIZE_def)
qed

text \<open>
  C8. Lists: while two page frames are free \<^verbatim>\<open>create_list\<close> returns a fresh node, and after \<^verbatim>\<open>list_add\<close> the
  list of the head represents the old list with the new value in front: \<^verbatim>\<open>list_for_each\<close> visits the new
  value and then the old ones. The heap stays well-formed, and of the objects in use that are not nodes of
  the list no byte changes but those of the head's \<^verbatim>\<open>next\<close>.
\<close>

theorem list_add_refines_cons:
  assumes "heap_rep st F" and "list_rep st F head ns vs" and "v < 4294967296"
    and "p \<noteq> q" and "p < length (kpages st)" and "q < length (kpages st)"
    and "\<not> in_use (kpages st ! p)" and "\<not> in_use (kpages st ! q)"
  shows "\<exists>st1 a m F'. create_list v st = Inr (st1, a) \<and> m = list_add a head (mem st1) \<and> heap_rep (st1\<lparr>mem := m\<rparr>) F'
    \<and> list_rep (st1\<lparr>mem := m\<rparr>) F' head (a # ns) (v # vs) \<and> list_for_each m head = Inr (v # vs)
    \<and> (\<forall>(b, t) \<in> live st F. \<forall>x. b \<le> x \<longrightarrow> x < b + t \<longrightarrow> b \<notin> set ns \<longrightarrow> \<not> (head + 8 \<le> x \<and> x < head + 12) \<longrightarrow> m x = mem st x)"
proof -
  obtain r where "kmalloc LIST_SIZE st = Inr r"
    using kmalloc_returns[of LIST_SIZE p q st] assms(4-8) by (auto simp: LIST_SIZE_def)
  then obtain st1 a where c: "create_list v st = Inr (st1, a)"
    by (cases r) (fastforce simp: create_list_def kzmalloc_def)
  obtain F' where F': "heap_rep (st1\<lparr>mem := list_add a head (mem st1)\<rparr>) F'"
    "list_rep (st1\<lparr>mem := list_add a head (mem st1)\<rparr>) F' head (a # ns) (v # vs)"
    "\<forall>(b, t) \<in> live st F. \<forall>x. b \<le> x \<longrightarrow> x < b + t \<longrightarrow> b \<notin> set ns \<longrightarrow> \<not> (head + 8 \<le> x \<and> x < head + 12) \<longrightarrow>
      list_add a head (mem st1) x = mem st x"
    using list_add_rep[OF assms(1-3) c] by blast
  have "list_for_each (list_add a head (mem st1)) head = Inr (v # vs)" using list_rep_for_each[OF F'(2)] by simp
  then show ?thesis using c F' by blast
qed

text \<open>A directory entry, of 296 bytes with its list of children at 268, and a first child.\<close>

theorem list_add_refines_cons_witness:
  "\<exists>st b st1 a. kzmalloc 296 (empty_heap (free_pages 4)) = Inr (st, b) \<and> create_list 0xC0401000 st = Inr (st1, a)
     \<and> list_for_each (list_add a (b + 268) (mem st1)) (b + 268) = Inr [0xC0401000]"
proof -
  let ?h = "empty_heap (free_pages 4)"
  have h: "heap_rep ?h (\<lambda>_. [])" using empty_heap_rep[of "free_pages 4"] by (simp add: free_pages_def)
  have pg: "k < 4 \<Longrightarrow> \<not> in_use (kpages ?h ! k)" "length (kpages ?h) = 4" for k
    by (simp_all add: empty_heap_def free_pages_def in_use_def)
  obtain st0 b where k: "kmalloc 296 ?h = Inr (st0, b)"
    using kmalloc_returns[of 296 0 1 ?h] pg by auto
  then obtain st where st: "kzmalloc 296 ?h = Inr (st, b)" "kpages st = kpages st0" by (auto simp: kzmalloc_def)
  obtain F where F: "heap_rep st F" "list_rep st F (b + 268) [] []" using fresh_list_empty[OF h st(1), of 268] by auto
  obtain x y where "length (kpages st) = 4" "\<forall>j. j \<noteq> x \<longrightarrow> j \<noteq> y \<longrightarrow> kpages st ! j = kpages ?h ! j"
    using kmalloc_pages[OF k] st(2) pg(2) by auto
  then have xy: "length (kpages st) = 4" "\<And>j. j < 4 \<Longrightarrow> j \<noteq> x \<Longrightarrow> j \<noteq> y \<Longrightarrow> \<not> in_use (kpages st ! j)"
    using pg(1) by auto
  have "\<exists>p q. p \<noteq> q \<and> p < 4 \<and> q < (4 :: nat) \<and> p \<noteq> x \<and> p \<noteq> y \<and> q \<noteq> x \<and> q \<noteq> y" by presburger
  then obtain p q where pq: "p \<noteq> q" "p < 4" "q < 4" "\<not> in_use (kpages st ! p)" "\<not> in_use (kpages st ! q)"
    using xy(2) by blast
  show ?thesis
    using list_add_refines_cons[OF F, where v = "0xC0401000" and p = p and q = q] pq xy(1) st(1) by auto
qed

end
