(* ===== verification/Vga.thy ===== *)
theory Vga
  imports Prelude
begin

text \<open>
  arch/i386/vga.c: a table of register values for a graphics mode and the routine that writes it to
  the display controller. The accesses to the ports are a log in their order. The lemma says which
  register gets which byte of the table, and that the values for the graphics and the attribute
  controller are not written at all.
\<close>

subsection \<open>Operations\<close>

datatype port_access = Outb u8 u16 | In32 u16     \<comment> \<open>value and port; a 32-bit read of a port\<close>

definition VGA_AC_INDEX :: u16 where "VGA_AC_INDEX = 0x3C0"
definition VGA_MISC_WRITE :: u16 where "VGA_MISC_WRITE = 0x3C2"
definition VGA_SEQ_INDEX :: u16 where "VGA_SEQ_INDEX = 0x3C4"
definition VGA_SEQ_DATA :: u16 where "VGA_SEQ_DATA = 0x3C5"
definition VGA_CRTC_INDEX :: u16 where "VGA_CRTC_INDEX = 0x3D4"
definition VGA_CRTC_DATA :: u16 where "VGA_CRTC_DATA = 0x3D5"
definition VGA_INSTAT_READ :: u16 where "VGA_INSTAT_READ = 0x3DA"

text \<open>A loop over the registers of one unit: select, then write the next byte of the table.\<close>

fun vga_unit :: "u16 \<Rightarrow> u16 \<Rightarrow> nat list \<Rightarrow> u8 list \<Rightarrow> port_access list \<Rightarrow> (u8 list \<times> port_access list) res" where
  "vga_unit ip dp [] regs lg = Inr (regs, lg)"
| "vga_unit ip dp (i # js) [] lg = Inl OutOfBounds"
| "vga_unit ip dp (i # js) (r # regs) lg = vga_unit ip dp js regs (lg @ [Outb (of_nat i) ip, Outb r dp])"

definition vga_write_reg :: "u8 list \<Rightarrow> port_access list \<Rightarrow> port_access list res" where
  "vga_write_reg regs lg =
     (case regs of
        [] \<Rightarrow> Inl OutOfBounds
      | misc # regs1 \<Rightarrow>
          rbind (vga_unit VGA_SEQ_INDEX VGA_SEQ_DATA [0..<5] regs1 (lg @ [Outb misc VGA_MISC_WRITE])) (\<lambda>(regs2, lg2).
          rmap (\<lambda>(regs3, lg3). lg3 @ [In32 VGA_INSTAT_READ, Outb 0x20 VGA_AC_INDEX])
            (vga_unit VGA_CRTC_INDEX VGA_CRTC_DATA [0..<25] regs2 lg2)))"

definition g_640x480x16 :: "u8 list" where
  "g_640x480x16 =
     [0xE7,
      0x03, 0x01, 0x03, 0x00, 0x02,
      0x6B, 0x59, 0x5A, 0x82, 0x60, 0x8D, 0x0B, 0x3E,
      0x00, 0x47, 0x06, 0x07, 0x00, 0x00, 0x00, 0x00,
      0xEA, 0x0C, 0xDF, 0x2D, 0x08, 0xE7, 0x04, 0xA3,
      0xFF,
      0x00, 0x00, 0x00, 0x00, 0x00, 0x10, 0x0E, 0x00,
      0xFF,
      0x00, 0x01, 0x02, 0x03, 0x04, 0x05, 0x14, 0x07,
      0x38, 0x39, 0x3A, 0x3B, 0x3C, 0x3D, 0x3E, 0x3F,
      0x0C, 0x00, 0x0F, 0x08, 0x00]"

definition vga_set_mode :: "port_access list \<Rightarrow> port_access list res" where
  "vga_set_mode lg = vga_write_reg g_640x480x16 lg"

subsection \<open>What is written\<close>

definition unit_writes :: "u16 \<Rightarrow> u16 \<Rightarrow> nat \<Rightarrow> u8 list \<Rightarrow> port_access list" where
  "unit_writes ip dp n vs = concat (map (\<lambda>i. [Outb (of_nat i) ip, Outb (vs ! i) dp]) [0..<n])"

lemma vga_unit_writes:
  "k + length vs = n \<Longrightarrow> vga_unit ip dp [k..<n] (vs @ rest) lg =
    Inr (rest, lg @ concat (map (\<lambda>i. [Outb (of_nat i) ip, Outb (vs ! (i - k)) dp]) [k..<n]))"
proof (induction vs arbitrary: k lg)
  case (Cons v vs)
  then have k: "[k..<n] = k # [Suc k..<n]" by (simp add: upt_conv_Cons)
  have s: "map (\<lambda>i. [Outb (of_nat i) ip, Outb (vs ! (i - Suc k)) dp]) [Suc k..<n] =
      map (\<lambda>i. [Outb (of_nat i) ip, Outb ((v # vs) ! (i - k)) dp]) [Suc k..<n]"
    by (auto simp: nth_Cons' Suc_diff_Suc dest!: Suc_le_D)
  show ?case using Cons.IH[of "Suc k" "lg @ [Outb (of_nat k) ip, Outb v dp]"] Cons.prems by (simp add: k s)
qed simp

text \<open>
  Of a table of 31 bytes and more, the first goes to the miscellaneous register, five to the sequencer and
  25 to the display controller; what follows is never read.
\<close>

lemma vga_write_reg_writes:
  assumes "length sq = 5" and "length cr = 25"
  shows "vga_write_reg (misc # sq @ cr @ rest) lg = Inr (lg @ [Outb misc VGA_MISC_WRITE] @ unit_writes VGA_SEQ_INDEX VGA_SEQ_DATA 5 sq @
    unit_writes VGA_CRTC_INDEX VGA_CRTC_DATA 25 cr @ [In32 VGA_INSTAT_READ, Outb 0x20 VGA_AC_INDEX])"
  using vga_unit_writes[of 0 sq 5 VGA_SEQ_INDEX VGA_SEQ_DATA "cr @ rest" "lg @ [Outb misc VGA_MISC_WRITE]"]
    vga_unit_writes[of 0 cr 25 VGA_CRTC_INDEX VGA_CRTC_DATA rest] assms
  by (simp add: vga_write_reg_def unit_writes_def del: upt_Suc upt_rec_numeral)

text \<open>So setting the mode does not depend on the last 30 bytes of its table.\<close>

lemma vga_set_mode_ignores_tail: "vga_set_mode lg = vga_write_reg (take 31 g_640x480x16 @ rest) lg"
proof -
  have g: "g_640x480x16 = hd g_640x480x16 # take 5 (drop 1 g_640x480x16) @ take 25 (drop 6 g_640x480x16) @ drop 31 g_640x480x16"
    "take 31 g_640x480x16 @ rest = hd g_640x480x16 # take 5 (drop 1 g_640x480x16) @ take 25 (drop 6 g_640x480x16) @ rest"
    by (simp_all add: g_640x480x16_def)
  have l: "length (take 5 (drop 1 g_640x480x16)) = 5" "length (take 25 (drop 6 g_640x480x16)) = 25"
    by (simp_all add: g_640x480x16_def)
  show ?thesis unfolding vga_set_mode_def by (subst g(1), subst g(2)) (simp only: vga_write_reg_writes[OF l])
qed

end
