(* ===== verification/KeyInput.thy ===== *)
theory KeyInput
  imports Keyboard
begin

text \<open>
  The states that the keyboard and its terminals reach: \<^verbatim>\<open>init_tty\<close> of kernel/tty.c, then
  \<^verbatim>\<open>keyboard_init\<close> of drivers/i386/keyboard.c, then interrupts of the keyboard and writes to the
  terminals in any order. The lemmas show what all these states have in common: the ring of scan codes
  is empty between two interrupts, the consoles are in order, and the heads of the input buffers are
  the dangling pointers that \<^verbatim>\<open>tty_create\<close> left in them.
\<close>

unbundle bit_operations_syntax

subsection \<open>Reachable states\<close>

inductive tty_reachable :: "tty_state \<Rightarrow> bool" where
  start: "length junk = TTY_IN_BYTES \<Longrightarrow> tty_reachable (init_tty junk st)"
| written: "tty_reachable st \<Longrightarrow> tty_write i buf l st = Inr (r, st') \<Longrightarrow> tty_reachable st'"

inductive kb_reachable :: "controller \<Rightarrow> kb_state \<Rightarrow> bool" for dev :: controller where
  start: "tty_reachable (kb_tty kb) \<Longrightarrow> length (kb_buf kb) = KB_IN_BYTES \<Longrightarrow> keyboard_init dev kb = Inr kb' \<Longrightarrow>
    kb_reachable dev kb'"
| interrupt: "kb_reachable dev kb \<Longrightarrow> keyboard_handler dev kb = Inr kb' \<Longrightarrow> kb_reachable dev kb'"
| written: "kb_reachable dev kb \<Longrightarrow> tty_write i buf l (kb_tty kb) = Inr (r, st') \<Longrightarrow> kb_reachable dev (kb\<lparr>kb_tty := st'\<rparr>)"

subsection \<open>Consoles\<close>

text \<open>The window of a console is scrolled by whole lines.\<close>

definition aligned :: "nat \<Rightarrow> console \<Rightarrow> bool" where
  "aligned k c \<longleftrightarrow> console_ok k c \<and> (\<exists>j. unat (current_start_addr c) = k * 5461 + 80 * j)"

lemma aligned_down:
  assumes "aligned k c" and "current_start_addr c + SCREEN_SIZE < original_addr c + v_mem_limit c"
  shows "aligned k (c\<lparr>current_start_addr := current_start_addr c + SCREEN_WIDTH\<rparr>)"
proof -
  have ok: "console_ok k c" using assms(1) by (simp add: aligned_def)
  obtain j where j: "unat (current_start_addr c) = k * 5461 + 80 * j" using assms(1) by (auto simp: aligned_def)
  have u: "unat (current_start_addr c + SCREEN_SIZE) = unat (current_start_addr c) + 2000"
    "unat (original_addr c + v_mem_limit c) = k * 5461 + 5461"
    "unat (current_start_addr c + SCREEN_WIDTH) = unat (current_start_addr c) + 80"
    using ok by (simp_all add: console_ok_def cells_def unat_plus_32)
  then have "unat (current_start_addr c + SCREEN_WIDTH) = k * 5461 + 80 * Suc j" using j by simp
  moreover have "unat (current_start_addr c + SCREEN_WIDTH) \<in> cells k"
    using assms(2) u ok by (simp add: word_less_nat_alt console_ok_def cells_def)
  ultimately show ?thesis using ok unfolding aligned_def console_ok_def by (auto intro: exI[of _ "Suc j"])
qed

lemma aligned_up:
  assumes "aligned k c" and "original_addr c < current_start_addr c"
  shows "aligned k (c\<lparr>current_start_addr := current_start_addr c - SCREEN_WIDTH\<rparr>)"
proof -
  have ok: "console_ok k c" using assms(1) by (simp add: aligned_def)
  obtain j where j: "unat (current_start_addr c) = k * 5461 + 80 * j" using assms(1) by (auto simp: aligned_def)
  then have "0 < j" using assms(2) ok by (cases j) (simp_all add: console_ok_def word_less_nat_alt)
  then have "unat (current_start_addr c - SCREEN_WIDTH) = k * 5461 + 80 * (j - 1)" using j by (cases j) (simp_all add: unat_minus_32)
  moreover from this have "unat (current_start_addr c - SCREEN_WIDTH) \<in> cells k"
    using j ok by (cases j) (simp_all add: console_ok_def cells_def)
  ultimately show ?thesis using ok unfolding aligned_def console_ok_def by auto
qed

lemma aligned_scrolled: "aligned k c \<Longrightarrow> aligned k (scrolled d c)"
  using aligned_down[of k c] aligned_up[of k c] by (cases d) (simp_all add: scrolled_def)

lemma aligned_cursor: "aligned k c \<Longrightarrow> console_ok k (c\<lparr>cursor := p\<rparr>) \<Longrightarrow> aligned k (c\<lparr>cursor := p\<rparr>)"
  by (simp add: aligned_def)

lemma scroll_loop_aligned: "scroll_loop i st = Some st' \<Longrightarrow> i < length (tty_table st) \<Longrightarrow> aligned k (con i st) \<Longrightarrow> aligned k (con i st')"
proof (induction rule: scroll_loop.raw_induct[rotated, consumes 1])
  case (1 loop i st st')
  then show ?case by (auto split: if_split_asm) (metis aligned_scrolled scroll_screen_state(1,3))
qed

lemma console_put_start:
  "console_put i ch st = Inr st' \<Longrightarrow> i < length (tty_table st) \<Longrightarrow> current_start_addr (con i st') = current_start_addr (con i st)"
  unfolding console_put_def Let_def
  by (auto split: if_split_asm simp: rbind_Inr_conv poke_def put_console_def put_tty_def con_def)

lemma console_out_char_aligned:
  assumes "console_out_char i ch st = Inr st'" and "i < length (tty_table st)" and "aligned i (con i st)"
  shows "aligned i (con i st')"
proof -
  have ok: "console_ok i (con i st)" using assms(3) by (simp add: aligned_def)
  obtain st1 where s1: "console_put i ch st = Inr st1" "console_ok i (con i st1)" "length (tty_table st1) = length (tty_table st)"
    using console_put_ok[OF assms(2) ok] by blast
  then have "aligned i (con i st1)" using console_put_start[OF s1(1) assms(2)] assms(3) by (simp add: aligned_def)
  then show ?thesis
    using assms(1,2) s1 scroll_loop_aligned[of i st1] by (auto simp: console_out_char_def rmap_Inr_conv terminates_Inr_conv)
qed

lemma out_chars_aligned:
  "out_chars i buf n st = Inr st' \<Longrightarrow> i < length (tty_table st) \<Longrightarrow> aligned i (con i st) \<Longrightarrow> aligned i (con i st')"
proof (induction i buf n st rule: out_chars.induct)
  case (3 i ch buf n st)
  then obtain st1 where s1: "console_out_char i ch st = Inr st1" "out_chars i buf n st1 = Inr st'" by (auto simp: rbind_Inr_conv)
  have "length (tty_table st1) = length (tty_table st)"
    using console_out_char_only[OF s1(1)] by (auto simp: only_console_def)
  then show ?case using 3 s1 console_out_char_aligned[OF s1(1)] by simp
qed simp_all

subsection \<open>Terminals\<close>

text \<open>Three terminals with their consoles in order, and input buffers that nothing was ever stored in.\<close>

definition no_input :: "tty \<Rightarrow> bool" where
  "no_input t \<longleftrightarrow> length (in_buff t) = TTY_IN_BYTES \<and> inbuf_head t = OfLocal 0 \<and> inbuf_count t = 0"

definition ttys_idle :: "tty_state \<Rightarrow> bool" where
  "ttys_idle st \<longleftrightarrow> length (tty_table st) = TTY_NUM \<and> (\<forall>i < TTY_NUM. aligned i (con i st) \<and> no_input (tty_table st ! i))"

lemma ttys_idle_console:
  assumes "ttys_idle st" and "i < TTY_NUM" and "only_console i st st'" and "aligned i (con i st')"
  shows "ttys_idle st'"
proof -
  obtain c where c: "tty_table st' = (tty_table st)[i := (tty_table st ! i)\<lparr>console := c\<rparr>]"
    using assms(3) by (auto simp: only_console_def)
  have "con j st' = con j st \<and> tty_table st' ! j = tty_table st ! j" if "j \<noteq> i" for j
    using that by (simp add: con_def c)
  moreover have "no_input (tty_table st' ! i)" using assms(1,2) by (simp add: c ttys_idle_def no_input_def)
  ultimately show ?thesis using assms(1,4) c unfolding ttys_idle_def by (metis length_list_update)
qed

lemma tty_write_idle:
  assumes "tty_write i buf l st = Inr (r, st')" and "ttys_idle st"
  shows "ttys_idle st'"
proof -
  have i: "i < TTY_NUM" "i < length (tty_table st)" "out_chars i buf (unat l) st = Inr st'"
    using assms by (auto simp: tty_write_def ttys_idle_def rmap_Inr_conv split: if_splits)
  then show ?thesis
    using assms(2) out_chars_aligned[OF i(3,2)] tty_write_only[OF assms(1)]
    by (intro ttys_idle_console[OF assms(2) i(1)]) (auto simp: ttys_idle_def)
qed

lemma all_ttys: "(\<forall>i < TTY_NUM. P i) \<longleftrightarrow> P 0 \<and> P 1 \<and> P 2"
  by (auto simp: TTY_NUM_def less_Suc_eq eval_nat_numeral)

lemma tty_init_idle: "length junk = TTY_IN_BYTES \<Longrightarrow> ttys_idle (init_tty junk st)"
proof -
  have "(0x8000 div 2 div 3 :: u32) = 5461" by simp
  moreover assume "length junk = TTY_IN_BYTES"
  ultimately show ?thesis
    by (simp add: ttys_idle_def all_ttys)
      (simp add: init_tty_def upt_rec con_def tty_create_def aligned_def console_ok_def cells_def no_input_def Let_def TTY_NUM_def)
qed

lemma tty_reachable_idle: "tty_reachable st \<Longrightarrow> ttys_idle st"
  by (induction rule: tty_reachable.induct) (auto intro: tty_init_idle tty_write_idle)

lemma clear_cells_table: "clear_cells is st = Inr st' \<Longrightarrow> tty_table st' = tty_table st"
  by (induction "is" arbitrary: st) (auto simp: rbind_Inr_conv dest!: only_console_poke)

lemma clear_screen_idle:
  assumes "clear_screen i st = Inr st'" and "ttys_idle st" and "i < TTY_NUM"
  shows "ttys_idle st'"
proof -
  obtain st1 where s1: "clear_cells [unat (original_addr (con i st))..<unat (v_mem_limit (con i st) div 2)] st = Inr st1"
    and s': "tty_table st' = tty_table (put_console i (\<lambda>c. c\<lparr>current_start_addr := original_addr c, cursor := original_addr c\<rparr>) st1)"
    using assms(1) by (auto simp: clear_screen_def Let_def rmap_Inr_conv)
  have t: "tty_table st1 = tty_table st" by (rule clear_cells_table[OF s1])
  then have "con i st' = (con i st)\<lparr>current_start_addr := original_addr (con i st), cursor := original_addr (con i st)\<rparr>"
    using assms(2,3) s' by (simp add: con_def put_console_def put_tty_def ttys_idle_def)
  then have "aligned i (con i st')"
    using assms(2,3) by (auto simp: ttys_idle_def aligned_def console_ok_def cells_def)
  moreover have "only_console i st st'"
    using s' t by (auto simp: only_console_def put_console_def put_tty_def)
  ultimately show ?thesis using assms(2,3) by (rule_tac ttys_idle_console)
qed

text \<open>What a key does when it returns: a store is not among it.\<close>

lemma handle_tty_idle:
  assumes "handle_tty 0 content st = Inr st'" and "ttys_idle st"
  shows "ttys_idle st'"
proof -
  have z: "0 < TTY_NUM" "0 < length (tty_table st)" using assms(2) by (simp_all add: TTY_NUM_def ttys_idle_def)
  have sc: "ttys_idle (scroll_screen 0 d st)" for d
    using assms(2) z by (intro ttys_idle_console[OF assms(2) z(1) scroll_screen_only]) (simp add: aligned_scrolled ttys_idle_def)
  have wr: "inbuf_head (tty_table st1 ! 0) = OfLocal 0 \<and> inbuf_count (tty_table st1 ! 0) = 0"
    if "tty_write 0 [key] 1 st = Inr (r, st1)" for key r st1
    using tty_write_idle[OF that assms(2)] z(1) by (simp add: ttys_idle_def no_input_def)
  show ?thesis
    using assms(1) clear_screen_idle[OF _ assms(2) z(1)] sc assms(2)
    unfolding handle_tty_def Let_def
    by (auto split: if_split_asm simp: rbind_Inr_conv rmap_Inr_conv store_in_def TTY_IN_BYTES_def dest: wr)
qed

subsection \<open>The ring between interrupts\<close>

definition same_queue :: "kb_state \<Rightarrow> kb_state \<Rightarrow> bool" where
  "same_queue kb kb' \<longleftrightarrow> kb_buf kb' = kb_buf kb \<and> kb_head kb' = kb_head kb \<and> kb_tail kb' = kb_tail kb \<and>
     kb_count kb' = kb_count kb \<and> kb_tty kb' = kb_tty kb"

lemma same_queue_refl [simp]: "same_queue kb kb"
  by (simp add: same_queue_def)

lemma same_queue_trans: "same_queue a b \<Longrightarrow> same_queue b c \<Longrightarrow> same_queue a c"
  by (simp add: same_queue_def)

lemma same_queue_ready: "same_queue kb kb' \<Longrightarrow> kb_ready kb' = kb_ready kb"
  by (simp add: same_queue_def kb_ready_def)

lemma kb_wait_same: "kb_wait dev kb = Some kb' \<Longrightarrow> same_queue kb kb'"
proof (induction rule: kb_wait.raw_induct[rotated, consumes 1])
  case (1 loop dev kb kb')
  then show ?case by (fastforce simp: kb_inb_def same_queue_def split: if_split_asm)
qed

lemma kb_ack_same: "kb_ack dev kb = Some kb' \<Longrightarrow> same_queue kb kb'"
proof (induction rule: kb_ack.raw_induct[rotated, consumes 1])
  case (1 loop dev kb kb')
  then show ?case by (fastforce simp: kb_inb_def same_queue_def split: if_split_asm)
qed

lemma send_byte_same:
  assumes "send_byte dev v kb = Inr kb'"
  shows "same_queue kb kb'"
proof -
  obtain kb1 where "kb_wait dev kb = Some kb1" "kb_ack dev (kb_outb v KB_DATA kb1) = Some kb'"
    using assms by (auto simp: send_byte_def rbind_Inr_conv terminates_Inr_conv)
  then show ?thesis using kb_wait_same kb_ack_same by (fastforce simp: same_queue_def kb_outb_def)
qed

lemma set_leds_same: "set_leds dev kb = Inr kb' \<Longrightarrow> same_queue kb kb'"
  by (auto simp: set_leds_def Let_def rbind_Inr_conv intro: same_queue_trans send_byte_same)

lemma modifier_same: "modifier dev key mk0 kb = Inr kb' \<Longrightarrow> same_queue kb kb'"
  unfolding modifier_def
  by (auto split: if_split_asm dest!: set_leds_same simp: same_queue_def)

lemma keyboard_init_ready_state:
  assumes "keyboard_init dev kb = Inr kb'" and "length (kb_buf kb) = KB_IN_BYTES"
  shows "kb_ready kb'" and "kb_tty kb' = kb_tty kb"
  using assms set_leds_same[of dev _ kb'] by (auto simp: keyboard_init_def same_queue_def kb_ready_def KB_IN_BYTES_def)

text \<open>An interrupt that returns leaves the ring empty, and the terminals as a key left them, if it was one.\<close>

lemma press:
  "(case m of True \<Rightarrow> x | False \<Rightarrow> y) = (if m then x else y)"
  by (cases m) simp_all

lemma read_key_consumed:
  assumes "parse_scan q 0 None = (kc, sc, 0, None)" and "kb_count kc = 0" and "read_key dev i q 0 None = Inr (kb', done, key, mk)"
  shows "(kb_tty kb' = kb_tty kc \<or> (\<exists>c. handle_tty i c (kb_tty kc) = Inr (kb_tty kb'))) \<and> kb_count kb' = 0 \<and>
    (kb_ready kc \<longrightarrow> kb_ready kb')"
proof -
  define m where "m = (sc AND FLAG_BREAK = 0)"
  define col where "col = map_column kc (unat (sc AND 0x7F) * MAP_COLS)"
  define k where "k = keymap ! (unat (sc AND 0x7F) * MAP_COLS + col)"
  let ?c = "\<lambda>kb2. case pad_key (num_lock kb2) k of (key3, pad) \<Rightarrow> key3 OR flags kb2 OR (if pad then FLAG_PAD else 0)"
  have e: "read_key dev i q 0 None = rbind (modifier dev k m (kc\<lparr>column := col\<rparr>)) (\<lambda>kb2.
      rbind (if m then rmap (\<lambda>t. (kb2\<lparr>kb_tty := t\<rparr>, ?c kb2)) (handle_tty i (?c kb2) (kb_tty kb2)) else Inr (kb2, k))
        (\<lambda>(kb3, key). Inr (if key = 0 then (pop_buf kb3, True, key, Some m) else (kb3, False, key, Some m))))"
    unfolding read_key_def assms(1) prod.case Let_def m_def[symmetric] col_def[symmetric] k_def[symmetric]
    by (cases "modifier dev k m (kc\<lparr>column := col\<rparr>)") (simp_all add: PAUSEBREAK_def PRINTSCREEN_def press split: prod.split)
  obtain kb2 where kb2: "modifier dev k m (kc\<lparr>column := col\<rparr>) = Inr kb2"
    and r: "rbind (if m then rmap (\<lambda>t. (kb2\<lparr>kb_tty := t\<rparr>, ?c kb2)) (handle_tty i (?c kb2) (kb_tty kb2)) else Inr (kb2, k))
        (\<lambda>(kb3, key). Inr (if key = 0 then (pop_buf kb3, True, key, Some m) else (kb3, False, key, Some m))) = Inr (kb', done, key, mk)"
    using assms(3) unfolding e by (rule rbindE) (rule that)
  have s: "same_queue kc kb2" using modifier_same[OF kb2] by (simp add: same_queue_def)
  then have "kb_count (kb2\<lparr>kb_tty := t\<rparr>) = 0" "kb_ready kc \<longrightarrow> kb_ready (kb2\<lparr>kb_tty := t\<rparr>)" "kb_tty kb2 = kb_tty kc"
      "kb_count kb2 = 0" "kb_ready kc \<longrightarrow> kb_ready kb2" for t
    using assms(2) by (auto simp: same_queue_def kb_ready_def)
  then show ?thesis using r
    by (auto simp: rbind_Inr_conv rmap_Inr_conv split: if_split_asm)
qed

lemma keyboard_handler_keeps:
  assumes "keyboard_handler dev kb = Inr kb'" and "kb_ready kb"
  shows "kb_ready kb' \<and> (kb_tty kb' = kb_tty kb \<or> (\<exists>c. handle_tty 0 c (kb_tty kb) = Inr (kb_tty kb')))"
proof -
  define sc where "sc = dev (kb_reads kb) KB_DATA"
  let ?q = "queued sc kb" and ?c = "(consumed sc kb)\<lparr>code_with_E0 := False\<rparr>"
  have h: "keyboard_handler dev kb = keyboard_read dev 0 ?q" by (rule handler_queued[OF assms(2)]) (simp add: sc_def)
  have rc: "kb_ready ?c" "kb_count ?c = 0" "kb_tty ?c = kb_tty kb"
    using kb_ready_consumed[OF assms(2), of sc] by (simp_all add: kb_ready_def consumed_def)
  show ?thesis
  proof (cases "sc = 0xE0")
    case True
    then show ?thesis
      using handler_prefix[OF assms(2), of dev] assms(1) kb_ready_consumed[OF assms(2), of sc]
      by (auto simp: sc_def kb_ready_def consumed_def)
  next
    case False
    note t = queued_tail[OF assms(2), where sc = sc]
    have p: "parse_scan ?q 0 None = (?c, sc, 0, None)"
    proof (cases "sc = 0xE1")
      case True
      have "(pop_buf ^^ 7) (?q\<lparr>code_with_E0 := False\<rparr>) = ?c"
        using t(3) rc(2) by (simp add: numeral_eq_Suc)
      then show ?thesis using t True by (simp add: parse_scan_def)
    next
      case False
      then show ?thesis using t \<open>sc \<noteq> 0xE0\<close> by (simp add: parse_scan_def)
    qed
    have q: "kb_count ?q > 0" by (simp add: queued_def)
    show ?thesis
    proof (cases "read_key dev 0 ?q 0 None")
      case (Inl e)
      then show ?thesis using read_one_fault[OF q] assms(1) h by simp
    next
      case (Inr r)
      then obtain kb1 dn key mk where r: "read_key dev 0 ?q 0 None = Inr (kb1, dn, key, mk)" by (cases r) auto
      note k = read_key_consumed[OF p rc(2) r]
      then have "kb' = kb1" using read_one[OF q r] assms(1) h by simp
      then show ?thesis using k rc by simp
    qed
  qed
qed

lemma kb_reachable_idle: "kb_reachable dev kb \<Longrightarrow> kb_ready kb \<and> ttys_idle (kb_tty kb)"
proof (induction rule: kb_reachable.induct)
  case (start kb kb')
  then show ?case using keyboard_init_ready_state[OF start(3,2)] tty_reachable_idle by simp
next
  case (interrupt kb kb')
  then show ?case using keyboard_handler_keeps[of dev kb kb'] handle_tty_idle by auto
next
  case (written kb i buf l r st')
  then show ?case using tty_write_idle by (auto simp: kb_ready_def)
qed

subsection \<open>Property\<close>

text \<open>The same state, had \<^verbatim>\<open>tty_create\<close> left the head of the first terminal in its own buffer, at \<open>h\<close>.\<close>

definition mended :: "nat \<Rightarrow> kb_state \<Rightarrow> kb_state" where
  "mended h kb = kb\<lparr>kb_tty := put_tty 0 (\<lambda>t. t\<lparr>inbuf_head := Own h\<rparr>) (kb_tty kb)\<rparr>"

lemma handler_printable:
  assumes "kb_ready kb" and "dev (kb_reads kb) KB_DATA = sc" and "sc < 0x80"
    and "plain_key sc kb = n" and "n < 0x80" and "\<not> (ctrl_l kb \<and> n = 108)"
    and "0 < length (tty_table (kb_tty kb))" and "console_ok 0 (con 0 (kb_tty kb))" and "inbuf_count (tty_table (kb_tty kb) ! 0) = 0"
  shows "\<exists>st1 c. tty_write 0 [ucast n] 1 (kb_tty kb) = Inr (1, st1) \<and>
    tty_table st1 = (tty_table (kb_tty kb))[0 := (tty_table (kb_tty kb) ! 0)\<lparr>console := c\<rparr>] \<and>
    keyboard_handler dev kb = rmap (\<lambda>t'. (consumed sc kb)\<lparr>code_with_E0 := False, column := plain_column sc kb,
        kb_tty := st1\<lparr>tty_table := (tty_table st1)[0 := t']\<rparr>\<rparr>) (store_in n (tty_table st1 ! 0))"
proof -
  have "\<not> is_modifier n" using assms(5) by (auto simp: is_modifier_def key_defs)
  then have h: "keyboard_handler dev kb =
     rmap (\<lambda>t. (consumed sc kb)\<lparr>code_with_E0 := False, column := plain_column sc kb, kb_tty := t\<rparr>)
       (handle_tty 0 (key_content kb n) (kb_tty kb))"
    using handler_plain[of kb dev sc] assms(1-4) by simp
  have "sint (inbuf_count (tty_table (kb_tty kb) ! 0)) < int TTY_IN_BYTES" using assms(9) by (simp add: TTY_IN_BYTES_def)
  then obtain st1 c where "tty_write 0 [ucast n] 1 (kb_tty kb) = Inr (1, st1)"
    "tty_table st1 = (tty_table (kb_tty kb))[0 := (tty_table (kb_tty kb) ! 0)\<lparr>console := c\<rparr>]"
    "handle_tty 0 (key_content kb n) (kb_tty kb) =
       rmap (\<lambda>t'. st1\<lparr>tty_table := (tty_table st1)[0 := t']\<rparr>) (store_in n (tty_table st1 ! 0))"
    using handle_printable[OF assms(5-8)] by blast
  then show ?thesis using h by (intro exI[of _ st1] exI[of _ c]) (cases "store_in n (tty_table st1 ! 0)"; simp)
qed

text \<open>
  C36. Keyboard input is never stored. In every state that the program reaches, after any interrupts and any writes to
  the terminals, no terminal has taken a character, and the press of a printable key (a make code without prefix for
  which the key map gives, in the column that the shift keys and Caps Lock choose, a character other than the l of
  Ctrl-l) is decoded and echoed to the console, and then stores through a pointer into a variable that is gone, the
  head that \<^verbatim>\<open>tty_create\<close> set up. Nothing else is missing: with the head in the terminal's own buffer, the same press
  returns, with the ring empty and the modifiers unchanged, and leaves the character on the console and at the head of
  the input buffer, which moves on to the next slot, the first one after the last.
\<close>

theorem key_presses_are_never_stored:
  assumes "kb_reachable dev kb" and "dev (kb_reads kb) KB_DATA = sc" and "sc < 0x80"
    and "plain_key sc kb = n" and "n < 0x80" and "\<not> (ctrl_l kb \<and> n = 108)"
  shows "(\<forall>t \<in> set (tty_table (kb_tty kb)). inbuf_count t = 0) \<and>
    (\<exists>st1. tty_write 0 [ucast n] 1 (kb_tty kb) = Inr (1, st1)) \<and> keyboard_handler dev kb = Inl Dangling \<and>
    (\<forall>h < TTY_IN_BYTES. \<exists>kb' st1. keyboard_handler dev (mended h kb) = Inr kb' \<and> kb_ready kb' \<and> flags kb' = flags kb \<and>
       tty_write 0 [ucast n] 1 (kb_tty (mended h kb)) = Inr (1, st1) \<and>
       kb_tty kb' = st1\<lparr>tty_table := (tty_table st1)[0 := (tty_table st1 ! 0)
          \<lparr>in_buff := (in_buff (tty_table (kb_tty kb) ! 0))[h := n],
           inbuf_head := Own (if h + 1 = TTY_IN_BYTES then 0 else h + 1), inbuf_count := 1\<rparr>]\<rparr>)"
proof -
  have r: "kb_ready kb" and i: "ttys_idle (kb_tty kb)" using kb_reachable_idle[OF assms(1)] by auto
  have t: "0 < length (tty_table (kb_tty kb))" "console_ok 0 (con 0 (kb_tty kb))" "no_input (tty_table (kb_tty kb) ! 0)"
    using i by (simp_all add: ttys_idle_def TTY_NUM_def aligned_def)
  have c0: "inbuf_count (tty_table (kb_tty kb) ! 0) = 0" using t(3) by (simp add: no_input_def)
  have all: "\<forall>t \<in> set (tty_table (kb_tty kb)). inbuf_count t = 0"
    using i by (auto simp: ttys_idle_def no_input_def in_set_conv_nth)
  obtain st1 where s: "tty_write 0 [ucast n] 1 (kb_tty kb) = Inr (1, st1)" "keyboard_handler dev kb = Inl Dangling"
    using handler_printable[where dev = dev, OF r assms(2-6) t(1,2) c0] t(1,3) by (auto simp: store_in_def no_input_def)
  have "\<exists>kb' st1. keyboard_handler dev (mended h kb) = Inr kb' \<and> kb_ready kb' \<and> flags kb' = flags kb \<and>
       tty_write 0 [ucast n] 1 (kb_tty (mended h kb)) = Inr (1, st1) \<and>
       kb_tty kb' = st1\<lparr>tty_table := (tty_table st1)[0 := (tty_table st1 ! 0)
          \<lparr>in_buff := (in_buff (tty_table (kb_tty kb) ! 0))[h := n],
           inbuf_head := Own (if h + 1 = TTY_IN_BYTES then 0 else h + 1), inbuf_count := 1\<rparr>]\<rparr>" if h: "h < TTY_IN_BYTES" for h
  proof -
    let ?m = "mended h kb"
    have m: "kb_ready ?m" "dev (kb_reads ?m) KB_DATA = sc" "plain_key sc ?m = n" "\<not> (ctrl_l ?m \<and> n = 108)"
      "0 < length (tty_table (kb_tty ?m))" "console_ok 0 (con 0 (kb_tty ?m))" "inbuf_count (tty_table (kb_tty ?m) ! 0) = 0"
      "flags ?m = flags kb" "tty_table (kb_tty ?m) ! 0 = (tty_table (kb_tty kb) ! 0)\<lparr>inbuf_head := Own h\<rparr>"
      using r assms(2,4,6) t(1,2) c0
      by (simp_all add: mended_def kb_ready_def plain_key_def plain_column_def map_column_def put_tty_def con_def flags_def)
    obtain st1 c where s: "tty_write 0 [ucast n] 1 (kb_tty ?m) = Inr (1, st1)"
      "tty_table st1 = (tty_table (kb_tty ?m))[0 := (tty_table (kb_tty ?m) ! 0)\<lparr>console := c\<rparr>]"
      "keyboard_handler dev ?m = rmap (\<lambda>t'. (consumed sc ?m)\<lparr>code_with_E0 := False, column := plain_column sc ?m,
        kb_tty := st1\<lparr>tty_table := (tty_table st1)[0 := t']\<rparr>\<rparr>) (store_in n (tty_table st1 ! 0))"
      using handler_printable[where dev = dev, OF m(1,2) assms(3) m(3) assms(5) m(4-7)] by blast
    then show ?thesis
      using h t(3) m(5,7,9) kb_ready_consumed[OF m(1), of sc] m(8)
      by (auto simp: store_in_def no_input_def arr_set_def)
  qed
  then show ?thesis using all s by blast
qed

text \<open>A controller that is ready, acknowledges, and then sends the scan code 0x1E: the letter a, right after the start.\<close>

definition sample_controller :: controller where
  "sample_controller n p = (if n = 4 then 0x1E else if p = KB_DATA then KB_ACK else 0)"

lemma send_byte_ready:
  assumes "dev (kb_reads kb) KB_CMD = 0" and "dev (Suc (kb_reads kb)) KB_DATA = KB_ACK"
  shows "send_byte dev v kb = Inr (kb\<lparr>kb_reads := Suc (Suc (kb_reads kb)), kb_out := kb_out kb @ [(v, KB_DATA)]\<rparr>)"
proof -
  have "kb_wait dev kb = Some (kb\<lparr>kb_reads := Suc (kb_reads kb)\<rparr>)"
    using assms(1) by (subst kb_wait.simps) (simp add: kb_inb_def)
  moreover have "kb_ack dev (kb_outb v KB_DATA (kb\<lparr>kb_reads := Suc (kb_reads kb)\<rparr>)) =
      Some (kb\<lparr>kb_reads := Suc (Suc (kb_reads kb)), kb_out := kb_out kb @ [(v, KB_DATA)]\<rparr>)"
    using assms(2) by (subst kb_ack.simps) (simp add: kb_inb_def kb_outb_def)
  ultimately show ?thesis by (simp add: send_byte_def)
qed

lemma sample_start:
  "\<exists>kb. keyboard_init sample_controller idle_kb = Inr kb \<and> kb_reads kb = 4 \<and> plain_key 0x1E kb = 97 \<and> \<not> ctrl_l kb"
proof -
  have d: "sample_controller 0 KB_CMD = 0" "sample_controller (Suc 0) KB_DATA = KB_ACK"
    "sample_controller (Suc (Suc 0)) KB_CMD = 0" "sample_controller (Suc (Suc (Suc 0))) KB_DATA = KB_ACK"
    by (simp_all add: sample_controller_def KB_CMD_def KB_DATA_def)
  have "plain_key 0x1E kb = 97" if "\<not> shift_l kb" "\<not> shift_r kb" "\<not> caps_lock kb" for kb
    using that by (simp add: plain_key_def plain_column_def map_column_def MAP_COLS_def) (simp add: keymap_def)
  then show ?thesis using d by (simp add: keyboard_init_def set_leds_def send_byte_ready idle_kb_def)
qed

theorem key_presses_are_never_stored_witness:
  "\<exists>kb. kb_reachable sample_controller kb \<and> keyboard_handler sample_controller kb = Inl Dangling \<and>
     (\<exists>kb'. keyboard_handler sample_controller (mended 255 kb) = Inr kb' \<and> inbuf_head (tty_table (kb_tty kb') ! 0) = Own 0)"
proof -
  obtain kb where kb: "keyboard_init sample_controller idle_kb = Inr kb" "kb_reads kb = 4" "plain_key 0x1E kb = 97" "\<not> ctrl_l kb"
    using sample_start by blast
  have "tty_reachable (kb_tty idle_kb)" unfolding idle_kb_def three_ttys_def by (simp add: tty_reachable.start TTY_IN_BYTES_def)
  then have r: "kb_reachable sample_controller kb" by (rule kb_reachable.start) (use kb(1) in \<open>simp_all add: idle_kb_def KB_IN_BYTES_def\<close>)
  have d: "sample_controller (kb_reads kb) KB_DATA = 0x1E" by (simp add: sample_controller_def kb(2))
  have h: "(255 :: nat) < TTY_IN_BYTES" by (simp add: TTY_IN_BYTES_def)
  have n: "(0x1E :: u8) < 0x80" "(97 :: u32) < 0x80" "\<not> (ctrl_l kb \<and> (97 :: u32) = 108)" by simp_all
  note w = key_presses_are_never_stored[OF r d n(1) kb(3) n(2,3)]
  obtain kb' st1 where m: "keyboard_handler sample_controller (mended 255 kb) = Inr kb'"
    "tty_write 0 [ucast (97 :: u32)] 1 (kb_tty (mended 255 kb)) = Inr (1, st1)"
    "kb_tty kb' = st1\<lparr>tty_table := (tty_table st1)[0 := (tty_table st1 ! 0)
          \<lparr>in_buff := (in_buff (tty_table (kb_tty kb) ! 0))[255 := 97],
           inbuf_head := Own (if 255 + 1 = TTY_IN_BYTES then 0 else 255 + 1), inbuf_count := 1\<rparr>]\<rparr>"
    using w h by blast
  obtain c where "tty_table st1 = (tty_table (kb_tty (mended 255 kb)))[0 := (tty_table (kb_tty (mended 255 kb)) ! 0)\<lparr>console := c\<rparr>]"
    using tty_write_only[OF m(2)] by (auto simp: only_console_def)
  then have "length (tty_table st1) = TTY_NUM" using kb_reachable_idle[OF r] by (simp add: mended_def put_tty_def ttys_idle_def)
  then have "0 < length (tty_table st1)" by (simp add: TTY_NUM_def)
  then have "inbuf_head (tty_table (kb_tty kb') ! 0) = Own 0" using m(3) by (simp add: TTY_IN_BYTES_def)
  then show ?thesis using r w m(1) by blast
qed

end
