(* ===== verification/Sched.thy ===== *)
theory Sched
  imports Threads
begin

text \<open>
  The threads as a state machine. A state is reached from the one the kernel starts with, where
  no thread exists, by the operations of kernel/thread.c, kernel/schedule.c and kernel/kernel.c
  that change the threads. The invariant, shown by rule induction, says that the threads form one
  ring in the order of their creation, numbered from 0, each with a descriptor table of its own.
\<close>

subsection \<open>The steps\<close>

inductive kstep :: "threads \<Rightarrow> threads \<Rightarrow> bool" where
  create: "thread_create name handle fl st = Inr (st', a) \<Longrightarrow> kstep st st'"
| fork: "sys_fork restart st = Inr (st', r) \<Longrightarrow> kstep st st'"
| fork_net: "init1_fork handle_net st = Inr (st', r) \<Longrightarrow> kstep st st'"
| first_space: "init_fork st = Inr st' \<Longrightarrow> kstep st st'"
| switch: "schedule saved st = Inr (st', r) \<Longrightarrow> kstep st st'"
| restart: "kstep st (thread_int st)"

text \<open>The globals of kernel/thread.c before the first thread; memory and files are arbitrary.\<close>

definition no_threads :: "vm \<Rightarrow> vfs \<Rightarrow> threads" where
  "no_threads m fs = \<lparr>thread_heap = [], files_heap = [], thread_table = None, current_thread = None, pid_count = 0,
     th_vm = m, th_vfs = fs\<rparr>"

inductive reachable :: "threads \<Rightarrow> bool" where
  start: "reachable (no_threads m fs)"
| step: "reachable st \<Longrightarrow> kstep st st' \<Longrightarrow> reachable st'"

inductive_cases kstepE: "kstep st st'"

subsection \<open>The invariant\<close>

text \<open>What the invariant reads of the threads.\<close>

definition links :: "thread list \<Rightarrow> (nat option \<times> nat option \<times> u32 \<times> nat option) list" where
  "links hp = map (\<lambda>t. (th_next t, th_prev t, th_pid t, th_files t)) hp"

definition threads_ok :: "threads \<Rightarrow> bool" where
  "threads_ok st \<longleftrightarrow>
     (let n = length (thread_heap st) in
      ring st [0..<n] \<and> length (files_heap st) = n \<and> pid_count st = of_nat n \<and>
      (\<forall>a < n. th_pid (thread_heap st ! a) = of_nat a \<and> th_files (thread_heap st ! a) = Some a) \<and>
      (case current_thread st of None \<Rightarrow> n = 0 | Some c \<Rightarrow> c < n))"

lemma links_nth:
  assumes "links hp = links hp'"
  shows "length hp = length hp'" and "a < length hp \<Longrightarrow> th_next (hp ! a) = th_next (hp' ! a)"
    and "a < length hp \<Longrightarrow> th_prev (hp ! a) = th_prev (hp' ! a)"
    and "a < length hp \<Longrightarrow> th_pid (hp ! a) = th_pid (hp' ! a)"
    and "a < length hp \<Longrightarrow> th_files (hp ! a) = th_files (hp' ! a)"
proof -
  show l: "length hp = length hp'" using arg_cong[OF assms, of length] by (simp add: links_def)
  fix a
  assume "a < length hp"
  then have "a < length hp'" using l by simp
  moreover have "links hp ! a = links hp' ! a" by (simp only: assms)
  moreover note \<open>a < length hp\<close>
  ultimately show "th_next (hp ! a) = th_next (hp' ! a)" "th_prev (hp ! a) = th_prev (hp' ! a)"
    "th_pid (hp ! a) = th_pid (hp' ! a)" "th_files (hp ! a) = th_files (hp' ! a)"
    by (simp_all add: links_def)
qed

lemma ring_links:
  assumes r: "ring st xs" and l: "links (thread_heap st') = links (thread_heap st)" "thread_table st' = thread_table st"
  shows "ring st' xs"
proof -
  note n = links_nth[OF l(1)]
  have b: "b \<in> set xs \<Longrightarrow> b < length (thread_heap st)" for b using r by (simp add: ring_def)
  have "linked (thread_heap st') p" if p: "p \<in> set (zip xs (rotate1 xs))" for p
  proof -
    obtain x y where xy: "p = (x, y)" by fastforce
    then have "x < length (thread_heap st)" "y < length (thread_heap st)"
      using b set_zip_leftD[of x y xs] set_zip_rightD[of x y xs "rotate1 xs"] p by auto
    then show ?thesis using r p n by (auto simp: ring_def linked_def xy)
  qed
  then show ?thesis using r n(1) l(2) by (auto simp: ring_def)
qed

text \<open>An operation that only changes other fields keeps the invariant.\<close>

lemma threads_ok_links:
  assumes ok: "threads_ok st" and l: "links (thread_heap st') = links (thread_heap st)" "thread_table st' = thread_table st"
    and s: "length (files_heap st') = length (files_heap st)" "pid_count st' = pid_count st"
    and c: "case current_thread st' of None \<Rightarrow> current_thread st = None | Some c \<Rightarrow> c < length (thread_heap st)"
  shows "threads_ok st'"
proof -
  note n = links_nth[OF l(1)]
  have "ring st' [0..<length (thread_heap st')]" unfolding n(1)
    by (rule ring_links[OF _ l]) (use ok in \<open>simp add: threads_ok_def Let_def\<close>)
  then show ?thesis using ok n s c by (auto simp: threads_ok_def Let_def split: option.splits)
qed

lemma links_upd:
  assumes "upd_thread p g st = Inr st'"
    and "\<And>t. th_next (g t) = th_next t \<and> th_prev (g t) = th_prev t \<and> th_pid (g t) = th_pid t \<and> th_files (g t) = th_files t"
  shows "links (thread_heap st') = links (thread_heap st)"
  using assms by (auto simp: upd_thread_Inr_conv links_def map_update intro!: list_update_same_conv[THEN iffD2])

lemma upd_thread_rest:
  assumes "upd_thread p g st = Inr st'"
  shows "thread_table st' = thread_table st" "files_heap st' = files_heap st" "pid_count st' = pid_count st"
    "current_thread st' = current_thread st" "th_vm st' = th_vm st" "length (thread_heap st') = length (thread_heap st)"
  using assms by (auto simp: upd_thread_Inr_conv)

subsection \<open>Every step keeps it\<close>

lemma create_keeps:
  assumes ok: "threads_ok st" and c: "thread_create name handle fl st = Inr (st', a)"
  shows "threads_ok st' \<and> current_thread st' = Some a \<and> a < length (thread_heap st')
    \<and> (\<exists>t. th_files (thread_heap st' ! a) = Some t \<and> t < length (files_heap st') \<and>
         files_heap st' ! t = replicate PROC_FILES_MAX_COUNT None)"
proof -
  let ?n = "length (thread_heap st)"
  have r: "ring st [0..<?n]" and o: "length (files_heap st) = ?n" "pid_count st = of_nat ?n"
    "\<forall>b < ?n. th_pid (thread_heap st ! b) = of_nat b \<and> th_files (thread_heap st ! b) = Some b"
    using ok by (simp_all add: threads_ok_def Let_def)
  obtain rg nm where a: "a = ?n" and R: "ring st' ([0..<?n] @ [a])" and L: "length (thread_heap st') = Suc a"
    and T: "\<exists>n p. thread_heap st' ! a = \<lparr>regs = rg\<lparr>r_eip := handle, r_eflags := 0x3202\<rparr>,
            kernel_regs = \<lparr>k_esp = 0, k_esp_addr = 0, k_eip = 0\<rparr>,
            th_pid = pid_count st, th_status = 0, th_flag = fl, parent_pid = - 1, th_name = nm, th_alarm = 0,
            th_files = Some (length (files_heap st)), th_root = None, th_pwd = None, exit_code = 0, page_dir = None,
            th_prev = p, th_next = n\<rparr>"
    and O: "\<forall>b < a. \<exists>n p. thread_heap st' ! b = (thread_heap st ! b)\<lparr>th_next := n, th_prev := p\<rparr>"
    and F: "files_heap st' = files_heap st @ [replicate PROC_FILES_MAX_COUNT None]"
    and S: "current_thread st' = Some a" "pid_count st' = pid_count st + 1"
    using r c by (rule thread_create_Inr) blast
  have new: "th_pid (thread_heap st' ! a) = of_nat a" "th_files (thread_heap st' ! a) = Some a"
    using T o(1,2) a by auto
  have old: "th_pid (thread_heap st' ! b) = of_nat b \<and> th_files (thread_heap st' ! b) = Some b" if "b < a" for b
    using O o(3) that a by fastforce
  have "ring st' [0..<length (thread_heap st')]" using R a by (simp add: L)
  moreover have "th_pid (thread_heap st' ! b) = of_nat b \<and> th_files (thread_heap st' ! b) = Some b" if "b < Suc a" for b
    using new old that by (cases "b = a") auto
  ultimately show ?thesis using new(2) S o(1,2) a by (simp add: threads_ok_def Let_def L F nth_append)
qed

lemma fork_copy_keeps:
  assumes ok: "threads_ok st" and f: "fork_copy p st = Inr st'" and p: "current_thread st = Some p" "p < length (thread_heap st)"
    and t: "th_files (thread_heap st ! p) = Some t" "t < length (files_heap st)" "files_heap st ! t = replicate n None"
  shows "threads_ok st'"
proof -
  obtain nm m g m' where st': "st' = st\<lparr>thread_heap := (thread_heap st)[p := (thread_heap st ! p)\<lparr>parent_pid := th_pid (thread_heap st ! p),
            th_name := nm, regs := (regs (thread_heap st ! p))\<lparr>r_eax := 0\<rparr>, th_status := TASK_RUNNING, page_dir := Some g\<rparr>],
          th_vm := m'\<rparr>"
    using fork_copy_self[OF f p t] by metis
  have "links (thread_heap st') = links (thread_heap st)"
    by (simp add: st' links_def map_update) (rule list_update_same_conv[THEN iffD2], use p(2) in simp_all)
  then show ?thesis by (rule threads_ok_links[OF ok]) (use p in \<open>simp_all add: st'\<close>)
qed

text \<open>Writing a field of a thread that is neither a link nor its number nor its table.\<close>

lemma upd_keeps:
  assumes "threads_ok st" and "upd_thread p g st = Inr st'"
    and "\<And>t. th_next (g t) = th_next t \<and> th_prev (g t) = th_prev t \<and> th_pid (g t) = th_pid t \<and> th_files (g t) = th_files t"
  shows "threads_ok st'"
proof (rule threads_ok_links[OF assms(1) links_upd[OF assms(2,3)]])
  show "case current_thread st' of None \<Rightarrow> current_thread st = None | Some c \<Rightarrow> c < length (thread_heap st)"
    using upd_thread_rest(4)[OF assms(2)] assms(1) by (auto simp: threads_ok_def Let_def split: option.splits)
qed (use upd_thread_rest[OF assms(2)] in simp_all)

lemma threads_ok_vm: "threads_ok (st\<lparr>th_vm := m\<rparr>) = threads_ok st"
  by (simp add: threads_ok_def Let_def ring_def)

lemma sys_fork_keeps:
  assumes "threads_ok st" and "sys_fork restart st = Inr (st', r)"
  shows "threads_ok st'"
proof -
  obtain cur :: thread and st1 p st2 m g where c: "thread_create [0] 0 (th_flag cur) st = Inr (st1, p)"
    and fc: "fork_copy p st1 = Inr st2"
    and up: "upd_thread (Some p) (\<lambda>t. t\<lparr>kernel_regs := \<lparr>k_esp = (frame_va g - PAGE_OFFSET) + 1024 * 4,
          k_esp_addr = frame_va g, k_eip = restart\<rparr>\<rparr>) (st2\<lparr>th_vm := m\<rparr>) = Inr st'"
    using assms(2) unfolding sys_fork_def by (elim rbindE rmapE) (auto elim!: rbindE rmapE)
  have "threads_ok st2" using create_keeps[OF assms(1) c] fork_copy_keeps[OF _ fc] by blast
  then have "threads_ok (st2\<lparr>th_vm := m\<rparr>)" by (simp add: threads_ok_vm)
  then show ?thesis by (rule upd_keeps[OF _ up]) simp
qed

lemma init1_fork_keeps:
  assumes "threads_ok st" and "init1_fork handle_net st = Inr (st', r)"
  shows "threads_ok st'"
proof -
  obtain cur :: thread and st1 p st2 m g where c: "thread_create [0] handle_net (th_flag cur) st = Inr (st1, p)"
    and fc: "fork_copy p st1 = Inr st2"
    and up: "upd_thread (Some p) (\<lambda>t. t\<lparr>regs := (regs t)\<lparr>r_eip := handle_net\<rparr>,
          kernel_regs := (kernel_regs t)\<lparr>k_esp_addr := frame_va g, k_esp := frame_va g + 1024 * 4\<rparr>\<rparr>)
          (st2\<lparr>th_vm := m\<rparr>) = Inr st'"
    using assms(2) unfolding init1_fork_def by (elim rbindE rmapE) (auto elim!: rbindE rmapE)
  have "threads_ok st2" using create_keeps[OF assms(1) c] fork_copy_keeps[OF _ fc] by blast
  then have "threads_ok (st2\<lparr>th_vm := m\<rparr>)" by (simp add: threads_ok_vm)
  then show ?thesis by (rule upd_keeps[OF _ up]) simp
qed

lemma init_fork_keeps:
  assumes "threads_ok st" and "init_fork st = Inr st'"
  shows "threads_ok st'"
proof -
  obtain dir st1 g st2 m where 1: "upd_thread (current_thread st) (\<lambda>t. t\<lparr>page_dir := Some dir\<rparr>) st = Inr st1"
    and 2: "upd_thread (current_thread st1) (\<lambda>t. t\<lparr>kernel_regs := (kernel_regs t)
              \<lparr>k_esp_addr := frame_va g, k_esp := frame_va g + 1024 * 4\<rparr>\<rparr>) st1 = Inr st2"
    and st': "st' = st2\<lparr>th_vm := m\<rparr>"
    using assms(2) unfolding init_fork_def by (elim rbindE rmapE) (auto elim!: rbindE rmapE)
  have "threads_ok st1" by (rule upd_keeps[OF assms(1) 1]) simp
  then have "threads_ok st2" by (rule upd_keeps[OF _ 2]) simp
  then show ?thesis by (simp add: st' threads_ok_vm)
qed

lemma schedule_keeps:
  assumes ok: "threads_ok st" and s: "schedule saved st = Inr (st', r)"
  shows "threads_ok st'"
proof (cases "current_thread st")
  case None
  then show ?thesis using assms by (cases saved) (simp add: schedule_def)
next
  case (Some c)
  let ?n = "length (thread_heap st)"
  have c: "c < ?n" "ring st [0..<?n]" using ok Some by (simp_all add: threads_ok_def Let_def)
  then obtain st2 where st2: "reschedule saved st = Inr st2" "current_thread st2 = Some ([0..<?n] ! (Suc c mod ?n))"
    using schedule_next[of st "[0..<?n]" c saved] Some by auto
  have j: "Suc c mod ?n < ?n" using c(1) mod_less_divisor[of ?n "Suc c"] by linarith
  have cur: "current_thread st' = Some (Suc c mod ?n)" using st2 s j by (simp add: reschedule_def)
  obtain sp ip where io: "saved = (sp, ip)" by fastforce
  show ?thesis
  proof (rule threads_ok_links[OF ok])
    show "links (thread_heap st') = links (thread_heap st)"
      using s Some c(1) by (auto simp: schedule_def io deref_in Let_def rbind_Inr_conv split: if_splits dest!: links_upd)
    show "thread_table st' = thread_table st" "length (files_heap st') = length (files_heap st)" "pid_count st' = pid_count st"
      using s Some c(1) by (auto simp: schedule_def io deref_in Let_def rbind_Inr_conv upd_thread_Inr_conv split: if_splits)
  qed (use cur j in simp)
qed

lemma restart_keeps: "threads_ok st \<Longrightarrow> threads_ok (thread_int st)"
proof (rule threads_ok_links[of st])
  assume "threads_ok st"
  then show "case current_thread (thread_int st) of None \<Rightarrow> current_thread st = None | Some c \<Rightarrow> c < length (thread_heap st)"
    by (auto simp: threads_ok_def Let_def thread_int_def ring_def split: option.splits)
qed (simp_all add: thread_int_def)

lemma kstep_keeps: "kstep st st' \<Longrightarrow> threads_ok st \<Longrightarrow> threads_ok st'"
  by (erule kstepE) (auto dest: create_keeps sys_fork_keeps init1_fork_keeps init_fork_keeps schedule_keeps restart_keeps)

lemma reachable_ok: "reachable st \<Longrightarrow> threads_ok st"
proof (induction rule: reachable.induct)
  case (start m fs)
  show ?case by (simp add: threads_ok_def ring_def no_threads_def)
qed (rule kstep_keeps)

lemma run_schedule_reachable:
  "reachable st \<Longrightarrow> run_steps (\<lambda>c st. rmap fst (schedule c st)) cs st = Inr st' \<Longrightarrow> reachable st'"
proof (induction cs arbitrary: st)
  case (Cons c cs)
  then obtain st1 r where s: "schedule c st = Inr (st1, r)" "run_steps (\<lambda>c st. rmap fst (schedule c st)) cs st1 = Inr st'"
    by (auto simp: rbind_Inr_conv rmap_Inr_conv)
  have "reachable st1" using Cons.prems(1) by (rule reachable.step) (rule kstep.switch[OF s(1)])
  then show ?case using Cons.IH s(2) by blast
qed simp

lemma reachable_turn:
  assumes "reachable st" and "b < length (thread_heap st)"
  shows "\<exists>k < length (thread_heap st). \<forall>cs. length cs = k \<longrightarrow>
    (\<exists>st'. run_steps (\<lambda>c st. rmap fst (schedule c st)) cs st = Inr st' \<and> reachable st' \<and> current_thread st' = Some b)"
proof -
  let ?n = "length (thread_heap st)"
  have ok: "ring st [0..<?n]" "\<exists>c < ?n. current_thread st = Some c"
    using reachable_ok[OF assms(1)] assms(2) by (auto simp: threads_ok_def Let_def split: option.splits)
  then obtain c where c: "c < ?n" "current_thread st = Some c" by blast
  have "\<exists>k < ?n. \<forall>cs. length cs = k \<longrightarrow>
      (\<exists>st'. run_steps reschedule cs st = Inr st' \<and> ring st' [0..<?n] \<and> current_thread st' = Some b)"
    using sched.gets_turn[OF ok(1) c(2), of b] c(1) assms(2) by simp
  then obtain k where "k < ?n" "\<And>cs. length cs = k \<Longrightarrow> \<exists>st'. run_steps reschedule cs st = Inr st' \<and> current_thread st' = Some b"
    by blast
  moreover have "reschedule = (\<lambda>c st. rmap fst (schedule c st))" by (simp add: fun_eq_iff reschedule_def)
  ultimately show ?thesis using run_schedule_reachable[OF assms(1)] by metis
qed

subsection \<open>Property\<close>

text \<open>
  C17. Whatever sequence of creations, forks and switches the kernel goes through, its threads form one ring in the
  order of their creation, with the pids 0, 1, 2, ... (modulo \<open>2 ^ 32\<close>) and a descriptor table each; the current
  thread is one of them; and each thread becomes current after fewer further calls of \<^verbatim>\<open>schedule\<close> than there are
  threads.
\<close>

theorem reachable_threads_take_turns:
  assumes "reachable st" and "n = length (thread_heap st)"
  shows "ring st [0..<n] \<and> length (files_heap st) = n \<and> pid_count st = of_nat n
    \<and> (\<forall>a < n. th_pid (thread_heap st ! a) = of_nat a \<and> th_files (thread_heap st ! a) = Some a)
    \<and> (n = 0 \<longleftrightarrow> current_thread st = None) \<and> (\<forall>c. current_thread st = Some c \<longrightarrow> c < n)
    \<and> (\<forall>b < n. \<exists>k < n. \<forall>cs. length cs = k \<longrightarrow>
        (\<exists>st'. run_steps (\<lambda>c st. rmap fst (schedule c st)) cs st = Inr st' \<and> reachable st' \<and> current_thread st' = Some b))"
  using reachable_ok[OF assms(1)] reachable_turn[OF assms(1)]
  by (auto simp: threads_ok_def Let_def assms(2) split: option.splits)

text \<open>Two threads from the start.\<close>

theorem reachable_threads_take_turns_witness:
  "\<exists>st. reachable st \<and> ring st [0, 1] \<and> current_thread st = Some 1 \<and> th_pid (thread_heap st ! 1) = 1
    \<and> (\<exists>k < 2. \<forall>cs. length cs = k \<longrightarrow>
        (\<exists>st'. run_steps (\<lambda>c st. rmap fst (schedule c st)) cs st = Inr st' \<and> reachable st' \<and> current_thread st' = Some 0))"
proof -
  let ?s = "no_threads fork_vm rooted"
  have z: "start_regs 0 fork_vm = Inr (fork_vm, user_frame_regs)" by (simp add: start_regs_def THREAD_TYPE_KERNEL_def)
  have r0: "ring ?s []" by (simp add: ring_def no_threads_def)
  have "start_regs 0 (th_vm ?s) = Inr (fork_vm, user_frame_regs)" by (simp add: z no_threads_def)
  then obtain st1 where c1: "thread_create [0] 0x100000 0 ?s = Inr (st1, 0)" "th_vm st1 = fork_vm"
    using thread_create_ok[OF r0 sprintf_empty, of 0] by (auto simp: no_threads_def)
  have 1: "reachable st1" by (rule reachable.step[OF reachable.start]) (rule kstep.create[OF c1(1)])
  have n1: "length (thread_heap st1) = 1" "ring st1 [0]"
    using r0 c1(1) by (rule thread_create_Inr, simp add: no_threads_def)+
  obtain st2 where c2: "thread_create [0] 0x100000 0 st1 = Inr (st2, 1)"
    using thread_create_ok[OF n1(2) sprintf_empty, of 0] z c1(2) n1(1) by auto
  have 2: "reachable st2" by (rule reachable.step[OF 1]) (rule kstep.create[OF c2])
  have "length (thread_heap st2) = 2 \<and> current_thread st2 = Some 1" using n1(2) c2 by (rule thread_create_Inr) simp
  with reachable_threads_take_turns[OF 2, of 2] 2 show ?thesis
    by (intro exI[of _ st2]) (simp add: upt_rec)
qed

end
