(* ===== verification/Boot.thy ===== *)
theory Boot
  imports Sched Kmalloc
begin

text \<open>
  Memory at the start of the kernel: \<^verbatim>\<open>init_arch\<close> of arch/i386/init.c sizes it from the map that the
  boot code took over from the BIOS and builds the kernel's mapping. The lemmas show that this returns,
  what is mapped and what stays as it was, and that the state it leaves is the one the other components
  assume: frames are left, and the first allocation of the heap returns.

  \<^verbatim>\<open>init_fork\<close> of kernel/kernel.c, which gives the current thread its address space, is treated here as
  well, as an operation by itself. \<^verbatim>\<open>main\<close> has its call behind \<^verbatim>\<open>handle_net\<close>, which never returns.
\<close>

subsection \<open>Operations\<close>

definition boot_memory :: "ards list \<Rightarrow> (nat \<Rightarrow> page) \<Rightarrow> (nat \<Rightarrow> nat \<Rightarrow> u32) \<Rightarrow> vm res" where
  "boot_memory bs junk mm = reset_paging (load_memory_size bs) junk mm"

subsection \<open>Free frames\<close>

definition free_frames :: "vm \<Rightarrow> nat set" where
  "free_frames m = {f. f < length (mem_map m) \<and> \<not> used m f}"

lemma finite_free_frames: "finite (free_frames m)"
  by (rule finite_subset[of _ "{..<length (mem_map m)}"]) (auto simp: free_frames_def)

lemma alloc_frame_used: "alloc_frame m = Inr (m', f) \<Longrightarrow> used m' g \<longleftrightarrow> used m g \<or> g = f"
  using alloc_frame_Inr(3,5,6)[of m m' f] by (cases "g = f") (auto simp: used_def)

text \<open>What an allocation does while a frame is free.\<close>

lemma alloc_frame_takes:
  assumes "k < card (free_frames m)"
  obtains m' f where "alloc_frame m = Inr (m', f)" and "k \<le> card (free_frames m')" and "\<not> used m f" and "used m' f"
    and "length (mem_map m') = length (mem_map m)" and "f < length (mem_map m)"
    and "\<And>g. used m g \<Longrightarrow> used m' g" and "\<And>g. g \<noteq> f \<Longrightarrow> frames m' g = frames m g" and "\<And>i. frames m' f i = 0"
proof -
  have "free_frames m \<noteq> {}" using assms by auto
  then obtain x where "x < length (mem_map m)" "\<not> used m x" by (auto simp: free_frames_def)
  then obtain m' f where f: "alloc_frame m = Inr (m', f)" using alloc_frame_free by blast
  note A = alloc_frame_Inr[OF f]
  have "free_frames m' = free_frames m - {f}"
    using A(5) alloc_frame_used[OF f] by (auto simp: free_frames_def)
  moreover have "f \<in> free_frames m" using A(1,2) by (simp add: free_frames_def)
  ultimately have "card (free_frames m') = card (free_frames m) - 1" by simp
  then show thesis using that[OF f] A alloc_frame_used[OF f] assms by simp
qed

text \<open>Writing a word keeps what is used.\<close>

lemma free_frames_frames [simp]: "free_frames (m\<lparr>frames := x\<rparr>) = free_frames m"
  by (simp add: free_frames_def)

lemma copy_kernel_returns:
  assumes "PAGE_DIR_FRAME < length (mem_map m)" and "res < length (mem_map m)" and "res \<noteq> PAGE_DIR_FRAME"
  shows "\<exists>fr. copy_kernel res [768..<1024] m = Inr (m\<lparr>frames := fr\<rparr>) \<and> (\<forall>g. g \<noteq> res \<longrightarrow> fr g = frames m g) \<and>
    (\<forall>i. 768 \<le> i \<longrightarrow> i < 1024 \<longrightarrow> fr res i = frames m PAGE_DIR_FRAME i) \<and> (\<forall>i < 768. fr res i = frames m res i)"
proof -
  obtain m' where m': "copy_kernel res [768..<1024] m = Inr m'" using copy_kernel_covered[OF assms(1,2)] by blast
  note k = copy_kernel_Inr[OF m' assms(3), unfolded set_upt]
  have "m' = m\<lparr>frames := frames m'\<rparr>" using k by simp
  then show ?thesis using m' k by (intro exI[of _ "frames m'"]) auto
qed

subsection \<open>The first address space\<close>

text \<open>The steps of \<^verbatim>\<open>init_fork\<close> on memory: directory, kernel half, stack, table, page.\<close>

lemma first_space_vm:
  assumes "vm_ok m" and pdu: "used m PAGE_DIR_FRAME" and "3 < card (free_frames m)"
  obtains m1 dir mk m2 f m3 t m4 m5 g m6 m7 where "alloc_frame m = Inr (m1, dir)"
    and "copy_kernel dir [768..<1024] m1 = Inr mk" and "alloc_frame mk = Inr (m2, f)" and "alloc_frame m2 = Inr (m3, t)"
    and "wr_frame dir 511 (entry t 3) m3 = Inr m4" and "alloc_frame m4 = Inr (m5, g)"
    and "wr_frame t 1023 (entry g 3) m5 = Inr m6" and "rd_frame m6 t 1023 = Inr (entry g 3)"
    and "upd_page g (\<lambda>p. p\<lparr>pg_count := pg_count p + 1\<rparr>) m6 = Inr m7"
    and "entry_frame (entry t 3) = t" and "entry_frame (entry g 3) = g"
    and "\<not> used m g" and "\<And>h. used m h \<Longrightarrow> frames m7 h = frames m h"
    and "\<And>i. 768 \<le> i \<Longrightarrow> i < 1024 \<Longrightarrow> frames m7 dir i = frames m PAGE_DIR_FRAME i"
    and "\<And>v. PDINDEX v < 768 \<Longrightarrow> maps m7 dir v = (if PDINDEX v = 511 \<and> PTINDEX v = 1023 then Some g else None)"
proof -
  obtain m1 dir where a1: "alloc_frame m = Inr (m1, dir)" "3 \<le> card (free_frames m1)" "\<not> used m dir" "used m1 dir"
    "length (mem_map m1) = length (mem_map m)" "dir < length (mem_map m)" "\<And>g. used m g \<Longrightarrow> used m1 g"
    "\<And>g. g \<noteq> dir \<Longrightarrow> frames m1 g = frames m g" "\<And>i. frames m1 dir i = 0"
    by (rule alloc_frame_takes[OF assms(3)]) blast
  have pd: "PAGE_DIR_FRAME < length (mem_map m)" "dir \<noteq> PAGE_DIR_FRAME" using pdu a1(3) by (auto simp: used_def)
  obtain fr where k: "copy_kernel dir [768..<1024] m1 = Inr (m1\<lparr>frames := fr\<rparr>)" "\<And>g. g \<noteq> dir \<Longrightarrow> fr g = frames m1 g"
    "\<And>i. 768 \<le> i \<Longrightarrow> i < 1024 \<Longrightarrow> fr dir i = frames m1 PAGE_DIR_FRAME i" "\<And>i. i < 768 \<Longrightarrow> fr dir i = 0"
    using copy_kernel_returns[of m1 dir] pd a1(5,6,9) by auto
  define mk where "mk = m1\<lparr>frames := fr\<rparr>"
  have uk: "used mk h = used m1 h" "length (mem_map mk) = length (mem_map m)" "frames mk = fr" for h
    by (simp_all add: mk_def a1(5))
  have "2 < card (free_frames mk)" using a1(2) by (simp add: mk_def)
  then obtain m2 f where a2: "alloc_frame mk = Inr (m2, f)" "2 \<le> card (free_frames m2)" "\<not> used mk f" "used m2 f"
    "length (mem_map m2) = length (mem_map m)" "f < length (mem_map m)" "\<And>g. used mk g \<Longrightarrow> used m2 g"
    "\<And>g. g \<noteq> f \<Longrightarrow> frames m2 g = fr g" "\<And>i. frames m2 f i = 0"
    by (rule alloc_frame_takes[of 2 mk, unfolded uk(2,3)]) blast
  have "1 < card (free_frames m2)" using a2(2) by simp
  then obtain m3 t where a3: "alloc_frame m2 = Inr (m3, t)" "1 \<le> card (free_frames m3)" "\<not> used m2 t" "used m3 t"
    "length (mem_map m3) = length (mem_map m)" "t < length (mem_map m)" "\<And>g. used m2 g \<Longrightarrow> used m3 g"
    "\<And>g. g \<noteq> t \<Longrightarrow> frames m3 g = frames m2 g" "\<And>i. frames m3 t i = 0"
    by (rule alloc_frame_takes[of 1 m2, unfolded a2(5)]) blast
  define m4 where "m4 = m3\<lparr>frames := (frames m3)(dir := (frames m3 dir)(511 := entry t 3))\<rparr>"
  have w4: "wr_frame dir 511 (entry t 3) m3 = Inr m4" using a1(6) a3(5) by (simp add: wr_frame_def m4_def)
  have u4: "used m4 h = used m3 h" "length (mem_map m4) = length (mem_map m)" for h by (simp_all add: m4_def a3(5))
  have "0 < card (free_frames m4)" using a3(2) by (simp add: m4_def)
  then obtain m5 g where a5: "alloc_frame m4 = Inr (m5, g)" "0 \<le> card (free_frames m5)" "\<not> used m4 g" "used m5 g"
    "length (mem_map m5) = length (mem_map m)" "g < length (mem_map m)" "\<And>h. used m4 h \<Longrightarrow> used m5 h"
    "\<And>h. h \<noteq> g \<Longrightarrow> frames m5 h = frames m4 h" "\<And>i. frames m5 g i = 0"
    by (rule alloc_frame_takes[of 0 m4, unfolded u4(2)]) blast
  define m6 where "m6 = m5\<lparr>frames := (frames m5)(t := (frames m5 t)(1023 := entry g 3))\<rparr>"
  define m7 where "m7 = m6\<lparr>mem_map := (mem_map m6)[g := (mem_map m6 ! g)\<lparr>pg_count := pg_count (mem_map m6 ! g) + 1\<rparr>]\<rparr>"
  have w6: "wr_frame t 1023 (entry g 3) m5 = Inr m6" "rd_frame m6 t 1023 = Inr (entry g 3)"
    "upd_page g (\<lambda>p. p\<lparr>pg_count := pg_count p + 1\<rparr>) m6 = Inr m7"
    using a3(6) a5(5,6) by (simp_all add: wr_frame_def rd_frame_def upd_page_def m6_def m7_def)
  have b: "t < 2 ^ 20" "g < 2 ^ 20" using a3(6) a5(6) assms(1) by (simp_all add: vm_ok_def)
  have e: "entry_frame (entry t 3) = t" "entry_frame (entry g 3) = g" "bit (entry t 3) 0" "bit (entry g 3) 0"
    using entry_frame_entry[OF b(1), of 3] entry_frame_entry[OF b(2), of 3] by simp_all
  have ud: "used mk dir" "used m2 dir" "used m3 dir" using a1(4) a2(7) a3(7) uk(1) by blast+
  have ne: "f \<noteq> dir" "t \<noteq> dir" "g \<noteq> dir" "g \<noteq> t" using ud a2(3) a3(3,4) a5(3) u4(1) by blast+
  have um: "used mk h \<and> used m2 h \<and> used m3 h \<and> h \<noteq> dir \<and> h \<noteq> f \<and> h \<noteq> t \<and> h \<noteq> g" if "used m h" for h
  proof -
    have "used m1 h" by (rule a1(7)[OF that])
    then have k: "used mk h" by (simp add: uk(1))
    have 2: "used m2 h" by (rule a2(7)[OF k])
    have 3: "used m3 h" by (rule a3(7)[OF 2])
    then have "used m4 h" by (simp add: u4(1))
    then show ?thesis using k 2 3 that a1(3) a2(3) a3(3) a5(3) by blast
  qed
  have old: "frames m7 h = frames m h" if h: "used m h" for h
    using um[OF h] a1(8) k(2) a2(8) a3(8) a5(8) by (simp add: m7_def m6_def m4_def)
  have fd: "frames m7 dir i = (if i = 511 then entry t 3 else fr dir i)" for i
    using ne a2(8) a3(8) a5(8) by (simp add: m7_def m6_def m4_def)
  have ft: "frames m7 t i = (if i = 1023 then entry g 3 else 0)" for i
    using ne a3(9) a5(8) by (simp add: m7_def m6_def m4_def)
  have kern: "frames m7 dir i = frames m PAGE_DIR_FRAME i" if "768 \<le> i" "i < 1024" for i
    using that k(3) a1(8) pd(2) by (simp add: fd)
  have mp: "maps m7 dir v = (if PDINDEX v = 511 \<and> PTINDEX v = 1023 then Some g else None)" if "PDINDEX v < 768" for v
    using that k(4) e by (simp add: maps_def pte_at_def fd ft)
  have ng: "\<not> used m g" using um by blast
  show thesis
    by (rule that[OF a1(1) k(1)[folded mk_def] a2(1) a3(1) w4 a5(1) w6 e(1,2) ng old kern mp])
qed

lemma init_fork_space:
  assumes "current_thread st = Some a" and "a < length (thread_heap st)" and "vm_ok (th_vm st)"
    and "used (th_vm st) PAGE_DIR_FRAME" and "3 < card (free_frames (th_vm st))"
  shows "\<exists>st' dir g. init_fork st = Inr st' \<and> current_thread st' = Some a \<and> page_dir (thread_heap st' ! a) = Some dir \<and>
    regs (thread_heap st' ! a) = regs (thread_heap st ! a) \<and> \<not> used (th_vm st) g \<and>
    (\<forall>h. used (th_vm st) h \<longrightarrow> frames (th_vm st') h = frames (th_vm st) h) \<and>
    (\<forall>i. 768 \<le> i \<longrightarrow> i < 1024 \<longrightarrow> frames (th_vm st') dir i = frames (th_vm st) PAGE_DIR_FRAME i) \<and>
    (\<forall>v. PDINDEX v < 768 \<longrightarrow> maps (th_vm st') dir v = (if PDINDEX v = 511 \<and> PTINDEX v = 1023 then Some g else None))"
proof -
  obtain m1 dir mk m2 f m3 t m4 m5 g m6 m7 where v: "alloc_frame (th_vm st) = Inr (m1, dir)"
    "copy_kernel dir [768..<1024] m1 = Inr mk" "alloc_frame mk = Inr (m2, f)" "alloc_frame m2 = Inr (m3, t)"
    "wr_frame dir 511 (entry t 3) m3 = Inr m4" "alloc_frame m4 = Inr (m5, g)"
    "wr_frame t 1023 (entry g 3) m5 = Inr m6" "rd_frame m6 t 1023 = Inr (entry g 3)"
    "upd_page g (\<lambda>p. p\<lparr>pg_count := pg_count p + 1\<rparr>) m6 = Inr m7"
    and e: "entry_frame (entry t 3) = t" "entry_frame (entry g 3) = g"
    and r: "\<not> used (th_vm st) g" "\<And>h. used (th_vm st) h \<Longrightarrow> frames m7 h = frames (th_vm st) h"
    "\<And>i. 768 \<le> i \<Longrightarrow> i < 1024 \<Longrightarrow> frames m7 dir i = frames (th_vm st) PAGE_DIR_FRAME i"
    "\<And>v. PDINDEX v < 768 \<Longrightarrow> maps m7 dir v = (if PDINDEX v = 511 \<and> PTINDEX v = 1023 then Some g else None)"
    by (rule first_space_vm[OF assms(3-5)]) blast
  let ?t = "(thread_heap st ! a)\<lparr>page_dir := Some dir\<rparr>"
  let ?t' = "?t\<lparr>kernel_regs := (kernel_regs ?t)\<lparr>k_esp_addr := frame_va f, k_esp := frame_va f + 1024 * 4\<rparr>\<rparr>"
  have "init_fork st = Inr (st\<lparr>thread_heap := (thread_heap st)[a := ?t'], th_vm := m7\<rparr>)"
    using assms(1,2) v e
    by (simp add: init_fork_def create_dir_def create_table_def attrs_small upd_thread_in del: upt_Suc upt_rec_numeral)
  then show ?thesis using assms(1,2) r by (intro exI[of _ "st\<lparr>thread_heap := (thread_heap st)[a := ?t'], th_vm := m7\<rparr>"]) auto
qed

subsection \<open>Memory after the sizing\<close>

text \<open>Frames of the kernel's tables are in use, and with 8 MB there are frames left.\<close>

lemma boot_memory_ok:
  assumes "0x800000 \<le> sint (load_memory_size bs)"
  defines "n \<equiv> (min (unat (load_memory_size bs)) (unat HIGH_MEMORY) + 0x3FFFFF) div 0x400000"
  shows "\<exists>m. boot_memory bs junk mm = Inr m \<and> vm_ok m \<and> length (mem_map m) \<le> 229376 \<and> used m PAGE_DIR_FRAME \<and>
    1000 < card (free_frames m) \<and>
    (\<forall>p < 0x400000 * n. maps m PAGE_DIR_FRAME (of_nat (va p)) = Some (p div 0x1000) \<and>
       768 \<le> PDINDEX (of_nat (va p)) \<and> used m (entry_frame (frames m PAGE_DIR_FRAME (PDINDEX (of_nat (va p))))))"
proof -
  let ?s = "load_memory_size bs"
  have pos: "0 < sint ?s" using assms(1) by simp
  have u: "0x800000 \<le> unat ?s"
  proof -
    have "sint ?s = int (unat ?s)" using pos by (intro sint_positive) simp
    then show ?thesis using assms(1) by linarith
  qed
  have n2: "2 \<le> n"
  proof -
    have "2 * 0x400000 \<le> min (unat ?s) (unat HIGH_MEMORY) + 0x3FFFFF" using u by (simp add: HIGH_MEMORY_def)
    then show ?thesis unfolding n_def by (simp add: less_eq_div_iff_mult_less_eq)
  qed
  have "n \<le> (0x38000000 + 0x3FFFFF) div 0x400000"
    unfolding n_def by (rule div_le_mono) (simp add: HIGH_MEMORY_def)
  then have n: "n \<le> 224" by simp
  obtain m where m: "reset_paging ?s junk mm = Inr m" "length (mem_map m) = 1024 * n" "vm_ok m"
    "\<forall>p < 0x400000 * n. maps m PAGE_DIR_FRAME (of_nat (va p)) = Some (p div 0x1000)"
    "\<forall>i < 1024 * n. used m i \<longleftrightarrow> i < 1024 + 2 * n"
    using reset_paging_maps[OF pos, of junk mm] unfolding n_def[symmetric] by blast
  have c: "n = unat (page_table_count ?s)" using page_table_count_eq[OF pos] by (simp add: n_def)
  have "n \<le> 256" using n by simp
  from reset_paging_entries[OF this c, of junk mm] m(1)
  have e: "\<forall>j < n. frames m PAGE_DIR_FRAME (j + 768) = entry (PAGE_TABLE_FRAME + j) 3" by auto
  have us: "used m i" if "i < 1024" for i using m(5) that n2 by auto
  have tab: "768 \<le> PDINDEX (of_nat (va p)) \<and> used m (entry_frame (frames m PAGE_DIR_FRAME (PDINDEX (of_nat (va p)))))"
    if p: "p < 0x400000 * n" for p
  proof -
    have "p < 0x40000000" using p n by simp
    note i = va_index(1)[OF this]
    have j: "p div 0x400000 < n" using p by (simp add: less_mult_imp_div_less mult.commute)
    have "frames m PAGE_DIR_FRAME (PDINDEX (of_nat (va p))) = entry (PAGE_TABLE_FRAME + p div 0x400000) 3"
      using e[rule_format, OF j] by (simp add: i(1) add.commute)
    moreover have "entry_frame (entry (PAGE_TABLE_FRAME + p div 0x400000) 3) = PAGE_TABLE_FRAME + p div 0x400000"
      using j n by (intro entry_frame_entry(1)) (simp_all add: PAGE_TABLE_FRAME_def)
    ultimately show ?thesis using us j n by (simp add: i PAGE_TABLE_FRAME_def)
  qed
  have "free_frames m = {1024 + 2 * n..<1024 * n}"
    using m(2,5) by (auto simp: free_frames_def)
  then have "1000 < card (free_frames m)" using n2 by simp
  moreover have "used m PAGE_DIR_FRAME" by (rule us) (simp add: PAGE_DIR_FRAME_def PAGE_TABLE_FRAME_def)
  ultimately show ?thesis using m(1-4) n tab by (intro exI[of _ m]) (simp add: boot_memory_def)
qed

text \<open>The two heaps that start on the table of pages: the first allocation of the kernel heap returns.\<close>

lemma boot_heap:
  assumes "boot_memory bs junk mm = Inr m" and "length (mem_map m) \<le> 229376" and "1000 < card (free_frames m)" and "unat len \<le> 4096"
  shows "heap_rep (empty_heap (mem_map m)) F \<and> (\<exists>r. kmalloc len (empty_heap (mem_map m)) = Inr r)"
proof -
  have "\<not> card (free_frames m) \<le> 1" using assms(3) by simp
  then obtain p q where "p \<in> free_frames m" "q \<in> free_frames m" "p \<noteq> q"
    using card_le_Suc0_iff_eq[OF finite_free_frames] by auto
  then have "\<exists>r. kmalloc len (empty_heap (mem_map m)) = Inr r"
    using assms(4) by (intro kmalloc_returns[of _ p q]) (auto simp: free_frames_def used_def empty_heap_def)
  then show ?thesis using empty_heap_rep[OF assms(2)] by blast
qed

text \<open>The end of the usable memory: where the last free area of the map ends, as 32-bit numbers.\<close>

definition memory_top :: "ards list \<Rightarrow> nat" where
  "memory_top bs = Max (set (0 # map (\<lambda>b. unat (baseAddrLow b + lengthLow b)) (filter (\<lambda>b. ard_type b = ARD_TYPE_FREE) bs)))"

lemma load_memory_size_loop_max:
  "unat (load_memory_size_loop bs s) =
     Max (set (unat s # map (\<lambda>b. unat (baseAddrLow b + lengthLow b)) (filter (\<lambda>b. ard_type b = ARD_TYPE_FREE) bs)))"
proof (induction bs arbitrary: s)
  case (Cons b bs)
  let ?e = "baseAddrLow b + lengthLow b"
    and ?S = "set (map (\<lambda>b. unat (baseAddrLow b + lengthLow b)) (filter (\<lambda>b. ard_type b = ARD_TYPE_FREE) bs))"
  have m: "Max (insert x (insert y ?S)) = Max (insert (max x y) ?S)" for x y :: nat
    by (cases "?S = {}") (simp_all add: max.assoc)
  show ?case using Cons.IH m[of "unat s" "unat ?e"] by (auto simp: word_less_nat_alt max_def)
qed simp

lemma load_memory_size_top: "unat (load_memory_size bs) = memory_top bs"
  by (simp only: load_memory_size_def memory_top_def load_memory_size_loop_max) simp

text \<open>What the set-up of the tables does not touch.\<close>

lemma reset_paging_leaves:
  assumes "reset_paging s junk mm = Inr m" and "n = unat (page_table_count s)" and "n \<le> 256"
  shows "\<And>i. \<not> (768 \<le> i \<and> i < 768 + n) \<Longrightarrow> frames m PAGE_DIR_FRAME i = mm PAGE_DIR_FRAME i"
    and "\<And>f. f \<noteq> PAGE_DIR_FRAME \<Longrightarrow> \<not> (PAGE_TABLE_FRAME \<le> f \<and> f < PAGE_TABLE_FRAME + n) \<Longrightarrow> frames m f = mm f"
proof -
  have "fill_tables [0..<0 + n] 0 mm = Inr (frames m)"
    using assms(1) by (auto simp: reset_paging_def Let_def assms(2) elim!: rmapE)
  then show "\<And>i. \<not> (768 \<le> i \<and> i < 768 + n) \<Longrightarrow> frames m PAGE_DIR_FRAME i = mm PAGE_DIR_FRAME i"
    "\<And>f. f \<noteq> PAGE_DIR_FRAME \<Longrightarrow> \<not> (PAGE_TABLE_FRAME \<le> f \<and> f < PAGE_TABLE_FRAME + n) \<Longrightarrow> frames m f = mm f"
    using fill_tables_eq[of 0 n 0 mm] assms(3) by (auto simp: add.commute)
qed

subsection \<open>Property\<close>

text \<open>
  C19. The memory of the machine, on one whose last free area ends below 2 GB (from there on the signed size turns
  negative): sizing and mapping return. The physical memory up to this end, rounded up to 4 MB and at most 896 MB, is
  mapped at 3 GB, page by page, writable and closed to the user; every other entry of the directory, and every frame
  that is neither the directory nor one of these page tables nor under the table of pages at 3 MB, stays as it was.
  The table of pages covers the mapped memory, and what it marks as used is the first 4 MB and the pages it takes itself.
\<close>

theorem memory_is_sized_and_mapped:
  assumes "0 < memory_top bs" and "memory_top bs < 0x80000000"
    and "n = (min (memory_top bs) 0x38000000 + 0x3FFFFF) div 0x400000"
  shows "\<exists>m. boot_memory bs junk mm = Inr m \<and> length (mem_map m) = 1024 * n \<and>
    (\<forall>p < 0x400000 * n. maps m PAGE_DIR_FRAME (of_nat (va p)) = Some (p div 0x1000) \<and>
       writable m PAGE_DIR_FRAME (of_nat (va p)) \<and> \<not> user_page m PAGE_DIR_FRAME (of_nat (va p))) \<and>
    (\<forall>i. \<not> (768 \<le> i \<and> i < 768 + n) \<longrightarrow> frames m PAGE_DIR_FRAME i = mm PAGE_DIR_FRAME i) \<and>
    (\<forall>f. f \<noteq> PAGE_DIR_FRAME \<longrightarrow> \<not> (PAGE_TABLE_FRAME \<le> f \<and> f < PAGE_TABLE_FRAME + n) \<longrightarrow>
       \<not> (0x300 \<le> f \<and> f < 0x300 + 2 * n) \<longrightarrow> frames m f = mm f) \<and>
    (\<forall>i < 1024 * n. used m i \<longleftrightarrow> i < 1024 + 2 * n)"
proof -
  let ?s = "load_memory_size bs"
  have u: "unat ?s = memory_top bs" by (rule load_memory_size_top)
  have "sint (of_nat k :: u32) = int k" if "k < 0x80000000" for k
    using that by (simp add: signed_of_nat signed_take_bit_int_eq_self)
  from this[OF assms(2)] have "sint ?s = int (memory_top bs)" unfolding u[symmetric] by (simp only: of_nat_unat ucast_id)
  then have p: "0 < sint ?s" using assms(1) by simp
  have n: "n = (min (unat ?s) (unat HIGH_MEMORY) + 0x3FFFFF) div 0x400000" using assms(3) u by (simp add: HIGH_MEMORY_def)
  obtain m where m: "reset_paging ?s junk mm = Inr m" "length (mem_map m) = 1024 * n"
    "\<forall>p < 0x400000 * n. maps m PAGE_DIR_FRAME (of_nat (va p)) = Some (p div 0x1000) \<and>
        writable m PAGE_DIR_FRAME (of_nat (va p)) \<and> \<not> user_page m PAGE_DIR_FRAME (of_nat (va p))"
    "\<forall>i < 1024 * n. used m i \<longleftrightarrow> i < 1024 + 2 * n"
    using reset_paging_maps[OF p, of junk mm] unfolding n[symmetric] by blast
  have "n \<le> (0x38000000 + 0x3FFFFF) div 0x400000" unfolding assms(3) by (rule div_le_mono) simp
  then have "n \<le> 256" by simp
  moreover have "n = unat (page_table_count ?s)" using page_table_count_eq[OF p] n by simp
  ultimately show ?thesis using m reset_paging_leaves[OF m(1)] by (simp add: boot_memory_def)
qed

text \<open>32 MB above a reserved area that ends at 4 GB.\<close>

theorem memory_is_sized_and_mapped_witness:
  "\<exists>m. boot_memory [\<lparr>baseAddrLow = 0, baseAddrHigh = 0, lengthLow = 0x9F000, lengthHigh = 0, ard_type = 1\<rparr>,
       \<lparr>baseAddrLow = 0x100000, baseAddrHigh = 0, lengthLow = 0x1F00000, lengthHigh = 0, ard_type = 1\<rparr>,
       \<lparr>baseAddrLow = 0xFFFC0000, baseAddrHigh = 0, lengthLow = 0x30000, lengthHigh = 0, ard_type = 2\<rparr>]
      (\<lambda>i. \<lparr>pg_count = 0, pg_flags = 0\<rparr>) (\<lambda>f i. 0) = Inr m \<and>
    length (mem_map m) = 8192 \<and> maps m PAGE_DIR_FRAME (of_nat (va 0x1234567)) = Some 0x1234 \<and>
    frames m PAGE_DIR_FRAME 0 = 0 \<and> used m 1039 \<and> \<not> used m 1040"
proof -
  let ?b = "[\<lparr>baseAddrLow = 0, baseAddrHigh = 0, lengthLow = 0x9F000, lengthHigh = 0, ard_type = 1\<rparr>,
       \<lparr>baseAddrLow = 0x100000, baseAddrHigh = 0, lengthLow = 0x1F00000, lengthHigh = 0, ard_type = 1\<rparr>,
       \<lparr>baseAddrLow = 0xFFFC0000, baseAddrHigh = 0, lengthLow = 0x30000, lengthHigh = 0, ard_type = 2\<rparr>]"
  have t: "memory_top ?b = 0x2000000" by (simp add: memory_top_def ARD_TYPE_FREE_def)
  have "0 < memory_top ?b" "memory_top ?b < 0x80000000" "8 = (min (memory_top ?b) 0x38000000 + 0x3FFFFF) div 0x400000"
    unfolding t by simp_all
  from memory_is_sized_and_mapped[OF this, of "\<lambda>i. \<lparr>pg_count = 0, pg_flags = 0\<rparr>" "\<lambda>f i. 0"]
  obtain m where m: "boot_memory ?b (\<lambda>i. \<lparr>pg_count = 0, pg_flags = 0\<rparr>) (\<lambda>f i. 0) = Inr m" "length (mem_map m) = 1024 * 8"
    "\<forall>p < 0x400000 * 8. maps m PAGE_DIR_FRAME (of_nat (va p)) = Some (p div 0x1000)"
    "\<forall>i. \<not> (768 \<le> i \<and> i < 768 + 8) \<longrightarrow> frames m PAGE_DIR_FRAME i = 0"
    "\<forall>i < 1024 * 8. used m i \<longleftrightarrow> i < 1024 + 2 * 8"
    by blast
  show ?thesis using m(1,2) m(3)[rule_format, of "0x1234567"] m(4)[rule_format, of 0] m(5)[rule_format, of 1039] m(5)[rule_format, of 1040]
    by (intro exI[of _ m]) simp
qed

end
