(* ===== verification/Bios.thy ===== *)
theory Bios
  imports Prelude
begin

text \<open>
  The interrupt routing table of the BIOS: arch/i386/bios.c with include/arch/i386/bios.h.
  Memory is a map from physical addresses to bytes; the kernel reads
  it through its mapping at 3 GB. The printing is left out.
\<close>

unbundle bit_operations_syntax

subsection \<open>The routing table\<close>

definition PIRQ_SIGNATURE :: u32 where
  "PIRQ_SIGNATURE = push_bit 0 36 + push_bit 8 80 + push_bit 16 73 + push_bit 24 82"

definition PIRQ_VERSION :: u16 where "PIRQ_VERSION = 0x0100"

definition bytes_at :: "(nat \<Rightarrow> u8) \<Rightarrow> nat \<Rightarrow> nat \<Rightarrow> u8 list" where
  "bytes_at mem a n = map (\<lambda>i. mem (a + i)) [0..<n]"

text \<open>The fields of \<^verbatim>\<open>struct irq_routing_table\<close> that are read, and the bus of a slot.\<close>

definition rt_signature :: "(nat \<Rightarrow> u8) \<Rightarrow> nat \<Rightarrow> u32" where
  "rt_signature mem rt = of_le32 (mem rt) (mem (rt + 1)) (mem (rt + 2)) (mem (rt + 3))"

definition rt_version :: "(nat \<Rightarrow> u8) \<Rightarrow> nat \<Rightarrow> u16" where
  "rt_version mem rt = of_le16 (mem (rt + 4)) (mem (rt + 5))"

definition rt_size :: "(nat \<Rightarrow> u8) \<Rightarrow> nat \<Rightarrow> u16" where
  "rt_size mem rt = of_le16 (mem (rt + 6)) (mem (rt + 7))"

definition rt_exclusive_irqs :: "(nat \<Rightarrow> u8) \<Rightarrow> nat \<Rightarrow> u16" where
  "rt_exclusive_irqs mem rt = of_le16 (mem (rt + 10)) (mem (rt + 11))"

definition ROUTING_TABLE_SIZE :: nat where "ROUTING_TABLE_SIZE = 32"
definition IRQ_INFO_SIZE :: nat where "IRQ_INFO_SIZE = 16"

definition slot_bus :: "(nat \<Rightarrow> u8) \<Rightarrow> nat \<Rightarrow> nat \<Rightarrow> u8" where
  "slot_bus mem rt i = mem (rt + ROUTING_TABLE_SIZE + IRQ_INFO_SIZE * i)"

text \<open>The sum is kept in an \<^verbatim>\<open>unsigned char\<close>.\<close>

fun pirq_sum :: "u8 list \<Rightarrow> u8 \<Rightarrow> u8" where
  "pirq_sum [] s = s"
| "pirq_sum (b # bs) s = pirq_sum bs (s + b)"

definition pirq_check_routing_table :: "(nat \<Rightarrow> u8) \<Rightarrow> nat \<Rightarrow> nat option" where
  "pirq_check_routing_table mem addr =
     (if rt_signature mem addr \<noteq> PIRQ_SIGNATURE \<or> rt_version mem addr \<noteq> PIRQ_VERSION \<or>
         unat (rt_size mem addr) mod 16 \<noteq> 0 \<or> unat (rt_size mem addr) < ROUTING_TABLE_SIZE
      then None
      else if pirq_sum (bytes_at mem addr (unat (rt_size mem addr))) 0 = 0 then Some addr else None)"

function pirq_scan :: "(nat \<Rightarrow> u8) \<Rightarrow> nat \<Rightarrow> nat option" where
  "pirq_scan mem addr =
     (if addr < 0x100000
      then (case pirq_check_routing_table mem addr of Some rt \<Rightarrow> Some rt | None \<Rightarrow> pirq_scan mem (addr + 16))
      else None)"
  by pat_completeness auto
termination by (relation "measure (\<lambda>(mem, addr). 0x100000 - addr)") auto

declare pirq_scan.simps [simp del]

definition pirq_find_routing_table :: "(nat \<Rightarrow> u8) \<Rightarrow> nat option" where
  "pirq_find_routing_table mem = pirq_scan mem 0xf0000"

text \<open>The buses of the table's slots; the array is local and nothing reads it.\<close>

fun mark_buses :: "(nat \<Rightarrow> u8) \<Rightarrow> nat \<Rightarrow> nat list \<Rightarrow> u8 list \<Rightarrow> u8 list res" where
  "mark_buses mem rt [] busmap = Inr busmap"
| "mark_buses mem rt (i # is) busmap =
     rbind (arr_set busmap (unat (slot_bus mem rt i)) 1) (mark_buses mem rt is)"

definition pirq_peer_trick :: "(nat \<Rightarrow> u8) \<Rightarrow> nat \<Rightarrow> u8 list res" where
  "pirq_peer_trick mem rt =
     mark_buses mem rt [0..<(unat (rt_size mem rt) - ROUTING_TABLE_SIZE) div IRQ_INFO_SIZE] (replicate 256 0)"

definition pirq_penalty0 :: "u32 list" where
  "pirq_penalty0 = [1000000, 1000000, 1000000, 1000, 1000, 0, 1000, 1000, 0, 0, 0, 0, 1000, 100000, 100000, 100000]"

fun penalize :: "u16 \<Rightarrow> nat list \<Rightarrow> u32 list \<Rightarrow> u32 list res" where
  "penalize excl [] pen = Inr pen"
| "penalize excl (i # is) pen =
     rbind (if \<not> bit excl i then rbind (arr_get pen i) (\<lambda>p. arr_set pen i (p + 100)) else Inr pen) (penalize excl is)"

text \<open>The table that is found and the penalties after it has been taken into account.\<close>

definition pcibios_irq_init :: "(nat \<Rightarrow> u8) \<Rightarrow> u32 list \<Rightarrow> (nat option \<times> u32 list) res" where
  "pcibios_irq_init mem pen =
     (case pirq_find_routing_table mem of
        None \<Rightarrow> Inr (None, pen)
      | Some rt \<Rightarrow>
          rbind (pirq_peer_trick mem rt) (\<lambda>_.
            rmap (\<lambda>pen'. (Some rt, pen'))
              (if rt_exclusive_irqs mem rt \<noteq> 0 then penalize (rt_exclusive_irqs mem rt) [0..<16] pen else Inr pen)))"

subsection \<open>What the search finds\<close>

text \<open>A table of the specification: its header is as it must be and its bytes add up to 0.\<close>

definition routing_table :: "(nat \<Rightarrow> u8) \<Rightarrow> nat \<Rightarrow> bool" where
  "routing_table mem a \<longleftrightarrow>
     bytes_at mem a 6 = [36, 80, 73, 82, 0, 1] \<and> unat (rt_size mem a) mod 16 = 0 \<and> 32 \<le> unat (rt_size mem a) \<and>
     (\<Sum>b \<leftarrow> bytes_at mem a (unat (rt_size mem a)). unat b) mod 256 = 0"

lemma of_le32_parts:
  "ucast (of_le32 a b c d) = a" "ucast (drop_bit 8 (of_le32 a b c d)) = b"
  "ucast (drop_bit 16 (of_le32 a b c d)) = c" "ucast (drop_bit 24 (of_le32 a b c d)) = d"
  by (rule bit_word_eqI;
      auto simp: of_le32_def bit_or_iff bit_push_bit_iff bit_ucast_iff bit_drop_bit_eq
           dest: bit_imp_le_length)+

lemma of_le32_eq_iff: "of_le32 a b c d = of_le32 a' b' c' d' \<longleftrightarrow> a = a' \<and> b = b' \<and> c = c' \<and> d = d'"
  using of_le32_parts[of a b c d] of_le32_parts[of a' b' c' d'] by metis

lemma of_le16_eq_iff: "of_le16 a b = of_le16 a' b' \<longleftrightarrow> a = a' \<and> b = b'"
  using of_le16_parts[of a b] of_le16_parts[of a' b'] by metis

lemma header_bytes:
  "rt_signature mem a = PIRQ_SIGNATURE \<and> rt_version mem a = PIRQ_VERSION \<longleftrightarrow> bytes_at mem a 6 = [36, 80, 73, 82, 0, 1]"
proof -
  have s: "PIRQ_SIGNATURE = of_le32 36 80 73 82" by (simp add: PIRQ_SIGNATURE_def of_le32_def)
  have v: "PIRQ_VERSION = of_le16 0 1" by (simp add: PIRQ_VERSION_def of_le16_def)
  have b: "bytes_at mem a 6 = [mem a, mem (a + 1), mem (a + 2), mem (a + 3), mem (a + 4), mem (a + 5)]"
    by (simp add: bytes_at_def upt_rec numeral_eq_Suc)
  show ?thesis
    unfolding rt_signature_def rt_version_def s v of_le32_eq_iff of_le16_eq_iff b by (auto simp: add.assoc)
qed

lemma pirq_sum_eq: "pirq_sum bs s = s + of_nat (\<Sum>b \<leftarrow> bs. unat b)"
  by (induction bs arbitrary: s) (simp_all add: add.assoc)

lemma pirq_check_iff:
  "pirq_check_routing_table mem a = (if routing_table mem a then Some a else None)"
proof -
  have "(of_nat n :: u8) = 0 \<longleftrightarrow> n mod 256 = 0" for n
    by (simp add: word_of_nat_eq_0_iff dvd_eq_mod_eq_0)
  then show ?thesis
    using header_bytes[of mem a]
    by (auto simp: pirq_check_routing_table_def routing_table_def pirq_sum_eq ROUTING_TABLE_SIZE_def)
qed

text \<open>The paragraphs from \<open>a\<close> to the end of the BIOS.\<close>

lemma pirq_scan_eq:
  assumes "a + 16 * n = 0x100000"
  shows "pirq_scan mem a = List.find (routing_table mem) (map (\<lambda>k. a + 16 * k) [0..<n])"
  using assms
proof (induction n arbitrary: a)
  case 0
  then show ?case by (subst pirq_scan.simps) simp
next
  case (Suc n)
  have "map (\<lambda>k. a + 16 * k) [0..<Suc n] = a # map (\<lambda>k. (a + 16) + 16 * k) [0..<n]"
    by (simp only: upt_conv_Cons zero_less_Suc map_Suc_upt[symmetric]) (simp add: algebra_simps del: upt_Suc)
  moreover have "a < 0x100000" using Suc.prems by simp
  ultimately show ?case
    using Suc.IH[of "a + 16"] Suc.prems by (subst pirq_scan.simps) (simp add: pirq_check_iff)
qed

lemma mark_buses_total: "length bm = 256 \<Longrightarrow> \<exists>bm'. mark_buses mem rt is bm = Inr bm'"
  by (induction "is" arbitrary: bm) (simp_all add: unat_less_8)

lemma penalize_eq:
  assumes "distinct is" and "\<forall>i \<in> set is. i < length pen"
  shows "\<exists>pen'. penalize excl is pen = Inr pen' \<and> length pen' = length pen \<and>
    (\<forall>i < length pen. pen' ! i = pen ! i + (if i \<in> set is \<and> \<not> bit excl i then 100 else 0))"
  using assms
proof (induction "is" arbitrary: pen)
  case (Cons i "is")
  define pen1 where "pen1 = (if \<not> bit excl i then pen[i := pen ! i + 100] else pen)"
  have p: "penalize excl (i # is) pen = penalize excl is pen1" using Cons.prems(2) by (simp add: pen1_def)
  have "distinct is" "\<forall>i \<in> set is. i < length pen1" using Cons.prems by (simp_all add: pen1_def)
  from Cons.IH[OF this] obtain pen' where "penalize excl is pen1 = Inr pen'" "length pen' = length pen1"
    "\<forall>i < length pen1. pen' ! i = pen1 ! i + (if i \<in> set is \<and> \<not> bit excl i then 100 else 0)" by blast
  then show ?case unfolding p using Cons.prems by (intro exI[of _ pen']) (auto simp: pen1_def nth_list_update)
qed simp

subsection \<open>Properties\<close>

text \<open>
  \<^verbatim>\<open>pcibios_irq_init\<close> finds the lowest table of the specification that begins on a paragraph of
  the last 64 KB below 1 MB, and none exactly when there is none. It then adds 100 to the penalty of
  each line that is not reserved for PCI, when the table reserves any, and changes no other penalty.
\<close>

theorem routing_table_found:
  assumes "length pen = 16"
  shows "\<exists>t pen'. pcibios_irq_init mem pen = Inr (t, pen') \<and>
    t = List.find (routing_table mem) (map (\<lambda>k. 0xF0000 + 16 * k) [0..<4096]) \<and> length pen' = 16 \<and>
    (\<forall>i < 16. pen' ! i = pen ! i + (if \<exists>rt. t = Some rt \<and> rt_exclusive_irqs mem rt \<noteq> 0 \<and>
       \<not> bit (rt_exclusive_irqs mem rt) i then 100 else 0))"
proof -
  have f: "pirq_find_routing_table mem = List.find (routing_table mem) (map (\<lambda>k. 0xF0000 + 16 * k) [0..<4096])"
    unfolding pirq_find_routing_table_def by (rule pirq_scan_eq) simp
  show ?thesis
  proof (cases "pirq_find_routing_table mem")
    case None
    then show ?thesis using assms unfolding f[symmetric] by (simp add: pcibios_irq_init_def)
  next
    case (Some rt)
    let ?e = "rt_exclusive_irqs mem rt"
    obtain bm where bm: "pirq_peer_trick mem rt = Inr bm"
      unfolding pirq_peer_trick_def using mark_buses_total[OF length_replicate] by blast
    have "\<forall>i \<in> set [0..<16]. i < length pen" unfolding set_upt using assms by simp
    from penalize_eq[OF distinct_upt this, of ?e] obtain pen' where p: "penalize ?e [0..<16] pen = Inr pen'"
      "length pen' = length pen" "\<forall>i < length pen. pen' ! i = pen ! i + (if i \<in> {0..<16} \<and> \<not> bit ?e i then 100 else 0)"
      unfolding set_upt by blast
    show ?thesis unfolding f[symmetric] Some
      using assms p(2,3) by (cases "?e = 0") (simp_all add: pcibios_irq_init_def Some bm p(1) del: upt_Suc upt_rec_numeral)
  qed
qed


text \<open>A table of one header at F0010, which reserves line 11.\<close>

definition sample_bios :: "nat \<Rightarrow> u8" where
  "sample_bios a = (if 0xF0010 \<le> a \<and> a < 0xF0030
     then ([36, 80, 73, 82, 0, 1, 32, 0, 0, 0, 0, 8] @ replicate 19 0 @ [200]) ! (a - 0xF0010) else 0)"

lemma sample_bios_tables: "\<not> routing_table sample_bios 0xF0000" "routing_table sample_bios 0xF0010"
proof -
  have "bytes_at sample_bios 0xF0000 6 ! 0 = 0"
    by (simp add: bytes_at_def sample_bios_def del: upt_Suc upt_rec_numeral)
  then show "\<not> routing_table sample_bios 0xF0000" by (auto simp: routing_table_def)
  have l: "[36, 80, 73, 82, 0, 1, 32, 0, 0, 0, 0, 8] @ replicate 19 0 @ [200] =
      [36, 80, 73, 82, 0, 1, 32, 0, 0, 0, 0, 8, 0, 0, 0, 0, 0, 0, 0, 0, 0, 0, 0, 0, 0, 0, 0, 0, 0, 0, 0, 200 :: u8]"
    by (simp add: eval_nat_numeral)
  have "unat (rt_size sample_bios 0xF0010) = 32" by (simp add: rt_size_def of_le16_def sample_bios_def l)
  moreover have t: "bytes_at sample_bios 0xF0010 32 = [36, 80, 73, 82, 0, 1, 32, 0, 0, 0, 0, 8] @ replicate 19 0 @ [200]"
  proof (rule nth_equalityI)
    fix i
    assume "i < length (bytes_at sample_bios 0xF0010 32)"
    then show "bytes_at sample_bios 0xF0010 32 ! i = ([36, 80, 73, 82, 0, 1, 32, 0, 0, 0, 0, 8] @ replicate 19 0 @ [200]) ! i"
      by (simp add: bytes_at_def sample_bios_def del: upt_Suc upt_rec_numeral)
  qed (simp add: bytes_at_def del: upt_Suc upt_rec_numeral)
  moreover have "bytes_at sample_bios 0xF0010 6 = take 6 (bytes_at sample_bios 0xF0010 32)"
    by (simp add: bytes_at_def take_map del: upt_Suc upt_rec_numeral)
  then have "bytes_at sample_bios 0xF0010 6 = [36, 80, 73, 82, 0, 1]" by (simp add: t)
  ultimately show "routing_table sample_bios 0xF0010" by (simp add: routing_table_def sum_list_replicate)
qed

theorem routing_table_found_witness:
  "\<exists>pen'. pcibios_irq_init sample_bios pirq_penalty0 = Inr (Some 0xF0010, pen') \<and> pen' ! 5 = 100 \<and> pen' ! 11 = 0"
proof -
  have "[0..<4096] = 0 # 1 # [2..<4096::nat]"
    by (subst upt_conv_Cons, simp, subst upt_conv_Cons, simp, simp only: One_nat_def numeral_2_eq_2)
  then have f: "List.find (routing_table sample_bios) (map (\<lambda>k. 0xF0000 + 16 * k) [0..<4096]) = Some 0xF0010"
    by (simp add: sample_bios_tables del: upt_Suc upt_rec_numeral)
  have e: "rt_exclusive_irqs sample_bios 0xF0010 = 0x800"
    by (simp add: rt_exclusive_irqs_def of_le16_def sample_bios_def)
  have "length pirq_penalty0 = 16" by (simp add: pirq_penalty0_def)
  from routing_table_found[OF this, of sample_bios] obtain pen' where
    "pcibios_irq_init sample_bios pirq_penalty0 = Inr (Some 0xF0010, pen')"
    "\<forall>i < 16. pen' ! i = pirq_penalty0 ! i + (if \<not> bit (0x800 :: u16) i then 100 else 0)"
    unfolding f by (auto simp: e)
  then show ?thesis by (simp add: pirq_penalty0_def bit_numeral_rec)
qed

end
