(* ===== verification/Syscall.thy ===== *)
theory Syscall
  imports FileOps Scanf
begin

text \<open>
  System calls: the stubs of lib/unistd.c, the table of kernel/system_call.c and the entry code of
  kernel/kernel.asm between them. A stub loads a number and up to three arguments into registers,
  the entry code calls the entry of the table with them and returns what it returns. User memory is
  a map from addresses to the bytes from there on.
\<close>

subsection \<open>The stubs\<close>

record call_regs =
  c_eax :: u32
  c_ebx :: u32
  c_ecx :: u32
  c_edx :: u32

definition SYS_CALL_EXIT :: u32 where "SYS_CALL_EXIT = 1"
definition SYS_CALL_FORK :: u32 where "SYS_CALL_FORK = 2"
definition SYS_CALL_READ :: u32 where "SYS_CALL_READ = 3"
definition SYS_CALL_WRITE :: u32 where "SYS_CALL_WRITE = 4"
definition SYS_CALL_OPEN :: u32 where "SYS_CALL_OPEN = 5"
definition SYS_CALL_CLOSE :: u32 where "SYS_CALL_CLOSE = 6"
definition SYS_CALL_WAITPID :: u32 where "SYS_CALL_WAITPID = 7"
definition SYS_CALL_EXECVE :: u32 where "SYS_CALL_EXECVE = 11"
definition SYS_CALL_CHDIR :: u32 where "SYS_CALL_CHDIR = 12"
definition SYS_CALL_MOUNT :: u32 where "SYS_CALL_MOUNT = 15"
definition SYS_CALL_LSEEK :: u32 where "SYS_CALL_LSEEK = 19"
definition SYS_CALL_GETPID :: u32 where "SYS_CALL_GETPID = 20"
definition SYS_CALL_ALARM :: u32 where "SYS_CALL_ALARM = 27"
definition SYS_CALL_PAUSE :: u32 where "SYS_CALL_PAUSE = 29"
definition SYS_CALL_MKDIR :: u32 where "SYS_CALL_MKDIR = 39"
definition SYS_CALL_DUP :: u32 where "SYS_CALL_DUP = 41"
definition SYS_CALL_CHROOT :: u32 where "SYS_CALL_CHROOT = 61"
definition SYS_CALL_GETPPID :: u32 where "SYS_CALL_GETPPID = 64"

definition sys_call_0_param :: "u32 \<Rightarrow> call_regs" where
  "sys_call_0_param n = \<lparr>c_eax = n, c_ebx = 0, c_ecx = 0, c_edx = 0\<rparr>"

definition sys_call_1_param :: "u32 \<Rightarrow> u32 \<Rightarrow> call_regs" where
  "sys_call_1_param n a = \<lparr>c_eax = n, c_ebx = a, c_ecx = 0, c_edx = 0\<rparr>"

definition sys_call_2_param :: "u32 \<Rightarrow> u32 \<Rightarrow> u32 \<Rightarrow> call_regs" where
  "sys_call_2_param n a b = \<lparr>c_eax = n, c_ebx = a, c_ecx = b, c_edx = 0\<rparr>"

definition sys_call_3_param :: "u32 \<Rightarrow> u32 \<Rightarrow> u32 \<Rightarrow> u32 \<Rightarrow> call_regs" where
  "sys_call_3_param n a b c = \<lparr>c_eax = n, c_ebx = a, c_ecx = b, c_edx = c\<rparr>"

text \<open>
  The functions of the library; \<^verbatim>\<open>dup\<close> passes one argument where the stub reads two, so the second
  one is whatever is on the stack, and \<^verbatim>\<open>alarm\<close> does not pass its argument.
\<close>

datatype lib_call =
    Exit u32 | Fork | Read u32 u32 u32 | Write u32 u32 u32 | Open u32 u32 | Close u32 | Waitpid u32 u32 u32
  | Execve u32 u32 u32 | Chdir u32 | Mount u32 u32 u32 | Lseek u32 u32 u32 | Getpid | Alarm u32 | Pause
  | Mkdir u32 u32 | Dup u32 | Chroot u32 | Getppid | Get_ticks

fun lib_stub :: "u32 \<Rightarrow> lib_call \<Rightarrow> call_regs" where
  "lib_stub junk (Exit status) = sys_call_1_param SYS_CALL_EXIT status"
| "lib_stub junk Fork = sys_call_0_param SYS_CALL_FORK"
| "lib_stub junk (Read fd buf nbytes) = sys_call_3_param SYS_CALL_READ fd buf nbytes"
| "lib_stub junk (Write fd buf nbytes) = sys_call_3_param SYS_CALL_WRITE fd buf nbytes"
| "lib_stub junk (Open path flags) = sys_call_2_param SYS_CALL_OPEN path flags"
| "lib_stub junk (Close fd) = sys_call_1_param SYS_CALL_CLOSE fd"
| "lib_stub junk (Waitpid pid wstatus options) = sys_call_3_param SYS_CALL_WAITPID pid wstatus options"
| "lib_stub junk (Execve filename argv envp) = sys_call_3_param SYS_CALL_EXECVE filename argv envp"
| "lib_stub junk (Chdir dirname) = sys_call_1_param SYS_CALL_CHDIR dirname"
| "lib_stub junk (Mount dev_name dir_name typ) = sys_call_3_param SYS_CALL_MOUNT dev_name dir_name typ"
| "lib_stub junk (Lseek fd offset whence) = sys_call_3_param SYS_CALL_LSEEK fd offset whence"
| "lib_stub junk Getpid = sys_call_0_param SYS_CALL_GETPID"
| "lib_stub junk (Alarm seconds) = sys_call_0_param SYS_CALL_ALARM"
| "lib_stub junk Pause = sys_call_0_param SYS_CALL_PAUSE"
| "lib_stub junk (Mkdir dirname mode) = sys_call_2_param SYS_CALL_MKDIR dirname mode"
| "lib_stub junk (Dup oldfd) = sys_call_2_param SYS_CALL_DUP oldfd junk"
| "lib_stub junk (Chroot dirname) = sys_call_1_param SYS_CALL_CHROOT dirname"
| "lib_stub junk Getppid = sys_call_0_param SYS_CALL_GETPPID"
| "lib_stub junk Get_ticks = sys_call_0_param 0"

subsection \<open>The table and the entry\<close>

datatype call_handler = Sys_get_ticks | Sys_read | Sys_write | Sys_open

definition sys_call_table :: "call_handler option list" where
  "sys_call_table = [Some Sys_get_ticks, None, None, Some Sys_read, Some Sys_write, Some Sys_open] @ replicate 136 None"

definition sys_get_ticks :: u32 where "sys_get_ticks = 0"

text \<open>
  What a handler does with the three arguments: the value returned, the bytes that replace those at
  an address of user memory, and the files. \<^verbatim>\<open>flags\<close> of \<^verbatim>\<open>sys_open\<close> is not used by it.
\<close>

fun run_handler :: "(u32 \<Rightarrow> u8 list) \<Rightarrow> call_handler \<Rightarrow> call_regs \<Rightarrow> vfs \<Rightarrow> (u32 \<times> (u32 \<times> u8 list) option \<times> vfs) res" where
  "run_handler mem Sys_get_ticks r st = Inr (sys_get_ticks, None, st)"
| "run_handler mem Sys_read r st =
     rmap (\<lambda>(n, buf, st'). (n, Some (c_ecx r, buf), st')) (sys_read (c_ebx r) (mem (c_ecx r)) (c_edx r) st)"
| "run_handler mem Sys_write r st =
     rmap (\<lambda>(n, st'). (n, None, st')) (sys_write (c_ebx r) (mem (c_ecx r)) (c_edx r) st)"
| "run_handler mem Sys_open r st = rmap (\<lambda>(n, st'). (n, None, st')) (sys_open (mem (c_ebx r)) st)"

text \<open>The entry code does not compare the number with the size of the table.\<close>

definition sys_call :: "(u32 \<Rightarrow> u8 list) \<Rightarrow> call_regs \<Rightarrow> vfs \<Rightarrow> (u32 \<times> (u32 \<times> u8 list) option \<times> vfs) res" where
  "sys_call mem r st =
     rbind (arr_get sys_call_table (unat (c_eax r))) (\<lambda>h.
       case h of None \<Rightarrow> Inl NullDeref | Some h \<Rightarrow> run_handler mem h r st)"

definition lib :: "u32 \<Rightarrow> (u32 \<Rightarrow> u8 list) \<Rightarrow> lib_call \<Rightarrow> vfs \<Rightarrow> (u32 \<times> (u32 \<times> u8 list) option \<times> vfs) res" where
  "lib junk mem c st = sys_call mem (lib_stub junk c) st"

subsection \<open>Formatted output and input of a program\<close>

text \<open>
  \<^verbatim>\<open>printf\<close> and \<^verbatim>\<open>scanf\<close> of lib/stdio.c: \<open>junk\<close> is what their local buffers of \<^verbatim>\<open>STR_DEFAULT_LEN\<close> bytes hold
  at first, \<open>buf\<close> the address of the buffer. Neither looks at what the call returned.
\<close>

definition STDIN_FILENO :: u32 where "STDIN_FILENO = 0"
definition STDOUT_FILENO :: u32 where "STDOUT_FILENO = 1"

definition printf :: "u32 \<Rightarrow> (u32 \<Rightarrow> u8 list) \<Rightarrow> u32 \<Rightarrow> u8 list \<Rightarrow> u8 list \<Rightarrow> u32 list \<Rightarrow> vfs \<Rightarrow>
                     (u32 \<times> (u32 \<times> u32) list \<times> vfs) res" where
  "printf stk mem buf junk format args st =
     rbind (vsprintf mem (take STR_DEFAULT_LEN junk) format args) (\<lambda>(out, i, stores).
       rmap (\<lambda>(_, _, st'). (of_nat i, stores, st'))
         (lib stk (mem(buf := out)) (Write STDOUT_FILENO buf (of_nat i)) st))"

definition scanf :: "u32 \<Rightarrow> (u32 \<Rightarrow> u8 list) \<Rightarrow> u32 \<Rightarrow> u8 list \<Rightarrow> u8 list \<Rightarrow> u32 list \<Rightarrow> vfs \<Rightarrow>
                    (u32 \<times> scan_store list \<times> vfs) res" where
  "scanf stk mem buf junk format args st =
     rbind (lib stk (mem(buf := take STR_DEFAULT_LEN junk)) (Read STDIN_FILENO buf (of_nat STR_DEFAULT_LEN)) st)
       (\<lambda>(_, out, st').
         rmap (\<lambda>(i, stores). (i, stores, st'))
           (vsscanf (case out of Some (_, bytes) \<Rightarrow> bytes | None \<Rightarrow> take STR_DEFAULT_LEN junk) format args))"

subsection \<open>Properties\<close>

text \<open>What each function of the library is to do, for those that the kernel has an entry for.\<close>

fun promised :: "(u32 \<Rightarrow> u8 list) \<Rightarrow> lib_call \<Rightarrow> vfs \<Rightarrow> (u32 \<times> (u32 \<times> u8 list) option \<times> vfs) res option" where
  "promised mem (Read fd buf n) st = Some (rmap (\<lambda>(k, out, st'). (k, Some (buf, out), st')) (sys_read fd (mem buf) n st))"
| "promised mem (Write fd buf n) st = Some (rmap (\<lambda>(k, st'). (k, None, st')) (sys_write fd (mem buf) n st))"
| "promised mem (Open path flags) st = Some (rmap (\<lambda>(k, st'). (k, None, st')) (sys_open (mem path) st))"
| "promised mem Get_ticks st = Some (Inr (0, None, st))"
| "promised mem _ st = None"

lemma table_entries:
  "arr_get sys_call_table 0 = Inr (Some Sys_get_ticks)" "arr_get sys_call_table 3 = Inr (Some Sys_read)"
  "arr_get sys_call_table 4 = Inr (Some Sys_write)" "arr_get sys_call_table 5 = Inr (Some Sys_open)"
  "n \<notin> {0, 3, 4, 5} \<Longrightarrow> n < 142 \<Longrightarrow> arr_get sys_call_table n = Inr None"
proof -
  show "arr_get sys_call_table 0 = Inr (Some Sys_get_ticks)" "arr_get sys_call_table 3 = Inr (Some Sys_read)"
    "arr_get sys_call_table 4 = Inr (Some Sys_write)" "arr_get sys_call_table 5 = Inr (Some Sys_open)"
    by (simp_all add: arr_get_def sys_call_table_def)
  assume n: "n \<notin> {0, 3, 4, 5}" "n < 142"
  then consider "n = 1" | "n = 2" | "6 \<le> n" by fastforce
  then show "arr_get sys_call_table n = Inr None"
    by cases (use n in \<open>simp_all add: arr_get_def sys_call_table_def nth_append nth_Cons'\<close>)
qed

text \<open>
  C33. A library function whose number has an entry in the kernel's table returns, stores and changes
  what the kernel function does with the arguments of the call. Every other one, close, lseek,
  mkdir, fork and exit among them, makes the kernel call address 0.
\<close>

theorem library_calls_reach_the_kernel:
  "lib junk mem c st = (case promised mem c st of Some r \<Rightarrow> r | None \<Rightarrow> Inl NullDeref)"
  by (cases c)
     (simp_all add: lib_def sys_call_def table_entries sys_get_ticks_def sys_call_0_param_def sys_call_1_param_def
        sys_call_2_param_def sys_call_3_param_def SYS_CALL_EXIT_def SYS_CALL_FORK_def SYS_CALL_READ_def
        SYS_CALL_WRITE_def SYS_CALL_OPEN_def SYS_CALL_CLOSE_def SYS_CALL_WAITPID_def SYS_CALL_EXECVE_def
        SYS_CALL_CHDIR_def SYS_CALL_MOUNT_def SYS_CALL_LSEEK_def SYS_CALL_GETPID_def SYS_CALL_ALARM_def
        SYS_CALL_PAUSE_def SYS_CALL_MKDIR_def SYS_CALL_DUP_def SYS_CALL_CHROOT_def SYS_CALL_GETPPID_def)

text \<open>
  \<^verbatim>\<open>printf\<close> with a format of characters and directives hands the text of the format to the write
  function of the file behind descriptor 1 and returns the length of the text, as long as the text
  is shorter than 1024 bytes.
\<close>

theorem printf_writes_the_text:
  assumes "\<forall>it \<in> set items. item_ok mem it" and "STR_DEFAULT_LEN \<le> length junk"
    and "text = concat (map (item_text mem) items)" and "length text < STR_DEFAULT_LEN"
  shows "printf stk mem buf junk (concat (map item_fmt items) @ [0]) (concat (map item_args items)) st =
    rmap (\<lambda>(_, st'). (of_nat (length text), [], st'))
      (sys_write STDOUT_FILENO (text @ 0 # drop (Suc (length text)) (take STR_DEFAULT_LEN junk)) (of_nat (length text)) st)"
proof -
  have "vsprintf mem (take STR_DEFAULT_LEN junk) (concat (map item_fmt items) @ [0]) (concat (map item_args items)) =
      Inr (text @ 0 # drop (Suc (length text)) (take STR_DEFAULT_LEN junk), length text, [])"
    using vsprintf_loop_items[OF assms(1), of "[0]" "[]" "[]" "[]"] assms(2-4) by (simp add: vsprintf_def)
  then show ?thesis
    by (cases "sys_write STDOUT_FILENO (text @ 0 # drop (Suc (length text)) (take STR_DEFAULT_LEN junk)) (of_nat (length text)) st")
      (auto simp: printf_def lib_def sys_call_def table_entries sys_call_3_param_def SYS_CALL_WRITE_def)
qed

end
