(* ===== verification/KernelMain.thy ===== *)
theory KernelMain
  imports Startup Boot Desc Bios Tty
begin

text \<open>
  The start as a whole: \<^verbatim>\<open>init_arch\<close> of arch/i386/init.c, in the order of its calls, and \<^verbatim>\<open>main\<close> of
  kernel/kernel.c up to the endless loop of \<^verbatim>\<open>handle_net\<close>. What the machine offers (memory map, BIOS
  area, ports, PCI configuration space) and the addresses that the linker chooses are arguments. The
  lemmas put together what the components show of their own initialisation.
\<close>

subsection \<open>Operations\<close>

record 's platform =
  pf_ards :: "ards list"
  pf_bios :: "nat \<Rightarrow> u8"
  pf_pci :: "'s pci_hw"
  pf_env :: irq_env
  pf_handler :: "handler \<Rightarrow> u32"
  pf_timer :: u32
  pf_tss :: u32
  pf_junk :: "nat \<Rightarrow> page"
  pf_stack :: "u32 list"

record 's machine =
  m_tty :: tty_state
  m_vm :: vm
  m_gdt :: "descriptor list"
  m_idt :: "gate list"
  m_idt_base :: nat
  m_hw :: 's
  m_pci :: "pci_device_desc list"
  m_routing :: "nat option"
  m_penalty :: "u32 list"
  m_irqs :: "irq_entry list"
  m_ports :: port_log

definition init_arch :: "'s platform \<Rightarrow> 's machine \<Rightarrow> 's machine res" where
  "init_arch pf m =
     (let tt = init_tty (pf_stack pf) (m_tty m); rd = ir_read (pf_env pf) in
      rbind (reset_paging (load_memory_size (pf_ards pf)) (pf_junk pf) (frames (m_vm m))) (\<lambda>v.
      rbind (reset_gdt (pf_tss pf) (m_gdt m)) (\<lambda>gdt.
      rbind (init_idt (pf_handler pf) (mem_map v)) (\<lambda>(ps, base, limit, idt).
      rbind (init_8259A rd (pf_handler pf) (m_ports m) idt) (\<lambda>(lg, idt').
      rbind (pci_select_drivers (pf_pci pf) (m_hw m)) (\<lambda>(hw, pci).
      rbind (pcibios_irq_init (pf_bios pf) (m_penalty m)) (\<lambda>(rt, pen).
      rmap (\<lambda>(tbl, lg'). \<lparr>m_tty = tt, m_vm = v\<lparr>mem_map := ps\<rparr>, m_gdt = gdt, m_idt = idt', m_idt_base = base, m_hw = hw,
               m_pci = pci, m_routing = rt, m_penalty = pen, m_irqs = tbl, m_ports = lg'\<rparr>)
        (timer_init rd (pf_timer pf) (m_irqs m) lg))))))))"

text \<open>
  The values of the card's ports and the addresses of its three allocations are \<open>rd\<close>, \<open>a\<close>, \<open>b\<close>, \<open>s\<close>; the
  last arguments are the globals of the other files before \<^verbatim>\<open>main\<close>.
\<close>

definition main_start :: "'s platform \<Rightarrow> (u16 \<Rightarrow> u16) \<Rightarrow> u32 \<Rightarrow> u32 \<Rightarrow> u32 \<Rightarrow> controller \<Rightarrow> (nat \<Rightarrow> net_event list) \<Rightarrow> (nat \<Rightarrow> net_event list)
    \<Rightarrow> 's machine \<Rightarrow> vfs \<Rightarrow> kb_state \<Rightarrow> skb_state \<Rightarrow> nic option net \<Rightarrow> ('s machine \<times> kernel) res" where
  "main_start pf rd a b s kbc env1 env2 m fs kb q net =
     rbind (init_arch pf m) (\<lambda>m1.
     rmap (\<lambda>k. (m1, k))
       (main_network (am79c793 (m_pci m1) rd a b s) (pf_env pf) kbc env1 env2
          \<lparr>k_threads = no_threads (m_vm m1) (init_rootfs fs), k_kb = kb, k_queue = q, k_net = net,
           k_irqs = m_irqs m1, k_ports = m_ports m1\<rparr>))"

subsection \<open>The lines of the controller\<close>

lemma masks_after_commands:
  assumes "mask_registers rd"
  shows "rd (lg @ init_8259A_commands) INT_M_CTLMASK = 0xFF" "rd (lg @ init_8259A_commands) INT_S_CTLMASK = 0xFF"
proof -
  define xs where "xs = lg @ take 8 init_8259A_commands"
  have "lg @ init_8259A_commands = (xs @ [(0xFF, INT_M_CTLMASK)]) @ [(0xFF, INT_S_CTLMASK)]"
    by (simp add: xs_def init_8259A_commands_def)
  then show "rd (lg @ init_8259A_commands) INT_M_CTLMASK = 0xFF" "rd (lg @ init_8259A_commands) INT_S_CTLMASK = 0xFF"
    by (simp_all only: mask_write[OF assms] ports_distinct if_True if_False simp_thms)
qed

lemma commands_mask_all: "mask_registers rd \<Longrightarrow> n < 16 \<Longrightarrow> line_masked rd (lg @ init_8259A_commands) n"
proof -
  assume "mask_registers rd" "n < 16"
  moreover have "bit (0xFF :: u8) k" if "k < 8" for k
  proof -
    have "(0xFF :: u8) = - 1" by simp
    then show ?thesis using that by (simp only: bit_minus_1_iff) simp
  qed
  moreover have "n < 8 \<or> n - 8 < 8" using \<open>n < 16\<close> by arith
  ultimately show ?thesis by (auto simp: line_masked_def masks_after_commands)
qed

lemma timer_ports:
  assumes "mask_registers rd"
  shows "line_masked rd (lg @ [(u, 0x43), (v, 0x40), (w, 0x40)]) n = line_masked rd lg n"
proof -
  have p: "(0x43 :: u16) \<noteq> INT_M_CTLMASK" "(0x43 :: u16) \<noteq> INT_S_CTLMASK" "(0x40 :: u16) \<noteq> INT_M_CTLMASK" "(0x40 :: u16) \<noteq> INT_S_CTLMASK"
    by (simp_all add: INT_M_CTLMASK_def INT_S_CTLMASK_def)
  have "lg @ [(u, 0x43), (v, 0x40), (w, 0x40)] = ((lg @ [(u, 0x43)]) @ [(v, 0x40)]) @ [(w, 0x40)]" by simp
  then show ?thesis by (simp only: line_masked_def mask_write[OF assms] p if_False)
qed

text \<open>After the controller and the clock are set up, lines 0 and 2 are open and no other.\<close>

lemma lines_after_init:
  assumes "mask_registers rd" and "init_8259A rd addr lg idt = Inr (lg1, idt')" and "timer_init rd h tbl lg1 = Inr (tbl', lg2)"
    and "n < 16"
  shows "line_masked rd lg2 n \<longleftrightarrow> n \<noteq> 0 \<and> n \<noteq> 2"
proof -
  have "lg1 = enable_8259A_irq rd CASCADE_IRQ (lg @ init_8259A_commands)"
    using assms(2) by (auto simp: init_8259A_def elim!: rmapE)
  then have "line_masked rd lg1 n \<longleftrightarrow> n \<noteq> 2"
    using irq_masking(1)[OF assms(1,4), of CASCADE_IRQ] commands_mask_all[OF assms(1,4)] by (simp add: CASCADE_IRQ_def)
  moreover obtain u v w where "lg2 = enable_8259A_irq rd CLOCK_IRQ (lg1 @ [(u, 0x43), (v, 0x40), (w, 0x40)])"
    using assms(3) by (auto simp: timer_init_def Let_def elim!: rmapE)
  ultimately show ?thesis
    using irq_masking(1)[OF assms(1,4), of CLOCK_IRQ] timer_ports[OF assms(1)] by (auto simp: CLOCK_IRQ_def)
qed

subsection \<open>The steps return\<close>

text \<open>A page is found while one is free.\<close>

definition free_count :: "page list \<Rightarrow> nat" where
  "free_count ps = card {i. i < length ps \<and> \<not> in_use (ps ! i)}"

lemma get_free_page_ok:
  assumes "k < free_count ps"
  shows "\<exists>ps' a. get_free_page ps = Inr (ps', a) \<and> k \<le> free_count ps'"
proof -
  have "{i. i < length ps \<and> \<not> in_use (ps ! i)} \<noteq> {}" using assms by (metis card.empty free_count_def not_less_zero)
  then have "\<not> (\<forall>p \<in> set ps. in_use p)" by auto
  then obtain ps' a where g: "get_free_page ps = Inr (ps', a)"
    using get_free_page_Inl[of ps] by (cases "get_free_page ps") auto
  obtain i where i: "i < length ps" "\<not> in_use (ps ! i)" "in_use (ps' ! i)" "length ps' = length ps" "\<forall>j. j \<noteq> i \<longrightarrow> ps' ! j = ps ! j"
    using get_free_page_Inr[OF g] by blast
  then have "{j. j < length ps' \<and> \<not> in_use (ps' ! j)} = {j. j < length ps \<and> \<not> in_use (ps ! j)} - {i}" by auto
  then have "free_count ps' = free_count ps - 1" using i by (simp add: free_count_def)
  then show ?thesis using g assms by auto
qed

lemma init_idt_ok:
  assumes "3 < free_count ps"
  shows "\<exists>ps' b l idt. init_idt addr ps = Inr (ps', b, l, idt)"
proof -
  have d: "distinct (map fst idt_vectors)" and l: "256 \<le> length (replicate (PAGE_SIZE div 8) zero_gate)"
    using vectors_distinct by (auto simp: PAGE_SIZE_def)
  obtain idt where i: "install addr idt_vectors (replicate (PAGE_SIZE div 8) zero_gate) = Inr idt"
    using install_spec[OF d l] by blast
  obtain p1 a1 where 1: "get_free_page ps = Inr (p1, a1)" "3 \<le> free_count p1" using get_free_page_ok[OF assms] by blast
  then have "2 < free_count p1" by simp
  then obtain p2 a2 where 2: "get_free_page p1 = Inr (p2, a2)" "2 \<le> free_count p2" using get_free_page_ok by blast
  then have "1 < free_count p2" by simp
  then obtain p3 a3 where 3: "get_free_page p2 = Inr (p3, a3)" "1 \<le> free_count p3" using get_free_page_ok by blast
  then have "0 < free_count p3" by simp
  then obtain p4 a4 where 4: "get_free_page p3 = Inr (p4, a4)" using get_free_page_ok by blast
  show ?thesis by (simp add: init_idt_def 1(1) 2(1) 3(1) 4 i)
qed

lemma maps_mem_map: "maps (v\<lparr>mem_map := ps\<rparr>) = maps v"
  by (intro ext) (simp add: maps_def pte_at_def)

text \<open>What \<^verbatim>\<open>init_arch\<close> leaves, for the components that rely on it.\<close>

lemma init_arch_ok:
  assumes "0x800000 \<le> sint (load_memory_size (pf_ards pf))" and "length (m_gdt m) = GDT_SIZE"
    and "length (m_irqs m) = 16" and "length (m_penalty m) = 16" and rd: "mask_registers (ir_read (pf_env pf))"
    and pci: "pci_select_drivers (pf_pci pf) (m_hw m) = Inr (hw, pci)"
  defines "n \<equiv> (min (unat (load_memory_size (pf_ards pf))) (unat HIGH_MEMORY) + 0x3FFFFF) div 0x400000"
  shows "\<exists>m1. init_arch pf m = Inr m1 \<and> m_pci m1 = pci \<and>
    (\<forall>p < 0x400000 * n. maps (m_vm m1) PAGE_DIR_FRAME (of_nat (va p)) = Some (p div 0x1000)) \<and>
    described 0 0xFFFFF 0xC09A (m_gdt m1 ! (0x8 div 8)) \<and>
    (\<forall>(v, h, d) \<in> set (idt_vectors @ hwint_vectors). m_idt m1 ! unat v = mk_gate (pf_handler pf h) d) \<and>
    m_irqs m1 = (m_irqs m)[0 := (m_irqs m ! 0)\<lparr>ie_handler := pf_timer pf, ie_dev_id := 0\<rparr>] \<and>
    (\<forall>j < 16. line_masked (ir_read (pf_env pf)) (m_ports m1) j \<longleftrightarrow> j \<noteq> 0 \<and> j \<noteq> 2)"
proof -
  let ?rd = "ir_read (pf_env pf)"
  obtain v where v: "reset_paging (load_memory_size (pf_ards pf)) (pf_junk pf) (frames (m_vm m)) = Inr v"
    "1000 < card (free_frames v)"
    "\<forall>p < 0x400000 * n. maps v PAGE_DIR_FRAME (of_nat (va p)) = Some (p div 0x1000)"
    using boot_memory_ok[OF assms(1), of "pf_junk pf" "frames (m_vm m)"] unfolding boot_memory_def n_def by blast
  obtain gdt where g: "reset_gdt (pf_tss pf) (m_gdt m) = Inr gdt" "described 0 0xFFFFF 0xC09A (gdt ! (0x8 div 8))"
    using reset_gdt_segments[OF assms(2), of "pf_tss pf"] by blast
  have "free_frames v = {i. i < length (mem_map v) \<and> \<not> in_use (mem_map v ! i)}" by (auto simp: free_frames_def used_def)
  then have "3 < free_count (mem_map v)" using v(2) by (simp add: free_count_def)
  then obtain ps base limit idt where i: "init_idt (pf_handler pf) (mem_map v) = Inr (ps, base, limit, idt)"
    using init_idt_ok by blast
  obtain idt' where i': "install (pf_handler pf) hwint_vectors idt = Inr idt'"
    "\<forall>(v, h, d) \<in> set (idt_vectors @ hwint_vectors). idt' ! unat v = mk_gate (pf_handler pf h) d"
    using init_gates[OF init_idt_Inr[OF i]] by blast
  obtain lg1 where c: "init_8259A ?rd (pf_handler pf) (m_ports m) idt = Inr (lg1, idt')"
    using i'(1) by (simp add: init_8259A_def)
  obtain rt pen where p: "pcibios_irq_init (pf_bios pf) (m_penalty m) = Inr (rt, pen)"
    using routing_table_found[OF assms(4), of "pf_bios pf"] by blast
  obtain lg2 where t: "timer_init ?rd (pf_timer pf) (m_irqs m) lg1 =
      Inr ((m_irqs m)[0 := (m_irqs m ! 0)\<lparr>ie_handler := pf_timer pf, ie_dev_id := 0\<rparr>], lg2)"
    using assms(3) by (simp add: timer_init_def register_irq_def arr_get_def arr_set_def CLOCK_IRQ_def Let_def)
  have "\<forall>j < 16. line_masked ?rd lg2 j \<longleftrightarrow> j \<noteq> 0 \<and> j \<noteq> 2" using lines_after_init[OF rd c t] by blast
  then show ?thesis using v(3) g(2) i'(2)
    by (simp add: init_arch_def Let_def v(1) g(1) i c pci p t maps_mem_map)
qed

subsection \<open>Properties\<close>

text \<open>
  C1. The start of the kernel, on a machine with 8 MB or more (and below 2 GB), with the card on one of the lines 2 to
  15 of the PCI bus, a keyboard controller that answers and two hosts that answer: \<^verbatim>\<open>main\<close> reaches the endless loop
  of \<^verbatim>\<open>handle_net\<close>. Physical memory is mapped at 3 GB, the kernel's code segment is flat, every vector leads to its
  handler, the clock, the keyboard and the card have their handlers in the table, exactly their lines and the
  cascade are open (a card on line 8 would stay masked), and the datagram is in the transmit ring.
\<close>

theorem kernel_starts:
  assumes "0x800000 \<le> sint (load_memory_size (pf_ards pf))" and "length (m_gdt m) = GDT_SIZE"
    and "length (m_irqs m) = 16" and "length (m_penalty m) = 16" and "mask_registers (ir_read (pf_env pf))"
    and "pci_select_drivers (pf_pci pf) (m_hw m) = Inr (hw, pci)" and "pci_find_device pci 0x1022 0x2000 = Some p"
    and "line = unat (interrupt_line p)" and "1 < line" and "line < 16"
    and "keyboard_init kbc kb = Inr kb'" and "queue_repr q []"
    and "answered_in n1 0x0A000204 mac1 env1" and "answered_in n2 0x0A000202 mac2 env2" and "n1 + n2 < 14"
    and "n = (min (unat (load_memory_size (pf_ards pf))) (unat HIGH_MEMORY) + 0x3FFFFF) div 0x400000"
  shows "\<exists>m' k c. main_start pf rd a b s kbc env1 env2 m fs kb q net = Inr (m', k) \<and>
    (\<forall>x < 0x400000 * n. maps (m_vm m') PAGE_DIR_FRAME (of_nat (va x)) = Some (x div 0x1000)) \<and>
    described 0 0xFFFFF 0xC09A (m_gdt m' ! (0x8 div 8)) \<and>
    (\<forall>(v, h, d) \<in> set (idt_vectors @ hwint_vectors). m_idt m' ! unat v = mk_gate (pf_handler pf h) d) \<and>
    ie_handler (k_irqs k ! 0) = pf_timer pf \<and> ie_handler (k_irqs k ! 1) = ir_keyboard (pf_env pf) \<and>
    ie_handler (k_irqs k ! line) = ir_card (pf_env pf) \<and>
    {j. j < 16 \<and> \<not> line_masked (ir_read (pf_env pf)) (k_ports k) j} = {0, 1, 2} \<union> ({line} - {8}) \<and>
    arp_find (k_net k) 0x0A000204 = Inr (Some mac1) \<and> arp_find (k_net k) 0x0A000202 = Inr (Some mac2) \<and>
    custom_data (net_dev (k_net k)) = Some c \<and> sent c (n1 + n2 + 2) (hello_frame mac2 (dev_addr (net_dev (k_net k))))"
proof -
  let ?rd = "ir_read (pf_env pf)"
  obtain m1 where m1: "init_arch pf m = Inr m1" "m_pci m1 = pci"
    "\<forall>x < 0x400000 * n. maps (m_vm m1) PAGE_DIR_FRAME (of_nat (va x)) = Some (x div 0x1000)"
    "described 0 0xFFFFF 0xC09A (m_gdt m1 ! (0x8 div 8))"
    "\<forall>(v, h, d) \<in> set (idt_vectors @ hwint_vectors). m_idt m1 ! unat v = mk_gate (pf_handler pf h) d"
    "m_irqs m1 = (m_irqs m)[0 := (m_irqs m ! 0)\<lparr>ie_handler := pf_timer pf, ie_dev_id := 0\<rparr>]"
    "\<forall>j < 16. line_masked ?rd (m_ports m1) j \<longleftrightarrow> j \<noteq> 0 \<and> j \<noteq> 2"
    using init_arch_ok[OF assms(1-6)] unfolding assms(16)[symmetric] by blast
  let ?k = "\<lparr>k_threads = no_threads (m_vm m1) (init_rootfs fs), k_kb = kb, k_queue = q, k_net = net,
    k_irqs = m_irqs m1, k_ports = m_ports m1\<rparr>"
  have h: "unat (interrupt_line p) < 16" "keyboard_init kbc (k_kb ?k) = Inr kb'" "length (k_irqs ?k) = 16" "queue_repr (k_queue ?k) []"
    using assms(3,8,10-12) m1(6) by simp_all
  obtain k1 k2 k' c where r: "main_network (am79c793 pci rd a b s) (pf_env pf) kbc env1 env2 ?k = Inr k'"
    "claimed (pf_env pf) 1 (ir_keyboard (pf_env pf)) 0 ?k k1" "claimed (pf_env pf) line (ir_card (pf_env pf)) (ir_device (pf_env pf)) k1 k2"
    "k_irqs k' = k_irqs k2" "k_ports k' = k_ports k2"
    "arp_find (k_net k') 0x0A000204 = Inr (Some mac1)" "arp_find (k_net k') 0x0A000202 = Inr (Some mac2)"
    "custom_data (net_dev (k_net k')) = Some c" "sent c (n1 + n2 + 2) (hello_frame mac2 (dev_addr (net_dev (k_net k'))))"
    using main_network_runs[OF assms(7) h(1,2) assms(5) h(3,4) assms(13-15), of rd a b s] unfolding assms(8) by blast
  have t: "ie_handler (k_irqs k' ! 0) = pf_timer pf" "ie_handler (k_irqs k' ! 1) = ir_keyboard (pf_env pf)"
    "ie_handler (k_irqs k' ! line) = ir_card (pf_env pf)"
    using r(2-4) m1(6) assms(3,9,10) by (simp_all add: claimed_def)
  have o: "\<not> line_masked ?rd (k_ports k') j \<longleftrightarrow> j \<in> {0, 1, 2} \<union> ({line} - {8})" if "j < 16" for j
    using that r(2,3,5) m1(7) by (auto simp: claimed_def)
  have u: "j < 16" if "j \<in> {0, 1, 2} \<union> ({line} - {8})" for j using that assms(10) by auto
  have "{j. j < 16 \<and> \<not> line_masked ?rd (k_ports k') j} = {0, 1, 2} \<union> ({line} - {8})"
  proof (intro equalityI subsetI)
    fix j
    assume "j \<in> {j. j < 16 \<and> \<not> line_masked ?rd (k_ports k') j}"
    then have j: "j < 16" "\<not> line_masked ?rd (k_ports k') j" by simp_all
    show "j \<in> {0, 1, 2} \<union> ({line} - {8})" by (rule iffD1[OF o[OF j(1)] j(2)])
  next
    fix j
    assume a: "j \<in> {0, 1, 2} \<union> ({line} - {8})"
    have "\<not> line_masked ?rd (k_ports k') j" by (rule iffD2[OF o[OF u[OF a]] a])
    then show "j \<in> {j. j < 16 \<and> \<not> line_masked ?rd (k_ports k') j}" using u[OF a] by simp
  qed
  moreover have "main_start pf rd a b s kbc env1 env2 m fs kb q net = Inr (m1, k')"
    using m1(1,2) r(1) by (simp add: main_start_def)
  ultimately show ?thesis using m1(3-5) t r(6-9) by blast
qed

text \<open>A machine with 32 MB and the card on line 11.\<close>

definition sample_platform :: "unit platform" where
  "sample_platform = \<lparr>pf_ards = [\<lparr>baseAddrLow = 0x100000, baseAddrHigh = 0, lengthLow = 0x1F00000, lengthHigh = 0, ard_type = 1\<rparr>],
     pf_bios = sample_bios, pf_pci = one_card,
     pf_env = \<lparr>ir_read = last_written, ir_keyboard = 0xC0110000, ir_card = 0xC0120000, ir_device = 0xC0130000\<rparr>,
     pf_handler = (\<lambda>h. 0xC0100000), pf_timer = 0xC0140000, pf_tss = 0xC0150000,
     pf_junk = (\<lambda>i. \<lparr>pg_count = 0, pg_flags = 0\<rparr>), pf_stack = []\<rparr>"

definition sample_machine :: "unit machine" where
  "sample_machine = \<lparr>m_tty = three_ttys, m_vm = \<lparr>mem_map = [], frames = (\<lambda>f i. 0)\<rparr>,
     m_gdt = replicate GDT_SIZE (create_descriptor 0 0 0), m_idt = [], m_idt_base = 0, m_hw = (), m_pci = [], m_routing = None,
     m_penalty = pirq_penalty0, m_irqs = irq_table0 0xC0160000, m_ports = []\<rparr>"

theorem kernel_starts_witness:
  "\<exists>m' k c. main_start sample_platform (\<lambda>_. 0x1234) 0xC0200000 0xC0201000 0xC0202000 (\<lambda>n p. if p = KB_DATA then KB_ACK else 0)
      (\<lambda>j. if j = 2 then [Card (host_dma 0x0A000204 2), Nic_irq 0x0400, Tick] else [])
      (\<lambda>j. if j = 0 then [Card (host_dma 0x0A000202 3), Nic_irq 0x0400, Tick] else [])
      sample_machine rooted idle_kb skb_empty \<lparr>arp_map = arp_init, net_dev = sample_dev None\<rparr> = Inr (m', k) \<and>
    maps (m_vm m') PAGE_DIR_FRAME (of_nat (va 0x1FFFFFF)) = Some 0x1FFF \<and>
    {j. j < 16 \<and> \<not> line_masked last_written (k_ports k) j} = {0, 1, 2, 11} \<and>
    custom_data (net_dev (k_net k)) = Some c \<and> sent c 4 (hello_frame (replicate 6 3) (dev_addr (net_dev (k_net k))))"
proof -
  let ?pf = "sample_platform" and ?m = "sample_machine"
  have l: "load_memory_size (pf_ards ?pf) = 0x2000000"
    by (simp add: sample_platform_def load_memory_size_def ARD_TYPE_FREE_def)
  have n: "8 = (min (unat (load_memory_size (pf_ards ?pf))) (unat HIGH_MEMORY) + 0x3FFFFF) div 0x400000"
    unfolding l by (simp add: HIGH_MEMORY_def)
  have m: "0x800000 \<le> sint (load_memory_size (pf_ards ?pf))" unfolding l by simp
  have f: "length (m_gdt ?m) = GDT_SIZE" "length (m_irqs ?m) = 16" "length (m_penalty ?m) = 16" "mask_registers (ir_read (pf_env ?pf))"
    by (simp_all add: sample_machine_def sample_platform_def irq_table0_def IRQ_NUMBER_def pirq_penalty0_def last_written_registers)
  obtain d where d: "pci_select_drivers (pf_pci ?pf) (m_hw ?m) = Inr ((), [d])" "vendor_id d = 0x1022" "device_id d = 0x2000"
    "interrupt_line d = 11"
    using one_card_found by (auto simp: sample_platform_def sample_machine_def)
  have c: "pci_find_device [d] 0x1022 0x2000 = Some d" "11 = unat (interrupt_line d)" using d by simp_all
  obtain kb where kb: "keyboard_init (\<lambda>n p. if p = KB_DATA then KB_ACK else 0) idle_kb = Inr kb"
    using keyboard_init_ready by blast
  have "1 < (11 :: nat)" "11 < (16 :: nat)" "2 + 0 < (14 :: nat)" by simp_all
  from kernel_starts[OF m f d(1) c this(1,2) kb queue_repr_empty host_answers host_answers this(3) n]
  obtain m' k c where w: "main_start ?pf (\<lambda>_. 0x1234) 0xC0200000 0xC0201000 0xC0202000 (\<lambda>n p. if p = KB_DATA then KB_ACK else 0)
      (\<lambda>j. if j = 2 then [Card (host_dma 0x0A000204 2), Nic_irq 0x0400, Tick] else [])
      (\<lambda>j. if j = 0 then [Card (host_dma 0x0A000202 3), Nic_irq 0x0400, Tick] else [])
      ?m rooted idle_kb skb_empty \<lparr>arp_map = arp_init, net_dev = sample_dev None\<rparr> = Inr (m', k)"
    "\<forall>x < 0x400000 * 8. maps (m_vm m') PAGE_DIR_FRAME (of_nat (va x)) = Some (x div 0x1000)"
    "{j. j < 16 \<and> \<not> line_masked (ir_read (pf_env ?pf)) (k_ports k) j} = {0, 1, 2} \<union> ({11} - {8})"
    "custom_data (net_dev (k_net k)) = Some c" "sent c (2 + 0 + 2) (hello_frame (replicate 6 3) (dev_addr (net_dev (k_net k))))"
    by blast
  have "maps (m_vm m') PAGE_DIR_FRAME (of_nat (va 0x1FFFFFF)) = Some 0x1FFF" using w(2)[rule_format, of "0x1FFFFFF"] by simp
  moreover have "{j. j < 16 \<and> \<not> line_masked last_written (k_ports k) j} = {0, 1, 2, 11}"
    using w(3) by (simp add: sample_platform_def) auto
  moreover have "sent c 4 (hello_frame (replicate 6 3) (dev_addr (net_dev (k_net k))))" using w(5) by simp
  ultimately show ?thesis using w(1,4) by blast
qed

end
