(* ===== verification/Ports.thy ===== *)
theory Ports
  imports Vga Pci Idt
begin

text \<open>
  include/arch/i386/io.h: the functions for input from and output to ports, each a single instruction
  or a repeated string instruction. What passed on the ports is one history of events for the whole
  machine, and a device is a function that gives the answer to a read from the history before it.
  The drivers of the other theories keep their own, narrower view of their ports: the lemmas here
  show that their routines, written with the functions of io.h, do what these views say.
\<close>

unbundle bit_operations_syntax

subsection \<open>The history of the ports\<close>

datatype width = W8 | W16 | W32

datatype io_event =
    PortIn width u16 u32     \<comment> \<open>width, port, and the value that was read\<close>
  | PortOut width u16 u32

type_synonym device = "io_event list \<Rightarrow> width \<Rightarrow> u16 \<Rightarrow> u32"

subsection \<open>Single accesses\<close>

text \<open>The port that \<^verbatim>\<open>outb %al,$0x80\<close> writes to, to let some time pass.\<close>

definition DELAY_PORT :: u16 where "DELAY_PORT = 0x80"

definition inb :: "device \<Rightarrow> u16 \<Rightarrow> io_event list \<Rightarrow> u8 \<times> io_event list" where
  "inb dev port h = (let v = ucast (dev h W8 port) in (v, h @ [PortIn W8 port (ucast v)]))"

definition inw :: "device \<Rightarrow> u16 \<Rightarrow> io_event list \<Rightarrow> u16 \<times> io_event list" where
  "inw dev port h = (let v = ucast (dev h W16 port) in (v, h @ [PortIn W16 port (ucast v)]))"

definition inl :: "device \<Rightarrow> u16 \<Rightarrow> io_event list \<Rightarrow> u32 \<times> io_event list" where
  "inl dev port h = (let v = dev h W32 port in (v, h @ [PortIn W32 port v]))"

definition outb_io :: "u8 \<Rightarrow> u16 \<Rightarrow> io_event list \<Rightarrow> io_event list" where
  "outb_io v port h = h @ [PortOut W8 port (ucast v)]"

definition outw :: "u16 \<Rightarrow> u16 \<Rightarrow> io_event list \<Rightarrow> io_event list" where
  "outw v port h = h @ [PortOut W16 port (ucast v)]"

definition outl :: "u32 \<Rightarrow> u16 \<Rightarrow> io_event list \<Rightarrow> io_event list" where
  "outl v port h = h @ [PortOut W32 port v]"

text \<open>The forms with a pause: the low byte of the accumulator goes to port 0x80 as well.\<close>

definition inb_p :: "device \<Rightarrow> u16 \<Rightarrow> io_event list \<Rightarrow> u8 \<times> io_event list" where
  "inb_p dev port h = (case inb dev port h of (v, h1) \<Rightarrow> (v, outb_io v DELAY_PORT h1))"

definition inw_p :: "device \<Rightarrow> u16 \<Rightarrow> io_event list \<Rightarrow> u16 \<times> io_event list" where
  "inw_p dev port h = (case inw dev port h of (v, h1) \<Rightarrow> (v, outb_io (ucast v) DELAY_PORT h1))"

definition inl_p :: "device \<Rightarrow> u16 \<Rightarrow> io_event list \<Rightarrow> u32 \<times> io_event list" where
  "inl_p dev port h = (case inl dev port h of (v, h1) \<Rightarrow> (v, outb_io (ucast v) DELAY_PORT h1))"

definition outb_p :: "u8 \<Rightarrow> u16 \<Rightarrow> io_event list \<Rightarrow> io_event list" where
  "outb_p v port h = outb_io v DELAY_PORT (outb_io v port h)"

definition outw_p :: "u16 \<Rightarrow> u16 \<Rightarrow> io_event list \<Rightarrow> io_event list" where
  "outw_p v port h = outb_io (ucast v) DELAY_PORT (outw v port h)"

definition outl_p :: "u32 \<Rightarrow> u16 \<Rightarrow> io_event list \<Rightarrow> io_event list" where
  "outl_p v port h = outb_io (ucast v) DELAY_PORT (outl v port h)"

subsection \<open>String instructions\<close>

text \<open>
  \<^verbatim>\<open>cld\<close> makes the address go up. \<^verbatim>\<open>rep\<close> repeats the instruction \<^verbatim>\<open>ecx\<close> times, none at all for 0; the
  address in \<^verbatim>\<open>edi\<close> or \<^verbatim>\<open>esi\<close> is a register of 32 bits and wraps.
\<close>

type_synonym memory = "u32 \<Rightarrow> u8"

fun store_bytes :: "u32 \<Rightarrow> u8 list \<Rightarrow> memory \<Rightarrow> memory" where
  "store_bytes a [] m = m"
| "store_bytes a (b # bs) m = store_bytes (a + 1) bs (m(a := b))"

text \<open>
  The repeated input \<open>rd\<close> of a value that is stored with the bytes \<open>enc\<close>, and the repeated output
  \<open>wr\<close> of a value of \<open>k\<close> bytes that \<open>ld\<close> loads.
\<close>

fun rep_ins :: "(io_event list \<Rightarrow> 'v \<times> io_event list) \<Rightarrow> ('v \<Rightarrow> u8 list) \<Rightarrow> nat \<Rightarrow> u32 \<Rightarrow> memory \<Rightarrow>
                io_event list \<Rightarrow> memory \<times> io_event list" where
  "rep_ins rd enc 0 edi m h = (m, h)"
| "rep_ins rd enc (Suc ecx) edi m h =
     (case rd h of (v, h1) \<Rightarrow>
        rep_ins rd enc ecx (edi + of_nat (length (enc v))) (store_bytes edi (enc v) m) h1)"

fun rep_outs :: "(u32 \<Rightarrow> memory \<Rightarrow> 'v) \<Rightarrow> nat \<Rightarrow> ('v \<Rightarrow> io_event list \<Rightarrow> io_event list) \<Rightarrow> nat \<Rightarrow> u32 \<Rightarrow>
                 memory \<Rightarrow> io_event list \<Rightarrow> io_event list" where
  "rep_outs ld k wr 0 esi m h = h"
| "rep_outs ld k wr (Suc ecx) esi m h = rep_outs ld k wr ecx (esi + of_nat k) m (wr (ld esi m) h)"

definition enc8 :: "u8 \<Rightarrow> u8 list" where "enc8 v = [v]"
definition ld_mem8 :: "u32 \<Rightarrow> memory \<Rightarrow> u8" where "ld_mem8 a m = m a"
definition ld_mem16 :: "u32 \<Rightarrow> memory \<Rightarrow> u16" where "ld_mem16 a m = of_le16 (m a) (m (a + 1))"
definition ld_mem32 :: "u32 \<Rightarrow> memory \<Rightarrow> u32" where
  "ld_mem32 a m = of_le32 (m a) (m (a + 1)) (m (a + 2)) (m (a + 3))"

definition insb :: "device \<Rightarrow> u16 \<Rightarrow> u32 \<Rightarrow> u32 \<Rightarrow> memory \<Rightarrow> io_event list \<Rightarrow> memory \<times> io_event list" where
  "insb dev port addr n m h = rep_ins (inb dev port) enc8 (unat n) addr m h"

definition insw :: "device \<Rightarrow> u16 \<Rightarrow> u32 \<Rightarrow> u32 \<Rightarrow> memory \<Rightarrow> io_event list \<Rightarrow> memory \<times> io_event list" where
  "insw dev port addr n m h = rep_ins (inw dev port) le16 (unat n) addr m h"

definition insl :: "device \<Rightarrow> u16 \<Rightarrow> u32 \<Rightarrow> u32 \<Rightarrow> memory \<Rightarrow> io_event list \<Rightarrow> memory \<times> io_event list" where
  "insl dev port addr n m h = rep_ins (inl dev port) le32 (unat n) addr m h"

definition outsb :: "u16 \<Rightarrow> u32 \<Rightarrow> u32 \<Rightarrow> memory \<Rightarrow> io_event list \<Rightarrow> io_event list" where
  "outsb port addr n m h = rep_outs ld_mem8 1 (\<lambda>v. outb_io v port) (unat n) addr m h"

definition outsw :: "u16 \<Rightarrow> u32 \<Rightarrow> u32 \<Rightarrow> memory \<Rightarrow> io_event list \<Rightarrow> io_event list" where
  "outsw port addr n m h = rep_outs ld_mem16 2 (\<lambda>v. outw v port) (unat n) addr m h"

definition outsl :: "u16 \<Rightarrow> u32 \<Rightarrow> u32 \<Rightarrow> memory \<Rightarrow> io_event list \<Rightarrow> io_event list" where
  "outsl port addr n m h = rep_outs ld_mem32 4 (\<lambda>v. outl v port) (unat n) addr m h"

subsection \<open>What the string instructions transfer\<close>

definition load_bytes :: "nat \<Rightarrow> u32 \<Rightarrow> memory \<Rightarrow> u8 list" where
  "load_bytes n a m = map (\<lambda>i. m (a + of_nat i)) [0..<n]"

text \<open>The values of \<open>n\<close> reads in a row.\<close>

fun reads :: "(io_event list \<Rightarrow> 'v \<times> io_event list) \<Rightarrow> nat \<Rightarrow> io_event list \<Rightarrow> 'v list \<times> io_event list" where
  "reads rd 0 h = ([], h)"
| "reads rd (Suc n) h = (case rd h of (v, h1) \<Rightarrow> apfst ((#) v) (reads rd n h1))"

lemma store_bytes_append:
  "store_bytes a (xs @ ys) m = store_bytes (a + of_nat (length xs)) ys (store_bytes a xs m)"
  by (induction xs arbitrary: a m) (simp_all add: ac_simps)

lemma store_bytes_at:
  "length bs \<le> 4294967296 \<Longrightarrow>
   store_bytes a bs m x = (if unat (x - a) < length bs then bs ! unat (x - a) else m x)"
proof (induction bs arbitrary: a m)
  case (Cons b bs)
  have IH: "store_bytes a (b # bs) m x =
      (if unat (x - (a + 1)) < length bs then bs ! unat (x - (a + 1)) else (m(a := b)) x)"
    unfolding store_bytes.simps by (rule Cons.IH) (use Cons.prems in simp)
  show ?case
  proof (cases "x = a")
    case True
    then have "unat (x - (a + 1)) = 4294967295" by (simp add: unsigned_minus_1_eq_mask mask_eq_exp_minus_1)
    then show ?thesis using IH True Cons.prems by simp
  next
    case False
    then have "x - a \<noteq> 0" by simp
    then have "unat (x - a) = Suc (unat (x - a - 1))"
      by (metis Suc_pred' unat_gt_0 unat_minus_one)
    then show ?thesis using IH False by (simp add: diff_diff_eq)
  qed
qed simp

lemma load_bytes_store:
  assumes "length bs \<le> 4294967296"
  shows "load_bytes (length bs) a (store_bytes a bs m) = bs"
proof (rule nth_equalityI)
  fix i assume i: "i < length (load_bytes (length bs) a (store_bytes a bs m))"
  then have "unat (of_nat i :: u32) = i" using assms by (simp add: load_bytes_def unat_of_nat)
  then show "load_bytes (length bs) a (store_bytes a bs m) ! i = bs ! i"
    using i assms by (simp add: load_bytes_def store_bytes_at)
qed (simp add: load_bytes_def)

lemma load_bytes_add: "load_bytes (k + n) a m = load_bytes k a m @ load_bytes n (a + of_nat k) m"
proof -
  have "[0..<k + n] = [0..<k] @ map (\<lambda>i. i + k) [0..<n]"
    using upt_add_eq_append[of 0 k n] map_add_upt[of k n] by (simp only: add.commute)
  then show ?thesis by (simp add: load_bytes_def ac_simps)
qed

text \<open>The values in memory from an address on.\<close>

fun units :: "(u32 \<Rightarrow> memory \<Rightarrow> 'v) \<Rightarrow> nat \<Rightarrow> nat \<Rightarrow> u32 \<Rightarrow> memory \<Rightarrow> 'v list" where
  "units ld k 0 a m = []"
| "units ld k (Suc n) a m = ld a m # units ld k n (a + of_nat k) m"

text \<open>A value that occupies \<open>k\<close> bytes of memory: how it is stored, and how it is loaded.\<close>

locale transfer_unit =
  fixes enc :: "'v \<Rightarrow> u8 list" and ld :: "u32 \<Rightarrow> memory \<Rightarrow> 'v" and k :: nat
  assumes enc_length: "length (enc v) = k"
    and enc_ld: "enc (ld a m) = load_bytes k a m"
begin

lemma rep_ins_stores:
  "rep_ins rd enc n a m h = (case reads rd n h of (vs, h') \<Rightarrow> (store_bytes a (concat (map enc vs)) m, h'))"
proof (induction n arbitrary: a m h)
  case (Suc n)
  then show ?case by (cases "rd h") (auto simp: store_bytes_append enc_length apfst_def map_prod_def split: prod.splits)
qed simp

lemma rep_outs_writes: "rep_outs ld k wr n a m h = fold wr (units ld k n a m) h"
  by (induction n arbitrary: a h) simp_all

lemma units_bytes: "concat (map enc (units ld k n a m)) = load_bytes (n * k) a m"
proof (induction n arbitrary: a)
  case (Suc n)
  then show ?case by (simp add: enc_ld load_bytes_add)
qed (simp add: load_bytes_def)

text \<open>What was written from one place and is read back to another has been copied.\<close>

lemma read_back:
  assumes "reads rd n h = (units ld k n a m0, h')" and "n * k \<le> 4294967296"
  shows "\<exists>m'. rep_ins rd enc n b m h = (m', h') \<and> load_bytes (n * k) b m' = load_bytes (n * k) a m0
     \<and> (\<forall>x. n * k \<le> unat (x - b) \<longrightarrow> m' x = m x)"
proof -
  have len: "length (load_bytes (n * k) a m0) = n * k" by (simp add: load_bytes_def)
  have "rep_ins rd enc n b m h = (store_bytes b (load_bytes (n * k) a m0) m, h')"
    using assms(1) by (simp add: rep_ins_stores units_bytes)
  then show ?thesis
    using load_bytes_store[of "load_bytes (n * k) a m0" b m] assms(2) by (simp add: len store_bytes_at)
qed

end

lemma le16_of_le16 [simp]: "le16 (of_le16 a b) = [a, b]"
  by (simp add: le16_def)

lemma le32_of_le32 [simp]: "le32 (of_le32 a b c d) = [a, b, c, d]"
  unfolding le32_def of_le32_def
  by (simp, intro conjI; rule bit_word_eqI;
      auto simp: bit_or_iff bit_push_bit_iff bit_ucast_iff bit_drop_bit_eq dest: bit_imp_le_length)

interpretation byte: transfer_unit enc8 ld_mem8 1
  by unfold_locales (simp_all add: enc8_def ld_mem8_def load_bytes_def)

interpretation short: transfer_unit le16 ld_mem16 2
  by unfold_locales (simp_all add: ld_mem16_def load_bytes_def upt_rec)

interpretation long: transfer_unit le32 ld_mem32 4
  by unfold_locales (simp_all add: ld_mem32_def load_bytes_def upt_rec)

text \<open>
  A block of 16-bit values written to a port of a device that plays it back, and then read from
  this port to another place, arrives there; no other byte of memory changes.
\<close>

lemma insw_reads_back_outsw:
  assumes "reads (inw dev port) (unat n) (outsw port a n m h) = (units ld_mem16 2 (unat n) a m, h')"
    and "n \<le> 0x80000000"
  shows "\<exists>m'. insw dev port b n m (outsw port a n m h) = (m', h')
     \<and> load_bytes (2 * unat n) b m' = load_bytes (2 * unat n) a m
     \<and> (\<forall>x. 2 * unat n \<le> unat (x - b) \<longrightarrow> m' x = m x)"
proof -
  have "unat n * 2 \<le> 4294967296" using assms(2) by (simp add: word_le_nat_alt)
  from short.read_back[OF assms(1) this] show ?thesis by (simp add: insw_def mult.commute)
qed

subsection \<open>The views of the drivers\<close>

text \<open>
  A driver that reads and writes bytes sees a state of its own: \<open>rd s p\<close> is what its device answers
  there, \<open>wr v p s\<close> the state after a write. Such a view follows the history if both agree.
\<close>

locale byte_view =
  fixes dev :: device and view :: "io_event list \<Rightarrow> 's"
    and rd :: "'s \<Rightarrow> u16 \<Rightarrow> u8" and wr :: "u8 \<Rightarrow> u16 \<Rightarrow> 's \<Rightarrow> 's"
  assumes read_value: "ucast (dev h W8 p) = rd (view h) p"
    and view_in: "view (h @ [PortIn w p x]) = view h"
    and view_out: "view (h @ [PortOut W8 p (ucast v)]) = wr v p (view h)"
begin

lemma view_inb: "inb dev p h = (v, h') \<Longrightarrow> v = rd (view h) p \<and> view h' = view h"
  by (auto simp: inb_def Let_def read_value view_in)

lemma view_outb: "view (outb_io v p h) = wr v p (view h)"
  by (simp add: outb_io_def view_out)

text \<open>\<^verbatim>\<open>outb(f(inb(p)), p)\<close>.\<close>

lemma view_modify: "view (case inb dev p h of (v, h1) \<Rightarrow> outb_io (f v) p h1) = wr (f (rd (view h) p)) p (view h)"
  using view_inb by (auto simp: view_outb split: prod.split)

lemma view_outbs: "view (fold (\<lambda>(v, p). outb_io v p) vs h) = fold (\<lambda>(v, p). wr v p) vs (view h)"
  by (induction vs arbitrary: h) (auto simp: view_outb)

end

text \<open>The log of the bytes that were written, with the answers of a device that depends on it only.\<close>

fun written :: "io_event list \<Rightarrow> port_log" where
  "written [] = []"
| "written (PortOut W8 p x # h) = (ucast x, p) # written h"
| "written (e # h) = written h"

definition byte_device :: "(port_log \<Rightarrow> u16 \<Rightarrow> u8) \<Rightarrow> device" where
  "byte_device rd h w p = ucast (rd (written h) p)"

lemma written_append [simp]: "written (h @ h') = written h @ written h'"
  by (induction h rule: written.induct) simp_all

lemma ucast_up_down_8 [simp]: "ucast (ucast (v :: u8) :: u32) = v"
  by (rule bit_word_eqI) (auto simp: bit_ucast_iff)

interpretation logged: byte_view "byte_device rd" written rd "\<lambda>v p lg. lg @ [(v, p)]" for rd
proof unfold_locales
  fix h w p x show "written (h @ [PortIn w p x]) = written h" by (cases w) simp_all
qed (simp_all add: byte_device_def)

interpretation screen: byte_view "byte_device rd" "\<lambda>h. st\<lparr>ports := written h\<rparr>" "\<lambda>s. rd (ports s)" Tty.outb for rd st
proof unfold_locales
  fix h w p x show "st\<lparr>ports := written (h @ [PortIn w p x])\<rparr> = st\<lparr>ports := written h\<rparr>" by (cases w) simp_all
qed (simp_all add: byte_device_def Tty.outb_def)


subsection \<open>The interrupt controller and the display controller\<close>

definition enable_irq_io :: "device \<Rightarrow> nat \<Rightarrow> io_event list \<Rightarrow> io_event list" where
  "enable_irq_io dev irq h =
     (if irq \<le> 8
      then (case inb dev INT_M_CTLMASK h of (v, h1) \<Rightarrow>
              outb_io (ucast (ucast v AND NOT (push_bit irq 1 :: u32))) INT_M_CTLMASK h1)
      else (case inb dev INT_S_CTLMASK h of (v, h1) \<Rightarrow>
              outb_io (ucast (ucast v AND NOT (push_bit (irq - 8) 1 :: u32))) INT_S_CTLMASK h1))"

definition disable_irq_io :: "device \<Rightarrow> nat \<Rightarrow> io_event list \<Rightarrow> io_event list" where
  "disable_irq_io dev irq h =
     (if irq \<le> 8
      then (case inb dev INT_M_CTLMASK h of (v, h1) \<Rightarrow>
              outb_io (ucast (ucast v OR (push_bit irq 1 :: u32))) INT_M_CTLMASK h1)
      else (case inb dev INT_S_CTLMASK h of (v, h1) \<Rightarrow>
              outb_io (ucast (ucast v OR (push_bit (irq - 8) 1 :: u32))) INT_S_CTLMASK h1))"

definition timer_program_io :: "io_event list \<Rightarrow> io_event list" where
  "timer_program_io h =
     outb_io (ucast (drop_bit 8 (TIMER_FREQ div HZ))) 0x40 (outb_io (ucast (TIMER_FREQ div HZ)) 0x40 (outb_io 0x34 0x43 h))"

definition set_cursor_io :: "u32 \<Rightarrow> io_event list \<Rightarrow> io_event list" where
  "set_cursor_io position h =
     outb_io (ucast position) CRTC_DATA_REG (outb_io CURSOR_L CRTC_ADDR_REG
       (outb_io (ucast (drop_bit 8 position)) CRTC_DATA_REG (outb_io CURSOR_H CRTC_ADDR_REG h)))"

definition set_start_addr_io :: "u32 \<Rightarrow> io_event list \<Rightarrow> io_event list" where
  "set_start_addr_io addr h =
     outb_io (ucast addr) CRTC_DATA_REG (outb_io START_ADDR_L CRTC_ADDR_REG
       (outb_io (ucast (drop_bit 8 addr)) CRTC_DATA_REG (outb_io START_ADDR_H CRTC_ADDR_REG h)))"

lemma enable_irq_follows: "written (enable_irq_io (byte_device rd) irq h) = enable_8259A_irq rd irq (written h)"
  by (simp add: enable_irq_io_def enable_8259A_irq_def logged.view_modify)

lemma disable_irq_follows: "written (disable_irq_io (byte_device rd) irq h) = disable_8259A_irq rd irq (written h)"
  by (simp add: disable_irq_io_def disable_8259A_irq_def logged.view_modify)

lemma init_commands_follow:
  "written (fold (\<lambda>(v, p). outb_io v p) init_8259A_commands h) = written h @ init_8259A_commands"
  by (simp add: logged.view_outb init_8259A_commands_def)

lemma timer_init_follows:
  "timer_init rd th tbl (written h) =
     rmap (\<lambda>tbl'. (tbl', written (enable_irq_io (byte_device rd) CLOCK_IRQ (timer_program_io h)))) (register_irq tbl (of_nat CLOCK_IRQ) th 0)"
  by (simp add: timer_init_def timer_program_io_def enable_irq_follows logged.view_outb Let_def)

lemma cursor_follows:
  "st\<lparr>ports := written (set_cursor_io position h)\<rparr> = console_set_cursor position (st\<lparr>ports := written h\<rparr>)"
  "st\<lparr>ports := written (set_start_addr_io addr h)\<rparr> = set_console_start_addr addr (st\<lparr>ports := written h\<rparr>)"
  by (simp_all add: set_cursor_io_def console_set_cursor_def set_start_addr_io_def set_console_start_addr_def screen.view_outb)

subsection \<open>The configuration ports of the PCI bus\<close>

definition PCI_COMD_PORT :: u16 where "PCI_COMD_PORT = 0xCF8"
definition PCI_DATA_PORT :: u16 where "PCI_DATA_PORT = 0xCFC"

definition pci_read_io :: "device \<Rightarrow> u16 \<Rightarrow> u16 \<Rightarrow> u16 \<Rightarrow> u32 \<Rightarrow> io_event list \<Rightarrow> u32 \<times> io_event list" where
  "pci_read_io dev bus device func register_offset h =
     (case inl dev PCI_DATA_PORT (outl (pci_id bus device func register_offset) PCI_COMD_PORT h) of
        (res, h1) \<Rightarrow> (drop_bit (8 * (unat register_offset mod 4)) res, h1))"

definition pci_write_io :: "u16 \<Rightarrow> u16 \<Rightarrow> u16 \<Rightarrow> u32 \<Rightarrow> u32 \<Rightarrow> io_event list \<Rightarrow> io_event list" where
  "pci_write_io bus device func register_offset v h =
     outl v PCI_DATA_PORT (outl (pci_id bus device func register_offset) PCI_COMD_PORT h)"

text \<open>
  The documented mechanism: the command port holds the identity of a register, the data port is this
  register. The state of the hardware and the command port follow from the history.
\<close>

fun cfg_step :: "'s pci_hw \<Rightarrow> 's \<times> u32 \<Rightarrow> io_event \<Rightarrow> 's \<times> u32" where
  "cfg_step hw (s, ident) (PortOut W32 p x) =
     (if p = PCI_COMD_PORT then (s, x) else if p = PCI_DATA_PORT then (cfg_write hw s ident x, ident) else (s, ident))"
| "cfg_step hw c e = c"

definition cfg_state :: "'s pci_hw \<Rightarrow> 's \<Rightarrow> io_event list \<Rightarrow> 's \<times> u32" where
  "cfg_state hw s h = foldl (cfg_step hw) (s, 0) h"

definition cfg_device :: "'s pci_hw \<Rightarrow> 's \<Rightarrow> device" where
  "cfg_device hw s h w p = (if p = PCI_DATA_PORT then (case cfg_state hw s h of (s1, ident) \<Rightarrow> cfg_read hw s1 ident) else 0)"

lemma pci_ports_distinct [simp]: "PCI_COMD_PORT \<noteq> PCI_DATA_PORT" "PCI_DATA_PORT \<noteq> PCI_COMD_PORT"
  by (simp_all add: PCI_COMD_PORT_def PCI_DATA_PORT_def)

lemma cfg_state_append [simp]: "cfg_state hw s (h @ h') = foldl (cfg_step hw) (cfg_state hw s h) h'"
  by (simp add: cfg_state_def)

lemma pci_read_follows:
  "pci_read_io (cfg_device hw s0) bus device func off h = (v, h') \<Longrightarrow>
   v = pci_read hw (fst (cfg_state hw s0 h)) bus device func off \<and> fst (cfg_state hw s0 h') = fst (cfg_state hw s0 h)"
  by (cases "cfg_state hw s0 h")
     (auto simp: pci_read_io_def pci_read_def inl_def outl_def cfg_device_def Let_def)

lemma pci_write_follows:
  "fst (cfg_state hw s0 (pci_write_io bus device func off v h)) =
     pci_write hw (fst (cfg_state hw s0 h)) bus device func off v"
  by (cases "cfg_state hw s0 h") (simp add: pci_write_io_def pci_write_def outl_def)


subsection \<open>The end of an interrupt\<close>

text \<open>
  \<^verbatim>\<open>eoi_8259A\<close> writes both values to the same port: 0x20 and then 0xA0, the number of the port that was
  meant. The controllers end interrupts by themselves, as the last command of \<^verbatim>\<open>init_8259A\<close> tells them to,
  and nothing calls it.
\<close>

definition eoi_8259A :: "io_event list \<Rightarrow> io_event list" where
  "eoi_8259A h = outb_io (ucast INT_S_CTL) 0x20 (outb_io (ucast INT_M_CTL) 0x20 h)"

text \<open>The master is told twice that an interrupt has ended, with a rotation of the priorities; the slave never.\<close>

lemma eoi_reaches_master_only:
  "written (eoi_8259A h) = written h @ [(0x20, INT_M_CTL), (0xA0, INT_M_CTL)]"
  "filter (\<lambda>(v, p). p = INT_S_CTL) (written (eoi_8259A h)) = filter (\<lambda>(v, p). p = INT_S_CTL) (written h)"
  by (simp_all add: eoi_8259A_def logged.view_outb INT_S_CTL_def INT_M_CTL_def)

end
