(* ===== verification/MathLib.thy ===== *)
theory MathLib
  imports Prelude
begin

text \<open>
  lib/math.c: \<^verbatim>\<open>fmin\<close> and \<^verbatim>\<open>fminf\<close>. A \<^verbatim>\<open>double\<close> and a \<^verbatim>\<open>float\<close> are their bit patterns in the binary formats
  of IEEE 754, compared as the operator of C does: a value that is not a number is unordered, and the
  two zeros are equal. Quiet and signalling values that are not numbers are not told apart. The
  lemmas show that the smaller of two numbers is returned, and what happens otherwise.
\<close>

unbundle bit_operations_syntax

subsection \<open>The formats\<close>

text \<open>
  Exponent and fraction of a pattern with \<open>f\<close> fraction bits and \<open>e\<close> exponent bits, and its value in
  units of the smallest positive one. An infinity gets the value that follows the largest number.
\<close>

definition fp_exponent :: "nat \<Rightarrow> nat \<Rightarrow> 'a::len word \<Rightarrow> nat" where
  "fp_exponent e f x = unat x div 2 ^ f mod 2 ^ e"

definition fp_fraction :: "nat \<Rightarrow> 'a::len word \<Rightarrow> nat" where
  "fp_fraction f x = unat x mod 2 ^ f"

definition fp_nan :: "nat \<Rightarrow> nat \<Rightarrow> 'a::len word \<Rightarrow> bool" where
  "fp_nan e f x \<longleftrightarrow> fp_exponent e f x = 2 ^ e - 1 \<and> fp_fraction f x \<noteq> 0"

definition fp_magnitude :: "nat \<Rightarrow> nat \<Rightarrow> 'a::len word \<Rightarrow> nat" where
  "fp_magnitude e f x =
     (if fp_exponent e f x = 0 then fp_fraction f x
      else (2 ^ f + fp_fraction f x) * 2 ^ (fp_exponent e f x - 1))"

definition fp_value :: "nat \<Rightarrow> nat \<Rightarrow> 'a::len word \<Rightarrow> int" where
  "fp_value e f x = (if bit x (e + f) then - int (fp_magnitude e f x) else int (fp_magnitude e f x))"

definition fp_less :: "nat \<Rightarrow> nat \<Rightarrow> 'a::len word \<Rightarrow> 'a word \<Rightarrow> bool" where
  "fp_less e f x y \<longleftrightarrow> \<not> fp_nan e f x \<and> \<not> fp_nan e f y \<and> fp_value e f x < fp_value e f y"

abbreviation double_nan :: "64 word \<Rightarrow> bool" where "double_nan \<equiv> fp_nan 11 52"
abbreviation double_value :: "64 word \<Rightarrow> int" where "double_value \<equiv> fp_value 11 52"
abbreviation float_nan :: "32 word \<Rightarrow> bool" where "float_nan \<equiv> fp_nan 8 23"
abbreviation float_value :: "32 word \<Rightarrow> int" where "float_value \<equiv> fp_value 8 23"

subsection \<open>Operations\<close>

definition fmin :: "64 word \<Rightarrow> 64 word \<Rightarrow> 64 word" where
  "fmin x y = (if fp_less 11 52 x y then x else y)"

definition fminf :: "32 word \<Rightarrow> 32 word \<Rightarrow> 32 word" where
  "fminf x y = (if fp_less 8 23 x y then x else y)"

subsection \<open>The order of the patterns\<close>

lemma fp_magnitude_step:
  assumes "0 < f" "m < 2 ^ f" "n < 2 ^ f" "i < j"
  shows "(2 ^ f + m) * 2 ^ i < (2 ^ f + n) * (2 ^ j :: nat)"
proof -
  have "(2 ^ f + m) * 2 ^ i < 2 * 2 ^ f * 2 ^ i" using assms(2) by simp
  also have "\<dots> = 2 ^ f * 2 ^ Suc i" by simp
  also have "\<dots> \<le> 2 ^ f * 2 ^ j" using assms(4) by (intro mult_le_mono2 power_increasing) auto
  also have "\<dots> \<le> (2 ^ f + n) * 2 ^ j" by simp
  finally show ?thesis .
qed

text \<open>The bytes of two numbers of the same sign are ordered as their values are.\<close>

definition fp_mag :: "nat \<Rightarrow> nat \<Rightarrow> nat" where
  "fp_mag f b = (if b div 2 ^ f = 0 then b mod 2 ^ f else (2 ^ f + b mod 2 ^ f) * 2 ^ (b div 2 ^ f - 1))"

lemma fp_mag_strict:
  assumes "0 < f" "a < b"
  shows "fp_mag f a < fp_mag f b"
proof (cases "a div 2 ^ f = b div 2 ^ f")
  case True
  then have "a mod 2 ^ f < b mod 2 ^ f"
    using assms(2) by (metis add_less_cancel_left mult_div_mod_eq)
  then show ?thesis using True by (simp add: fp_mag_def)
next
  case False
  then have lt: "a div 2 ^ f < b div 2 ^ f" using assms(2) div_le_mono[of a b "2 ^ f"] by simp
  have m: "a mod 2 ^ f < 2 ^ f" "b mod 2 ^ f < 2 ^ f" by simp_all
  show ?thesis
  proof (cases "a div 2 ^ f = 0")
    case True
    have "2 ^ f * 1 \<le> (2 ^ f * 2 ^ (b div 2 ^ f - 1) :: nat)" by (intro mult_le_mono2) simp
    then have "a mod 2 ^ f < 2 ^ f * 2 ^ (b div 2 ^ f - 1)" using m(1) by linarith
    also have "\<dots> \<le> (2 ^ f + b mod 2 ^ f) * 2 ^ (b div 2 ^ f - 1)" by simp
    finally show ?thesis using True lt by (simp add: fp_mag_def)
  next
    case nz: False
    then show ?thesis using fp_magnitude_step[OF assms(1) m, of "a div 2 ^ f - 1" "b div 2 ^ f - 1"] lt
      by (simp add: fp_mag_def)
  qed
qed

lemma fp_mag_inj: "0 < f \<Longrightarrow> fp_mag f a = fp_mag f b \<Longrightarrow> a = b"
  using fp_mag_strict[of f a b] fp_mag_strict[of f b a] by (metis less_irrefl linorder_less_linear)

lemma fp_magnitude_mag: "fp_magnitude e f x = fp_mag f (take_bit (e + f) (unat x))"
proof -
  have "unat x mod 2 ^ (e + f) div 2 ^ f = unat x div 2 ^ f mod 2 ^ e"
    by (simp add: power_add mod_mult2_eq mult.commute[of "2 ^ e"])
  moreover have "unat x mod 2 ^ (e + f) mod 2 ^ f = unat x mod 2 ^ f"
    by (simp add: power_add mod_mult_right_eq mod_mod_cancel)
  ultimately show ?thesis
    by (simp add: fp_magnitude_def fp_mag_def fp_exponent_def fp_fraction_def take_bit_eq_mod)
qed

text \<open>Different patterns have different values, except the two zeros.\<close>

lemma fp_value_inj:
  fixes x y :: "'a::len word"
  assumes "LENGTH('a) = Suc (e + f)" "0 < f" "fp_value e f x = fp_value e f y" "fp_value e f x \<noteq> 0"
  shows "x = y"
proof (rule bit_word_eqI)
  fix n assume n: "n < LENGTH('a)"
  have "fp_magnitude e f x = fp_magnitude e f y" and s: "bit x (e + f) \<longleftrightarrow> bit y (e + f)"
    using assms(3,4) by (auto simp: fp_value_def split: if_splits)
  then have "take_bit (e + f) (unat x) = take_bit (e + f) (unat y)"
    using fp_mag_inj[OF assms(2)] by (simp add: fp_magnitude_mag)
  then have "bit x k \<longleftrightarrow> bit y k" if "k < e + f" for k
  proof -
    have "bit (take_bit (e + f) (unat x)) k = bit (take_bit (e + f) (unat y)) k"
      using \<open>take_bit (e + f) (unat x) = _\<close> by simp
    then show ?thesis using that by (simp add: bit_take_bit_iff bit_unsigned_iff)
  qed
  then show "bit x n \<longleftrightarrow> bit y n" using s n assms(1) by (cases "n = e + f") auto
qed

subsection \<open>The minimum\<close>

lemma fp_smaller:
  assumes "\<not> fp_nan e f x" "\<not> fp_nan e f y"
  shows "(if fp_less e f x y then x else y) \<in> {x, y}
     \<and> fp_value e f (if fp_less e f x y then x else y) = min (fp_value e f x) (fp_value e f y)"
  using assms by (simp add: fp_less_def min_def)

lemma fp_smaller_commutes:
  fixes x y :: "'a::len word"
  assumes "LENGTH('a) = Suc (e + f)" "0 < f"
    and "\<not> fp_nan e f x" "\<not> fp_nan e f y" "\<not> (fp_value e f x = 0 \<and> fp_value e f y = 0)"
  shows "(if fp_less e f x y then x else y) = (if fp_less e f y x then y else x)"
proof (cases "fp_value e f x = fp_value e f y")
  case True
  then show ?thesis using fp_value_inj[OF assms(1,2)] assms(5) by simp
next
  case False
  then show ?thesis using assms(3,4) by (simp add: fp_less_def)
qed

lemma fp_nan_second: "fp_nan e f x \<or> fp_nan e f y \<Longrightarrow> (if fp_less e f x y then x else y) = y"
  by (auto simp: fp_less_def)

text \<open>
  The minimum of two numbers is one of the two and has the smaller value. Their order does not matter,
  up to the sign of a zero.
\<close>

lemma fmin_of_numbers:
  "\<not> double_nan x \<Longrightarrow> \<not> double_nan y \<Longrightarrow>
   fmin x y \<in> {x, y} \<and> double_value (fmin x y) = min (double_value x) (double_value y)"
  unfolding fmin_def by (rule fp_smaller)

lemma fminf_of_numbers:
  "\<not> float_nan x \<Longrightarrow> \<not> float_nan y \<Longrightarrow>
   fminf x y \<in> {x, y} \<and> float_value (fminf x y) = min (float_value x) (float_value y)"
  unfolding fminf_def by (rule fp_smaller)

lemma fmin_commutes:
  "\<not> double_nan x \<Longrightarrow> \<not> double_nan y \<Longrightarrow> \<not> (double_value x = 0 \<and> double_value y = 0) \<Longrightarrow> fmin x y = fmin y x"
  unfolding fmin_def by (rule fp_smaller_commutes) simp_all

lemma fminf_commutes:
  "\<not> float_nan x \<Longrightarrow> \<not> float_nan y \<Longrightarrow> \<not> (float_value x = 0 \<and> float_value y = 0) \<Longrightarrow> fminf x y = fminf y x"
  unfolding fminf_def by (rule fp_smaller_commutes) simp_all

text \<open>
  With something that is not a number the second argument is returned, whichever of the two it is, while
  the function of C gives the number when there is one.
\<close>

lemma fmin_of_nan: "double_nan x \<or> double_nan y \<Longrightarrow> fmin x y = y"
  unfolding fmin_def by (rule fp_nan_second)

lemma fminf_of_nan: "float_nan x \<or> float_nan y \<Longrightarrow> fminf x y = y"
  unfolding fminf_def by (rule fp_nan_second)

text \<open>1.0 and 2.0; -1.0 and 1.0; 1.0 and a value that is not a number.\<close>

lemma fmin_examples:
  "fmin 0x4000000000000000 0x3FF0000000000000 = 0x3FF0000000000000"
  "fmin 0x3FF0000000000000 0xBFF0000000000000 = 0xBFF0000000000000"
  "fmin 0x3FF0000000000000 0x7FF8000000000000 = 0x7FF8000000000000"
  by (simp_all add: fmin_def fp_less_def fp_nan_def fp_value_def fp_magnitude_def fp_exponent_def fp_fraction_def)

end
