(* ===== verification/Listing.thy ===== *)
theory Listing
  imports Vfs PrintText
begin

text \<open>
  \<^verbatim>\<open>lsdir\<close> of fs/file_op.c, which prints the name of a directory and a line for each of its children:
  directory entries and inodes of Vfs, \<^verbatim>\<open>printk\<close> of Printf, the terminal of Tty. The lemmas show that
  the calls print one text in the order of the children, and that this returns.
\<close>

unbundle bit_operations_syntax

subsection \<open>Operations\<close>

definition ls_head_format :: "u8 list" where
  "ls_head_format = map (of_char :: char \<Rightarrow> u8) ''name: %s :'' @ [10, 0]"

definition ls_format :: "char \<Rightarrow> u8 list" where
  "ls_format c = map (of_char :: char \<Rightarrow> u8) (''    '' @ c # '' %dB name:%s'') @ [10, 0]"

text \<open>The letter of a line, if the mode has one.\<close>

definition ls_letter :: "u16 \<Rightarrow> char option" where
  "ls_letter mode =
     (if mode = FILE_MODE_REG then Some CHR 0x2D
      else if mode = FILE_MODE_DIR then Some CHR 0x44
      else if mode = FILE_MODE_CHR then Some CHR 0x43
      else if mode = FILE_MODE_BLK then Some CHR 0x42
      else None)"

text \<open>
  A call of \<^verbatim>\<open>printk\<close> with the name of an entry, which lies at the address \<open>na\<close>, as its only string.
\<close>

definition print_name :: "u8 list \<Rightarrow> u8 list \<Rightarrow> u8 list \<Rightarrow> u32 list \<Rightarrow> tty_state \<Rightarrow> tty_state res" where
  "print_name junk name format args tt = rmap (\<lambda>(_, _, tt'). tt') (printk (\<lambda>_. name) junk format args tt)"

definition ls_child :: "u8 list \<Rightarrow> (nat \<Rightarrow> u32) \<Rightarrow> vfs \<Rightarrow> nat \<Rightarrow> tty_state \<Rightarrow> tty_state res" where
  "ls_child junk na st c tt =
     rbind (dent st (Some c)) (\<lambda>tmp.
     rbind (inode_at st (d_inode tmp)) (\<lambda>ino.
       case ls_letter (i_mode ino) of
         None \<Rightarrow> Inr tt
       | Some l \<Rightarrow> print_name junk (d_name tmp) (ls_format l) [i_size ino, na c] tt))"

text \<open>The parameter \<^verbatim>\<open>path\<close> is not used.\<close>

definition lsdir :: "u8 list \<Rightarrow> (nat \<Rightarrow> u32) \<Rightarrow> vfs \<Rightarrow> u8 list \<Rightarrow> nat option \<Rightarrow> tty_state \<Rightarrow> tty_state res" where
  "lsdir junk na st path dir tt =
     rbind (dent st dir) (\<lambda>d.
     rbind (print_name junk (d_name d) ls_head_format [na (the dir)] tt)
       (run_steps (ls_child junk na st) (d_children d)))"

subsection \<open>The text of a call\<close>

lemma print_name_items:
  assumes "fmt = concat (map item_fmt items) @ [0]" and "args = concat (map item_args items)"
    and "\<forall>it \<in> set items. item_ok (\<lambda>_. name) it"
    and "text = concat (map (item_text (\<lambda>_. name)) items)" and "length text < PRINTK_LEN" and "PRINTK_LEN \<le> length junk"
  shows "print_name junk name fmt args tt = print_text text tt"
  unfolding print_name_def printk_items[OF assms] by (cases "print_text text tt") simp_all

subsection \<open>The listing\<close>

definition head_text :: "dir_entry \<Rightarrow> u8 list" where
  "head_text d = ascii ''name: '' @ cstr (d_name d) @ ascii '' :'' @ [10]"

definition line_text :: "dir_entry \<Rightarrow> inode \<Rightarrow> u8 list" where
  "line_text d ino =
     (case ls_letter (i_mode ino) of
        None \<Rightarrow> []
      | Some l \<Rightarrow> ascii ''    '' @ of_char l # ascii '' '' @ item_text (\<lambda>_. []) (Dec (i_size ino)) @
                  ascii ''B name:'' @ cstr (d_name d) @ [10])"

text \<open>An entry as the directory operations leave it: the name is terminated, the inode exists.\<close>

definition listable :: "vfs \<Rightarrow> nat \<Rightarrow> bool" where
  "listable st c \<longleftrightarrow> c < length (dentries st) \<and> length (d_name (dentries st ! c)) = 256
     \<and> 0 \<in> set (d_name (dentries st ! c))
     \<and> (\<exists>i < length (inode_table st). d_inode (dentries st ! c) = Some i)"

definition child_text :: "vfs \<Rightarrow> nat \<Rightarrow> u8 list" where
  "child_text st c = line_text (dentries st ! c) (inode_table st ! the (d_inode (dentries st ! c)))"

lemma length_dec_text: "length (item_text mem (Dec a)) \<le> 33"
proof -
  have "nat (- sint a) < 2 ^ 32" using sint_greater_eq[of a] by simp
  then have "length (lsd 10 (nat (- sint a))) \<le> 32" by (intro length_lsd) simp_all
  moreover have "length (lsd 10 (unat a)) \<le> 32" using unat_less_32[of a] by (intro length_lsd) simp_all
  ultimately show ?thesis by (auto simp: digit_text_def)
qed

lemma length_cstr: "length (cstr s) \<le> length s"
  unfolding cstr_def by (rule length_takeWhile_le)

lemma print_head:
  assumes "length (d_name d) = 256" "0 \<in> set (d_name d)" "PRINTK_LEN \<le> length junk"
  shows "print_name junk (d_name d) ls_head_format [a] tt = print_text (head_text d) tt"
proof (rule print_name_items)
  let ?items = "map Lit (ascii ''name: '') @ Str a # map Lit (ascii '' :'') @ [Lit 10]"
  show "ls_head_format = concat (map item_fmt ?items) @ [0]" by (simp add: ls_head_format_def)
  show "[a] = concat (map item_args ?items)" by simp
  show "\<forall>it \<in> set ?items. item_ok (\<lambda>_. d_name d) it" using assms(2) by simp
  show "head_text d = concat (map (item_text (\<lambda>_. d_name d)) ?items)" by (simp add: head_text_def)
  show "length (head_text d) < PRINTK_LEN"
    using length_cstr[of "d_name d"] assms(1) by (simp add: head_text_def PRINTK_LEN_def)
qed (rule assms(3))

lemma print_line:
  assumes "length (d_name d) = 256" "0 \<in> set (d_name d)" "PRINTK_LEN \<le> length junk" "ls_letter (i_mode ino) = Some l"
  shows "print_name junk (d_name d) (ls_format l) [i_size ino, a] tt = print_text (line_text d ino) tt"
proof (rule print_name_items)
  let ?items = "map Lit (ascii ''    '') @ Lit (of_char l) # Lit 32 # Dec (i_size ino) # map Lit (ascii ''B name:'') @ [Str a, Lit 10]"
  have l: "of_char l \<notin> {0, 37 :: u8}" using assms(4) by (auto simp: ls_letter_def split: if_splits)
  show "ls_format l = concat (map item_fmt ?items) @ [0]" by (simp add: ls_format_def)
  show "[i_size ino, a] = concat (map item_args ?items)" by simp
  show "\<forall>it \<in> set ?items. item_ok (\<lambda>_. d_name d) it" using assms(2) l by simp
  show "line_text d ino = concat (map (item_text (\<lambda>_. d_name d)) ?items)" by (simp add: line_text_def assms(4))
  show "length (line_text d ino) < PRINTK_LEN"
    using length_cstr[of "d_name d"] length_dec_text[of "\<lambda>_. []" "i_size ino"] assms(1)
    by (simp only: line_text_def assms(4) option.case PRINTK_LEN_def length_append length_map) simp
qed (rule assms(3))

lemma ls_child_prints:
  assumes "listable st c" "PRINTK_LEN \<le> length junk" "tty_table tt \<noteq> []"
  shows "ls_child junk na st c tt = print_text (child_text st c) tt"
proof -
  let ?d = "dentries st ! c"
  obtain i where i: "i < length (inode_table st)" "d_inode ?d = Some i" using assms(1) by (auto simp: listable_def)
  have "dent st (Some c) = Inr ?d" "inode_at st (d_inode ?d) = Inr (inode_table st ! i)"
    using assms(1) i by (simp_all add: listable_def dent_def inode_at_def deref_def)
  then show ?thesis
    using i assms print_line[of ?d junk "inode_table st ! i"]
    by (simp add: ls_child_def child_text_def listable_def line_text_def print_text_def split: option.splits)
qed

text \<open>
  \<^verbatim>\<open>lsdir\<close> prints the name of the directory and then one line for each child, in the order of the list of
  children, with the letter of its mode, its size and its name. On a terminal in order this returns.
\<close>

lemma lsdir_prints:
  assumes "dir < length (dentries st)" "length (d_name (dentries st ! dir)) = 256" "0 \<in> set (d_name (dentries st ! dir))"
    and "\<forall>c \<in> set (d_children (dentries st ! dir)). listable st c"
    and "PRINTK_LEN \<le> length junk" "tty_table tt \<noteq> []"
  shows "lsdir junk na st path (Some dir) tt =
    print_text (head_text (dentries st ! dir) @ concat (map (child_text st) (d_children (dentries st ! dir)))) tt"
proof -
  let ?d = "dentries st ! dir"
  have kids: "run_steps (ls_child junk na st) cs tt1 = run_steps print_text (map (child_text st) cs) tt1"
    if "\<forall>c \<in> set cs. listable st c" "tty_table tt1 \<noteq> []" for cs tt1
    using that
  proof (induction cs arbitrary: tt1)
    case (Cons c cs)
    have "rbind (print_text (child_text st c) tt1) (run_steps (ls_child junk na st) cs) =
        rbind (print_text (child_text st c) tt1) (run_steps print_text (map (child_text st) cs))"
      by (rule rbind_cong, rule Cons.IH) (use Cons.prems in \<open>auto simp: print_text_def dest: out_chars_tables\<close>)
    then show ?case using Cons.prems assms(5) by (simp add: ls_child_prints)
  qed simp
  have "lsdir junk na st path (Some dir) tt = rbind (print_text (head_text ?d) tt) (run_steps (ls_child junk na st) (d_children ?d))"
    using assms(1) print_head[OF assms(2,3,5)] by (simp add: lsdir_def dent_def deref_def)
  also have "\<dots> = rbind (print_text (head_text ?d) tt) (print_text (concat (map (child_text st) (d_children ?d))))"
  proof (rule rbind_cong)
    fix tt1 assume "print_text (head_text ?d) tt = Inr tt1"
    then have "tty_table tt1 \<noteq> []" using assms(6) by (auto simp: print_text_def dest: out_chars_tables)
    then show "run_steps (ls_child junk na st) (d_children ?d) tt1 = print_text (concat (map (child_text st) (d_children ?d))) tt1"
      using kids assms(4) by (simp add: print_text_parts)
  qed
  finally show ?thesis by (simp add: print_text_append)
qed

lemma lsdir_returns:
  assumes "dir < length (dentries st)" "length (d_name (dentries st ! dir)) = 256" "0 \<in> set (d_name (dentries st ! dir))"
    and "\<forall>c \<in> set (d_children (dentries st ! dir)). listable st c"
    and "PRINTK_LEN \<le> length junk" "tty_table tt \<noteq> []" "console_ok 0 (con 0 tt)"
  shows "\<exists>tt'. lsdir junk na st path (Some dir) tt = Inr tt' \<and> console_ok 0 (con 0 tt')"
  using lsdir_prints[OF assms(1-6), of na path] print_text_returns[OF assms(6,7)] by simp

end
