(* ===== verification/ScanQueue.thy ===== *)
theory ScanQueue
  imports Keyboard
begin

text \<open>
  The buffer of scan codes of drivers/i386/keyboard.c as a queue, and \<^verbatim>\<open>get_byte_from_kb_buf\<close>, the
  function that waits for a byte of it. The interface is a queue of limited length that drops what
  arrives when it is full; the ring of the driver provides it.
\<close>

subsection \<open>Waiting for a byte\<close>

text \<open>
  The loop reads the count until it is positive. \<open>tick n\<close> is what the interrupts between one reading
  and the next, the \<open>n\<close>-th, do to the buffer.
\<close>

partial_function (option) get_byte_from_kb_buf ::
    "(nat \<Rightarrow> kb_state \<Rightarrow> kb_state) \<Rightarrow> nat \<Rightarrow> kb_state \<Rightarrow> (u8 \<times> kb_state) option" where
  "get_byte_from_kb_buf tick n kb =
     (if kb_count kb = 0 then get_byte_from_kb_buf tick (Suc n) (tick n kb)
      else Some (kb_buf kb ! kb_tail kb,
        kb\<lparr>kb_tail := (if kb_tail kb + 1 = KB_IN_BYTES then 0 else kb_tail kb + 1),
           kb_count := kb_count kb - 1\<rparr>))"

subsection \<open>Queues of limited length\<close>

fun take_out :: "('q \<Rightarrow> 'a) \<Rightarrow> ('q \<Rightarrow> 'q) \<Rightarrow> nat \<Rightarrow> 'q \<Rightarrow> 'a list \<times> 'q" where
  "take_out first pop 0 q = ([], q)"
| "take_out first pop (Suc n) q = apfst ((#) (first q)) (take_out first pop n (pop q))"

locale bounded_queue =
  fixes repr :: "'q \<Rightarrow> 'a list \<Rightarrow> bool" and cap :: nat
    and put :: "'a \<Rightarrow> 'q \<Rightarrow> 'q" and first :: "'q \<Rightarrow> 'a" and pop :: "'q \<Rightarrow> 'q"
  assumes bound: "repr q xs \<Longrightarrow> length xs \<le> cap"
    and put_room: "repr q xs \<Longrightarrow> length xs < cap \<Longrightarrow> repr (put x q) (xs @ [x])"
    and put_full: "repr q xs \<Longrightarrow> length xs = cap \<Longrightarrow> put x q = q"
    and first_cons: "repr q (x # xs) \<Longrightarrow> first q = x"
    and pop_cons: "repr q (x # xs) \<Longrightarrow> repr (pop q) xs"
begin

lemma puts: "repr q xs \<Longrightarrow> repr (fold put ys q) (xs @ take (cap - length xs) ys)"
proof (induction ys arbitrary: q xs)
  case (Cons y ys)
  show ?case
  proof (cases "length xs < cap")
    case True
    have "repr (fold put ys (put y q)) ((xs @ [y]) @ take (cap - length (xs @ [y])) ys)"
      by (rule Cons.IH[OF put_room[OF Cons.prems True]])
    moreover have "cap - length xs = Suc (cap - Suc (length xs))" using True by simp
    ultimately show ?thesis by simp
  next
    case False
    then have "length xs = cap" using bound[OF Cons.prems] by simp
    then show ?thesis using Cons.IH[OF Cons.prems] put_full[OF Cons.prems] by simp
  qed
qed simp

lemma takes: "repr q xs \<Longrightarrow> n \<le> length xs \<Longrightarrow> \<exists>q'. take_out first pop n q = (take n xs, q') \<and> repr q' (drop n xs)"
proof (induction n arbitrary: q xs)
  case (Suc n)
  then obtain x ys where xs: "xs = x # ys" by (cases xs) auto
  then obtain q' where "take_out first pop n (pop q) = (take n ys, q')" "repr q' (drop n ys)"
    using Suc.IH[of "pop q" ys] Suc.prems pop_cons by auto
  then show ?case using xs Suc.prems(1) first_cons by simp
qed simp

text \<open>Of a burst that meets the empty queue the first \<open>cap\<close> come out, in order, and it is empty again.\<close>

lemma burst:
  assumes "repr q []"
  shows "\<exists>q'. take_out first pop (min cap (length ys)) (fold put ys q) = (take cap ys, q') \<and> repr q' []"
proof -
  have "repr (fold put ys q) (take cap ys)" using puts[OF assms, of ys] by simp
  moreover have "take (min cap (length ys)) ys = take cap ys" by (simp add: min_def)
  ultimately show ?thesis using takes[of "fold put ys q" "take cap ys" "min cap (length ys)"] by simp
qed

end

subsection \<open>The ring of scan codes\<close>

definition ring_repr :: "kb_state \<Rightarrow> u8 list \<Rightarrow> bool" where
  "ring_repr kb xs \<longleftrightarrow> length (kb_buf kb) = KB_IN_BYTES \<and> kb_tail kb < KB_IN_BYTES \<and> kb_count kb = length xs
     \<and> length xs \<le> KB_IN_BYTES \<and> kb_head kb = (kb_tail kb + length xs) mod KB_IN_BYTES
     \<and> (\<forall>i < length xs. kb_buf kb ! ((kb_tail kb + i) mod KB_IN_BYTES) = xs ! i)"

lemma wrap_index: "i < n \<Longrightarrow> (if i + 1 = n then 0 else i + 1) = Suc i mod n"
  by (cases "Suc i = n") auto

lemma ring_slots_differ: "i < j \<Longrightarrow> j < n \<Longrightarrow> (a + i) mod n \<noteq> (a + j) mod (n :: nat)"
proof
  assume ij: "i < j" "j < n" and eq: "(a + i) mod n = (a + j) mod n"
  then have "n dvd (a + j) - (a + i)" by (metis add_le_cancel_left less_imp_le mod_eq_dvd_iff_nat)
  then show False using ij by (simp add: nat_dvd_not_less)
qed

lemma ring_put_room:
  assumes "ring_repr kb xs" "length xs < KB_IN_BYTES"
  shows "ring_repr (kb_push x kb) (xs @ [x])"
proof -
  let ?n = KB_IN_BYTES and ?t = "kb_tail kb"
  have h: "kb_head kb < ?n" "kb_head kb = (?t + length xs) mod ?n"
    using assms by (simp_all add: ring_repr_def KB_IN_BYTES_def)
  have head: "(if kb_head kb + 1 = ?n then 0 else kb_head kb + 1) = (?t + length (xs @ [x])) mod ?n"
    using wrap_index[OF h(1)] by (simp only: h(2) length_append_singleton add_Suc_right mod_Suc_eq)
  have "(kb_buf kb)[kb_head kb := x] ! ((?t + i) mod ?n) = (xs @ [x]) ! i" if "i < length (xs @ [x])" for i
  proof (cases "i = length xs")
    case True
    then show ?thesis using h assms(1) by (simp add: ring_repr_def)
  next
    case False
    then have "i < length xs" using that by simp
    then show ?thesis using ring_slots_differ[of i "length xs" ?n ?t] h(2) assms by (simp add: ring_repr_def nth_append)
  qed
  then show ?thesis using assms head by (simp add: kb_push_def ring_repr_def)
qed

lemma ring_pop:
  assumes "ring_repr kb (x # xs)"
  shows "get_tail kb = x" and "ring_repr (pop_buf kb) xs"
proof -
  let ?n = KB_IN_BYTES and ?t = "kb_tail kb"
  have t: "?t < ?n" and e: "\<forall>i < length (x # xs). kb_buf kb ! ((?t + i) mod ?n) = (x # xs) ! i"
    using assms by (simp_all add: ring_repr_def)
  show "get_tail kb = x" using e[rule_format, of 0] t assms by (simp add: get_tail_def ring_repr_def)
  have "kb_buf kb ! ((Suc ?t mod ?n + i) mod ?n) = xs ! i" if "i < length xs" for i
    using e[rule_format, of "Suc i"] that by (simp add: mod_add_left_eq)
  moreover have "kb_head kb = (Suc ?t mod ?n + length xs) mod ?n"
    using assms by (simp add: ring_repr_def mod_add_left_eq)
  ultimately show "ring_repr (pop_buf kb) xs"
    using assms unfolding pop_buf_def wrap_index[OF t] by (simp add: ring_repr_def)
qed

interpretation scan: bounded_queue ring_repr KB_IN_BYTES kb_push get_tail pop_buf
  by unfold_locales (auto simp: ring_put_room ring_pop, auto simp: ring_repr_def kb_push_def)


subsection \<open>The wait\<close>

lemma get_byte_ready:
  assumes "ring_repr kb (x # xs)"
  shows "get_byte_from_kb_buf tick n kb = Some (x, pop_buf kb) \<and> ring_repr (pop_buf kb) xs"
proof -
  have "kb_count kb \<noteq> 0" using assms by (simp add: ring_repr_def)
  moreover from this have "kb_buf kb ! kb_tail kb = x" using ring_pop(1)[OF assms] by (simp add: get_tail_def)
  ultimately show ?thesis using ring_pop(2)[OF assms] by (subst get_byte_from_kb_buf.simps) (simp add: pop_buf_def)
qed

text \<open>The buffer after \<open>k\<close> rounds of the loop.\<close>

fun ticks :: "(nat \<Rightarrow> kb_state \<Rightarrow> kb_state) \<Rightarrow> nat \<Rightarrow> nat \<Rightarrow> kb_state \<Rightarrow> kb_state" where
  "ticks tick n 0 kb = kb"
| "ticks tick n (Suc k) kb = ticks tick (Suc n) k (tick n kb)"

lemma get_byte_waits:
  "\<forall>j < k. kb_count (ticks tick n j kb) = 0 \<Longrightarrow>
   get_byte_from_kb_buf tick n kb = get_byte_from_kb_buf tick (n + k) (ticks tick n k kb)"
proof (induction k arbitrary: n kb)
  case (Suc k)
  have "kb_count kb = 0" using Suc.prems[rule_format, of 0] by simp
  moreover have "\<forall>j < k. kb_count (ticks tick (Suc n) j (tick n kb)) = 0"
    using Suc.prems by (metis Suc_less_eq ticks.simps(2))
  ultimately show ?case using Suc.IH[of "Suc n" "tick n kb"] by (subst get_byte_from_kb_buf.simps) simp
qed simp

text \<open>The first byte to arrive while the function waits is the one it returns.\<close>

lemma get_byte_returns_first:
  assumes "\<forall>j < k. kb_count (ticks tick n j kb) = 0" and "ring_repr (ticks tick n k kb) (x # xs)"
  shows "get_byte_from_kb_buf tick n kb = Some (x, pop_buf (ticks tick n k kb))"
  using get_byte_waits[OF assms(1)] get_byte_ready[OF assms(2)] by simp

text \<open>It returns only if a byte is in the buffer after one of the rounds.\<close>

lemma get_byte_needs_byte:
  "get_byte_from_kb_buf tick n kb = Some r \<Longrightarrow> \<exists>j. kb_count (ticks tick n j kb) \<noteq> 0"
proof (induction rule: get_byte_from_kb_buf.raw_induct[rotated, consumes 1])
  case (1 self tick n kb r)
  show ?case
  proof (cases "kb_count kb = 0")
    case True
    then obtain j where "kb_count (ticks tick (Suc n) j (tick n kb)) \<noteq> 0"
      using 1(1)[of tick "Suc n" "tick n kb" r] 1(2) by auto
    then have "kb_count (ticks tick n (Suc j) kb) \<noteq> 0" by simp
    then show ?thesis by blast
  next
    case False
    then have "kb_count (ticks tick n 0 kb) \<noteq> 0" by simp
    then show ?thesis by blast
  qed
qed

lemma get_byte_hangs: "(\<And>j. kb_count (ticks tick n j kb) = 0) \<Longrightarrow> get_byte_from_kb_buf tick n kb = None"
  using get_byte_needs_byte[of tick n kb] by (cases "get_byte_from_kb_buf tick n kb") auto

end
