(* ===== verification/Switch.thy ===== *)
theory Switch
  imports Ports Threads
begin

text \<open>
  The macro \<^verbatim>\<open>switch_to\<close> of kernel/schedule.c, instruction by instruction, on the registers of the
  processor and byte-addressed memory. A thread is the address of its structure; the two words of it
  that the macro uses are the stack pointer and the address to go on at. The lemmas show that a thread
  which is switched to again goes on with the registers, the flags and the stack it had when it left,
  whatever the other threads have done meanwhile outside its stack and these two words.
\<close>

unbundle bit_operations_syntax

subsection \<open>Regions of memory\<close>

text \<open>\<open>n\<close> bytes from an address on; addresses wrap.\<close>

definition region :: "u32 \<Rightarrow> nat \<Rightarrow> u32 set" where
  "region a n = {x. unat (x - a) < n}"

definition same_on :: "u32 set \<Rightarrow> memory \<Rightarrow> memory \<Rightarrow> bool" where
  "same_on R m m' \<longleftrightarrow> (\<forall>x \<in> R. m x = m' x)"

lemma same_on_refl [simp]: "same_on R m m"
  by (simp add: same_on_def)

lemma same_on_trans: "same_on R a b \<Longrightarrow> same_on R b c \<Longrightarrow> same_on R a c"
  by (simp add: same_on_def)

lemma same_on_subset: "same_on R a b \<Longrightarrow> S \<subseteq> R \<Longrightarrow> same_on S a b"
  by (auto simp: same_on_def)

lemma same_on_store:
  assumes "length bs \<le> 4294967296" "region a (length bs) \<inter> R = {}"
  shows "same_on R (store_bytes a bs m) m"
  using assms(2) store_bytes_at[OF assms(1)] by (auto simp: same_on_def region_def)

lemma load_bytes_same: "n \<le> 4294967296 \<Longrightarrow> same_on (region a n) m m' \<Longrightarrow> load_bytes n a m = load_bytes n a m'"
  by (auto simp: load_bytes_def same_on_def region_def unat_of_nat)

text \<open>Two stores side by side, in either order.\<close>

lemma store_bytes_commute:
  assumes "length xs + length ys \<le> 4294967296"
  shows "store_bytes a xs (store_bytes (a + of_nat (length xs)) ys m) =
    store_bytes (a + of_nat (length xs)) ys (store_bytes a xs m)"
proof
  fix x
  have "length ys \<le> unat (x - (a + of_nat (length xs)))" if lt: "unat (x - a) < length xs"
  proof (cases "ys = []")
    case False
    then have l: "length xs < 4294967296" using assms by (cases ys) auto
    then have u: "unat (of_nat (length xs) :: u32) = length xs" by (simp add: unat_of_nat)
    have "x - (a + of_nat (length xs)) = (x - a) - of_nat (length xs)" by simp
    then have "unat (x - (a + of_nat (length xs))) = unat (x - a) + 4294967296 - length xs"
      using lt u unat_sub_if_size[of "x - a" "of_nat (length xs) :: u32"]
      by (simp add: word_le_nat_alt word_size diff_diff_eq)
    then show ?thesis using assms by linarith
  qed simp
  then show "store_bytes a xs (store_bytes (a + of_nat (length xs)) ys m) x =
      store_bytes (a + of_nat (length xs)) ys (store_bytes a xs m) x"
    using assms by (auto simp: store_bytes_at)
qed

definition st_mem32 :: "u32 \<Rightarrow> u32 \<Rightarrow> memory \<Rightarrow> memory" where
  "st_mem32 a v m = store_bytes a (le32 v) m"

lemma le32_ld_mem32: "le32 (ld_mem32 a m) = load_bytes 4 a m"
  by (rule long.enc_ld)

lemma ld_st_mem32 [simp]: "ld_mem32 a (st_mem32 a v m) = v"
proof -
  have "le32 (ld_mem32 a (st_mem32 a v m)) = le32 v"
    using load_bytes_store[of "le32 v" a m] by (simp add: le32_ld_mem32 st_mem32_def)
  then show ?thesis by simp
qed

lemma ld_mem32_same: "same_on (region a 4) m m' \<Longrightarrow> ld_mem32 a m = ld_mem32 a m'"
  using load_bytes_same[of 4 a m m'] by (intro le32_inject[THEN iffD1]) (simp add: le32_ld_mem32)

lemma same_on_st_mem32: "region a 4 \<inter> R = {} \<Longrightarrow> same_on R (st_mem32 a v m) m"
  using same_on_store[of "le32 v" a R m] by (simp add: st_mem32_def)

text \<open>A block of words that has been stored is read back.\<close>

lemma concat_le32_inject:
  "length xs = length ys \<Longrightarrow> concat (map le32 xs) = concat (map le32 ys) \<longleftrightarrow> xs = ys"
proof (induction xs arbitrary: ys)
  case (Cons x xs)
  then obtain y zs where "ys = y # zs" by (cases ys) auto
  then show ?case using Cons by simp
qed simp

lemma length_units [simp]: "length (units ld k n a m) = n"
  by (induction n arbitrary: a) simp_all

lemma length_concat_le32 [simp]: "length (concat (map le32 ws)) = 4 * length ws"
  by (induction ws) simp_all

lemma units_stored:
  assumes "4 * length ws \<le> 4294967296"
  shows "units ld_mem32 4 (length ws) a (store_bytes a (concat (map le32 ws)) m) = ws"
proof -
  have "concat (map le32 (units ld_mem32 4 (length ws) a (store_bytes a (concat (map le32 ws)) m))) = concat (map le32 ws)"
    using load_bytes_store[of "concat (map le32 ws)" a m] assms by (simp add: long.units_bytes mult.commute)
  then show ?thesis by (subst (asm) concat_le32_inject) simp_all
qed

lemma units_same:
  assumes "same_on (region a (4 * n)) m m'" "4 * n \<le> 4294967296"
  shows "units ld_mem32 4 n a m = units ld_mem32 4 n a m'"
proof -
  have "concat (map le32 (units ld_mem32 4 n a m)) = concat (map le32 (units ld_mem32 4 n a m'))"
    using load_bytes_same[OF assms(2,1)] by (simp add: long.units_bytes mult.commute)
  then show ?thesis by (subst (asm) concat_le32_inject) simp_all
qed

subsection \<open>The processor\<close>

record cpu =
  eax :: u32
  ecx :: u32
  edx :: u32
  ebx :: u32
  esp :: u32
  ebp :: u32
  esi :: u32
  edi :: u32
  eflags :: u32
  eip :: u32
  ram :: memory

definition push :: "u32 \<Rightarrow> 'a cpu_scheme \<Rightarrow> 'a cpu_scheme" where
  "push v s = s\<lparr>esp := esp s - 4, ram := st_mem32 (esp s - 4) v (ram s)\<rparr>"

definition pop :: "'a cpu_scheme \<Rightarrow> u32 \<times> 'a cpu_scheme" where
  "pop s = (ld_mem32 (esp s) (ram s), s\<lparr>esp := esp s + 4\<rparr>)"

subsection \<open>The macro\<close>

text \<open>\<^verbatim>\<open>kernel_regs.esp\<close> and \<^verbatim>\<open>kernel_regs.eip\<close> of a thread, behind the 18 words of \<^verbatim>\<open>regs\<close>.\<close>

definition K_ESP :: u32 where "K_ESP = 72"
definition K_EIP :: u32 where "K_EIP = 80"

text \<open>
  Up to the jump; \<open>l\<close> is the address of the label 1. The addresses of the two structures are in
  registers that none of these instructions changes.
\<close>

definition switch_away :: "u32 \<Rightarrow> u32 \<Rightarrow> u32 \<Rightarrow> cpu \<Rightarrow> cpu" where
  "switch_away prev next l s =
     (let s1 = fold push [eflags s, eax s, ecx s, edx s, ebx s, ebp s, esi s, edi s] s;
          s2 = s1\<lparr>ram := st_mem32 (prev + K_ESP) (esp s1) (ram s1)\<rparr>;
          s3 = s2\<lparr>esp := ld_mem32 (next + K_ESP) (ram s2)\<rparr>;
          s4 = s3\<lparr>ram := st_mem32 (prev + K_EIP) l (ram s3)\<rparr>
      in s4\<lparr>eip := ld_mem32 (next + K_EIP) (ram s4)\<rparr>)"

text \<open>From the label on; \<^verbatim>\<open>popfl\<close> restores all the flags that \<^verbatim>\<open>pushfl\<close> stores.\<close>

definition switch_back :: "cpu \<Rightarrow> cpu" where
  "switch_back s0 =
     (case pop s0 of (v_edi, s1) \<Rightarrow> case pop s1 of (v_esi, s2) \<Rightarrow> case pop s2 of (v_ebp, s3) \<Rightarrow>
      case pop s3 of (v_ebx, s4) \<Rightarrow> case pop s4 of (v_edx, s5) \<Rightarrow> case pop s5 of (v_ecx, s6) \<Rightarrow>
      case pop s6 of (v_eax, s7) \<Rightarrow> case pop s7 of (v_eflags, s8) \<Rightarrow>
        s8\<lparr>edi := v_edi, esi := v_esi, ebp := v_ebp, ebx := v_ebx, edx := v_edx, ecx := v_ecx, eax := v_eax,
           eflags := v_eflags\<rparr>)"

subsection \<open>A thread that has left\<close>

text \<open>The words on the stack of a thread that leaves in state \<open>r\<close>, from the lowest address on.\<close>

definition saved_words :: "cpu \<Rightarrow> u32 list" where
  "saved_words r = [edi r, esi r, ebp r, ebx r, edx r, ecx r, eax r, eflags r]"

definition suspended :: "u32 \<Rightarrow> u32 \<Rightarrow> cpu \<Rightarrow> memory \<Rightarrow> bool" where
  "suspended t l r m \<longleftrightarrow> ld_mem32 (t + K_EIP) m = l \<and> ld_mem32 (t + K_ESP) m = esp r - 32
     \<and> units ld_mem32 4 8 (esp r - 32) m = saved_words r"

text \<open>What has to stay as it is: the two words of the structure and the words on the stack.\<close>

definition footprint :: "u32 \<Rightarrow> cpu \<Rightarrow> u32 set" where
  "footprint t r = region (t + K_ESP) 4 \<union> region (t + K_EIP) 4 \<union> region (esp r - 32) 32"

lemma suspended_frame: "suspended t l r m \<Longrightarrow> same_on (footprint t r) m' m \<Longrightarrow> suspended t l r m'"
proof -
  assume s: "suspended t l r m" and e: "same_on (footprint t r) m' m"
  have "ld_mem32 (t + K_EIP) m' = ld_mem32 (t + K_EIP) m" "ld_mem32 (t + K_ESP) m' = ld_mem32 (t + K_ESP) m"
    using same_on_subset[OF e] by (auto intro!: ld_mem32_same simp: footprint_def)
  moreover have "units ld_mem32 4 8 (esp r - 32) m' = units ld_mem32 4 8 (esp r - 32) m"
    using same_on_subset[OF e, of "region (esp r - 32) (4 * 8)"] by (intro units_same) (simp_all add: footprint_def)
  ultimately show ?thesis using s by (simp add: suspended_def)
qed

text \<open>The eight pushes are one store.\<close>

lemma push_stored:
  assumes "ram s = store_bytes (esp s) (concat (map le32 ws)) m" "4 * length ws + 4 \<le> 4294967296"
  shows "ram (push v s) = store_bytes (esp (push v s)) (concat (map le32 (v # ws))) m"
proof -
  have "store_bytes (esp s - 4) (le32 v) (store_bytes (esp s - 4 + of_nat (length (le32 v))) (concat (map le32 ws)) m) =
      store_bytes (esp s - 4 + of_nat (length (le32 v))) (concat (map le32 ws)) (store_bytes (esp s - 4) (le32 v) m)"
    by (rule store_bytes_commute) (use assms(2) in simp)
  then show ?thesis using assms(1) by (simp add: push_def st_mem32_def store_bytes_append)
qed

lemma push_fields [simp]:
  "esp (push v s) = esp s - 4" "eax (push v s) = eax s" "ecx (push v s) = ecx s" "edx (push v s) = edx s"
  "ebx (push v s) = ebx s" "ebp (push v s) = ebp s" "esi (push v s) = esi s" "edi (push v s) = edi s"
  "eflags (push v s) = eflags s" "eip (push v s) = eip s"
  by (simp_all add: push_def)

lemma fold_push_fields [simp]:
  "eax (fold push vs s) = eax s" "ecx (fold push vs s) = ecx s" "edx (fold push vs s) = edx s"
  "ebx (fold push vs s) = ebx s" "ebp (fold push vs s) = ebp s" "esi (fold push vs s) = esi s"
  "edi (fold push vs s) = edi s" "eflags (fold push vs s) = eflags s" "eip (fold push vs s) = eip s"
  by (induction vs arbitrary: s) simp_all

lemma esp_fold_push: "esp (fold push vs s) = esp s - of_nat (4 * length vs)"
  by (induction vs arbitrary: s) (simp_all add: algebra_simps)

lemma fold_push_stored:
  assumes "ram s = store_bytes (esp s) (concat (map le32 ws)) m" "4 * (length vs + length ws) \<le> 4294967296"
  shows "ram (fold push vs s) = store_bytes (esp (fold push vs s)) (concat (map le32 (rev vs @ ws))) m"
  using assms
proof (induction vs arbitrary: s ws)
  case (Cons v vs)
  have "ram (push v s) = store_bytes (esp (push v s)) (concat (map le32 (v # ws))) m"
    using Cons.prems by (intro push_stored) simp_all
  from Cons.IH[OF this] Cons.prems(2) show ?case by simp
qed simp

text \<open>A row of pushes is one store.\<close>

lemma ram_fold_push:
  "4 * length vs \<le> 4294967296 \<Longrightarrow>
   ram (fold push vs s) = store_bytes (esp s - of_nat (4 * length vs)) (concat (map le32 (rev vs))) (ram s)"
  using fold_push_stored[of s "[]" "ram s" vs] by (simp add: esp_fold_push)

lemma switch_back_restores:
  assumes "units ld_mem32 4 8 (esp s) (ram s) = saved_words r"
  shows "switch_back s = s\<lparr>edi := edi r, esi := esi r, ebp := ebp r, ebx := ebx r, edx := edx r, ecx := ecx r,
    eax := eax r, eflags := eflags r, esp := esp s + 32\<rparr>"
  using assms by (simp add: switch_back_def pop_def saved_words_def eval_nat_numeral)

text \<open>The places a thread writes to when it leaves do not overlap.\<close>

definition apart :: "u32 \<Rightarrow> cpu \<Rightarrow> bool" where
  "apart t r \<longleftrightarrow> region (t + K_ESP) 4 \<inter> region (t + K_EIP) 4 = {} \<and> region (t + K_ESP) 4 \<inter> region (esp r - 32) 32 = {}
     \<and> region (t + K_EIP) 4 \<inter> region (esp r - 32) 32 = {}"

lemma ram_switch_away:
  "ram (switch_away prev next l s) = st_mem32 (prev + K_EIP) l (st_mem32 (prev + K_ESP) (esp s - 32)
     (store_bytes (esp s - 32) (concat (map le32 (saved_words s))) (ram s)))"
proof -
  have "ram (fold push [eflags s, eax s, ecx s, edx s, ebx s, ebp s, esi s, edi s] s) =
      store_bytes (esp s - 32) (concat (map le32 (saved_words s))) (ram s)"
    by (subst ram_fold_push) (simp_all add: saved_words_def)
  moreover have "esp (fold push [eflags s, eax s, ecx s, edx s, ebx s, ebp s, esi s, edi s] s) = esp s - 32"
    by (simp add: esp_fold_push)
  ultimately show ?thesis by (simp add: switch_away_def Let_def del: fold_simps)
qed

lemma length_saved [simp]: "length (saved_words r) = 8"
  by (simp add: saved_words_def)

lemma switch_writes:
  assumes "footprint prev s \<inter> R = {}"
  shows "same_on R (ram (switch_away prev next l s)) (ram s)"
  unfolding ram_switch_away using assms
  by (intro same_on_trans[OF same_on_st_mem32 same_on_trans[OF same_on_st_mem32 same_on_store]])
     (auto simp: footprint_def)

lemma suspended_after:
  assumes "apart prev s"
  shows "suspended prev l s (ram (switch_away prev next l s))"
proof -
  let ?m0 = "store_bytes (esp s - 32) (concat (map le32 (saved_words s))) (ram s)"
  let ?m1 = "st_mem32 (prev + K_ESP) (esp s - 32) ?m0"
  have f: "same_on (region (prev + K_ESP) 4) (st_mem32 (prev + K_EIP) l ?m1) ?m1"
    "same_on (region (esp s - 32) (4 * 8)) (st_mem32 (prev + K_EIP) l ?m1) ?m0"
    using assms by (auto simp: apart_def Int_commute intro!: same_on_st_mem32 same_on_trans[OF same_on_st_mem32 same_on_st_mem32])
  have "ld_mem32 (prev + K_ESP) (st_mem32 (prev + K_EIP) l ?m1) = esp s - 32"
    using ld_mem32_same[OF f(1)] by simp
  moreover have "units ld_mem32 4 8 (esp s - 32) (st_mem32 (prev + K_EIP) l ?m1) = saved_words s"
    using units_same[OF f(2)] units_stored[of "saved_words s" "esp s - 32" "ram s"] by simp
  ultimately show ?thesis by (simp add: suspended_def ram_switch_away)
qed

lemma esp_switch_away:
  "esp (switch_away prev next l s) = ld_mem32 (next + K_ESP) (st_mem32 (prev + K_ESP) (esp s - 32)
     (store_bytes (esp s - 32) (concat (map le32 (saved_words s))) (ram s)))"
proof -
  have "ram (fold push [eflags s, eax s, ecx s, edx s, ebx s, ebp s, esi s, edi s] s) =
      store_bytes (esp s - 32) (concat (map le32 (saved_words s))) (ram s)"
    by (subst ram_fold_push) (simp_all add: saved_words_def)
  moreover have "esp (fold push [eflags s, eax s, ecx s, edx s, ebx s, ebp s, esi s, edi s] s) = esp s - 32"
    by (simp add: esp_fold_push)
  ultimately show ?thesis by (simp add: switch_away_def Let_def del: fold_simps)
qed

lemma eip_switch_away: "eip (switch_away prev next l s) = ld_mem32 (next + K_EIP) (ram (switch_away prev next l s))"
  by (simp add: switch_away_def Let_def)

text \<open>The registers a C function can see.\<close>

definition registers :: "cpu \<Rightarrow> u32 list" where
  "registers s = [eax s, ecx s, edx s, ebx s, esp s, ebp s, esi s, edi s, eflags s]"

lemma esp_other:
  assumes "footprint prev u \<inter> region (next + K_ESP) 4 = {}"
  shows "esp (switch_away prev next l' u) = ld_mem32 (next + K_ESP) (ram u)"
  unfolding esp_switch_away using assms
  by (intro ld_mem32_same same_on_trans[OF same_on_st_mem32 same_on_store]) (auto simp: footprint_def)

lemma eip_other:
  assumes "footprint prev u \<inter> region (next + K_EIP) 4 = {}"
  shows "eip (switch_away prev next l' u) = ld_mem32 (next + K_EIP) (ram u)"
  unfolding eip_switch_away by (rule ld_mem32_same[OF switch_writes[OF assms]])

lemma switch_resumes:
  assumes "suspended next l r (ram u)" "footprint prev u \<inter> footprint next r = {}"
  shows "eip (switch_away prev next l' u) = l"
    and "registers (switch_back (switch_away prev next l' u)) = registers r"
proof -
  let ?c = "switch_away prev next l' u"
  have d: "footprint prev u \<inter> region (next + K_ESP) 4 = {}" "footprint prev u \<inter> region (next + K_EIP) 4 = {}"
    using assms(2) by (auto simp: footprint_def[of "next"])
  show "eip ?c = l" using eip_other[OF d(2)] assms(1) by (simp add: suspended_def)
  have e: "esp ?c = esp r - 32" using esp_other[OF d(1)] assms(1) by (simp add: suspended_def)
  have "suspended next l r (ram ?c)" by (rule suspended_frame[OF assms(1) switch_writes[OF assms(2)]])
  then have "units ld_mem32 4 8 (esp ?c) (ram ?c) = saved_words r" by (simp add: suspended_def e)
  from switch_back_restores[OF this] show "registers (switch_back ?c) = registers r"
    by (simp add: registers_def e)
qed

lemma ram_switch_back [simp]: "ram (switch_back s) = ram s"
  by (simp add: switch_back_def pop_def)

subsection \<open>Many threads\<close>

text \<open>
  The thread that runs, the state in which each of the others left, if it did, and the processor. The
  running thread may change everything but the places of those that left. A switch leaves it and goes
  on where the other one says: behind the macro if this is the label, and anywhere else with a thread
  that has not run before.
\<close>

type_synonym multi = "u32 \<times> (u32 \<Rightarrow> cpu option) \<times> cpu"

definition go_on :: "u32 \<Rightarrow> cpu \<Rightarrow> cpu" where
  "go_on l c = (if eip c = l then switch_back c else c)"

inductive mstep :: "u32 \<Rightarrow> multi \<Rightarrow> multi \<Rightarrow> bool" for l where
  run: "(\<And>t r. sv t = Some r \<Longrightarrow> same_on (footprint t r) (ram c') (ram c)) \<Longrightarrow> mstep l (cur, sv, c) (cur, sv, c')"
| switch: "next \<noteq> cur \<Longrightarrow> apart cur c \<Longrightarrow> (\<And>t r. sv t = Some r \<Longrightarrow> footprint cur c \<inter> footprint t r = {}) \<Longrightarrow>
    mstep l (cur, sv, c) (next, (sv(cur \<mapsto> c))(next := None), go_on l (switch_away cur next l c))"

inductive mreach :: "u32 \<Rightarrow> multi \<Rightarrow> bool" for l where
  start: "mreach l (cur, (\<lambda>_. None), c)"
| step: "mreach l s \<Longrightarrow> mstep l s s' \<Longrightarrow> mreach l s'"

inductive_cases mstepE: "mstep l (cur, sv, c) s'"

lemma all_suspended:
  "mreach l s \<Longrightarrow> s = (cur, sv, c) \<Longrightarrow> sv cur = None \<and> (\<forall>t r. sv t = Some r \<longrightarrow> suspended t l r (ram c))"
proof (induction arbitrary: cur sv c rule: mreach.induct)
  case (step s s')
  obtain cur0 sv0 c0 where s: "s = (cur0, sv0, c0)" by (cases s)
  have IH: "sv0 cur0 = None" "\<And>t r. sv0 t = Some r \<Longrightarrow> suspended t l r (ram c0)"
    using step.IH[OF s] by auto
  from step.hyps(2)[unfolded s] show ?case
  proof (cases rule: mstep.cases)
    case run
    then show ?thesis using IH(1) step.prems by (auto intro: suspended_frame[OF IH(2)])
  next
    case (switch "next")
    have "suspended t l r (ram (switch_away cur0 next l c0))" if "((sv0(cur0 \<mapsto> c0))(next := None)) t = Some r" for t r
      using that switch IH(2) suspended_after[of cur0 c0 l "next"] suspended_frame[OF _ switch_writes]
      by (auto split: if_splits)
    then show ?thesis using switch step.prems by (auto simp: go_on_def)
  qed
qed simp

subsection \<open>The scheduler and the macro\<close>

text \<open>
  The words of the structures in memory are those of the records; \<open>ad\<close> gives the address of a structure.
  The structures lie apart from each other and from the stack in use.
\<close>

definition words_at :: "(nat \<Rightarrow> u32) \<Rightarrow> threads \<Rightarrow> memory \<Rightarrow> bool" where
  "words_at ad st m \<longleftrightarrow> (\<forall>a < length (thread_heap st).
     ld_mem32 (ad a + K_ESP) m = k_esp (kernel_regs (thread_heap st ! a)) \<and>
     ld_mem32 (ad a + K_EIP) m = k_eip (kernel_regs (thread_heap st ! a)))"

definition struct_words :: "u32 \<Rightarrow> u32 set" where
  "struct_words t = region (t + K_ESP) 4 \<union> region (t + K_EIP) 4"

definition structs_apart :: "(nat \<Rightarrow> u32) \<Rightarrow> nat \<Rightarrow> cpu \<Rightarrow> bool" where
  "structs_apart ad n s \<longleftrightarrow> (\<forall>a < n. apart (ad a) s \<and> (\<forall>b < n. a \<noteq> b \<longrightarrow> struct_words (ad a) \<inter> struct_words (ad b) = {}))"

lemma footprint_struct: "footprint t r = struct_words t \<union> region (esp r - 32) 32"
  by (auto simp: footprint_def struct_words_def)

lemma structs_apartD:
  assumes "structs_apart ad n s" "a < n" "b < n" "a \<noteq> b"
  shows "footprint (ad a) s \<inter> struct_words (ad b) = {}"
proof -
  have "struct_words (ad a) \<inter> struct_words (ad b) = {}" and b: "apart (ad b) s"
    using assms unfolding structs_apart_def by blast+
  moreover have "region (esp s - 32) 32 \<inter> struct_words (ad b) = {}"
    using b by (simp add: apart_def struct_words_def Int_Un_distrib Int_commute)
  ultimately show ?thesis by (simp add: footprint_struct Int_Un_distrib2)
qed

lemma schedule_is_switch:
  assumes w: "words_at ad st (ram s)" and ap: "structs_apart ad (length (thread_heap st)) s"
    and p: "current_thread st = Some p" and r: "schedule (esp s - 32, l) st = Inr (st', Some (cr3, sp, ip))"
  shows "\<exists>n. current_thread st' = Some n \<and> esp (switch_away (ad p) (ad n) l s) = sp
     \<and> eip (switch_away (ad p) (ad n) l s) = ip \<and> words_at ad st' (ram (switch_away (ad p) (ad n) l s))"
proof -
  let ?hp = "thread_heap st"
  obtain n where pl: "p < length ?hp" and n: "th_next (?hp ! p) = Some n" "n \<noteq> p" "n < length ?hp"
    and st': "st' = st\<lparr>current_thread := Some n, thread_heap := ?hp[p := (?hp ! p)\<lparr>kernel_regs :=
        (kernel_regs (?hp ! p))\<lparr>k_esp := esp s - 32, k_eip := l\<rparr>\<rparr>]\<rparr>"
    and out: "sp = k_esp (kernel_regs (?hp ! n))" "ip = k_eip (kernel_regs (?hp ! n))"
    using r by (auto simp: schedule_def p rbind_Inr_conv deref_Inr_conv upd_thread_Inr_conv Let_def split: if_splits)
  let ?c = "switch_away (ad p) (ad n) l s"
  have other: "footprint (ad p) s \<inter> struct_words (ad b) = {}" if "b < length ?hp" "b \<noteq> p" for b
    using structs_apartD[OF ap pl that(1)] that(2) by simp
  have "esp ?c = sp" "eip ?c = ip"
    using other[of n] n out w esp_other[of "ad p" s "ad n" l] eip_other[of "ad p" s "ad n" l]
    by (auto simp: struct_words_def words_at_def)
  moreover have "words_at ad st' (ram ?c)"
  proof -
    have "ld_mem32 (ad b + K_ESP) (ram ?c) = k_esp (kernel_regs (thread_heap st' ! b)) \<and>
        ld_mem32 (ad b + K_EIP) (ram ?c) = k_eip (kernel_regs (thread_heap st' ! b))" if b: "b < length ?hp" for b
    proof (cases "b = p")
      case True
      have "apart (ad p) s" using ap pl by (simp add: structs_apart_def)
      from suspended_after[OF this, of l "ad n"] show ?thesis using True pl st' by (simp add: suspended_def)
    next
      case False
      from other[OF b this] have "same_on (struct_words (ad b)) (ram ?c) (ram s)" by (rule switch_writes)
      then have "ld_mem32 (ad b + K_ESP) (ram ?c) = ld_mem32 (ad b + K_ESP) (ram s)"
        "ld_mem32 (ad b + K_EIP) (ram ?c) = ld_mem32 (ad b + K_EIP) (ram s)"
        by (auto intro!: ld_mem32_same elim: same_on_subset simp: struct_words_def)
      then show ?thesis using False b w st' by (simp add: words_at_def)
    qed
    then show ?thesis using st' by (simp add: words_at_def)
  qed
  ultimately show ?thesis using st' by auto
qed

subsection \<open>Properties\<close>

text \<open>
  C15. Whatever the threads do and however they switch, a thread that is switched to again goes on behind the
  macro with all the registers, the flags and the stack pointer that it had when it left, and the one that
  is left can be gone on with in the same way. This holds as long as no thread writes to the two words of
  the structure and the 32 bytes of stack of one that is not running.
\<close>

theorem switch_restores_registers:
  assumes "mreach l (cur, sv, c)" and "sv t = Some r"
    and "apart cur c" and "footprint cur c \<inter> footprint t r = {}"
  shows "eip (switch_away cur t l c) = l \<and> registers (switch_back (switch_away cur t l c)) = registers r
     \<and> suspended cur l c (ram (switch_back (switch_away cur t l c)))"
proof -
  have "suspended t l r (ram c)" using all_suspended[OF assms(1)] assms(2) by blast
  from switch_resumes[OF this assms(4)] suspended_after[OF assms(3)] show ?thesis by simp
qed

text \<open>Two threads with their structures at 0x1000 and 0x2000; the second has not run yet.\<close>

lemma region_disjoint:
  assumes "unat a + n \<le> unat b" "unat b + k \<le> 4294967296"
  shows "region a n \<inter> region b k = {}" "region b k \<inter> region a n = {}"
proof -
  have False if x: "unat (x - a) < n" "unat (x - b) < k" for x
  proof -
    have "unat (b + (x - b)) = unat b + unat (x - b)" using x(2) assms(2) by (intro unat_plus_32) simp
    then have u: "unat x = unat b + unat (x - b)" by simp
    then have "unat (x - a) = unat x - unat a" using assms(1) by (intro unat_minus_32) simp
    then show False using x(1) u assms(1) by simp
  qed
  then show "region a n \<inter> region b k = {}" "region b k \<inter> region a n = {}" by (auto simp: region_def)
qed

definition first_cpu :: cpu where
  "first_cpu = \<lparr>eax = 7, ecx = 0, edx = 0, ebx = 9, esp = 0x9000, ebp = 0x9010, esi = 0, edi = 0, eflags = 0x202, eip = 0x10,
     ram = st_mem32 0x2048 0x8000 (st_mem32 0x2050 0x50 (\<lambda>_. 0))\<rparr>"

definition second_cpu :: cpu where "second_cpu = switch_away 0x1000 0x2000 0x77 first_cpu"

lemma first_apart:
  "apart 0x1000 first_cpu" "footprint 0x1000 first_cpu \<inter> region 0x2048 4 = {}" "footprint 0x1000 first_cpu \<inter> region 0x2050 4 = {}"
  by (simp_all add: apart_def footprint_def first_cpu_def K_ESP_def K_EIP_def Int_Un_distrib2 region_disjoint)

lemma second_cpu_start: "esp second_cpu = 0x8000" "eip second_cpu = 0x50"
proof -
  have d: "region 0x2050 4 \<inter> region 0x2048 4 = {}" by (rule region_disjoint(2)) simp_all
  have "ld_mem32 0x2048 (ram first_cpu) = 0x8000" by (simp add: first_cpu_def)
  moreover have "ld_mem32 0x2050 (ram first_cpu) = 0x50"
    using ld_mem32_same[OF same_on_st_mem32[where a = "0x2048" and R = "region 0x2050 4" and v = "0x8000"
        and m = "st_mem32 0x2050 0x50 (\<lambda>_. 0)"]] d by (simp add: first_cpu_def Int_commute)
  ultimately show "esp second_cpu = 0x8000" "eip second_cpu = 0x50"
    using esp_other[of "0x1000" first_cpu "0x2000" "0x77"] eip_other[of "0x1000" first_cpu "0x2000" "0x77"] first_apart(2,3)
    by (simp_all add: second_cpu_def K_ESP_def K_EIP_def)
qed

lemma second_reached: "mreach 0x77 (0x2000, [0x1000 \<mapsto> first_cpu], second_cpu)"
proof -
  have "mstep 0x77 (0x1000, (\<lambda>_. None), first_cpu)
      (0x2000, ((\<lambda>_. None)(0x1000 \<mapsto> first_cpu))(0x2000 := None), go_on 0x77 second_cpu)"
    unfolding second_cpu_def by (rule mstep.switch) (simp_all add: first_apart)
  moreover have "go_on 0x77 second_cpu = second_cpu" by (simp add: go_on_def second_cpu_start)
  moreover have "((\<lambda>_. None)(0x1000 \<mapsto> first_cpu))(0x2000 := None) = [0x1000 :: u32 \<mapsto> first_cpu]" by auto
  ultimately show ?thesis using mreach.step[OF mreach.start] by metis
qed

theorem switch_restores_registers_witness:
  "let c = switch_back (switch_away 0x2000 0x1000 0x77 second_cpu)
   in registers c = [7, 0, 0, 9, 0x9000, 0x9010, 0, 0, 0x202] \<and> suspended 0x2000 0x77 second_cpu (ram c)"
proof -
  have a: "apart 0x2000 second_cpu" "footprint 0x2000 second_cpu \<inter> footprint 0x1000 first_cpu = {}"
    by (simp_all add: apart_def footprint_def second_cpu_start first_cpu_def K_ESP_def K_EIP_def Int_Un_distrib Int_Un_distrib2 region_disjoint)
  have "[0x1000 :: u32 \<mapsto> first_cpu] 0x1000 = Some first_cpu" by simp
  from switch_restores_registers[OF second_reached this a] show ?thesis
    by (simp add: Let_def registers_def first_cpu_def)
qed

end
