(* ===== verification/Entry.thy ===== *)
theory Entry
  imports Switch
begin

text \<open>
  The way into the kernel and out of it: what the processor does on an interrupt from a user program, and
  \<^verbatim>\<open>save\<close>, \<^verbatim>\<open>restart\<close> and \<^verbatim>\<open>ret_to_proc\<close> of kernel/kernel.asm, which keep the registers of a user thread at
  the start of its structure. The lemmas show that an interrupt leaves a user thread as it was, but for
  the value a system call puts in \<^verbatim>\<open>eax\<close>, and what \<^verbatim>\<open>restart\<close> does to the memory behind the stack of a
  kernel thread. The arithmetic flags inside the kernel are not modelled.
\<close>

unbundle bit_operations_syntax

subsection \<open>State\<close>

text \<open>The segment registers, the two fields of the task state segment in use, and two global variables.\<close>

record kcpu = cpu +
  seg_cs :: u16
  seg_ds :: u16
  seg_es :: u16
  seg_fs :: u16
  seg_gs :: u16
  seg_ss :: u16
  tss_esp0 :: u32
  tss_ss0 :: u16
  is_in_ring0 :: u32
  current :: u32

text \<open>The offsets of kernel/include/pm.inc.\<close>

definition KERNELESPREG :: u32 where "KERNELESPREG = 28"
definition RETADR :: u32 where "RETADR = 48"
definition ESPREG :: nat where "ESPREG = 64"
definition P_STACKTOP :: u32 where "P_STACKTOP = 72"
definition P_K_ESP :: u32 where "P_K_ESP = 72"
definition P_K_ESP_ADDR :: u32 where "P_K_ESP_ADDR = 76"
definition P_FLAG :: u32 where "P_FLAG = 92"

lemmas frame_offsets = KERNELESPREG_def RETADR_def ESPREG_def P_STACKTOP_def P_K_ESP_def P_K_ESP_ADDR_def P_FLAG_def

definition IF_FLAG :: u32 where "IF_FLAG = 0x200"

subsection \<open>Into the kernel\<close>

text \<open>
  An interrupt through a gate from a less privileged level: the stack of the task state segment, five
  words on it, and the handler \<open>h\<close> in the code segment \<open>kcs\<close> with interrupts off.
\<close>

definition trap_entry :: "u32 \<Rightarrow> u16 \<Rightarrow> kcpu \<Rightarrow> kcpu" where
  "trap_entry h kcs s =
     (fold push [ucast (seg_ss s), esp s, eflags s, ucast (seg_cs s), eip s] (s\<lparr>esp := tss_esp0 s, seg_ss := tss_ss0 s\<rparr>))
       \<lparr>eip := h, seg_cs := kcs, eflags := eflags s AND NOT IF_FLAG\<rparr>"

text \<open>\<^verbatim>\<open>call save\<close> with the address \<open>ret\<close> behind it; \<open>a_restart\<close> and \<open>a_ret\<close> are the addresses of the labels.\<close>

definition save :: "u32 \<Rightarrow> u32 \<Rightarrow> u32 \<Rightarrow> kcpu \<Rightarrow> kcpu" where
  "save a_restart a_ret ret s =
     (let s1 = push ret s;
          s2 = fold push [eax s1, ecx s1, edx s1, ebx s1, esp s1, ebp s1, esi s1, edi s1] s1;
          s3 = fold push [ucast (seg_ds s2), ucast (seg_es s2), ucast (seg_fs s2), ucast (seg_gs s2)] s2;
          s4 = s3\<lparr>seg_ds := seg_ss s3, seg_es := seg_ss s3, esi := esp s3, is_in_ring0 := is_in_ring0 s3 + 1\<rparr>;
          s5 = (if is_in_ring0 s4 = 0 then push a_restart (s4\<lparr>esp := ld_mem32 (current s4 + P_K_ESP) (ram s4)\<rparr>)
                else push a_ret s4)
      in s5\<lparr>eip := ld_mem32 (esi s5 + RETADR) (ram s5)\<rparr>)"

subsection \<open>Out of the kernel\<close>

text \<open>A row of pops: the words in the order they come off the stack.\<close>

fun pops :: "nat \<Rightarrow> 'a cpu_scheme \<Rightarrow> u32 list \<times> 'a cpu_scheme" where
  "pops 0 s = ([], s)"
| "pops (Suc n) s = (case pop s of (w, s1) \<Rightarrow> apfst ((#) w) (pops n s1))"

text \<open>\<^verbatim>\<open>iretd\<close> takes the stack pointer and segment as well when it changes to a less privileged level.\<close>

definition iretd :: "kcpu \<Rightarrow> kcpu" where
  "iretd s0 =
     (case pops 3 s0 of (w, s1) \<Rightarrow>
        let s2 = s1\<lparr>eip := w ! 0, seg_cs := ucast (w ! 1), eflags := w ! 2\<rparr> in
        if w ! 1 AND 3 \<noteq> 0 then (case pops 2 s2 of (v, s3) \<Rightarrow> s3\<lparr>esp := v ! 0, seg_ss := ucast (v ! 1)\<rparr>) else s2)"

text \<open>The four segment registers, then \<^verbatim>\<open>popad\<close>, which takes eight words and drops the fourth, and \<^verbatim>\<open>add esp,4\<close>.\<close>

definition ret_to_proc :: "kcpu \<Rightarrow> kcpu" where
  "ret_to_proc s0 =
     (case pops 4 (s0\<lparr>is_in_ring0 := is_in_ring0 s0 - 1\<rparr>) of (g, s1) \<Rightarrow>
      case pops 8 s1 of (w, s2) \<Rightarrow>
        iretd (s2\<lparr>seg_gs := ucast (g ! 0), seg_fs := ucast (g ! 1), seg_es := ucast (g ! 2), seg_ds := ucast (g ! 3),
          edi := w ! 0, esi := w ! 1, ebp := w ! 2, ebx := w ! 4, edx := w ! 5, ecx := w ! 6, eax := w ! 7,
          esp := esp s2 + 4\<rparr>))"

text \<open>The loop that copies \<open>n\<close> bytes upwards.\<close>

fun copy_up :: "nat \<Rightarrow> u32 \<Rightarrow> u32 \<Rightarrow> memory \<Rightarrow> memory" where
  "copy_up 0 src dst m = m"
| "copy_up (Suc n) src dst m = copy_up n (src + 1) (dst + 1) (m(dst := m src))"

text \<open>
  The frame of a kernel thread is copied to the end of its stack; the words behind the frame are then
  used as those of a thread structure, which they are only for a user thread.
\<close>

definition restart :: "kcpu \<Rightarrow> kcpu" where
  "restart s =
     (let t = current s;
          s1 = (if ld_mem32 (t + P_FLAG) (ram s) AND 1 = 1
                then (let dst = ld_mem32 (t + KERNELESPREG) (ram s) - of_nat ESPREG in
                      s\<lparr>ram := copy_up ESPREG t dst (ram s), esp := ld_mem32 (t + KERNELESPREG) (copy_up ESPREG t dst (ram s)) - of_nat ESPREG\<rparr>)
                else s\<lparr>esp := t\<rparr>);
          s2 = s1\<lparr>ram := st_mem32 (esp s1 + P_K_ESP) (ld_mem32 (esp s1 + P_K_ESP_ADDR) (ram s1) + 1024 * 4) (ram s1),
                  tss_esp0 := esp s1 + P_STACKTOP\<rparr>
      in ret_to_proc s2)"


subsection \<open>The frame of a user thread\<close>

lemma push_more [simp]:
  "seg_cs (push v s) = seg_cs s" "seg_ds (push v s) = seg_ds s" "seg_es (push v s) = seg_es s"
  "seg_fs (push v s) = seg_fs s" "seg_gs (push v s) = seg_gs s" "seg_ss (push v s) = seg_ss s"
  "tss_esp0 (push v s) = tss_esp0 s" "tss_ss0 (push v s) = tss_ss0 s"
  "is_in_ring0 (push v s) = is_in_ring0 s" "current (push v s) = current s"
  by (simp_all add: push_def)

lemma fold_push_more [simp]:
  "seg_cs (fold push vs s) = seg_cs s" "seg_ds (fold push vs s) = seg_ds s" "seg_es (fold push vs s) = seg_es s"
  "seg_fs (fold push vs s) = seg_fs s" "seg_gs (fold push vs s) = seg_gs s" "seg_ss (fold push vs s) = seg_ss s"
  "tss_esp0 (fold push vs s) = tss_esp0 s" "tss_ss0 (fold push vs s) = tss_ss0 s"
  "is_in_ring0 (fold push vs s) = is_in_ring0 s" "current (fold push vs s) = current s"
  by (induction vs arbitrary: s) simp_all

lemma region_next: "n + k \<le> 4294967296 \<Longrightarrow> n < 4294967296 \<Longrightarrow> region (a + of_nat n) k \<inter> region a n = {}"
proof -
  assume nk: "n + k \<le> 4294967296" "n < 4294967296"
  then have u: "unat (of_nat n :: u32) = n" by (simp add: unat_of_nat)
  have False if x: "unat (x - (a + of_nat n)) < k" "unat (x - a) < n" for x
  proof -
    have "unat (x - a) = unat ((x - (a + of_nat n)) + of_nat n)" by simp
    also have "\<dots> = unat (x - (a + of_nat n)) + n" using x(1) u nk unat_plus_32[of "x - (a + of_nat n)" "of_nat n"] by simp
    finally show False using x(2) by simp
  qed
  then show ?thesis by (auto simp: region_def)
qed

text \<open>The words of the frame, from the start of the structure on.\<close>

definition frame_words :: "u32 \<Rightarrow> u32 \<Rightarrow> kcpu \<Rightarrow> u32 list" where
  "frame_words ret sp s =
     [ucast (seg_gs s), ucast (seg_fs s), ucast (seg_es s), ucast (seg_ds s), edi s, esi s, ebp s, sp, ebx s, edx s, ecx s,
      eax s, ret, eip s, ucast (seg_cs s), eflags s, esp s, ucast (seg_ss s)]"

lemma length_frame [simp]: "length (frame_words ret sp s) = 18"
  by (simp add: frame_words_def)

definition pushed :: "kcpu \<Rightarrow> u32 list \<Rightarrow> memory \<Rightarrow> bool" where
  "pushed s ws m \<longleftrightarrow> ram s = store_bytes (esp s) (concat (map le32 ws)) m"

lemma pushed_fold: "pushed s ws m \<Longrightarrow> length vs + length ws \<le> 100 \<Longrightarrow> pushed (fold push vs s) (rev vs @ ws) m"
  unfolding pushed_def by (rule fold_push_stored) simp_all

lemma pushed_cong: "pushed s ws m \<Longrightarrow> ram s' = ram s \<Longrightarrow> esp s' = esp s \<Longrightarrow> pushed s' ws m"
  by (simp add: pushed_def)

lemma trap_entry_fields:
  "eax (trap_entry h kcs s) = eax s" "ecx (trap_entry h kcs s) = ecx s" "edx (trap_entry h kcs s) = edx s"
  "ebx (trap_entry h kcs s) = ebx s" "ebp (trap_entry h kcs s) = ebp s" "esi (trap_entry h kcs s) = esi s"
  "edi (trap_entry h kcs s) = edi s" "seg_ds (trap_entry h kcs s) = seg_ds s" "seg_es (trap_entry h kcs s) = seg_es s"
  "seg_fs (trap_entry h kcs s) = seg_fs s" "seg_gs (trap_entry h kcs s) = seg_gs s"
  "current (trap_entry h kcs s) = current s" "is_in_ring0 (trap_entry h kcs s) = is_in_ring0 s"
  "esp (trap_entry h kcs s) = tss_esp0 s - 20"
  by (simp_all add: trap_entry_def esp_fold_push del: fold_simps)

lemma trap_pushed:
  "pushed (trap_entry h kcs s) [eip s, ucast (seg_cs s), eflags s, esp s, ucast (seg_ss s)] (ram s)"
proof -
  have "pushed (s\<lparr>esp := tss_esp0 s, seg_ss := tss_ss0 s\<rparr>) [] (ram s)" by (simp add: pushed_def)
  from pushed_fold[OF this, of "[ucast (seg_ss s), esp s, eflags s, ucast (seg_cs s), eip s]"]
  show ?thesis by (auto simp: trap_entry_def simp del: fold_simps intro: pushed_cong)
qed

text \<open>What \<^verbatim>\<open>save\<close> has pushed before it looks at the level.\<close>

definition saved :: "u32 \<Rightarrow> kcpu \<Rightarrow> kcpu" where
  "saved ret s =
     (let s1 = push ret s; s2 = fold push [eax s1, ecx s1, edx s1, ebx s1, esp s1, ebp s1, esi s1, edi s1] s1
      in fold push [ucast (seg_ds s2), ucast (seg_es s2), ucast (seg_fs s2), ucast (seg_gs s2)] s2)"

lemma saved_pushed:
  "pushed (saved ret (trap_entry h kcs s)) (frame_words ret (tss_esp0 s - 24) s) (ram s)"
  "esp (saved ret (trap_entry h kcs s)) = tss_esp0 s - 72"
proof -
  let ?t = "trap_entry h kcs s"
  have p1: "pushed (push ret ?t) [ret, eip s, ucast (seg_cs s), eflags s, esp s, ucast (seg_ss s)] (ram s)"
    using pushed_fold[OF trap_pushed, of "[ret]"] by simp
  let ?v2 = "[eax ?t, ecx ?t, edx ?t, ebx ?t, esp (push ret ?t), ebp ?t, esi ?t, edi ?t]"
  let ?v3 = "[ucast (seg_ds s), ucast (seg_es s), ucast (seg_fs s), ucast (seg_gs s)] :: u32 list"
  have e: "saved ret ?t = fold push ?v3 (fold push ?v2 (push ret ?t))"
    by (simp add: saved_def Let_def trap_entry_fields del: fold_simps)
  have p3: "pushed (fold push ?v3 (fold push ?v2 (push ret ?t)))
      (rev ?v3 @ (rev ?v2 @ [ret, eip s, ucast (seg_cs s), eflags s, esp s, ucast (seg_ss s)])) (ram s)"
    by (intro pushed_fold p1) simp_all
  show "pushed (saved ret ?t) (frame_words ret (tss_esp0 s - 24) s) (ram s)"
    using p3 unfolding e by (simp add: frame_words_def trap_entry_fields del: fold_simps)
  show "esp (saved ret ?t) = tss_esp0 s - 72"
    unfolding e by (simp add: esp_fold_push trap_entry_fields del: fold_simps)
qed


lemma units_nth: "i < n \<Longrightarrow> units ld k n a m ! i = ld (a + of_nat (k * i)) m"
proof (induction n arbitrary: a i)
  case (Suc n)
  then show ?case by (cases i) (simp_all add: ac_simps)
qed simp

lemma pushed_units: "pushed s ws m \<Longrightarrow> length ws \<le> 100 \<Longrightarrow> units ld_mem32 4 (length ws) (esp s) (ram s) = ws"
  unfolding pushed_def by (simp add: units_stored)

lemma save_is: "save a_restart a_ret ret s =
   (let s3 = saved ret s; s4 = s3\<lparr>seg_ds := seg_ss s3, seg_es := seg_ss s3, esi := esp s3, is_in_ring0 := is_in_ring0 s3 + 1\<rparr>;
        s5 = (if is_in_ring0 s4 = 0 then push a_restart (s4\<lparr>esp := ld_mem32 (current s4 + P_K_ESP) (ram s4)\<rparr>) else push a_ret s4)
    in s5\<lparr>eip := ld_mem32 (esi s5 + RETADR) (ram s5)\<rparr>)"
  unfolding save_def saved_def Let_def ..

lemma saved_more: "is_in_ring0 (saved ret s) = is_in_ring0 s" "current (saved ret s) = current s"
  unfolding saved_def Let_def by (simp_all del: fold_simps)

text \<open>
  An interrupt from a user thread: the frame in its structure, the kernel stack of the thread with the
  address of \<^verbatim>\<open>restart\<close> on it, and the handler behind \<^verbatim>\<open>call save\<close> next.
\<close>

lemma save_user:
  fixes s :: kcpu and a_restart a_ret ret h :: u32 and kcs :: u16
  defines "k \<equiv> save a_restart a_ret ret (trap_entry h kcs s)" and "kesp \<equiv> ld_mem32 (current s + P_K_ESP) (ram s)"
  assumes "tss_esp0 s = current s + P_STACKTOP" "is_in_ring0 s = - 1" "region (kesp - 4) 4 \<inter> region (current s) 72 = {}"
  shows "units ld_mem32 4 18 (current s) (ram k) = frame_words ret (current s + 48) s"
    and "esp k = kesp - 4" "ld_mem32 (esp k) (ram k) = a_restart" "eip k = ret" "is_in_ring0 k = 0" "current k = current s"
    and "\<And>R. region (current s) 72 \<inter> R = {} \<Longrightarrow> region (kesp - 4) 4 \<inter> R = {} \<Longrightarrow> same_on R (ram k) (ram s)"
proof -
  let ?s3 = "saved ret (trap_entry h kcs s)" and ?t = "current s"
  have sp: "esp ?s3 = ?t" using saved_pushed(2)[of ret h kcs s] assms(3) by (simp add: P_STACKTOP_def)
  have p: "pushed ?s3 (frame_words ret (?t + 48) s) (ram s)"
    using saved_pushed(1)[of ret h kcs s] assms(3) by (simp add: P_STACKTOP_def add.commute)
  then have r3: "ram ?s3 = store_bytes ?t (concat (map le32 (frame_words ret (?t + 48) s))) (ram s)"
    by (simp add: pushed_def sp)
  have "region (?t + P_K_ESP) 4 \<inter> region ?t 72 = {}" using region_next[of 72 4 ?t] by (simp add: P_K_ESP_def)
  then have ke: "ld_mem32 (?t + P_K_ESP) (ram ?s3) = kesp"
    unfolding r3 kesp_def by (intro ld_mem32_same same_on_store) (simp_all add: Int_commute)
  have ramk: "ram k = st_mem32 (kesp - 4) a_restart (ram ?s3)" and esik: "esi k = ?t" and eipk: "eip k = ld_mem32 (?t + RETADR) (ram k)"
    and rest: "esp k = kesp - 4" "is_in_ring0 k = 0" "current k = ?t"
    unfolding k_def save_is Let_def using assms(4) by (simp_all add: saved_more trap_entry_fields ke sp push_def)
  have "units ld_mem32 4 18 ?t (ram k) = units ld_mem32 4 18 ?t (ram ?s3)"
    unfolding ramk using assms(5) by (intro units_same same_on_st_mem32) simp_all
  also have "\<dots> = frame_words ret (?t + 48) s" using pushed_units[OF p] by (simp add: sp)
  finally show u: "units ld_mem32 4 18 ?t (ram k) = frame_words ret (?t + 48) s" .
  show "eip k = ret" using arg_cong[OF u, of "\<lambda>ws. ws ! 12"]
    by (simp only: units_nth) (simp add: eipk RETADR_def frame_words_def)
  show "esp k = kesp - 4" "ld_mem32 (esp k) (ram k) = a_restart" "is_in_ring0 k = 0" "current k = ?t"
    using rest by (simp_all add: ramk)
  show "same_on R (ram k) (ram s)" if "region ?t 72 \<inter> R = {}" "region (kesp - 4) 4 \<inter> R = {}" for R
    unfolding ramk r3 using that by (intro same_on_trans[OF same_on_st_mem32 same_on_store]) simp_all
qed

text \<open>The registers of a user program, in the order of the frame, with the stack pointer in the place that \<^verbatim>\<open>iretd\<close> reads.\<close>

definition user_registers :: "kcpu \<Rightarrow> u32 list" where
  "user_registers s =
     [ucast (seg_gs s), ucast (seg_fs s), ucast (seg_es s), ucast (seg_ds s), edi s, esi s, ebp s, ebx s, edx s, ecx s,
      eax s, eip s, ucast (seg_cs s), eflags s, esp s, ucast (seg_ss s)]"

lemma ucast_up_down_16 [simp]: "ucast (ucast (v :: u16) :: u32) = v"
  by (rule bit_word_eqI) (auto simp: bit_ucast_iff)

lemma pops_units: "pops n s = (units ld_mem32 4 n (esp s) (ram s), s\<lparr>esp := esp s + of_nat (4 * n)\<rparr>)"
  by (induction n arbitrary: s) (simp_all add: pop_def algebra_simps)

lemma ret_to_proc_user:
  assumes "units ld_mem32 4 18 (esp s) (ram s) = frame_words ret sp u" "seg_cs u AND 3 \<noteq> 0"
  shows "user_registers (ret_to_proc s) = user_registers u"
    and "ram (ret_to_proc s) = ram s" "is_in_ring0 (ret_to_proc s) = is_in_ring0 s - 1"
    "tss_esp0 (ret_to_proc s) = tss_esp0 s" "current (ret_to_proc s) = current s"
proof -
  have cs: "ucast (seg_cs u) AND 3 \<noteq> (0 :: u32)"
  proof
    assume "ucast (seg_cs u) AND 3 = (0 :: u32)"
    then have "ucast (ucast (seg_cs u) AND 3 :: u32) = (0 :: u16)" by simp
    then show False using assms(2) by (simp add: unsigned_and_eq)
  qed
  have w: "ld_mem32 (esp s + of_nat (4 * i)) (ram s) = frame_words ret sp u ! i" if "i < 18" for i
    using arg_cong[OF assms(1), of "\<lambda>ws. ws ! i"] that by (simp only: units_nth)
  let ?g = "units ld_mem32 4 4 (esp s) (ram s)" and ?w = "units ld_mem32 4 8 (esp s + 16) (ram s)"
    and ?i = "units ld_mem32 4 3 (esp s + 52) (ram s)" and ?o = "units ld_mem32 4 2 (esp s + 64) (ram s)"
  have g: "?g ! i = frame_words ret sp u ! i" if "i < 4" for i using that w[of i] by (simp add: units_nth)
  have gp: "?w ! i = frame_words ret sp u ! (4 + i)" if "i < 8" for i
    using that w[of "4 + i"] by (simp add: units_nth algebra_simps)
  have ii: "?i ! i = frame_words ret sp u ! (13 + i)" if "i < 3" for i
    using that w[of "13 + i"] by (simp add: units_nth algebra_simps)
  have oo: "?o ! i = frame_words ret sp u ! (16 + i)" if "i < 2" for i
    using that w[of "16 + i"] by (simp add: units_nth algebra_simps)
  have eq: "ret_to_proc s = s\<lparr>is_in_ring0 := is_in_ring0 s - 1, seg_gs := ucast (?g ! 0), seg_fs := ucast (?g ! 1),
      seg_es := ucast (?g ! 2), seg_ds := ucast (?g ! 3), edi := ?w ! 0, esi := ?w ! 1, ebp := ?w ! 2, ebx := ?w ! 4,
      edx := ?w ! 5, ecx := ?w ! 6, eax := ?w ! 7, eip := ?i ! 0, seg_cs := ucast (?i ! 1), eflags := ?i ! 2,
      esp := ?o ! 0, seg_ss := ucast (?o ! 1)\<rparr>"
    using cs ii[of 1] by (simp add: ret_to_proc_def iretd_def pops_units Let_def frame_words_def ac_simps)
  show "user_registers (ret_to_proc s) = user_registers u"
    unfolding eq by (simp add: user_registers_def g gp ii oo frame_words_def)
  show "ram (ret_to_proc s) = ram s" "is_in_ring0 (ret_to_proc s) = is_in_ring0 s - 1"
    "tss_esp0 (ret_to_proc s) = tss_esp0 s" "current (ret_to_proc s) = current s"
    unfolding eq by simp_all
qed

lemma restart_user:
  fixes k u :: kcpu
  assumes "ld_mem32 (current k + P_FLAG) (ram k) AND 1 \<noteq> 1" "units ld_mem32 4 18 (current k) (ram k) = frame_words ret sp u"
    and "seg_cs u AND 3 \<noteq> 0"
  shows "user_registers (restart k) = user_registers u"
    and "is_in_ring0 (restart k) = is_in_ring0 k - 1" "tss_esp0 (restart k) = current k + P_STACKTOP" "current (restart k) = current k"
    and "ld_mem32 (current k + P_K_ESP) (ram (restart k)) = ld_mem32 (current k + P_K_ESP_ADDR) (ram k) + 4096"
proof -
  let ?t = "current k" and ?v = "ld_mem32 (current k + P_K_ESP_ADDR) (ram k) + 4096"
  define k2 where "k2 = k\<lparr>esp := ?t, ram := st_mem32 (?t + P_K_ESP) ?v (ram k), tss_esp0 := ?t + P_STACKTOP\<rparr>"
  have r: "restart k = ret_to_proc k2" using assms(1) by (simp add: restart_def k2_def Let_def)
  have "region (?t + P_K_ESP) 4 \<inter> region ?t (4 * 18) = {}" using region_next[of 72 4 ?t] by (simp add: P_K_ESP_def)
  then have "units ld_mem32 4 18 ?t (st_mem32 (?t + P_K_ESP) ?v (ram k)) = units ld_mem32 4 18 ?t (ram k)"
    by (intro units_same same_on_st_mem32) simp_all
  then have u: "units ld_mem32 4 18 (esp k2) (ram k2) = frame_words ret sp u" using assms(2) by (simp add: k2_def)
  show "user_registers (restart k) = user_registers u" unfolding r by (rule ret_to_proc_user(1)[OF u assms(3)])
  show "is_in_ring0 (restart k) = is_in_ring0 k - 1" "tss_esp0 (restart k) = ?t + P_STACKTOP" "current (restart k) = ?t"
    "ld_mem32 (?t + P_K_ESP) (ram (restart k)) = ?v"
    unfolding r using ret_to_proc_user(2-5)[OF u assms(3)] by (simp_all add: k2_def)
qed

text \<open>
  The start of a kernel thread: its frame goes to the 64 bytes below the end of its stack, and then a word
  8 bytes behind this end is overwritten, which lies in the next page.
\<close>

lemma restart_kernel_thread:
  fixes k :: kcpu
  defines "stack_end \<equiv> ld_mem32 (current k + KERNELESPREG) (ram k)"
  defines "m \<equiv> copy_up ESPREG (current k) (stack_end - 64) (ram k)"
  assumes "ld_mem32 (current k + P_FLAG) (ram k) AND 1 = 1" "ld_mem32 (current k + KERNELESPREG) m = stack_end"
  shows "ram (restart k) = st_mem32 (stack_end + 8) (ld_mem32 (stack_end + 12) m + 4096) m" and "tss_esp0 (restart k) = stack_end + 8"
proof -
  define k2 where "k2 = k\<lparr>esp := stack_end - 64, ram := st_mem32 (stack_end + 8) (ld_mem32 (stack_end + 12) m + 4096) m, tss_esp0 := stack_end + 8\<rparr>"
  have "restart k = ret_to_proc k2"
    using assms(3,4) by (simp add: restart_def k2_def Let_def m_def stack_end_def frame_offsets ac_simps)
  then show "ram (restart k) = st_mem32 (stack_end + 8) (ld_mem32 (stack_end + 12) m + 4096) m" "tss_esp0 (restart k) = stack_end + 8"
    by (simp_all add: ret_to_proc_def iretd_def pops_units Let_def k2_def)
qed

subsection \<open>Properties\<close>

text \<open>
  C16. An interrupt is not seen by a user thread: if the handler keeps the frame at the start of the structure of
  the thread, but for a value \<open>v\<close> that a system call puts in the place of \<^verbatim>\<open>eax\<close>, then \<^verbatim>\<open>restart\<close> gives back
  all general registers, segments, flags, the stack and the place of the program, with \<open>v\<close> in \<^verbatim>\<open>eax\<close>, on the
  same level and ready for the next interrupt. The handler runs on the kernel stack of the thread and
  returns to \<^verbatim>\<open>restart\<close>. Whatever else runs in between, other threads included, does not matter.
\<close>

theorem interrupt_keeps_user_thread:
  assumes "seg_cs s AND 3 \<noteq> 0" "tss_esp0 s = current s + P_STACKTOP" "is_in_ring0 s = - 1"
    and "region (ld_mem32 (current s + P_K_ESP) (ram s) - 4) 4 \<inter> region (current s) 72 = {}"
    and "k = save a_restart a_ret ret (trap_entry h kcs s)"
    and "current k' = current s" "is_in_ring0 k' = is_in_ring0 k" "ld_mem32 (current s + P_FLAG) (ram k') AND 1 \<noteq> 1"
    and "units ld_mem32 4 18 (current s) (ram k') = (units ld_mem32 4 18 (current s) (ram k))[11 := v]"
  shows "eip k = ret \<and> ld_mem32 (esp k) (ram k) = a_restart \<and> esp k + 4 = ld_mem32 (current s + P_K_ESP) (ram s)
     \<and> user_registers (restart k') = (user_registers s)[10 := v]
     \<and> is_in_ring0 (restart k') = - 1 \<and> tss_esp0 (restart k') = current s + P_STACKTOP \<and> current (restart k') = current s"
proof -
  note sv = save_user[OF assms(2-4), where a_restart = a_restart and a_ret = a_ret and ret = ret and h = h and kcs = kcs,
      folded assms(5)]
  have "(frame_words ret (current s + 48) s)[11 := v] = frame_words ret (current s + 48) (s\<lparr>eax := v\<rparr>)"
    by (simp add: frame_words_def)
  then have "units ld_mem32 4 18 (current k') (ram k') = frame_words ret (current s + 48) (s\<lparr>eax := v\<rparr>)"
    using assms(6,9) sv(1) by simp
  from restart_user[OF _ this] assms(1,6-8) sv
  show ?thesis by (simp add: user_registers_def)
qed

text \<open>A user thread with its structure at 0x1000 and its kernel stack ending at 0x9000; a call returns 42.\<close>

definition user_thread :: kcpu where
  "user_thread = \<lparr>eax = 4, ecx = 5, edx = 6, ebx = 7, esp = 0x8000000, ebp = 8, esi = 9, edi = 10, eflags = 0x3202, eip = 0x400000,
     ram = st_mem32 0x1048 0x9000 (\<lambda>_. 0), seg_cs = 0x23, seg_ds = 0x2B, seg_es = 0x2B, seg_fs = 0x2B, seg_gs = 0x1B,
     seg_ss = 0x2B, tss_esp0 = 0x1048, tss_ss0 = 0x10, is_in_ring0 = - 1, current = 0x1000\<rparr>"

definition in_kernel :: kcpu where
  "in_kernel = save 0xC0000100 0xC0000200 0xC0000300 (trap_entry 0xC0000400 8 user_thread)"

lemma in_kernel_facts:
  "ld_mem32 (current user_thread + P_K_ESP) (ram user_thread) = 0x9000" "is_in_ring0 in_kernel = 0" "current in_kernel = 0x1000"
  "units ld_mem32 4 18 0x1000 (ram in_kernel) = frame_words 0xC0000300 0x1030 user_thread"
  "ld_mem32 0x105C (ram in_kernel) = 0"
proof -
  show kesp: "ld_mem32 (current user_thread + P_K_ESP) (ram user_thread) = 0x9000" by (simp add: user_thread_def frame_offsets)
  have r: "region (0x9000 - 4) 4 \<inter> region (current user_thread) 72 = {}"
    by (simp add: user_thread_def region_disjoint)
  note sv = save_user[where s = user_thread and a_restart = "0xC0000100" and a_ret = "0xC0000200" and ret = "0xC0000300"
      and h = "0xC0000400" and kcs = 8, folded in_kernel_def, unfolded kesp, OF _ _ r]
  show "is_in_ring0 in_kernel = 0" "current in_kernel = 0x1000"
    "units ld_mem32 4 18 0x1000 (ram in_kernel) = frame_words 0xC0000300 0x1030 user_thread"
    using sv by (simp_all add: user_thread_def P_STACKTOP_def)
  have "same_on (region 0x105C 4) (ram in_kernel) (ram user_thread)"
    by (rule sv(7)) (simp_all add: user_thread_def P_STACKTOP_def region_disjoint)
  then have "ld_mem32 0x105C (ram in_kernel) = ld_mem32 0x105C (ram user_thread)" by (rule ld_mem32_same)
  also have "\<dots> = ld_mem32 0x105C (\<lambda>_. 0)"
    unfolding user_thread_def by (simp, rule ld_mem32_same[OF same_on_st_mem32]) (simp add: region_disjoint)
  also have "\<dots> = 0" by (simp add: ld_mem32_def of_le32_def)
  finally show "ld_mem32 0x105C (ram in_kernel) = 0" .
qed

theorem interrupt_keeps_user_thread_witness:
  "user_registers (restart in_kernel) = [0x1B, 0x2B, 0x2B, 0x2B, 10, 9, 8, 7, 6, 5, 4, 0x400000, 0x23, 0x3202, 0x8000000, 0x2B]"
proof -
  have e: "(units ld_mem32 4 18 0x1000 (ram in_kernel))[11 := 4] = units ld_mem32 4 18 0x1000 (ram in_kernel)"
    by (simp add: in_kernel_facts(4) frame_words_def) (simp add: user_thread_def)
  have r: "region (ld_mem32 (current user_thread + P_K_ESP) (ram user_thread) - 4) 4 \<inter> region (current user_thread) 72 = {}"
    unfolding in_kernel_facts(1) by (simp add: user_thread_def region_disjoint)
  have "user_registers (restart in_kernel) = (user_registers user_thread)[10 := 4]"
    using interrupt_keeps_user_thread[OF _ _ _ r in_kernel_def, of in_kernel 4] in_kernel_facts(2,3,5) e
    by (simp add: user_thread_def P_STACKTOP_def P_FLAG_def)
  then show ?thesis by (simp add: user_registers_def user_thread_def)
qed

end
