(* ===== verification/Spec2Isabelle.thy ===== *)
theory Spec2Isabelle
  imports Prelude CString Memmove NetOrder Checksum InetAton Number Printf PrintText Scanf Desc Idt Exceptions ArpTable NetDevice Skb Pci Am79c793 Arp Ip Icmp
    Udp NetRx NetMain Initcalls Startup Pages Kmalloc Paging Spaces Vfs Lists FileOps Tty Vga Keyboard KeyInput Threads Sched Boot Bios Syscall KernelMain Ports MathLib Listing ScanQueue Switch Entry
begin

text \<open>
  Jnix, a small i386 kernel: a library of models of its parts and of the theorems that make them
  correct. The paths below are relative to src/.

  \<^bold>\<open>The program.\<close> The boot code enters \<^verbatim>\<open>main\<close> of kernel/kernel.c. \<^verbatim>\<open>init_arch\<close> (arch/i386/init.c) makes the
  terminals, sizes the memory, maps it at 3 GB, fills the descriptor tables, programs the interrupt
  controller, lists the PCI devices and starts the clock. \<^verbatim>\<open>do_initcalls\<close> runs the registered
  initialisations, among them the address table, the keyboard and the network card. \<^verbatim>\<open>handle_net\<close>
  then asks for two hardware addresses and sends a datagram. Frames arrive by the interrupt of the
  card, which puts them in a queue; the clock interrupt takes one packet off it and hands it to ARP
  or IP, which reaches ICMP and UDP, whose answers go back to the driver. Beside this stand threads
  with address spaces and a round-robin scheduler, a heap on physical pages, a directory tree in
  memory with open files, terminals fed by the keyboard, formatted output and input, and the system
  calls of the library.

  \<^bold>\<open>Conventions.\<close> A machine integer is a word of its width, so arithmetic wraps as the processor's;
  where the C code converts between widths or signs the model does. A routine gives \<open>fault + 'a\<close>:
  \<open>Inr\<close> its result and the state it leaves, \<open>Inl\<close> what it does instead of returning (an access outside an
  object, a null pointer, a division fault, \<^verbatim>\<open>panic\<close>, a loop that does not end). A structure is a record
  with the fields of the source, an object behind a pointer an index into the table of its kind, the
  null pointer \<open>None\<close>. The kernel heap and linked lists live in a byte-addressed memory, page tables in
  frames of words. Hardware is a parameter: what a port or register returns is an argument, what is
  written is a log in the order of the writes. Loops are recursive functions with a measure. Those
  that may run forever (\<open>kb_wait\<close>, \<open>kb_ack\<close>, \<open>read_loop\<close>, \<open>scroll_loop\<close>, \<open>follow_mounts\<close>, \<open>visit\<close>,
  \<open>arp_wait\<close>, \<open>get_byte_from_kb_buf\<close>) are partial functions with an option value, read by \<open>terminates\<close>, and that they return is
  proved where it is claimed; no fuel is used.

  \<^bold>\<open>Theories and sources.\<close>
  \<^item> \<open>Prelude\<close>: words, faults, results, access to lists, maps and bytes, and the shared lemmas.
  \<^item> \<open>CString\<close>, \<open>Memmove\<close>: lib/string.c, include/string.h. \<open>Number\<close>, \<open>Printf\<close>, \<open>Scanf\<close>: lib/stdio.c, lib/stdlib.c.
    \<open>number\<close> equals a reference layout of sign, prefix, precision and padding, \<open>vsprintf\<close> stores the
    text of its directives and returns, \<open>sscanf\<close> reads back what \<open>vsprintf\<close> printed. \<open>PrintText\<close>: calls of
    \<^verbatim>\<open>printk\<close> one after the other write one text.
  \<^item> \<open>NetOrder\<close>, \<open>NetDevice\<close>: include/net/net.h, netdevice.h, ether.h, net/netdevice.c. \<open>Checksum\<close>,
    \<open>InetAton\<close>, \<open>Ip\<close>: net/ip.c. \<open>ArpTable\<close>, \<open>Arp\<close>: net/arp.c. \<open>Icmp\<close>, \<open>Udp\<close>: net/icmp.c, net/udp.c.
    \<open>Skb\<close>: net/skbuffer.c. \<open>Pci\<close>: arch/i386/pci.c. \<open>Am79c793\<close>: drivers/i386/am79c793.c. \<open>NetRx\<close>: the
    receiving path through all of them, with an echo request answered and a datagram echoed from the
    bytes received to the bytes sent. \<open>NetMain\<close>: the clock interrupt of arch/i386/timer.c and \<open>handle_net\<close>.
  \<^item> \<open>Pages\<close>, \<open>Kmalloc\<close>: mm/page.c, mm/kmalloc.c. The heap represents a set of live objects, apart from
    each other, that \<open>kmalloc\<close> extends and \<open>kfree\<close> shrinks. \<open>Lists\<close>: kernel/list.c and
    include/system/list.h on that heap, refining lists.
  \<^item> \<open>Paging\<close>, \<open>Spaces\<close>: arch/i386/page.c, the set-up of paging in arch/i386/init.c and the entry code of
    the page fault. What an address maps to is read off the tables (\<open>maps\<close>, \<open>writable\<close>).
    \<open>Boot\<close>: the memory at the start, from the map of the BIOS to the tables, and \<^verbatim>\<open>init_fork\<close> by itself.
  \<^item> \<open>Threads\<close>, \<open>Sched\<close>: kernel/thread.c, kernel/schedule.c and the thread part of kernel/kernel.c;
    the operations and the step relation with its invariant. \<open>Switch\<close>: the macro
    \<^verbatim>\<open>switch_to\<close> on registers and memory, and any number of threads that use it. \<open>Entry\<close>: \<^verbatim>\<open>save\<close>, \<^verbatim>\<open>restart\<close> and
    \<^verbatim>\<open>ret_to_proc\<close> of kernel/kernel.asm.
  \<^item> \<open>Vfs\<close>, \<open>FileOps\<close>: fs/file_op.c, fs/rootfs/super.c; names and directories, then open files.
  \<^item> \<open>Tty\<close>, \<open>Keyboard\<close>: kernel/tty.c, drivers/i386/keyboard.c, from a scan code to the console and the
    store into the input buffer. \<open>KeyInput\<close>: the states that terminals and keyboard reach, in all of which
    this store goes through the pointer that \<^verbatim>\<open>tty_create\<close> left dangling.
    \<open>ScanQueue\<close>: the buffer of scan codes as a queue that drops what meets it full, and the function that
    waits for a byte of it. \<open>Vga\<close>: arch/i386/vga.c. \<open>Listing\<close>: \<^verbatim>\<open>lsdir\<close>, from directory entries through
    \<^verbatim>\<open>printk\<close> to the terminal.
  \<^item> \<open>Ports\<close>: include/arch/i386/io.h on one history of port events. Routines of the interrupt controller, the
    clock, the display controller and PCI, written with its functions, do what the narrower views of
    \<open>Idt\<close>, \<open>Tty\<close> and \<open>Pci\<close> say; a block that a device plays back arrives in memory. \<open>MathLib\<close>: lib/math.c.
  \<^item> \<open>Desc\<close>, \<open>Idt\<close>: arch/i386/desc.c, idt.c, 8259A.c, timer.c, kernel/interrupt.c and the tables of
    arch/i386/init.c. \<open>Exceptions\<close>: the report of an exception, from the gate to the text on the screen. \<open>Bios\<close>: arch/i386/bios.c. \<open>Syscall\<close>: lib/unistd.c, kernel/system_call.c and the
    entry code of kernel/kernel.asm.
  \<^item> \<open>Initcalls\<close>, \<open>Startup\<close>: include/system/init.h with the linker script, and the start of the network from
    the registered initialisations to the datagram of \<^verbatim>\<open>handle_net\<close>. \<open>KernelMain\<close>: \<^verbatim>\<open>init_arch\<close> and \<^verbatim>\<open>main\<close> as a
    whole, up to that point.

  \<^bold>\<open>Interfaces.\<close> Eight locales state what a client relies on, and each is interpreted on the model:
  \<open>ether_link\<close> (a device that puts a header in front and sends, used by ARP, IP and the answers;
  provided by the card's driver), \<open>fifo_queue\<close> (the packet queue, provided by the linked list of
  buffers), \<open>address_table\<close> (a map with put, get and remove, provided by the hash table),
  \<open>object_allocator\<close> (fresh objects apart from the live ones, provided by \<open>kmalloc\<close> and \<open>kfree\<close>),
  \<open>round_robin\<close> (a cyclic order in which each step passes to the next, provided by \<open>schedule\<close>),
  \<open>bounded_queue\<close> (a queue of limited length, provided by the ring of scan codes), \<open>byte_view\<close> (what a
  driver sees of the history of the ports, provided by the logs of the interrupt and the display
  controller) and \<open>transfer_unit\<close> (a value of some bytes in memory, provided by bytes, words and
  double words).

  \<^bold>\<open>Behaviour that is wrong in the code\<close> is modelled as it is, and the bounds and assumptions of the
  properties keep away from it: a receive ring that is not full, a format without a star, a bucket of
  the table with a single address. Where the flaw is in every run, as with the input buffers, the missing
  page and the missing name, the property states it. Lemmas beside the properties show what happens
  outside. \<^verbatim>\<open>main\<close> calls \<^verbatim>\<open>handle_net\<close>, which never returns, before it creates the first thread; so the
  operations on threads are treated one by one and in any order (\<open>kstep\<close>), and no run of \<^verbatim>\<open>main\<close> is composed
  that goes past \<^verbatim>\<open>handle_net\<close>.

  \<^bold>\<open>Not modelled.\<close> The loads of descriptor registers, \<^verbatim>\<open>cli\<close> and \<^verbatim>\<open>sti\<close> are single
  instructions without an effect on the states of the models, and the text of the spin locks would not assemble. An interrupt is taken
  between two operations, never inside one. The boot code is assembly; of kernel/kernel.asm the
  stubs of interrupts, page faults and system calls and the way back to a thread are modelled. fs/namei.c, fs/devfs, sock.c,
  sock_s.c, lib/assert.c, lib/errno.c, mm/mm.c and kernel/spinlock.c are not part of the built kernel. Of the
  messages for debugging, which change nothing but the screen, only those of \<^verbatim>\<open>lsdir\<close>, the exceptions and
  the spurious interrupts are modelled. The body of \<^verbatim>\<open>init\<close> behind its endless loop is never reached.
\<close>

end
